(* ===== verification/Prelude.thy ===== *)
theory Prelude
  imports Complex_Main "HOL-Library.Word"
begin

text \<open>
  Shared vocabulary of the development: byte and fixed-width integer types, C strings,
  the 64-bit signed wrap-around used for amounts of cash, positional number systems,
  and the small list facts the components share.
\<close>

unbundle bit_operations_syntax

named_theorems pos_simps "positional number systems"
named_theorems wrap_simps "two's complement arithmetic on int"

section \<open>Machine types\<close>

type_synonym byte = "8 word"
type_synonym u16 = "16 word"
type_synonym u32 = "32 word"
type_synonym u64 = "64 word"

text \<open>Bytes of a C++ \<open>string\<close> and back.\<close>

definition byte_of_char :: "char \<Rightarrow> byte" where
  "byte_of_char c = of_nat (of_char c)"

definition char_of_byte :: "byte \<Rightarrow> char" where
  "char_of_byte b = char_of (unat b)"

lemma of_char_less_256 [simp]: "(of_char c :: nat) < 256"
proof -
  have "(of_char c :: nat) mod 256 = of_char c"
    using of_char_mod_256 [of c] by simp
  then show ?thesis
    by (metis mod_less_divisor zero_less_numeral)
qed

lemma unat_byte_less [simp]: "unat (b :: byte) < 256"
  using unsigned_less [of b] by simp

lemma unat_byte_of_char [simp]: "unat (byte_of_char c) = of_char c"
  by (simp add: byte_of_char_def unat_of_nat)

lemma char_of_byte_of_char [simp]: "char_of_byte (byte_of_char c) = c"
  by (simp add: char_of_byte_def)

lemma byte_of_char_of_byte [simp]: "byte_of_char (char_of_byte b) = b"
  by (simp add: char_of_byte_def byte_of_char_def)

lemma byte_of_char_inject [simp]: "byte_of_char c = byte_of_char d \<longleftrightarrow> c = d"
  by (metis char_of_byte_of_char)

definition bytes_of_string :: "string \<Rightarrow> byte list" where
  "bytes_of_string s = map byte_of_char s"

definition string_of_bytes :: "byte list \<Rightarrow> string" where
  "string_of_bytes bs = map char_of_byte bs"

lemma string_of_bytes_of_string [simp]: "string_of_bytes (bytes_of_string s) = s"
  by (simp add: string_of_bytes_def bytes_of_string_def comp_def)

lemma char_of_byte_0 [simp]: "char_of_byte 0 = CHR 0x00"
  by (simp add: char_of_byte_def char_of_def)

lemma length_bytes_of_string [simp]: "length (bytes_of_string s) = length s"
  by (simp add: bytes_of_string_def)

text \<open>Copying \<open>bs\<close> into a byte array from index \<open>i\<close>: \<open>memcpy\<close>, or \<open>recv\<close> into a vector.\<close>

definition write_at :: "nat \<Rightarrow> byte list \<Rightarrow> byte list \<Rightarrow> byte list" where
  "write_at i bs v = take i v @ bs @ drop (i + length bs) v"

lemma length_write_at: "i + length bs \<le> length v \<Longrightarrow> length (write_at i bs v) = length v"
  by (simp add: write_at_def)

lemma take_write_at: "i + length bs \<le> length v \<Longrightarrow> take (i + length bs) (write_at i bs v) = take i v @ bs"
  by (simp add: write_at_def)

text \<open>What a C function sees of a string: the characters before the first NUL.\<close>

definition c_str :: "string \<Rightarrow> string" where
  "c_str s = takeWhile (\<lambda>c. c \<noteq> CHR 0x00) s"

lemma c_str_id [simp]: "CHR 0x00 \<notin> set s \<Longrightarrow> c_str s = s"
  by (auto simp: c_str_def takeWhile_eq_all_conv)

text \<open>\<open>isspace\<close> of the C locale.\<close>

definition isspace :: "char \<Rightarrow> bool" where
  "isspace c \<longleftrightarrow> c \<in> {CHR '' '', CHR 0x09, CHR 0x0A, CHR 0x0B, CHR 0x0C, CHR 0x0D}"

section \<open>Signed 64-bit arithmetic on int\<close>

text \<open>
  An \<open>int64_t\<close> is an \<^typ>\<open>int\<close> in the range \<^term>\<open>{- (2 ^ 63) ..< 2 ^ 63 :: int}\<close>; an
  operation that leaves the range wraps around, as the compiled two's complement code does.
\<close>

definition wrap64 :: "int \<Rightarrow> int" where
  "wrap64 x = (x + 2 ^ 63) mod 2 ^ 64 - 2 ^ 63"

definition in64 :: "int \<Rightarrow> bool" where
  "in64 x \<longleftrightarrow> - (2 ^ 63) \<le> x \<and> x < 2 ^ 63"

lemma in64_wrap64 [simp]: "in64 (wrap64 x)"
  by (simp add: in64_def wrap64_def)

lemma wrap64_id [simp, wrap_simps]: "in64 x \<Longrightarrow> wrap64 x = x"
  by (simp add: in64_def wrap64_def)

lemma wrap64_eq_mod: "wrap64 x mod 2 ^ 64 = x mod 2 ^ 64"
proof -
  have "((x + 2 ^ 63) mod 2 ^ 64 - 2 ^ 63) mod 2 ^ 64 = (x + 2 ^ 63 - 2 ^ 63) mod (2 ^ 64 :: int)"
    by (rule mod_diff_left_eq)
  then show ?thesis by (simp add: wrap64_def)
qed

lemma wrap64_cong: "x mod 2 ^ 64 = y mod 2 ^ 64 \<Longrightarrow> wrap64 x = wrap64 y"
  unfolding wrap64_def using mod_add_cong [of x "2 ^ 64" y "2 ^ 63" "2 ^ 63"] by simp

lemma wrap64_add_left [wrap_simps]: "wrap64 (wrap64 x + y) = wrap64 (x + y)"
  by (rule wrap64_cong) (rule mod_add_cong [OF wrap64_eq_mod refl])

lemma wrap64_diff_left [wrap_simps]: "wrap64 (wrap64 x - y) = wrap64 (x - y)"
  by (rule wrap64_cong) (rule mod_diff_cong [OF wrap64_eq_mod refl])

lemma wrap64_diff_right [wrap_simps]: "wrap64 (x - wrap64 y) = wrap64 (x - y)"
  by (rule wrap64_cong) (rule mod_diff_cong [OF refl wrap64_eq_mod])

section \<open>Lists\<close>

lemma takeWhile_replicate_append:
  "P x \<Longrightarrow> ys = [] \<or> \<not> P (hd ys) \<Longrightarrow> takeWhile P (replicate n x @ ys) = replicate n x"
  by (cases ys) (auto simp: takeWhile_append)

lemma dropWhile_replicate_append:
  "P x \<Longrightarrow> ys = [] \<or> \<not> P (hd ys) \<Longrightarrow> dropWhile P (replicate n x @ ys) = ys"
  by (cases ys) (auto simp: dropWhile_append)

lemma takeWhile_append_stop: "ys = [] \<or> \<not> P (hd ys) \<Longrightarrow> takeWhile P (xs @ ys) = takeWhile P xs"
  by (induction xs) (auto, cases ys, auto)

lemma dropWhile_append_stop: "ys = [] \<or> \<not> P (hd ys) \<Longrightarrow> dropWhile P (xs @ ys) = dropWhile P xs @ ys"
  by (cases ys) (auto simp: dropWhile_append)

lemma takeWhile_eq_replicate: "takeWhile (\<lambda>y. y = x) xs = replicate (length (takeWhile (\<lambda>y. y = x) xs)) x"
  by (induction xs) auto

lemma replicate_dropWhile:
  "replicate (length (takeWhile (\<lambda>y. y = x) xs)) x @ dropWhile (\<lambda>y. y = x) xs = xs"
  by (metis takeWhile_eq_replicate takeWhile_dropWhile_id)

lemma hd_dropWhile_eq: "dropWhile (\<lambda>y. y = x) xs = [] \<or> hd (dropWhile (\<lambda>y. y = x) xs) \<noteq> x"
  using hd_dropWhile [of "\<lambda>y. y = x" xs] by blast

section \<open>Positional number systems\<close>

text \<open>The value of a digit list, least significant digit first, and most significant first.\<close>

primrec le_val :: "nat \<Rightarrow> nat list \<Rightarrow> nat" where
  "le_val b [] = 0"
| "le_val b (d # ds) = d + b * le_val b ds"

definition be_val :: "nat \<Rightarrow> nat list \<Rightarrow> nat" where
  "be_val b ds = le_val b (rev ds)"

lemma le_val_append [pos_simps]: "le_val b (xs @ ys) = le_val b xs + b ^ length xs * le_val b ys"
  by (induction xs) (auto simp: algebra_simps)

lemma be_val_Nil [simp]: "be_val b [] = 0"
  by (simp add: be_val_def)

lemma be_val_snoc [simp]: "be_val b (ds @ [d]) = be_val b ds * b + d"
  by (simp add: be_val_def)

lemma be_val_Cons [pos_simps]: "be_val b (d # ds) = d * b ^ length ds + be_val b ds"
  by (simp add: be_val_def le_val_append)

lemma be_val_zeros [simp]: "be_val b (replicate n 0 @ ds) = be_val b ds"
  by (induction n) (auto simp: be_val_Cons)

lemma be_val_all_zero [simp]: "be_val b (replicate n 0) = 0"
  using be_val_zeros [of b n "[]"] by simp

lemma le_val_less: "\<forall>d \<in> set ds. d < b \<Longrightarrow> le_val b ds < b ^ length ds"
proof (induction ds)
  case Nil
  then show ?case by simp
next
  case (Cons d ds)
  then have "d < b" and "le_val b ds + 1 \<le> b ^ length ds" by auto
  then have "d + b * le_val b ds < b * (le_val b ds + 1)" by simp
  also have "\<dots> \<le> b * b ^ length ds"
    using \<open>le_val b ds + 1 \<le> b ^ length ds\<close> by (rule mult_le_mono2)
  finally show ?case by simp
qed

lemma be_val_less: "\<forall>d \<in> set ds. d < b \<Longrightarrow> be_val b ds < b ^ length ds"
  using le_val_less [of "rev ds" b] by (simp add: be_val_def)

lemma be_val_strip: "be_val b (dropWhile (\<lambda>d. d = 0) ds) = be_val b ds"
proof -
  have "be_val b ds = be_val b (replicate (length (takeWhile (\<lambda>d. d = 0) ds)) 0 @ dropWhile (\<lambda>d. d = 0) ds)"
    by (simp add: replicate_dropWhile)
  then show ?thesis by simp
qed

text \<open>Two digit lists without a leading zero and with the same value are equal.\<close>

definition canonical :: "nat \<Rightarrow> nat list \<Rightarrow> bool" where
  "canonical b ds \<longleftrightarrow> (\<forall>d \<in> set ds. d < b) \<and> (ds = [] \<or> hd ds \<noteq> 0)"

lemma canonical_ge: "canonical b ds \<Longrightarrow> ds \<noteq> [] \<Longrightarrow> b ^ (length ds - 1) \<le> be_val b ds"
  by (cases ds) (auto simp: canonical_def be_val_Cons trans_le_add1)

lemma canonical_butlast: "canonical b (ds @ [d]) \<Longrightarrow> canonical b ds"
  by (cases ds) (auto simp: canonical_def)

lemma canonical_zero: "canonical b ds \<Longrightarrow> be_val b ds = 0 \<Longrightarrow> ds = []"
proof (rule ccontr)
  assume c: "canonical b ds" and z: "be_val b ds = 0" and ne: "ds \<noteq> []"
  then have "b ^ (length ds - 1) = 0" using canonical_ge by fastforce
  moreover have "0 < b" using c ne by (cases ds) (auto simp: canonical_def)
  ultimately show False by simp
qed

lemma canonical_unique:
  "canonical b xs \<Longrightarrow> canonical b ys \<Longrightarrow> be_val b xs = be_val b ys \<Longrightarrow> xs = ys"
proof (induction xs arbitrary: ys rule: rev_induct)
  case Nil
  then show ?case using canonical_zero [of b ys] by simp
next
  case (snoc x xs)
  have "ys \<noteq> []"
    using canonical_zero [OF snoc.prems(1)] snoc.prems(3) by auto
  then obtain zs y where ys: "ys = zs @ [y]" by (metis rev_exhaust)
  have d: "x < b" "y < b" using snoc.prems(1,2) by (auto simp: canonical_def ys)
  have eq: "be_val b xs * b + x = be_val b zs * b + y" using snoc.prems(3) ys by simp
  have "(be_val b xs * b + x) mod b = x" and "(be_val b zs * b + y) mod b = y" using d by simp_all
  with eq have xy: "x = y" by simp
  with eq d have "be_val b xs = be_val b zs" by simp
  moreover have "canonical b xs" "canonical b zs"
    using snoc.prems(1,2) ys canonical_butlast by blast+
  ultimately have "xs = zs" using snoc.IH by blast
  with xy ys show ?case by simp
qed

lemma canonical_strip: "\<forall>d \<in> set ds. d < b \<Longrightarrow> canonical b (dropWhile (\<lambda>d. d = 0) ds)"
  using hd_dropWhile_eq [of 0 ds] by (auto simp: canonical_def dest: set_dropWhileD)

section \<open>Fixed-width integers in memory\<close>

text \<open>The unsigned integer stored little-endian in a byte sequence, and the reverse.\<close>

definition read_le :: "byte list \<Rightarrow> 'a::len word" where
  "read_le bs = of_nat (le_val 256 (map unat bs))"

primrec write_le :: "nat \<Rightarrow> nat \<Rightarrow> byte list" where
  "write_le 0 x = []"
| "write_le (Suc n) x = of_nat x # write_le n (x div 256)"

lemma length_write_le [simp]: "length (write_le n x) = n"
  by (induction n arbitrary: x) auto

lemma le_val_write_le [pos_simps]: "le_val 256 (map unat (write_le n x)) = x mod 256 ^ n"
  by (induction n arbitrary: x) (simp_all add: unat_of_nat mod_mult2_eq)

lemma le_val_bytes_less: "le_val 256 (map unat (bs :: byte list)) < 256 ^ length bs"
  using le_val_less [of "map unat bs" 256] by simp

lemma byte_256 [simp]: "(256 :: byte) = 0"
  using word_exp_length_eq_0 [where ?'a = 8] by simp

lemma write_le_le_val: "write_le (length bs) (le_val 256 (map unat bs)) = bs"
  by (induction bs) simp_all

lemma read_le_write_le: "unat x < 256 ^ n \<Longrightarrow> read_le (write_le n (unat x)) = x"
  by (simp add: read_le_def le_val_write_le)

lemma write_le_read_le:
  assumes "256 ^ length bs = (2 :: nat) ^ LENGTH('a)"
  shows "write_le (length bs) (unat (read_le bs :: 'a::len word)) = bs"
  using assms le_val_bytes_less [of bs] write_le_le_val [of bs] by (simp add: read_le_def unat_of_nat)

lemma read_le_inject:
  assumes "length as = n" "length bs = n" "256 ^ n \<le> (2 :: nat) ^ LENGTH('a)"
  shows "(read_le as :: 'a::len word) = read_le bs \<longleftrightarrow> as = bs"
proof
  assume "(read_le as :: 'a word) = read_le bs"
  moreover have "le_val 256 (map unat cs) < 2 ^ LENGTH('a)" if "length cs = n" for cs :: "byte list"
    using le_val_bytes_less [of cs] that assms(3) by simp
  ultimately have "le_val 256 (map unat as) = le_val 256 (map unat bs)"
    unfolding read_le_def using assms(1,2) by (simp add: word_unat_eq_iff unat_of_nat)
  then show "as = bs" using write_le_le_val [of as] write_le_le_val [of bs] assms(1,2) by simp
qed simp

end
