(* ===== verification/Datagram.thy ===== *)
theory Datagram
  imports Prelude
begin

text \<open>
  The wire unit of the node network, \<open>src/gov/socket/datagram.{h,cpp}\<close>, and the receiving
  side of \<open>src/gov/socket/client.cpp\<close>. A datagram is a byte vector whose first six bytes are
  a little-endian header (total size, service), the decoded service number and the number
  \<open>dend\<close> of bytes received so far.

  The default constructor leaves the service uninitialised; the model starts it at zero, and it
  is written before it is read.

  The kernel's receive queue of a socket is a list of events; \<open>sys_recv\<close> is the part of
  \<open>recv(2)\<close> the code relies on (after an orderly shutdown \<open>errno\<close> is neither
  \<open>EINPROGRESS\<close> nor \<open>EAGAIN\<close>). A failed \<open>assert\<close> is the outcome \<open>Abort\<close>.
  The lemmas show the header round trip, that a datagram is reassembled from any segmentation
  of its bytes without touching what follows it, that a header announcing fewer than six bytes
  aborts the process, and that \<open>recv(expected_service)\<close> can return a freed pointer.
\<close>

section \<open>The code\<close>

record datagram =
  dbytes :: "byte list"
  service :: u16
  dend :: nat

definition datagram_h :: nat where "datagram_h = 6"
definition datagram_maxsize :: nat where "datagram_maxsize = 100000"

definition datagram0 :: datagram where
  "datagram0 = \<lparr>dbytes = [], service = 0, dend = 0\<rparr>"

text \<open>\<open>vector::resize\<close>: truncate, or append value-initialised elements.\<close>

definition resize :: "nat \<Rightarrow> byte list \<Rightarrow> byte list" where
  "resize n v = take n v @ replicate (n - length v) 0"

text \<open>The header fields; \<open>None\<close> is the failed assertion on the vector's size.\<close>

definition encode_size :: "u32 \<Rightarrow> byte list \<Rightarrow> byte list option" where
  "encode_size sz v =
     (if length v < datagram_h then None
      else Some (v[0 := ucast (sz AND 0xff),
                   1 := ucast (drop_bit 8 sz AND 0xff),
                   2 := ucast (drop_bit 16 sz AND 0xff),
                   3 := ucast (drop_bit 24 sz AND 0xff)]))"

definition decode_size :: "byte list \<Rightarrow> u32 option" where
  "decode_size v =
     (if \<not> length v > 3 then None
      else Some (ucast (v ! 0) OR push_bit 8 (ucast (v ! 1)) OR push_bit 16 (ucast (v ! 2))
                 OR push_bit 24 (ucast (v ! 3))))"

definition encode_service :: "u16 \<Rightarrow> byte list \<Rightarrow> byte list option" where
  "encode_service svc v =
     (if length v < datagram_h then None
      else Some (v[4 := ucast (svc AND 0xff), 5 := ucast (drop_bit 8 svc AND 0xff)]))"

definition decode_service :: "byte list \<Rightarrow> u16 option" where
  "decode_service v =
     (if \<not> length v > 5 then None
      else Some (ucast (v ! 4) OR push_bit 8 (ucast (v ! 5))))"

text \<open>The three constructors. The vector is resized first and its header written then.\<close>

definition with_header :: "u16 \<Rightarrow> byte list \<Rightarrow> byte list option" where
  "with_header svc v = Option.bind (encode_size (of_nat (length v)) v) (encode_service svc)"

definition datagram_svc :: "u16 \<Rightarrow> datagram option" where
  "datagram_svc svc = map_option (\<lambda>v. \<lparr>dbytes = v, service = svc, dend = length v\<rparr>)
     (with_header svc (resize datagram_h []))"

definition datagram_u16 :: "u16 \<Rightarrow> u16 \<Rightarrow> datagram option" where
  "datagram_u16 svc payload = map_option
     (\<lambda>v. let v' = v[datagram_h := ucast (payload AND 0xff), datagram_h + 1 := ucast (drop_bit 8 payload)]
          in \<lparr>dbytes = v', service = svc, dend = length v'\<rparr>)
     (with_header svc (resize (datagram_h + 2) []))"

definition datagram_str :: "u16 \<Rightarrow> string \<Rightarrow> datagram option" where
  "datagram_str svc payload =
     (if \<not> datagram_h + length payload < datagram_maxsize then None
      else map_option
        (\<lambda>v. let v' = take datagram_h v @ bytes_of_string payload
             in \<lparr>dbytes = v', service = svc, dend = length v'\<rparr>)
        (with_header svc (resize (datagram_h + length payload) [])))"

definition completed :: "datagram \<Rightarrow> bool" where
  "completed d \<longleftrightarrow> dend d = length (dbytes d) \<and> dbytes d \<noteq> []"

text \<open>
  \<open>sendto\<close>, with \<open>n\<close> the value returned by \<open>write(2)\<close>. The empty string is success.
\<close>

definition sendto :: "nat \<Rightarrow> int \<Rightarrow> datagram \<Rightarrow> string" where
  "sendto sock n d =
     (if length (dbytes d) \<ge> datagram_maxsize then ''Error. Datagram is too big.''
      else if sock = 0 then ''Error. Connection is closed.''
      else if n < 0 then ''Error. Failure writting to socket.''
      else if n \<noteq> int (length (dbytes d)) then ''Error. Unexpected returning size while wrtting to socket''
      else '''')"

text \<open>The receive queue of a connected socket and \<open>recv(2)\<close> asked for at most \<open>n\<close> bytes.\<close>

datatype net_event = Data "byte list" | Timeout | Hangup

datatype sys_result = Got "byte list" | Would_Block | Ended

fun sys_recv :: "nat \<Rightarrow> net_event list \<Rightarrow> sys_result \<times> net_event list" where
  "sys_recv n [] = (Would_Block, [])"
| "sys_recv n (Timeout # es) = (Would_Block, es)"
| "sys_recv n (Hangup # es) = (Ended, Hangup # es)"
| "sys_recv n (Data bs # es) =
     (if bs = [] then sys_recv n es
      else if length bs \<le> n then (Got bs, es)
      else (Got (take n bs), Data (drop n bs) # es))"

datatype outcome = Ok | Err string | Abort

text \<open>\<open>a - b\<close> on \<open>size_t\<close>.\<close>

definition size_sub :: "nat \<Rightarrow> nat \<Rightarrow> nat" where
  "size_sub a b = nat ((int a - int b) mod 2 ^ 64)"

text \<open>The second half of \<open>recvfrom\<close>: receive what is missing of the announced size.\<close>

definition recv_body :: "datagram \<Rightarrow> net_event list \<Rightarrow> outcome \<times> datagram \<times> net_event list" where
  "recv_body d es =
     (case sys_recv (size_sub (length (dbytes d)) (dend d)) es of
        (Got bs, es') \<Rightarrow>
          (if bs = [] then (Err ''Error. Incoming datagram is too big.'', d, es')
           else (Ok, d\<lparr>dbytes := write_at (dend d) bs (dbytes d), dend := dend d + length bs\<rparr>, es'))
      | (Would_Block, es') \<Rightarrow> (Err ''Error.3 Timeout waiting for data from peer.'', d, es')
      | (Ended, es') \<Rightarrow> (Err ''Error. Incoming datagram is too big.'', d, es'))"

text \<open>The first half, once some bytes of the header have arrived.\<close>

definition recv_header :: "datagram \<Rightarrow> net_event list \<Rightarrow> outcome \<times> datagram \<times> net_event list" where
  "recv_header d es =
     (if dend d < datagram_h then (Ok, d, es)
      else case decode_size (dbytes d) of
             None \<Rightarrow> (Abort, d, es)
           | Some sz \<Rightarrow>
               if unat sz > datagram_maxsize
               then (Err ''Error. Incoming datagram exceeded size limit.'', d, es)
               else
                 let d = d\<lparr>dbytes := resize (unat sz) (dbytes d)\<rparr>
                 in case decode_service (dbytes d) of
                      None \<Rightarrow> (Abort, d, es)
                    | Some svc \<Rightarrow>
                        let d = d\<lparr>service := svc\<rparr>
                        in if dend d = unat sz then (Ok, d, es) else recv_body d es)"

definition recvfrom :: "nat \<Rightarrow> datagram \<Rightarrow> net_event list \<Rightarrow> outcome \<times> datagram \<times> net_event list" where
  "recvfrom sock d es =
     (if sock = 0 then (Err ''Error. Connection is closed.'', d, es)
      else if dend d < datagram_h then
        (let d = (if length (dbytes d) < datagram_h then d\<lparr>dbytes := resize datagram_h (dbytes d)\<rparr> else d)
         in case sys_recv (datagram_h - dend d) es of
              (Would_Block, es') \<Rightarrow> (Err ''Timeout waiting for data from peer.'', d, es')
            | (Ended, es') \<Rightarrow> (Err ''Connection ended by peer.'', d, es')
            | (Got bs, es') \<Rightarrow>
                (if bs = [] then (Err ''Connection ended by peer.'', d, es')
                 else recv_header
                   (d\<lparr>dbytes := write_at (dend d) bs (dbytes d), dend := dend d + length bs\<rparr>) es'))
      else recv_body d es)"

text \<open>The payload: a C string after the header, or a 16-bit number.\<close>

definition parse_string :: "datagram \<Rightarrow> string" where
  "parse_string d =
     (let sz = int (length (dbytes d)) - int datagram_h + 1
      in if sz < 2 then [] else c_str (string_of_bytes (drop datagram_h (dbytes d))))"

definition parse_uint16 :: "datagram \<Rightarrow> u16" where
  "parse_uint16 d =
     (if length (dbytes d) \<noteq> datagram_h + 2 then 0
      else ucast (dbytes d ! datagram_h) OR push_bit 8 (ucast (dbytes d ! (datagram_h + 1))))"

text \<open>
  \<open>client::recv()\<close>: call \<open>recvfrom\<close> until the datagram is complete or an error occurs; the
  result is the error text or the datagram, with the queue left behind. The boolean says
  whether the socket was disconnected. The flag \<open>program::_this.terminated\<close> is false while
  the call runs. The loop ends because every call that succeeds takes bytes from the queue.
\<close>

datatype recv_result = Received datagram | Failed string | Aborted

definition queued :: "net_event list \<Rightarrow> nat" where
  "queued es = (\<Sum>e\<leftarrow>es. case e of Data bs \<Rightarrow> length bs | _ \<Rightarrow> 0)"

lemma queued_simps [simp]:
  "queued [] = 0" "queued (Timeout # es) = queued es" "queued (Hangup # es) = queued es"
  "queued (Data bs # es) = length bs + queued es"
  by (simp_all add: queued_def)

lemma sys_recv_Got: "sys_recv n es = (Got bs, es') \<Longrightarrow> queued es = length bs + queued es'"
  by (induction n es rule: sys_recv.induct) (auto split: if_splits)

lemma recv_body_queued:
  "recv_body d es = (Ok, d', es') \<Longrightarrow> queued es' < queued es"
  by (auto simp: recv_body_def dest: sys_recv_Got split: prod.splits sys_result.splits if_splits)

lemma recv_header_queued: "recv_header d es = (Ok, d', es') \<Longrightarrow> queued es' \<le> queued es"
  by (auto simp: recv_header_def Let_def dest!: recv_body_queued split: if_splits option.splits)

lemma nonempty_le_less: "bs \<noteq> [] \<Longrightarrow> i \<le> j \<Longrightarrow> i < length bs + (j :: nat)"
  by (cases bs) simp_all

lemma recvfrom_queued: "recvfrom sock d es = (Ok, d', es') \<Longrightarrow> queued es' < queued es"
  by (auto simp: recvfrom_def Let_def intro: nonempty_le_less
      dest!: sys_recv_Got recv_body_queued recv_header_queued
      split: prod.splits sys_result.splits if_splits)

function client_recv_loop :: "nat \<Rightarrow> datagram \<Rightarrow> net_event list \<Rightarrow> recv_result \<times> bool \<times> net_event list" where
  "client_recv_loop sock d es =
     (case recvfrom sock d es of
        (Ok, d', es') \<Rightarrow>
          (if completed d' then (Received d', False, es') else client_recv_loop sock d' es')
      | (Err e, d', es') \<Rightarrow> (Failed e, True, es')
      | (Abort, d', es') \<Rightarrow> (Aborted, False, es'))"
  by pat_completeness auto
termination
  by (relation "measure (\<lambda>(sock, d, es). queued es)") (auto dest!: recvfrom_queued [OF sym])

declare client_recv_loop.simps [simp del]

definition client_recv :: "nat \<Rightarrow> net_event list \<Rightarrow> recv_result \<times> bool \<times> net_event list" where
  "client_recv sock es = client_recv_loop sock datagram0 es"

text \<open>
  \<open>client::recv(expected_service)\<close> over the results of the successive \<open>recv()\<close> calls. Each
  received datagram is heap-allocated; its address is its position in the list. \<open>delete\<close> adds
  the address to the freed ones. The variable \<open>r\<close> inside the loop shadows the outer one, so
  the return on an error datagram returns the pointer of the first datagram.
\<close>

datatype expect_result = Ret_Err string | Ret_Dgram nat

fun recv_expected_loop ::
  "u16 \<Rightarrow> u16 \<Rightarrow> nat \<Rightarrow> nat \<Rightarrow> datagram \<Rightarrow> (string + datagram) list \<Rightarrow> nat set \<Rightarrow>
   (expect_result \<times> nat set) option" where
  "recv_expected_loop err expected outer cur d rs freed =
     (if service d = err then Some (Ret_Dgram outer, freed)
      else if service d = expected then Some (Ret_Dgram cur, freed)
      else case rs of
             [] \<Rightarrow> None
           | Inl e # rs' \<Rightarrow> Some (Ret_Err e, insert cur freed)
           | Inr d' # rs' \<Rightarrow>
               recv_expected_loop err expected outer (Suc cur) d' rs' (insert cur freed))"

definition recv_expected ::
  "u16 \<Rightarrow> u16 \<Rightarrow> (string + datagram) list \<Rightarrow> (expect_result \<times> nat set) option" where
  "recv_expected err expected rs =
     (case rs of
        [] \<Rightarrow> None
      | Inl e # rs' \<Rightarrow> Some (Ret_Err e, {})
      | Inr d # rs' \<Rightarrow> recv_expected_loop err expected 0 0 d rs' {})"

text \<open>
  \<open>client::send\<close> and \<open>client::send_recv\<close>; \<open>n\<close> is what \<open>write(2)\<close> returns. The boolean
  says whether the socket was disconnected.
\<close>

definition client_send :: "nat \<Rightarrow> int \<Rightarrow> datagram \<Rightarrow> string \<times> bool" where
  "client_send sock n d =
     (if sock = 0 then (''Error. Sending datagram before connecting.'', False)
      else let r = sendto sock n d in (r, r \<noteq> []))"

definition client_send_recv :: "nat \<Rightarrow> int \<Rightarrow> datagram \<Rightarrow> net_event list \<Rightarrow> recv_result \<times> bool \<times> net_event list" where
  "client_send_recv sock n d es =
     (case client_send sock n d of
        (r, disc) \<Rightarrow> if r \<noteq> [] then (Failed r, disc, es) else client_recv sock es)"

section \<open>The header\<close>

text \<open>The six bytes of a header.\<close>

definition header :: "u32 \<Rightarrow> u16 \<Rightarrow> byte list" where
  "header sz svc =
     [ucast (sz AND 0xff), ucast (drop_bit 8 sz AND 0xff), ucast (drop_bit 16 sz AND 0xff),
      ucast (drop_bit 24 sz AND 0xff), ucast (svc AND 0xff), ucast (drop_bit 8 svc AND 0xff)]"

lemma length_header [simp]: "length (header sz svc) = 6"
  by (simp add: header_def)

lemma header_nonempty: "header sz svc \<noteq> []"
  by (simp add: header_def)

lemma length_resize [simp]: "length (resize n v) = n"
  by (simp add: resize_def)

lemma six_cases: "6 \<le> length v \<Longrightarrow> \<exists>a b c d e f r. v = a # b # c # d # e # f # r"
  by (auto simp: numeral_eq_Suc Suc_le_length_iff)

lemma with_header_eq:
  assumes "6 \<le> length v"
  shows "with_header svc v = Some (header (of_nat (length v)) svc @ drop 6 v)"
proof -
  obtain a b c d e f r where "v = a # b # c # d # e # f # r" using six_cases [OF assms] by blast
  then show ?thesis
    by (simp add: with_header_def encode_size_def encode_service_def header_def datagram_h_def numeral_eq_Suc)
qed

lemma bit_ff:
  "bit (0xff :: u32) k \<longleftrightarrow> k < 8" "bit (0xff :: u16) k \<longleftrightarrow> k < 8" "bit (0xff :: byte) k \<longleftrightarrow> k < 8"
  "bit (0xff :: int) k \<longleftrightarrow> k < 8" "bit (0xff :: nat) k \<longleftrightarrow> k < 8"
  using bit_mask_iff [of 8 k, where ?'a = u32] bit_mask_iff [of 8 k, where ?'a = u16]
    bit_mask_iff [of 8 k, where ?'a = byte] bit_mask_iff [of 8 k, where ?'a = int]
    bit_mask_iff [of 8 k, where ?'a = nat]
  by (auto simp: mask_numeral)

lemma byte_index_cases:
  assumes "n < (32 :: nat)"
  shows "n < 8 \<or> (\<exists>k < 8. n = 8 + k) \<or> (\<exists>k < 8. n = 16 + k) \<or> (\<exists>k < 8. n = 24 + k)"
  using assms by presburger

lemma bytes32: "(ucast (ucast (x AND 0xff) :: byte) :: u32) OR push_bit 8 (ucast (ucast (drop_bit 8 x AND 0xff) :: byte))
    OR push_bit 16 (ucast (ucast (drop_bit 16 x AND 0xff) :: byte))
    OR push_bit 24 (ucast (ucast (drop_bit 24 x AND 0xff) :: byte)) = x"
proof (rule bit_word_eqI)
  fix n :: nat
  assume "n < LENGTH(32)"
  then consider "n < 8" | k where "n = 8 + k" "k < 8" | k where "n = 16 + k" "k < 8" | k where "n = 24 + k" "k < 8"
    using byte_index_cases [of n] by auto
  then show "bit ((ucast (ucast (x AND 0xff) :: byte) :: u32) OR push_bit 8 (ucast (ucast (drop_bit 8 x AND 0xff) :: byte))
    OR push_bit 16 (ucast (ucast (drop_bit 16 x AND 0xff) :: byte))
    OR push_bit 24 (ucast (ucast (drop_bit 24 x AND 0xff) :: byte))) n = bit x n"
    by cases (auto simp: bit_simps bit_ff)
qed

lemma bytes16: "(ucast (ucast (x AND 0xff) :: byte) :: u16) OR push_bit 8 (ucast (ucast (drop_bit 8 x AND 0xff) :: byte)) = x"
  by (rule bit_word_eqI) (auto simp: bit_simps bit_ff)

lemma decode_size_header [simp]: "decode_size (header sz svc @ xs) = Some sz"
  by (simp add: decode_size_def header_def bytes32)

lemma decode_service_header [simp]: "decode_service (header sz svc @ xs) = Some svc"
  by (simp add: decode_service_def header_def bytes16)

text \<open>The bytes on the wire for a service and a payload.\<close>

definition wire :: "u16 \<Rightarrow> byte list \<Rightarrow> byte list" where
  "wire svc payload = header (of_nat (6 + length payload)) svc @ payload"

lemma length_wire [simp]: "length (wire svc p) = 6 + length p"
  by (simp add: wire_def)

lemma datagram_str_eq:
  "datagram_str svc payload =
     (if 6 + length payload < datagram_maxsize
      then Some \<lparr>dbytes = wire svc (bytes_of_string payload), service = svc, dend = 6 + length payload\<rparr>
      else None)"
  using with_header_eq [of "resize (6 + length payload) []" svc]
  by (auto simp: datagram_str_def datagram_h_def wire_def)

section \<open>Reassembly\<close>

lemma sys_recv_chunks:
  assumes "0 < n" and "concat cs \<noteq> []"
  shows "\<exists>bs cs'. sys_recv n (map Data cs @ rest) = (Got bs, map Data cs' @ rest)
    \<and> bs \<noteq> [] \<and> length bs \<le> n \<and> bs @ concat cs' = concat cs"
  using assms(2)
proof (induction cs)
  case Nil
  then show ?case by simp
next
  case (Cons c cs)
  show ?case
  proof (cases "c = [] \<or> length c \<le> n")
    case True
    with Cons show ?thesis by (cases "c = []") (auto intro: exI [of _ cs])
  next
    case False
    then show ?thesis using assms(1) by (intro exI [of _ "take n c"] exI [of _ "drop n c # cs"]) auto
  qed
qed

lemma size_sub_le: "b \<le> a \<Longrightarrow> a < 2 ^ 64 \<Longrightarrow> size_sub a b = a - b"
  by (simp add: size_sub_def of_nat_diff nat_diff_distrib flip: of_nat_diff)

text \<open>What has been received so far agrees with the wire.\<close>

definition received :: "byte list \<Rightarrow> datagram \<Rightarrow> bool" where
  "received w d \<longleftrightarrow> take (dend d) (dbytes d) = take (dend d) w"

lemma write_at_received:
  assumes "received w d" and "bs = take (length bs) (drop (dend d) w)"
    and "dend d + length bs \<le> length (dbytes d)" and "dend d + length bs \<le> length w"
  shows "received w (d\<lparr>dbytes := write_at (dend d) bs (dbytes d), dend := dend d + length bs\<rparr>)"
    and "length (write_at (dend d) bs (dbytes d)) = length (dbytes d)"
proof -
  have "take (dend d + length bs) (write_at (dend d) bs (dbytes d)) = take (dend d) w @ bs"
    using assms by (auto simp: write_at_def received_def)
  also have "\<dots> = take (dend d + length bs) w"
    using assms(2) by (metis take_add)
  finally show "received w (d\<lparr>dbytes := write_at (dend d) bs (dbytes d), dend := dend d + length bs\<rparr>)"
    by (simp add: received_def)
  show "length (write_at (dend d) bs (dbytes d)) = length (dbytes d)"
    using assms(3) by (auto simp: write_at_def)
qed

lemma prefix_of_append:
  assumes "bs @ x = drop k w @ extra" and "k + length bs \<le> length w"
  shows "bs = take (length bs) (drop k w)" and "x = drop (k + length bs) w @ extra"
proof -
  have l: "length bs \<le> length (drop k w)" using assms(2) by simp
  have "bs = take (length bs) (bs @ x)" by simp
  also have "\<dots> = take (length bs) (drop k w)" unfolding assms(1) using l by simp
  finally show "bs = take (length bs) (drop k w)" .
  have "x = drop (length bs) (bs @ x)" by simp
  also have "\<dots> = drop (k + length bs) w @ extra" unfolding assms(1) using l by (simp add: add.commute)
  finally show "x = drop (k + length bs) w @ extra" .
qed

definition continue :: "nat \<Rightarrow> outcome \<times> datagram \<times> net_event list \<Rightarrow> recv_result \<times> bool \<times> net_event list" where
  "continue sock r =
     (case r of
        (Ok, d', es') \<Rightarrow>
          (if completed d' then (Received d', False, es') else client_recv_loop sock d' es')
      | (Err e, d', es') \<Rightarrow> (Failed e, True, es')
      | (Abort, d', es') \<Rightarrow> (Aborted, False, es'))"

lemma client_recv_loop_continue: "client_recv_loop sock d es = continue sock (recvfrom sock d es)"
  by (subst client_recv_loop.simps) (simp add: continue_def)

lemma continue_Ok:
  "continue sock (Ok, d, es) = (if completed d then (Received d, False, es) else client_recv_loop sock d es)"
  by (simp add: continue_def)

text \<open>Once the header is in, the rest of the datagram arrives in any number of pieces.\<close>

lemma body_reassembly:
  assumes "sock \<noteq> 0" and "6 + length p \<le> datagram_maxsize"
    and "received (wire svc p) d" and "length (dbytes d) = 6 + length p" and "service d = svc"
    and "6 \<le> dend d" and "dend d < 6 + length p"
    and "concat cs = drop (dend d) (wire svc p) @ extra"
  shows "\<exists>cs'. continue sock (recv_body d (map Data cs @ rest)) =
      (Received \<lparr>dbytes = wire svc p, service = svc, dend = 6 + length p\<rparr>, False, map Data cs' @ rest)
    \<and> concat cs' = extra"
  using assms(3-8)
proof (induction "6 + length p - dend d" arbitrary: d cs rule: less_induct)
  case less
  let ?n = "6 + length p" and ?w = "wire svc p"
  have sub: "size_sub (length (dbytes d)) (dend d) = ?n - dend d"
    using less.prems(2,5) assms(2) by (subst size_sub_le) (auto simp: datagram_maxsize_def)
  have "concat cs \<noteq> []" using less.prems(5,6) by simp
  then obtain bs cs1 where r: "sys_recv (?n - dend d) (map Data cs @ rest) = (Got bs, map Data cs1 @ rest)"
      and bs: "bs \<noteq> []" "length bs \<le> ?n - dend d" "bs @ concat cs1 = concat cs"
    using sys_recv_chunks [of "?n - dend d" cs rest] less.prems(5) by auto
  let ?d = "d\<lparr>dbytes := write_at (dend d) bs (dbytes d), dend := dend d + length bs\<rparr>"
  have k: "dend d + length bs \<le> ?n" using bs(2) less.prems(5) by simp
  note pre = prefix_of_append [of bs "concat cs1" "dend d" ?w extra]
  have eq: "bs @ concat cs1 = drop (dend d) ?w @ extra" using bs(3) less.prems(6) by simp
  note wr = write_at_received [OF less.prems(1) pre(1)]
  have rcv: "received ?w ?d" and len: "length (dbytes ?d) = ?n"
    using wr eq k less.prems(2) by simp_all
  have body: "recv_body d (map Data cs @ rest) = (Ok, ?d, map Data cs1 @ rest)"
    by (simp add: recv_body_def sub r bs(1))
  have tail: "concat cs1 = drop (dend ?d) ?w @ extra" using pre(2) eq k by simp
  show ?case
  proof (cases "dend ?d = ?n")
    case True
    then have "?d = \<lparr>dbytes = ?w, service = svc, dend = ?n\<rparr>"
      using rcv len less.prems(3) by (simp add: received_def)
    moreover have "completed \<lparr>dbytes = ?w, service = svc, dend = ?n\<rparr>"
      using length_wire [of svc p] by (auto simp: completed_def simp del: length_wire)
    ultimately show ?thesis using body tail True by (auto simp: continue_Ok)
  next
    case False
    then have lt: "dend ?d < ?n" using k by simp
    have step: "recvfrom sock ?d (map Data cs1 @ rest) = recv_body ?d (map Data cs1 @ rest)"
      using assms(1) less.prems(4) by (simp add: recvfrom_def datagram_h_def)
    have "\<not> completed ?d" using lt len by (simp add: completed_def)
    moreover have "?n - dend ?d < ?n - dend d"
      using less.prems(5) k bs(1) by (cases bs) simp_all
    ultimately show ?thesis
      using less.hyps [of ?d cs1] rcv len less.prems(3,4) lt tail body step
      by (simp add: continue_Ok client_recv_loop_continue)
  qed
qed

text \<open>The header itself may arrive in pieces too, and so may the first bytes of the payload.\<close>

lemma header_reassembly:
  assumes "sock \<noteq> 0" and "6 + length p \<le> datagram_maxsize"
    and "received (wire svc p) d" and "length (dbytes d) = 6 \<or> dbytes d = [] \<and> dend d = 0"
    and "dend d < 6" and "concat cs = drop (dend d) (wire svc p) @ extra"
  shows "\<exists>cs'. client_recv_loop sock d (map Data cs @ rest) =
      (Received \<lparr>dbytes = wire svc p, service = svc, dend = 6 + length p\<rparr>, False, map Data cs' @ rest)
    \<and> concat cs' = extra"
  using assms(3-6)
proof (induction "6 - dend d" arbitrary: d cs rule: less_induct)
  case less
  let ?n = "6 + length p" and ?w = "wire svc p"
  define d0 where "d0 = (if length (dbytes d) < 6 then d\<lparr>dbytes := resize 6 (dbytes d)\<rparr> else d)"
  have d0: "dend d0 = dend d" "length (dbytes d0) = 6" "received ?w d0"
    using less.prems(1,2) by (auto simp: d0_def received_def)
  have "concat cs \<noteq> []" using less.prems(3,4) by simp
  then obtain bs cs1 where r: "sys_recv (6 - dend d) (map Data cs @ rest) = (Got bs, map Data cs1 @ rest)"
      and bs: "bs \<noteq> []" "length bs \<le> 6 - dend d" "bs @ concat cs1 = concat cs"
    using sys_recv_chunks [of "6 - dend d" cs rest] less.prems(3) by auto
  let ?d = "d0\<lparr>dbytes := write_at (dend d) bs (dbytes d0), dend := dend d + length bs\<rparr>"
  have k: "dend d + length bs \<le> 6" using bs(2) less.prems(3) by simp
  note pre = prefix_of_append [of bs "concat cs1" "dend d" ?w extra]
  have eq: "bs @ concat cs1 = drop (dend d) ?w @ extra" using bs(3) less.prems(4) by simp
  note wr = write_at_received [OF d0(3), of bs, unfolded d0(1), OF pre(1)]
  have rcv: "received ?w ?d" and len: "length (dbytes ?d) = 6"
    using wr eq k d0(2) by simp_all
  have tail: "concat cs1 = drop (dend ?d) ?w @ extra" using pre(2) eq k by simp
  have rf: "recvfrom sock d (map Data cs @ rest) = recv_header ?d (map Data cs1 @ rest)"
    using assms(1) less.prems(3) by (simp add: recvfrom_def datagram_h_def r bs(1) d0_def)
  show ?case
  proof (cases "dend ?d < 6")
    case True
    then have step: "recvfrom sock d (map Data cs @ rest) = (Ok, ?d, map Data cs1 @ rest)"
      by (simp add: rf recv_header_def datagram_h_def)
    have "\<not> completed ?d" using True len by (simp add: completed_def)
    moreover have "6 - dend ?d < 6 - dend d"
      using less.prems(3) bs(1) by (cases bs) simp_all
    ultimately show ?thesis
      using less.hyps [of ?d cs1] rcv len True tail step
      by (simp add: continue_Ok client_recv_loop_continue [of _ d])
  next
    case False
    then have k6: "dend d + length bs = 6" using k by simp
    let ?e = "d0\<lparr>dend := 6, dbytes := resize ?n (dbytes ?d), service := svc\<rparr>"
    have hd6: "dbytes ?d = header (of_nat ?n) svc"
      using rcv len k6 by (simp add: received_def wire_def)
    have sz: "unat (of_nat ?n :: u32) = ?n"
      using assms(2) by (subst unat_of_nat) (simp add: datagram_maxsize_def)
    have dsz: "decode_size (dbytes ?d) = Some (of_nat ?n)"
      using decode_size_header [of "of_nat ?n" svc "[]"] unfolding hd6 by simp
    have rs: "resize ?n (dbytes ?d) = header (of_nat ?n) svc @ replicate (length p) 0"
      unfolding hd6 by (simp add: resize_def)
    have dsv: "decode_service (resize ?n (dbytes ?d)) = Some svc"
      unfolding rs by simp
    have step: "recvfrom sock d (map Data cs @ rest) =
        (if ?n = 6 then (Ok, ?e, map Data cs1 @ rest) else recv_body ?e (map Data cs1 @ rest))"
      using assms(2) k6 dsz dsv sz by (simp add: rf recv_header_def datagram_h_def)
    have rcve: "received ?w ?e"
      using rs by (simp add: received_def wire_def)
    show ?thesis
    proof (cases "p = []")
      case True
      then have "?e = \<lparr>dbytes = ?w, service = svc, dend = ?n\<rparr>"
        using rs by (simp add: wire_def)
      moreover have "completed \<lparr>dbytes = ?w, service = svc, dend = ?n\<rparr>"
        using length_wire [of svc p] by (auto simp: completed_def simp del: length_wire)
      ultimately show ?thesis
        using step True tail k6 by (auto simp: client_recv_loop_continue [of _ d] continue_Ok)
    next
      case False
      then show ?thesis
        using body_reassembly [OF assms(1,2) rcve, of cs1 extra rest] step tail k6
        by (simp add: client_recv_loop_continue [of _ d])
    qed
  qed
qed

section \<open>Properties\<close>

text \<open>
  C30. Reassembly: whatever the sizes of the pieces in which the network delivers the bytes of a
  datagram, and whatever follows it on the connection, \<open>client::recv\<close> returns exactly that
  datagram, keeps the connection, and leaves exactly the following bytes unread.
\<close>

theorem client_recv_reassembles:
  assumes "sock \<noteq> 0" and "datagram_str svc payload = Some d" and "concat cs = dbytes d @ extra"
  shows "\<exists>cs'. client_recv sock (map Data cs @ rest) = (Received d, False, map Data cs' @ rest)
    \<and> concat cs' = extra"
proof -
  have len: "6 + length payload < datagram_maxsize"
    and d: "d = \<lparr>dbytes = wire svc (bytes_of_string payload), service = svc, dend = 6 + length payload\<rparr>"
    using assms(2) by (auto simp: datagram_str_eq split: if_splits)
  show ?thesis
    using header_reassembly [OF assms(1), of "bytes_of_string payload" svc datagram0 cs extra rest] len assms(3)
    by (simp add: client_recv_def d datagram0_def received_def)
qed

theorem client_recv_reassembles_witness:
  "\<exists>cs'. client_recv 5 (map Data [[8, 0, 0], [0, 100], [9, 104, 105, 77]] @ [Hangup]) =
     (Received \<lparr>dbytes = [8, 0, 0, 0, 100, 9, 104, 105], service = 0x964, dend = 8\<rparr>, False, map Data cs' @ [Hangup])
   \<and> concat cs' = [77]"
proof (rule client_recv_reassembles)
  show "datagram_str 0x964 ''hi'' = Some \<lparr>dbytes = [8, 0, 0, 0, 100, 9, 104, 105], service = 0x964, dend = 8\<rparr>"
    by (simp add: datagram_str_eq datagram_maxsize_def wire_def header_def bytes_of_string_def byte_of_char_def)
qed simp_all

text \<open>
  What a received datagram carries is what the sender put in: the service, the total size and
  the payload up to its first NUL character.
\<close>

theorem datagram_payload_roundtrip:
  assumes "datagram_str svc payload = Some d"
  shows "decode_service (dbytes d) = Some svc \<and> decode_size (dbytes d) = Some (of_nat (length (dbytes d)))
    \<and> parse_string d = c_str payload \<and> completed d"
proof -
  have d: "d = \<lparr>dbytes = wire svc (bytes_of_string payload), service = svc, dend = 6 + length payload\<rparr>"
    using assms by (auto simp: datagram_str_eq split: if_splits)
  have "completed d" using length_wire [of svc "bytes_of_string payload"]
    by (auto simp: completed_def d simp del: length_wire)
  then show ?thesis
    by (cases payload) (simp_all add: d wire_def parse_string_def datagram_h_def c_str_def)
qed

theorem datagram_payload_roundtrip_witness:
  "parse_string \<lparr>dbytes = [8, 0, 0, 0, 100, 9, 104, 105], service = 0x964, dend = 8\<rparr> = ''hi''"
proof -
  have "datagram_str 0x964 ''hi'' = Some \<lparr>dbytes = [8, 0, 0, 0, 100, 9, 104, 105], service = 0x964, dend = 8\<rparr>"
    by (simp add: datagram_str_eq datagram_maxsize_def wire_def header_def bytes_of_string_def byte_of_char_def)
  from datagram_payload_roundtrip [OF this] show ?thesis by (simp add: c_str_def)
qed

text \<open>
  A peer can stop the process: six bytes whose announced total size is below the size of the
  header make \<open>recvfrom\<close> shrink the vector and then fail the assertion of
  \<open>decode_service\<close>.
\<close>

theorem short_header_aborts:
  assumes "sock \<noteq> 0" and "unat sz < 6"
  shows "client_recv sock (Data (header sz svc) # rest) = (Aborted, False, rest)"
proof -
  have dsz: "decode_size (header sz svc) = Some sz" and dsv: "decode_service (resize (unat sz) v) = None" for v
    using decode_size_header [of sz svc "[]"] assms(2) by (simp_all add: decode_service_def)
  have "recvfrom sock datagram0 (Data (header sz svc) # rest) =
      (Abort, \<lparr>dbytes = resize (unat sz) (header sz svc), service = 0, dend = 6\<rparr>, rest)"
    using assms header_nonempty [of sz svc]
    by (simp add: recvfrom_def recv_header_def datagram0_def datagram_h_def datagram_maxsize_def
        write_at_def dsz dsv Let_def)
  then show ?thesis by (simp add: client_recv_def client_recv_loop_continue continue_def)
qed

theorem short_header_aborts_witness:
  "client_recv 5 [Data (header 3 2400)] = (Aborted, False, [])"
  by (rule short_header_aborts) simp_all

lemma recv_expected_loop_err:
  "\<forall>d' \<in> set (d # ds). service d' \<noteq> err \<and> service d' \<noteq> expected \<Longrightarrow> service e = err \<Longrightarrow>
   \<exists>freed'. recv_expected_loop err expected outer cur d (map Inr ds @ Inr e # rs) freed = Some (Ret_Dgram outer, freed')
     \<and> insert cur freed \<subseteq> freed'"
proof (induction ds arbitrary: cur d freed)
  case Nil
  then show ?case by auto
next
  case (Cons d1 ds)
  then obtain freed' where "recv_expected_loop err expected outer (Suc cur) d1 (map Inr ds @ Inr e # rs) (insert cur freed)
      = Some (Ret_Dgram outer, freed')" "insert (Suc cur) (insert cur freed) \<subseteq> freed'"
    by (metis list.set_intros(2))
  then show ?case using Cons.prems by auto
qed

text \<open>
  When an unexpected datagram is followed, possibly after more unexpected ones, by an error
  datagram, \<open>recv(expected_service)\<close> returns the pointer of the first datagram although it has
  already been freed.
\<close>

theorem recv_expected_dangling:
  assumes "\<forall>d' \<in> set (d # ds). service d' \<noteq> err \<and> service d' \<noteq> expected" and "service e = err"
  shows "\<exists>p freed. recv_expected err expected (map Inr (d # ds) @ Inr e # rs) = Some (Ret_Dgram p, freed) \<and> p \<in> freed"
  using recv_expected_loop_err [OF assms, of 0 0 rs "{}"]
  by (auto simp: recv_expected_def simp del: recv_expected_loop.simps)

theorem recv_expected_dangling_witness:
  "\<exists>p freed. recv_expected 1 9 (map Inr [datagram0\<lparr>service := 2404\<rparr>] @ [Inr (datagram0\<lparr>service := 1\<rparr>)])
     = Some (Ret_Dgram p, freed) \<and> p \<in> freed"
  using recv_expected_dangling [of "datagram0\<lparr>service := 2404\<rparr>" "[]" 1 9 "datagram0\<lparr>service := 1\<rparr>" "[]"]
  by simp

lemma recv_expected_loop_ok:
  "\<forall>d' \<in> set (d # ds). service d' \<noteq> err \<and> service d' \<noteq> expected \<Longrightarrow> service e = expected \<Longrightarrow> err \<noteq> expected \<Longrightarrow>
   recv_expected_loop err expected outer cur d (map Inr ds @ Inr e # rs) freed =
     Some (Ret_Dgram (Suc cur + length ds), freed \<union> {cur ..< Suc cur + length ds})"
proof (induction ds arbitrary: cur d freed)
  case Nil
  then show ?case by auto
next
  case (Cons d1 ds)
  have "freed \<union> {cur ..< Suc cur + length (d1 # ds)} = insert cur freed \<union> {Suc cur ..< Suc (Suc cur) + length ds}"
    by auto
  moreover have "recv_expected_loop err expected outer cur d (map Inr (d1 # ds) @ Inr e # rs) freed =
      recv_expected_loop err expected outer (Suc cur) d1 (map Inr ds @ Inr e # rs) (insert cur freed)"
    using Cons.prems by simp
  ultimately show ?case
    using Cons.IH [of d1 "Suc cur" "insert cur freed"] Cons.prems by (simp del: recv_expected_loop.simps)
qed

text \<open>
  Without an error datagram the loop is right: it skips unexpected datagrams, frees each of
  them, and returns the first expected one, which is not freed.
\<close>

theorem recv_expected_skips:
  assumes "\<forall>d' \<in> set ds. service d' \<noteq> err \<and> service d' \<noteq> expected" and "service e = expected" and "err \<noteq> expected"
  shows "recv_expected err expected (map Inr ds @ Inr e # rs) = Some (Ret_Dgram (length ds), {0 ..< length ds})"
proof (cases ds)
  case Nil
  then show ?thesis using assms(2,3) by (simp add: recv_expected_def)
next
  case (Cons d ds')
  then show ?thesis
    using recv_expected_loop_ok [of d ds' err expected e 0 0 rs "{}"] assms
    by (simp add: recv_expected_def atLeast0LessThan del: recv_expected_loop.simps)
qed

theorem recv_expected_skips_witness:
  "recv_expected 1 9 (map Inr [datagram0\<lparr>service := 2404\<rparr>] @ [Inr (datagram0\<lparr>service := 9\<rparr>)]) = Some (Ret_Dgram 1, {0})"
  using recv_expected_skips [of "[datagram0\<lparr>service := 2404\<rparr>]" 1 9 "datagram0\<lparr>service := 9\<rparr>" "[]"]
  by (simp add: atLeast0LessThan lessThan_Suc)

end
