(* ===== verification/Base58.thy ===== *)
theory Base58
  imports Prelude
begin

text \<open>
  The base-58 codec of \<open>src/gov/crypto/base58.cpp\<close>: \<open>encode\<close> and the three \<open>decode\<close>
  overloads, with the fixed-size big-endian work vectors, the carry loops, the trimming of
  white space and the early returns of the code. The assertion \<open>carry == 0\<close> of \<open>encode\<close> is
  the value \<open>None\<close> of the model; \<open>false\<close> of \<open>decode\<close> is \<open>None\<close> too.

  The lemmas show that the work vectors are always long enough (no assertion fires, no carry
  is left), that decoding inverts encoding on every byte sequence, and that encoding inverts
  decoding on every string without white space, so that the textual form is unique.
\<close>

section \<open>The code\<close>

definition pszBase58 :: string where
  "pszBase58 = ''123456789ABCDEFGHJKLMNPQRSTUVWXYZabcdefghijkmnopqrstuvwxyz''"

text \<open>\<open>strchr(pszBase58, c) - pszBase58\<close>.\<close>

fun strchr :: "string \<Rightarrow> char \<Rightarrow> nat option" where
  "strchr [] c = None"
| "strchr (x # xs) c = (if x = c then Some 0 else map_option Suc (strchr xs c))"

text \<open>
  The inner loop \<open>carry += mul * *it; *it = carry % base; carry /= base\<close>, run from
  \<open>rbegin\<close> to \<open>rend\<close>: the list is the vector from its last to its first element.
\<close>

fun carry_loop :: "nat \<Rightarrow> nat \<Rightarrow> nat \<Rightarrow> nat list \<Rightarrow> nat list \<times> nat" where
  "carry_loop mul base carry [] = ([], carry)"
| "carry_loop mul base carry (d # ds) =
     (let c = carry + mul * d;
          (ds', c') = carry_loop mul base (c div base) ds
      in (c mod base # ds', c'))"

text \<open>One step of the outer loop on a work vector: the new vector and the carry left over.\<close>

definition mul_add :: "nat \<Rightarrow> nat \<Rightarrow> nat \<Rightarrow> nat list \<Rightarrow> nat list \<times> nat" where
  "mul_add mul base ch v = (let (r, c) = carry_loop mul base ch (rev v) in (rev r, c))"

text \<open>The loop over the bytes in \<open>encode\<close>; a carry left over is a failed assertion.\<close>

fun encode_loop :: "byte list \<Rightarrow> nat list \<Rightarrow> nat list option" where
  "encode_loop [] b58 = Some b58"
| "encode_loop (p # ps) b58 =
     (let (b58', carry) = mul_add 256 58 (unat p) b58
      in if carry = 0 then encode_loop ps b58' else None)"

definition encode :: "byte list \<Rightarrow> string option" where
  "encode bs =
     (let zeroes = length (takeWhile (\<lambda>b. b = 0) bs);
          ps = dropWhile (\<lambda>b. b = 0) bs
      in case encode_loop ps (replicate (length ps * 138 div 100 + 1) 0) of
           None \<Rightarrow> None
         | Some b58 \<Rightarrow>
             Some (replicate zeroes (CHR ''1'') @
                   map (\<lambda>d. pszBase58 ! d) (dropWhile (\<lambda>d. d = 0) b58)))"

definition encode_string :: "string \<Rightarrow> string option" where
  "encode_string s = encode (bytes_of_string s)"

text \<open>The loop over the characters in \<open>decode\<close>: the work vector and the unread rest.\<close>

fun decode_loop :: "string \<Rightarrow> nat list \<Rightarrow> (nat list \<times> string) option" where
  "decode_loop [] b256 = Some (b256, [])"
| "decode_loop (c # cs) b256 =
     (if isspace c then Some (b256, c # cs)
      else case strchr pszBase58 c of
             None \<Rightarrow> None
           | Some d \<Rightarrow>
               (let (b256', carry) = mul_add 58 256 d b256
                in if carry \<noteq> 0 then None else decode_loop cs b256'))"

text \<open>\<open>bool decode(const char*, vector<unsigned char>&)\<close>: \<open>None\<close> where it returns false.\<close>

definition decode :: "string \<Rightarrow> byte list option" where
  "decode s =
     (let psz = dropWhile isspace (c_str s);
          zeroes = length (takeWhile (\<lambda>c. c = CHR ''1'') psz);
          psz = dropWhile (\<lambda>c. c = CHR ''1'') psz
      in case decode_loop psz (replicate (length psz * 733 div 1000 + 1) 0) of
           None \<Rightarrow> None
         | Some (b256, rest) \<Rightarrow>
             (if dropWhile isspace rest \<noteq> [] then None
              else Some (replicate zeroes 0 @ map of_nat (dropWhile (\<lambda>d. d = 0) b256))))"

text \<open>
  \<open>string decode(const string&)\<close>: the decoded bytes up to the first zero byte, the empty
  string when decoding fails.
\<close>

definition decode_string :: "string \<Rightarrow> string" where
  "decode_string s =
     (case decode s of None \<Rightarrow> [] | Some v \<Rightarrow> c_str (string_of_bytes (v @ [0])))"

text \<open>
  \<open>bool decode(const char*, array<unsigned char,32>&)\<close>. Here a carry left over is a failed
  assertion instead of a return; the result distinguishes the three outcomes.
\<close>

datatype decode32_result = Assertion_Failed | Rejected | Decoded "byte list"

fun decode32_loop :: "string \<Rightarrow> nat list \<Rightarrow> (decode32_result + nat list \<times> string)" where
  "decode32_loop [] b256 = Inr (b256, [])"
| "decode32_loop (c # cs) b256 =
     (if isspace c then Inr (b256, c # cs)
      else case strchr pszBase58 c of
             None \<Rightarrow> Inl Rejected
           | Some d \<Rightarrow>
               (let (b256', carry) = mul_add 58 256 d b256
                in if carry \<noteq> 0 then Inl Assertion_Failed else decode32_loop cs b256'))"

definition decode32 :: "string \<Rightarrow> decode32_result" where
  "decode32 s =
     (let psz = dropWhile isspace (c_str s);
          zeroes = length (takeWhile (\<lambda>c. c = CHR ''1'') psz);
          psz = dropWhile (\<lambda>c. c = CHR ''1'') psz
      in case decode32_loop psz (replicate (length psz * 733 div 1000 + 1) 0) of
           Inl r \<Rightarrow> r
         | Inr (b256, rest) \<Rightarrow>
             (if dropWhile isspace rest \<noteq> [] then Rejected
              else let it = dropWhile (\<lambda>d. d = 0) b256
                   in if zeroes + length it \<noteq> 32 then Rejected
                      else Decoded (replicate zeroes 0 @ map of_nat it)))"

section \<open>The alphabet\<close>

lemma length_pszBase58 [simp]: "length pszBase58 = 58"
  by (simp add: pszBase58_def)

lemma distinct_pszBase58: "distinct pszBase58"
  by (simp add: pszBase58_def)

lemma hd_pszBase58: "pszBase58 ! 0 = CHR ''1''"
  by (simp add: pszBase58_def)

lemma one_in_pszBase58: "CHR ''1'' \<in> set pszBase58"
  by (simp add: pszBase58_def)

lemma pszBase58_no_space: "c \<in> set pszBase58 \<Longrightarrow> \<not> isspace c"
  by (auto simp: pszBase58_def isspace_def)

lemma pszBase58_no_nul: "CHR 0x00 \<notin> set pszBase58"
  by (simp add: pszBase58_def)

lemma strchr_nth: "distinct xs \<Longrightarrow> i < length xs \<Longrightarrow> strchr xs (xs ! i) = Some i"
proof (induction xs arbitrary: i)
  case Nil
  then show ?case by simp
next
  case (Cons x xs)
  then show ?case by (cases i) (auto simp: nth_mem)
qed

lemma strchr_Some: "strchr xs c = Some i \<Longrightarrow> i < length xs \<and> xs ! i = c"
  by (induction xs arbitrary: i) (auto split: if_splits)

lemma strchr_None: "strchr xs c = None \<longleftrightarrow> c \<notin> set xs"
  by (induction xs) auto

lemma nth_strchr: "c \<in> set xs \<Longrightarrow> xs ! the (strchr xs c) = c"
  by (metis option.collapse strchr_None strchr_Some)

lemma strchr_pos: "c \<in> set pszBase58 \<Longrightarrow> c \<noteq> CHR ''1'' \<Longrightarrow> 0 < the (strchr pszBase58 c)"
  by (metis nth_strchr hd_pszBase58 gr0I)

lemma nth_pszBase58_eq_1: "d < 58 \<Longrightarrow> pszBase58 ! d = CHR ''1'' \<longleftrightarrow> d = 0"
  using nth_eq_iff_index_eq [OF distinct_pszBase58, of d 0] hd_pszBase58 by auto

section \<open>The carry loop\<close>

lemma carry_loop_correct:
  assumes "0 < base" and "carry_loop mul base c ds = (r, c')"
  shows "le_val base r + c' * base ^ length ds = c + mul * le_val base ds
    \<and> length r = length ds \<and> (\<forall>d \<in> set r. d < base)"
  using assms(2)
proof (induction ds arbitrary: c r)
  case Nil
  then show ?case by simp
next
  case (Cons d ds)
  let ?c = "c + mul * d"
  obtain r1 where step: "carry_loop mul base (?c div base) ds = (r1, c')" and r: "r = ?c mod base # r1"
    using Cons.prems by (auto simp: Let_def split: prod.splits)
  note ih = Cons.IH [OF step]
  have "le_val base r + c' * base ^ length (d # ds)
      = ?c mod base + base * (le_val base r1 + c' * base ^ length ds)"
    by (simp add: r algebra_simps)
  also have "\<dots> = ?c mod base + base * (?c div base) + base * mul * le_val base ds"
    using ih by (simp add: algebra_simps)
  also have "\<dots> = c + mul * le_val base (d # ds)"
    by (simp add: algebra_simps)
  finally show ?case using ih assms(1) by (simp add: r)
qed

text \<open>The outer step computes \<open>v * mul + ch\<close> when that fits the vector.\<close>

lemma mul_add_correct:
  assumes "0 < base" and "mul_add mul base ch v = (v', c)"
  shows "be_val base v' + c * base ^ length v = ch + mul * be_val base v
    \<and> length v' = length v \<and> (\<forall>d \<in> set v'. d < base)"
proof -
  obtain r where r: "carry_loop mul base ch (rev v) = (r, c)" and v': "v' = rev r"
    using assms(2) by (auto simp: mul_add_def split: prod.splits)
  show ?thesis using carry_loop_correct [OF assms(1) r] by (simp add: be_val_def v')
qed

lemma mul_add_fits:
  assumes "0 < base" and fits: "ch + mul * be_val base v < base ^ length v"
  shows "\<exists>v'. mul_add mul base ch v = (v', 0) \<and> be_val base v' = ch + mul * be_val base v
    \<and> length v' = length v \<and> (\<forall>d \<in> set v'. d < base)"
proof -
  obtain v' c where m: "mul_add mul base ch v = (v', c)" by force
  note k = mul_add_correct [OF assms(1) m]
  have "c = 0"
  proof (rule ccontr)
    assume "c \<noteq> 0"
    then have "base ^ length v \<le> c * base ^ length v" by simp
    also have "\<dots> \<le> ch + mul * be_val base v" using k by linarith
    finally show False using fits by simp
  qed
  with m k show ?thesis by simp
qed

section \<open>The size bounds\<close>

lemma pow_le_root:
  fixes a b :: nat
  assumes "a ^ q \<le> b ^ p" and "p * n \<le> q * k" and "0 < q" and "0 < b"
  shows "a ^ n \<le> b ^ k"
proof -
  have "(a ^ n) ^ q = (a ^ q) ^ n" by (simp add: mult.commute flip: power_mult)
  also have "\<dots> \<le> (b ^ p) ^ n" using assms(1) by (rule power_mono) simp
  also have "\<dots> = b ^ (p * n)" by (simp add: power_mult)
  also have "\<dots> \<le> b ^ (q * k)" using assms(2,4) by (intro power_increasing) auto
  also have "\<dots> = (b ^ k) ^ q" by (simp add: mult.commute flip: power_mult)
  finally show ?thesis
    using assms(3) by (metis not_less_eq_eq power_mono_iff zero_le Suc_pred)
qed

text \<open>138/100 and 733/1000 are upper bounds of the ratios of the logarithms.\<close>

lemma encode_size: "(256 :: nat) ^ n \<le> 58 ^ (n * 138 div 100 + 1)"
  by (rule pow_le_root [where p = 69 and q = 50]) simp_all

lemma decode_size: "(58 :: nat) ^ n \<le> 256 ^ (n * 733 div 1000 + 1)"
proof (rule pow_le_root [where p = 52 and q = 71])
  have "733 * n < 1000 * (n * 733 div 1000 + 1)"
    using dividend_less_times_div [of 1000 "733 * n"] by (simp add: mult.commute)
  then show "52 * n \<le> 71 * (n * 733 div 1000 + 1)" by simp
qed simp_all

section \<open>The loops\<close>

lemma be_val_Cons_acc: "x * b ^ length (d # ds) + be_val b (d # ds) = (d + b * x) * b ^ length ds + be_val b ds"
  by (simp add: be_val_Cons algebra_simps)

lemma be_val_step_less:
  assumes "x * b ^ length (d # ds) + be_val b (d # ds) < m" and "0 < b"
  shows "d + b * x < m"
proof -
  have "d + b * x \<le> (d + b * x) * b ^ length ds" using assms(2) by simp
  also have "\<dots> \<le> x * b ^ length (d # ds) + be_val b (d # ds)"
    by (simp only: be_val_Cons_acc le_add1)
  finally show ?thesis using assms(1) by simp
qed

lemma encode_loop_correct:
  "be_val 58 v * 256 ^ length ps + be_val 256 (map unat ps) < 58 ^ length v \<Longrightarrow>
   \<forall>d \<in> set v. d < 58 \<Longrightarrow>
   \<exists>v'. encode_loop ps v = Some v' \<and> (\<forall>d \<in> set v'. d < 58)
     \<and> be_val 58 v' = be_val 58 v * 256 ^ length ps + be_val 256 (map unat ps)"
proof (induction ps arbitrary: v)
  case Nil
  then show ?case by simp
next
  case (Cons p ps)
  have "unat p + 256 * be_val 58 v < 58 ^ length v"
    using be_val_step_less [of "be_val 58 v" 256 "unat p" "map unat ps"] Cons.prems(1) by simp
  then obtain v1 where m: "mul_add 256 58 (unat p) v = (v1, 0)"
      and v1: "be_val 58 v1 = unat p + 256 * be_val 58 v" "length v1 = length v" "\<forall>d \<in> set v1. d < 58"
    using mul_add_fits [of 58 "unat p" 256 v] by auto
  have eq: "be_val 58 v1 * 256 ^ length ps + be_val 256 (map unat ps)
      = be_val 58 v * 256 ^ length (p # ps) + be_val 256 (map unat (p # ps))"
    using be_val_Cons_acc [of "be_val 58 v" 256 "unat p" "map unat ps"] by (simp add: v1(1))
  with Cons.IH [of v1] Cons.prems(1) v1(2,3) m show ?case by simp
qed

text \<open>The digits that the string stands for.\<close>

definition digits_of :: "string \<Rightarrow> nat list" where
  "digits_of s = map (\<lambda>c. the (strchr pszBase58 c)) s"

lemma decode_loop_correct:
  "set cs \<subseteq> set pszBase58 \<Longrightarrow>
   be_val 256 v * 58 ^ length cs + be_val 58 (digits_of cs) < 256 ^ length v \<Longrightarrow>
   \<forall>d \<in> set v. d < 256 \<Longrightarrow> rest = [] \<or> isspace (hd rest) \<Longrightarrow>
   \<exists>v'. decode_loop (cs @ rest) v = Some (v', rest) \<and> (\<forall>d \<in> set v'. d < 256)
     \<and> be_val 256 v' = be_val 256 v * 58 ^ length cs + be_val 58 (digits_of cs)"
proof (induction cs arbitrary: v)
  case Nil
  then show ?case by (cases rest) (auto simp: digits_of_def)
next
  case (Cons c cs)
  obtain d where d: "strchr pszBase58 c = Some d"
    using Cons.prems(1) strchr_None [of pszBase58 c] by auto
  have ds: "digits_of (c # cs) = d # digits_of cs" by (simp add: digits_of_def d)
  have len: "length (digits_of cs) = length cs" by (simp add: digits_of_def)
  have "d + 58 * be_val 256 v < 256 ^ length v"
    using be_val_step_less [of "be_val 256 v" 58 d "digits_of cs"] Cons.prems(2) by (simp add: ds len)
  then obtain v1 where m: "mul_add 58 256 d v = (v1, 0)"
      and v1: "be_val 256 v1 = d + 58 * be_val 256 v" "length v1 = length v" "\<forall>d \<in> set v1. d < 256"
    using mul_add_fits [of 256 d 58 v] by auto
  have eq: "be_val 256 v1 * 58 ^ length cs + be_val 58 (digits_of cs)
      = be_val 256 v * 58 ^ length (c # cs) + be_val 58 (digits_of (c # cs))"
    using be_val_Cons_acc [of "be_val 256 v" 58 d "digits_of cs"] by (simp add: v1(1) ds len)
  have "\<not> isspace c" using Cons.prems(1) pszBase58_no_space by simp
  with Cons.IH [of v1] Cons.prems v1(2,3) m d eq show ?case by simp
qed

lemma digits_of_less: "set cs \<subseteq> set pszBase58 \<Longrightarrow> \<forall>d \<in> set (digits_of cs). d < 58"
  by (auto simp: digits_of_def) (metis length_pszBase58 option.collapse strchr_None strchr_Some subsetD)

lemma digits_of_map: "\<forall>d \<in> set ds. d < 58 \<Longrightarrow> digits_of (map (\<lambda>d. pszBase58 ! d) ds) = ds"
  by (induction ds) (auto simp: digits_of_def strchr_nth [OF distinct_pszBase58])

lemma map_digits_of: "set cs \<subseteq> set pszBase58 \<Longrightarrow> map (\<lambda>d. pszBase58 ! d) (digits_of cs) = cs"
  by (induction cs) (auto simp: digits_of_def nth_strchr)

section \<open>Encoding and decoding in terms of numbers\<close>

lemma encode_loop_init:
  "\<exists>v'. encode_loop ps (replicate (length ps * 138 div 100 + 1) 0) = Some v'
     \<and> (\<forall>d \<in> set v'. d < 58) \<and> be_val 58 v' = be_val 256 (map unat ps)"
proof -
  define v where "v = (replicate (length ps * 138 div 100 + 1) 0 :: nat list)"
  have v: "be_val 58 v = 0" "\<forall>d \<in> set v. d < 58" "length v = length ps * 138 div 100 + 1"
    unfolding v_def by (simp_all del: replicate.simps replicate_Suc One_nat_def add_Suc_right)
  have "be_val 256 (map unat ps) < 256 ^ length (map unat ps)" by (rule be_val_less) auto
  also have "\<dots> \<le> 58 ^ length v" using encode_size [of "length ps"] v(3) by simp
  finally show ?thesis using encode_loop_correct [of v ps] v(1,2) by (simp add: v_def)
qed

text \<open>
  \<open>encode\<close> never fails: it writes one '1' per leading zero byte and then the base-58 digits,
  without a leading zero, of the number the remaining bytes stand for.
\<close>

lemma encode_spec:
  "\<exists>ds. encode bs = Some (replicate (length (takeWhile (\<lambda>b. b = 0) bs)) (CHR ''1'') @
          map (\<lambda>d. pszBase58 ! d) ds)
     \<and> canonical 58 ds \<and> be_val 58 ds = be_val 256 (map unat (dropWhile (\<lambda>b. b = 0) bs))"
proof -
  obtain v where v: "encode_loop (dropWhile (\<lambda>b. b = 0) bs)
        (replicate (length (dropWhile (\<lambda>b. b = 0) bs) * 138 div 100 + 1) 0) = Some v"
      "\<forall>d \<in> set v. d < 58" "be_val 58 v = be_val 256 (map unat (dropWhile (\<lambda>b. b = 0) bs))"
    using encode_loop_init by blast
  show ?thesis
    using v(1,3) canonical_strip [OF v(2)] be_val_strip [of 58 v]
    by (auto simp: encode_def Let_def)
qed

text \<open>A token of the alphabet between white space is always decoded.\<close>

lemma decode_spec:
  assumes "set cs \<subseteq> set pszBase58" and "\<forall>c \<in> set lead. isspace c" and "\<forall>c \<in> set trail. isspace c"
  shows "\<exists>bs. decode (lead @ cs @ trail) = Some (replicate (length (takeWhile (\<lambda>c. c = CHR ''1'') cs)) 0 @ map of_nat bs)
     \<and> canonical 256 bs \<and> be_val 256 bs = be_val 58 (digits_of (dropWhile (\<lambda>c. c = CHR ''1'') cs))"
proof -
  let ?s = "lead @ cs @ trail" and ?ps = "dropWhile (\<lambda>c. c = CHR ''1'') cs"
  let ?one = "\<lambda>c. c = CHR ''1''"
  have sp: "isspace c \<Longrightarrow> c \<noteq> CHR 0x00 \<and> \<not> ?one c" for c by (auto simp: isspace_def)
  have "CHR 0x00 \<notin> set ?s" using assms sp pszBase58_no_nul by auto
  then have cstr: "c_str ?s = ?s" by simp
  have nosp: "\<not> isspace c" if "c \<in> set cs" for c using assms(1) that pszBase58_no_space by auto
  show ?thesis
  proof (cases "cs = []")
    case True
    then have c: "c_str (lead @ trail) = lead @ trail" using cstr by simp
    have sp: "dropWhile isspace (lead @ trail) = []"
      using assms(2,3) by (auto simp: dropWhile_eq_Nil_conv)
    have "decode (lead @ trail) = Some []" unfolding decode_def c Let_def sp by simp
    then show ?thesis
      by (intro exI [of _ "[]"]) (simp add: True digits_of_def canonical_def)
  next
    case False
    have t: "trail = [] \<or> isspace (hd trail)" using assms(3) by (cases trail) auto
    have s1: "dropWhile isspace ?s = cs @ trail"
      using assms(2) False nosp by (cases cs) (auto simp: dropWhile_append)
    have tw: "takeWhile ?one (cs @ trail) = takeWhile ?one cs"
      using t sp by (intro takeWhile_append_stop) blast
    have dw: "dropWhile ?one (cs @ trail) = ?ps @ trail"
      using t sp by (intro dropWhile_append_stop) blast
    have dec: "decode ?s = (case decode_loop (?ps @ trail) (replicate (length (?ps @ trail) * 733 div 1000 + 1) 0) of
           None \<Rightarrow> None
         | Some (b256, rest) \<Rightarrow>
             (if dropWhile isspace rest \<noteq> [] then None
              else Some (replicate (length (takeWhile ?one cs)) 0 @ map of_nat (dropWhile (\<lambda>d. d = 0) b256))))"
      unfolding decode_def cstr Let_def s1 tw dw by (rule refl)
    define v where "v = (replicate (length (?ps @ trail) * 733 div 1000 + 1) 0 :: nat list)"
    have v: "be_val 256 v = 0" "\<forall>d \<in> set v. d < 256" "length v = length (?ps @ trail) * 733 div 1000 + 1"
      unfolding v_def by (simp_all del: replicate.simps replicate_Suc One_nat_def add_Suc_right)
    have ps: "set ?ps \<subseteq> set pszBase58" using assms(1) by (auto dest: set_dropWhileD)
    have "be_val 58 (digits_of ?ps) < 58 ^ length (digits_of ?ps)"
      by (rule be_val_less [OF digits_of_less [OF ps]])
    also have "\<dots> \<le> 58 ^ length (?ps @ trail)" by (intro power_increasing) (auto simp: digits_of_def)
    also have "\<dots> \<le> 256 ^ length v" using decode_size [of "length (?ps @ trail)"] v(3) by simp
    finally obtain v' where v': "decode_loop (?ps @ trail) v = Some (v', trail)"
        "\<forall>d \<in> set v'. d < 256" "be_val 256 v' = be_val 58 (digits_of ?ps)"
      using decode_loop_correct [OF ps _ v(2) t] v(1) by auto
    have "dropWhile isspace trail = []" using assms(3) by (auto simp: dropWhile_eq_Nil_conv)
    then show ?thesis
      using v'(1,3) canonical_strip [OF v'(2)] be_val_strip [of 256 v'] dec
      by (fold v_def) auto
  qed
qed

section \<open>Correctness\<close>

lemma map_unat_of_nat: "\<forall>d \<in> set ds. d < 256 \<Longrightarrow> map unat (map of_nat ds :: byte list) = ds"
  by (induction ds) (auto simp: unat_of_nat)

lemma byte_of_nat_eq_0: "a < 256 \<Longrightarrow> (of_nat a :: byte) = 0 \<longleftrightarrow> a = 0"
  using unat_of_nat [of a, where ?'a = 8] by (auto simp flip: unat_eq_0)

lemma map_of_nat_unat: "map of_nat (map unat bs) = (bs :: byte list)"
  by (induction bs) auto

lemma canonical_bytes: "canonical 256 (map unat (dropWhile (\<lambda>b. b = 0) (bs :: byte list)))"
  using hd_dropWhile_eq [of 0 bs]
  by (cases "dropWhile (\<lambda>b. b = 0) bs") (auto simp: canonical_def unat_eq_0)

lemma hd_token: "canonical 58 ds \<Longrightarrow> ds = [] \<or> pszBase58 ! hd ds \<noteq> CHR ''1''"
  by (cases ds) (auto simp: canonical_def nth_pszBase58_eq_1)

lemma encode_token:
  assumes "encode bs = Some s"
  shows "set s \<subseteq> set pszBase58"
proof -
  obtain ds where "s = replicate (length (takeWhile (\<lambda>b. b = 0) bs)) (CHR ''1'') @ map (\<lambda>d. pszBase58 ! d) ds"
      and "canonical 58 ds"
    using encode_spec [of bs] assms by auto
  then show ?thesis using one_in_pszBase58 by (auto simp: canonical_def)
qed

lemma decode_encode_aux:
  assumes lead: "\<forall>c \<in> set lead. isspace c" and trail: "\<forall>c \<in> set trail. isspace c"
  shows "\<exists>s. encode bs = Some s \<and> decode (lead @ s @ trail) = Some bs"
proof -
  let ?z = "length (takeWhile (\<lambda>b. b = 0) bs)" and ?ps = "dropWhile (\<lambda>b. b = 0) bs"
  obtain ds where e: "encode bs = Some (replicate ?z (CHR ''1'') @ map (\<lambda>d. pszBase58 ! d) ds)" (is "_ = Some ?s")
      and ds: "canonical 58 ds" "be_val 58 ds = be_val 256 (map unat ?ps)"
    using encode_spec by blast
  have tw: "takeWhile (\<lambda>c. c = CHR ''1'') ?s = replicate ?z (CHR ''1'')"
    and dw: "dropWhile (\<lambda>c. c = CHR ''1'') ?s = map (\<lambda>d. pszBase58 ! d) ds"
    using hd_token [OF ds(1)]
    by (intro takeWhile_replicate_append dropWhile_replicate_append; auto simp: hd_map)+
  obtain vs where d: "decode (lead @ ?s @ trail) = Some (replicate (length (takeWhile (\<lambda>c. c = CHR ''1'') ?s)) 0 @ map of_nat vs)"
      and vs: "canonical 256 vs" "be_val 256 vs = be_val 58 (digits_of (dropWhile (\<lambda>c. c = CHR ''1'') ?s))"
    using decode_spec [OF encode_token [OF e] lead trail] by blast
  have "be_val 256 vs = be_val 256 (map unat ?ps)"
    using vs(2) ds digits_of_map [of ds] by (simp add: dw canonical_def)
  then have "vs = map unat ?ps"
    using canonical_unique vs(1) canonical_bytes by blast
  then have "decode (lead @ ?s @ trail) = Some (replicate ?z 0 @ ?ps)"
    using d tw map_of_nat_unat [of ?ps] by simp
  then show ?thesis using e by (simp add: replicate_dropWhile)
qed

lemma decode_loop_consumes:
  "decode_loop cs v = Some (v', rest) \<Longrightarrow>
   \<exists>pre. cs = pre @ rest \<and> set pre \<subseteq> set pszBase58 \<and> (rest = [] \<or> isspace (hd rest))"
proof (induction cs v rule: decode_loop.induct)
  case (1 v)
  then show ?case by simp
next
  case (2 c cs v)
  show ?case
  proof (cases "isspace c")
    case True
    with 2 show ?thesis by auto
  next
    case False
    then obtain d v1 where d: "strchr pszBase58 c = Some d" "mul_add 58 256 d v = (v1, 0)"
        and rec: "decode_loop cs v1 = Some (v', rest)"
      using "2.prems" by (auto split: option.splits if_splits prod.splits simp: Let_def)
    have "c \<in> set pszBase58" using d(1) strchr_None [of pszBase58 c] by auto
    moreover obtain pre where "cs = pre @ rest" "set pre \<subseteq> set pszBase58" "rest = [] \<or> isspace (hd rest)"
      using 2(1) [OF False d(1) d(2) [symmetric]] rec by auto
    ultimately show ?thesis by (intro exI [of _ "c # pre"]) auto
  qed
qed

text \<open>What \<open>decode\<close> accepts: one token of the alphabet, with white space around it.\<close>

lemma decode_Some_token:
  assumes "decode s = Some bs"
  shows "\<exists>lead cs trail. c_str s = lead @ cs @ trail \<and> set cs \<subseteq> set pszBase58
    \<and> (\<forall>c \<in> set lead. isspace c) \<and> (\<forall>c \<in> set trail. isspace c)"
proof -
  let ?one = "\<lambda>c. c = CHR ''1''"
  define psz where "psz = dropWhile isspace (c_str s)"
  have lead: "c_str s = takeWhile isspace (c_str s) @ psz" by (simp add: psz_def)
  obtain v rest where l: "decode_loop (dropWhile ?one psz) (replicate (length (dropWhile ?one psz) * 733 div 1000 + 1) 0) = Some (v, rest)"
      and r: "dropWhile isspace rest = []"
    using assms by (auto simp: decode_def Let_def psz_def split: option.splits prod.splits if_splits)
  obtain pre where pre: "dropWhile ?one psz = pre @ rest" "set pre \<subseteq> set pszBase58"
    using decode_loop_consumes [OF l] by blast
  have "psz = (takeWhile ?one psz @ pre) @ rest" using pre(1) by (metis append_assoc takeWhile_dropWhile_id)
  moreover have "set (takeWhile ?one psz @ pre) \<subseteq> set pszBase58"
    using pre(2) one_in_pszBase58 by (auto dest: set_takeWhileD)
  moreover have "\<forall>c \<in> set rest. isspace c" using r by (simp add: dropWhile_eq_Nil_conv)
  ultimately show ?thesis
    using lead set_takeWhileD [of _ isspace "c_str s"]
    by (intro exI [of _ "takeWhile isspace (c_str s)"] exI [of _ "takeWhile ?one psz @ pre"] exI [of _ rest]) auto
qed

lemma decode_c_str: "decode (c_str s) = decode s"
proof -
  have "c_str (c_str s) = c_str s" by (simp add: c_str_def takeWhile_takeWhile)
  then show ?thesis by (simp add: decode_def)
qed

lemma canonical_digits_of:
  assumes "set t \<subseteq> set pszBase58" and "t = [] \<or> hd t \<noteq> CHR ''1''"
  shows "canonical 58 (digits_of t)"
proof (cases t)
  case Nil
  then show ?thesis by (simp add: canonical_def digits_of_def)
next
  case (Cons c cs)
  then have "0 < the (strchr pszBase58 c)" using assms by (intro strchr_pos) auto
  then have "hd (digits_of t) \<noteq> 0" by (simp add: digits_of_def Cons)
  then show ?thesis using digits_of_less [OF assms(1)] by (simp add: canonical_def)
qed

lemma encode_decode_aux:
  assumes s: "set s \<subseteq> set pszBase58" and d: "decode s = Some bs"
  shows "encode bs = Some s"
proof -
  let ?one = "\<lambda>c. c = CHR ''1''"
  let ?z = "length (takeWhile ?one s)" and ?t = "dropWhile ?one s"
  obtain vs where bs: "bs = replicate ?z 0 @ map of_nat vs" and vs: "canonical 256 vs"
      "be_val 256 vs = be_val 58 (digits_of ?t)"
    using decode_spec [OF s, of "[]" "[]"] d by auto
  have nz: "map of_nat vs = [] \<or> hd (map of_nat vs :: byte list) \<noteq> 0"
    using vs(1) by (cases vs) (auto simp: canonical_def byte_of_nat_eq_0)
  have tw: "takeWhile (\<lambda>b. b = 0) bs = replicate ?z 0"
    unfolding bs by (rule takeWhile_replicate_append [OF refl nz])
  have dw: "dropWhile (\<lambda>b. b = 0) bs = map of_nat vs"
    unfolding bs by (rule dropWhile_replicate_append [OF refl nz])
  have un: "map unat (map of_nat vs :: byte list) = vs"
    using vs(1) by (intro map_unat_of_nat) (simp add: canonical_def)
  obtain ds where e: "encode bs = Some (replicate ?z (CHR ''1'') @ map (\<lambda>d. pszBase58 ! d) ds)"
      and ds: "canonical 58 ds" "be_val 58 ds = be_val 256 vs"
    using encode_spec [of bs] unfolding tw dw un length_replicate by blast
  have t: "set ?t \<subseteq> set pszBase58" using s by (auto dest: set_dropWhileD)
  have "canonical 58 (digits_of ?t)" by (rule canonical_digits_of [OF t hd_dropWhile_eq])
  then have "ds = digits_of ?t" using canonical_unique ds vs(2) by metis
  then have "encode bs = Some (replicate ?z (CHR ''1'') @ ?t)" using e map_digits_of [OF t] by simp
  then show ?thesis by (simp add: replicate_dropWhile)
qed

lemma decode32_loop_Inr: "decode32_loop cs v = Inr r \<longleftrightarrow> decode_loop cs v = Some r"
  by (induction cs arbitrary: v) (auto simp: Let_def split: option.splits prod.splits)

lemma decode32_loop_no_decoded: "decode32_loop cs v \<noteq> Inl (Decoded bs)"
  by (induction cs arbitrary: v) (auto simp: Let_def split: option.splits prod.splits)

text \<open>A failing token is one with a character outside the alphabet: never a left-over carry.\<close>

lemma decode32_loop_no_assertion:
  "be_val 256 v * 58 ^ length cs + 58 ^ length cs \<le> 256 ^ length v \<Longrightarrow>
   \<forall>d \<in> set v. d < 256 \<Longrightarrow> decode32_loop cs v \<noteq> Inl Assertion_Failed"
proof (induction cs v rule: decode32_loop.induct)
  case (1 v)
  then show ?case by simp
next
  case (2 c cs v)
  show ?case
  proof (cases "isspace c \<or> strchr pszBase58 c = None")
    case True
    then show ?thesis by (auto split: option.splits)
  next
    case False
    then obtain d where d: "strchr pszBase58 c = Some d" "d < 58"
      using strchr_Some [of pszBase58 c] by fastforce
    let ?x = "d + 58 * be_val 256 v"
    have grow: "(?x + 1) * 58 ^ length cs \<le> 256 ^ length v"
    proof -
      have "(?x + 1) * 58 ^ length cs \<le> (58 * (be_val 256 v + 1)) * 58 ^ length cs"
        using d(2) by (intro mult_le_mono1) simp
      also have "\<dots> = be_val 256 v * 58 ^ length (c # cs) + 58 ^ length (c # cs)"
        by (simp add: algebra_simps)
      finally show ?thesis using "2.prems"(1) by simp
    qed
    have "?x + 1 \<le> (?x + 1) * 58 ^ length cs"
      by (rule order_trans [OF _ mult_le_mono2 [of 1]]) simp_all
    with grow have "?x < 256 ^ length v" by linarith
    then obtain v1 where m: "mul_add 58 256 d v = (v1, 0)" and v1: "be_val 256 v1 = ?x"
        "length v1 = length v" "\<forall>d \<in> set v1. d < 256"
      using mul_add_fits [of 256 d 58 v] by auto
    have "be_val 256 v1 * 58 ^ length cs + 58 ^ length cs \<le> 256 ^ length v1"
      using grow by (simp add: v1(1,2) algebra_simps)
    then have "decode32_loop cs v1 \<noteq> Inl Assertion_Failed"
      using "2.IH" False d(1) m v1(3) by auto
    then show ?thesis using False d(1) m by simp
  qed
qed

text \<open>What other components need: the text of a byte sequence is a non-empty token of the alphabet.\<close>

lemma encode_text:
  obtains s where "encode bs = Some s" "decode s = Some bs" "set s \<subseteq> set pszBase58" "bs \<noteq> [] \<longrightarrow> s \<noteq> []"
proof -
  obtain s where s: "encode bs = Some s" "decode s = Some bs" using decode_encode_aux [of "[]" "[]" bs] by auto
  have "decode [] = Some []" by code_simp
  with s(2) have "bs \<noteq> [] \<longrightarrow> s \<noteq> []" by auto
  with s encode_token [OF s(1)] that show ?thesis by blast
qed

lemma encode_inject: "encode bs = Some s \<Longrightarrow> encode bs' = Some s \<Longrightarrow> bs = bs'"
  by (metis encode_text option.inject)

text \<open>Decoding never produces more bytes than characters, and one.\<close>

lemma length_carry_loop: "length (fst (carry_loop m b c ds)) = length ds"
  by (induction m b c ds rule: carry_loop.induct) (auto simp: Let_def split: prod.splits)

lemma length_mul_add: "length (fst (mul_add m b c v)) = length v"
  using length_carry_loop [of m b c "rev v"] by (cases "carry_loop m b c (rev v)") (simp add: mul_add_def)

lemma length_decode_loop: "decode_loop cs v = Some (v', rest) \<Longrightarrow> length v' = length v"
proof (induction cs v rule: decode_loop.induct)
  case (2 c cs v)
  show ?case
  proof (cases "isspace c")
    case False
    then obtain d where d: "strchr pszBase58 c = Some d" using 2(2) by (auto split: option.splits)
    obtain u k where u: "mul_add 58 256 d v = (u, k)" by (cases "mul_add 58 256 d v")
    then have "length u = length v" using length_mul_add [of 58 256 d v] by simp
    then show ?thesis using 2(1) [OF False d] 2(2) False by (simp add: d u split: if_splits)
  qed (use 2(2) in simp)
qed simp

lemma decode_length: "decode s = Some bs \<Longrightarrow> length bs \<le> Suc (length s)"
proof -
  assume d: "decode s = Some bs"
  define p where "p = dropWhile isspace (c_str s)"
  let ?z = "length (takeWhile (\<lambda>c. c = CHR ''1'') p)" and ?q = "dropWhile (\<lambda>c. c = CHR ''1'') p"
  obtain b256 rest where l: "decode_loop ?q (replicate (length ?q * 733 div 1000 + 1) 0) = Some (b256, rest)"
      "bs = replicate ?z 0 @ map of_nat (dropWhile (\<lambda>d. d = 0) b256)"
    using d by (auto simp: decode_def Let_def p_def split: option.splits if_splits)
  have "length bs \<le> ?z + (length ?q * 733 div 1000 + 1)"
    using length_decode_loop [OF l(1)] length_dropWhile_le [of "\<lambda>d. d = 0" b256] by (simp add: l(2))
  moreover have "?z + length ?q = length p" by (metis length_append takeWhile_dropWhile_id)
  moreover have "length p \<le> length s"
    unfolding p_def c_str_def using length_dropWhile_le length_takeWhile_le order_trans by metis
  ultimately show ?thesis by linarith
qed

lemma length_encode_loop: "encode_loop ps v = Some v' \<Longrightarrow> length v' = length v"
proof (induction ps v rule: encode_loop.induct)
  case (2 p ps v)
  obtain u k where u: "mul_add 256 58 (unat p) v = (u, k)" by (cases "mul_add 256 58 (unat p) v")
  then have "length u = length v" using length_mul_add [of 256 58 "unat p" v] by simp
  then show ?case using 2 u by (simp split: if_splits)
qed simp

lemma encode_length: "encode bs = Some s \<Longrightarrow> length s \<le> 2 * length bs + 1"
proof -
  assume e: "encode bs = Some s"
  let ?z = "length (takeWhile (\<lambda>b. b = 0) bs)" and ?ps = "dropWhile (\<lambda>b. b = 0) bs"
  obtain v where v: "encode_loop ?ps (replicate (length ?ps * 138 div 100 + 1) 0) = Some v"
      "s = replicate ?z (CHR ''1'') @ map (\<lambda>d. pszBase58 ! d) (dropWhile (\<lambda>d. d = 0) v)"
    using e by (auto simp: encode_def Let_def split: option.splits)
  have "length s \<le> ?z + (length ?ps * 138 div 100 + 1)"
    using length_encode_loop [OF v(1)] length_dropWhile_le [of "\<lambda>d. d = 0" v] by (simp add: v(2))
  moreover have "?z + length ?ps = length bs" by (metis length_append takeWhile_dropWhile_id)
  ultimately show ?thesis by linarith
qed

section \<open>Properties\<close>

text \<open>
  C36. Decoding inverts encoding: \<open>encode\<close> never fails its assertion, and \<open>decode\<close> gives
  back exactly the encoded bytes, whatever white space surrounds the text.
\<close>

theorem b58_decode_encode:
  "\<exists>s. encode bs = Some s \<and> decode s = Some bs \<and> decode ('' '' @ s @ '' '') = Some bs"
  using decode_encode_aux [of "[]" "[]" bs] decode_encode_aux [of "'' ''" "'' ''" bs]
  by (auto simp: isspace_def)

text \<open>
  Encoding inverts decoding on strings without white space and NUL: the textual form of a
  byte sequence is unique, so hashes and keys compared as text compare as bytes.
\<close>

theorem b58_encode_decode:
  assumes "decode s = Some bs" and "\<forall>c \<in> set s. \<not> isspace c" and "CHR 0x00 \<notin> set s"
  shows "encode bs = Some s"
proof -
  obtain lead cs trail where c: "c_str s = lead @ cs @ trail" "set cs \<subseteq> set pszBase58"
      and sp: "\<forall>c \<in> set lead. isspace c" "\<forall>c \<in> set trail. isspace c"
    using decode_Some_token [OF assms(1)] by blast
  have s: "s = lead @ cs @ trail" using c(1) assms(3) by simp
  then have "lead = []" and "trail = []"
    using sp assms(2) by (cases lead; auto) (use s sp assms(2) in \<open>cases trail; auto\<close>)
  with s have "s = cs" by simp
  then show ?thesis using encode_decode_aux c(2) assms(1) by simp
qed

theorem b58_encode_decode_witness: "encode [0, 1, 255] = Some ''19p''"
proof (rule b58_encode_decode)
  show "decode ''19p'' = Some [0, 1, 255]" by code_simp
qed (simp_all add: isspace_def)

text \<open>
  What \<open>decode\<close> accepts: exactly a run of characters of the alphabet with white space on
  either side (of the part of the string before a NUL). In particular the work vector is never
  too short: no valid text is refused because of a left-over carry.
\<close>

theorem b58_decode_accepts:
  "decode s \<noteq> None \<longleftrightarrow> (\<exists>lead cs trail. c_str s = lead @ cs @ trail \<and> set cs \<subseteq> set pszBase58
     \<and> list_all isspace lead \<and> list_all isspace trail)"
proof
  assume "decode s \<noteq> None"
  then show "\<exists>lead cs trail. c_str s = lead @ cs @ trail \<and> set cs \<subseteq> set pszBase58
     \<and> list_all isspace lead \<and> list_all isspace trail"
    using decode_Some_token by (auto simp: list_all_iff)
next
  assume "\<exists>lead cs trail. c_str s = lead @ cs @ trail \<and> set cs \<subseteq> set pszBase58
     \<and> list_all isspace lead \<and> list_all isspace trail"
  then obtain lead cs trail where c: "c_str s = lead @ cs @ trail" "set cs \<subseteq> set pszBase58"
      and sp: "\<forall>c \<in> set lead. isspace c" "\<forall>c \<in> set trail. isspace c"
    by (auto simp: list_all_iff)
  have "decode (c_str s) \<noteq> None"
    using decode_spec [OF c(2) sp] unfolding c(1) by blast
  then show "decode s \<noteq> None" by (simp add: decode_c_str)
qed

text \<open>
  The fixed-size overload used for private keys never fails its assertion, and it accepts
  exactly what the general one accepts with 32 bytes.
\<close>

theorem b58_decode32:
  "decode32 s \<noteq> Assertion_Failed \<and> (decode32 s = Decoded bs \<longleftrightarrow> decode s = Some bs \<and> length bs = 32)"
proof -
  let ?one = "\<lambda>c. c = CHR ''1''"
  define psz where "psz = dropWhile ?one (dropWhile isspace (c_str s))"
  define v where "v = (replicate (length psz * 733 div 1000 + 1) 0 :: nat list)"
  have v: "be_val 256 v = 0" "\<forall>d \<in> set v. d < 256" "length v = length psz * 733 div 1000 + 1"
    unfolding v_def by (simp_all del: replicate.simps replicate_Suc One_nat_def add_Suc_right)
  have no: "decode32_loop psz v \<noteq> Inl Assertion_Failed"
    using decode32_loop_no_assertion [of v psz] v decode_size [of "length psz"] by simp
  have eq: "decode32_loop psz v = (case decode_loop psz v of Some r \<Rightarrow> Inr r | None \<Rightarrow> Inl Rejected)"
  proof (cases "decode32_loop psz v")
    case (Inl e)
    moreover from this no decode32_loop_no_decoded have "e = Rejected" by (cases e) blast+
    ultimately show ?thesis using decode32_loop_Inr [of psz v] by (cases "decode_loop psz v") auto
  next
    case (Inr r)
    then show ?thesis using decode32_loop_Inr [of psz v r] by simp
  qed
  show ?thesis
    unfolding decode32_def decode_def Let_def psz_def [symmetric] v_def [symmetric] eq
    by (cases "decode_loop psz v") (simp_all split: prod.split, metis length_append length_map length_replicate)
qed

end
