(* ===== verification/Block_Hash.thy ===== *)
theory Block_Hash
  imports Prelude
begin

text \<open>
  What \<open>src/gov/crypto/sha256.cpp\<close> and \<open>src/gov/crypto/ripemd160.cpp\<close> share: the class
  layout (chaining state, 64-byte buffer, byte counter), the body of \<open>write\<close>, which is the
  same text in both files up to the name of the compression function, and the reads and writes
  of \<open>endian_rw.h\<close>.

  The contract is the locale \<open>message_digest\<close>: whatever the way a message is cut into calls of
  \<open>write\<close>, and whatever the buffer held before, \<open>finalize\<close> gives the digest of the
  concatenation. \<open>block_digest\<close> states what a compression function has to provide and proves
  that contract; the two hash functions interpret both.
\<close>

section \<open>The code\<close>

record 's hasher =
  hs :: 's
  buf :: "byte list"
  nbytes :: u64

text \<open>\<open>endian_rw.h\<close>; the pointer argument is the rest of the byte array.\<close>

definition ReadLE32 :: "byte list \<Rightarrow> u32" where "ReadLE32 p = read_le (take 4 p)"
definition ReadBE32 :: "byte list \<Rightarrow> u32" where "ReadBE32 p = read_le (rev (take 4 p))"
definition WriteLE32 :: "u32 \<Rightarrow> byte list" where "WriteLE32 x = write_le 4 (unat x)"
definition WriteBE32 :: "u32 \<Rightarrow> byte list" where "WriteBE32 x = rev (write_le 4 (unat x))"
definition WriteLE64 :: "u64 \<Rightarrow> byte list" where "WriteLE64 x = write_le 8 (unat x)"
definition WriteBE64 :: "u64 \<Rightarrow> byte list" where "WriteBE64 x = rev (write_le 8 (unat x))"

text \<open>The loop over full chunks of \<open>write\<close>, and \<open>write\<close> itself.\<close>

function write_chunks :: "('s \<Rightarrow> byte list \<Rightarrow> 's) \<Rightarrow> 's hasher \<Rightarrow> byte list \<Rightarrow> 's hasher \<times> byte list" where
  "write_chunks transform st data =
     (if 64 \<le> length data
      then write_chunks transform
             (st\<lparr>hs := transform (hs st) (take 64 data), nbytes := nbytes st + 64\<rparr>) (drop 64 data)
      else (st, data))"
  by pat_completeness auto
termination by (relation "measure (\<lambda>(transform, st, data). length data)") auto

declare write_chunks.simps [simp del]

definition buffer_write :: "('s \<Rightarrow> byte list \<Rightarrow> 's) \<Rightarrow> 's hasher \<Rightarrow> byte list \<Rightarrow> 's hasher" where
  "buffer_write transform st data =
     (let bufsize = unat (nbytes st mod 64);
          (st, data, bufsize) =
            (if bufsize \<noteq> 0 \<and> bufsize + length data \<ge> 64
             then let b = write_at bufsize (take (64 - bufsize) data) (buf st)
                  in (st\<lparr>buf := b, nbytes := nbytes st + of_nat (64 - bufsize), hs := transform (hs st) b\<rparr>,
                      drop (64 - bufsize) data, 0)
             else (st, data, bufsize));
          (st, data) = write_chunks transform st data
      in if data \<noteq> []
         then st\<lparr>buf := write_at bufsize data (buf st), nbytes := nbytes st + of_nat (length data)\<rparr>
         else st)"

text \<open>The constant \<open>pad\<close> and the number of its bytes that \<open>finalize\<close> writes.\<close>

definition pad :: "byte list" where "pad = 0x80 # replicate 63 0"

definition pad_len :: "u64 \<Rightarrow> nat" where
  "pad_len n = unat (1 + (119 - n mod 64) mod 64)"

section \<open>Blocks of a message\<close>

fun blocks :: "byte list \<Rightarrow> byte list list" where
  "blocks m = (if length m < 64 then [] else take 64 m # blocks (drop 64 m))"

declare blocks.simps [simp del]

definition rest :: "byte list \<Rightarrow> byte list" where
  "rest m = drop (64 * (length m div 64)) m"

lemma blocks_short [simp]: "length m < 64 \<Longrightarrow> blocks m = []"
  by (simp add: blocks.simps)

lemma blocks_step: "length b = 64 \<Longrightarrow> blocks (b @ m) = b # blocks m"
  by (subst blocks.simps) simp

lemma rest_short [simp]: "length m < 64 \<Longrightarrow> rest m = m"
  by (simp add: rest_def)

lemma rest_step: "length b = 64 \<Longrightarrow> rest (b @ m) = rest m"
  by (simp add: rest_def)

lemma length_rest: "length (rest m) = length m mod 64"
  by (simp add: rest_def minus_mult_div_eq_mod)

text \<open>Induction over the blocks of a message.\<close>

lemma block_induct [case_names short step]:
  fixes m :: "byte list"
  assumes "\<And>m. length m < 64 \<Longrightarrow> P m"
    and "\<And>b m. length b = 64 \<Longrightarrow> P m \<Longrightarrow> P (b @ m)"
  shows "P m"
proof (induction m rule: blocks.induct)
  case (1 m)
  show ?case
  proof (cases "length m < 64")
    case False
    then have "P (take 64 m @ drop 64 m)" using 1 assms(2) [of "take 64 m" "drop 64 m"] by simp
    then show ?thesis by simp
  qed (rule assms(1))
qed

lemma blocks_append: "blocks (m @ d) = blocks m @ blocks (rest m @ d)"
  by (induction m rule: block_induct) (simp_all add: blocks_step rest_step)

lemma rest_append: "rest (m @ d) = rest (rest m @ d)"
  by (induction m rule: block_induct) (simp_all add: rest_step)

section \<open>What a hasher holds\<close>

text \<open>
  After absorbing the message \<open>m\<close> from the initial chaining value: the full blocks are
  compressed, the rest is at the start of the buffer, the counter is the length modulo 2^64.
\<close>

definition absorbed :: "('s \<Rightarrow> byte list \<Rightarrow> 's) \<Rightarrow> 's \<Rightarrow> byte list \<Rightarrow> 's hasher \<Rightarrow> bool" where
  "absorbed transform s0 m st \<longleftrightarrow>
     hs st = foldl transform s0 (blocks m) \<and> length (buf st) = 64
     \<and> take (length m mod 64) (buf st) = rest m \<and> nbytes st = of_nat (length m)"

lemma absorbed_init: "absorbed transform s0 [] st \<longleftrightarrow> hs st = s0 \<and> length (buf st) = 64 \<and> nbytes st = 0"
  by (simp add: absorbed_def)

lemma absorbed_buf: "absorbed transform s0 m st \<Longrightarrow> length (buf st) = 64"
  by (simp add: absorbed_def)

lemma counter_mod_64: "unat ((of_nat n :: u64) mod 64) = n mod 64"
proof -
  have "(64 :: nat) dvd 2 ^ 64" by (simp add: dvd_def)
  then show ?thesis by (simp add: unat_mod unat_of_nat mod_mod_cancel)
qed

lemma absorbed_bufsize: "absorbed transform s0 m st \<Longrightarrow> unat (nbytes st mod 64) = length m mod 64"
  by (simp add: absorbed_def counter_mod_64)

lemma write_chunks_eq:
  "write_chunks transform st data =
     (st\<lparr>hs := foldl transform (hs st) (blocks data), nbytes := nbytes st + of_nat (64 * (length data div 64))\<rparr>,
      rest data)"
proof (induction data arbitrary: st rule: block_induct)
  case (short m)
  then show ?case by (simp add: write_chunks.simps)
next
  case (step b m)
  then show ?case by (subst write_chunks.simps) (simp add: blocks_step rest_step algebra_simps)
qed

text \<open>The last part of \<open>write\<close>, once the buffer is empty or too little data has arrived to fill it.\<close>

lemma write_tail:
  assumes "absorbed transform s0 m st" and "length (rest m @ data) < 64 \<or> rest m = []"
  shows "absorbed transform s0 (m @ data)
    (let (st, data) = write_chunks transform st data
     in if data \<noteq> [] then st\<lparr>buf := write_at (length m mod 64) data (buf st), nbytes := nbytes st + of_nat (length data)\<rparr>
        else st)"
proof -
  let ?n = "length m mod 64"
  have n: "length (rest m) = ?n" by (rule length_rest)
  have fit: "?n + length (rest data) \<le> 64"
    using assms(2)
  proof
    assume "length (rest m @ data) < 64"
    then show ?thesis using n mod_less_eq_dividend [of "length data" 64]
      by (simp add: length_rest [of data] del: mod_less_eq_dividend)
  next
    assume "rest m = []"
    then show ?thesis using n mod_less_divisor [of 64 "length data"] by (simp add: length_rest [of data])
  qed
  have rst: "rest (m @ data) = rest m @ rest data"
    using assms(2) by (subst rest_append) auto
  have blk: "blocks (m @ data) = blocks m @ blocks data"
    using assms(2) by (subst blocks_append) auto
  have len: "length (m @ data) mod 64 = ?n + length (rest data)"
    using length_rest [of "m @ data"] n by (simp add: rst)
  have cnt: "64 * (length data div 64) + length (rest data) = length data"
    by (simp add: length_rest)
  have cnt2: "of_nat (length m) + of_nat (64 * (length data div 64)) + of_nat (length (rest data)) = (of_nat (length (m @ data)) :: u64)"
    unfolding of_nat_add [symmetric] length_append by (rule arg_cong [where f = of_nat]) (simp add: length_rest)
  have "take (?n + length (rest data)) (write_at ?n (rest data) (buf st)) = rest m @ rest data"
    using take_write_at [of ?n "rest data" "buf st"] assms(1) fit by (simp add: absorbed_def)
  moreover have "length (write_at ?n (rest data) (buf st)) = 64"
    using length_write_at [of ?n "rest data" "buf st"] assms(1) fit by (simp add: absorbed_def)
  ultimately show ?thesis
    using assms(1) cnt2 len
    by (cases "rest data = []") (simp_all add: write_chunks_eq absorbed_def rst blk del: of_nat_mult length_append)
qed

lemma buffer_write_absorbed:
  assumes "absorbed transform s0 m st"
  shows "absorbed transform s0 (m @ data) (buffer_write transform st data)"
proof -
  let ?n = "length m mod 64"
  have bs: "unat (nbytes st mod 64) = ?n" using assms by (rule absorbed_bufsize)
  show ?thesis
  proof (cases "?n \<noteq> 0 \<and> ?n + length data \<ge> 64")
    case False
    then have "length (rest m @ data) < 64 \<or> rest m = []" using length_rest [of m] by auto
    from write_tail [OF assms this] show ?thesis
      unfolding buffer_write_def Let_def bs if_not_P [OF False] prod.case .
  next
    case True
    let ?d1 = "take (64 - ?n) data" and ?d2 = "drop (64 - ?n) data"
    let ?b = "write_at ?n ?d1 (buf st)"
    let ?st = "st\<lparr>buf := ?b, nbytes := nbytes st + of_nat (64 - ?n), hs := transform (hs st) ?b\<rparr>"
    have "64 - ?n \<le> length data" using True by linarith
    then have l1: "length ?d1 = 64 - ?n" by simp
    have b: "?b = rest m @ ?d1" "length ?b = 64"
      using take_write_at [of ?n ?d1 "buf st"] length_write_at [of ?n ?d1 "buf st"] assms l1
      by (simp_all add: absorbed_def)
    have full: "length (rest m @ ?d1) = 64" using l1 length_rest [of m] by simp
    have "rest (m @ ?d1) = rest ((rest m @ ?d1) @ [])" by (subst rest_append) simp
    also have "\<dots> = []" by (subst rest_step [OF full]) simp
    finally have rst: "rest (m @ ?d1) = []" .
    have z: "length (m @ ?d1) mod 64 = 0"
      using length_rest [of "m @ ?d1", symmetric] by (simp only: rst list.size(3))
    have "blocks (m @ ?d1) = blocks m @ blocks ((rest m @ ?d1) @ [])" by (subst blocks_append) simp
    also have "\<dots> = blocks m @ [?b]" by (subst blocks_step [OF full]) (simp add: b(1) [symmetric])
    finally have blk: "blocks (m @ ?d1) = blocks m @ [?b]" .
    have "nbytes ?st = nbytes st + of_nat (64 - ?n)" by simp
    also have "\<dots> = of_nat (length (m @ ?d1))"
      using assms by (simp only: absorbed_def length_append l1 of_nat_add)
    finally have abs: "absorbed transform s0 (m @ ?d1) ?st"
      using assms b(2) blk rst z by (simp add: absorbed_def del: length_take length_append)
    have "(m @ ?d1) @ ?d2 = m @ data" by simp
    with write_tail [OF abs, of ?d2, unfolded z] rst show ?thesis
      unfolding buffer_write_def Let_def bs if_P [OF True] prod.case by metis
  qed
qed

lemma buffer_write_Nil: "buffer_write transform st [] = st"
proof -
  have "\<not> 64 \<le> unat (nbytes st mod 64)" by (simp add: unat_mod not_le)
  then show ?thesis by (simp add: buffer_write_def Let_def write_chunks.simps)
qed

section \<open>Padding\<close>

text \<open>
  The padded message of the two standards: a one bit, zeros up to eight bytes before a multiple
  of 64, and the bit length.
\<close>

definition padding :: "nat \<Rightarrow> byte list" where
  "padding n = 0x80 # replicate (nat ((55 - int n) mod 64)) 0"

lemma padding_zeros: "nat ((55 - int n) mod 64) = (119 - n mod 64) mod 64"
proof -
  have le: "n mod 64 \<le> 119" using mod_less_divisor [of 64 n] by simp
  have "(55 - int n) mod 64 = (119 - int n mod 64) mod 64"
    using mod_diff_right_eq [of 119 "int n" 64] mod_add_self1 [of 64 "55 - int n"] by simp
  also have "\<dots> = int (119 - n mod 64) mod 64"
    using le by (simp add: of_nat_diff of_nat_mod)
  finally have "(55 - int n) mod 64 = int ((119 - n mod 64) mod 64)" by (simp only: of_nat_mod of_nat_numeral)
  then show ?thesis by (simp only: nat_int)
qed

lemma length_padding: "(n + length (padding n) + 8) mod 64 = 0"
proof -
  let ?k = "119 - n mod 64"
  have le: "n mod 64 \<le> 119" using mod_less_divisor [of 64 n] by simp
  have "(n + Suc (?k mod 64) + 8) mod 64 = ((n + 9) + ?k mod 64) mod 64" by (simp add: ac_simps)
  also have "\<dots> = ((n + 9) + ?k) mod 64" by (rule mod_add_right_eq)
  also have "\<dots> = (n + (9 + ?k)) mod 64" by (simp only: add.assoc)
  also have "\<dots> = (n mod 64 + (9 + ?k)) mod 64" by (simp only: mod_add_left_eq)
  also have "n mod 64 + (9 + ?k) = 128" using le by simp
  finally show ?thesis by (simp add: padding_def padding_zeros)
qed

lemma of_nat_mod_64: "(of_nat n :: u64) mod 64 = of_nat (n mod 64)"
proof -
  have "n mod 64 < 64" by simp
  then have "n mod 64 < 2 ^ 64" by (rule order.strict_trans) simp
  then show ?thesis by (simp add: word_unat_eq_iff counter_mod_64 unat_of_nat)
qed

lemma pad_len_of_nat: "pad_len (of_nat n) = 1 + (119 - n mod 64) mod 64"
proof -
  have "n mod 64 \<le> 119" using mod_less_divisor [of 64 n] by simp
  then have "119 - (of_nat (n mod 64) :: u64) = of_nat (119 - n mod 64)" by (simp add: of_nat_diff)
  then have "1 + (119 - (of_nat n :: u64) mod 64) mod 64 = of_nat (1 + (119 - n mod 64) mod 64)"
    by (simp only: of_nat_mod_64 of_nat_add of_nat_1)
  moreover have "1 + (119 - n mod 64) mod 64 \<le> 64"
    using mod_less_divisor [of 64 "119 - n mod 64"] by simp
  ultimately show ?thesis unfolding pad_len_def by (simp only: unat_of_nat) simp
qed

lemma pad_eq_padding: "take (pad_len (of_nat n)) pad = padding n"
proof -
  have "(119 - n mod 64) mod 64 \<le> 63"
    using mod_less_divisor [of 64 "119 - n mod 64"] by simp
  then show ?thesis
    unfolding pad_len_of_nat pad_def padding_def padding_zeros by (simp del: replicate.simps)
qed

text \<open>The length field: the byte counter shifted, however long the message is.\<close>

lemma write_le_mod: "write_le n (x mod 256 ^ n) = write_le n x"
proof -
  have "write_le n x = write_le (length (write_le n x)) (le_val 256 (map unat (write_le n x)))"
    by (rule write_le_le_val [symmetric])
  then show ?thesis by (simp add: le_val_write_le)
qed

lemma bit_length_bytes: "write_le 8 (unat (push_bit 3 (of_nat n :: u64))) = write_le 8 (8 * n)"
proof -
  have "push_bit 3 (of_nat n :: u64) = of_nat (8 * n)" by (simp add: push_bit_eq_mult)
  moreover have "(2 :: nat) ^ LENGTH(64) = 256 ^ 8" by simp
  ultimately have "unat (push_bit 3 (of_nat n :: u64)) = (8 * n) mod 256 ^ 8" by (simp only: unat_of_nat)
  then show ?thesis by (simp only: write_le_mod)
qed

section \<open>The contract\<close>

text \<open>
  What the clients of a hash class rely on. \<open>holds m st\<close> says that the object \<open>st\<close> has
  absorbed the message \<open>m\<close>.
\<close>

locale message_digest =
  fixes holds :: "byte list \<Rightarrow> 'h \<Rightarrow> bool"
    and feed :: "'h \<Rightarrow> byte list \<Rightarrow> 'h"
    and finalize :: "'h \<Rightarrow> byte list \<times> 'h"
    and reset :: "'h \<Rightarrow> 'h"
    and digest :: "byte list \<Rightarrow> byte list"
  assumes write_holds: "holds m st \<Longrightarrow> holds (m @ d) (feed st d)"
    and finalize_digest: "holds m st \<Longrightarrow> fst (finalize st) = digest m"
    and finalize_reset: "holds m st \<Longrightarrow> holds [] (reset (snd (finalize st)))"
begin

lemma writes_hold: "holds m st \<Longrightarrow> holds (m @ concat ds) (foldl feed st ds)"
proof (induction ds arbitrary: m st)
  case (Cons d ds)
  then show ?case using Cons.IH [OF write_holds [OF Cons.prems, of d]] by simp
qed simp

lemma digest_of_writes: "holds [] st \<Longrightarrow> fst (finalize (foldl feed st ds)) = digest (concat ds)"
  using finalize_digest writes_hold by fastforce

lemma segmentation:
  "holds [] st \<Longrightarrow> holds [] st' \<Longrightarrow> concat ds = concat ds' \<Longrightarrow>
   fst (finalize (foldl feed st ds)) = fst (finalize (foldl feed st' ds'))"
  by (simp add: digest_of_writes)

text \<open>Hashing the digest again with the same object.\<close>

lemma rehash:
  assumes "holds m st"
  shows "fst (finalize (feed (reset (snd (finalize st))) (fst (finalize st)))) = digest (digest m)"
  using finalize_digest [OF write_holds [OF finalize_reset [OF assms], of "digest m"]]
  by (simp add: finalize_digest [OF assms])

end

text \<open>
  A class built from the shared buffer: \<open>finalize\<close> writes the padding and the length and
  outputs the chaining state. The laws are what its code does with the compression function.
\<close>

locale block_digest =
  fixes transform :: "'s \<Rightarrow> byte list \<Rightarrow> 's" and s0 :: 's
    and size_desc :: "u64 \<Rightarrow> byte list" and out_bytes :: "'s \<Rightarrow> byte list"
    and feed :: "'s hasher \<Rightarrow> byte list \<Rightarrow> 's hasher"
    and finalize :: "'s hasher \<Rightarrow> byte list \<times> 's hasher"
    and reset :: "'s hasher \<Rightarrow> 's hasher"
  assumes write_eq: "feed st d = buffer_write transform st d"
    and finalize_eq: "finalize st =
      (let st' = feed (feed st (take (pad_len (nbytes st)) pad)) (size_desc (nbytes st)) in (out_bytes (hs st'), st'))"
    and reset_eq: "reset st = st\<lparr>nbytes := 0, hs := s0\<rparr>"
    and size_desc_len: "length (size_desc n) = 8"
begin

text \<open>The digest of the standard: compress every block of the padded message.\<close>

definition std_digest :: "byte list \<Rightarrow> byte list" where
  "std_digest m =
     out_bytes (foldl transform s0 (blocks (m @ padding (length m) @ size_desc (of_nat (length m)))))"

lemma padded_length: "64 dvd length (m @ padding (length m) @ size_desc (of_nat (length m)))"
  using length_padding [of "length m"] by (simp add: size_desc_len dvd_eq_mod_eq_0 add.assoc)

lemma final_absorbed:
  assumes "absorbed transform s0 m st"
  shows "absorbed transform s0 (m @ padding (length m) @ size_desc (of_nat (length m))) (snd (finalize st))"
proof -
  have n: "nbytes st = of_nat (length m)" using assms by (simp add: absorbed_def)
  have "absorbed transform s0 ((m @ padding (length m)) @ size_desc (of_nat (length m))) (snd (finalize st))"
    unfolding finalize_eq Let_def snd_conv write_eq n pad_eq_padding
    by (intro buffer_write_absorbed assms)
  then show ?thesis by simp
qed

lemma finalize_out: "fst (finalize st) = out_bytes (hs (snd (finalize st)))"
  by (simp add: finalize_eq Let_def)

lemma final_digest: "absorbed transform s0 m st \<Longrightarrow> fst (finalize st) = std_digest m"
  using final_absorbed [of m st] finalize_out [of st] by (simp only: absorbed_def std_digest_def)

end

sublocale block_digest \<subseteq> message_digest "absorbed transform s0" feed finalize reset std_digest
proof unfold_locales
  fix m d st
  assume st: "absorbed transform s0 m st"
  show "absorbed transform s0 (m @ d) (feed st d)" unfolding write_eq using st by (rule buffer_write_absorbed)
  show "fst (finalize st) = std_digest m" using st by (rule final_digest)
  show "absorbed transform s0 [] (reset (snd (finalize st)))"
    using absorbed_buf [OF final_absorbed [OF st]] by (simp add: absorbed_init reset_eq)
qed

end
