(* ===== verification/Ripemd160.thy ===== *)
theory Ripemd160
  imports Block_Hash
begin

text \<open>
  \<open>src/gov/crypto/ripemd160.{h,cpp}\<close>: the unrolled compression function with its two
  interleaved lines of 80 steps, in the five groups of the source, and the class around it.
  The reference is the RIPEMD-160 specification (selection of message words and amounts of
  rotation as tables, one step on five variables). The lemmas show that the code computes it
  for every segmentation of the message.
\<close>

section \<open>The code\<close>

type_synonym rmd_vars = "u32 \<times> u32 \<times> u32 \<times> u32 \<times> u32"
type_synonym rmd_words =
  "u32 \<times> u32 \<times> u32 \<times> u32 \<times> u32 \<times> u32 \<times> u32 \<times> u32 \<times> u32 \<times> u32 \<times> u32 \<times> u32 \<times> u32 \<times> u32 \<times> u32 \<times> u32"

definition rmd_f1 :: "u32 \<Rightarrow> u32 \<Rightarrow> u32 \<Rightarrow> u32" where "rmd_f1 x y z = x XOR y XOR z"
definition rmd_f2 :: "u32 \<Rightarrow> u32 \<Rightarrow> u32 \<Rightarrow> u32" where "rmd_f2 x y z = (x AND y) OR (NOT x AND z)"
definition rmd_f3 :: "u32 \<Rightarrow> u32 \<Rightarrow> u32 \<Rightarrow> u32" where "rmd_f3 x y z = (x OR NOT y) XOR z"
definition rmd_f4 :: "u32 \<Rightarrow> u32 \<Rightarrow> u32 \<Rightarrow> u32" where "rmd_f4 x y z = (x AND z) OR (y AND NOT z)"
definition rmd_f5 :: "u32 \<Rightarrow> u32 \<Rightarrow> u32 \<Rightarrow> u32" where "rmd_f5 x y z = x XOR (y OR NOT z)"

definition rmd_Initialize :: rmd_vars where
  "rmd_Initialize = (0x67452301, 0xEFCDAB89, 0x98BADCFE, 0x10325476, 0xC3D2E1F0)"

definition rol :: "u32 \<Rightarrow> nat \<Rightarrow> u32" where "rol x i = push_bit i x OR drop_bit (32 - i) x"

text \<open>\<open>Round\<close> updates its first and third arguments; the model returns their new values.\<close>

definition rmd_Round ::
  "u32 \<Rightarrow> u32 \<Rightarrow> u32 \<Rightarrow> u32 \<Rightarrow> u32 \<Rightarrow> u32 \<Rightarrow> u32 \<Rightarrow> u32 \<Rightarrow> nat \<Rightarrow> u32 \<times> u32" where
  "rmd_Round a b c d e f x k r = (rol (a + f + x + k) r + e, rol c 10)"

definition R11 :: "u32 \<Rightarrow> u32 \<Rightarrow> u32 \<Rightarrow> u32 \<Rightarrow> u32 \<Rightarrow> u32 \<Rightarrow> nat \<Rightarrow> u32 \<times> u32" where
  "R11 a b c d e x r = rmd_Round a b c d e (rmd_f1 b c d) x 0 r"
definition R21 :: "u32 \<Rightarrow> u32 \<Rightarrow> u32 \<Rightarrow> u32 \<Rightarrow> u32 \<Rightarrow> u32 \<Rightarrow> nat \<Rightarrow> u32 \<times> u32" where
  "R21 a b c d e x r = rmd_Round a b c d e (rmd_f2 b c d) x 0x5A827999 r"
definition R31 :: "u32 \<Rightarrow> u32 \<Rightarrow> u32 \<Rightarrow> u32 \<Rightarrow> u32 \<Rightarrow> u32 \<Rightarrow> nat \<Rightarrow> u32 \<times> u32" where
  "R31 a b c d e x r = rmd_Round a b c d e (rmd_f3 b c d) x 0x6ED9EBA1 r"
definition R41 :: "u32 \<Rightarrow> u32 \<Rightarrow> u32 \<Rightarrow> u32 \<Rightarrow> u32 \<Rightarrow> u32 \<Rightarrow> nat \<Rightarrow> u32 \<times> u32" where
  "R41 a b c d e x r = rmd_Round a b c d e (rmd_f4 b c d) x 0x8F1BBCDC r"
definition R51 :: "u32 \<Rightarrow> u32 \<Rightarrow> u32 \<Rightarrow> u32 \<Rightarrow> u32 \<Rightarrow> u32 \<Rightarrow> nat \<Rightarrow> u32 \<times> u32" where
  "R51 a b c d e x r = rmd_Round a b c d e (rmd_f5 b c d) x 0xA953FD4E r"
definition R12 :: "u32 \<Rightarrow> u32 \<Rightarrow> u32 \<Rightarrow> u32 \<Rightarrow> u32 \<Rightarrow> u32 \<Rightarrow> nat \<Rightarrow> u32 \<times> u32" where
  "R12 a b c d e x r = rmd_Round a b c d e (rmd_f5 b c d) x 0x50A28BE6 r"
definition R22 :: "u32 \<Rightarrow> u32 \<Rightarrow> u32 \<Rightarrow> u32 \<Rightarrow> u32 \<Rightarrow> u32 \<Rightarrow> nat \<Rightarrow> u32 \<times> u32" where
  "R22 a b c d e x r = rmd_Round a b c d e (rmd_f4 b c d) x 0x5C4DD124 r"
definition R32 :: "u32 \<Rightarrow> u32 \<Rightarrow> u32 \<Rightarrow> u32 \<Rightarrow> u32 \<Rightarrow> u32 \<Rightarrow> nat \<Rightarrow> u32 \<times> u32" where
  "R32 a b c d e x r = rmd_Round a b c d e (rmd_f3 b c d) x 0x6D703EF3 r"
definition R42 :: "u32 \<Rightarrow> u32 \<Rightarrow> u32 \<Rightarrow> u32 \<Rightarrow> u32 \<Rightarrow> u32 \<Rightarrow> nat \<Rightarrow> u32 \<times> u32" where
  "R42 a b c d e x r = rmd_Round a b c d e (rmd_f2 b c d) x 0x7A6D76E9 r"
definition R52 :: "u32 \<Rightarrow> u32 \<Rightarrow> u32 \<Rightarrow> u32 \<Rightarrow> u32 \<Rightarrow> u32 \<Rightarrow> nat \<Rightarrow> u32 \<times> u32" where
  "R52 a b c d e x r = rmd_Round a b c d e (rmd_f1 b c d) x 0 r"

text \<open>The five groups of \<open>Transform\<close>, line by line.\<close>

definition rmd_rounds_1 :: "rmd_words \<Rightarrow> rmd_vars \<times> rmd_vars \<Rightarrow> rmd_vars \<times> rmd_vars" where
  "rmd_rounds_1 = (\<lambda>(w0, w1, w2, w3, w4, w5, w6, w7, w8, w9, w10, w11, w12, w13, w14, w15) ((a1, b1, c1, d1, e1), (a2, b2, c2, d2, e2)).
     let (a1, c1) = R11 a1 b1 c1 d1 e1 w0 11;
         (a2, c2) = R12 a2 b2 c2 d2 e2 w5 8;
         (e1, b1) = R11 e1 a1 b1 c1 d1 w1 14;
         (e2, b2) = R12 e2 a2 b2 c2 d2 w14 9;
         (d1, a1) = R11 d1 e1 a1 b1 c1 w2 15;
         (d2, a2) = R12 d2 e2 a2 b2 c2 w7 9;
         (c1, e1) = R11 c1 d1 e1 a1 b1 w3 12;
         (c2, e2) = R12 c2 d2 e2 a2 b2 w0 11;
         (b1, d1) = R11 b1 c1 d1 e1 a1 w4 5;
         (b2, d2) = R12 b2 c2 d2 e2 a2 w9 13;
         (a1, c1) = R11 a1 b1 c1 d1 e1 w5 8;
         (a2, c2) = R12 a2 b2 c2 d2 e2 w2 15;
         (e1, b1) = R11 e1 a1 b1 c1 d1 w6 7;
         (e2, b2) = R12 e2 a2 b2 c2 d2 w11 15;
         (d1, a1) = R11 d1 e1 a1 b1 c1 w7 9;
         (d2, a2) = R12 d2 e2 a2 b2 c2 w4 5;
         (c1, e1) = R11 c1 d1 e1 a1 b1 w8 11;
         (c2, e2) = R12 c2 d2 e2 a2 b2 w13 7;
         (b1, d1) = R11 b1 c1 d1 e1 a1 w9 13;
         (b2, d2) = R12 b2 c2 d2 e2 a2 w6 7;
         (a1, c1) = R11 a1 b1 c1 d1 e1 w10 14;
         (a2, c2) = R12 a2 b2 c2 d2 e2 w15 8;
         (e1, b1) = R11 e1 a1 b1 c1 d1 w11 15;
         (e2, b2) = R12 e2 a2 b2 c2 d2 w8 11;
         (d1, a1) = R11 d1 e1 a1 b1 c1 w12 6;
         (d2, a2) = R12 d2 e2 a2 b2 c2 w1 14;
         (c1, e1) = R11 c1 d1 e1 a1 b1 w13 7;
         (c2, e2) = R12 c2 d2 e2 a2 b2 w10 14;
         (b1, d1) = R11 b1 c1 d1 e1 a1 w14 9;
         (b2, d2) = R12 b2 c2 d2 e2 a2 w3 12;
         (a1, c1) = R11 a1 b1 c1 d1 e1 w15 8;
         (a2, c2) = R12 a2 b2 c2 d2 e2 w12 6
     in ((a1, b1, c1, d1, e1), (a2, b2, c2, d2, e2)))"

definition rmd_rounds_2 :: "rmd_words \<Rightarrow> rmd_vars \<times> rmd_vars \<Rightarrow> rmd_vars \<times> rmd_vars" where
  "rmd_rounds_2 = (\<lambda>(w0, w1, w2, w3, w4, w5, w6, w7, w8, w9, w10, w11, w12, w13, w14, w15) ((a1, b1, c1, d1, e1), (a2, b2, c2, d2, e2)).
     let (e1, b1) = R21 e1 a1 b1 c1 d1 w7 7;
         (e2, b2) = R22 e2 a2 b2 c2 d2 w6 9;
         (d1, a1) = R21 d1 e1 a1 b1 c1 w4 6;
         (d2, a2) = R22 d2 e2 a2 b2 c2 w11 13;
         (c1, e1) = R21 c1 d1 e1 a1 b1 w13 8;
         (c2, e2) = R22 c2 d2 e2 a2 b2 w3 15;
         (b1, d1) = R21 b1 c1 d1 e1 a1 w1 13;
         (b2, d2) = R22 b2 c2 d2 e2 a2 w7 7;
         (a1, c1) = R21 a1 b1 c1 d1 e1 w10 11;
         (a2, c2) = R22 a2 b2 c2 d2 e2 w0 12;
         (e1, b1) = R21 e1 a1 b1 c1 d1 w6 9;
         (e2, b2) = R22 e2 a2 b2 c2 d2 w13 8;
         (d1, a1) = R21 d1 e1 a1 b1 c1 w15 7;
         (d2, a2) = R22 d2 e2 a2 b2 c2 w5 9;
         (c1, e1) = R21 c1 d1 e1 a1 b1 w3 15;
         (c2, e2) = R22 c2 d2 e2 a2 b2 w10 11;
         (b1, d1) = R21 b1 c1 d1 e1 a1 w12 7;
         (b2, d2) = R22 b2 c2 d2 e2 a2 w14 7;
         (a1, c1) = R21 a1 b1 c1 d1 e1 w0 12;
         (a2, c2) = R22 a2 b2 c2 d2 e2 w15 7;
         (e1, b1) = R21 e1 a1 b1 c1 d1 w9 15;
         (e2, b2) = R22 e2 a2 b2 c2 d2 w8 12;
         (d1, a1) = R21 d1 e1 a1 b1 c1 w5 9;
         (d2, a2) = R22 d2 e2 a2 b2 c2 w12 7;
         (c1, e1) = R21 c1 d1 e1 a1 b1 w2 11;
         (c2, e2) = R22 c2 d2 e2 a2 b2 w4 6;
         (b1, d1) = R21 b1 c1 d1 e1 a1 w14 7;
         (b2, d2) = R22 b2 c2 d2 e2 a2 w9 15;
         (a1, c1) = R21 a1 b1 c1 d1 e1 w11 13;
         (a2, c2) = R22 a2 b2 c2 d2 e2 w1 13;
         (e1, b1) = R21 e1 a1 b1 c1 d1 w8 12;
         (e2, b2) = R22 e2 a2 b2 c2 d2 w2 11
     in ((a1, b1, c1, d1, e1), (a2, b2, c2, d2, e2)))"

definition rmd_rounds_3 :: "rmd_words \<Rightarrow> rmd_vars \<times> rmd_vars \<Rightarrow> rmd_vars \<times> rmd_vars" where
  "rmd_rounds_3 = (\<lambda>(w0, w1, w2, w3, w4, w5, w6, w7, w8, w9, w10, w11, w12, w13, w14, w15) ((a1, b1, c1, d1, e1), (a2, b2, c2, d2, e2)).
     let (d1, a1) = R31 d1 e1 a1 b1 c1 w3 11;
         (d2, a2) = R32 d2 e2 a2 b2 c2 w15 9;
         (c1, e1) = R31 c1 d1 e1 a1 b1 w10 13;
         (c2, e2) = R32 c2 d2 e2 a2 b2 w5 7;
         (b1, d1) = R31 b1 c1 d1 e1 a1 w14 6;
         (b2, d2) = R32 b2 c2 d2 e2 a2 w1 15;
         (a1, c1) = R31 a1 b1 c1 d1 e1 w4 7;
         (a2, c2) = R32 a2 b2 c2 d2 e2 w3 11;
         (e1, b1) = R31 e1 a1 b1 c1 d1 w9 14;
         (e2, b2) = R32 e2 a2 b2 c2 d2 w7 8;
         (d1, a1) = R31 d1 e1 a1 b1 c1 w15 9;
         (d2, a2) = R32 d2 e2 a2 b2 c2 w14 6;
         (c1, e1) = R31 c1 d1 e1 a1 b1 w8 13;
         (c2, e2) = R32 c2 d2 e2 a2 b2 w6 6;
         (b1, d1) = R31 b1 c1 d1 e1 a1 w1 15;
         (b2, d2) = R32 b2 c2 d2 e2 a2 w9 14;
         (a1, c1) = R31 a1 b1 c1 d1 e1 w2 14;
         (a2, c2) = R32 a2 b2 c2 d2 e2 w11 12;
         (e1, b1) = R31 e1 a1 b1 c1 d1 w7 8;
         (e2, b2) = R32 e2 a2 b2 c2 d2 w8 13;
         (d1, a1) = R31 d1 e1 a1 b1 c1 w0 13;
         (d2, a2) = R32 d2 e2 a2 b2 c2 w12 5;
         (c1, e1) = R31 c1 d1 e1 a1 b1 w6 6;
         (c2, e2) = R32 c2 d2 e2 a2 b2 w2 14;
         (b1, d1) = R31 b1 c1 d1 e1 a1 w13 5;
         (b2, d2) = R32 b2 c2 d2 e2 a2 w10 13;
         (a1, c1) = R31 a1 b1 c1 d1 e1 w11 12;
         (a2, c2) = R32 a2 b2 c2 d2 e2 w0 13;
         (e1, b1) = R31 e1 a1 b1 c1 d1 w5 7;
         (e2, b2) = R32 e2 a2 b2 c2 d2 w4 7;
         (d1, a1) = R31 d1 e1 a1 b1 c1 w12 5;
         (d2, a2) = R32 d2 e2 a2 b2 c2 w13 5
     in ((a1, b1, c1, d1, e1), (a2, b2, c2, d2, e2)))"

definition rmd_rounds_4 :: "rmd_words \<Rightarrow> rmd_vars \<times> rmd_vars \<Rightarrow> rmd_vars \<times> rmd_vars" where
  "rmd_rounds_4 = (\<lambda>(w0, w1, w2, w3, w4, w5, w6, w7, w8, w9, w10, w11, w12, w13, w14, w15) ((a1, b1, c1, d1, e1), (a2, b2, c2, d2, e2)).
     let (c1, e1) = R41 c1 d1 e1 a1 b1 w1 11;
         (c2, e2) = R42 c2 d2 e2 a2 b2 w8 15;
         (b1, d1) = R41 b1 c1 d1 e1 a1 w9 12;
         (b2, d2) = R42 b2 c2 d2 e2 a2 w6 5;
         (a1, c1) = R41 a1 b1 c1 d1 e1 w11 14;
         (a2, c2) = R42 a2 b2 c2 d2 e2 w4 8;
         (e1, b1) = R41 e1 a1 b1 c1 d1 w10 15;
         (e2, b2) = R42 e2 a2 b2 c2 d2 w1 11;
         (d1, a1) = R41 d1 e1 a1 b1 c1 w0 14;
         (d2, a2) = R42 d2 e2 a2 b2 c2 w3 14;
         (c1, e1) = R41 c1 d1 e1 a1 b1 w8 15;
         (c2, e2) = R42 c2 d2 e2 a2 b2 w11 14;
         (b1, d1) = R41 b1 c1 d1 e1 a1 w12 9;
         (b2, d2) = R42 b2 c2 d2 e2 a2 w15 6;
         (a1, c1) = R41 a1 b1 c1 d1 e1 w4 8;
         (a2, c2) = R42 a2 b2 c2 d2 e2 w0 14;
         (e1, b1) = R41 e1 a1 b1 c1 d1 w13 9;
         (e2, b2) = R42 e2 a2 b2 c2 d2 w5 6;
         (d1, a1) = R41 d1 e1 a1 b1 c1 w3 14;
         (d2, a2) = R42 d2 e2 a2 b2 c2 w12 9;
         (c1, e1) = R41 c1 d1 e1 a1 b1 w7 5;
         (c2, e2) = R42 c2 d2 e2 a2 b2 w2 12;
         (b1, d1) = R41 b1 c1 d1 e1 a1 w15 6;
         (b2, d2) = R42 b2 c2 d2 e2 a2 w13 9;
         (a1, c1) = R41 a1 b1 c1 d1 e1 w14 8;
         (a2, c2) = R42 a2 b2 c2 d2 e2 w9 12;
         (e1, b1) = R41 e1 a1 b1 c1 d1 w5 6;
         (e2, b2) = R42 e2 a2 b2 c2 d2 w7 5;
         (d1, a1) = R41 d1 e1 a1 b1 c1 w6 5;
         (d2, a2) = R42 d2 e2 a2 b2 c2 w10 15;
         (c1, e1) = R41 c1 d1 e1 a1 b1 w2 12;
         (c2, e2) = R42 c2 d2 e2 a2 b2 w14 8
     in ((a1, b1, c1, d1, e1), (a2, b2, c2, d2, e2)))"

definition rmd_rounds_5 :: "rmd_words \<Rightarrow> rmd_vars \<times> rmd_vars \<Rightarrow> rmd_vars \<times> rmd_vars" where
  "rmd_rounds_5 = (\<lambda>(w0, w1, w2, w3, w4, w5, w6, w7, w8, w9, w10, w11, w12, w13, w14, w15) ((a1, b1, c1, d1, e1), (a2, b2, c2, d2, e2)).
     let (b1, d1) = R51 b1 c1 d1 e1 a1 w4 9;
         (b2, d2) = R52 b2 c2 d2 e2 a2 w12 8;
         (a1, c1) = R51 a1 b1 c1 d1 e1 w0 15;
         (a2, c2) = R52 a2 b2 c2 d2 e2 w15 5;
         (e1, b1) = R51 e1 a1 b1 c1 d1 w5 5;
         (e2, b2) = R52 e2 a2 b2 c2 d2 w10 12;
         (d1, a1) = R51 d1 e1 a1 b1 c1 w9 11;
         (d2, a2) = R52 d2 e2 a2 b2 c2 w4 9;
         (c1, e1) = R51 c1 d1 e1 a1 b1 w7 6;
         (c2, e2) = R52 c2 d2 e2 a2 b2 w1 12;
         (b1, d1) = R51 b1 c1 d1 e1 a1 w12 8;
         (b2, d2) = R52 b2 c2 d2 e2 a2 w5 5;
         (a1, c1) = R51 a1 b1 c1 d1 e1 w2 13;
         (a2, c2) = R52 a2 b2 c2 d2 e2 w8 14;
         (e1, b1) = R51 e1 a1 b1 c1 d1 w10 12;
         (e2, b2) = R52 e2 a2 b2 c2 d2 w7 6;
         (d1, a1) = R51 d1 e1 a1 b1 c1 w14 5;
         (d2, a2) = R52 d2 e2 a2 b2 c2 w6 8;
         (c1, e1) = R51 c1 d1 e1 a1 b1 w1 12;
         (c2, e2) = R52 c2 d2 e2 a2 b2 w2 13;
         (b1, d1) = R51 b1 c1 d1 e1 a1 w3 13;
         (b2, d2) = R52 b2 c2 d2 e2 a2 w13 6;
         (a1, c1) = R51 a1 b1 c1 d1 e1 w8 14;
         (a2, c2) = R52 a2 b2 c2 d2 e2 w14 5;
         (e1, b1) = R51 e1 a1 b1 c1 d1 w11 11;
         (e2, b2) = R52 e2 a2 b2 c2 d2 w0 15;
         (d1, a1) = R51 d1 e1 a1 b1 c1 w6 8;
         (d2, a2) = R52 d2 e2 a2 b2 c2 w3 13;
         (c1, e1) = R51 c1 d1 e1 a1 b1 w15 5;
         (c2, e2) = R52 c2 d2 e2 a2 b2 w9 11;
         (b1, d1) = R51 b1 c1 d1 e1 a1 w13 6;
         (b2, d2) = R52 b2 c2 d2 e2 a2 w11 11
     in ((a1, b1, c1, d1, e1), (a2, b2, c2, d2, e2)))"

definition rmd_words_of :: "byte list \<Rightarrow> rmd_words" where
  "rmd_words_of chunk =
     (ReadLE32 (drop 0 chunk), ReadLE32 (drop 4 chunk), ReadLE32 (drop 8 chunk), ReadLE32 (drop 12 chunk),
      ReadLE32 (drop 16 chunk), ReadLE32 (drop 20 chunk), ReadLE32 (drop 24 chunk), ReadLE32 (drop 28 chunk),
      ReadLE32 (drop 32 chunk), ReadLE32 (drop 36 chunk), ReadLE32 (drop 40 chunk), ReadLE32 (drop 44 chunk),
      ReadLE32 (drop 48 chunk), ReadLE32 (drop 52 chunk), ReadLE32 (drop 56 chunk), ReadLE32 (drop 60 chunk))"

definition rmd_Transform :: "rmd_vars \<Rightarrow> byte list \<Rightarrow> rmd_vars" where
  "rmd_Transform s chunk =
     (let w = rmd_words_of chunk;
          (s0, s1, s2, s3, s4) = s;
          ((a1, b1, c1, d1, e1), (a2, b2, c2, d2, e2)) =
            rmd_rounds_5 w (rmd_rounds_4 w (rmd_rounds_3 w (rmd_rounds_2 w (rmd_rounds_1 w (s, s)))))
      in (s1 + c1 + d2, s2 + d1 + e2, s3 + e1 + a2, s4 + a1 + b2, s0 + b1 + c2))"

text \<open>
  The class. As in \<open>sha256\<close> the constructor leaves the buffer uninitialised. The typed
  overloads of \<open>write\<close> pass the bytes of the value as they are in memory.
\<close>

type_synonym ripemd160 = "rmd_vars hasher"

definition ripemd160_new :: "byte list \<Rightarrow> ripemd160" where
  "ripemd160_new junk = \<lparr>hs = rmd_Initialize, buf = junk, nbytes = 0\<rparr>"

definition ripemd160_write :: "ripemd160 \<Rightarrow> byte list \<Rightarrow> ripemd160" where
  "ripemd160_write = buffer_write rmd_Transform"

definition ripemd160_write_string :: "ripemd160 \<Rightarrow> string \<Rightarrow> ripemd160" where
  "ripemd160_write_string st data = (if data = [] then st else ripemd160_write st (bytes_of_string data))"

definition ripemd160_write_bool :: "ripemd160 \<Rightarrow> bool \<Rightarrow> ripemd160" where
  "ripemd160_write_bool st data = ripemd160_write st [of_bool data]"

definition ripemd160_write_u64 :: "ripemd160 \<Rightarrow> u64 \<Rightarrow> ripemd160" where
  "ripemd160_write_u64 st data = ripemd160_write st (WriteLE64 data)"

definition ripemd160_write_i64 :: "ripemd160 \<Rightarrow> int \<Rightarrow> ripemd160" where
  "ripemd160_write_i64 st v = ripemd160_write st (WriteLE64 (of_int v))"

definition ripemd160_write_u32 :: "ripemd160 \<Rightarrow> u32 \<Rightarrow> ripemd160" where
  "ripemd160_write_u32 st data = ripemd160_write st (WriteLE32 data)"

definition ripemd160_write_i32 :: "ripemd160 \<Rightarrow> int \<Rightarrow> ripemd160" where
  "ripemd160_write_i32 st v = ripemd160_write st (WriteLE32 (of_int v))"

definition ripemd160_output :: "rmd_vars \<Rightarrow> byte list" where
  "ripemd160_output =
     (\<lambda>(s0, s1, s2, s3, s4). WriteLE32 s0 @ WriteLE32 s1 @ WriteLE32 s2 @ WriteLE32 s3 @ WriteLE32 s4)"

definition ripemd160_finalize :: "ripemd160 \<Rightarrow> byte list \<times> ripemd160" where
  "ripemd160_finalize st =
     (let sizedesc = WriteLE64 (push_bit 3 (nbytes st));
          st = ripemd160_write st (take (pad_len (nbytes st)) pad);
          st = ripemd160_write st sizedesc
      in (ripemd160_output (hs st), st))"

definition ripemd160_reset :: "ripemd160 \<Rightarrow> ripemd160" where
  "ripemd160_reset st = st\<lparr>nbytes := 0, hs := rmd_Initialize\<rparr>"

section \<open>The specification\<close>

text \<open>Which message word and which rotation each of the 80 steps uses, in the two lines.\<close>

definition rmd_r :: "nat list" where
  "rmd_r =
    [0, 1, 2, 3, 4, 5, 6, 7, 8, 9, 10, 11, 12, 13, 14, 15,
     7, 4, 13, 1, 10, 6, 15, 3, 12, 0, 9, 5, 2, 14, 11, 8,
     3, 10, 14, 4, 9, 15, 8, 1, 2, 7, 0, 6, 13, 11, 5, 12,
     1, 9, 11, 10, 0, 8, 12, 4, 13, 3, 7, 15, 14, 5, 6, 2,
     4, 0, 5, 9, 7, 12, 2, 10, 14, 1, 3, 8, 11, 6, 15, 13]"

definition rmd_r2 :: "nat list" where
  "rmd_r2 =
    [5, 14, 7, 0, 9, 2, 11, 4, 13, 6, 15, 8, 1, 10, 3, 12,
     6, 11, 3, 7, 0, 13, 5, 10, 14, 15, 8, 12, 4, 9, 1, 2,
     15, 5, 1, 3, 7, 14, 6, 9, 11, 8, 12, 2, 10, 0, 4, 13,
     8, 6, 4, 1, 3, 11, 15, 0, 5, 12, 2, 13, 9, 7, 10, 14,
     12, 15, 10, 4, 1, 5, 8, 7, 6, 2, 13, 14, 0, 3, 9, 11]"

definition rmd_s :: "nat list" where
  "rmd_s =
    [11, 14, 15, 12, 5, 8, 7, 9, 11, 13, 14, 15, 6, 7, 9, 8,
     7, 6, 8, 13, 11, 9, 7, 15, 7, 12, 15, 9, 11, 7, 13, 12,
     11, 13, 6, 7, 14, 9, 13, 15, 14, 8, 13, 6, 5, 12, 7, 5,
     11, 12, 14, 15, 14, 15, 9, 8, 9, 14, 5, 6, 8, 6, 5, 12,
     9, 15, 5, 11, 6, 8, 13, 12, 5, 12, 13, 14, 11, 8, 5, 6]"

definition rmd_s2 :: "nat list" where
  "rmd_s2 =
    [8, 9, 9, 11, 13, 15, 15, 5, 7, 7, 8, 11, 14, 14, 12, 6,
     9, 13, 15, 7, 12, 8, 9, 11, 7, 7, 12, 7, 6, 15, 13, 11,
     9, 7, 15, 11, 8, 6, 6, 14, 12, 13, 5, 14, 13, 13, 7, 5,
     15, 5, 8, 11, 14, 14, 6, 14, 6, 9, 12, 9, 12, 5, 15, 8,
     8, 5, 12, 9, 12, 5, 14, 6, 8, 13, 6, 5, 15, 13, 11, 11]"

definition rmd_K :: "nat \<Rightarrow> u32" where
  "rmd_K j = [0, 0x5A827999, 0x6ED9EBA1, 0x8F1BBCDC, 0xA953FD4E] ! (j div 16)"
definition rmd_K2 :: "nat \<Rightarrow> u32" where
  "rmd_K2 j = [0x50A28BE6, 0x5C4DD124, 0x6D703EF3, 0x7A6D76E9, 0] ! (j div 16)"
definition rmd_f :: "nat \<Rightarrow> u32 \<Rightarrow> u32 \<Rightarrow> u32 \<Rightarrow> u32" where
  "rmd_f j = [\<lambda>x y z. x XOR y XOR z, \<lambda>x y z. (x AND y) OR (NOT x AND z), \<lambda>x y z. (x OR NOT y) XOR z,
              \<lambda>x y z. (x AND z) OR (y AND NOT z), \<lambda>x y z. x XOR (y OR NOT z)] ! (j div 16)"

definition rmd_X :: "byte list \<Rightarrow> nat \<Rightarrow> u32" where
  "rmd_X blk i = ReadLE32 (drop (4 * i) blk)"

definition rmd_step :: "(u32 \<Rightarrow> u32 \<Rightarrow> u32 \<Rightarrow> u32) \<Rightarrow> u32 \<Rightarrow> u32 \<Rightarrow> nat \<Rightarrow> rmd_vars \<Rightarrow> rmd_vars" where
  "rmd_step f k x s = (\<lambda>(A, B, C, D, E). (E, word_rotl s (A + f B C D + x + k) + E, B, word_rotl 10 C, D))"

definition rmd_left :: "byte list \<Rightarrow> nat \<Rightarrow> nat \<Rightarrow> rmd_vars \<Rightarrow> rmd_vars" where
  "rmd_left blk i n v =
     foldl (\<lambda>v j. rmd_step (rmd_f j) (rmd_K j) (rmd_X blk (rmd_r ! j)) (rmd_s ! j) v) v [i ..< n]"

definition rmd_right :: "byte list \<Rightarrow> nat \<Rightarrow> nat \<Rightarrow> rmd_vars \<Rightarrow> rmd_vars" where
  "rmd_right blk i n v =
     foldl (\<lambda>v j. rmd_step (rmd_f (79 - j)) (rmd_K2 j) (rmd_X blk (rmd_r2 ! j)) (rmd_s2 ! j) v) v [i ..< n]"

definition rmd_block :: "rmd_vars \<Rightarrow> byte list \<Rightarrow> rmd_vars" where
  "rmd_block hv blk =
     (let (h0, h1, h2, h3, h4) = hv;
          (A, B, C, D, E) = rmd_left blk 0 80 hv;
          (A', B', C', D', E') = rmd_right blk 0 80 hv
      in (h1 + C + D', h2 + D + E', h3 + E + A', h4 + A + B', h0 + B + C'))"

definition rmd160 :: "byte list \<Rightarrow> byte list" where
  "rmd160 m = ripemd160_output (foldl rmd_block rmd_Initialize
     (blocks (m @ padding (length m) @ write_le 8 (8 * length m))))"

section \<open>The unrolled code computes the specification\<close>

lemma rol_rotl: "0 < n \<Longrightarrow> n < 32 \<Longrightarrow> rol x n = word_rotl n x"
  unfolding rol_def
proof (rule bit_word_eqI)
  fix k :: nat
  assume *: "0 < n" "n < 32" "k < LENGTH(32)"
  have hi: "\<not> bit x m" if "32 \<le> m" for m using that bit_imp_le_length [of x m] by auto
  have m: "(k + 32 - n) mod 32 = (if k < n then 32 + k - n else k - n)"
    using * by (auto simp: le_mod_geq)
  show "bit (push_bit n x OR drop_bit (32 - n) x) k = bit (word_rotl n x) k"
    using * hi by (auto simp: bit_word_rotl_iff bit_simps m)
qed

text \<open>The code's variables after a number of groups: the variables of the specification, rotated.\<close>

definition rot0 :: "rmd_vars \<Rightarrow> rmd_vars" where "rot0 v = v"
definition rot1 :: "rmd_vars \<Rightarrow> rmd_vars" where "rot1 = (\<lambda>(A, B, C, D, E). (B, C, D, E, A))"
definition rot2 :: "rmd_vars \<Rightarrow> rmd_vars" where "rot2 = (\<lambda>(A, B, C, D, E). (C, D, E, A, B))"
definition rot3 :: "rmd_vars \<Rightarrow> rmd_vars" where "rot3 = (\<lambda>(A, B, C, D, E). (D, E, A, B, C))"
definition rot4 :: "rmd_vars \<Rightarrow> rmd_vars" where "rot4 = (\<lambda>(A, B, C, D, E). (E, A, B, C, D))"
definition rot5 :: "rmd_vars \<Rightarrow> rmd_vars" where "rot5 v = v"

lemma rmd_left_step: "i < n \<Longrightarrow> rmd_left blk i n v =
    rmd_left blk (Suc i) n (rmd_step (rmd_f i) (rmd_K i) (rmd_X blk (rmd_r ! i)) (rmd_s ! i) v)"
  by (simp add: rmd_left_def upt_conv_Cons)

lemma rmd_right_step: "i < n \<Longrightarrow> rmd_right blk i n v =
    rmd_right blk (Suc i) n (rmd_step (rmd_f (79 - i)) (rmd_K2 i) (rmd_X blk (rmd_r2 ! i)) (rmd_s2 ! i) v)"
  by (simp add: rmd_right_def upt_conv_Cons)

lemma rmd_done: "n \<le> i \<Longrightarrow> rmd_left blk i n v = v" "n \<le> i \<Longrightarrow> rmd_right blk i n v = v"
  by (simp_all add: rmd_left_def rmd_right_def)

lemmas step_simps = rmd_step_def rmd_f_def rmd_K_def rmd_K2_def rmd_Round_def rol_rotl
  rmd_f1_def rmd_f2_def rmd_f3_def rmd_f4_def rmd_f5_def

lemmas rmd_spec_simps =
  rmd_left_step rmd_right_step rmd_done rmd_X_def rmd_r_def rmd_r2_def rmd_s_def rmd_s2_def rmd_words_of_def Let_def
  rot0_def rot1_def rot2_def rot3_def rot4_def rot5_def

lemma step_R11: "j div 16 = 0 \<Longrightarrow> 0 < s \<Longrightarrow> s < 32 \<Longrightarrow>
    rmd_step (rmd_f j) (rmd_K j) x s (a, b, c, d, e) = (case R11 a b c d e x s of (a', c') \<Rightarrow> (e, a', b, c', d))"
  by (simp add: step_simps R11_def)

lemma step_R12: "n div 16 = 4 \<Longrightarrow> j div 16 = 0 \<Longrightarrow> 0 < s \<Longrightarrow> s < 32 \<Longrightarrow>
    rmd_step (rmd_f n) (rmd_K2 j) x s (a, b, c, d, e) = (case R12 a b c d e x s of (a', c') \<Rightarrow> (e, a', b, c', d))"
  by (simp add: step_simps R12_def)

lemma step_R21: "j div 16 = 1 \<Longrightarrow> 0 < s \<Longrightarrow> s < 32 \<Longrightarrow>
    rmd_step (rmd_f j) (rmd_K j) x s (a, b, c, d, e) = (case R21 a b c d e x s of (a', c') \<Rightarrow> (e, a', b, c', d))"
  by (simp add: step_simps R21_def)

lemma step_R22: "n div 16 = 3 \<Longrightarrow> j div 16 = 1 \<Longrightarrow> 0 < s \<Longrightarrow> s < 32 \<Longrightarrow>
    rmd_step (rmd_f n) (rmd_K2 j) x s (a, b, c, d, e) = (case R22 a b c d e x s of (a', c') \<Rightarrow> (e, a', b, c', d))"
  by (simp add: step_simps R22_def)

lemma step_R31: "j div 16 = 2 \<Longrightarrow> 0 < s \<Longrightarrow> s < 32 \<Longrightarrow>
    rmd_step (rmd_f j) (rmd_K j) x s (a, b, c, d, e) = (case R31 a b c d e x s of (a', c') \<Rightarrow> (e, a', b, c', d))"
  by (simp add: step_simps R31_def)

lemma step_R32: "n div 16 = 2 \<Longrightarrow> j div 16 = 2 \<Longrightarrow> 0 < s \<Longrightarrow> s < 32 \<Longrightarrow>
    rmd_step (rmd_f n) (rmd_K2 j) x s (a, b, c, d, e) = (case R32 a b c d e x s of (a', c') \<Rightarrow> (e, a', b, c', d))"
  by (simp add: step_simps R32_def)

lemma step_R41: "j div 16 = 3 \<Longrightarrow> 0 < s \<Longrightarrow> s < 32 \<Longrightarrow>
    rmd_step (rmd_f j) (rmd_K j) x s (a, b, c, d, e) = (case R41 a b c d e x s of (a', c') \<Rightarrow> (e, a', b, c', d))"
  by (simp add: step_simps R41_def)

lemma step_R42: "n div 16 = 1 \<Longrightarrow> j div 16 = 3 \<Longrightarrow> 0 < s \<Longrightarrow> s < 32 \<Longrightarrow>
    rmd_step (rmd_f n) (rmd_K2 j) x s (a, b, c, d, e) = (case R42 a b c d e x s of (a', c') \<Rightarrow> (e, a', b, c', d))"
  by (simp add: step_simps R42_def)

lemma step_R51: "j div 16 = 4 \<Longrightarrow> 0 < s \<Longrightarrow> s < 32 \<Longrightarrow>
    rmd_step (rmd_f j) (rmd_K j) x s (a, b, c, d, e) = (case R51 a b c d e x s of (a', c') \<Rightarrow> (e, a', b, c', d))"
  by (simp add: step_simps R51_def)

lemma step_R52: "n div 16 = 0 \<Longrightarrow> j div 16 = 4 \<Longrightarrow> 0 < s \<Longrightarrow> s < 32 \<Longrightarrow>
    rmd_step (rmd_f n) (rmd_K2 j) x s (a, b, c, d, e) = (case R52 a b c d e x s of (a', c') \<Rightarrow> (e, a', b, c', d))"
  by (simp add: step_simps R52_def)

lemma rmd_rounds_1_spec:
  "rmd_rounds_1 (rmd_words_of blk) (rot0 v, rot0 v') = (rot1 (rmd_left blk 0 16 v), rot1 (rmd_right blk 0 16 v'))"
  by (cases v; cases v')
    (simp add: rmd_rounds_1_def rmd_spec_simps step_R11 step_R12 split: prod.split)

lemma rmd_rounds_2_spec:
  "rmd_rounds_2 (rmd_words_of blk) (rot1 v, rot1 v') = (rot2 (rmd_left blk 16 32 v), rot2 (rmd_right blk 16 32 v'))"
  by (cases v; cases v')
    (simp add: rmd_rounds_2_def rmd_spec_simps step_R21 step_R22 split: prod.split)

lemma rmd_rounds_3_spec:
  "rmd_rounds_3 (rmd_words_of blk) (rot2 v, rot2 v') = (rot3 (rmd_left blk 32 48 v), rot3 (rmd_right blk 32 48 v'))"
  by (cases v; cases v')
    (simp add: rmd_rounds_3_def rmd_spec_simps step_R31 step_R32 split: prod.split)

lemma rmd_rounds_4_spec:
  "rmd_rounds_4 (rmd_words_of blk) (rot3 v, rot3 v') = (rot4 (rmd_left blk 48 64 v), rot4 (rmd_right blk 48 64 v'))"
  by (cases v; cases v')
    (simp add: rmd_rounds_4_def rmd_spec_simps step_R41 step_R42 split: prod.split)

lemma rmd_rounds_5_spec:
  "rmd_rounds_5 (rmd_words_of blk) (rot4 v, rot4 v') = (rot5 (rmd_left blk 64 80 v), rot5 (rmd_right blk 64 80 v'))"
  by (cases v; cases v')
    (simp add: rmd_rounds_5_def rmd_spec_simps step_R51 step_R52 split: prod.split)

lemma rmd_left_join: "i \<le> j \<Longrightarrow> j \<le> n \<Longrightarrow> rmd_left blk j n (rmd_left blk i j v) = rmd_left blk i n v"
  using upt_add_eq_append [of i j "n - j"] by (simp add: rmd_left_def)

lemma rmd_right_join: "i \<le> j \<Longrightarrow> j \<le> n \<Longrightarrow> rmd_right blk j n (rmd_right blk i j v) = rmd_right blk i n v"
  using upt_add_eq_append [of i j "n - j"] by (simp add: rmd_right_def)

lemma rmd_Transform_spec: "rmd_Transform s blk = rmd_block s blk"
proof -
  have start: "(s, s) = (rot0 s, rot0 s)" by (simp add: rot0_def)
  show ?thesis
    unfolding rmd_Transform_def rmd_block_def Let_def start rmd_rounds_1_spec rmd_rounds_2_spec rmd_rounds_3_spec
      rmd_rounds_4_spec rmd_rounds_5_spec
    by (simp add: rmd_left_join rmd_right_join rot5_def split: prod.split)
qed

section \<open>The class computes the specification\<close>

interpretation rmd: block_digest rmd_Transform rmd_Initialize
  "\<lambda>n. WriteLE64 (push_bit 3 n)" ripemd160_output ripemd160_write ripemd160_finalize ripemd160_reset
  by unfold_locales (simp_all add: ripemd160_write_def ripemd160_finalize_def ripemd160_reset_def WriteLE64_def Let_def)

lemma std_digest_rmd160: "rmd.std_digest m = rmd160 m"
proof -
  have "rmd_Transform = rmd_block" by (intro ext) (rule rmd_Transform_spec)
  then show ?thesis
    using rmd.std_digest_def [of m] by (simp only: rmd160_def WriteLE64_def bit_length_bytes)
qed

lemma ripemd160_new_holds: "length junk = 64 \<Longrightarrow> absorbed rmd_Transform rmd_Initialize [] (ripemd160_new junk)"
  by (simp add: absorbed_init ripemd160_new_def)

lemma length_rmd160 [simp]: "length (rmd160 m) = 20"
  by (simp add: rmd160_def ripemd160_output_def WriteLE32_def split: prod.split)

section \<open>Properties\<close>

text \<open>
  C29. The RIPEMD-160 class computes the specified hash function for every segmentation of the
  message, whatever its uninitialised buffer holds, and again after \<open>reset\<close>.
\<close>

theorem ripemd160_correct:
  assumes "length junk = 64"
  shows "let (d, st) = ripemd160_finalize (foldl ripemd160_write (ripemd160_new junk) ds)
    in d = rmd160 (concat ds) \<and> length d = 20 \<and>
       fst (ripemd160_finalize (foldl ripemd160_write (ripemd160_reset st) ds')) = rmd160 (concat ds')"
proof -
  note new = ripemd160_new_holds [OF assms]
  show ?thesis
    using rmd.digest_of_writes [OF new, of ds]
      rmd.digest_of_writes [OF rmd.finalize_reset [OF rmd.writes_hold [OF new, of ds]], of ds']
    by (auto simp: std_digest_rmd160 split: prod.split)
qed

theorem ripemd160_correct_witness:
  "let (d, st) = ripemd160_finalize (foldl ripemd160_write (ripemd160_new (replicate 64 9)) [[97], [], [98, 99]])
   in d = rmd160 [97, 98, 99] \<and> length d = 20 \<and>
      fst (ripemd160_finalize (foldl ripemd160_write (ripemd160_reset st) [[1]])) = rmd160 [1]"
  using ripemd160_correct [of "replicate 64 9" "[[97], [], [98, 99]]" "[[1]]"] by simp

end
