(* ===== verification/Sha256.thy ===== *)
theory Sha256
  imports Block_Hash
begin

text \<open>
  \<open>src/gov/crypto/sha256.{h,cpp}\<close> and \<open>double_sha256.cpp\<close>. The compression function is the
  unrolled code: 64 calls of \<open>Round\<close> whose arguments rotate instead of the variables, with the
  message schedule kept in the sixteen variables \<open>w0\<close> to \<open>w15\<close>, in the four groups the source
  has.

  The reference is the text of FIPS 180-4: rotations, the choice and majority functions, the
  recursively defined message schedule, the eight working variables shifted in every round, and
  the padded message cut into blocks. The code is shown to compute it for every segmentation
  of the message.
\<close>

section \<open>The code\<close>

type_synonym sha_vars = "u32 \<times> u32 \<times> u32 \<times> u32 \<times> u32 \<times> u32 \<times> u32 \<times> u32"
type_synonym sha_words =
  "u32 \<times> u32 \<times> u32 \<times> u32 \<times> u32 \<times> u32 \<times> u32 \<times> u32 \<times> u32 \<times> u32 \<times> u32 \<times> u32 \<times> u32 \<times> u32 \<times> u32 \<times> u32"

definition Ch :: "u32 \<Rightarrow> u32 \<Rightarrow> u32 \<Rightarrow> u32" where "Ch x y z = z XOR (x AND (y XOR z))"
definition Maj :: "u32 \<Rightarrow> u32 \<Rightarrow> u32 \<Rightarrow> u32" where "Maj x y z = (x AND y) OR (z AND (x OR y))"

definition Sigma0 :: "u32 \<Rightarrow> u32" where
  "Sigma0 x = (drop_bit 2 x OR push_bit 30 x) XOR (drop_bit 13 x OR push_bit 19 x) XOR (drop_bit 22 x OR push_bit 10 x)"
definition Sigma1 :: "u32 \<Rightarrow> u32" where
  "Sigma1 x = (drop_bit 6 x OR push_bit 26 x) XOR (drop_bit 11 x OR push_bit 21 x) XOR (drop_bit 25 x OR push_bit 7 x)"
definition sigma0 :: "u32 \<Rightarrow> u32" where
  "sigma0 x = (drop_bit 7 x OR push_bit 25 x) XOR (drop_bit 18 x OR push_bit 14 x) XOR drop_bit 3 x"
definition sigma1 :: "u32 \<Rightarrow> u32" where
  "sigma1 x = (drop_bit 17 x OR push_bit 15 x) XOR (drop_bit 19 x OR push_bit 13 x) XOR drop_bit 10 x"

text \<open>\<open>Round\<close> updates its fourth and eighth arguments; the model returns their new values.\<close>

definition Round ::
  "u32 \<Rightarrow> u32 \<Rightarrow> u32 \<Rightarrow> u32 \<Rightarrow> u32 \<Rightarrow> u32 \<Rightarrow> u32 \<Rightarrow> u32 \<Rightarrow> u32 \<Rightarrow> u32 \<Rightarrow> u32 \<times> u32" where
  "Round a b c d e f g hh k w =
     (let t1 = hh + Sigma1 e + Ch e f g + k + w;
          t2 = Sigma0 a + Maj a b c
      in (d + t1, t1 + t2))"

definition sha256_initialize :: sha_vars where
  "sha256_initialize =
     (0x6a09e667, 0xbb67ae85, 0x3c6ef372, 0xa54ff53a, 0x510e527f, 0x9b05688c, 0x1f83d9ab, 0x5be0cd19)"

text \<open>The four groups of sixteen rounds of \<open>transform\<close>, line by line.\<close>

definition rounds_0_15 :: "byte list \<Rightarrow> sha_vars \<Rightarrow> sha_vars \<times> sha_words" where
  "rounds_0_15 chunk = (\<lambda>(a, b, c, d, e, f, g, hh).
     let w0 = ReadBE32 (drop 0 chunk);
         (d, hh) = Round a b c d e f g hh 0x428a2f98 w0;
         w1 = ReadBE32 (drop 4 chunk);
         (c, g) = Round hh a b c d e f g 0x71374491 w1;
         w2 = ReadBE32 (drop 8 chunk);
         (b, f) = Round g hh a b c d e f 0xb5c0fbcf w2;
         w3 = ReadBE32 (drop 12 chunk);
         (a, e) = Round f g hh a b c d e 0xe9b5dba5 w3;
         w4 = ReadBE32 (drop 16 chunk);
         (hh, d) = Round e f g hh a b c d 0x3956c25b w4;
         w5 = ReadBE32 (drop 20 chunk);
         (g, c) = Round d e f g hh a b c 0x59f111f1 w5;
         w6 = ReadBE32 (drop 24 chunk);
         (f, b) = Round c d e f g hh a b 0x923f82a4 w6;
         w7 = ReadBE32 (drop 28 chunk);
         (e, a) = Round b c d e f g hh a 0xab1c5ed5 w7;
         w8 = ReadBE32 (drop 32 chunk);
         (d, hh) = Round a b c d e f g hh 0xd807aa98 w8;
         w9 = ReadBE32 (drop 36 chunk);
         (c, g) = Round hh a b c d e f g 0x12835b01 w9;
         w10 = ReadBE32 (drop 40 chunk);
         (b, f) = Round g hh a b c d e f 0x243185be w10;
         w11 = ReadBE32 (drop 44 chunk);
         (a, e) = Round f g hh a b c d e 0x550c7dc3 w11;
         w12 = ReadBE32 (drop 48 chunk);
         (hh, d) = Round e f g hh a b c d 0x72be5d74 w12;
         w13 = ReadBE32 (drop 52 chunk);
         (g, c) = Round d e f g hh a b c 0x80deb1fe w13;
         w14 = ReadBE32 (drop 56 chunk);
         (f, b) = Round c d e f g hh a b 0x9bdc06a7 w14;
         w15 = ReadBE32 (drop 60 chunk);
         (e, a) = Round b c d e f g hh a 0xc19bf174 w15
     in ((a, b, c, d, e, f, g, hh), (w0, w1, w2, w3, w4, w5, w6, w7, w8, w9, w10, w11, w12, w13, w14, w15)))"

definition rounds_16_31 :: "sha_vars \<times> sha_words \<Rightarrow> sha_vars \<times> sha_words" where
  "rounds_16_31 = (\<lambda>((a, b, c, d, e, f, g, hh), (w0, w1, w2, w3, w4, w5, w6, w7, w8, w9, w10, w11, w12, w13, w14, w15)).
     let w0 = w0 + (sigma1 w14 + w9 + sigma0 w1);
         (d, hh) = Round a b c d e f g hh 0xe49b69c1 w0;
         w1 = w1 + (sigma1 w15 + w10 + sigma0 w2);
         (c, g) = Round hh a b c d e f g 0xefbe4786 w1;
         w2 = w2 + (sigma1 w0 + w11 + sigma0 w3);
         (b, f) = Round g hh a b c d e f 0x0fc19dc6 w2;
         w3 = w3 + (sigma1 w1 + w12 + sigma0 w4);
         (a, e) = Round f g hh a b c d e 0x240ca1cc w3;
         w4 = w4 + (sigma1 w2 + w13 + sigma0 w5);
         (hh, d) = Round e f g hh a b c d 0x2de92c6f w4;
         w5 = w5 + (sigma1 w3 + w14 + sigma0 w6);
         (g, c) = Round d e f g hh a b c 0x4a7484aa w5;
         w6 = w6 + (sigma1 w4 + w15 + sigma0 w7);
         (f, b) = Round c d e f g hh a b 0x5cb0a9dc w6;
         w7 = w7 + (sigma1 w5 + w0 + sigma0 w8);
         (e, a) = Round b c d e f g hh a 0x76f988da w7;
         w8 = w8 + (sigma1 w6 + w1 + sigma0 w9);
         (d, hh) = Round a b c d e f g hh 0x983e5152 w8;
         w9 = w9 + (sigma1 w7 + w2 + sigma0 w10);
         (c, g) = Round hh a b c d e f g 0xa831c66d w9;
         w10 = w10 + (sigma1 w8 + w3 + sigma0 w11);
         (b, f) = Round g hh a b c d e f 0xb00327c8 w10;
         w11 = w11 + (sigma1 w9 + w4 + sigma0 w12);
         (a, e) = Round f g hh a b c d e 0xbf597fc7 w11;
         w12 = w12 + (sigma1 w10 + w5 + sigma0 w13);
         (hh, d) = Round e f g hh a b c d 0xc6e00bf3 w12;
         w13 = w13 + (sigma1 w11 + w6 + sigma0 w14);
         (g, c) = Round d e f g hh a b c 0xd5a79147 w13;
         w14 = w14 + (sigma1 w12 + w7 + sigma0 w15);
         (f, b) = Round c d e f g hh a b 0x06ca6351 w14;
         w15 = w15 + (sigma1 w13 + w8 + sigma0 w0);
         (e, a) = Round b c d e f g hh a 0x14292967 w15
     in ((a, b, c, d, e, f, g, hh), (w0, w1, w2, w3, w4, w5, w6, w7, w8, w9, w10, w11, w12, w13, w14, w15)))"

definition rounds_32_47 :: "sha_vars \<times> sha_words \<Rightarrow> sha_vars \<times> sha_words" where
  "rounds_32_47 = (\<lambda>((a, b, c, d, e, f, g, hh), (w0, w1, w2, w3, w4, w5, w6, w7, w8, w9, w10, w11, w12, w13, w14, w15)).
     let w0 = w0 + (sigma1 w14 + w9 + sigma0 w1);
         (d, hh) = Round a b c d e f g hh 0x27b70a85 w0;
         w1 = w1 + (sigma1 w15 + w10 + sigma0 w2);
         (c, g) = Round hh a b c d e f g 0x2e1b2138 w1;
         w2 = w2 + (sigma1 w0 + w11 + sigma0 w3);
         (b, f) = Round g hh a b c d e f 0x4d2c6dfc w2;
         w3 = w3 + (sigma1 w1 + w12 + sigma0 w4);
         (a, e) = Round f g hh a b c d e 0x53380d13 w3;
         w4 = w4 + (sigma1 w2 + w13 + sigma0 w5);
         (hh, d) = Round e f g hh a b c d 0x650a7354 w4;
         w5 = w5 + (sigma1 w3 + w14 + sigma0 w6);
         (g, c) = Round d e f g hh a b c 0x766a0abb w5;
         w6 = w6 + (sigma1 w4 + w15 + sigma0 w7);
         (f, b) = Round c d e f g hh a b 0x81c2c92e w6;
         w7 = w7 + (sigma1 w5 + w0 + sigma0 w8);
         (e, a) = Round b c d e f g hh a 0x92722c85 w7;
         w8 = w8 + (sigma1 w6 + w1 + sigma0 w9);
         (d, hh) = Round a b c d e f g hh 0xa2bfe8a1 w8;
         w9 = w9 + (sigma1 w7 + w2 + sigma0 w10);
         (c, g) = Round hh a b c d e f g 0xa81a664b w9;
         w10 = w10 + (sigma1 w8 + w3 + sigma0 w11);
         (b, f) = Round g hh a b c d e f 0xc24b8b70 w10;
         w11 = w11 + (sigma1 w9 + w4 + sigma0 w12);
         (a, e) = Round f g hh a b c d e 0xc76c51a3 w11;
         w12 = w12 + (sigma1 w10 + w5 + sigma0 w13);
         (hh, d) = Round e f g hh a b c d 0xd192e819 w12;
         w13 = w13 + (sigma1 w11 + w6 + sigma0 w14);
         (g, c) = Round d e f g hh a b c 0xd6990624 w13;
         w14 = w14 + (sigma1 w12 + w7 + sigma0 w15);
         (f, b) = Round c d e f g hh a b 0xf40e3585 w14;
         w15 = w15 + (sigma1 w13 + w8 + sigma0 w0);
         (e, a) = Round b c d e f g hh a 0x106aa070 w15
     in ((a, b, c, d, e, f, g, hh), (w0, w1, w2, w3, w4, w5, w6, w7, w8, w9, w10, w11, w12, w13, w14, w15)))"

definition rounds_48_63 :: "sha_vars \<times> sha_words \<Rightarrow> sha_vars" where
  "rounds_48_63 = (\<lambda>((a, b, c, d, e, f, g, hh), (w0, w1, w2, w3, w4, w5, w6, w7, w8, w9, w10, w11, w12, w13, w14, w15)).
     let w0 = w0 + (sigma1 w14 + w9 + sigma0 w1);
         (d, hh) = Round a b c d e f g hh 0x19a4c116 w0;
         w1 = w1 + (sigma1 w15 + w10 + sigma0 w2);
         (c, g) = Round hh a b c d e f g 0x1e376c08 w1;
         w2 = w2 + (sigma1 w0 + w11 + sigma0 w3);
         (b, f) = Round g hh a b c d e f 0x2748774c w2;
         w3 = w3 + (sigma1 w1 + w12 + sigma0 w4);
         (a, e) = Round f g hh a b c d e 0x34b0bcb5 w3;
         w4 = w4 + (sigma1 w2 + w13 + sigma0 w5);
         (hh, d) = Round e f g hh a b c d 0x391c0cb3 w4;
         w5 = w5 + (sigma1 w3 + w14 + sigma0 w6);
         (g, c) = Round d e f g hh a b c 0x4ed8aa4a w5;
         w6 = w6 + (sigma1 w4 + w15 + sigma0 w7);
         (f, b) = Round c d e f g hh a b 0x5b9cca4f w6;
         w7 = w7 + (sigma1 w5 + w0 + sigma0 w8);
         (e, a) = Round b c d e f g hh a 0x682e6ff3 w7;
         w8 = w8 + (sigma1 w6 + w1 + sigma0 w9);
         (d, hh) = Round a b c d e f g hh 0x748f82ee w8;
         w9 = w9 + (sigma1 w7 + w2 + sigma0 w10);
         (c, g) = Round hh a b c d e f g 0x78a5636f w9;
         w10 = w10 + (sigma1 w8 + w3 + sigma0 w11);
         (b, f) = Round g hh a b c d e f 0x84c87814 w10;
         w11 = w11 + (sigma1 w9 + w4 + sigma0 w12);
         (a, e) = Round f g hh a b c d e 0x8cc70208 w11;
         w12 = w12 + (sigma1 w10 + w5 + sigma0 w13);
         (hh, d) = Round e f g hh a b c d 0x90befffa w12;
         w13 = w13 + (sigma1 w11 + w6 + sigma0 w14);
         (g, c) = Round d e f g hh a b c 0xa4506ceb w13;
         (f, b) = Round c d e f g hh a b 0xbef9a3f7 (w14 + sigma1 w12 + w7 + sigma0 w15);
         (e, a) = Round b c d e f g hh a 0xc67178f2 (w15 + sigma1 w13 + w8 + sigma0 w0)
     in (a, b, c, d, e, f, g, hh))"

definition sha256_transform :: "sha_vars \<Rightarrow> byte list \<Rightarrow> sha_vars" where
  "sha256_transform s chunk =
     (let (s0, s1, s2, s3, s4, s5, s6, s7) = s;
          (a, b, c, d, e, f, g, hh) = rounds_48_63 (rounds_32_47 (rounds_16_31 (rounds_0_15 chunk s)))
      in (s0 + a, s1 + b, s2 + c, s3 + d, s4 + e, s5 + f, s6 + g, s7 + hh))"

text \<open>
  The class. The constructor leaves the buffer uninitialised: its content \<open>junk\<close> is arbitrary.
  Both overloads of \<open>finalize\<close> have the same body.
\<close>

type_synonym sha256 = "sha_vars hasher"

definition sha256_new :: "byte list \<Rightarrow> sha256" where
  "sha256_new junk = \<lparr>hs = sha256_initialize, buf = junk, nbytes = 0\<rparr>"

definition sha256_write :: "sha256 \<Rightarrow> byte list \<Rightarrow> sha256" where
  "sha256_write = buffer_write sha256_transform"

definition sha256_write_string :: "sha256 \<Rightarrow> string \<Rightarrow> sha256" where
  "sha256_write_string st data = (if data = [] then st else sha256_write st (bytes_of_string data))"

definition sha256_output :: "sha_vars \<Rightarrow> byte list" where
  "sha256_output =
     (\<lambda>(s0, s1, s2, s3, s4, s5, s6, s7).
        WriteBE32 s0 @ WriteBE32 s1 @ WriteBE32 s2 @ WriteBE32 s3 @
        WriteBE32 s4 @ WriteBE32 s5 @ WriteBE32 s6 @ WriteBE32 s7)"

definition sha256_finalize :: "sha256 \<Rightarrow> byte list \<times> sha256" where
  "sha256_finalize st =
     (let sizedesc = WriteBE64 (push_bit 3 (nbytes st));
          st = sha256_write st (take (pad_len (nbytes st)) pad);
          st = sha256_write st sizedesc
      in (sha256_output (hs st), st))"

definition sha256_reset :: "sha256 \<Rightarrow> sha256" where
  "sha256_reset st = st\<lparr>nbytes := 0, hs := sha256_initialize\<rparr>"

text \<open>\<open>double_sha256\<close> wraps one \<open>sha256\<close> object.\<close>

definition double_sha256_write :: "sha256 \<Rightarrow> byte list \<Rightarrow> sha256" where
  "double_sha256_write sha data = (if length data > 0 then sha256_write sha data else sha)"

definition double_sha256_write_string :: "sha256 \<Rightarrow> string \<Rightarrow> sha256" where
  "double_sha256_write_string sha data = (if data = [] then sha else sha256_write sha (bytes_of_string data))"

definition double_sha256_finalize :: "sha256 \<Rightarrow> byte list \<times> sha256" where
  "double_sha256_finalize sha =
     (let (buf, sha) = sha256_finalize sha;
          sha = sha256_reset sha;
          sha = sha256_write sha buf
      in sha256_finalize sha)"

definition double_sha256_reset :: "sha256 \<Rightarrow> sha256" where
  "double_sha256_reset sha = sha256_reset sha"

section \<open>The standard\<close>

text \<open>
  Section 4.2.2: the first 32 bits of the fractional parts of the cube roots of the first 64
  primes.
\<close>

definition K256 :: "u32 list" where
  "K256 =
    [1116352408, 1899447441, 3049323471, 3921009573, 961987163, 1508970993, 2453635748, 2870763221,
     3624381080, 310598401, 607225278, 1426881987, 1925078388, 2162078206, 2614888103, 3248222580,
     3835390401, 4022224774, 264347078, 604807628, 770255983, 1249150122, 1555081692, 1996064986,
     2554220882, 2821834349, 2952996808, 3210313671, 3336571891, 3584528711, 113926993, 338241895,
     666307205, 773529912, 1294757372, 1396182291, 1695183700, 1986661051, 2177026350, 2456956037,
     2730485921, 2820302411, 3259730800, 3345764771, 3516065817, 3600352804, 4094571909, 275423344,
     430227734, 506948616, 659060556, 883997877, 958139571, 1322822218, 1537002063, 1747873779,
     1955562222, 2024104815, 2227730452, 2361852424, 2428436474, 2756734187, 3204031479, 3329325298]"

definition ROTR :: "nat \<Rightarrow> u32 \<Rightarrow> u32" where "ROTR n x = word_rotr n x"
definition SHR :: "nat \<Rightarrow> u32 \<Rightarrow> u32" where "SHR n x = drop_bit n x"
definition fips_Ch :: "u32 \<Rightarrow> u32 \<Rightarrow> u32 \<Rightarrow> u32" where
  "fips_Ch x y z = (x AND y) XOR (NOT x AND z)"
definition fips_Maj :: "u32 \<Rightarrow> u32 \<Rightarrow> u32 \<Rightarrow> u32" where
  "fips_Maj x y z = (x AND y) XOR (x AND z) XOR (y AND z)"
definition fips_Sigma0 :: "u32 \<Rightarrow> u32" where "fips_Sigma0 x = ROTR 2 x XOR ROTR 13 x XOR ROTR 22 x"
definition fips_Sigma1 :: "u32 \<Rightarrow> u32" where "fips_Sigma1 x = ROTR 6 x XOR ROTR 11 x XOR ROTR 25 x"
definition fips_sigma0 :: "u32 \<Rightarrow> u32" where "fips_sigma0 x = ROTR 7 x XOR ROTR 18 x XOR SHR 3 x"
definition fips_sigma1 :: "u32 \<Rightarrow> u32" where "fips_sigma1 x = ROTR 17 x XOR ROTR 19 x XOR SHR 10 x"

text \<open>The message schedule of one block, section 6.2.2 step 1.\<close>

fun msg_word :: "byte list \<Rightarrow> nat \<Rightarrow> u32" where
  "msg_word blk t =
     (if t < 16 then ReadBE32 (drop (4 * t) blk)
      else fips_sigma1 (msg_word blk (t - 2)) + msg_word blk (t - 7)
           + fips_sigma0 (msg_word blk (t - 15)) + msg_word blk (t - 16))"

declare msg_word.simps [simp del]

text \<open>Steps 3 and 4: one round on the working variables, and one block.\<close>

definition fips_round :: "sha_vars \<Rightarrow> u32 \<Rightarrow> u32 \<Rightarrow> sha_vars" where
  "fips_round = (\<lambda>(a, b, c, d, e, f, g, hh) k w.
     let t1 = hh + fips_Sigma1 e + fips_Ch e f g + k + w;
         t2 = fips_Sigma0 a + fips_Maj a b c
     in (t1 + t2, a, b, c, d + t1, e, f, g))"

definition fips_rounds :: "byte list \<Rightarrow> nat \<Rightarrow> nat \<Rightarrow> sha_vars \<Rightarrow> sha_vars" where
  "fips_rounds blk i j st = foldl (\<lambda>st t. fips_round st (K256 ! t) (msg_word blk t)) st [i ..< j]"

definition fips_block :: "sha_vars \<Rightarrow> byte list \<Rightarrow> sha_vars" where
  "fips_block s blk =
     (let (h0, h1, h2, h3, h4, h5, h6, h7) = s;
          (a, b, c, d, e, f, g, hh) = fips_rounds blk 0 64 s
      in (a + h0, b + h1, c + h2, d + h3, e + h4, f + h5, g + h6, hh + h7))"

definition fips_sha256 :: "byte list \<Rightarrow> byte list" where
  "fips_sha256 m =
     sha256_output (foldl fips_block sha256_initialize
       (blocks (m @ padding (length m) @ rev (write_le 8 (8 * length m)))))"

section \<open>The unrolled code computes the standard\<close>

lemma rotr_shifts: "0 < n \<Longrightarrow> n < 32 \<Longrightarrow> drop_bit n x OR push_bit (32 - n) x = ROTR n (x :: u32)"
  unfolding ROTR_def
proof (rule bit_word_eqI)
  fix k :: nat
  assume *: "0 < n" "n < 32" "k < LENGTH(32)"
  have "\<not> bit x (k + n)" if "\<not> k + n < 32" using that bit_imp_le_length [of x "k + n"] by auto
  moreover have "(k + n) mod 32 = (if k + n < 32 then k + n else k + n - 32)"
    using * by (simp add: le_mod_geq)
  ultimately show "bit (drop_bit n x OR push_bit (32 - n) x) k = bit (word_rotr n x) k"
    using * by (auto simp: bit_word_rotr_iff bit_simps add.commute)
qed

lemma Ch_fips: "Ch x y z = fips_Ch x y z"
  unfolding Ch_def fips_Ch_def by (rule bit_word_eqI) (auto simp: bit_simps)

lemma Maj_fips: "Maj x y z = fips_Maj x y z"
  unfolding Maj_def fips_Maj_def by (rule bit_word_eqI) (auto simp: bit_simps)

lemma Sigma_fips:
  "Sigma0 x = fips_Sigma0 x" "Sigma1 x = fips_Sigma1 x" "sigma0 x = fips_sigma0 x" "sigma1 x = fips_sigma1 x"
  using rotr_shifts [of 2 x] rotr_shifts [of 13 x] rotr_shifts [of 22 x] rotr_shifts [of 6 x] rotr_shifts [of 11 x]
    rotr_shifts [of 25 x] rotr_shifts [of 7 x] rotr_shifts [of 18 x] rotr_shifts [of 17 x] rotr_shifts [of 19 x]
  by (simp_all add: Sigma0_def Sigma1_def sigma0_def sigma1_def fips_Sigma0_def fips_Sigma1_def
      fips_sigma0_def fips_sigma1_def SHR_def)

text \<open>A call of \<open>Round\<close> is a round of the standard with the shift left to the next call.\<close>

lemma fips_round_Round:
  "fips_round (a, b, c, d, e, f, g, hh) k w =
     (case Round a b c d e f g hh k w of (d', h') \<Rightarrow> (h', a, b, c, d', e, f, g))"
  by (simp add: fips_round_def Round_def Let_def Ch_fips Maj_fips Sigma_fips)

lemma msg_word_low: "t < 16 \<Longrightarrow> msg_word blk t = ReadBE32 (drop (4 * t) blk)"
  by (subst msg_word.simps) simp

lemma msg_word_next:
  "msg_word blk n + (sigma1 (msg_word blk (n + 14)) + msg_word blk (n + 9) + sigma0 (msg_word blk (n + 1)))
   = msg_word blk (n + 16)"
  by (subst (5) msg_word.simps) (simp add: Sigma_fips algebra_simps)


lemma msg_word_next_2:
  "msg_word blk (Suc (Suc 0)) + (sigma1 (msg_word blk 16) + msg_word blk 11 + sigma0 (msg_word blk 3)) = msg_word blk 18"
  using msg_word_next [of blk 2, simplified] by (simp only: numeral_2_eq_2)

lemmas msg_word_nexts =
  msg_word_next_2
  msg_word_next [of _ 0, simplified] msg_word_next [of _ 1, simplified] msg_word_next [of _ 2, simplified]
  msg_word_next [of _ 3, simplified] msg_word_next [of _ 4, simplified] msg_word_next [of _ 5, simplified]
  msg_word_next [of _ 6, simplified] msg_word_next [of _ 7, simplified] msg_word_next [of _ 8, simplified]
  msg_word_next [of _ 9, simplified] msg_word_next [of _ 10, simplified] msg_word_next [of _ 11, simplified]
  msg_word_next [of _ 12, simplified] msg_word_next [of _ 13, simplified] msg_word_next [of _ 14, simplified]
  msg_word_next [of _ 15, simplified] msg_word_next [of _ 16, simplified] msg_word_next [of _ 17, simplified]
  msg_word_next [of _ 18, simplified] msg_word_next [of _ 19, simplified] msg_word_next [of _ 20, simplified]
  msg_word_next [of _ 21, simplified] msg_word_next [of _ 22, simplified] msg_word_next [of _ 23, simplified]
  msg_word_next [of _ 24, simplified] msg_word_next [of _ 25, simplified] msg_word_next [of _ 26, simplified]
  msg_word_next [of _ 27, simplified] msg_word_next [of _ 28, simplified] msg_word_next [of _ 29, simplified]
  msg_word_next [of _ 30, simplified] msg_word_next [of _ 31, simplified] msg_word_next [of _ 32, simplified]
  msg_word_next [of _ 33, simplified] msg_word_next [of _ 34, simplified] msg_word_next [of _ 35, simplified]
  msg_word_next [of _ 36, simplified] msg_word_next [of _ 37, simplified] msg_word_next [of _ 38, simplified]
  msg_word_next [of _ 39, simplified] msg_word_next [of _ 40, simplified] msg_word_next [of _ 41, simplified]
  msg_word_next [of _ 42, simplified] msg_word_next [of _ 43, simplified] msg_word_next [of _ 44, simplified]
  msg_word_next [of _ 45, simplified] msg_word_next [of _ 46, simplified] msg_word_next [of _ 47, simplified]

lemma fips_rounds_step: "i < j \<Longrightarrow> fips_rounds blk i j st = fips_rounds blk (Suc i) j (fips_round st (K256 ! i) (msg_word blk i))"
  by (simp add: fips_rounds_def upt_conv_Cons)

lemma fips_rounds_done: "j \<le> i \<Longrightarrow> fips_rounds blk i j st = st"
  by (simp add: fips_rounds_def)

definition words_at :: "byte list \<Rightarrow> nat \<Rightarrow> sha_words" where
  "words_at blk i =
     (msg_word blk i, msg_word blk (i + 1), msg_word blk (i + 2), msg_word blk (i + 3),
      msg_word blk (i + 4), msg_word blk (i + 5), msg_word blk (i + 6), msg_word blk (i + 7),
      msg_word blk (i + 8), msg_word blk (i + 9), msg_word blk (i + 10), msg_word blk (i + 11),
      msg_word blk (i + 12), msg_word blk (i + 13), msg_word blk (i + 14), msg_word blk (i + 15))"

lemma rounds_0_15_fips: "rounds_0_15 blk st = (fips_rounds blk 0 16 st, words_at blk 0)"
  by (cases st)
    (simp add: rounds_0_15_def fips_rounds_step fips_rounds_done fips_round_Round K256_def words_at_def Let_def
      msg_word_low split: prod.split)

lemma rounds_16_31_fips:
  "rounds_16_31 (st, words_at blk 0) = (fips_rounds blk 16 32 st, words_at blk 16)"
  by (cases st)
    (simp add: rounds_16_31_def fips_rounds_step fips_rounds_done fips_round_Round K256_def words_at_def Let_def
      msg_word_nexts numeral_2_eq_2 split: prod.split)

lemma rounds_32_47_fips:
  "rounds_32_47 (st, words_at blk 16) = (fips_rounds blk 32 48 st, words_at blk 32)"
  by (cases st)
    (simp add: rounds_32_47_def fips_rounds_step fips_rounds_done fips_round_Round K256_def words_at_def Let_def
      msg_word_nexts split: prod.split)

lemma msg_word_last:
  "msg_word blk 46 + sigma1 (msg_word blk 60) + msg_word blk 55 + sigma0 (msg_word blk 47) = msg_word blk 62"
  "msg_word blk 47 + sigma1 (msg_word blk 61) + msg_word blk 56 + sigma0 (msg_word blk 48) = msg_word blk 63"
  using msg_word_next [of blk 46, simplified] msg_word_next [of blk 47, simplified] by (simp_all only: add.assoc)

lemma rounds_48_63_fips:
  "rounds_48_63 (st, words_at blk 32) = fips_rounds blk 48 64 st"
  by (cases st)
    (simp add: rounds_48_63_def fips_rounds_step fips_rounds_done fips_round_Round K256_def words_at_def Let_def
      msg_word_nexts msg_word_last split: prod.split)

lemma fips_rounds_join: "i \<le> j \<Longrightarrow> j \<le> k \<Longrightarrow> fips_rounds blk j k (fips_rounds blk i j st) = fips_rounds blk i k st"
  using upt_add_eq_append [of i j "k - j"] by (simp add: fips_rounds_def)

lemma sha256_transform_fips: "sha256_transform s blk = fips_block s blk"
  unfolding sha256_transform_def fips_block_def rounds_0_15_fips rounds_16_31_fips rounds_32_47_fips rounds_48_63_fips
  by (simp add: fips_rounds_join add.commute)

section \<open>The class computes the standard\<close>

interpretation sha: block_digest sha256_transform sha256_initialize
  "\<lambda>n. WriteBE64 (push_bit 3 n)" sha256_output sha256_write sha256_finalize sha256_reset
  by unfold_locales (simp_all add: sha256_write_def sha256_finalize_def sha256_reset_def WriteBE64_def Let_def)

lemma std_digest_fips: "sha.std_digest m = fips_sha256 m"
proof -
  have "sha256_transform = fips_block" by (intro ext) (rule sha256_transform_fips)
  then show ?thesis
    using sha.std_digest_def [of m] by (simp only: fips_sha256_def WriteBE64_def bit_length_bytes)
qed

lemma sha256_new_holds: "length junk = 64 \<Longrightarrow> absorbed sha256_transform sha256_initialize [] (sha256_new junk)"
  by (simp add: absorbed_init sha256_new_def)

lemma double_sha256_write_eq: "double_sha256_write = sha256_write"
  by (intro ext) (simp add: double_sha256_write_def sha256_write_def buffer_write_Nil)

interpretation dsha: message_digest "absorbed sha256_transform sha256_initialize"
  double_sha256_write double_sha256_finalize double_sha256_reset "\<lambda>m. sha.std_digest (sha.std_digest m)"
proof unfold_locales
  fix m d st
  assume st: "absorbed sha256_transform sha256_initialize m st"
  let ?st = "sha256_write (sha256_reset (snd (sha256_finalize st))) (fst (sha256_finalize st))"
  have fin: "double_sha256_finalize st = sha256_finalize ?st"
    by (simp add: double_sha256_finalize_def Let_def split: prod.split)
  show "absorbed sha256_transform sha256_initialize (m @ d) (double_sha256_write st d)"
    unfolding double_sha256_write_eq using st by (rule sha.write_holds)
  show "fst (double_sha256_finalize st) = sha.std_digest (sha.std_digest m)"
    unfolding fin using st by (rule sha.rehash)
  show "absorbed sha256_transform sha256_initialize [] (double_sha256_reset (snd (double_sha256_finalize st)))"
    unfolding fin double_sha256_reset_def
    by (rule sha.finalize_reset [OF sha.write_holds [OF sha.finalize_reset [OF st]]])
qed

section \<open>Properties\<close>

text \<open>
  C28. The SHA-256 class computes FIPS 180-4: a new object, whatever its uninitialised buffer
  holds, fed with any sequence of writes, gives the digest of the concatenated message.
\<close>

theorem sha256_correct:
  assumes "length junk = 64"
  shows "fst (sha256_finalize (foldl sha256_write (sha256_new junk) ds)) = fips_sha256 (concat ds)"
  using sha.digest_of_writes [OF sha256_new_holds [OF assms]] by (simp only: std_digest_fips)

theorem sha256_correct_witness:
  "fst (sha256_finalize (foldl sha256_write (sha256_new (replicate 64 7)) [[97], [], [98, 99]])) = fips_sha256 [97, 98, 99]"
  using sha256_correct [of "replicate 64 7" "[[97], [], [98, 99]]"] by simp

text \<open>
  The double hash is the standard applied twice, and after \<open>reset\<close> the object can be used
  again.
\<close>

theorem double_sha256_correct:
  assumes "length junk = 64"
  shows "let (d, st) = double_sha256_finalize (foldl double_sha256_write (sha256_new junk) ds)
    in d = fips_sha256 (fips_sha256 (concat ds)) \<and>
       fst (double_sha256_finalize (foldl double_sha256_write (double_sha256_reset st) ds')) =
         fips_sha256 (fips_sha256 (concat ds'))"
proof -
  note new = sha256_new_holds [OF assms]
  show ?thesis
    using dsha.digest_of_writes [OF new, of ds]
      dsha.digest_of_writes [OF dsha.finalize_reset [OF dsha.writes_hold [OF new, of ds]], of ds']
    by (auto simp: std_digest_fips split: prod.split)
qed

theorem double_sha256_correct_witness:
  "let (d, st) = double_sha256_finalize (foldl double_sha256_write (sha256_new (replicate 64 0)) [[1], [2]])
   in d = fips_sha256 (fips_sha256 [1, 2]) \<and>
      fst (double_sha256_finalize (foldl double_sha256_write (double_sha256_reset st) [[], [3, 4]])) =
        fips_sha256 (fips_sha256 [3, 4])"
  using double_sha256_correct [of "replicate 64 0" "[[1], [2]]" "[[], [3, 4]]"] by simp

end
