(* ===== verification/Hash_Value.thy ===== *)
theory Hash_Value
  imports Base58 Ripemd160 Sha256
begin

text \<open>
  The hash values of \<open>ripemd160::value_type\<close> and \<open>sha256::value_type\<close>. The code reads the
  twenty bytes of the first as two 64-bit words and one 32-bit word of a little-endian machine;
  the model keeps these three words and gives the bytes as a function. The order of
  the words is the order of the maps keyed by hashes throughout the program; it is shown to be
  a linear order, and the type is made an instance of \<open>linorder\<close>. The order of SHA-256 values is
  shown not to be an order at all.
\<close>

section \<open>The code\<close>

datatype hash_t = Hash u64 u64 u32

primrec hash_bytes :: "hash_t \<Rightarrow> byte list" where
  "hash_bytes (Hash a b c) = WriteLE64 a @ WriteLE64 b @ WriteLE32 c"

definition hash_of_bytes :: "byte list \<Rightarrow> hash_t" where
  "hash_of_bytes bs = Hash (read_le (take 8 bs)) (read_le (take 8 (drop 8 bs))) (read_le (take 4 (drop 16 bs)))"

definition hash_zero :: hash_t where "hash_zero = Hash 0 0 0"

definition hash_set :: "u32 \<Rightarrow> hash_t" where "hash_set i = Hash 0 0 i"

fun hash_eq :: "hash_t \<Rightarrow> hash_t \<Rightarrow> bool" where
  "hash_eq (Hash a b c) (Hash a' b' c') =
     (if a \<noteq> a' then False else if b \<noteq> b' then False else if c \<noteq> c' then False else True)"

fun hash_ne :: "hash_t \<Rightarrow> hash_t \<Rightarrow> bool" where
  "hash_ne (Hash a b c) (Hash a' b' c') =
     (if a \<noteq> a' then True else if b \<noteq> b' then True else if c \<noteq> c' then True else False)"

fun hash_less :: "hash_t \<Rightarrow> hash_t \<Rightarrow> bool" where
  "hash_less (Hash a b c) (Hash a' b' c') =
     (if a < a' then True else if a > a' then False
      else if b < b' then True else if b > b' then False
      else if c < c' then True else False)"

fun hash_is_zero :: "hash_t \<Rightarrow> bool" where
  "hash_is_zero (Hash a b c) =
     (if a \<noteq> 0 then False else if b \<noteq> 0 then False else if c \<noteq> 0 then False else True)"

text \<open>\<open>to_b58\<close>; \<open>None\<close> would be the failed assertion of the encoder.\<close>

definition hash_to_b58 :: "hash_t \<Rightarrow> string option" where
  "hash_to_b58 h = encode (hash_bytes h)"

definition hash_from_b58 :: "string \<Rightarrow> hash_t" where
  "hash_from_b58 s =
     (case decode s of
        None \<Rightarrow> hash_zero
      | Some v \<Rightarrow> if length v \<noteq> 20 then hash_zero else hash_of_bytes v)"

text \<open>\<open>set_b58\<close>: the returned flag and the new value of the object.\<close>

definition hash_set_b58 :: "hash_t \<Rightarrow> string \<Rightarrow> bool \<times> hash_t" where
  "hash_set_b58 h s =
     (case decode s of
        None \<Rightarrow> (False, h)
      | Some v \<Rightarrow> if length v \<noteq> 20 then (False, h) else (True, hash_of_bytes v))"

text \<open>The hash of a message, \<open>finalize\<close> into a \<open>value_type\<close>.\<close>

definition ripemd160_value :: "ripemd160 \<Rightarrow> hash_t" where
  "ripemd160_value st = hash_of_bytes (fst (ripemd160_finalize st))"

text \<open>\<open>sha256::value_type\<close> as its four 64-bit words.\<close>

type_synonym sha256_value = "u64 \<times> u64 \<times> u64 \<times> u64"

definition sha256_less :: "sha256_value \<Rightarrow> sha256_value \<Rightarrow> bool" where
  "sha256_less = (\<lambda>(a, b, c, d) (a', b', c', d').
     if a < a' then True else if b < b' then True else if c < c' then True else if d < d' then True else False)"

definition sha256_is_zero :: "sha256_value \<Rightarrow> bool" where
  "sha256_is_zero = (\<lambda>(a, b, c, d).
     if a \<noteq> 0 then False else if b \<noteq> 0 then False else if c \<noteq> 0 then False else if d \<noteq> 0 then False else True)"

definition sha256_zero :: sha256_value where "sha256_zero = (0, 0, 0, 0)"

section \<open>Lemmas\<close>

lemma length_hash_bytes [simp]: "length (hash_bytes h) = 20"
  by (cases h) (simp add: WriteLE64_def WriteLE32_def)

lemma hash_of_bytes_bytes [simp]: "hash_of_bytes (hash_bytes h) = h"
proof (cases h)
  case (Hash a b c)
  have "unat a < 256 ^ 8" "unat b < 256 ^ 8" "unat c < 256 ^ 4"
    using unsigned_less [of a] unsigned_less [of b] unsigned_less [of c] by simp_all
  then show ?thesis
    by (simp add: Hash hash_of_bytes_def WriteLE64_def WriteLE32_def read_le_write_le)
qed

lemma hash_bytes_of_bytes: "length bs = 20 \<Longrightarrow> hash_bytes (hash_of_bytes bs) = bs"
proof -
  assume len: "length bs = 20"
  have "WriteLE64 (read_le (take 8 bs)) = take 8 bs" "WriteLE64 (read_le (take 8 (drop 8 bs))) = take 8 (drop 8 bs)"
    using write_le_read_le [of "take 8 bs", where ?'a = 64] write_le_read_le [of "take 8 (drop 8 bs)", where ?'a = 64] len
    by (simp_all add: WriteLE64_def)
  moreover have "WriteLE32 (read_le (take 4 (drop 16 bs))) = take 4 (drop 16 bs)"
    using write_le_read_le [of "take 4 (drop 16 bs)", where ?'a = 32] len by (simp add: WriteLE32_def)
  moreover have "take 4 (drop 16 bs) = drop 8 (drop 8 bs)" using len by simp
  ultimately show ?thesis by (simp add: hash_of_bytes_def del: drop_drop)
qed

lemma hash_bytes_inject [simp]: "hash_bytes x = hash_bytes y \<longleftrightarrow> x = y"
  by (metis hash_of_bytes_bytes)

lemma hash_eq_iff [simp]: "hash_eq x y \<longleftrightarrow> x = y"
  by (cases x; cases y) simp

lemma hash_ne_iff [simp]: "hash_ne x y \<longleftrightarrow> x \<noteq> y"
  by (cases x; cases y) simp

lemma hash_is_zero_iff [simp]: "hash_is_zero x \<longleftrightarrow> x = hash_zero"
  by (cases x) (simp add: hash_zero_def)

text \<open>The order of the code makes the type a linear order.\<close>

instantiation hash_t :: linorder
begin

definition less_hash_t :: "hash_t \<Rightarrow> hash_t \<Rightarrow> bool" where "less_hash_t = hash_less"
definition less_eq_hash_t :: "hash_t \<Rightarrow> hash_t \<Rightarrow> bool" where "less_eq_hash_t x y \<longleftrightarrow> hash_less x y \<or> x = y"

instance
proof
  fix x y z :: hash_t
  show "x < y \<longleftrightarrow> x \<le> y \<and> \<not> y \<le> x"
    unfolding less_hash_t_def less_eq_hash_t_def by (cases x; cases y) auto
  show "x \<le> x" by (simp add: less_eq_hash_t_def)
  show "x \<le> y \<Longrightarrow> y \<le> z \<Longrightarrow> x \<le> z"
    unfolding less_eq_hash_t_def by (cases x; cases y; cases z) (auto split: if_splits)
  show "x \<le> y \<Longrightarrow> y \<le> x \<Longrightarrow> x = y"
    unfolding less_eq_hash_t_def by (cases x; cases y) (auto split: if_splits)
  show "x \<le> y \<or> y \<le> x"
    unfolding less_eq_hash_t_def by (cases x; cases y) auto
qed

end

text \<open>The text of a hash: a non-empty token of the alphabet that determines the hash.\<close>

lemma hash_text:
  obtains s where "hash_to_b58 h = Some s" "decode s = Some (hash_bytes h)" "set s \<subseteq> set pszBase58" "s \<noteq> []"
  using encode_text [of "hash_bytes h"] unfolding hash_to_b58_def by (metis length_hash_bytes list.size(3) zero_neq_numeral)

lemma hash_set_b58_text: "hash_to_b58 h = Some s \<Longrightarrow> hash_set_b58 h0 s = (True, h)"
  by (rule hash_text [of h]) (simp add: hash_set_b58_def)

section \<open>Properties\<close>

text \<open>
  The text of a hash is read back as that hash, by both readers; reading changes the object
  only when it succeeds, and only the text of a 20-byte value is accepted.
\<close>

theorem hash_b58_roundtrip:
  "\<exists>s. hash_to_b58 h = Some s \<and> hash_from_b58 s = h \<and> hash_set_b58 h0 s = (True, h)
    \<and> (hash_set_b58 h0 t = (False, h0) \<or> (\<exists>v. decode t = Some v \<and> length v = 20 \<and> hash_set_b58 h0 t = (True, hash_of_bytes v)
         \<and> hash_bytes (hash_of_bytes v) = v))"
proof -
  obtain s where s: "hash_to_b58 h = Some s" "decode s = Some (hash_bytes h)" by (rule hash_text)
  have "hash_set_b58 h0 t = (False, h0) \<or> (\<exists>v. decode t = Some v \<and> length v = 20
      \<and> hash_set_b58 h0 t = (True, hash_of_bytes v) \<and> hash_bytes (hash_of_bytes v) = v)"
    by (auto simp: hash_set_b58_def hash_bytes_of_bytes split: option.splits)
  with s show ?thesis by (simp add: hash_from_b58_def hash_set_b58_def)
qed

text \<open>
  The comparisons of the code agree: two hashes are equal for \<open>==\<close> exactly when all their
  bytes are, \<open>!=\<close> is its negation, exactly one of less, equal and greater holds, and the order
  is transitive, as the maps keyed by hashes need.
\<close>

theorem hash_order:
  "(hash_eq x y \<longleftrightarrow> hash_bytes x = hash_bytes y) \<and> (hash_ne x y \<longleftrightarrow> \<not> hash_eq x y)
   \<and> (hash_less x y \<longleftrightarrow> \<not> hash_eq x y \<and> \<not> hash_less y x) \<and> (\<not> (hash_less x y \<and> hash_less y z \<and> \<not> hash_less x z))"
proof -
  have "x < y \<longleftrightarrow> x \<noteq> y \<and> \<not> y < x" and "\<not> (x < y \<and> y < z \<and> \<not> x < z)" by auto
  then show ?thesis by (simp add: less_hash_t_def)
qed

text \<open>
  The order of SHA-256 values is not an order: two values can each be less than the other,
  because the loop goes on to the next word when the first is greater.
\<close>

theorem sha256_less_not_asymmetric: "\<exists>x y. sha256_less x y \<and> sha256_less y x"
  by (intro exI [of _ "(1, 2, 0, 0)"] exI [of _ "(2, 1, 0, 0)"]) (simp add: sha256_less_def)

end
