(* ===== verification/Streams.thy ===== *)
theory Streams
  imports Hash_Value
begin

text \<open>
  The part of the C++ text streams that the serialised forms of the program use: extraction of
  a word and of a decimal integer from an \<open>istringstream\<close>, with the \<open>eofbit\<close> and \<open>failbit\<close> of the
  library, the insertion of integers and hashes into an \<open>ostringstream\<close>, and the extraction
  operator of hashes of \<open>src/gov/crypto/ripemd160.h\<close>.

  A number extraction that fails before it reads anything leaves its variable untouched: the
  result is \<open>None\<close> then. The lemmas say that what an insertion wrote, followed by a blank, is
  what the extraction reads.
\<close>

named_theorems stream_simps "extraction of printed values"

section \<open>Streams\<close>

record istream =
  ichars :: string
  ieof :: bool
  ifail :: bool

definition istr :: "string \<Rightarrow> istream" where
  "istr s = \<lparr>ichars = s, ieof = False, ifail = False\<rparr>"

definition good :: "istream \<Rightarrow> bool" where
  "good is \<longleftrightarrow> \<not> ieof is \<and> \<not> ifail is"

definition setfail :: "istream \<Rightarrow> istream" where
  "setfail is = is\<lparr>ifail := True\<rparr>"

text \<open>The sentry object of every formatted extraction: skip blanks, or fail.\<close>

definition sentry :: "istream \<Rightarrow> bool \<times> istream" where
  "sentry is =
     (if \<not> good is then (False, setfail is)
      else let r = dropWhile isspace (ichars is)
           in if r = [] then (False, \<lparr>ichars = [], ieof = True, ifail = True\<rparr>)
              else (True, is\<lparr>ichars := r\<rparr>))"

definition read_string :: "istream \<Rightarrow> string \<times> istream" where
  "read_string is =
     (case sentry is of
        (False, is) \<Rightarrow> ([], is)
      | (True, is) \<Rightarrow>
          let r = dropWhile (\<lambda>c. \<not> isspace c) (ichars is)
          in (takeWhile (\<lambda>c. \<not> isspace c) (ichars is), is\<lparr>ichars := r, ieof := r = []\<rparr>))"

text \<open>Decimal digits.\<close>

definition digit_char :: "nat \<Rightarrow> char" where "digit_char d = char_of (48 + d)"
definition digit_val :: "char \<Rightarrow> nat" where "digit_val c = of_char c - 48"
definition isdigit :: "char \<Rightarrow> bool" where
  "isdigit c \<longleftrightarrow> (48 :: nat) \<le> of_char c \<and> of_char c \<le> (57 :: nat)"

fun show_nat :: "nat \<Rightarrow> string" where
  "show_nat n = (if n < 10 then [digit_char n] else show_nat (n div 10) @ [digit_char (n mod 10)])"

declare show_nat.simps [simp del]

definition show_int :: "int \<Rightarrow> string" where
  "show_int i = (if i < 0 then CHR ''-'' # show_nat (nat (- i)) else show_nat (nat i))"

definition parse_nat :: "string \<Rightarrow> nat" where
  "parse_nat ds = be_val 10 (map digit_val ds)"

text \<open>
  The common part of the extractions of numbers: an optional sign and digits. The result is
  the sign and the digits read.
\<close>

definition read_digits :: "istream \<Rightarrow> (bool \<times> string) option \<times> istream" where
  "read_digits is =
     (case sentry is of
        (False, is) \<Rightarrow> (None, is)
      | (True, is) \<Rightarrow>
          let neg = hd (ichars is) = CHR ''-'';
              body = (if neg \<or> hd (ichars is) = CHR ''+'' then tl (ichars is) else ichars is);
              r = dropWhile isdigit body
          in (Some (neg, takeWhile isdigit body), is\<lparr>ichars := r, ieof := r = []\<rparr>))"

text \<open>A signed integer of \<open>w\<close> bits: out of range values are clamped, with \<open>failbit\<close>.\<close>

definition read_signed :: "nat \<Rightarrow> istream \<Rightarrow> int option \<times> istream" where
  "read_signed w is =
     (case read_digits is of
        (None, is) \<Rightarrow> (None, is)
      | (Some (neg, ds), is) \<Rightarrow>
          (if ds = [] then (Some 0, setfail is)
           else let v = (if neg then - int (parse_nat ds) else int (parse_nat ds))
                in if v < - (2 ^ (w - 1)) then (Some (- (2 ^ (w - 1))), setfail is)
                   else if v \<ge> 2 ^ (w - 1) then (Some (2 ^ (w - 1) - 1), setfail is)
                   else (Some v, is)))"

text \<open>An unsigned one: a minus sign is accepted and negates modulo \<open>2 ^ w\<close>.\<close>

definition read_unsigned :: "nat \<Rightarrow> istream \<Rightarrow> nat option \<times> istream" where
  "read_unsigned w is =
     (case read_digits is of
        (None, is) \<Rightarrow> (None, is)
      | (Some (neg, ds), is) \<Rightarrow>
          (if ds = [] then (Some 0, setfail is)
           else let n = parse_nat ds
                in if n \<ge> 2 ^ w then (Some (2 ^ w - 1), setfail is)
                   else (Some (if neg then (2 ^ w - n) mod 2 ^ w else n), is)))"

text \<open>\<open>is >> v\<close> for a hash: the new value of \<open>v\<close> and the stream.\<close>

definition read_hash :: "hash_t \<Rightarrow> istream \<Rightarrow> hash_t \<times> istream" where
  "read_hash v is =
     (let (s, is) = read_string is;
          (ok, v') = hash_set_b58 v s
      in (v', if ok then is else setfail is))"

text \<open>\<open>os << v\<close> for a hash; the encoder never fails.\<close>

definition show_hash :: "hash_t \<Rightarrow> string" where
  "show_hash h = (case hash_to_b58 h of Some s \<Rightarrow> s | None \<Rightarrow> [])"

section \<open>Lemmas\<close>

lemma good_istr [simp]: "good (istr s)"
  by (simp add: good_def istr_def)

lemma ichars_istr [simp]: "ichars (istr s) = s" "istr s\<lparr>ichars := r\<rparr> = istr r" "istr s\<lparr>ieof := False\<rparr> = istr s"
  by (simp_all add: istr_def)

lemma not_good_setfail [simp]: "\<not> good (setfail is)"
  by (simp add: good_def setfail_def)

lemma sentry_bad: "\<not> good is \<Longrightarrow> sentry is = (False, setfail is)"
  by (simp add: sentry_def)

lemma sentry_skip [simp]: "isspace c \<Longrightarrow> sentry (istr (c # s)) = sentry (istr s)"
  by (simp add: sentry_def)

lemma sentry_token: "s \<noteq> [] \<Longrightarrow> \<not> isspace (hd s) \<Longrightarrow> sentry (istr s) = (True, istr s)"
  by (cases s) (simp_all add: sentry_def)

lemma isspace_blank [simp]: "isspace CHR '' ''" "isspace CHR 0x0A"
  by (simp_all add: isspace_def)

lemma read_skip [stream_simps]:
  assumes "isspace c"
  shows "read_string (istr (c # s)) = read_string (istr s)" "read_digits (istr (c # s)) = read_digits (istr s)"
    "read_signed w (istr (c # s)) = read_signed w (istr s)" "read_unsigned w (istr (c # s)) = read_unsigned w (istr s)"
    "read_hash v (istr (c # s)) = read_hash v (istr s)"
  using assms by (simp_all add: read_string_def read_digits_def read_signed_def read_unsigned_def read_hash_def)

text \<open>A word followed by a blank.\<close>

definition token :: "string \<Rightarrow> bool" where
  "token s \<longleftrightarrow> s \<noteq> [] \<and> (\<forall>c \<in> set s. \<not> isspace c)"

lemma read_string_token [stream_simps]:
  assumes "token s" and "isspace c"
  shows "read_string (istr (s @ c # r)) = (s, istr (c # r))"
proof -
  have "sentry (istr (s @ c # r)) = (True, istr (s @ c # r))"
    using assms by (intro sentry_token) (cases s; auto simp: token_def)+
  moreover have "takeWhile (\<lambda>c. \<not> isspace c) (s @ c # r) = s" "dropWhile (\<lambda>c. \<not> isspace c) (s @ c # r) = c # r"
    using assms by (auto simp: token_def takeWhile_append dropWhile_append)
  ultimately show ?thesis by (simp add: read_string_def del: dropWhile_eq_Nil_conv)
qed

lemma of_char_char_of_small: "n < 256 \<Longrightarrow> of_char (char_of (n :: nat)) = n"
  by simp

lemma digit_val_char [simp]: "d < 10 \<Longrightarrow> digit_val (digit_char d) = d"
  unfolding digit_val_def digit_char_def by (simp only: of_char_char_of_small)

lemma isdigit_char [simp]: "d < 10 \<Longrightarrow> isdigit (digit_char d)"
  unfolding isdigit_def digit_char_def by (simp only: of_char_char_of_small) simp

lemma isdigit_not_space [simp]: "isdigit c \<Longrightarrow> \<not> isspace c"
  by (auto simp: isdigit_def isspace_def)

lemma isdigit_not_sign: "isdigit c \<Longrightarrow> c \<noteq> CHR ''-'' \<and> c \<noteq> CHR ''+''"
  by (auto simp: isdigit_def)

lemma show_nat_nonempty [simp]: "show_nat n \<noteq> []"
  by (subst show_nat.simps) simp

lemma show_nat_isdigit: "c \<in> set (show_nat n) \<Longrightarrow> isdigit c"
proof (induction n rule: show_nat.induct)
  case (1 n)
  then show ?case by (subst (asm) (2) show_nat.simps) (auto split: if_splits)
qed

lemma parse_show_nat [simp]: "parse_nat (show_nat n) = n"
proof (induction n rule: show_nat.induct)
  case (1 n)
  then show ?case
    by (subst show_nat.simps) (auto simp: parse_nat_def be_val_def)
qed

lemma token_show_nat [simp]: "token (show_nat n)"
  using show_nat_isdigit isdigit_not_space unfolding token_def by (metis show_nat_nonempty)

lemma token_show_int [simp]: "token (show_int i)"
  using token_show_nat [of "nat i"] token_show_nat [of "nat (- i)"] by (auto simp: show_int_def token_def isspace_def)

lemma stop_digits:
  assumes "\<not> isdigit c"
  shows "takeWhile isdigit (show_nat n @ c # r) = show_nat n" "dropWhile isdigit (show_nat n @ c # r) = c # r"
  using show_nat_isdigit [of _ n] assms by (auto simp: takeWhile_append dropWhile_append)

lemma read_digits_nat:
  assumes "\<not> isdigit c"
  shows "read_digits (istr (show_nat n @ c # r)) = (Some (False, show_nat n), istr (c # r))"
proof -
  obtain d ds where d: "show_nat n = d # ds" "isdigit d"
    using show_nat_isdigit [of _ n] by (cases "show_nat n") auto
  then have "sentry (istr (show_nat n @ c # r)) = (True, istr (show_nat n @ c # r))"
    by (intro sentry_token) auto
  then show ?thesis
    using stop_digits [OF assms, of n r] isdigit_not_sign [OF d(2)] by (simp add: read_digits_def d(1) del: dropWhile_eq_Nil_conv)
qed

lemma read_digits_neg:
  assumes "\<not> isdigit c"
  shows "read_digits (istr (CHR ''-'' # show_nat n @ c # r)) = (Some (True, show_nat n), istr (c # r))"
proof -
  have "sentry (istr (CHR ''-'' # show_nat n @ c # r)) = (True, istr (CHR ''-'' # show_nat n @ c # r))"
    by (intro sentry_token) (simp_all add: isspace_def)
  then show ?thesis using stop_digits [OF assms, of n r] by (simp add: read_digits_def del: dropWhile_eq_Nil_conv)
qed

lemma blank_not_digit [simp]: "isspace c \<Longrightarrow> \<not> isdigit c"
  using isdigit_not_space by blast

lemma read_unsigned_show [stream_simps]:
  "n < 2 ^ w \<Longrightarrow> isspace c \<Longrightarrow> read_unsigned w (istr (show_nat n @ c # r)) = (Some n, istr (c # r))"
  by (simp add: read_unsigned_def read_digits_nat Let_def)

lemma read_signed_show [stream_simps]:
  "- (2 ^ (w - 1)) \<le> i \<Longrightarrow> i < 2 ^ (w - 1) \<Longrightarrow> isspace c \<Longrightarrow>
   read_signed w (istr (show_int i @ c # r)) = (Some i, istr (c # r))"
  by (auto simp: read_signed_def show_int_def read_digits_nat read_digits_neg Let_def)

lemma show_hash_text:
  obtains "hash_to_b58 h = Some (show_hash h)" "token (show_hash h)"
proof -
  obtain s where s: "hash_to_b58 h = Some s" "set s \<subseteq> set pszBase58" "s \<noteq> []"
    by (rule hash_text [of h])
  have "\<forall>c \<in> set pszBase58. \<not> isspace c" by (simp add: pszBase58_def isspace_def)
  with s have "token (show_hash h)" by (auto simp: token_def show_hash_def)
  with s(1) that show ?thesis by (simp add: show_hash_def)
qed

lemma token_show_hash [simp]: "token (show_hash h)"
  by (rule show_hash_text)

lemma read_hash_show [stream_simps]:
  "isspace c \<Longrightarrow> read_hash v (istr (show_hash h @ c # r)) = (h, istr (c # r))"
  by (rule show_hash_text [of h])
    (simp add: read_hash_def read_string_token hash_set_b58_text)

text \<open>A last word or number, which ends with the stream.\<close>

lemma read_string_last [stream_simps]: "token s \<Longrightarrow> fst (read_string (istr s)) = s"
  by (cases s) (auto simp: token_def read_string_def sentry_def)

lemma digits_all: "takeWhile isdigit (show_nat n) = show_nat n"
  using show_nat_isdigit [of _ n] by simp

lemma read_digits_last: "fst (read_digits (istr (show_int i))) = Some (i < 0, show_nat (nat \<bar>i\<bar>))"
proof -
  obtain d ds where d: "show_nat (nat i) = d # ds" "isdigit d"
    using show_nat_isdigit [of _ "nat i"] by (cases "show_nat (nat i)") auto
  have "sentry (istr (show_int i)) = (True, istr (show_int i))"
    using token_show_int [of i] by (intro sentry_token) (cases "show_int i"; auto simp: token_def)+
  then show ?thesis
    using isdigit_not_sign [OF d(2)] digits_all [of "nat \<bar>i\<bar>"] d(1)
    by (cases "i < 0") (simp_all add: read_digits_def Let_def show_int_def)
qed

lemma read_signed_last [stream_simps]:
  assumes "- (2 ^ (w - 1)) \<le> i" "i < 2 ^ (w - 1)"
  shows "fst (read_signed w (istr (show_int i))) = Some i"
proof -
  obtain r where "read_digits (istr (show_int i)) = (Some (i < 0, show_nat (nat \<bar>i\<bar>)), r)"
    using read_digits_last [of i] by (metis prod.collapse)
  then show ?thesis using assms by (auto simp: read_signed_def Let_def)
qed

text \<open>Once a stream has failed it stays failed, and extraction changes no number.\<close>

lemma read_bad:
  assumes "\<not> good is"
  shows "read_string is = ([], setfail is)" "read_signed w is = (None, setfail is)"
    "read_unsigned w is = (None, setfail is)" "\<not> good (snd (read_hash v is))"
  using assms
  by (simp_all add: read_string_def read_signed_def read_unsigned_def read_digits_def read_hash_def sentry_bad
      split: prod.split)

text \<open>An extraction that leaves the stream good has consumed something.\<close>

lemma good_read_string: "good (snd (read_string is)) \<Longrightarrow> good is"
  by (cases "good is") (simp_all add: read_bad)

lemma read_string_shorter:
  assumes "good (snd (read_string is))"
  shows "length (ichars (snd (read_string is))) < length (ichars is)"
proof -
  have g: "good is" using good_read_string [OF assms] .
  let ?r = "dropWhile isspace (ichars is)"
  have "?r \<noteq> []" using assms g by (auto simp: read_string_def sentry_def good_def split: if_splits)
  then obtain c cs where r: "?r = c # cs" by (cases ?r) auto
  then have "\<not> isspace c" using hd_dropWhile [of isspace "ichars is"] by simp
  then have "ichars (snd (read_string is)) = dropWhile (\<lambda>c. \<not> isspace c) cs"
    using g r by (auto simp: read_string_def sentry_def Let_def)
  then have "length (ichars (snd (read_string is))) < length ?r" using length_dropWhile_le [of "\<lambda>c. \<not> isspace c" cs] r by simp
  then show ?thesis using length_dropWhile_le [of isspace "ichars is"] by linarith
qed

end
