(* ===== verification/Cash_Tx.thy ===== *)
theory Cash_Tx
  imports Streams
begin

text \<open>
  Transactions, \<open>src/gov/cash/tx.{h,cpp}\<close>: the message that is signed, the fee check, and the
  textual form that travels in datagrams. Amounts are 64-bit signed integers that wrap around.

  \<open>h.write(ts)\<close> in \<open>tx::write_sigmsg\<close> has no overload for \<open>uint64_t\<close> in \<open>sha256\<close>; the only viable one
  takes a \<open>ripemd160::value_type\<close>, built by its converting constructor from \<open>unsigned int\<close>. The
  model does the same conversion.

  The lemmas show the round trip of the textual form, what the fee check guarantees, what a
  signature covers, and two weaknesses: amounts that overflow pass the fee check, and only the
  low 32 bits of the timestamp are signed.
\<close>

section \<open>The code\<close>

record input_t =
  iaddress :: hash_t
  iamount :: int
  locking_program_input :: string

record output_t =
  oaddress :: hash_t
  oamount :: int
  olocking_program :: hash_t

record tx =
  inputs :: "input_t list"
  outputs :: "output_t list"
  ts :: u64

text \<open>Signature codes: \<open>sigcodes_t\<close> packs the one for inputs and the one for outputs.\<close>

type_synonym sigcode = byte
definition sigcode_all :: sigcode where "sigcode_all = 0"
definition sigcode_none :: sigcode where "sigcode_none = 1"
definition sigcode_this :: sigcode where "sigcode_this = 2"

definition combine :: "sigcode \<Rightarrow> sigcode \<Rightarrow> byte" where "combine i p = push_bit 4 i OR p"
definition sigcode_input :: "byte \<Rightarrow> sigcode" where "sigcode_input i = drop_bit 4 i"
definition sigcode_output :: "byte \<Rightarrow> sigcode" where "sigcode_output i = i AND 0x0f"
definition same_sigmsg_across_inputs :: "byte \<Rightarrow> bool" where
  "same_sigmsg_across_inputs i \<longleftrightarrow> sigcode_input i = sigcode_this \<or> sigcode_output i = sigcode_this"

definition add_input :: "tx \<Rightarrow> hash_t \<Rightarrow> int \<Rightarrow> string \<Rightarrow> tx" where
  "add_input t addr amount lpi =
     t\<lparr>inputs := inputs t @ [\<lparr>iaddress = addr, iamount = amount, locking_program_input = lpi\<rparr>]\<rparr>"

definition add_output :: "tx \<Rightarrow> hash_t \<Rightarrow> int \<Rightarrow> hash_t \<Rightarrow> tx" where
  "add_output t addr amount lp =
     t\<lparr>outputs := outputs t @ [\<lparr>oaddress = addr, oamount = amount, olocking_program = lp\<rparr>]\<rparr>"

subsection \<open>The signed message\<close>

text \<open>The eight bytes of a \<open>cash_t\<close> in memory.\<close>

definition cash_bytes :: "int \<Rightarrow> byte list" where "cash_bytes a = WriteLE64 (of_int a)"

definition input_write_sigmsg :: "sha256 \<Rightarrow> input_t \<Rightarrow> sha256" where
  "input_write_sigmsg st i = sha256_write (sha256_write st (hash_bytes (iaddress i))) (cash_bytes (iamount i))"

definition output_write_sigmsg :: "sha256 \<Rightarrow> output_t \<Rightarrow> sha256" where
  "output_write_sigmsg st p =
     sha256_write (sha256_write (sha256_write st (hash_bytes (oaddress p))) (cash_bytes (oamount p)))
       (hash_bytes (olocking_program p))"

text \<open>\<open>None\<close>: the code indexes the vector out of its bounds.\<close>

definition inputs_write_sigmsg :: "sha256 \<Rightarrow> input_t list \<Rightarrow> nat \<Rightarrow> sigcode \<Rightarrow> sha256 option" where
  "inputs_write_sigmsg st is this_index sc =
     (if sc = sigcode_all then Some (foldl input_write_sigmsg st is)
      else if this_index < length is then Some (input_write_sigmsg st (is ! this_index))
      else None)"

definition outputs_write_sigmsg :: "sha256 \<Rightarrow> output_t list \<Rightarrow> nat \<Rightarrow> sigcode \<Rightarrow> sha256" where
  "outputs_write_sigmsg st os this_index sc =
     (if sc = sigcode_all then foldl output_write_sigmsg st os
      else if sc = sigcode_this
      then (if this_index \<ge> length os then st else output_write_sigmsg st (os ! this_index))
      else st)"

definition tx_write_sigmsg :: "sha256 \<Rightarrow> tx \<Rightarrow> nat \<Rightarrow> byte \<Rightarrow> sha256 option" where
  "tx_write_sigmsg st t this_index scs =
     map_option
       (\<lambda>st. let st = outputs_write_sigmsg st (outputs t) this_index (sigcode_output scs)
             in sha256_write st (hash_bytes (hash_set (ucast (ts t)))))
       (inputs_write_sigmsg st (inputs t) this_index (sigcode_input scs))"

text \<open>\<open>get_hash\<close>; \<open>junk\<close> is what the buffer of the local hasher holds.\<close>

definition tx_get_hash :: "byte list \<Rightarrow> tx \<Rightarrow> nat \<Rightarrow> byte \<Rightarrow> byte list option" where
  "tx_get_hash junk t this_index sc =
     map_option (\<lambda>st. fst (sha256_finalize st)) (tx_write_sigmsg (sha256_new junk) t this_index sc)"

subsection \<open>The fee check\<close>

text \<open>One of the two loops of \<open>check\<close>; \<open>None\<close> is \<open>return -1\<close>.\<close>

fun sum_amounts :: "int \<Rightarrow> int list \<Rightarrow> int option" where
  "sum_amounts acc [] = Some acc"
| "sum_amounts acc (a # as) = (if a \<le> 0 then None else sum_amounts (wrap64 (acc + a)) as)"

definition tx_check :: "tx \<Rightarrow> int" where
  "tx_check t =
     (case sum_amounts 0 (map iamount (inputs t)) of
        None \<Rightarrow> -1
      | Some sum_inputs \<Rightarrow>
          (case sum_amounts 0 (map oamount (outputs t)) of
             None \<Rightarrow> -1
           | Some sum_outputs \<Rightarrow> wrap64 (sum_inputs - sum_outputs)))"

subsection \<open>Text\<close>

text \<open>\<open>b58::encode\<close> of a string; it never fails.\<close>

definition b58_text :: "string \<Rightarrow> string" where
  "b58_text s = (case encode_string s of Some r \<Rightarrow> r | None \<Rightarrow> [])"

definition input_write :: "input_t \<Rightarrow> string" where
  "input_write i = show_hash (iaddress i) @ '' '' @ show_int (iamount i) @ '' '' @
     b58_text (if locking_program_input i = [] then ''-'' else locking_program_input i) @ '' ''"

definition output_write :: "output_t \<Rightarrow> string" where
  "output_write p = show_hash (oaddress p) @ '' '' @ show_int (oamount p) @ '' '' @
     show_hash (olocking_program p) @ '' ''"

definition inputs_write :: "input_t list \<Rightarrow> string" where
  "inputs_write is = show_nat (length is) @ '' '' @ concat (map input_write is)"

definition outputs_write :: "output_t list \<Rightarrow> string" where
  "outputs_write os = show_nat (length os) @ '' '' @ concat (map output_write os)"

definition tx_write :: "tx \<Rightarrow> string" where
  "tx_write t = inputs_write (inputs t) @ outputs_write (outputs t) @ show_nat (unat (ts t)) @ '' ''"

definition tx_to_b58 :: "tx \<Rightarrow> string" where
  "tx_to_b58 t = b58_text (tx_write t)"

text \<open>
  Reading. When a number cannot be extracted the stream has failed, and an error is returned
  before the number is used; the value 0 stands for the untouched variable in that case.
\<close>

definition input_read :: "istream \<Rightarrow> (string + input_t) \<times> istream" where
  "input_read is =
     (let (address, is) = read_hash hash_zero is;
          (amount, is) = read_signed 64 is;
          (lpi_b58, is) = read_string is;
          lpi = decode_string lpi_b58;
          lpi = (if lpi = ''-'' then [] else lpi)
      in (if \<not> good is then Inl ''Error reading transaction input.''
          else Inr \<lparr>iaddress = address, iamount = (case amount of Some a \<Rightarrow> a | None \<Rightarrow> 0), locking_program_input = lpi\<rparr>, is))"

definition output_read :: "istream \<Rightarrow> (string + output_t) \<times> istream" where
  "output_read is =
     (let (address, is) = read_hash hash_zero is;
          (amount, is) = read_signed 64 is;
          (lp, is) = read_hash hash_zero is
      in (if \<not> good is then Inl ''Error reading transaction output.''
          else Inr \<lparr>oaddress = address, oamount = (case amount of Some a \<Rightarrow> a | None \<Rightarrow> 0), olocking_program = lp\<rparr>, is))"

text \<open>The loops reading \<open>n\<close> elements, stopping at the first error.\<close>

fun read_n :: "(istream \<Rightarrow> (string + 'a) \<times> istream) \<Rightarrow> nat \<Rightarrow> istream \<Rightarrow> (string + 'a list) \<times> istream" where
  "read_n rd 0 is = (Inr [], is)"
| "read_n rd (Suc n) is =
     (case rd is of
        (Inl e, is) \<Rightarrow> (Inl e, is)
      | (Inr x, is) \<Rightarrow>
          (case read_n rd n is of
             (Inl e, is) \<Rightarrow> (Inl e, is)
           | (Inr xs, is) \<Rightarrow> (Inr (x # xs), is)))"

text \<open>\<open>junk\<close> is the value of the uninitialised variable \<open>sz\<close>, kept when the stream is already bad.\<close>

definition inputs_read :: "nat \<Rightarrow> istream \<Rightarrow> (string + input_t list) \<times> istream" where
  "inputs_read junk is =
     (let (n, is) = read_unsigned 64 is;
          sz = (case n of Some n \<Rightarrow> n | None \<Rightarrow> junk)
      in if sz > 100 then (Inl ''Error. There is a limit of 100 inputs.'', is) else read_n input_read sz is)"

definition outputs_read :: "nat \<Rightarrow> istream \<Rightarrow> (string + output_t list) \<times> istream" where
  "outputs_read junk is =
     (let (n, is) = read_unsigned 64 is;
          sz = (case n of Some n \<Rightarrow> n | None \<Rightarrow> junk)
      in if sz > 100 then (Inl ''Error. There is a limit of 100 outputs.'', is) else read_n output_read sz is)"

definition tx_read :: "nat \<Rightarrow> nat \<Rightarrow> istream \<Rightarrow> string + tx" where
  "tx_read junk1 junk2 is =
     (case inputs_read junk1 is of
        (Inl e, is) \<Rightarrow> Inl e
      | (Inr ins, is) \<Rightarrow>
          (case outputs_read junk2 is of
             (Inl e, is) \<Rightarrow> Inl e
           | (Inr outs, is) \<Rightarrow>
               (let (v, is) = read_unsigned 64 is
                in if \<not> good is then Inl ''Unreadable timestamp''
                   else Inr \<lparr>inputs = ins, outputs = outs, ts = of_nat (case v of Some v \<Rightarrow> v | None \<Rightarrow> 0)\<rparr>)))"

definition tx_from_b58 :: "nat \<Rightarrow> nat \<Rightarrow> string \<Rightarrow> string + tx" where
  "tx_from_b58 junk1 junk2 s = tx_read junk1 junk2 (istr (decode_string s))"

section \<open>Round trip of the text\<close>

text \<open>
  A reader and a writer of elements that agree when the elements are separated by blanks; then
  the loops over a counted sequence agree too.
\<close>

locale text_codec =
  fixes wr :: "'a \<Rightarrow> string" and rd :: "istream \<Rightarrow> (string + 'a) \<times> istream" and wf :: "'a \<Rightarrow> bool"
  assumes read_written: "wf x \<Longrightarrow> rd (istr (CHR '' '' # wr x @ r)) = (Inr x, istr (CHR '' '' # r))"
begin

lemma read_n_written:
  "\<forall>x \<in> set xs. wf x \<Longrightarrow>
   read_n rd (length xs) (istr (CHR '' '' # concat (map wr xs) @ r)) = (Inr xs, istr (CHR '' '' # r))"
  by (induction xs) (simp_all add: read_written)

end

lemma token_alphabet: "set s \<subseteq> set pszBase58 \<Longrightarrow> s \<noteq> [] \<Longrightarrow> token s"
proof -
  have "\<forall>c \<in> set pszBase58. \<not> isspace c" by (simp add: pszBase58_def isspace_def)
  then show "set s \<subseteq> set pszBase58 \<Longrightarrow> s \<noteq> [] \<Longrightarrow> token s" by (auto simp: token_def)
qed

lemma b58_text_spec:
  obtains "decode_string (b58_text s) = c_str s" "s \<noteq> [] \<longrightarrow> token (b58_text s)" "set (b58_text s) \<subseteq> set pszBase58"
proof -
  obtain r where r: "encode (bytes_of_string s) = Some r" "decode r = Some (bytes_of_string s)"
      "set r \<subseteq> set pszBase58" "bytes_of_string s \<noteq> [] \<longrightarrow> r \<noteq> []"
    by (rule encode_text)
  have b: "b58_text s = r" using r(1) by (simp add: b58_text_def encode_string_def)
  have "string_of_bytes (bytes_of_string s @ [0]) = s @ [CHR 0x00]"
    using string_of_bytes_of_string [of s] by (simp add: string_of_bytes_def)
  then have "decode_string r = c_str s" using r(2) by (simp add: decode_string_def c_str_def takeWhile_append_stop)
  with b r(3,4) that token_alphabet show ?thesis by (simp add: bytes_of_string_def)
qed

lemma decode_b58_text [simp]: "decode_string (b58_text s) = c_str s"
  by (rule b58_text_spec)

lemma b58_text_alphabet: "set (b58_text s) \<subseteq> set pszBase58"
  by (rule b58_text_spec)

lemma token_b58_text [simp]: "s \<noteq> [] \<Longrightarrow> token (b58_text s)"
  using b58_text_spec by blast

definition wf_input :: "input_t \<Rightarrow> bool" where
  "wf_input i \<longleftrightarrow> in64 (iamount i) \<and> CHR 0x00 \<notin> set (locking_program_input i) \<and> locking_program_input i \<noteq> ''-''"

definition wf_output :: "output_t \<Rightarrow> bool" where
  "wf_output p \<longleftrightarrow> in64 (oamount p)"

definition wf_tx :: "tx \<Rightarrow> bool" where
  "wf_tx t \<longleftrightarrow> length (inputs t) \<le> 100 \<and> length (outputs t) \<le> 100
     \<and> (\<forall>i \<in> set (inputs t). wf_input i) \<and> (\<forall>p \<in> set (outputs t). wf_output p)"

lemma read_cash [stream_simps]:
  "in64 a \<Longrightarrow> isspace c \<Longrightarrow> read_signed 64 (istr (show_int a @ c # r)) = (Some a, istr (c # r))"
  by (rule read_signed_show) (simp_all add: in64_def)

interpretation input_codec: text_codec input_write input_read wf_input
proof
  fix i r
  assume wf: "wf_input i"
  show "input_read (istr (CHR '' '' # input_write i @ r)) = (Inr i, istr (CHR '' '' # r))"
  proof (cases "locking_program_input i = []")
    case True
    then show ?thesis using wf by (simp add: input_read_def input_write_def stream_simps wf_input_def c_str_def)
  next
    case False
    then show ?thesis using wf by (simp add: input_read_def input_write_def stream_simps wf_input_def)
  qed
qed

interpretation output_codec: text_codec output_write output_read wf_output
  by unfold_locales (simp add: output_read_def output_write_def stream_simps wf_output_def)

lemma inputs_read_written:
  assumes "length is \<le> 100" and "\<forall>i \<in> set is. wf_input i"
  shows "inputs_read junk (istr (inputs_write is @ r)) = (Inr is, istr (CHR '' '' # r))"
proof -
  have "length is < 2 ^ 64" using assms(1) by simp
  then show ?thesis
    using assms input_codec.read_n_written [of "is" r]
    by (simp add: inputs_read_def inputs_write_def read_unsigned_show)
qed

lemma outputs_read_written:
  assumes "length os \<le> 100" and "\<forall>i \<in> set os. wf_output i"
  shows "outputs_read junk (istr (CHR '' '' # outputs_write os @ r)) = (Inr os, istr (CHR '' '' # r))"
proof -
  have "length os < 2 ^ 64" using assms(1) by simp
  then show ?thesis
    using assms output_codec.read_n_written [of os r]
    by (simp add: outputs_read_def outputs_write_def read_skip read_unsigned_show)
qed

lemma tx_read_written:
  assumes "wf_tx t"
  shows "tx_read junk1 junk2 (istr (tx_write t)) = Inr t"
proof -
  have "unat (ts t) < 2 ^ 64" using unsigned_less [of "ts t"] by simp
  then show ?thesis
    using assms by (simp add: tx_read_def tx_write_def wf_tx_def inputs_read_written outputs_read_written stream_simps)
qed

text \<open>The text has no NUL character, so the detour through C strings loses nothing.\<close>

lemma show_hash_alphabet: "set (show_hash h) \<subseteq> set pszBase58"
  by (rule hash_text [of h]) (simp add: show_hash_def)

lemma no_nul [simp]:
  "CHR 0x00 \<notin> set (show_nat n)" "CHR 0x00 \<notin> set (show_int i)" "CHR 0x00 \<notin> set (show_hash h)"
  "CHR 0x00 \<notin> set (b58_text s)"
proof -
  show nat: "CHR 0x00 \<notin> set (show_nat n)" for n using show_nat_isdigit [of "CHR 0x00" n] by (auto simp: isdigit_def)
  show "CHR 0x00 \<notin> set (show_int i)" using nat by (simp add: show_int_def)
  have "CHR 0x00 \<notin> set pszBase58" by (simp add: pszBase58_def)
  then show "CHR 0x00 \<notin> set (show_hash h)" "CHR 0x00 \<notin> set (b58_text s)"
    using show_hash_alphabet b58_text_alphabet by blast+
qed

lemma no_nul_tx_write: "CHR 0x00 \<notin> set (tx_write t)"
  by (auto simp: tx_write_def inputs_write_def outputs_write_def input_write_def output_write_def)

section \<open>The signed message\<close>

definition input_sigbytes :: "input_t \<Rightarrow> byte list" where
  "input_sigbytes i = hash_bytes (iaddress i) @ cash_bytes (iamount i)"

definition output_sigbytes :: "output_t \<Rightarrow> byte list" where
  "output_sigbytes p = hash_bytes (oaddress p) @ cash_bytes (oamount p) @ hash_bytes (olocking_program p)"

definition sigmsg_bytes :: "tx \<Rightarrow> nat \<Rightarrow> byte \<Rightarrow> byte list" where
  "sigmsg_bytes t k sc =
     (if sigcode_input sc = sigcode_all then concat (map input_sigbytes (inputs t))
      else input_sigbytes (inputs t ! k)) @
     (if sigcode_output sc = sigcode_all then concat (map output_sigbytes (outputs t))
      else if sigcode_output sc = sigcode_this \<and> k < length (outputs t) then output_sigbytes (outputs t ! k)
      else []) @
     hash_bytes (hash_set (ucast (ts t)))"

abbreviation sha_holds :: "byte list \<Rightarrow> sha256 \<Rightarrow> bool" where
  "sha_holds \<equiv> absorbed sha256_transform sha256_initialize"

lemma holds_input: "sha_holds m st \<Longrightarrow> sha_holds (m @ input_sigbytes i) (input_write_sigmsg st i)"
  using sha.write_holds [OF sha.write_holds, of m st] by (simp add: input_write_sigmsg_def input_sigbytes_def)

lemma holds_output: "sha_holds m st \<Longrightarrow> sha_holds (m @ output_sigbytes p) (output_write_sigmsg st p)"
  using sha.write_holds [OF sha.write_holds [OF sha.write_holds], of m st]
  by (simp add: output_write_sigmsg_def output_sigbytes_def)

lemma holds_fold:
  assumes "\<And>m st x. sha_holds m st \<Longrightarrow> sha_holds (m @ f x) (g st x)" and "sha_holds m st"
  shows "sha_holds (m @ concat (map f xs)) (foldl g st xs)"
  using assms(2)
proof (induction xs arbitrary: m st)
  case (Cons x xs)
  then show ?case using Cons.IH [OF assms(1) [OF Cons.prems], of x] by simp
qed simp

lemma holds_inputs: "sha_holds m st \<Longrightarrow> sha_holds (m @ concat (map input_sigbytes is)) (foldl input_write_sigmsg st is)"
  by (rule holds_fold) (rule holds_input)

lemma holds_outputs: "sha_holds m st \<Longrightarrow> sha_holds (m @ concat (map output_sigbytes os)) (foldl output_write_sigmsg st os)"
  by (rule holds_fold) (rule holds_output)

lemma get_hash_sigmsg:
  assumes "length junk = 64" and "sigcode_input sc = sigcode_all \<or> k < length (inputs t)"
  shows "tx_get_hash junk t k sc = Some (fips_sha256 (sigmsg_bytes t k sc))"
proof -
  define mi where "mi = (if sigcode_input sc = sigcode_all then concat (map input_sigbytes (inputs t))
      else input_sigbytes (inputs t ! k))"
  define mo where "mo = (if sigcode_output sc = sigcode_all then concat (map output_sigbytes (outputs t))
      else if sigcode_output sc = sigcode_this \<and> k < length (outputs t) then output_sigbytes (outputs t ! k) else [])"
  note new = sha256_new_holds [OF assms(1)]
  obtain st where st: "inputs_write_sigmsg (sha256_new junk) (inputs t) k (sigcode_input sc) = Some st"
      and sti: "sha_holds mi st"
    using assms(2) holds_inputs [OF new, of "inputs t"] holds_input [OF new]
    by (cases "sigcode_input sc = sigcode_all") (simp_all add: inputs_write_sigmsg_def mi_def)
  have "sha_holds (mi @ mo) (outputs_write_sigmsg st (outputs t) k (sigcode_output sc))"
    using holds_outputs [OF sti, of "outputs t"] holds_output [OF sti] sti
    by (simp add: outputs_write_sigmsg_def mo_def)
  from sha.finalize_digest [OF sha.write_holds [OF this, of "hash_bytes (hash_set (ucast (ts t)))"]]
  show ?thesis by (simp add: tx_get_hash_def tx_write_sigmsg_def st std_digest_fips sigmsg_bytes_def mi_def mo_def)
qed

lemma WriteLE64_inject [simp]: "WriteLE64 x = WriteLE64 y \<longleftrightarrow> x = y"
proof
  assume "WriteLE64 x = WriteLE64 y"
  moreover have "unat x < 256 ^ 8" "unat y < 256 ^ 8" using unsigned_less [of x] unsigned_less [of y] by simp_all
  ultimately show "x = y" unfolding WriteLE64_def using read_le_write_le by metis
qed simp

lemma cash_bytes_inject: "in64 a \<Longrightarrow> in64 b \<Longrightarrow> cash_bytes a = cash_bytes b \<longleftrightarrow> a = b"
proof
  assume ab: "in64 a" "in64 b" and "cash_bytes a = cash_bytes b"
  then have "(of_int a :: u64) = of_int b" by (simp add: cash_bytes_def)
  then have "a mod 2 ^ 64 = b mod 2 ^ 64" by (simp add: word_of_int_eq_iff take_bit_eq_mod)
  then show "a = b" using wrap64_cong [of a b] ab by simp
qed simp

lemma length_cash_bytes [simp]: "length (cash_bytes a) = 8"
  by (simp add: cash_bytes_def WriteLE64_def)

lemma length_sigbytes [simp]: "length (input_sigbytes i) = 28" "length (output_sigbytes p) = 48"
  by (simp_all add: input_sigbytes_def output_sigbytes_def)

lemma concat_map_inject:
  assumes "\<And>x. length (f x) = n" and "concat (map f xs) @ r = concat (map f ys) @ r'" and "length xs = length ys"
  shows "map f xs = map f ys \<and> r = r'"
  using assms(3,2) by (induction rule: list_induct2) (simp_all add: assms(1))

text \<open>What of a transaction a signature over all inputs and outputs fixes.\<close>

lemma sigbytes_inject:
  assumes "in64 (iamount i)" "in64 (iamount j)" "input_sigbytes i = input_sigbytes j"
  shows "iaddress i = iaddress j \<and> iamount i = iamount j"
  using assms by (simp add: input_sigbytes_def cash_bytes_inject)

lemma output_sigbytes_inject:
  assumes "in64 (oamount p)" "in64 (oamount q)" "output_sigbytes p = output_sigbytes q"
  shows "p = q"
  using assms by (simp add: output_sigbytes_def cash_bytes_inject)

section \<open>The fee check\<close>

lemma sum_amounts_eq:
  "sum_amounts acc as = (if \<exists>a \<in> set as. a \<le> 0 then None else Some (if as = [] then acc else wrap64 (acc + sum_list as)))"
  by (induction as arbitrary: acc) (auto simp: wrap_simps add.assoc)

lemma wrap64_wrap64_diff: "wrap64 (wrap64 x - wrap64 y) = wrap64 (x - y)"
  by (simp add: wrap64_diff_left wrap64_diff_right)

lemma tx_check_eq:
  "tx_check t =
     (if \<exists>a \<in> set (map iamount (inputs t) @ map oamount (outputs t)). a \<le> 0 then - 1
      else wrap64 (sum_list (map iamount (inputs t)) - sum_list (map oamount (outputs t))))"
  by (auto simp: tx_check_def sum_amounts_eq wrap64_wrap64_diff wrap64_diff_left wrap64_diff_right)

section \<open>Properties\<close>

text \<open>
  C32. A transaction survives its textual form: what \<open>from_b58\<close> reads from the output of
  \<open>to_b58\<close> is the transaction, whatever the uninitialised variables hold. The conditions are
  the limits of the reader and, for the unlocking data, no NUL character and not the single
  character that stands for the empty string.
\<close>

theorem tx_roundtrip:
  assumes "wf_tx t"
  shows "tx_from_b58 junk1 junk2 (tx_to_b58 t) = Inr t"
  using assms no_nul_tx_write [of t] by (simp add: tx_from_b58_def tx_to_b58_def tx_read_written)

theorem tx_roundtrip_witness:
  "let t = \<lparr>inputs = [\<lparr>iaddress = Hash 1 2 3, iamount = 5, locking_program_input = ''sig 0 key''\<rparr>],
            outputs = [\<lparr>oaddress = Hash 4 5 6, oamount = 4, olocking_program = Hash 0 0 1\<rparr>], ts = 77\<rparr>
   in tx_from_b58 99 98 (tx_to_b58 t) = Inr t"
  unfolding Let_def by (rule tx_roundtrip) (simp add: wf_tx_def wf_input_def wf_output_def in64_def)

lemma read_n_bad:
  assumes "\<And>is. \<not> good is \<Longrightarrow> \<exists>e is'. rd is = (Inl e, is')" and "\<not> good is"
  shows "(\<exists>e is'. read_n rd n is = (Inl e, is')) \<or> read_n rd n is = (Inr [], is)"
  using assms(1) [OF assms(2)] by (cases n) auto

lemma input_read_bad: "\<not> good is \<Longrightarrow> \<exists>e is'. input_read is = (Inl e, is')"
  using read_bad(4) [of "is" hash_zero] by (cases "read_hash hash_zero is") (simp add: input_read_def read_bad)

lemma output_read_bad: "\<not> good is \<Longrightarrow> \<exists>e is'. output_read is = (Inl e, is')"
proof -
  assume "\<not> good is"
  then obtain a is1 where 1: "read_hash hash_zero is = (a, is1)" "\<not> good is1"
    using read_bad(4) [of "is" hash_zero] by (cases "read_hash hash_zero is") simp
  obtain b is2 where 2: "read_hash hash_zero (setfail is1) = (b, is2)" "\<not> good is2"
    using read_bad(4) [of "setfail is1" hash_zero] by (cases "read_hash hash_zero (setfail is1)") simp
  show ?thesis by (simp add: output_read_def 1 2 read_bad)
qed

lemma tx_read_bad:
  assumes "\<not> good is"
  shows "\<exists>e. tx_read junk1 junk2 is = Inl e"
proof -
  have bad: "\<not> good (setfail is)" for "is" by simp
  have "(\<exists>e is'. inputs_read junk1 is = (Inl e, is')) \<or> inputs_read junk1 is = (Inr [], setfail is)"
    using read_n_bad [of input_read "setfail is" junk1, OF input_read_bad bad]
    by (auto simp: inputs_read_def read_bad [OF assms])
  moreover have "(\<exists>e is'. outputs_read junk2 (setfail is) = (Inl e, is'))
      \<or> outputs_read junk2 (setfail is) = (Inr [], setfail (setfail is))"
    using read_n_bad [of output_read "setfail (setfail is)" junk2, OF output_read_bad bad]
    by (auto simp: outputs_read_def read_bad [OF bad])
  ultimately show ?thesis by (auto simp: tx_read_def read_bad [OF bad])
qed

text \<open>
  A text that does not decode, or decodes to nothing, is always refused, whatever the
  variable \<open>sz\<close>, which is read uninitialised then, happens to hold.
\<close>

theorem tx_garbage_refused:
  assumes "decode_string s = []"
  shows "\<exists>e. tx_from_b58 junk1 junk2 s = Inl e"
proof -
  have r: "read_unsigned 64 (istr []) = (None, \<lparr>ichars = [], ieof = True, ifail = True\<rparr>)"
    by (simp add: read_unsigned_def read_digits_def sentry_def)
  have bad: "\<not> good \<lparr>ichars = [], ieof = True, ifail = True\<rparr>" by (simp add: good_def)
  have "setfail \<lparr>ichars = [], ieof = True, ifail = True\<rparr> = \<lparr>ichars = [], ieof = True, ifail = True\<rparr>"
    by (simp add: setfail_def)
  then have "inputs_read junk1 (istr []) = inputs_read junk1 \<lparr>ichars = [], ieof = True, ifail = True\<rparr>"
    by (simp add: inputs_read_def r read_bad(3) [OF bad])
  then have "tx_read junk1 junk2 (istr []) = tx_read junk1 junk2 \<lparr>ichars = [], ieof = True, ifail = True\<rparr>"
    by (simp add: tx_read_def)
  then show ?thesis using tx_read_bad [OF bad] by (simp add: tx_from_b58_def assms)
qed

theorem tx_garbage_refused_witness: "\<exists>e. tx_from_b58 0 77 ''0OIl'' = Inl e"
  by (rule tx_garbage_refused) code_simp

text \<open>
  The fee check: it returns -1 exactly for a transaction with an amount that is not positive,
  and when neither sum exceeds the range of \<open>cash_t\<close> any other result is the exact difference of
  inputs and outputs.
\<close>

theorem tx_check_exact:
  assumes "sum_list (map iamount (inputs t)) < 2 ^ 63" and "sum_list (map oamount (outputs t)) < 2 ^ 63"
  shows "tx_check t =
    (if \<forall>a \<in> set (map iamount (inputs t) @ map oamount (outputs t)). 0 < a
     then sum_list (map iamount (inputs t)) - sum_list (map oamount (outputs t)) else - 1)"
proof (cases "\<forall>a \<in> set (map iamount (inputs t) @ map oamount (outputs t)). 0 < a")
  case True
  then have "0 \<le> sum_list (map iamount (inputs t))" "0 \<le> sum_list (map oamount (outputs t))"
    by (auto intro!: sum_list_nonneg simp: less_imp_le)
  with assms have "in64 (sum_list (map iamount (inputs t)) - sum_list (map oamount (outputs t)))"
    by (simp add: in64_def)
  moreover have "\<not> (\<exists>a \<in> set (map iamount (inputs t) @ map oamount (outputs t)). a \<le> 0)" using True by (meson not_le)
  ultimately show ?thesis unfolding tx_check_eq by (simp only: if_False if_P [OF True] wrap64_id)
next
  case False
  then have "\<exists>a \<in> set (map iamount (inputs t) @ map oamount (outputs t)). a \<le> 0" by (meson not_le)
  then show ?thesis unfolding tx_check_eq by (simp only: if_True if_not_P [OF False])
qed

theorem tx_check_exact_witness:
  "tx_check \<lparr>inputs = [\<lparr>iaddress = hash_zero, iamount = 7, locking_program_input = []\<rparr>],
     outputs = [\<lparr>oaddress = hash_zero, oamount = 5, olocking_program = hash_zero\<rparr>], ts = 0\<rparr> = 2"
  using tx_check_exact [of "\<lparr>inputs = [\<lparr>iaddress = hash_zero, iamount = 7, locking_program_input = []\<rparr>],
     outputs = [\<lparr>oaddress = hash_zero, oamount = 5, olocking_program = hash_zero\<rparr>], ts = 0\<rparr>"] by simp

text \<open>
  Without that bound the check is unsound: a transaction that the reader accepts spends 2 and
  creates more than \<open>2 ^ 64\<close>, and the check computes a fee of 1.
\<close>

theorem tx_check_overflow:
  "\<exists>t. wf_tx t \<and> tx_check t = 1 \<and> sum_list (map iamount (inputs t)) = 2 \<and> sum_list (map oamount (outputs t)) > 2 ^ 64"
proof -
  let ?o = "\<lambda>a. \<lparr>oaddress = hash_zero, oamount = a, olocking_program = hash_zero\<rparr>"
  let ?t = "\<lparr>inputs = [\<lparr>iaddress = hash_zero, iamount = 2, locking_program_input = []\<rparr>],
    outputs = [?o (2 ^ 63 - 1), ?o (2 ^ 63 - 1), ?o 3], ts = 0\<rparr>"
  have "wf_tx ?t" "tx_check ?t = 1" "sum_list (map iamount (inputs ?t)) = 2" "sum_list (map oamount (outputs ?t)) > 2 ^ 64"
    by (simp_all add: wf_tx_def wf_input_def wf_output_def in64_def tx_check_eq wrap64_def)
  then show ?thesis by blast
qed



text \<open>
  The timestamp is not covered: transactions that differ only in the upper 32 bits of the
  timestamp have the same signed hash for every input and every signature code, so that the
  signatures of one are valid for the other.
\<close>

theorem sighash_ignores_high_timestamp:
  "tx_get_hash junk (t\<lparr>ts := x\<rparr>) k sc = tx_get_hash junk (t\<lparr>ts := x + push_bit 32 y\<rparr>) k sc"
proof -
  have lo: "uint (ucast z :: u32) = uint z mod 2 ^ 32" for z :: u64
    by (simp add: unsigned_ucast_eq take_bit_eq_mod)
  have "uint (x + push_bit 32 y) = (uint x + uint y * 2 ^ 32) mod 2 ^ 64"
    by (simp add: push_bit_eq_mult uint_word_ariths mod_simps)
  moreover have "(2 :: int) ^ 32 dvd 2 ^ 64" by (simp add: dvd_def)
  ultimately have "uint (x + push_bit 32 y) mod 2 ^ 32 = uint x mod 2 ^ 32"
    by (simp add: mod_mod_cancel)
  then have "(ucast (x + push_bit 32 y) :: u32) = ucast x"
    unfolding lo [symmetric] by (rule word_uint_eqI)
  then show ?thesis by (simp add: tx_get_hash_def tx_write_sigmsg_def)
qed

end
