(* ===== verification/Ordered_Map.thy ===== *)
theory Ordered_Map
  imports Main
begin

text \<open>
  \<open>std::map\<close> as the program uses it: an association list with strictly increasing keys, so that
  iteration is in key order and every operation is executable. The interface is the locale
  \<open>finite_map\<close>, interpreted on these definitions. Unordered maps are modelled by the same type;
  where their iteration order could matter, the component says so.
\<close>

section \<open>Operations\<close>

type_synonym ('k, 'v) omap = "('k \<times> 'v) list"

definition om_empty :: "('k, 'v) omap" where "om_empty = []"

text \<open>\<open>find\<close>; \<open>None\<close> is \<open>end()\<close>.\<close>

definition om_find :: "('k, 'v) omap \<Rightarrow> 'k \<Rightarrow> 'v option" where
  "om_find m k = map_of m k"

text \<open>Insertion, replacing the value of an existing key.\<close>

fun om_set :: "'k::linorder \<Rightarrow> 'v \<Rightarrow> ('k, 'v) omap \<Rightarrow> ('k, 'v) omap" where
  "om_set k v [] = [(k, v)]"
| "om_set k v ((k', v') # m) =
     (if k < k' then (k, v) # (k', v') # m
      else if k = k' then (k, v) # m
      else (k', v') # om_set k v m)"

text \<open>\<open>emplace\<close> does nothing when the key is present.\<close>

definition om_emplace :: "'k::linorder \<Rightarrow> 'v \<Rightarrow> ('k, 'v) omap \<Rightarrow> ('k, 'v) omap" where
  "om_emplace k v m = (case om_find m k of None \<Rightarrow> om_set k v m | Some _ \<Rightarrow> m)"

definition om_erase :: "'k \<Rightarrow> ('k, 'v) omap \<Rightarrow> ('k, 'v) omap" where
  "om_erase k m = filter (\<lambda>(k', v). k' \<noteq> k) m"

definition om_ok :: "('k::linorder, 'v) omap \<Rightarrow> bool" where
  "om_ok m \<longleftrightarrow> sorted_wrt (<) (map fst m)"

section \<open>The contract of a map\<close>

locale finite_map =
  fixes ok :: "'m \<Rightarrow> bool" and empty :: 'm and find :: "'m \<Rightarrow> 'k \<Rightarrow> 'v option"
    and set :: "'k \<Rightarrow> 'v \<Rightarrow> 'm \<Rightarrow> 'm" and erase :: "'k \<Rightarrow> 'm \<Rightarrow> 'm"
  assumes ok_empty: "ok empty"
    and ok_set: "ok m \<Longrightarrow> ok (set k v m)"
    and ok_erase: "ok m \<Longrightarrow> ok (erase k m)"
    and find_empty: "find empty k = None"
    and find_set: "ok m \<Longrightarrow> find (set k v m) k' = (if k' = k then Some v else find m k')"
    and find_erase: "ok m \<Longrightarrow> find (erase k m) k' = (if k' = k then None else find m k')"
    and finite_keys: "finite {k. find m k \<noteq> None}"
begin

lemma ok_sets: "ok m \<Longrightarrow> ok (foldl (\<lambda>m (k, v). set k v m) m kvs)"
  by (induction kvs arbitrary: m) (auto simp: ok_set)

text \<open>Storing a sequence of entries with distinct keys, in any order.\<close>

lemma find_sets:
  "ok m \<Longrightarrow> distinct (map fst kvs) \<Longrightarrow>
   find (foldl (\<lambda>m (k, v). set k v m) m kvs) k' = (case map_of kvs k' of Some v \<Rightarrow> Some v | None \<Rightarrow> find m k')"
proof (induction kvs arbitrary: m)
  case (Cons kv kvs)
  obtain k v where kv: "kv = (k, v)" by (cases kv)
  have "map_of kvs k = None" using Cons.prems(2) kv by (simp add: map_of_eq_None_iff)
  then show ?case using Cons kv by (auto simp: ok_set find_set split: option.splits)
qed simp

end

section \<open>The association lists satisfy it\<close>

lemma om_set_keys: "fst ` set (om_set k v m) = insert k (fst ` set m)"
  by (induction k v m rule: om_set.induct) auto

lemma om_ok_Nil [simp]: "om_ok []"
  by (simp add: om_ok_def)

lemma om_ok_Cons: "om_ok ((k, v) # m) \<longleftrightarrow> om_ok m \<and> (\<forall>k' \<in> fst ` set m. k < k')"
  by (auto simp: om_ok_def)

lemma om_ok_set: "om_ok m \<Longrightarrow> om_ok (om_set k v m)"
  by (induction k v m rule: om_set.induct) (auto simp: om_ok_Cons om_set_keys)

lemma om_find_set: "om_ok m \<Longrightarrow> om_find (om_set k v m) k' = (if k' = k then Some v else om_find m k')"
  unfolding om_find_def
proof (induction k v m rule: om_set.induct)
  case (2 k v k1 v1 m)
  then show ?case by (auto simp: om_ok_Cons)
qed auto

lemma om_ok_erase: "om_ok m \<Longrightarrow> om_ok (om_erase k m)"
  unfolding om_ok_def om_erase_def by (induction m) auto

lemma om_find_erase: "om_find (om_erase k m) k' = (if k' = k then None else om_find m k')"
  unfolding om_find_def om_erase_def by (induction m) auto

interpretation om: finite_map om_ok om_empty om_find om_set om_erase
proof
  show "finite {k. om_find m k \<noteq> None}" for m :: "('a, 'b) omap"
    unfolding om_find_def using finite_dom_map_of [of m] by (simp add: dom_def)
qed (simp_all add: om_ok_set om_ok_erase om_find_set om_find_erase, simp_all add: om_ok_def om_empty_def om_find_def)

lemma om_ok_distinct: "om_ok m \<Longrightarrow> distinct (map fst m)"
  unfolding om_ok_def using strict_sorted_iff by blast

lemma om_find_None: "om_find m k = None \<longleftrightarrow> k \<notin> fst ` set m"
  by (simp add: om_find_def map_of_eq_None_iff)

lemma om_ok_emplace: "om_ok m \<Longrightarrow> om_ok (om_emplace k v m)"
  by (auto simp: om_emplace_def om_ok_set split: option.splits)

lemma om_find_emplace:
  "om_ok m \<Longrightarrow> om_find (om_emplace k v m) k' =
     (if k' = k \<and> om_find m k = None then Some v else om_find m k')"
  by (auto simp: om_emplace_def om_find_set split: option.splits)

text \<open>Two maps with the same entries are equal: iteration order is determined.\<close>

lemma om_ext: "om_ok m \<Longrightarrow> om_ok m' \<Longrightarrow> (\<And>k. om_find m k = om_find m' k) \<Longrightarrow> m = m'"
proof (induction m arbitrary: m')
  case Nil
  then show ?case by (cases m') (auto simp: om_find_def, metis option.distinct(1))
next
  case (Cons kv m)
  obtain k v where kv: "kv = (k, v)" by (cases kv)
  obtain k1 v1 m1 where m': "m' = (k1, v1) # m1"
    using Cons.prems(3) [of k] kv by (cases m') (auto simp: om_find_def)
  have "k = k1"
  proof (rule ccontr)
    assume ne: "k \<noteq> k1"
    have "k1 \<in> fst ` set m" and "k \<in> fst ` set m1"
      using Cons.prems(3) [of k1] Cons.prems(3) [of k] ne om_find_None [of m k1] om_find_None [of m1 k]
      by (auto simp: kv m' om_find_def)
    then have "k < k1" "k1 < k" using Cons.prems(1,2) by (auto simp: kv m' om_ok_Cons)
    then show False by simp
  qed
  moreover have "v = v1" using Cons.prems(3) [of k] calculation by (simp add: kv m' om_find_def)
  moreover have "m = m1"
  proof (rule Cons.IH)
    fix x
    show "om_find m x = om_find m1 x"
    proof (cases "x = k")
      case True
      then have "om_find m x = None" "om_find m1 x = None"
        using Cons.prems(1,2) \<open>k = k1\<close> by (auto simp: kv m' om_ok_Cons om_find_None)
      then show ?thesis by simp
    next
      case False
      then show ?thesis using Cons.prems(3) [of x] \<open>k = k1\<close> by (simp add: kv m' om_find_def)
    qed
  qed (use Cons.prems(1,2) in \<open>simp_all add: kv m' om_ok_Cons\<close>)
  ultimately show ?case by (simp add: kv m')
qed

text \<open>A sum over the values of a map.\<close>

definition om_sum :: "('v \<Rightarrow> int) \<Rightarrow> ('k, 'v) omap \<Rightarrow> int" where
  "om_sum f m = (\<Sum>(k, v) \<leftarrow> m. f v)"

lemma om_sum_simps [simp]: "om_sum f [] = 0" "om_sum f ((k, v) # m) = f v + om_sum f m"
  by (simp_all add: om_sum_def)

lemma om_sum_set:
  "om_ok m \<Longrightarrow> om_sum f (om_set k v m) = om_sum f m + f v - (case om_find m k of Some v' \<Rightarrow> f v' | None \<Rightarrow> 0)"
proof (induction k v m rule: om_set.induct)
  case (2 k v k1 v1 m)
  show ?case
  proof (cases "k < k1")
    case True
    then have "om_find ((k1, v1) # m) k = None" using 2(2) by (auto simp: om_find_None om_ok_Cons)
    then show ?thesis using True by simp
  next
    case False
    then show ?thesis using 2 by (auto simp: om_ok_Cons om_find_def)
  qed
qed (simp add: om_find_def)

lemma om_sum_erase:
  "om_ok m \<Longrightarrow> om_sum f (om_erase k m) = om_sum f m - (case om_find m k of Some v' \<Rightarrow> f v' | None \<Rightarrow> 0)"
proof (induction m)
  case (Cons kv m)
  obtain k1 v1 where kv: "kv = (k1, v1)" by (cases kv)
  show ?case
  proof (cases "k1 = k")
    case True
    then have "k \<notin> fst ` set m" using Cons.prems by (auto simp: kv om_ok_Cons)
    then have "om_erase k m = m" unfolding om_erase_def by (intro filter_True) force
    then show ?thesis using True by (simp add: kv om_erase_def om_find_def)
  next
    case False
    then show ?thesis using Cons by (simp add: kv om_ok_Cons om_erase_def om_find_def)
  qed
qed (simp add: om_erase_def om_find_def)

end
