(* ===== verification/Doubles.thy ===== *)
theory Doubles
  imports Complex_Main "HOL-Library.Log_Nat"
begin

text \<open>
  The values of C++ \<open>double\<close>s that the program computes with: rational numbers, where every
  operation is rounded to 53 significant bits, to nearest, ties to even. The range of exponents is
  not limited, so that infinities, NaN and subnormal numbers are outside of the model.
\<close>

definition round_even :: "rat \<Rightarrow> int" where
  "round_even x =
     (let n = \<lfloor>x\<rfloor>; r = x - of_int n
      in if r < 1 / 2 then n else if r > 1 / 2 then n + 1 else if even n then n else n + 1)"

definition pow2 :: "int \<Rightarrow> rat" where
  "pow2 e = (if 0 \<le> e then 2 ^ nat e else 1 / 2 ^ nat (- e))"

text \<open>The exponent of the last place of the double nearest to \<open>x\<close>, which is positive.\<close>

definition ulp_exp :: "rat \<Rightarrow> int" where
  "ulp_exp x =
     (let (p, q) = quotient_of x; e = bitlen p - bitlen q - 53
      in if x / pow2 e \<ge> 2 ^ 53 then e + 1 else e)"

definition fl :: "rat \<Rightarrow> rat" where
  "fl x =
     (if x = 0 then 0
      else let e = ulp_exp \<bar>x\<bar> in sgn x * of_int (round_even (\<bar>x\<bar> / pow2 e)) * pow2 e)"

text \<open>Conversion of a \<open>double\<close> to an integer type drops the fraction.\<close>

definition dtrunc :: "rat \<Rightarrow> int" where
  "dtrunc x = (if 0 \<le> x then \<lfloor>x\<rfloor> else \<lceil>x\<rceil>)"

section \<open>The rounding error\<close>

lemma round_even_error: "\<bar>of_int (round_even x) - x\<bar> \<le> 1 / 2"
proof -
  have "of_int \<lfloor>x\<rfloor> \<le> x" "x < of_int \<lfloor>x\<rfloor> + 1" by linarith+
  then show ?thesis by (auto simp: round_even_def Let_def)
qed

lemma pow2_pos [simp]: "0 < pow2 e"
  by (simp add: pow2_def)

lemma pow2_add: "pow2 (a + b) = pow2 a * pow2 b"
proof -
  have "pow2 e = 2 powi e" for e
    by (simp add: pow2_def power_int_def field_simps)
  then show ?thesis by (simp add: power_int_add)
qed

lemma pow2_nat: "pow2 (int n) = 2 ^ n"
  by (simp add: pow2_def)

lemma quotient_bounds:
  assumes "0 < x" "quotient_of x = (p, q)"
  shows "pow2 (bitlen p - bitlen q - 1) < x"
proof -
  have q: "0 < q" using assms(2) by (rule quotient_of_denom_pos)
  have x: "x = of_int p / of_int q" using assms(2) by (rule quotient_of_div)
  have p: "0 < p" using assms(1) q unfolding x by (simp add: zero_less_divide_iff)
  have bp: "2 ^ nat (bitlen p - 1) \<le> p" using bitlen_bounds [OF p] by simp
  have bq: "q < 2 ^ nat (bitlen q)" using bitlen_bounds [OF q] by simp
  have pos: "1 \<le> bitlen p" "0 \<le> bitlen q"
    using p bitlen_nonneg [of q] bitlen_nonneg [of p] bitlen_eq_zero_iff [of p] by linarith+
  have "(of_int q :: rat) < of_int (2 ^ nat (bitlen q))" using bq by (simp only: of_int_less_iff)
  then have "pow2 (bitlen p - bitlen q - 1) * of_int q < pow2 (bitlen p - bitlen q - 1) * 2 ^ nat (bitlen q)"
    using mult_strict_left_mono [OF _ pow2_pos] by (simp only: of_int_power of_int_numeral)
  also have "\<dots> = pow2 (bitlen p - bitlen q - 1) * pow2 (bitlen q)"
    using pos(2) by (simp add: pow2_def)
  also have "\<dots> = pow2 (bitlen p - 1)" unfolding pow2_add [symmetric] by simp
  also have "\<dots> = of_int (2 ^ nat (bitlen p - 1))" using pos(1) by (simp add: pow2_def)
  also have "\<dots> \<le> of_int p" using bp by (simp only: of_int_le_iff)
  finally show ?thesis using q by (simp add: x pos_less_divide_eq)
qed

lemma ulp_exp_bound: "0 < x \<Longrightarrow> 2 ^ 52 * pow2 (ulp_exp x) \<le> x"
proof -
  assume x: "0 < x"
  obtain p q where pq: "quotient_of x = (p, q)" by (cases "quotient_of x")
  let ?e = "bitlen p - bitlen q - 53"
  show ?thesis
  proof (cases "x / pow2 ?e \<ge> 2 ^ 53")
    case True
    then have "2 ^ 53 * pow2 ?e \<le> x" by (simp add: pos_le_divide_eq)
    moreover have "pow2 (?e + 1) = 2 * pow2 ?e" using pow2_add [of ?e 1] by (simp add: pow2_def [of 1])
    moreover have "ulp_exp x = ?e + 1" using True by (simp add: ulp_exp_def pq)
    ultimately show ?thesis by simp
  next
    case False
    have "pow2 (52 + ?e) = pow2 52 * pow2 ?e" by (rule pow2_add)
    moreover have "pow2 52 = 2 ^ 52" by (simp add: pow2_def)
    moreover have "52 + ?e = bitlen p - bitlen q - 1" by simp
    ultimately show ?thesis using quotient_bounds [OF x pq] False by (simp add: ulp_exp_def pq)
  qed
qed

lemma fl_error: "\<bar>fl x - x\<bar> \<le> \<bar>x\<bar> / 2 ^ 53"
proof (cases "x = 0")
  case False
  let ?e = "ulp_exp \<bar>x\<bar>" and ?y = "\<bar>x\<bar> / pow2 (ulp_exp \<bar>x\<bar>)"
  have x: "x = sgn x * (?y * pow2 ?e)" by (simp add: abs_sgn sgn_mult_abs less_imp_neq [OF pow2_pos, symmetric] mult.commute)
  have "fl x = sgn x * (of_int (round_even ?y) * pow2 ?e)" using False by (simp add: fl_def Let_def)
  then have "fl x - x = sgn x * ((of_int (round_even ?y) - ?y) * pow2 ?e)"
    using x by (metis left_diff_distrib right_diff_distrib)
  then have "\<bar>fl x - x\<bar> = \<bar>of_int (round_even ?y) - ?y\<bar> * pow2 ?e"
    using False by (simp add: abs_mult abs_sgn_eq abs_of_pos)
  also have "\<dots> \<le> 1 / 2 * pow2 ?e" using round_even_error [of ?y] by (intro mult_right_mono) (simp_all add: less_imp_le)
  also have "\<dots> \<le> \<bar>x\<bar> / 2 ^ 53" using ulp_exp_bound [of "\<bar>x\<bar>"] False by simp
  finally show ?thesis .
qed (simp add: fl_def)

lemma fl_upper: "0 \<le> x \<Longrightarrow> fl x \<le> x + x / 2 ^ 53"
  using fl_error [of x] by linarith

lemma fl_nonneg: "0 \<le> x \<Longrightarrow> 0 \<le> fl x"
proof -
  assume x: "0 \<le> x"
  then have "x / 2 ^ 53 \<le> x" by simp
  then show ?thesis using fl_error [of x] x by linarith
qed

lemma fl_pos: "0 < x \<Longrightarrow> 0 < fl x"
proof -
  assume x: "0 < x"
  then have "x / 2 ^ 53 < x" by simp
  then show ?thesis using fl_error [of x] x by linarith
qed

text \<open>Integers that fit into 53 bits are exact.\<close>

lemma fl_of_int_exact:
  assumes "0 \<le> n" "n < 2 ^ 53"
  shows "fl (of_int n) = of_int n"
proof (cases "n = 0")
  case False
  then have n: "0 < n" using assms by simp
  have "ulp_exp (of_int n) \<le> 0"
  proof -
    have "bitlen n \<le> 53" using assms by (simp add: bitlen_le_iff_power)
    moreover have "bitlen 1 = 1" by (simp add: bitlen_def floorlog_def)
    ultimately show ?thesis by (auto simp: ulp_exp_def quotient_of_int [unfolded Rat.of_int_def] Let_def)
  qed
  then obtain k where k: "ulp_exp (of_int n) = - int k" by (rule nonpos_int_cases)
  have p: "pow2 (- int k) = 1 / 2 ^ k" by (simp add: pow2_def)
  have "round_even (of_int (n * 2 ^ k)) = n * 2 ^ k" by (simp only: round_even_def floor_of_int Let_def) simp
  then show ?thesis using n by (simp add: fl_def Let_def k p)
qed (simp add: fl_def)

end
