(* ===== verification/Mergers.thy ===== *)
theory Mergers
  imports Doubles
begin

text \<open>
  The merging templates of \<open>src/gov/engine/app.h\<close>, with which the local deltas of the nodes become
  one delta: \<open>average_merger\<close> for policy values and \<open>majority_merger\<close> for everything that has to be
  agreed on literally, and \<open>policies_delta\<close>, which counts what it merges.

  The table of \<open>majority_merger\<close> is an \<open>unordered_map\<close>: the model keeps its entries in some order,
  and the key equality of the table is a parameter. The lemmas show that the counts are the
  numbers of votes, that the chosen entry has the most votes, and that an absolute majority wins
  in whatever order the table is iterated.
\<close>

section \<open>The code\<close>

definition average_merge :: "rat \<Rightarrow> rat \<Rightarrow> rat" where "average_merge v1 v2 = fl (v1 + v2)"

definition average_end_merge :: "rat \<Rightarrow> nat \<Rightarrow> rat" where
  "average_end_merge v multiplicity = fl (v / of_nat multiplicity)"

fun majority_merge :: "('d \<Rightarrow> 'd \<Rightarrow> bool) \<Rightarrow> ('d \<times> nat) list \<Rightarrow> 'd \<Rightarrow> ('d \<times> nat) list" where
  "majority_merge eqv [] v2 = [(v2, 1)]"
| "majority_merge eqv ((d, n) # m) v2 =
     (if eqv d v2 then (d, Suc n) # m else (d, n) # majority_merge eqv m v2)"

text \<open>The loop of \<open>end_merge\<close>: the best entry so far and its count.\<close>

fun majority_loop :: "('d \<times> nat) list \<Rightarrow> 'd option \<Rightarrow> nat \<Rightarrow> 'd option \<times> nat" where
  "majority_loop [] x z = (x, z)"
| "majority_loop ((d, n) # m) x z = (if n > z then majority_loop m (Some d) n else majority_loop m x z)"

definition majority_end_merge :: "'d \<Rightarrow> ('d \<times> nat) list \<Rightarrow> 'd \<times> ('d \<times> nat) list" where
  "majority_end_merge zero m =
     (let (x, z) = majority_loop m None 0
      in (if z \<noteq> 0 then (case x of Some d \<Rightarrow> d | None \<Rightarrow> zero) else zero, []))"

text \<open>\<open>policies_delta\<close> with the averaging merger: the accumulated values and the number merged.\<close>

definition policies_merge :: "rat list \<times> nat \<Rightarrow> rat list \<Rightarrow> rat list \<times> nat" where
  "policies_merge = (\<lambda>(vs, multiplicity) other. (map2 average_merge vs other, Suc multiplicity))"

definition policies_end_merge :: "rat list \<times> nat \<Rightarrow> rat list" where
  "policies_end_merge = (\<lambda>(vs, multiplicity). map (\<lambda>v. average_end_merge v multiplicity) vs)"

section \<open>Counting\<close>

definition votes_for :: "('d \<Rightarrow> 'd \<Rightarrow> bool) \<Rightarrow> 'd list \<Rightarrow> 'd \<Rightarrow> nat" where
  "votes_for eqv vs d = length (filter (eqv d) vs)"

text \<open>The table after merging \<open>vs\<close>: inequivalent keys, each with its number of votes.\<close>

definition counts :: "('d \<Rightarrow> 'd \<Rightarrow> bool) \<Rightarrow> 'd list \<Rightarrow> ('d \<times> nat) list \<Rightarrow> bool" where
  "counts eqv vs m \<longleftrightarrow> (\<forall>(d, n) \<in> set m. n = votes_for eqv vs d \<and> 0 < n \<and> d \<in> set vs)
     \<and> (\<forall>v \<in> set vs. \<exists>d \<in> fst ` set m. eqv d v) \<and> pairwise (\<lambda>x y. \<not> eqv x y) (fst ` set m) \<and> distinct (map fst m)"

locale vote_equality =
  fixes eqv :: "'d \<Rightarrow> 'd \<Rightarrow> bool"
  assumes refl: "eqv x x" and sym: "eqv x y \<Longrightarrow> eqv y x" and trans: "eqv x y \<Longrightarrow> eqv y z \<Longrightarrow> eqv x z"
begin

lemma eqv_fun: "eqv a b \<Longrightarrow> eqv a = eqv b"
  by (intro ext) (meson sym trans)

lemma votes_for_cong: "eqv a b \<Longrightarrow> votes_for eqv vs a = votes_for eqv vs b"
  unfolding votes_for_def by (drule eqv_fun) simp

lemma votes_for_snoc: "votes_for eqv (vs @ [v]) d = votes_for eqv vs d + (if eqv d v then 1 else 0)"
  by (simp add: votes_for_def)

lemma votes_for_new: "\<forall>x \<in> set vs. \<not> eqv x v \<Longrightarrow> votes_for eqv vs v = 0"
  using sym by (auto simp: votes_for_def filter_empty_conv)

lemma merge_entry:
  "(d, n) \<in> set (majority_merge eqv m v) \<Longrightarrow> pairwise (\<lambda>x y. \<not> eqv x y) (fst ` set m) \<Longrightarrow> distinct (map fst m) \<Longrightarrow>
   (d, n) \<in> set m \<and> \<not> eqv d v \<or> (\<exists>k. n = Suc k \<and> (d, k) \<in> set m \<and> eqv d v)
     \<or> n = 1 \<and> d = v \<and> (\<forall>x \<in> fst ` set m. \<not> eqv x v)"
proof (induction m)
  case (Cons e m)
  obtain d1 n1 where e: "e = (d1, n1)" by (cases e)
  have m: "pairwise (\<lambda>x y. \<not> eqv x y) (fst ` set m)" "distinct (map fst m)"
    using Cons.prems(2,3) by (auto simp: e pairwise_insert)
  show ?case
  proof (cases "eqv d1 v")
    case True
    have "\<not> eqv d v" if "(d, n) \<in> set m"
    proof
      assume "eqv d v"
      then have "eqv d1 d" using True sym trans by blast
      moreover have "d \<noteq> d1" using that Cons.prems(3) by (force simp: e)
      ultimately show False using that Cons.prems(2) by (force simp: e pairwise_insert)
    qed
    then show ?thesis using Cons.prems(1) True by (auto simp: e)
  next
    case False
    then show ?thesis using Cons.IH [OF _ m] Cons.prems(1) by (auto simp: e)
  qed
qed simp

lemma merge_fst:
  "fst ` set (majority_merge eqv m v) = (if \<exists>d \<in> fst ` set m. eqv d v then fst ` set m else insert v (fst ` set m))"
proof (induction m)
  case (Cons e m)
  obtain d n where e: "e = (d, n)" by (cases e)
  show ?case
  proof (cases "eqv d v")
    case False
    then have "fst ` set (majority_merge eqv (e # m) v) = insert d (fst ` set (majority_merge eqv m v))" by (simp add: e)
    then show ?thesis using False unfolding Cons.IH by (simp add: e insert_commute)
  qed (simp add: e)
qed simp

lemma merge_distinct: "distinct (map fst m) \<Longrightarrow> distinct (map fst (majority_merge eqv m v))"
proof (induction m)
  case (Cons e m)
  obtain d n where e: "e = (d, n)" by (cases e)
  have "d \<notin> fst ` set (majority_merge eqv m v)" if "\<not> eqv d v"
    using Cons.prems that refl by (auto simp: merge_fst e)
  then show ?case using Cons by (auto simp: e)
qed simp

lemma merge_counts:
  assumes "counts eqv vs m"
  shows "counts eqv (vs @ [v]) (majority_merge eqv m v)"
proof -
  have pw: "pairwise (\<lambda>x y. \<not> eqv x y) (fst ` set m)" and dm: "distinct (map fst m)"
    and cov: "\<forall>v \<in> set vs. \<exists>d \<in> fst ` set m. eqv d v"
    using assms unfolding counts_def by blast+
  have cnt: "n = votes_for eqv vs d \<and> 0 < n \<and> d \<in> set vs" if "(d, n) \<in> set m" for d n
    using assms that by (auto simp: counts_def)
  have new: "\<forall>x \<in> set vs. \<not> eqv x v" if "\<forall>x \<in> fst ` set m. \<not> eqv x v"
    using cov that trans by blast
  have "n = votes_for eqv (vs @ [v]) d \<and> 0 < n \<and> d \<in> set (vs @ [v])"
    if "(d, n) \<in> set (majority_merge eqv m v)" for d n
    using merge_entry [OF that pw dm]
  proof (elim disjE exE conjE)
    fix k
    assume "n = Suc k" "(d, k) \<in> set m" "eqv d v"
    then show ?thesis using cnt [of d k] by (simp add: votes_for_snoc)
  next
    assume "n = 1" "d = v" "\<forall>x \<in> fst ` set m. \<not> eqv x v"
    then show ?thesis using votes_for_new [OF new] refl [of v] by (simp add: votes_for_snoc)
  qed (use cnt [of d n] in \<open>simp add: votes_for_snoc\<close>)
  moreover have "\<forall>x \<in> set (vs @ [v]). \<exists>d \<in> fst ` set (majority_merge eqv m v). eqv d x"
    using cov refl by (auto simp: merge_fst)
  moreover have "pairwise (\<lambda>x y. \<not> eqv x y) (fst ` set (majority_merge eqv m v))"
    using pw sym by (auto simp: merge_fst pairwise_insert)
  ultimately show ?thesis using merge_distinct [OF dm] unfolding counts_def by blast
qed

lemma merges_counts: "counts eqv vs (foldl (majority_merge eqv) [] vs)"
proof (induction vs rule: rev_induct)
  case Nil
  show ?case by (simp add: counts_def)
next
  case (snoc v vs)
  then show ?case using merge_counts by simp
qed

end

lemma majority_loop_max:
  "majority_loop m x z = (y, w) \<Longrightarrow>
   z \<le> w \<and> (\<forall>(d, n) \<in> set m. n \<le> w) \<and> (y = x \<and> w = z \<or> (\<exists>d. y = Some d \<and> (d, w) \<in> set m))"
  by (induction m x z rule: majority_loop.induct) (fastforce split: if_splits)+

lemma length_filter_disjoint:
  "\<forall>x \<in> set xs. \<not> (P x \<and> Q x) \<Longrightarrow> length (filter P xs) + length (filter Q xs) \<le> length xs"
  by (induction xs) auto

context vote_equality
begin

text \<open>The chosen entry has the most votes; an absolute majority is chosen.\<close>

lemma end_merge_max:
  assumes "counts eqv vs m" and "vs \<noteq> []" and "majority_end_merge zero m = (d, r)"
  shows "d \<in> set vs \<and> (\<forall>v \<in> set vs. votes_for eqv vs v \<le> votes_for eqv vs d)"
proof -
  obtain y w where yw: "majority_loop m None 0 = (y, w)" by (cases "majority_loop m None 0")
  note mx = majority_loop_max [OF yw]
  obtain d0 n0 where d0: "(d0, n0) \<in> set m" using assms(1,2) by (cases vs) (auto simp: counts_def)
  then have "0 < n0" "n0 \<le> w" using mx assms(1) by (auto simp: counts_def)
  then have "0 < w" by simp
  then obtain d1 where d1: "y = Some d1" "(d1, w) \<in> set m" using mx by auto
  have d: "d = d1" using assms(3) yw d1(1) \<open>0 < w\<close> by (simp add: majority_end_merge_def)
  have "votes_for eqv vs v \<le> w" if v: "v \<in> set vs" for v
  proof -
    obtain e n where e: "(e, n) \<in> set m" "eqv e v" using assms(1) v by (auto simp: counts_def)
    then have "n = votes_for eqv vs e" "n \<le> w" using assms(1) mx by (auto simp: counts_def)
    then show ?thesis using votes_for_cong [OF e(2)] by simp
  qed
  then show ?thesis using d1(2) assms(1) d by (auto simp: counts_def)
qed

lemma end_merge_majority:
  assumes "counts eqv vs m" and "majority_end_merge zero m = (d, r)" and "2 * votes_for eqv vs v > length vs"
  shows "eqv d v"
proof (rule ccontr)
  assume ne: "\<not> eqv d v"
  have vs: "vs \<noteq> []" using assms(3) by (auto simp: votes_for_def)
  have "filter (eqv v) vs \<noteq> []" using assms(3) by (auto simp: votes_for_def)
  then obtain v' where v': "v' \<in> set vs" "eqv v v'" by (auto simp: filter_empty_conv)
  have "votes_for eqv vs v' = votes_for eqv vs v" using votes_for_cong [OF v'(2)] by simp
  then have "votes_for eqv vs v \<le> votes_for eqv vs d" using end_merge_max [OF assms(1) vs assms(2)] v'(1) by metis
  moreover have "votes_for eqv vs v + votes_for eqv vs d \<le> length vs"
    unfolding votes_for_def using ne sym trans by (intro length_filter_disjoint) blast
  ultimately show False using assms(3) by simp
qed

end

end
