(* ===== verification/Protocol.thy ===== *)
theory Protocol
  imports Prelude
begin

text \<open>
  Service numbers of the network protocol, from the \<open>protocol.h\<close> headers of the components. The two
  low bits classify a service: node protocol, evidence, or query for an application. (The
  numbers of the layers \<open>socket\<close> and \<open>id\<close> come from generated files and are parameters where
  they are used.)
\<close>

definition protocol_suffix :: u16 where "protocol_suffix = 0"
definition evidence_suffix :: u16 where "evidence_suffix = 1"
definition query_suffix :: u16 where "query_suffix = 2"

definition is_node_protocol :: "u16 \<Rightarrow> bool" where "is_node_protocol i \<longleftrightarrow> i AND 3 = protocol_suffix"
definition is_evidence :: "u16 \<Rightarrow> bool" where "is_evidence i \<longleftrightarrow> i AND 3 = evidence_suffix"
definition is_app_query :: "u16 \<Rightarrow> bool" where "is_app_query i \<longleftrightarrow> i AND 3 = query_suffix"

definition dfs_base :: u16 where "dfs_base = 500"
definition file_request :: u16 where "file_request = push_bit 2 (dfs_base + 0) + query_suffix"
definition file_response :: u16 where "file_response = push_bit 2 (dfs_base + 1) + query_suffix"

definition engine_base :: u16 where "engine_base = 600"
definition svc_local_deltas :: u16 where "svc_local_deltas = push_bit 2 (engine_base + 0) + protocol_suffix"
definition svc_vote_tip :: u16 where "svc_vote_tip = push_bit 2 (engine_base + 1) + protocol_suffix"

text \<open>The source omits the parentheses: the suffix is added to the amount of the shift.\<close>

definition svc_query_block :: u16 where "svc_query_block = push_bit (2 + unat protocol_suffix) (engine_base + 2)"
definition svc_block :: u16 where "svc_block = push_bit 2 (engine_base + 3) + protocol_suffix"
definition svc_sysop :: u16 where "svc_sysop = push_bit 2 (engine_base + 4) + protocol_suffix"

definition cash_base :: u16 where "cash_base = 700"
definition svc_cash_tx :: u16 where "svc_cash_tx = push_bit 2 (cash_base + 1) + evidence_suffix"
definition svc_cash_query :: u16 where "svc_cash_query = push_bit 2 (cash_base + 2) + query_suffix"
definition svc_cash_response :: u16 where "svc_cash_response = push_bit 2 (cash_base + 3) + query_suffix"

lemmas service_defs =
  protocol_suffix_def evidence_suffix_def query_suffix_def is_node_protocol_def is_evidence_def is_app_query_def
  dfs_base_def file_request_def file_response_def engine_base_def svc_local_deltas_def svc_vote_tip_def
  svc_query_block_def svc_block_def svc_sysop_def cash_base_def svc_cash_tx_def svc_cash_query_def
  svc_cash_response_def

definition services :: "u16 list" where
  "services = [file_request, file_response, svc_local_deltas, svc_vote_tip, svc_query_block, svc_block, svc_sysop,
     svc_cash_tx, svc_cash_query, svc_cash_response]"

lemma services_distinct: "distinct services"
  by (simp add: services_def service_defs push_bit_eq_mult)

lemma services_classified:
  "list_all is_node_protocol [svc_local_deltas, svc_vote_tip, svc_query_block, svc_block, svc_sysop]"
  "is_evidence svc_cash_tx"
  "list_all is_app_query [file_request, file_response, svc_cash_query, svc_cash_response]"
  by (simp_all add: service_defs push_bit_eq_mult)

end
