(* ===== verification/Cash_App.thy ===== *)
theory Cash_App
  imports Cash_Tx Ordered_Map Mergers Protocol
begin

text \<open>
  The cash application, \<open>src/gov/cash/app.{h,cpp}\<close>, with the pay-to-public-key-hash locking program
  of \<open>locking_programs/p2pkh.cpp\<close>: the accounts of the ledger, the mempool (\<open>pool\<close>), the processing
  of transactions, the import of an agreed delta and the distribution of new cash and fees, the
  merging of the mempools of the nodes, and the serialised forms.

  Outside of the code, and therefore parameters: the elliptic-curve library (\<open>ec_lib\<close>), the exit
  status of an external locking program, the random choice of the node that gets the
  remainder of a reward, and the content of uninitialised memory.
\<close>

section \<open>State\<close>

record account_t =
  locking_program :: hash_t
  box :: int

type_synonym accounts_t = "(hash_t, account_t) omap"

record local_delta =
  accounts :: accounts_t
  fees :: int
  lpolicies :: "rat list"

record db_t =
  db_accounts :: accounts_t
  supply_left :: int
  block_reward :: int

record cash_app =
  pool :: local_delta
  db :: db_t
  policies :: "rat list"
  policies_local :: "rat list"

definition num_params :: nat where "num_params = 1"

definition local_delta0 :: local_delta where
  "local_delta0 = \<lparr>accounts = om_empty, fees = 0, lpolicies = replicate num_params 0\<rparr>"

definition db_clear :: db_t where
  "db_clear = \<lparr>db_accounts = om_empty, supply_left = 2100000000000000, block_reward = 500000000\<rparr>"

text \<open>The constructor: consensus policies start at a minimum fee of 1.\<close>

definition cash_app0 :: cash_app where
  "cash_app0 = \<lparr>pool = local_delta0, db = db_clear, policies = [1], policies_local = [1]\<rparr>"

definition cash_clear :: "cash_app \<Rightarrow> cash_app" where
  "cash_clear app = app\<lparr>policies := replicate num_params 0, db := db_clear\<rparr>"

section \<open>Accounts\<close>

definition pay :: "accounts_t \<Rightarrow> hash_t \<Rightarrow> int \<Rightarrow> bool \<times> accounts_t" where
  "pay m address amount =
     (if amount \<le> 0 then (False, m)
      else case om_find m address of
             None \<Rightarrow> (True, om_emplace address \<lparr>locking_program = hash_set 1, box = amount\<rparr> m)
           | Some a \<Rightarrow> (True, om_set address (a\<lparr>box := wrap64 (box a + amount)\<rparr>) m))"

definition withdraw :: "accounts_t \<Rightarrow> hash_t \<Rightarrow> int \<Rightarrow> bool \<times> accounts_t" where
  "withdraw m address amount =
     (case om_find m address of
        None \<Rightarrow> (False, m)
      | Some a \<Rightarrow>
          (if box a < amount then (False, m)
           else let b = wrap64 (box a - amount)
                in (True, if b = 0 then om_erase address m else om_set address (a\<lparr>box := b\<rparr>) m)))"

definition get_balance :: "accounts_t \<Rightarrow> int" where
  "get_balance m = foldl (\<lambda>b (k, a). wrap64 (b + box a)) 0 m"

text \<open>\<open>batch_t::add\<close> and \<open>accounts_t::add\<close>.\<close>

definition batch_add :: "accounts_t \<Rightarrow> hash_t \<Rightarrow> account_t \<Rightarrow> accounts_t" where
  "batch_add batch address bi =
     (case om_find batch address of None \<Rightarrow> om_emplace address bi batch | Some _ \<Rightarrow> om_set address bi batch)"

definition accounts_add :: "accounts_t \<Rightarrow> accounts_t \<Rightarrow> accounts_t" where
  "accounts_add m batch =
     foldl (\<lambda>m (k, a). case om_find m k of None \<Rightarrow> om_emplace k a m | Some _ \<Rightarrow> om_set k a m) m batch"

definition get_newcash :: "db_t \<Rightarrow> int \<times> db_t" where
  "get_newcash d =
     (let d = (if supply_left d \<ge> block_reward d then d\<lparr>supply_left := wrap64 (supply_left d - block_reward d)\<rparr>
               else d\<lparr>block_reward := supply_left d, supply_left := 0\<rparr>)
      in (block_reward d, d))"

section \<open>Locking programs\<close>

text \<open>What the code uses of the elliptic-curve wrapper.\<close>

record 'pk ec_lib =
  pub_of_text :: "string \<Rightarrow> 'pk"
  pub_hash :: "'pk \<Rightarrow> hash_t"
  ec_verify :: "'pk \<Rightarrow> byte list \<Rightarrow> string \<Rightarrow> bool"

definition p2pkh_locking_program_hash :: hash_t where "p2pkh_locking_program_hash = hash_set 1"
definition min_locking_program :: hash_t where "min_locking_program = hash_set 10000"

text \<open>
  \<open>p2pkh::check_input\<close>. \<open>jbuf\<close> and \<open>jint\<close> are uninitialised memory: the buffer of the hasher and the
  integer the signature codes are read into.
\<close>

definition p2pkh_check_input ::
  "'pk ec_lib \<Rightarrow> byte list \<Rightarrow> int \<Rightarrow> hash_t \<Rightarrow> tx \<Rightarrow> nat \<Rightarrow> string \<Rightarrow> bool" where
  "p2pkh_check_input lib jbuf jint address t this_index lpi =
     (let (signature, is) = read_string (istr lpi);
          (x, is) = read_signed 32 is;
          sigcodes = (of_int (case x of Some x \<Rightarrow> x | None \<Rightarrow> jint) :: byte);
          (pks, is) = read_string is;
          pk = pub_of_text lib pks
      in if hash_ne (pub_hash lib pk) address then False
         else case tx_get_hash jbuf t this_index sigcodes of
                None \<Rightarrow> False
              | Some h \<Rightarrow> ec_verify lib pk h signature)"

text \<open>\<open>create_input\<close>, for a signature and a public key given as texts.\<close>

definition p2pkh_create_input :: "string \<Rightarrow> byte \<Rightarrow> string \<Rightarrow> string" where
  "p2pkh_create_input signature sigcodes pk = signature @ '' '' @ show_int (uint sigcodes) @ '' '' @ pk"

text \<open>\<open>unlock\<close>; \<open>prog\<close> says whether the external locking program of a hash exits with 0.\<close>

definition unlock ::
  "'pk ec_lib \<Rightarrow> (hash_t \<Rightarrow> bool) \<Rightarrow> byte list \<Rightarrow> int \<Rightarrow> hash_t \<Rightarrow> nat \<Rightarrow> hash_t \<Rightarrow> string \<Rightarrow> tx \<Rightarrow> bool" where
  "unlock lib prog jbuf jint address this_index lp lpi t =
     (if hash_less lp min_locking_program \<and> hash_eq lp (hash_set 0) then True
      else if hash_less lp min_locking_program \<and> hash_eq lp p2pkh_locking_program_hash
      then p2pkh_check_input lib jbuf jint address t this_index lpi
      else prog lp)"

section \<open>Transactions\<close>

text \<open>The state of an account: in the batch, else in the mempool, else in the ledger.\<close>

definition account_state :: "accounts_t \<Rightarrow> accounts_t \<Rightarrow> accounts_t \<Rightarrow> hash_t \<Rightarrow> account_t option" where
  "account_state batch pl d address =
     (case om_find batch address of
        None \<Rightarrow> (case om_find pl address of
                   None \<Rightarrow> om_find d address
                 | Some p \<Rightarrow> Some \<lparr>locking_program = locking_program p, box = box p\<rparr>)
      | Some b \<Rightarrow> Some \<lparr>locking_program = locking_program b, box = box b\<rparr>)"

text \<open>The two loops of \<open>process\<close>; \<open>None\<close> is a rejected transaction. \<open>unlk\<close> is \<open>unlock\<close> for this transaction.\<close>

fun process_inputs ::
  "(hash_t \<Rightarrow> nat \<Rightarrow> hash_t \<Rightarrow> string \<Rightarrow> bool) \<Rightarrow> accounts_t \<Rightarrow> accounts_t \<Rightarrow> nat \<Rightarrow> input_t list \<Rightarrow> accounts_t \<Rightarrow>
   accounts_t option" where
  "process_inputs unlk pl d j [] batch = Some batch"
| "process_inputs unlk pl d j (i # is) batch =
     (case account_state batch pl d (iaddress i) of
        None \<Rightarrow> None
      | Some st \<Rightarrow>
          (if \<not> unlk (iaddress i) j (locking_program st) (locking_program_input i) then None
           else process_inputs unlk pl d (Suc j) is
                  (batch_add batch (iaddress i) (st\<lparr>box := wrap64 (box st - iamount i)\<rparr>))))"

fun process_outputs :: "accounts_t \<Rightarrow> accounts_t \<Rightarrow> output_t list \<Rightarrow> accounts_t \<Rightarrow> accounts_t option" where
  "process_outputs pl d [] batch = Some batch"
| "process_outputs pl d (p # ps) batch =
     (case account_state batch pl d (oaddress p) of
        Some st \<Rightarrow>
          (if box st \<noteq> 0 \<and> hash_ne (locking_program st) (olocking_program p) then None
           else process_outputs pl d ps (batch_add batch (oaddress p) (st\<lparr>box := wrap64 (box st + oamount p)\<rparr>)))
      | None \<Rightarrow>
          process_outputs pl d ps
            (batch_add batch (oaddress p) \<lparr>locking_program = olocking_program p, box = oamount p\<rparr>))"

definition cash_process ::
  "(hash_t \<Rightarrow> nat \<Rightarrow> hash_t \<Rightarrow> string \<Rightarrow> tx \<Rightarrow> bool) \<Rightarrow> cash_app \<Rightarrow> tx \<Rightarrow> cash_app" where
  "cash_process unlk app t =
     (let pl = accounts (pool app); d = db_accounts (db app)
      in case process_inputs (\<lambda>a j lp lpi. unlk a j lp lpi t) pl d 0 (inputs t) om_empty of
           None \<Rightarrow> app
         | Some batch \<Rightarrow>
             (case process_outputs pl d (outputs t) batch of
                None \<Rightarrow> app
              | Some batch \<Rightarrow>
                  app\<lparr>pool := (pool app)\<lparr>fees := wrap64 (fees (pool app) + tx_check t),
                                        accounts := accounts_add pl batch\<rparr>\<rparr>))"

text \<open>\<open>basic_check\<close> and \<open>parse_evidence\<close>; the array of policies has the minimum fee first.\<close>

definition basic_check :: "cash_app \<Rightarrow> tx \<Rightarrow> bool" where
  "basic_check app t =
     (let min_fee = dtrunc (hd (policies app))
      in if min_fee < 0 then False else if tx_check t < min_fee then False else True)"

definition parse_evidence :: "nat \<Rightarrow> nat \<Rightarrow> cash_app \<Rightarrow> u16 \<Rightarrow> string \<Rightarrow> tx option" where
  "parse_evidence junk1 junk2 app svc payload =
     (if svc = svc_cash_tx
      then case tx_from_b58 junk1 junk2 payload of
             Inl e \<Rightarrow> None
           | Inr t \<Rightarrow> if \<not> basic_check app t then None else Some t
      else None)"

text \<open>Handing the mempool to the engine: the local policy votes are written into it first.\<close>

definition add_policies :: "cash_app \<Rightarrow> cash_app" where
  "add_policies app = app\<lparr>pool := (pool app)\<lparr>lpolicies := policies_local app\<rparr>\<rparr>"

definition create_local_delta :: "cash_app \<Rightarrow> local_delta \<times> cash_app" where
  "create_local_delta app = (let app = add_policies app in (pool app, app\<lparr>pool := local_delta0\<rparr>))"

section \<open>Merging and importing\<close>

text \<open>The hash of a local delta: accounts and fees, not the policies.\<close>

definition ld_write_account :: "ripemd160 \<Rightarrow> hash_t \<times> account_t \<Rightarrow> ripemd160" where
  "ld_write_account st = (\<lambda>(k, a).
     ripemd160_write (ripemd160_write_i64 (ripemd160_write st (hash_bytes k)) (box a)) (hash_bytes (locking_program a)))"

definition ld_compute_hash :: "byte list \<Rightarrow> local_delta \<Rightarrow> hash_t" where
  "ld_compute_hash jbuf g =
     ripemd160_value (ripemd160_write_i64 (foldl ld_write_account (ripemd160_new jbuf) (accounts g)) (fees g))"

text \<open>
  When are two local deltas the same key for the table of the majority merger: the hash function
  of the table is the first word of the hash, and \<open>==\<close> is the one inherited from the base class
  \<open>array<double>\<close>, which compares the policies.
\<close>

definition ld_hash_code :: "hash_t \<Rightarrow> u64" where "ld_hash_code h = (case h of Hash a b c \<Rightarrow> a)"

definition ld_same :: "byte list \<Rightarrow> local_delta \<Rightarrow> local_delta \<Rightarrow> bool" where
  "ld_same jbuf x y \<longleftrightarrow>
     ld_hash_code (ld_compute_hash jbuf x) = ld_hash_code (ld_compute_hash jbuf y) \<and> lpolicies x = lpolicies y"

record delta =
  dpolicies :: "rat list"
  multiplicity :: nat
  dg :: local_delta
  dm :: "(local_delta \<times> nat) list"

definition delta0 :: delta where
  "delta0 = \<lparr>dpolicies = replicate num_params 0, multiplicity = 0, dg = local_delta0, dm = []\<rparr>"

definition delta_merge :: "byte list \<Rightarrow> delta \<Rightarrow> local_delta \<Rightarrow> delta" where
  "delta_merge jbuf d other =
     (let d = d\<lparr>dm := majority_merge (ld_same jbuf) (dm d) other\<rparr>;
          (vs, n) = policies_merge (dpolicies d, multiplicity d) (lpolicies other)
      in d\<lparr>dpolicies := vs, multiplicity := n\<rparr>)"

definition delta_end_merge :: "delta \<Rightarrow> delta" where
  "delta_end_merge d =
     (let (g', m') = majority_end_merge local_delta0 (dm d)
      in d\<lparr>dg := g', dm := m', dpolicies := policies_end_merge (dpolicies d, multiplicity d)\<rparr>)"

text \<open>The first part of \<open>import\<close>: the agreed accounts replace those of the ledger; empty ones disappear.\<close>

definition import_account :: "accounts_t \<Rightarrow> hash_t \<times> account_t \<Rightarrow> accounts_t" where
  "import_account d = (\<lambda>(k, a).
     case om_find d k of
       None \<Rightarrow> (if box a \<noteq> 0 then om_emplace k \<lparr>locking_program = locking_program a, box = box a\<rparr> d else d)
     | Some a' \<Rightarrow> (if box a = 0 then om_erase k d
                   else om_set k (a'\<lparr>locking_program := locking_program a, box := box a\<rparr>) d))"

text \<open>The share of one node, computed with doubles, and the loop that pays the shares.\<close>

type_synonym pow_t = "(hash_t, u64) omap"

definition pow_sum :: "pow_t \<Rightarrow> u64" where "pow_sum w = foldl (\<lambda>s (k, v). s + v) 0 w"

definition rel_work :: "pow_t \<Rightarrow> u64 \<Rightarrow> rat" where
  "rel_work w v =
     (if pow_sum w > 0 then fl (fl (of_nat (unat v)) / fl (of_nat (unat (pow_sum w))))
      else fl (1 / fl (of_nat (length w))))"

definition share :: "int \<Rightarrow> pow_t \<Rightarrow> u64 \<Rightarrow> int" where
  "share total_cash_int w v = dtrunc (fl (fl (of_int total_cash_int) * rel_work w v))"

definition pay_shares :: "int \<Rightarrow> pow_t \<Rightarrow> accounts_t \<Rightarrow> accounts_t \<times> int" where
  "pay_shares total_cash w d =
     foldl (\<lambda>(d, paid) (k, v). let amount = share total_cash w v in (snd (pay d k amount), wrap64 (paid + amount))) (d, 0) w"

text \<open>The second part: new cash and fees; \<open>pick\<close> is the random index drawn from \<open>0\<close> to \<open>size - 1\<close>.\<close>

definition import_rewards :: "nat \<Rightarrow> int \<Rightarrow> pow_t \<Rightarrow> db_t \<Rightarrow> db_t" where
  "import_rewards pick fs w d =
     (if w = [] then d
      else let (newcash, d) = get_newcash d;
               total_cash = wrap64 (newcash + fs);
               (as, paid) = pay_shares total_cash w (db_accounts d);
               remainder = wrap64 (total_cash - paid);
               as = (if remainder > 0 then snd (pay as (fst (w ! pick)) remainder) else as)
           in d\<lparr>db_accounts := as\<rparr>)"

definition cash_import :: "nat \<Rightarrow> cash_app \<Rightarrow> delta \<Rightarrow> pow_t \<Rightarrow> cash_app" where
  "cash_import pick app gg w =
     (let app = app\<lparr>policies := dpolicies gg\<rparr>;
          d = (db app)\<lparr>db_accounts := foldl import_account (db_accounts (db app)) (accounts (dg gg))\<rparr>
      in app\<lparr>db := import_rewards pick (fees (dg gg)) w d\<rparr>)"

section \<open>Text\<close>

definition account_to_stream :: "account_t \<Rightarrow> string" where
  "account_to_stream a = show_hash (locking_program a) @ '' '' @ show_int (box a) @ '' ''"

text \<open>\<open>from_stream\<close>: an unreadable balance stays 0, as the constructor set it.\<close>

definition account_from_stream :: "istream \<Rightarrow> account_t \<times> istream" where
  "account_from_stream is =
     (let (lp, is) = read_hash hash_zero is;
          (b, is) = read_signed 64 is
      in (\<lparr>locking_program = lp, box = (case b of Some b \<Rightarrow> b | None \<Rightarrow> 0)\<rparr>, is))"

definition accounts_to_stream :: "accounts_t \<Rightarrow> string" where
  "accounts_to_stream m = show_nat (length m) @ '' '' @
     concat (map (\<lambda>(k, a). show_hash k @ '' '' @ account_to_stream a) m)"

fun read_accounts :: "nat \<Rightarrow> accounts_t \<Rightarrow> istream \<Rightarrow> accounts_t \<times> istream" where
  "read_accounts 0 r is = (r, is)"
| "read_accounts (Suc n) r is =
     (let (k, is) = read_hash hash_zero is;
          (a, is) = account_from_stream is
      in read_accounts n (om_emplace k a r) is)"

definition accounts_from_stream :: "nat \<Rightarrow> istream \<Rightarrow> accounts_t \<times> istream" where
  "accounts_from_stream junk is =
     (let (n, is) = read_unsigned 64 is
      in read_accounts (case n of Some n \<Rightarrow> n | None \<Rightarrow> junk) om_empty is)"

definition db_to_stream :: "db_t \<Rightarrow> string" where
  "db_to_stream d = accounts_to_stream (db_accounts d) @ '' '' @ show_int (supply_left d) @ '' '' @ show_int (block_reward d)"

text \<open>A new database has been cleared, so numbers that cannot be read keep the genesis values.\<close>

definition db_from_stream :: "nat \<Rightarrow> istream \<Rightarrow> db_t" where
  "db_from_stream junk is =
     (let (as, is) = accounts_from_stream junk is;
          (s, is) = read_signed 64 is;
          (r, is) = read_signed 64 is
      in \<lparr>db_accounts = as,
          supply_left = (case s of Some s \<Rightarrow> s | None \<Rightarrow> supply_left db_clear),
          block_reward = (case r of Some r \<Rightarrow> r | None \<Rightarrow> block_reward db_clear)\<rparr>)"

text \<open>Queries: the addresses asked for, and the answer.\<close>

definition query_text :: "hash_t list \<Rightarrow> string option" where
  "query_text q =
     (if q = [] then None
      else Some (show_nat (length q) @ '' '' @ concat (map (\<lambda>a. show_hash a @ '' '') q)))"

fun read_hashes :: "nat \<Rightarrow> istream \<Rightarrow> hash_t list \<times> istream" where
  "read_hashes 0 is = ([], is)"
| "read_hashes (Suc n) is =
     (let (v, is) = read_hash hash_zero is;
          (vs, is) = read_hashes n is
      in (v # vs, is))"

text \<open>A negative count ends the process: \<open>reserve\<close> throws and nobody catches it.\<close>

definition query_from_string :: "int \<Rightarrow> string \<Rightarrow> hash_t list option" where
  "query_from_string junk s =
     (let (n, is) = read_signed 32 (istr s);
          n = (case n of Some n \<Rightarrow> n | None \<Rightarrow> junk)
      in if n < 0 then None else Some (fst (read_hashes (nat n) is)))"

definition cash_query :: "int \<Rightarrow> cash_app \<Rightarrow> hash_t \<Rightarrow> string \<Rightarrow> string option" where
  "cash_query junk app tip payload =
     map_option (\<lambda>q. ''0 '' @
       concat (map (\<lambda>addr. account_to_stream
         (case om_find (db_accounts (db app)) addr of
            Some a \<Rightarrow> a
          | None \<Rightarrow> \<lparr>locking_program = hash_set 0, box = 0\<rparr>)) q) @
       '' '' @ show_hash tip) (query_from_string junk payload)"

end
