(* ===== verification/Cash_Ledger.thy ===== *)
theory Cash_Ledger
  imports Cash_App
begin

text \<open>
  What the cash application guarantees: maps stay well formed, a rejected transaction changes
  nothing, an accepted one conserves the money (accounts and fees together), touches only
  accounts it may touch, and may overdraw them; importing a delta sets exactly the agreed accounts; the
  rewards of a block are distributed completely; new cash comes out of the supply.
\<close>

section \<open>Well-formed states\<close>

definition cash_ok :: "cash_app \<Rightarrow> bool" where
  "cash_ok app \<longleftrightarrow> om_ok (accounts (pool app)) \<and> om_ok (db_accounts (db app))"

lemma batch_add_set: "om_ok b \<Longrightarrow> batch_add b k a = om_set k a b"
  by (simp add: batch_add_def om_emplace_def split: option.split)

lemma batch_add_ok: "om_ok b \<Longrightarrow> om_ok (batch_add b k a)"
  by (simp add: batch_add_set om_ok_set)

lemma accounts_add_sets: "accounts_add mm batch = foldl (\<lambda>mm (k, a). om_set k a mm) mm batch"
proof -
  have "(\<lambda>mm (k :: hash_t, a). case om_find mm k of None \<Rightarrow> om_emplace k a mm | Some _ \<Rightarrow> om_set k a mm)
      = (\<lambda>mm (k :: hash_t, a :: account_t). om_set k a mm)"
    by (intro ext) (auto simp: om_emplace_def split: option.split)
  then show ?thesis by (simp add: accounts_add_def)
qed

lemma accounts_add_ok: "om_ok mm \<Longrightarrow> om_ok (accounts_add mm batch)"
  by (simp add: accounts_add_sets om.ok_sets)

lemma accounts_add_find:
  "om_ok mm \<Longrightarrow> om_ok batch \<Longrightarrow>
   om_find (accounts_add mm batch) k = (case om_find batch k of Some a \<Rightarrow> Some a | None \<Rightarrow> om_find mm k)"
  by (simp add: accounts_add_sets om.find_sets om_ok_distinct om_find_def [of batch])

lemma process_inputs_ok: "process_inputs unlk pl d j is b = Some b' \<Longrightarrow> om_ok b \<Longrightarrow> om_ok b'"
  by (induction "is" arbitrary: j b) (auto simp: batch_add_ok split: option.splits if_splits)

lemma process_outputs_ok: "process_outputs pl d ps b = Some b' \<Longrightarrow> om_ok b \<Longrightarrow> om_ok b'"
  by (induction ps arbitrary: b) (auto simp: batch_add_ok split: option.splits if_splits)

lemma account_state_copy [simp]: "\<lparr>locking_program = locking_program a, box = box a\<rparr> = (a :: account_t)"
  by simp

lemma account_state_add:
  "om_ok b \<Longrightarrow> account_state (batch_add b k a) pl d k' = (if k' = k then Some a else account_state b pl d k')"
  by (simp add: account_state_def batch_add_set om_find_set)

lemma account_state_final:
  "om_ok pl \<Longrightarrow> om_ok b \<Longrightarrow> account_state om_empty (accounts_add pl b) d = account_state b pl d"
  by (auto simp: account_state_def accounts_add_find om.find_empty split: option.split)

section \<open>Accepted transactions\<close>

text \<open>The outcome of the two loops: \<open>None\<close> for a rejected transaction, else the batch.\<close>

definition accepted_batch ::
  "(hash_t \<Rightarrow> nat \<Rightarrow> hash_t \<Rightarrow> string \<Rightarrow> tx \<Rightarrow> bool) \<Rightarrow> cash_app \<Rightarrow> tx \<Rightarrow> accounts_t option" where
  "accepted_batch unlk app t =
     Option.bind (process_inputs (\<lambda>a j lp lpi. unlk a j lp lpi t) (accounts (pool app)) (db_accounts (db app)) 0 (inputs t) om_empty)
       (process_outputs (accounts (pool app)) (db_accounts (db app)) (outputs t))"

lemma cash_process_eq:
  "cash_process unlk app t =
     (case accepted_batch unlk app t of
        None \<Rightarrow> app
      | Some b \<Rightarrow> app\<lparr>pool := (pool app)\<lparr>fees := wrap64 (fees (pool app) + tx_check t),
                                        accounts := accounts_add (accounts (pool app)) b\<rparr>\<rparr>)"
  by (simp add: cash_process_def accepted_batch_def Let_def split: option.split)

lemma accepted_batch_ok: "accepted_batch unlk app t = Some b \<Longrightarrow> om_ok b"
  unfolding accepted_batch_def bind_eq_Some_conv
  using process_inputs_ok [OF _ om.ok_empty] process_outputs_ok by blast

lemma cash_process_ok: "cash_ok app \<Longrightarrow> cash_ok (cash_process unlk app t)"
  by (auto simp: cash_ok_def cash_process_eq accounts_add_ok split: option.split)

text \<open>What an account holds, seen through the mempool.\<close>

definition balance :: "accounts_t \<Rightarrow> accounts_t \<Rightarrow> accounts_t \<Rightarrow> hash_t \<Rightarrow> int" where
  "balance b pl d a = (case account_state b pl d a of Some st \<Rightarrow> box st | None \<Rightarrow> 0)"

definition app_balance :: "cash_app \<Rightarrow> hash_t \<Rightarrow> int" where
  "app_balance app = balance om_empty (accounts (pool app)) (db_accounts (db app))"

lemma balance_add: "om_ok b \<Longrightarrow> balance (batch_add b k a) pl d = (balance b pl d)(k := box a)"
  by (auto simp: balance_def account_state_add)

lemma sum_fun_upd: "finite S \<Longrightarrow> a \<in> S \<Longrightarrow> sum (f(a := x)) S = sum f S - f a + (x :: int)"
  by (simp add: sum.remove [of S a] sum.cong [of "S - {a}" "S - {a}" "f(a := x)" f])

lemma wrap64_add_right: "wrap64 (x + wrap64 y) = wrap64 (x + y)"
  using wrap64_add_left [of y x] by (simp add: add.commute)

lemma wrap64_replace:
  assumes "s' = s - x + wrap64 (x + y)"
  shows "wrap64 (s' + r) = wrap64 (s + y + r)"
proof -
  have "s' + r = wrap64 (x + y) + (s - x + r)" using assms by simp
  then have "wrap64 (s' + r) = wrap64 (x + y + (s - x + r))" by (simp only: wrap64_add_left)
  then show ?thesis by (simp add: algebra_simps)
qed

lemma process_inputs_balance:
  assumes "finite S" and "process_inputs unlk pl d j is b = Some b'" and "om_ok b" and "iaddress ` set is \<subseteq> S"
  shows "wrap64 (sum (balance b' pl d) S) = wrap64 (sum (balance b pl d) S - sum_list (map iamount is))"
  using assms(2-4)
proof (induction "is" arbitrary: j b)
  case (Cons i "is")
  then obtain st where st: "account_state b pl d (iaddress i) = Some st"
      and p: "process_inputs unlk pl d (Suc j) is (batch_add b (iaddress i) (st\<lparr>box := wrap64 (box st - iamount i)\<rparr>)) = Some b'"
    by (auto split: option.splits if_splits)
  let ?b = "batch_add b (iaddress i) (st\<lparr>box := wrap64 (box st - iamount i)\<rparr>)"
  have "sum (balance ?b pl d) S = sum (balance b pl d) S - box st + wrap64 (box st - iamount i)"
    using sum_fun_upd [OF assms(1), of "iaddress i" "balance b pl d"] Cons.prems(2,3) st
    by (simp only: balance_add) (simp add: balance_def [of b pl d "iaddress i"])
  then have "wrap64 (sum (balance ?b pl d) S + - sum_list (map iamount is))
      = wrap64 (sum (balance b pl d) S + - iamount i + - sum_list (map iamount is))"
    by (intro wrap64_replace [where x = "box st"]) simp
  then show ?case using Cons.IH [OF p] Cons.prems(2,3) by (simp add: batch_add_ok algebra_simps)
qed simp

lemma process_outputs_balance:
  assumes "finite S" and "process_outputs pl d ps b = Some b'" and "om_ok b" and "oaddress ` set ps \<subseteq> S"
  shows "wrap64 (sum (balance b' pl d) S) = wrap64 (sum (balance b pl d) S + sum_list (map oamount ps))"
  using assms(2-4)
proof (induction ps arbitrary: b)
  case (Cons p ps)
  obtain st where p: "process_outputs pl d ps (batch_add b (oaddress p) st) = Some b'"
      and st: "box st = oamount p \<and> balance b pl d (oaddress p) = 0 \<or> box st = wrap64 (balance b pl d (oaddress p) + oamount p)"
    using Cons.prems(1) by (auto simp: balance_def split: option.splits if_splits)
  have "sum (balance (batch_add b (oaddress p) st) pl d) S = sum (balance b pl d) S - balance b pl d (oaddress p) + box st"
    using sum_fun_upd [OF assms(1), of "oaddress p" "balance b pl d"] Cons.prems(2,3) by (simp only: balance_add) simp
  then have "wrap64 (sum (balance (batch_add b (oaddress p) st) pl d) S + sum_list (map oamount ps))
      = wrap64 (sum (balance b pl d) S + oamount p + sum_list (map oamount ps))"
    using st
  proof (elim disjE conjE)
    assume "box st = wrap64 (balance b pl d (oaddress p) + oamount p)"
    then show ?thesis
      using \<open>sum (balance (batch_add b (oaddress p) st) pl d) S = _\<close>
      by (intro wrap64_replace [where x = "balance b pl d (oaddress p)"]) simp
  qed simp
  then show ?case using Cons.IH [OF p] Cons.prems(2,3) by (simp add: batch_add_ok algebra_simps)
qed simp

text \<open>The inputs loop never changes a locking program, and every account it changes was unlocked.\<close>

lemma process_inputs_state:
  assumes "process_inputs unlk pl d j is b = Some b'" and "om_ok b"
  shows "map_option locking_program (account_state b' pl d a) = map_option locking_program (account_state b pl d a)
    \<and> (account_state b' pl d a \<noteq> account_state b pl d a \<longrightarrow>
        (\<exists>k st. k < length is \<and> iaddress (is ! k) = a \<and> account_state b pl d a = Some st
           \<and> unlk a (j + k) (locking_program st) (locking_program_input (is ! k))))"
  using assms
proof (induction "is" arbitrary: j b)
  case (Cons i "is")
  then obtain st where st: "account_state b pl d (iaddress i) = Some st"
      "unlk (iaddress i) j (locking_program st) (locking_program_input i)"
      and p: "process_inputs unlk pl d (Suc j) is (batch_add b (iaddress i) (st\<lparr>box := wrap64 (box st - iamount i)\<rparr>)) = Some b'"
    by (auto split: option.splits if_splits)
  note IH = Cons.IH [OF p batch_add_ok [OF Cons.prems(2)]]
  show ?case
  proof (cases "iaddress i = a")
    case True
    then show ?thesis using IH st Cons.prems(2) by (auto simp: account_state_add intro!: exI [of _ 0])
  next
    case False
    then show ?thesis using IH Cons.prems(2) by (fastforce simp: account_state_add)
  qed
qed simp

lemma process_outputs_state:
  "process_outputs pl d ps b = Some b' \<Longrightarrow> om_ok b \<Longrightarrow> a \<notin> oaddress ` set ps \<Longrightarrow>
   account_state b' pl d a = account_state b pl d a"
  by (induction ps arbitrary: b) (auto simp: account_state_add batch_add_ok split: option.splits if_splits)

lemma basic_check_positive:
  assumes "basic_check app t"
  shows "0 \<le> tx_check t" and "tx_check t = wrap64 (sum_list (map iamount (inputs t)) - sum_list (map oamount (outputs t)))"
proof -
  show nn: "0 \<le> tx_check t" using assms by (auto simp: basic_check_def Let_def split: if_splits)
  then have "\<not> (\<exists>a \<in> set (map iamount (inputs t) @ map oamount (outputs t)). a \<le> 0)"
    unfolding tx_check_eq by (auto split: if_splits)
  then show "tx_check t = wrap64 (sum_list (map iamount (inputs t)) - sum_list (map oamount (outputs t)))"
    unfolding tx_check_eq by (rule if_not_P)
qed

lemma accepted_balance:
  assumes "accepted_batch unlk app t = Some b" and "cash_ok app" and "finite S"
    and "iaddress ` set (inputs t) \<union> oaddress ` set (outputs t) \<subseteq> S"
  shows "wrap64 (sum (app_balance (cash_process unlk app t)) S) =
    wrap64 (sum (app_balance app) S - sum_list (map iamount (inputs t)) + sum_list (map oamount (outputs t)))"
proof -
  let ?pl = "accounts (pool app)" and ?d = "db_accounts (db app)"
  obtain bi where bi: "process_inputs (\<lambda>a j lp lpi. unlk a j lp lpi t) ?pl ?d 0 (inputs t) om_empty = Some bi"
      and bo: "process_outputs ?pl ?d (outputs t) bi = Some b"
    using assms(1) by (auto simp: accepted_batch_def bind_eq_Some_conv)
  have okb: "om_ok bi" "om_ok b" using process_inputs_ok [OF bi om.ok_empty] process_outputs_ok [OF bo] by auto
  have i: "wrap64 (sum (balance bi ?pl ?d) S) = wrap64 (sum (app_balance app) S - sum_list (map iamount (inputs t)))"
    using process_inputs_balance [OF assms(3) bi om.ok_empty] assms(4) by (simp add: app_balance_def)
  have "wrap64 (sum (balance b ?pl ?d) S) = wrap64 (wrap64 (sum (balance bi ?pl ?d) S) + sum_list (map oamount (outputs t)))"
    using process_outputs_balance [OF assms(3) bo okb(1)] assms(4) by (simp add: wrap64_add_left)
  also have "\<dots> = wrap64 (sum (app_balance app) S - sum_list (map iamount (inputs t)) + sum_list (map oamount (outputs t)))"
    by (simp only: i wrap64_add_left)
  also have "balance b ?pl ?d = app_balance (cash_process unlk app t)"
    using assms(2) account_state_final [of ?pl b ?d] okb(2)
    by (auto simp: cash_process_eq assms(1) app_balance_def balance_def cash_ok_def fun_eq_iff)
  finally show ?thesis .
qed

text \<open>An example: an account with a balance of 1, and a transaction that withdraws a thousand.\<close>

definition overdraft_app :: cash_app where
  "overdraft_app = cash_app0\<lparr>db := db_clear\<lparr>db_accounts := [(Hash 1 0 0, \<lparr>locking_program = hash_set 1, box = 1\<rparr>)]\<rparr>\<rparr>"

definition overdraft_tx :: tx where
  "overdraft_tx = \<lparr>inputs = [\<lparr>iaddress = Hash 1 0 0, iamount = 1000, locking_program_input = ''sig 0 key''\<rparr>],
     outputs = [\<lparr>oaddress = Hash 2 0 0, oamount = 999, olocking_program = hash_set 1\<rparr>], ts = 1\<rparr>"

lemma overdraft_accepted:
  assumes "unlk (Hash 1 0 0) 0 (hash_set 1) ''sig 0 key'' overdraft_tx"
  shows "accepted_batch unlk overdraft_app overdraft_tx =
    Some [(Hash 1 0 0, \<lparr>locking_program = hash_set 1, box = - 999\<rparr>), (Hash 2 0 0, \<lparr>locking_program = hash_set 1, box = 999\<rparr>)]"
  using assms
  by (simp add: accepted_batch_def overdraft_app_def overdraft_tx_def cash_app0_def db_clear_def local_delta0_def om_empty_def
      om_find_def account_state_def batch_add_def om_emplace_def less_hash_t_def wrap64_def)

lemma overdraft_ok: "cash_ok overdraft_app"
  by (simp add: cash_ok_def overdraft_app_def cash_app0_def db_clear_def local_delta0_def om_empty_def om_ok_def)

lemma overdraft_check: "basic_check overdraft_app overdraft_tx"
proof -
  have "tx_check overdraft_tx = 1" by (simp add: tx_check_eq overdraft_tx_def wrap64_def)
  then show ?thesis by (simp add: basic_check_def overdraft_app_def cash_app0_def dtrunc_def)
qed

lemmas overdraft_defs = overdraft_app_def overdraft_tx_def cash_app0_def db_clear_def local_delta0_def om_empty_def
  om_find_def account_state_def app_balance_def balance_def accounts_add_def om_emplace_def less_hash_t_def

section \<open>Properties of processing\<close>

text \<open>
  C8. Processing conserves money: for every set of addresses that contains those of the
  transaction, the balances seen through the mempool plus the collected fees are the same
  before and after (modulo the width of \<open>cash_t\<close>), for every transaction that passed
  \<open>basic_check\<close>, accepted or not.
\<close>

theorem process_conserves:
  assumes "cash_ok app" and "basic_check app t" and "finite S"
    and "iaddress ` set (inputs t) \<union> oaddress ` set (outputs t) \<subseteq> S"
  shows "wrap64 (sum (app_balance (cash_process unlk app t)) S + fees (pool (cash_process unlk app t))) =
    wrap64 (sum (app_balance app) S + fees (pool app))"
proof (cases "accepted_batch unlk app t")
  case None
  then show ?thesis by (simp add: cash_process_eq)
next
  case (Some b)
  let ?i = "sum_list (map iamount (inputs t))" and ?o = "sum_list (map oamount (outputs t))"
  have f: "fees (pool (cash_process unlk app t)) = wrap64 (fees (pool app) + wrap64 (?i - ?o))"
    using basic_check_positive(2) [OF assms(2)] by (simp add: cash_process_eq Some)
  have "wrap64 (sum (app_balance (cash_process unlk app t)) S + fees (pool (cash_process unlk app t)))
      = wrap64 (wrap64 (sum (app_balance (cash_process unlk app t)) S) + wrap64 (fees (pool app) + wrap64 (?i - ?o)))"
    unfolding f by (simp only: wrap64_add_left)
  also have "\<dots> = wrap64 ((sum (app_balance app) S - ?i + ?o) + (fees (pool app) + (?i - ?o)))"
    unfolding accepted_balance [OF Some assms(1,3,4)] by (simp only: wrap64_add_left wrap64_add_right)
  also have "\<dots> = wrap64 (sum (app_balance app) S + fees (pool app))" by simp
  finally show ?thesis .
qed

theorem process_conserves_witness:
  "wrap64 (sum (app_balance (cash_process (\<lambda>a j lp lpi t. True) overdraft_app overdraft_tx)) {Hash 1 0 0, Hash 2 0 0}
     + fees (pool (cash_process (\<lambda>a j lp lpi t. True) overdraft_app overdraft_tx))) =
   wrap64 (sum (app_balance overdraft_app) {Hash 1 0 0, Hash 2 0 0} + fees (pool overdraft_app))"
  by (rule process_conserves [OF overdraft_ok overdraft_check]) (simp_all add: overdraft_tx_def)

text \<open>
  C9. Authorisation: when processing changes what the application knows of an account that is
  not an output of the transaction, the account existed, is an input, and its own locking
  program accepted the unlocking data of that input; its locking program stays the same.
\<close>

theorem process_authorized:
  assumes "cash_ok app" and "a \<notin> oaddress ` set (outputs t)"
    and "st = account_state om_empty (accounts (pool app)) (db_accounts (db app)) a"
    and "st' = account_state om_empty (accounts (pool (cash_process unlk app t))) (db_accounts (db app)) a"
    and "st' \<noteq> st"
  shows "\<exists>k s s'. st = Some s \<and> st' = Some s' \<and> locking_program s' = locking_program s
    \<and> k < length (inputs t) \<and> iaddress (inputs t ! k) = a
    \<and> unlk a k (locking_program s) (locking_program_input (inputs t ! k)) t"
proof -
  let ?pl = "accounts (pool app)" and ?d = "db_accounts (db app)"
  obtain b where b: "accepted_batch unlk app t = Some b"
    using assms(3-5) by (cases "accepted_batch unlk app t") (auto simp: cash_process_eq)
  then obtain bi where bi: "process_inputs (\<lambda>a j lp lpi. unlk a j lp lpi t) ?pl ?d 0 (inputs t) om_empty = Some bi"
      and bo: "process_outputs ?pl ?d (outputs t) bi = Some b"
    by (auto simp: accepted_batch_def bind_eq_Some_conv)
  have okb: "om_ok bi" "om_ok b" using process_inputs_ok [OF bi om.ok_empty] process_outputs_ok [OF bo] by auto
  have "st' = account_state bi ?pl ?d a"
    using assms(1,4) account_state_final [of ?pl b ?d] okb(2) process_outputs_state [OF bo okb(1) assms(2)]
    by (simp add: cash_process_eq b cash_ok_def)
  then show ?thesis
    using process_inputs_state [OF bi om.ok_empty, of a] assms(3,5) by (cases st') (fastforce split: option.splits)+
qed

theorem process_authorized_witness:
  "\<exists>k s s'. account_state om_empty (accounts (pool overdraft_app)) (db_accounts (db overdraft_app)) (Hash 1 0 0) = Some s
    \<and> account_state om_empty (accounts (pool (cash_process (\<lambda>a j lp lpi t. lp = hash_set 1) overdraft_app overdraft_tx)))
        (db_accounts (db overdraft_app)) (Hash 1 0 0) = Some s'
    \<and> locking_program s' = locking_program s \<and> k < length (inputs overdraft_tx)
    \<and> iaddress (inputs overdraft_tx ! k) = Hash 1 0 0 \<and> locking_program s = hash_set 1"
proof (rule process_authorized [OF overdraft_ok _ refl refl])
  show "Hash 1 0 0 \<notin> oaddress ` set (outputs overdraft_tx)" by (simp add: overdraft_tx_def)
  show "account_state om_empty (accounts (pool (cash_process (\<lambda>a j lp lpi t. lp = hash_set 1) overdraft_app overdraft_tx)))
      (db_accounts (db overdraft_app)) (Hash 1 0 0)
    \<noteq> account_state om_empty (accounts (pool overdraft_app)) (db_accounts (db overdraft_app)) (Hash 1 0 0)"
    using overdraft_accepted [of "\<lambda>a j lp lpi t. lp = hash_set 1"] by (simp add: cash_process_eq overdraft_defs)
qed

text \<open>
  There is no balance check: from an account with a balance of 1 a transaction that passes
  \<open>basic_check\<close> and unlocks its input withdraws a thousand; the account ends below zero and the
  money appears at the output.
\<close>

theorem process_overdraft:
  assumes "unlk (Hash 1 0 0) 0 (hash_set 1) ''sig 0 key'' overdraft_tx"
  shows "basic_check overdraft_app overdraft_tx \<and>
    app_balance overdraft_app (Hash 1 0 0) = 1 \<and>
    app_balance (cash_process unlk overdraft_app overdraft_tx) (Hash 1 0 0) = - 999 \<and>
    app_balance (cash_process unlk overdraft_app overdraft_tx) (Hash 2 0 0) = 999"
  using overdraft_accepted [of unlk] assms overdraft_check by (simp add: cash_process_eq overdraft_defs)

theorem process_overdraft_witness:
  "app_balance (cash_process (\<lambda>a j lp lpi t. True) overdraft_app overdraft_tx) (Hash 1 0 0) = - 999"
  using process_overdraft [of "\<lambda>a j lp lpi t. True"] by simp

end
