(* ===== verification/Cash_Consensus.thy ===== *)
theory Cash_Consensus
  imports Cash_Ledger
begin

text \<open>
  The cash application between blocks: the agreed delta is the one most nodes sent, importing it
  sets exactly the agreed accounts, new cash comes out of the supply, and the reward of a block is
  distributed completely although the shares are computed with doubles. The database survives
  its textual form.
\<close>

section \<open>Import of accounts\<close>

lemma import_account_ok: "om_ok d \<Longrightarrow> om_ok (import_account d ka)"
  by (auto simp: import_account_def om_ok_set om_ok_erase om_ok_emplace split: prod.split option.split)

lemma import_account_find:
  "om_ok d \<Longrightarrow> om_find (import_account d (k, a)) k' =
     (if k' = k then (if box a = 0 then None else Some a) else om_find d k')"
  by (auto simp: import_account_def om_find_set om_find_erase om_find_emplace split: option.split)

lemma import_accounts_find:
  "om_ok d \<Longrightarrow> distinct (map fst as) \<Longrightarrow>
   om_ok (foldl import_account d as) \<and>
   om_find (foldl import_account d as) k =
     (case map_of as k of Some a \<Rightarrow> (if box a = 0 then None else Some a) | None \<Rightarrow> om_find d k)"
proof (induction as arbitrary: d)
  case (Cons ka as)
  obtain k1 a1 where ka: "ka = (k1, a1)" by (cases ka)
  have "map_of as k1 = None" using Cons.prems(2) ka by (simp add: map_of_eq_None_iff)
  then show ?case
    using Cons.IH [OF import_account_ok [OF Cons.prems(1), of ka]] Cons.prems
    by (auto simp: ka import_account_find split: option.splits)
qed simp

section \<open>New cash\<close>

lemma get_newcash_supply:
  assumes "0 \<le> supply_left d" "0 \<le> block_reward d" "supply_left d < 2 ^ 63" and "get_newcash d = (n, d')"
  shows "n + supply_left d' = supply_left d \<and> 0 \<le> n \<and> 0 \<le> supply_left d' \<and> n = block_reward d'
    \<and> n \<le> block_reward d \<and> db_accounts d' = db_accounts d"
proof -
  have "wrap64 (supply_left d - block_reward d) = supply_left d - block_reward d" if "supply_left d \<ge> block_reward d"
    using that assms(1-3) by (intro wrap64_id) (simp add: in64_def)
  then show ?thesis using assms by (auto simp: get_newcash_def Let_def split: if_splits)
qed

section \<open>Shares\<close>

text \<open>With amounts of ordinary size, the computed share is never above the exact one.\<close>

lemma twice_rounded:
  fixes x y :: rat
  assumes "x \<le> y + y / 2 ^ 53" "0 \<le> y"
  shows "x + x / 2 ^ 53 \<le> y + 3 * y / 2 ^ 53"
  using assms by (simp add: field_simps)

lemma share_le:
  fixes T w W :: int
  assumes "0 \<le> T" "0 \<le> w" "w \<le> W" "0 < W" "T * W < 2 ^ 51"
  shows "dtrunc (fl (fl (of_int T) * fl (fl (of_int w) / fl (of_int W)))) \<le> T * w div W
    \<and> 0 \<le> dtrunc (fl (fl (of_int T) * fl (fl (of_int w) / fl (of_int W))))"
proof (cases "T = 0")
  case False
  then have T: "0 < T" using assms(1) by simp
  have "1 * W \<le> T * W" "T * 1 \<le> T * W" using T assms(4) by (intro mult_right_mono mult_left_mono; simp)+
  then have "T < 2 ^ 53" "W < 2 ^ 53" using assms(5) by simp_all
  then have ex: "fl (of_int T) = of_int T" "fl (of_int W) = of_int W" "fl (of_int w) = of_int w"
    using assms by (simp_all add: fl_of_int_exact)
  define q :: rat where "q = of_int w / of_int W"
  define z where "z = fl (of_int T * fl q)"
  have q: "0 \<le> q" "q \<le> 1" using assms(2-4) by (simp_all add: q_def)
  have Tq: "0 \<le> of_int T * q" using q(1) T by simp
  have "of_int T * fl q \<le> of_int T * (q + q / 2 ^ 53)" using fl_upper [OF q(1)] T by (intro mult_left_mono) simp_all
  then have t: "of_int T * fl q \<le> of_int T * q + of_int T * q / 2 ^ 53" by (simp only: distrib_left times_divide_eq_right)
  have nn: "0 \<le> of_int T * fl q" using fl_nonneg [OF q(1)] T by simp
  have "z \<le> of_int T * fl q + of_int T * fl q / 2 ^ 53" unfolding z_def using nn by (rule fl_upper)
  also have "\<dots> \<le> of_int T * q + 3 * (of_int T * q) / 2 ^ 53" using t Tq by (rule twice_rounded)
  finally have z: "z \<le> of_int T * q + 3 * (of_int T * q) / 2 ^ 53" .
  have z0: "0 \<le> z" unfolding z_def using nn by (rule fl_nonneg)
  have qW: "of_int T * q * of_int W = of_int (T * w)" using assms(4) by (simp add: q_def)
  have "z * of_int W \<le> (of_int T * q + 3 * (of_int T * q) / 2 ^ 53) * of_int W"
    using z assms(4) by (intro mult_right_mono) simp_all
  also have "\<dots> = of_int (T * w) + 3 * of_int (T * w) / 2 ^ 53"
    using qW by (simp add: distrib_right)
  also have "\<dots> < of_int (T * w) + 1"
  proof -
    have "T * w \<le> T * W" using assms(1,3) by (intro mult_left_mono) simp_all
    then have "3 * (T * w) < 2 ^ 53" using assms(5) by simp
    then have "(of_int (3 * (T * w)) :: rat) < of_int (2 ^ 53)" by (simp only: of_int_less_iff)
    then show ?thesis by simp
  qed
  finally have zW: "z * of_int W < of_int (T * w) + 1" .
  have "of_int (\<lfloor>z\<rfloor> * W) \<le> z * of_int W" using assms(4) by simp
  with zW have "(of_int (\<lfloor>z\<rfloor> * W) :: rat) < of_int (T * w + 1)" by simp
  then have "\<lfloor>z\<rfloor> * W \<le> T * w" by (simp only: of_int_less_iff zle_add1_eq_le zless_add1_eq)
  then have "\<lfloor>z\<rfloor> \<le> T * w div W" using zdiv_mono1 [of "\<lfloor>z\<rfloor> * W" "T * w" W] assms(4) by simp
  then show ?thesis using z0 by (simp add: ex dtrunc_def z_def q_def)
qed (use assms in \<open>simp add: fl_def dtrunc_def\<close>)

section \<open>Rewards\<close>

text \<open>The weight of a node in the distribution: its work, or one when nobody worked.\<close>

definition weight :: "pow_t \<Rightarrow> u64 \<Rightarrow> int" where
  "weight w v = (if pow_sum w > 0 then uint v else 1)"

lemma pow_sum_uint: "om_sum uint w < 2 ^ 64 \<Longrightarrow> uint (pow_sum w) = om_sum uint w"
proof (induction w rule: rev_induct)
  case (snoc kv w)
  obtain k v where kv: "kv = (k, v)" by (cases kv)
  have s: "om_sum uint (w @ [kv]) = om_sum uint w + uint v" by (simp add: om_sum_def kv)
  have "om_sum uint w < 2 ^ 64" using snoc.prems s uint_ge_0 [of v] by linarith
  then have "uint (pow_sum w) = om_sum uint w" by (rule snoc.IH)
  then show ?case using snoc.prems s by (simp add: pow_sum_def kv uint_add_lem [THEN iffD1])
qed (simp add: pow_sum_def)

lemma weight_sum:
  assumes "om_sum uint w < 2 ^ 64"
  shows "om_sum (weight w) w = (if pow_sum w > 0 then uint (pow_sum w) else int (length w))"
proof -
  have "om_sum (\<lambda>_. 1) w = int (length w)" by (induction w) (auto simp: om_sum_def)
  then show ?thesis using pow_sum_uint [OF assms] by (simp add: weight_def om_sum_def)
qed

lemma om_sum_nonneg: "(\<And>v. 0 \<le> f v) \<Longrightarrow> 0 \<le> om_sum f w"
  unfolding om_sum_def by (intro sum_list_nonneg) auto

lemma weight_le:
  assumes "(k, v) \<in> set w"
  shows "0 \<le> weight w v \<and> weight w v \<le> om_sum (weight w) w"
proof -
  have nn: "0 \<le> weight w u" for u by (simp add: weight_def)
  have "weight w v \<in> set (map (\<lambda>(k, v). weight w v) w)" using assms by force
  then have "weight w v \<le> sum_list (map (\<lambda>(k, v). weight w v) w)"
    using nn by (intro member_le_sum_list) auto
  then show ?thesis using nn by (simp add: om_sum_def)
qed

lemma rel_work_weight:
  assumes "om_sum uint w < 2 ^ 64"
  shows "rel_work w v = fl (fl (of_int (weight w v)) / fl (of_int (om_sum (weight w) w)))"
proof -
  have "(of_nat (unat x) :: rat) = of_int (uint x)" for x :: u64 by simp
  moreover have "fl 1 = 1" using fl_of_int_exact [of 1] by simp
  ultimately show ?thesis unfolding weight_sum [OF assms] by (simp add: rel_work_def weight_def)
qed

lemma share_weight:
  assumes "om_sum uint w < 2 ^ 64" "0 \<le> T" "T * om_sum (weight w) w < 2 ^ 51" "(k, v) \<in> set w"
  shows "0 \<le> share T w v \<and> share T w v \<le> T * weight w v div om_sum (weight w) w"
proof -
  have "w \<noteq> []" using assms(4) by auto
  then have "0 < om_sum (weight w) w" unfolding weight_sum [OF assms(1)] by (simp add: word_less_def)
  then show ?thesis
    using share_le [of T "weight w v" "om_sum (weight w) w"] weight_le [OF assms(4)] assms(2,3)
    by (simp add: share_def rel_work_weight [OF assms(1)])
qed

lemma div_sum_le: "0 < W \<Longrightarrow> sum_list (map (\<lambda>x. f x div W) xs) \<le> sum_list (map f xs) div (W :: int)"
proof (induction xs)
  case (Cons x xs)
  have "f x div W + sum_list (map f xs) div W \<le> (f x + sum_list (map f xs)) div W"
    using div_add1_eq [of "f x" "sum_list (map f xs)" W] Cons.prems by (simp add: pos_imp_zdiv_nonneg_iff)
  then show ?case using Cons by simp
qed simp

lemma shares_le:
  assumes "om_sum uint w < 2 ^ 64" "0 \<le> T" "T * om_sum (weight w) w < 2 ^ 51" "w \<noteq> []"
  shows "om_sum (share T w) w \<le> T"
proof -
  let ?W = "om_sum (weight w) w"
  have W: "0 < ?W" unfolding weight_sum [OF assms(1)] using assms(4) by (simp add: word_less_def)
  have "om_sum (share T w) w \<le> sum_list (map (\<lambda>kv. T * weight w (snd kv) div ?W) w)"
    unfolding om_sum_def using share_weight [OF assms(1-3)] by (intro sum_list_mono) (auto simp: om_sum_def)
  also have "\<dots> \<le> sum_list (map (\<lambda>kv. T * weight w (snd kv)) w) div ?W" using W by (rule div_sum_le)
  also have "sum_list (map (\<lambda>kv. T * weight w (snd kv)) w) = T * ?W"
    by (simp add: om_sum_def sum_list_const_mult case_prod_unfold)
  finally show ?thesis using W by simp
qed

lemma pay_ok: "om_ok d \<Longrightarrow> om_ok (snd (pay d k a))"
  by (auto simp: pay_def om_ok_set om_ok_emplace split: option.split)

lemma pay_find: "om_ok d \<Longrightarrow> k' \<noteq> k \<Longrightarrow> om_find (snd (pay d k a)) k' = om_find d k'"
  by (auto simp: pay_def om_find_set om_find_emplace split: option.split)

lemma pay_sum:
  assumes "om_ok d" "0 \<le> a"
  shows "wrap64 (om_sum box (snd (pay d k a)) + r) = wrap64 (om_sum box d + a + r)"
proof (cases "a = 0")
  case False
  then show ?thesis
  proof (cases "om_find d k")
    case None
    then show ?thesis using assms False by (simp add: pay_def om_emplace_def om_sum_set)
  next
    case (Some acc)
    have "om_sum box (snd (pay d k a)) = om_sum box d - box acc + wrap64 (box acc + a)"
      using Some assms False by (simp add: pay_def om_sum_set)
    then show ?thesis by (rule wrap64_replace)
  qed
qed (simp add: pay_def)

text \<open>The loop over the nodes, from any point on.\<close>

lemma pay_loop:
  assumes "om_ok d" "\<forall>(k, v) \<in> set ws. 0 \<le> f v"
    and "foldl (\<lambda>(d, paid) (k, v). let amount = f v in (snd (pay d k amount), wrap64 (paid + amount))) (d, p) ws = (d', p')"
  shows "om_ok d' \<and> wrap64 (om_sum box d' + r) = wrap64 (om_sum box d + om_sum f ws + r) \<and> wrap64 p' = wrap64 (p + om_sum f ws)
    \<and> (\<forall>k. k \<notin> fst ` set ws \<longrightarrow> om_find d' k = om_find d k)"
  using assms
proof (induction ws arbitrary: d p)
  case (Cons kv ws)
  obtain k v where kv: "kv = (k, v)" by (cases kv)
  have v: "0 \<le> f v" "\<forall>(k, v) \<in> set ws. 0 \<le> f v" using Cons.prems(2) by (auto simp: kv)
  have "foldl (\<lambda>(d, paid) (k, v). let amount = f v in (snd (pay d k amount), wrap64 (paid + amount)))
      (snd (pay d k (f v)), wrap64 (p + f v)) ws = (d', p')"
    using Cons.prems(3) by (simp add: kv Let_def)
  note IH = Cons.IH [OF pay_ok [OF Cons.prems(1)] v(2) this]
  have "wrap64 (om_sum box d' + r) = wrap64 (om_sum box (snd (pay d k (f v))) + (om_sum f ws + r))"
    using IH by (simp add: add.assoc)
  also have "\<dots> = wrap64 (om_sum box d + f v + (om_sum f ws + r))" using Cons.prems(1) v(1) by (rule pay_sum)
  finally have "wrap64 (om_sum box d' + r) = wrap64 (om_sum box d + om_sum f (kv # ws) + r)" by (simp add: kv ac_simps)
  moreover have "wrap64 p' = wrap64 (p + om_sum f (kv # ws))" using IH by (simp add: kv wrap64_add_left add.assoc)
  moreover have "om_find d' k' = om_find d k'" if "k' \<notin> fst ` set (kv # ws)" for k'
  proof -
    have "k' \<noteq> k" "k' \<notin> fst ` set ws" using that by (auto simp: kv)
    then show ?thesis using IH pay_find [OF Cons.prems(1), of k' k "f v"] by simp
  qed
  ultimately show ?case using IH by blast
qed auto

lemma pay_shares_ok:
  assumes "om_ok d" and "pay_shares T w d = (d', paid)"
  shows "om_ok d' \<and> (\<forall>k. k \<notin> fst ` set w \<longrightarrow> om_find d' k = om_find d k)"
proof -
  have "foldl (\<lambda>(d, paid) (k, v). let amount = f v in (snd (pay d k amount), wrap64 (paid + amount))) (d, p) ws = (d', p') \<Longrightarrow>
    om_ok d \<Longrightarrow> om_ok d' \<and> (\<forall>k. k \<notin> fst ` set ws \<longrightarrow> om_find d' k = om_find d k)" for f p p' d d' and ws :: pow_t
  proof (induction ws arbitrary: d p)
    case (Cons kv ws)
    then show ?case by (cases kv) (auto simp: Let_def pay_ok pay_find)
  qed auto
  then show ?thesis using assms unfolding pay_shares_def by blast
qed


lemma cash_total_small:
  assumes "0 \<le> n" "0 \<le> f" "(n + f) * W < 2 ^ 51" "0 < W"
  shows "wrap64 (n + f) = n + f" and "n + f < 2 ^ 51"
proof -
  have "(n + f) * 1 \<le> (n + f) * W" using assms(1,2,4) by (intro mult_left_mono) simp_all
  then show "n + f < 2 ^ 51" using assms(3) by simp
  then show "wrap64 (n + f) = n + f" using assms(1,2) by (intro wrap64_id) (simp add: in64_def)
qed

lemma import_rewards_find:
  assumes "om_ok (db_accounts d)" "k \<notin> fst ` set w" "pick < length w \<or> w = []"
  shows "om_find (db_accounts (import_rewards pick fs w d)) k = om_find (db_accounts d) k"
proof (cases "w = []")
  case False
  obtain n d1 where n: "get_newcash d = (n, d1)" by (cases "get_newcash d")
  have d1: "db_accounts d1 = db_accounts d" using n by (auto simp: get_newcash_def Let_def split: if_splits)
  obtain as paid where as: "pay_shares (wrap64 (n + fs)) w (db_accounts d1) = (as, paid)"
    by (cases "pay_shares (wrap64 (n + fs)) w (db_accounts d1)")
  have "fst (w ! pick) \<in> fst ` set w" using assms(3) False by simp
  then have "k \<noteq> fst (w ! pick)" using assms(2) by metis
  then show ?thesis
    using pay_shares_ok [OF _ as] assms(1,2) d1 False pay_find [of as k "fst (w ! pick)"]
    by (auto simp: import_rewards_def n as [unfolded d1] Let_def)
qed (simp add: import_rewards_def)

text \<open>The delta that wins the vote.\<close>

interpretation ld: vote_equality "ld_same jbuf" for jbuf
  by unfold_locales (auto simp: ld_same_def)

lemma merges_dm: "dm (foldl (delta_merge jbuf) d ds) = foldl (majority_merge (ld_same jbuf)) (dm d) ds"
  by (induction ds arbitrary: d) (simp_all add: delta_merge_def Let_def split: prod.split)

lemma merged_dg:
  obtains r where "majority_end_merge local_delta0 (foldl (majority_merge (ld_same jbuf)) [] ds)
    = (dg (delta_end_merge (foldl (delta_merge jbuf) delta0 ds)), r)"
proof -
  have "dm (foldl (delta_merge jbuf) delta0 ds) = foldl (majority_merge (ld_same jbuf)) [] ds"
    by (simp add: merges_dm delta0_def)
  then show ?thesis
    using that by (cases "majority_end_merge local_delta0 (foldl (majority_merge (ld_same jbuf)) [] ds)") (simp add: delta_end_merge_def)
qed

section \<open>Properties of the consensus step\<close>



text \<open>
  The policies take part in the vote on the accounts: when three nodes of five send the same
  accounts and fees but different policy votes, the mempool that the other two agree on wins.
\<close>

theorem delta_minority_wins:
  assumes "lpolicies b = [4]"
  shows "dg (delta_end_merge (foldl (delta_merge jbuf) delta0
    [a\<lparr>lpolicies := [1]\<rparr>, a\<lparr>lpolicies := [2]\<rparr>, a\<lparr>lpolicies := [3]\<rparr>, b, b])) = b"
proof -
  let ?ds = "[a\<lparr>lpolicies := [1]\<rparr>, a\<lparr>lpolicies := [2]\<rparr>, a\<lparr>lpolicies := [3]\<rparr>, b, b]"
  obtain r where "majority_end_merge local_delta0 (foldl (majority_merge (ld_same jbuf)) [] ?ds)
    = (dg (delta_end_merge (foldl (delta_merge jbuf) delta0 ?ds)), r)" by (rule merged_dg)
  moreover have "foldl (majority_merge (ld_same jbuf)) [] ?ds =
      [(a\<lparr>lpolicies := [1]\<rparr>, 1), (a\<lparr>lpolicies := [2]\<rparr>, 1), (a\<lparr>lpolicies := [3]\<rparr>, 1), (b, 2)]"
    using assms by (simp add: ld_same_def)
  ultimately show ?thesis by (simp add: majority_end_merge_def del: foldl_Cons)
qed

theorem delta_minority_wins_witness:
  "dg (delta_end_merge (foldl (delta_merge []) delta0
    [local_delta0\<lparr>fees := 7, lpolicies := [1]\<rparr>, local_delta0\<lparr>fees := 7, lpolicies := [2]\<rparr>,
     local_delta0\<lparr>fees := 7, lpolicies := [3]\<rparr>, local_delta0\<lparr>lpolicies := [4]\<rparr>, local_delta0\<lparr>lpolicies := [4]\<rparr>]))
   = local_delta0\<lparr>lpolicies := [4]\<rparr>"
  using delta_minority_wins [of "local_delta0\<lparr>lpolicies := [4]\<rparr>" "[]" "local_delta0\<lparr>fees := 7\<rparr>"] by simp



text \<open>
  C11. The rewards of a block are paid out completely: with amounts of ordinary size (total cash
  times total work below \<open>2 ^ 51\<close>, the range in which the products of doubles cannot round a share up), the
  sum of all balances and of the supply that is left grows by exactly the fees, modulo the
  width of \<open>cash_t\<close>; the supply never becomes negative.
\<close>

theorem rewards_complete:
  assumes "om_ok (db_accounts d)" "0 \<le> supply_left d" "supply_left d < 2 ^ 63" "0 \<le> block_reward d" "0 \<le> fs" "w \<noteq> []"
    and "om_sum uint w < 2 ^ 64" "(block_reward d + fs) * om_sum (weight w) w < 2 ^ 51"
  shows "wrap64 (om_sum box (db_accounts (import_rewards pick fs w d)) + supply_left (import_rewards pick fs w d)) =
    wrap64 (om_sum box (db_accounts d) + supply_left d + fs)
    \<and> 0 \<le> supply_left (import_rewards pick fs w d) \<and> om_ok (db_accounts (import_rewards pick fs w d))"
proof -
  let ?W = "om_sum (weight w) w"
  obtain n d1 where n: "get_newcash d = (n, d1)" by (cases "get_newcash d")
  note sup = get_newcash_supply [OF assms(2,4,3) n]
  have W: "0 < ?W" unfolding weight_sum [OF assms(7)] using assms(6) by (simp add: word_less_def)
  have "(n + fs) * ?W \<le> (block_reward d + fs) * ?W" using sup W by (intro mult_right_mono) simp_all
  then have T: "(n + fs) * ?W < 2 ^ 51" "0 \<le> n + fs" using assms(5,8) sup by simp_all
  have tot: "wrap64 (n + fs) = n + fs" "n + fs < 2 ^ 51" using cash_total_small [OF _ assms(5) T(1) W] sup by simp_all
  obtain as paid where as: "pay_shares (n + fs) w (db_accounts d1) = (as, paid)"
    by (cases "pay_shares (n + fs) w (db_accounts d1)")
  let ?s = "om_sum (share (n + fs) w) w"
  have nn: "\<forall>(k, v) \<in> set w. 0 \<le> share (n + fs) w v" using share_weight [OF assms(7) T(2,1)] by auto
  note loop = pay_loop [OF _ nn as [unfolded pay_shares_def]]
  have s: "0 \<le> ?s" "?s \<le> n + fs"
    using shares_le [OF assms(7) T(2,1) assms(6)] nn unfolding om_sum_def by (auto intro!: sum_list_nonneg)
  have as': "om_ok as" "wrap64 (om_sum box as + r) = wrap64 (om_sum box (db_accounts d) + ?s + r)" for r
    using loop [of r] assms(1) sup by simp_all
  have "wrap64 (n + fs - paid) = wrap64 (n + fs - ?s)"
    using loop assms(1) sup wrap64_diff_right [of "n + fs" paid] wrap64_diff_right [of "n + fs" ?s] by simp
  then have rem: "wrap64 (n + fs - paid) = n + fs - ?s" using s tot(2) by (simp add: in64_def)
  let ?as = "snd (pay as (fst (w ! pick)) (n + fs - ?s))"
  have "import_rewards pick fs w d = d1\<lparr>db_accounts := ?as\<rparr>"
    using assms(6) s by (auto simp: import_rewards_def n tot as rem Let_def pay_def)
  moreover have "wrap64 (om_sum box ?as + supply_left d1) = wrap64 (om_sum box (db_accounts d) + supply_left d + fs)"
  proof -
    have "wrap64 (om_sum box ?as + supply_left d1) = wrap64 (om_sum box as + (n + fs - ?s + supply_left d1))"
      using pay_sum [OF as'(1)] s by (simp add: add.assoc)
    also have "\<dots> = wrap64 (om_sum box (db_accounts d) + ?s + (n + fs - ?s + supply_left d1))" by (rule as'(2))
    also have "om_sum box (db_accounts d) + ?s + (n + fs - ?s + supply_left d1) = om_sum box (db_accounts d) + supply_left d + fs"
      using sup by simp
    finally show ?thesis .
  qed
  ultimately show ?thesis using sup pay_ok [OF as'(1)] by simp
qed

theorem rewards_complete_witness:
  "wrap64 (om_sum box (db_accounts (import_rewards 1 7 [(Hash 1 0 0, 3), (Hash 2 0 0, 4)] db_clear))
      + supply_left (import_rewards 1 7 [(Hash 1 0 0, 3), (Hash 2 0 0, 4)] db_clear)) = 2100000000000007"
  using rewards_complete [of db_clear 7 "[(Hash 1 0 0, 3), (Hash 2 0 0, 4)]" 1]
  by (simp add: db_clear_def om_empty_def weight_def pow_sum_def wrap64_def)

section \<open>Text forms\<close>

definition wf_db :: "db_t \<Rightarrow> bool" where
  "wf_db d \<longleftrightarrow> om_ok (db_accounts d) \<and> length (db_accounts d) < 2 ^ 64 \<and> (\<forall>(k, a) \<in> set (db_accounts d). in64 (box a))
     \<and> in64 (supply_left d) \<and> in64 (block_reward d)"

lemma account_read_written:
  "in64 (box a) \<Longrightarrow> account_from_stream (istr (CHR '' '' # account_to_stream a @ r)) = (a, istr (CHR '' '' # r))"
  by (simp add: account_from_stream_def account_to_stream_def stream_simps)

lemma om_emplace_last: "om_ok (m @ (k, v) # m') \<Longrightarrow> om_emplace k v m = m @ [(k, v)]"
proof -
  assume ok: "om_ok (m @ (k, v) # m')"
  have set_last: "om_ok (m @ [(k, v)]) \<Longrightarrow> om_set k v m = m @ [(k, v)]"
    by (induction m) (auto simp: om_ok_def)
  have "om_ok (m @ [(k, v)])" "k \<notin> fst ` set m" using ok by (auto simp: om_ok_def sorted_wrt_append)
  then show ?thesis using set_last by (simp add: om_emplace_def om_find_None [THEN iffD2])
qed

lemma read_accounts_written:
  "om_ok (m @ as) \<Longrightarrow> \<forall>(k, a) \<in> set as. in64 (box a) \<Longrightarrow>
   read_accounts (length as) m (istr (CHR '' '' # concat (map (\<lambda>(k, a). show_hash k @ '' '' @ account_to_stream a) as) @ r))
     = (m @ as, istr (CHR '' '' # r))"
proof (induction as arbitrary: m)
  case (Cons ka as)
  obtain k a where ka: "ka = (k, a)" by (cases ka)
  have e: "om_emplace k a m = m @ [(k, a)]" using om_emplace_last [of m k a as] Cons.prems(1) by (simp add: ka)
  show ?case
    using Cons.IH [of "m @ [(k, a)]"] Cons.prems
    by (simp add: ka stream_simps account_read_written e)
qed simp

text \<open>A ledger written by \<open>db_t::to_stream\<close> is the one read back by \<open>db_t::from_stream\<close>.\<close>

theorem db_roundtrip:
  assumes "wf_db d"
  shows "db_from_stream junk (istr (db_to_stream d)) = d"
proof -
  let ?r = "show_int (supply_left d) @ '' '' @ show_int (block_reward d)"
  have wf: "om_ok (db_accounts d)" "length (db_accounts d) < 2 ^ 64" "\<forall>(k, a) \<in> set (db_accounts d). in64 (box a)"
      "in64 (supply_left d)" "in64 (block_reward d)"
    using assms by (auto simp: wf_db_def)
  have a: "accounts_from_stream junk (istr (accounts_to_stream (db_accounts d) @ CHR '' '' # ?r)) =
      (db_accounts d, istr (CHR '' '' # CHR '' '' # ?r))"
    using read_accounts_written [of "[]" "db_accounts d" "CHR '' '' # ?r"] wf(1-3)
    by (simp add: accounts_from_stream_def accounts_to_stream_def read_unsigned_show om_empty_def)
  have "fst (read_signed 64 (istr (show_int (block_reward d)))) = Some (block_reward d)"
    using wf(5) by (intro read_signed_last) (simp_all add: in64_def)
  then obtain z where "read_signed 64 (istr (show_int (block_reward d))) = (Some (block_reward d), z)" by (metis prod.collapse)
  then have "db_from_stream junk (istr (accounts_to_stream (db_accounts d) @ CHR '' '' # ?r)) = d"
    unfolding db_from_stream_def a using wf(4) by (simp add: stream_simps)
  then show ?thesis by (simp add: db_to_stream_def)
qed

theorem db_roundtrip_witness: "db_from_stream 9 (istr (db_to_stream (db overdraft_app))) = db overdraft_app"
  by (rule db_roundtrip) (simp add: wf_db_def overdraft_app_def cash_app0_def db_clear_def om_ok_def in64_def)

text \<open>
  An input made by \<open>p2pkh::create_input\<close> is accepted exactly when the public key in it hashes to
  the address and the signature verifies, for this key, on the signature hash of the transaction.
\<close>

lemma p2pkh_check:
  assumes "token sig" "token pk"
  shows "p2pkh_check_input lib jbuf jint address t i (p2pkh_create_input sig sc pk) \<longleftrightarrow>
    pub_hash lib (pub_of_text lib pk) = address \<and>
    (\<exists>h. tx_get_hash jbuf t i sc = Some h \<and> ec_verify lib (pub_of_text lib pk) h sig)"
proof -
  have "uint sc < 2 ^ 8" using uint_lt2p [of sc] by simp
  then have "read_signed 32 (istr (show_int (uint sc) @ CHR '' '' # pk)) = (Some (uint sc), istr (CHR '' '' # pk))"
    by (intro read_signed_show) (simp_all add: order_trans [OF _ uint_ge_0])
  moreover obtain r where "read_string (istr pk) = (pk, r)" using read_string_last [OF assms(2)] by (metis prod.collapse)
  ultimately show ?thesis
    using assms by (auto simp: p2pkh_check_input_def p2pkh_create_input_def stream_simps Let_def split: option.split)
qed

end
