(* ===== verification/Unordered_Map.thy ===== *)
theory Unordered_Map
  imports "HOL-Library.Multiset"
begin

text \<open>
  \<open>std::unordered_map\<close> where the program depends on the order of iteration: the entries in that
  order. Where a new entry goes is decided by the library; the function \<open>place\<close> that decides it is a
  parameter, which is only required to keep the other entries (\<open>placement\<close>).
\<close>

type_synonym ('k, 'v) umap = "('k \<times> 'v) list"
type_synonym ('k, 'v) place = "('k, 'v) umap \<Rightarrow> 'k \<times> 'v \<Rightarrow> ('k, 'v) umap"

definition um_find :: "('k, 'v) umap \<Rightarrow> 'k \<Rightarrow> 'v option" where "um_find m k = map_of m k"

definition um_emplace :: "('k, 'v) place \<Rightarrow> 'k \<Rightarrow> 'v \<Rightarrow> ('k, 'v) umap \<Rightarrow> ('k, 'v) umap" where
  "um_emplace place k v m = (case um_find m k of None \<Rightarrow> place m (k, v) | Some _ \<Rightarrow> m)"

definition um_erase :: "'k \<Rightarrow> ('k, 'v) umap \<Rightarrow> ('k, 'v) umap" where
  "um_erase k m = filter (\<lambda>(k', v). k' \<noteq> k) m"

definition um_keys :: "('k, 'v) umap \<Rightarrow> 'k set" where "um_keys m = fst ` set m"

definition um_ok :: "('k, 'v) umap \<Rightarrow> bool" where "um_ok m \<longleftrightarrow> distinct (map fst m)"

definition placement :: "('k, 'v) place \<Rightarrow> bool" where
  "placement place \<longleftrightarrow> (\<forall>m e. mset (place m e) = add_mset e (mset m))"

lemma um_find_None: "um_find m k = None \<longleftrightarrow> k \<notin> um_keys m"
  by (simp add: um_find_def um_keys_def map_of_eq_None_iff)

lemma placement_front: "placement (\<lambda>m e. e # m)"
  by (simp add: placement_def)

lemma placement_set: "placement place \<Longrightarrow> set (place m e) = insert e (set m)"
  by (metis placement_def set_mset_add_mset_insert set_mset_mset)

lemma placement_distinct:
  assumes "placement place"
  shows "distinct (map fst (place m e)) \<longleftrightarrow> fst e \<notin> um_keys m \<and> um_ok m"
proof -
  have "mset (map fst (place m e)) = mset (map fst (e # m))" using assms by (cases e) (simp add: placement_def)
  then have "distinct (map fst (place m e)) = distinct (map fst (e # m))" by (rule mset_eq_imp_distinct_iff)
  then show ?thesis by (simp add: um_keys_def um_ok_def)
qed

lemma um_keys_emplace: "placement place \<Longrightarrow> um_keys (um_emplace place k v m) = insert k (um_keys m)"
  by (cases "um_find m k") (auto simp: um_emplace_def um_keys_def placement_set um_find_def dest: map_of_SomeD intro: rev_image_eqI)

lemma um_ok_emplace: "placement place \<Longrightarrow> um_ok m \<Longrightarrow> um_ok (um_emplace place k v m)"
  using placement_distinct [of place m "(k, v)"] um_find_None [of m k]
  by (cases "um_find m k") (auto simp: um_emplace_def um_ok_def)

lemma um_find_emplace:
  assumes "placement place" "um_ok m"
  shows "um_find (um_emplace place k v m) k' = (if k' = k \<and> um_find m k = None then Some v else um_find m k')"
proof (cases "um_find m k")
  case None
  have ok: "um_ok (place m (k, v))" using um_ok_emplace [OF assms, of k v] None by (simp add: um_emplace_def)
  have "um_find (place m (k, v)) k' = (if k' = k then Some v else um_find m k')"
  proof (cases "k' = k")
    case True
    then show ?thesis using ok placement_set [OF assms(1), of m "(k, v)"] by (simp add: um_find_def um_ok_def map_of_eq_Some_iff)
  next
    case False
    then have "(k', x) \<in> set (place m (k, v)) \<longleftrightarrow> (k', x) \<in> set m" for x by (simp add: placement_set [OF assms(1)])
    then have "map_of (place m (k, v)) k' = Some x \<longleftrightarrow> map_of m k' = Some x" for x
      using ok assms(2) by (simp add: um_ok_def map_of_eq_Some_iff)
    then have "map_of (place m (k, v)) k' = map_of m k'" by (metis not_Some_eq)
    then show ?thesis using False by (simp add: um_find_def)
  qed
  then show ?thesis using None by (simp add: um_emplace_def)
qed (simp add: um_emplace_def)

lemma um_keys_erase: "um_keys (um_erase k m) = um_keys m - {k}"
  by (auto simp: um_keys_def um_erase_def)

lemma um_ok_erase: "um_ok m \<Longrightarrow> um_ok (um_erase k m)"
  unfolding um_ok_def um_erase_def by (induction m) auto

lemma length_um_erase: "um_ok m \<Longrightarrow> k \<in> um_keys m \<Longrightarrow> Suc (length (um_erase k m)) = length m"
proof (induction m)
  case (Cons e m)
  obtain k1 v1 where e: "e = (k1, v1)" by (cases e)
  show ?case
  proof (cases "k1 = k")
    case True
    then have "k \<notin> fst ` set m" using Cons.prems(1) by (simp add: e um_ok_def)
    then have "filter (\<lambda>(k', v). k' \<noteq> k) m = m" by (intro filter_True) force
    then show ?thesis using True by (simp add: um_erase_def e)
  next
    case False
    then show ?thesis using Cons by (simp add: um_erase_def um_ok_def um_keys_def e)
  qed
qed (simp add: um_keys_def)

end
