(* ===== verification/Ec_Keys.thy ===== *)
theory Ec_Keys
  imports Cash_Tx
begin

text \<open>
  The wrapper of the elliptic-curve library, \<open>src/gov/crypto/ec.{h,cpp}\<close>: keys and their textual
  forms, signing and verification.

  The library \<open>libsecp256k1\<close> itself is a parameter, a record of the functions the wrapper calls; a
  function that may fail returns an option. A key pair signs properly (\<open>secp_signs\<close>) when the library
  signs every message with it, can print and parse the signature, and verifies it.
\<close>

section \<open>The library\<close>

record secp =
  sc_create :: "byte list \<Rightarrow> byte list option"
  sc_serialize :: "byte list \<Rightarrow> byte list option"
  sc_parse :: "byte list \<Rightarrow> byte list option"
  sc_seckey_verify :: "byte list \<Rightarrow> bool"
  sc_sign :: "byte list \<Rightarrow> byte list \<Rightarrow> byte list option"
  sc_sig_der :: "byte list \<Rightarrow> byte list option"
  sc_sig_parse :: "byte list \<Rightarrow> byte list option"
  sc_sig_normalize :: "byte list \<Rightarrow> byte list"
  sc_verify :: "byte list \<Rightarrow> byte list \<Rightarrow> byte list \<Rightarrow> bool"
  sc_ecdh :: "byte list \<Rightarrow> byte list \<Rightarrow> byte list option"

section \<open>Keys\<close>

text \<open>\<open>pub_t\<close>: the 64 bytes of the library, a flag, and the cache of the hash.\<close>

record pub_t =
  pdata :: "byte list"
  valid :: bool
  hcached :: "hash_t option"

record keys_t =
  priv :: "byte list"
  pub :: pub_t

text \<open>A new \<open>pub_t\<close> does not initialise the data.\<close>

definition pub_new :: "byte list \<Rightarrow> pub_t" where
  "pub_new junk = \<lparr>pdata = junk, valid = False, hcached = None\<rparr>"

definition pub_zero :: "pub_t \<Rightarrow> pub_t" where "pub_zero k = k\<lparr>valid := False\<rparr>"

definition keys_of_priv :: "secp \<Rightarrow> byte list \<Rightarrow> byte list \<Rightarrow> keys_t" where
  "keys_of_priv lib junk pk =
     \<lparr>priv = pk,
      pub = (case sc_create lib pk of
               None \<Rightarrow> pub_zero (pub_new junk)
             | Some d \<Rightarrow> (pub_new junk)\<lparr>pdata := d, valid := True\<rparr>)\<rparr>"

definition get_pubkey :: "secp \<Rightarrow> byte list \<Rightarrow> byte list \<Rightarrow> pub_t" where
  "get_pubkey lib junk privk =
     (case sc_create lib privk of
        None \<Rightarrow> pub_zero (pub_new junk)
      | Some d \<Rightarrow> (pub_new junk)\<lparr>pdata := d, valid := True\<rparr>)"

definition pub_compute_hash :: "secp \<Rightarrow> byte list \<Rightarrow> pub_t \<Rightarrow> hash_t" where
  "pub_compute_hash lib jbuf k =
     (if \<not> valid k then hash_set 0
      else case sc_serialize lib (pdata k) of
             None \<Rightarrow> hash_set 0
           | Some out \<Rightarrow> ripemd160_value (ripemd160_write (ripemd160_new jbuf) (take 33 out)))"

definition pub_get_hash :: "secp \<Rightarrow> byte list \<Rightarrow> pub_t \<Rightarrow> hash_t \<times> pub_t" where
  "pub_get_hash lib jbuf k =
     (case hcached k of
        Some h \<Rightarrow> (h, k)
      | None \<Rightarrow> let h = pub_compute_hash lib jbuf k in (h, k\<lparr>hcached := Some h\<rparr>))"

text \<open>Assigning a text to a key calls the static function \<open>from_b58\<close> and ignores its result.\<close>

definition pub_from_b58 :: "secp \<Rightarrow> byte list \<Rightarrow> string \<Rightarrow> pub_t" where
  "pub_from_b58 lib junk s =
     (let k = pub_new junk
      in case decode s of
           None \<Rightarrow> pub_zero k
         | Some v \<Rightarrow>
             (if v = [] then pub_zero k
              else case sc_parse lib v of
                     None \<Rightarrow> pub_zero k
                   | Some d \<Rightarrow> k\<lparr>pdata := d, valid := True\<rparr>))"

definition pub_assign_text :: "secp \<Rightarrow> byte list \<Rightarrow> pub_t \<Rightarrow> string \<Rightarrow> pub_t" where
  "pub_assign_text lib junk k b58 = (let r = pub_from_b58 lib junk b58 in k)"

definition pub_set_b58 :: "secp \<Rightarrow> pub_t \<Rightarrow> string \<Rightarrow> bool \<times> pub_t" where
  "pub_set_b58 lib k s =
     (case decode s of
        None \<Rightarrow> (False, k)
      | Some v \<Rightarrow>
          (if length v \<noteq> 33 then (False, k)
           else case sc_parse lib v of
                  None \<Rightarrow> (False, k\<lparr>valid := False\<rparr>)
                | Some d \<Rightarrow> (True, k\<lparr>pdata := d, valid := True\<rparr>)))"

definition pub_to_b58 :: "secp \<Rightarrow> pub_t \<Rightarrow> string option" where
  "pub_to_b58 lib k =
     (if \<not> valid k then Some []
      else case sc_serialize lib (pdata k) of
             None \<Rightarrow> Some []
           | Some out \<Rightarrow> encode out)"

definition pub_eq :: "pub_t \<Rightarrow> pub_t \<Rightarrow> bool" where
  "pub_eq a b \<longleftrightarrow> pdata a = pdata b"

text \<open>Hexadecimal digits, two for each byte, as \<open>hex << setfill('0') << setw(2)\<close> prints them.\<close>

definition hex_digit :: "nat \<Rightarrow> char" where
  "hex_digit d = (if d < 10 then char_of (48 + d) else char_of (87 + d))"

definition hex_text :: "byte list \<Rightarrow> string" where
  "hex_text bs = concat (map (\<lambda>b. [hex_digit (unat b div 16), hex_digit (unat b mod 16)]) bs)"

definition pub_to_hex :: "secp \<Rightarrow> pub_t \<Rightarrow> string" where
  "pub_to_hex lib k =
     (if \<not> valid k then []
      else case sc_serialize lib (pdata k) of None \<Rightarrow> [] | Some out \<Rightarrow> hex_text out)"

text \<open>Private keys: the overload of \<open>decode\<close> for 32 bytes, and the check of zero.\<close>

definition priv_set_b58 :: "byte list \<Rightarrow> string \<Rightarrow> bool \<times> byte list" where
  "priv_set_b58 k s =
     (case decode32 s of Decoded v \<Rightarrow> (True, v) | _ \<Rightarrow> (False, k))"

definition priv_from_b58 :: "string \<Rightarrow> byte list" where
  "priv_from_b58 s =
     (case decode32 s of Decoded v \<Rightarrow> v | _ \<Rightarrow> replicate 32 0)"

definition priv_to_b58 :: "byte list \<Rightarrow> string option" where "priv_to_b58 k = encode k"

text \<open>
  \<open>is_zero\<close> indexes the pointer \<open>this\<close> (whose elements are whole keys) instead of the bytes: after the
  first eight bytes it reads the memory 8, 16 and 24 keys further on, here \<open>beyond\<close>.
\<close>

definition priv_is_zero :: "u64 list \<Rightarrow> byte list \<Rightarrow> bool" where
  "priv_is_zero beyond k \<longleftrightarrow> take 8 k = replicate 8 0 \<and> list_all (\<lambda>w. w = 0) (take 3 beyond)"

definition keys_verify :: "secp \<Rightarrow> u64 list \<Rightarrow> byte list \<Rightarrow> bool" where
  "keys_verify lib beyond k \<longleftrightarrow> \<not> priv_is_zero beyond k \<and> sc_seckey_verify lib k"

text \<open>\<open>generate\<close>: 32 bytes from the entropy file, \<open>None\<close> when the process exits.\<close>

definition keys_generate :: "secp \<Rightarrow> u64 list \<Rightarrow> byte list \<Rightarrow> byte list option \<Rightarrow> keys_t option" where
  "keys_generate lib beyond junk entropy =
     (case entropy of
        None \<Rightarrow> None
      | Some k \<Rightarrow> if \<not> keys_verify lib beyond k then None else Some \<lparr>priv = k, pub = get_pubkey lib junk k\<rparr>)"

section \<open>Signatures\<close>

definition sha_text :: "byte list \<Rightarrow> string \<Rightarrow> byte list" where
  "sha_text jbuf t = fst (sha256_finalize (sha256_write (sha256_new jbuf) (bytes_of_string t)))"

text \<open>When signing fails the 72 bytes allocated for the signature are returned as they are.\<close>

definition sign_hash :: "secp \<Rightarrow> byte list \<Rightarrow> byte list \<Rightarrow> byte list" where
  "sign_hash lib pk h =
     (case sc_sign lib h pk of
        None \<Rightarrow> replicate 72 0
      | Some s \<Rightarrow> (case sc_sig_der lib s of None \<Rightarrow> [] | Some der \<Rightarrow> der))"

definition sign_text :: "secp \<Rightarrow> byte list \<Rightarrow> byte list \<Rightarrow> string \<Rightarrow> byte list" where
  "sign_text lib jbuf pk t = sign_hash lib pk (sha_text jbuf t)"

text \<open>\<open>to_b58\<close> dereferences the first and last byte: undefined for an empty vector.\<close>

definition ec_to_b58 :: "byte list \<Rightarrow> string option" where
  "ec_to_b58 v = (if v = [] then None else encode v)"

definition ec_from_b58 :: "string \<Rightarrow> byte list" where
  "ec_from_b58 s = (case decode s of None \<Rightarrow> [] | Some v \<Rightarrow> v)"

definition sign_encode :: "secp \<Rightarrow> byte list \<Rightarrow> byte list \<Rightarrow> string \<Rightarrow> string option" where
  "sign_encode lib jbuf pk t = ec_to_b58 (sign_text lib jbuf pk t)"

definition sign_encode_hash :: "secp \<Rightarrow> byte list \<Rightarrow> byte list \<Rightarrow> string option" where
  "sign_encode_hash lib pk h = ec_to_b58 (sign_hash lib pk h)"

definition verify_hash :: "secp \<Rightarrow> pub_t \<Rightarrow> byte list \<Rightarrow> string \<Rightarrow> bool" where
  "verify_hash lib pk msgh s =
     (if s = [] then False
      else let sighex = ec_from_b58 s
           in if sighex = [] then False
              else case sc_sig_parse lib sighex of
                     None \<Rightarrow> False
                   | Some sig \<Rightarrow> sc_verify lib sig msgh (pdata pk))"

definition verify_text :: "secp \<Rightarrow> byte list \<Rightarrow> pub_t \<Rightarrow> string \<Rightarrow> string \<Rightarrow> bool" where
  "verify_text lib jbuf pk t s = verify_hash lib pk (sha_text jbuf t) s"

definition verify_hash_not_normalized :: "secp \<Rightarrow> pub_t \<Rightarrow> byte list \<Rightarrow> string \<Rightarrow> bool" where
  "verify_hash_not_normalized lib pk msgh s =
     (if s = [] then False
      else let sighex = ec_from_b58 s
           in if sighex = [] then False
              else case sc_sig_parse lib sighex of
                     None \<Rightarrow> False
                   | Some sig \<Rightarrow> sc_verify lib (sc_sig_normalize lib sig) msgh (pdata pk))"

definition verify_text_not_normalized :: "secp \<Rightarrow> byte list \<Rightarrow> pub_t \<Rightarrow> string \<Rightarrow> string \<Rightarrow> bool" where
  "verify_text_not_normalized lib jbuf pk t s = verify_hash_not_normalized lib pk (sha_text jbuf t) s"

text \<open>\<open>generate_shared_key\<close> copies \<open>size\<close> bytes out of an array of 32; \<open>mem\<close> is what lies behind it.\<close>

definition generate_shared_key :: "secp \<Rightarrow> byte list \<Rightarrow> nat \<Rightarrow> byte list \<Rightarrow> pub_t \<Rightarrow> byte list option" where
  "generate_shared_key lib mem sz pk k =
     (case sc_ecdh lib (pdata k) pk of None \<Rightarrow> None | Some t \<Rightarrow> Some (take sz (t @ mem)))"

text \<open>The stream operators of public keys.\<close>

definition show_pub :: "secp \<Rightarrow> pub_t \<Rightarrow> string" where
  "show_pub lib k = (case pub_to_b58 lib k of Some s \<Rightarrow> s | None \<Rightarrow> [])"

definition read_pub :: "secp \<Rightarrow> pub_t \<Rightarrow> istream \<Rightarrow> pub_t \<times> istream" where
  "read_pub lib k is =
     (let (s, is) = read_string is;
          (ok, k) = pub_set_b58 lib k s
      in if ok then (k, is) else (pub_zero k, setfail is))"

section \<open>What the library promises\<close>

definition secp_signs :: "secp \<Rightarrow> byte list \<Rightarrow> bool" where
  "secp_signs lib sk \<longleftrightarrow>
     (\<forall>h. \<exists>s der. sc_sign lib h sk = Some s \<and> sc_sig_der lib s = Some der \<and> der \<noteq> [] \<and> sc_sig_parse lib der = Some s \<and>
        (\<forall>p. sc_create lib sk = Some p \<longrightarrow> sc_verify lib s h p))"

definition secp_prints :: "secp \<Rightarrow> byte list \<Rightarrow> bool" where
  "secp_prints lib p \<longleftrightarrow> (\<exists>out. sc_serialize lib p = Some out \<and> length out = 33 \<and> sc_parse lib out = Some p)"

text \<open>A library for examples: keys are their own public keys, a signature is the message and the key.\<close>

definition toy_secp :: secp where
  "toy_secp = \<lparr>sc_create = Some, sc_serialize = (\<lambda>p. Some (take 33 (p @ replicate 33 0))), sc_parse = (\<lambda>b. Some (take 32 b)),
     sc_seckey_verify = (\<lambda>k. True), sc_sign = (\<lambda>h sk. Some (1 # h @ sk)), sc_sig_der = Some, sc_sig_parse = Some,
     sc_sig_normalize = id, sc_verify = (\<lambda>s h p. s = 1 # h @ p), sc_ecdh = (\<lambda>p k. Some (replicate 32 0))\<rparr>"

lemma toy_signs: "secp_signs toy_secp sk"
  by (simp add: secp_signs_def toy_secp_def)

lemma toy_prints: "length p = 32 \<Longrightarrow> secp_prints toy_secp p"
  by (simp add: secp_prints_def toy_secp_def)

section \<open>Lemmas\<close>

lemma sha_text_fips: "length jbuf = 64 \<Longrightarrow> sha_text jbuf t = fips_sha256 (bytes_of_string t)"
  using sha.finalize_digest [OF sha.write_holds [OF sha256_new_holds]] by (simp add: sha_text_def std_digest_fips)

lemma pub_compute_hash_spec:
  "length jbuf = 64 \<Longrightarrow> valid k \<Longrightarrow> sc_serialize lib (pdata k) = Some out \<Longrightarrow>
   pub_compute_hash lib jbuf k = hash_of_bytes (rmd160 (take 33 out))"
  using rmd.finalize_digest [OF rmd.write_holds [OF ripemd160_new_holds]]
  by (simp add: pub_compute_hash_def ripemd160_value_def std_digest_rmd160)

lemma ec_b58_roundtrip:
  assumes "v \<noteq> []"
  obtains s where "ec_to_b58 v = Some s" "ec_from_b58 s = v" "s \<noteq> []" "token s"
proof -
  obtain s where "encode v = Some s" "decode s = Some v" "set s \<subseteq> set pszBase58" "v \<noteq> [] \<longrightarrow> s \<noteq> []"
    by (rule encode_text)
  then show ?thesis using that [of s] assms token_alphabet [of s] by (simp add: ec_to_b58_def ec_from_b58_def)
qed

lemma sign_encode_verifies:
  assumes "secp_signs lib sk" and "sc_create lib sk = Some p" and "pdata k = p"
  obtains s where "sign_encode lib jbuf sk t = Some s" "token s" "verify_text lib jbuf k t s"
proof -
  obtain g der where g: "sc_sign lib (sha_text jbuf t) sk = Some g" "sc_sig_der lib g = Some der" "der \<noteq> []"
      "sc_sig_parse lib der = Some g" "sc_verify lib g (sha_text jbuf t) p"
    using assms(1,2) unfolding secp_signs_def by blast
  obtain s where s: "ec_to_b58 der = Some s" "ec_from_b58 s = der" "s \<noteq> []" "token s"
    using ec_b58_roundtrip [OF g(3)] .
  show ?thesis
    using that [of s] g s assms(3) by (simp add: sign_encode_def sign_text_def sign_hash_def verify_text_def verify_hash_def)
qed

lemma pub_text:
  assumes "valid k" "secp_prints lib (pdata k)"
  obtains s where "pub_to_b58 lib k = Some s" "token s" "\<forall>k'. pub_set_b58 lib k' s = (True, k'\<lparr>pdata := pdata k, valid := True\<rparr>)"
proof -
  obtain out where out: "sc_serialize lib (pdata k) = Some out" "length out = 33" "sc_parse lib out = Some (pdata k)"
    using assms(2) by (auto simp: secp_prints_def)
  obtain s where s: "encode out = Some s" "decode s = Some out" "set s \<subseteq> set pszBase58" "out \<noteq> [] \<longrightarrow> s \<noteq> []"
    by (rule encode_text)
  have "s \<noteq> []" using s(4) out(2) by auto
  then show ?thesis
    using that [of s] s out assms(1) token_alphabet [of s] by (simp add: pub_to_b58_def pub_set_b58_def)
qed

lemma read_pub_show [stream_simps]:
  assumes "valid k" "secp_prints lib (pdata k)" "isspace c"
  shows "read_pub lib k' (istr (show_pub lib k @ c # r)) = (k'\<lparr>pdata := pdata k, valid := True\<rparr>, istr (c # r))"
    and "token (show_pub lib k)"
proof -
  obtain s where s: "pub_to_b58 lib k = Some s" "token s" "\<forall>k'. pub_set_b58 lib k' s = (True, k'\<lparr>pdata := pdata k, valid := True\<rparr>)"
    by (rule pub_text [OF assms(1,2)])
  then show "read_pub lib k' (istr (show_pub lib k @ c # r)) = (k'\<lparr>pdata := pdata k, valid := True\<rparr>, istr (c # r))"
    using read_string_token [OF s(2) assms(3), of r] by (simp add: read_pub_def show_pub_def)
  show "token (show_pub lib k)" using s by (simp add: show_pub_def)
qed

section \<open>Properties\<close>

text \<open>
  What a key pair signs verifies: with a library that signs with the key, the text of the
  signature is produced and is accepted for the public key of the pair, whatever the
  uninitialised buffer of the hasher holds in either call.
\<close>

theorem sign_then_verify:
  assumes "secp_signs lib sk" and "sc_create lib sk = Some p" and "length jbuf = 64" "length jbuf' = 64"
  shows "\<exists>s. sign_encode lib jbuf sk t = Some s \<and> verify_text lib jbuf' (pub (keys_of_priv lib junk sk)) t s"
proof -
  have "pdata (pub (keys_of_priv lib junk sk)) = p" using assms(2) by (simp add: keys_of_priv_def)
  then obtain s where s: "sign_encode lib jbuf sk t = Some s" "verify_text lib jbuf (pub (keys_of_priv lib junk sk)) t s"
    using sign_encode_verifies [OF assms(1,2)] by metis
  have "sha_text jbuf' t = sha_text jbuf t" using assms(3,4) by (simp add: sha_text_fips)
  then show ?thesis using s by (auto simp: verify_text_def)
qed

theorem sign_then_verify_witness:
  "\<exists>s. sign_encode toy_secp (replicate 64 1) (replicate 32 5) ''hello'' = Some s \<and>
     verify_text toy_secp (replicate 64 2) (pub (keys_of_priv toy_secp [] (replicate 32 5))) ''hello'' s"
  by (rule sign_then_verify [OF toy_signs]) (simp_all add: toy_secp_def)

text \<open>
  The cached hash of a public key is not invalidated: after \<open>hash()\<close> has been called, reading
  another key into the object changes the key and leaves the old hash in place.
\<close>

theorem stale_key_hash:
  assumes "pub_set_b58 lib (snd (pub_get_hash lib jbuf k)) s = (True, k')"
  shows "fst (pub_get_hash lib jbuf' k') = fst (pub_get_hash lib jbuf k)"
  using assms
  by (auto simp: pub_get_hash_def pub_set_b58_def Let_def split: option.splits if_splits)

theorem stale_key_hash_witness:
  "\<exists>k'. pub_set_b58 toy_secp (snd (pub_get_hash toy_secp [] \<lparr>pdata = replicate 32 1, valid = True, hcached = None\<rparr>))
      (show_pub toy_secp \<lparr>pdata = replicate 32 2, valid = True, hcached = None\<rparr>) = (True, k') \<and> pdata k' = replicate 32 2 \<and>
    fst (pub_get_hash toy_secp [] k') = fst (pub_get_hash toy_secp [] \<lparr>pdata = replicate 32 1, valid = True, hcached = None\<rparr>)"
proof -
  let ?k = "\<lparr>pdata = replicate 32 1, valid = True, hcached = None\<rparr>" and ?k2 = "\<lparr>pdata = replicate 32 2, valid = True, hcached = None\<rparr>"
  obtain s where s: "pub_to_b58 toy_secp ?k2 = Some s"
      "\<forall>k'. pub_set_b58 toy_secp k' s = (True, k'\<lparr>pdata := pdata ?k2, valid := True\<rparr>)"
    by (rule pub_text [of ?k2 toy_secp]) (simp_all add: toy_prints)
  let ?k' = "(snd (pub_get_hash toy_secp [] ?k))\<lparr>pdata := replicate 32 2, valid := True\<rparr>"
  have "pub_set_b58 toy_secp (snd (pub_get_hash toy_secp [] ?k)) (show_pub toy_secp ?k2) = (True, ?k')"
    using s by (simp add: show_pub_def)
  with stale_key_hash [OF this, of "[]"] show ?thesis by (intro exI [of _ ?k']) simp
qed

end
