(* ===== verification/Auth_App.thy ===== *)
theory Auth_App
  imports Cash_App Unordered_Map Ec_Keys
begin

text \<open>
  The application that admits nodes, \<open>src/gov/engine/auth_app.{h,cpp}\<close>: its database has the nodes
  of the network and a hall of candidates. Nodes propose candidates for the hall; after each
  block the network grows, or shrinks, by a random selection that every node draws
  with the same seed. Also the enumeration of stages of \<open>src/gov/engine/peer_t.h\<close> and the seed of
  \<open>src/gov/engine/app.cpp\<close>.

  Outside of the code: where an unordered map puts a new entry (\<open>place\<close>), and the sequence of numbers
  the random engine draws for a seed and a maximum (\<open>draws\<close>).
\<close>

section \<open>State\<close>

datatype stage_t = Unknown | Sysop | Out | Hall | Node | Wallet

type_synonym nodes_t = "(hash_t, string) umap"

record auth_local_delta =
  to_hall :: "(hash_t \<times> string) list"
  alpolicies :: "rat list"

record auth_delta =
  hall_candidates :: "(hash_t, string) omap"
  adpolicies :: "rat list"
  admultiplicity :: nat

record auth_app =
  node_pubkey :: pub_t
  nodes :: nodes_t
  hall :: nodes_t
  apool :: auth_local_delta
  apolicies :: "rat list"
  apolicies_local :: "rat list"
  cache_my_stage :: stage_t

definition auth_num_params :: nat where "auth_num_params = 2"

definition auth_local0 :: auth_local_delta where
  "auth_local0 = \<lparr>to_hall = [], alpolicies = replicate auth_num_params 0\<rparr>"

definition auth_delta0 :: auth_delta where
  "auth_delta0 = \<lparr>hall_candidates = om_empty, adpolicies = replicate auth_num_params 0, admultiplicity = 0\<rparr>"

text \<open>The constructor; a growth of one percent, at least one node.\<close>

definition auth_app0 :: "pub_t \<Rightarrow> auth_app" where
  "auth_app0 pk =
     \<lparr>node_pubkey = pk, nodes = [], hall = [], apool = auth_local0, apolicies = [fl (1 / 100), 1],
      apolicies_local = [fl (1 / 100), 1], cache_my_stage = Unknown\<rparr>"

definition auth_clear :: "auth_app \<Rightarrow> auth_app" where
  "auth_clear app = app\<lparr>apolicies := replicate auth_num_params 0, nodes := [], hall := []\<rparr>"

section \<open>Stages\<close>

text \<open>\<open>k\<close> is the hash of the key of this node.\<close>

definition my_stage :: "hash_t \<Rightarrow> auth_app \<Rightarrow> stage_t \<times> auth_app" where
  "my_stage k app =
     (let s = (if um_find (nodes app) k \<noteq> None then Node else if um_find (hall app) k \<noteq> None then Hall else Out)
      in (s, app\<lparr>cache_my_stage := s\<rparr>))"

definition is_node :: "hash_t \<Rightarrow> auth_app \<Rightarrow> bool" where
  "is_node k app \<longleftrightarrow> fst (my_stage k app) = Node"

definition get_stage :: "auth_app \<Rightarrow> hash_t \<Rightarrow> stage_t" where
  "get_stage app k =
     (if um_find (nodes app) k \<noteq> None then Node else if um_find (hall app) k \<noteq> None then Hall else Out)"

text \<open>A peer with key \<open>pk\<close>, whose hash is \<open>pkh\<close>, has been authenticated: its stage, and the new state.\<close>

definition basic_auth_completed :: "auth_app \<Rightarrow> pub_t \<Rightarrow> hash_t \<Rightarrow> string \<Rightarrow> stage_t \<times> auth_app" where
  "basic_auth_completed app pk pkh addr =
     (if pub_eq pk (node_pubkey app) then (Sysop, app)
      else if um_find (nodes app) pkh \<noteq> None then (Node, app)
      else if um_find (hall app) pkh = None
      then (Out, app\<lparr>apool := (apool app)\<lparr>to_hall := to_hall (apool app) @ [(pkh, addr)]\<rparr>\<rparr>)
      else (Hall, app))"

section \<open>Growth\<close>

text \<open>\<open>round\<close>: halves away from zero.\<close>

definition dround :: "rat \<Rightarrow> int" where
  "dround x = (if 0 \<le> x then \<lfloor>x + 1 / 2\<rfloor> else \<lceil>x - 1 / 2\<rceil>)"

text \<open>
  The inner loop: draw until the number is new and within the remaining entries. \<open>n\<close> counts the
  numbers drawn so far. The loop may run forever: \<open>None\<close>.
\<close>

partial_function (option) pick :: "(nat \<Rightarrow> nat) \<Rightarrow> nat \<Rightarrow> nat \<Rightarrow> nat set \<Rightarrow> (nat \<times> nat \<times> nat set) option" where
  "pick rnd sz n uniq =
     (let r = rnd n
      in if r \<in> uniq then pick rnd sz (Suc n) uniq
         else if sz \<le> r then pick rnd sz (Suc n) (insert r uniq)
         else Some (r, Suc n, insert r uniq))"

text \<open>Moving \<open>s\<close> entries.\<close>

fun move_nodes ::
  "(hash_t, string) place \<Rightarrow> (nat \<Rightarrow> nat) \<Rightarrow> nat \<Rightarrow> nat \<Rightarrow> nat set \<Rightarrow> nodes_t \<Rightarrow> nodes_t \<Rightarrow> (nodes_t \<times> nodes_t) option" where
  "move_nodes place rnd 0 n uniq src dst = Some (src, dst)"
| "move_nodes place rnd (Suc s) n uniq src dst =
     (case pick rnd (length src) n uniq of
        None \<Rightarrow> None
      | Some (r, n, uniq) \<Rightarrow>
          (let (k, a) = src ! r
           in move_nodes place rnd s n uniq (um_erase k src) (um_emplace place k a dst)))"

text \<open>How many entries move, and the largest number drawn; a growth of zero moves nothing.\<close>

definition growth_size :: "rat \<Rightarrow> rat \<Rightarrow> nat \<Rightarrow> nat" where
  "growth_size growth min_growth nh =
     (let s = \<lfloor>fl (of_nat nh * growth)\<rfloor>;
          s = (if s < dround min_growth then dround min_growth else s)
      in if s > int nh then nh else nat s)"

definition shrink_size :: "rat \<Rightarrow> nat \<Rightarrow> nat" where
  "shrink_size growth nn = nat (- \<lfloor>fl (of_nat nn * growth)\<rfloor>)"

definition add_growth_transactions ::
  "(hash_t, string) place \<Rightarrow> (u32 \<Rightarrow> nat \<Rightarrow> nat \<Rightarrow> nat) \<Rightarrow> u32 \<Rightarrow> auth_app \<Rightarrow> auth_app option" where
  "add_growth_transactions place draws seed app =
     (let growth = apolicies app ! 0
      in if \<bar>growth\<bar> < fl (1 / 100000000) then Some app
         else if growth \<ge> 0
         then (case move_nodes place (draws seed (length (hall app) - 1))
                      (growth_size growth (apolicies app ! 1) (length (hall app))) 0 {} (hall app) (nodes app) of
                 None \<Rightarrow> None
               | Some (h, ns) \<Rightarrow> Some (app\<lparr>hall := h, nodes := ns\<rparr>))
         else (case move_nodes place (draws seed (length (nodes app) - 1))
                      (shrink_size growth (length (nodes app))) 0 {} (nodes app) (hall app) of
                 None \<Rightarrow> None
               | Some (ns, h) \<Rightarrow> Some (app\<lparr>hall := h, nodes := ns\<rparr>)))"

section \<open>Deltas\<close>

definition auth_add_policies :: "auth_app \<Rightarrow> auth_app" where
  "auth_add_policies app = app\<lparr>apool := (apool app)\<lparr>alpolicies := apolicies_local app\<rparr>\<rparr>"

definition auth_create_local_delta :: "auth_app \<Rightarrow> auth_local_delta \<times> auth_app" where
  "auth_create_local_delta app = (let app = auth_add_policies app in (apool app, app\<lparr>apool := auth_local0\<rparr>))"

definition auth_merge :: "auth_delta \<Rightarrow> auth_local_delta \<Rightarrow> auth_delta" where
  "auth_merge d other =
     (let d = d\<lparr>hall_candidates := foldl (\<lambda>m (k, a). om_emplace k a m) (hall_candidates d) (to_hall other)\<rparr>;
          (vs, n) = policies_merge (adpolicies d, admultiplicity d) (alpolicies other)
      in d\<lparr>adpolicies := vs, admultiplicity := n\<rparr>)"

definition auth_end_merge :: "auth_delta \<Rightarrow> auth_delta" where
  "auth_end_merge d = d\<lparr>adpolicies := policies_end_merge (adpolicies d, admultiplicity d)\<rparr>"

text \<open>The seed: the first four bytes of the last block imported (\<open>empty()\<close> of an array is false).\<close>

definition get_seed :: "hash_t \<Rightarrow> u32" where
  "get_seed h = (case h of Hash a b c \<Rightarrow> ucast a)"

definition add_to_hall :: "(hash_t, string) place \<Rightarrow> nodes_t \<Rightarrow> hash_t \<times> string \<Rightarrow> nodes_t" where
  "add_to_hall place h = (\<lambda>(k, a). case um_find h k of None \<Rightarrow> um_emplace place k a h | Some _ \<Rightarrow> h)"

definition auth_import ::
  "(hash_t, string) place \<Rightarrow> (u32 \<Rightarrow> nat \<Rightarrow> nat \<Rightarrow> nat) \<Rightarrow> hash_t \<Rightarrow> auth_app \<Rightarrow> auth_delta \<Rightarrow> auth_app option" where
  "auth_import place draws lbi app g =
     (let app = app\<lparr>hall := foldl (add_to_hall place) (hall app) (hall_candidates g)\<rparr>;
          app = app\<lparr>apolicies := adpolicies g\<rparr>
      in case add_growth_transactions place draws (get_seed lbi) app of
           None \<Rightarrow> None
         | Some app \<Rightarrow> Some (app\<lparr>cache_my_stage := Unknown\<rparr>))"

text \<open>A random node that is not this one and not excluded; ten attempts, with the numbers \<open>rnd\<close>.\<close>

fun random_node_loop :: "hash_t \<Rightarrow> string set \<Rightarrow> nodes_t \<Rightarrow> nat list \<Rightarrow> string" where
  "random_node_loop me excl ns [] = []"
| "random_node_loop me excl ns (r # rs) =
     (let (k, a) = ns ! r
      in if hash_ne k me \<and> a \<notin> excl then a else random_node_loop me excl ns rs)"

definition get_random_node :: "hash_t \<Rightarrow> auth_app \<Rightarrow> (nat \<Rightarrow> nat) \<Rightarrow> string set \<Rightarrow> string" where
  "get_random_node me app rnd excl =
     (if nodes app = [] then [] else random_node_loop me excl (nodes app) (map rnd [0..<10]))"

section \<open>Lemmas\<close>

text \<open>What a returning selection has drawn; by fixpoint induction on the loop.\<close>

definition picked :: "(nat \<Rightarrow> nat) \<Rightarrow> nat \<Rightarrow> nat \<Rightarrow> nat set \<Rightarrow> nat \<times> nat \<times> nat set \<Rightarrow> bool" where
  "picked rnd sz n uniq = (\<lambda>(r, n', uniq'). r < sz \<and> r \<notin> uniq \<and> (\<exists>k \<ge> n. rnd k = r))"

lemma picked_later: "picked rnd sz (Suc n) uniq y \<Longrightarrow> picked rnd sz n uniq y"
  unfolding picked_def using Suc_leD by blast

lemma picked_more: "picked rnd sz n (insert x uniq) y \<Longrightarrow> picked rnd sz n uniq y"
  by (auto simp: picked_def)

lemma pick_picked: "pick rnd sz n uniq = Some y \<Longrightarrow> picked rnd sz n uniq y"
proof (rule pick.raw_induct [where P = picked])
  fix pk rnd sz n uniq y
  assume IH: "\<And>rnd sz n uniq y. pk rnd sz n uniq = Some y \<Longrightarrow> picked rnd sz n uniq y"
    and y: "(let r = rnd n in if r \<in> uniq then pk rnd sz (Suc n) uniq
        else if sz \<le> r then pk rnd sz (Suc n) (insert r uniq) else Some (r, Suc n, insert r uniq)) = Some y"
  consider "rnd n \<in> uniq" | "rnd n \<notin> uniq" "sz \<le> rnd n" | "rnd n \<notin> uniq" "\<not> sz \<le> rnd n" by blast
  then show "picked rnd sz n uniq y"
  proof cases
    case 1
    then show ?thesis using y IH [THEN picked_later] by (simp add: Let_def)
  next
    case 2
    then show ?thesis using y IH [THEN picked_later, THEN picked_more] by (simp add: Let_def)
  next
    case 3
    then show ?thesis using y by (auto simp: Let_def picked_def)
  qed
qed

lemma pick_some: "pick rnd sz n uniq = Some (r, n', uniq') \<Longrightarrow> r < sz \<and> r \<notin> uniq \<and> (\<exists>k \<ge> n. rnd k = r)"
  using pick_picked by (fastforce simp: picked_def)

lemma pick_total:
  assumes "n \<le> k" "rnd k < sz" "rnd k \<notin> uniq"
  shows "\<exists>y. pick rnd sz n uniq = Some y"
  using assms
proof (induction "k - n" arbitrary: n uniq)
  case 0
  then have "n = k" by simp
  then show ?case using 0 by (subst pick.simps) (simp add: Let_def)
next
  case (Suc d)
  have d: "d = k - Suc n" "Suc n \<le> k" using Suc.hyps(2) by simp_all
  show ?case
  proof (cases "rnd n \<in> uniq \<or> sz \<le> rnd n")
    case True
    have "rnd k \<notin> insert (rnd n) uniq \<or> rnd n < sz" using Suc.prems by auto
    then show ?thesis
      using True Suc.hyps(1) [OF d(1,2) Suc.prems(2,3)] Suc.hyps(1) [OF d(1,2) Suc.prems(2), of "insert (rnd n) uniq"] Suc.prems
      by (subst pick.simps) (auto simp: Let_def)
  next
    case False
    then show ?thesis by (subst pick.simps) (simp add: Let_def)
  qed
qed

lemma pick_iff: "(\<exists>y. pick rnd sz n uniq = Some y) \<longleftrightarrow> (\<exists>k \<ge> n. rnd k < sz \<and> rnd k \<notin> uniq)"
proof
  assume "\<exists>y. pick rnd sz n uniq = Some y"
  then obtain r n' u where "pick rnd sz n uniq = Some (r, n', u)" by (metis prod_cases3)
  from pick_some [OF this] show "\<exists>k \<ge> n. rnd k < sz \<and> rnd k \<notin> uniq" by blast
qed (use pick_total in blast)

lemma move_nodes_keys:
  assumes "placement place"
  shows "move_nodes place rnd s n uniq src dst = Some (src', dst') \<Longrightarrow> um_ok src \<Longrightarrow> um_ok dst \<Longrightarrow>
    um_ok src' \<and> um_ok dst' \<and> um_keys src' \<union> um_keys dst' = um_keys src \<union> um_keys dst
    \<and> length src' + s = length src \<and> um_keys src' \<subseteq> um_keys src"
proof (induction s arbitrary: n uniq src dst)
  case (Suc s)
  obtain r n1 u1 where p: "pick rnd (length src) n uniq = Some (r, n1, u1)"
    using Suc.prems(1) by (auto split: option.splits)
  obtain k a where ka: "src ! r = (k, a)" by (cases "src ! r")
  have r: "r < length src" using pick_some [OF p] by simp
  then have k: "k \<in> um_keys src" using nth_mem [OF r] ka by (force simp: um_keys_def)
  have "move_nodes place rnd s n1 u1 (um_erase k src) (um_emplace place k a dst) = Some (src', dst')"
    using Suc.prems(1) p ka by simp
  from Suc.IH [OF this um_ok_erase [OF Suc.prems(2)] um_ok_emplace [OF assms Suc.prems(3)]]
  show ?case
    using k length_um_erase [OF Suc.prems(2) k] by (auto simp: um_keys_erase um_keys_emplace [OF assms])
qed simp

definition auth_ok :: "auth_app \<Rightarrow> bool" where
  "auth_ok app \<longleftrightarrow> um_ok (nodes app) \<and> um_ok (hall app)"

definition members :: "auth_app \<Rightarrow> hash_t set" where
  "members app = um_keys (nodes app) \<union> um_keys (hall app)"

text \<open>The three outcomes of a growth step that returns.\<close>

lemma growth_cases:
  assumes "add_growth_transactions place draws seed app = Some app'"
  obtains "app' = app"
  | rnd s h ns where "move_nodes place rnd s 0 {} (hall app) (nodes app) = Some (h, ns)" "app' = app\<lparr>hall := h, nodes := ns\<rparr>"
  | rnd s h ns where "move_nodes place rnd s 0 {} (nodes app) (hall app) = Some (ns, h)" "app' = app\<lparr>hall := h, nodes := ns\<rparr>"
proof (cases "\<bar>apolicies app ! 0\<bar> < fl (1 / 100000000)")
  case True
  then show ?thesis using assms that(1) by (simp add: add_growth_transactions_def)
next
  case False
  note g = assms [unfolded add_growth_transactions_def Let_def if_not_P [OF False]]
  show ?thesis
  proof (cases "apolicies app ! 0 \<ge> 0")
    case True
    then show ?thesis using g that(2) by (simp split: option.splits prod.splits)
  next
    case False
    then show ?thesis using g that(3) by (simp split: option.splits prod.splits)
  qed
qed

lemma growth_members:
  assumes "placement place" "auth_ok app" "add_growth_transactions place draws seed app = Some app'"
  shows "auth_ok app' \<and> members app' = members app \<and> apolicies app' = apolicies app"
  using assms(3)
proof (cases rule: growth_cases)
  case (2 rnd s h ns)
  then show ?thesis using move_nodes_keys [OF assms(1) 2(1)] assms(2) by (simp add: auth_ok_def members_def Un_commute)
next
  case (3 rnd s h ns)
  then show ?thesis using move_nodes_keys [OF assms(1) 3(1)] assms(2) by (simp add: auth_ok_def members_def)
qed (use assms(2) in simp)

lemma add_to_hall_keys:
  assumes "placement place"
  shows "um_ok h \<Longrightarrow> um_ok (foldl (add_to_hall place) h es) \<and> um_keys (foldl (add_to_hall place) h es) = um_keys h \<union> fst ` set es"
proof (induction es arbitrary: h)
  case (Cons e es)
  obtain k a where e: "e = (k, a)" by (cases e)
  have "um_ok (add_to_hall place h e)" "um_keys (add_to_hall place h e) = insert k (um_keys h)"
    using Cons.prems um_find_None [of h k] um_ok_emplace [OF assms Cons.prems] um_keys_emplace [OF assms]
    by (cases "um_find h k"; auto simp: e add_to_hall_def)+
  then show ?case using Cons.IH [of "add_to_hall place h e"] by (simp add: e)
qed simp

lemma auth_import_effect:
  assumes "placement place" "auth_ok app" "auth_import place draws lbi app g = Some app'"
  shows "auth_ok app' \<and> members app' = members app \<union> fst ` set (hall_candidates g) \<and> apolicies app' = adpolicies g"
proof -
  let ?a = "app\<lparr>hall := foldl (add_to_hall place) (hall app) (hall_candidates g), apolicies := adpolicies g\<rparr>"
  obtain a2 where a2: "add_growth_transactions place draws (get_seed lbi) ?a = Some a2" "app' = a2\<lparr>cache_my_stage := Unknown\<rparr>"
    using assms(3) by (auto simp: auth_import_def Let_def split: option.splits)
  have h: "um_ok (hall ?a)" "um_keys (hall ?a) = um_keys (hall app) \<union> fst ` set (hall_candidates g)"
    using add_to_hall_keys [OF assms(1)] assms(2) by (simp_all add: auth_ok_def)
  have "auth_ok ?a" using assms(2) h by (simp add: auth_ok_def)
  from growth_members [OF assms(1) this a2(1)]
  have "auth_ok a2" "members a2 = members app \<union> fst ` set (hall_candidates g)" using h by (auto simp: members_def)
  moreover have "apolicies a2 = adpolicies g" using growth_members [OF assms(1) \<open>auth_ok ?a\<close> a2(1)] by simp
  ultimately show ?thesis using a2(2) by (simp add: auth_ok_def members_def)
qed

section \<open>Properties\<close>

text \<open>
  Importing a delta admits the proposed candidates and nobody else, and nobody is lost: when
  the import returns, the members (nodes and hall together) are the previous members and the
  candidates of the delta; the tables stay free of duplicate keys and the agreed policies hold.
\<close>

theorem auth_import_members:
  assumes "placement place" "auth_ok app" "auth_import place draws lbi app g = Some app'"
  shows "auth_ok app' \<and> members app' = members app \<union> fst ` set (hall_candidates g) \<and> apolicies app' = adpolicies g"
  using assms by (rule auth_import_effect)

theorem auth_import_members_witness:
  "\<exists>app'. auth_import (\<lambda>m e. e # m) (\<lambda>seed mx n. 0) (Hash 0 0 0) (auth_app0 (pub_new []))
       (auth_delta0\<lparr>hall_candidates := [(Hash 1 0 0, ''a'')]\<rparr>) = Some app' \<and> members app' = {Hash 1 0 0}"
proof -
  let ?g = "auth_delta0\<lparr>hall_candidates := [(Hash 1 0 0, ''a'')]\<rparr>" and ?app = "auth_app0 (pub_new [])"
  have "\<exists>app'. auth_import (\<lambda>m e. e # m) (\<lambda>seed mx n. 0) (Hash 0 0 0) ?app ?g = Some app'"
    by (simp add: auth_import_def add_growth_transactions_def auth_delta0_def auth_num_params_def Let_def fl_pos)
  then obtain app' where i: "auth_import (\<lambda>m e. e # m) (\<lambda>seed mx n. 0) (Hash 0 0 0) ?app ?g = Some app'" by blast
  have "auth_ok ?app" by (simp add: auth_ok_def auth_app0_def um_ok_def)
  from auth_import_members [OF placement_front this i] show ?thesis using i
    by (auto simp: members_def auth_app0_def um_keys_def)
qed

lemma growth_size_percent:
  assumes "1 \<le> k" "n \<le> 10" "k \<le> int n"
  shows "growth_size (fl (1 / 100)) (of_int k) n = nat k"
proof -
  have g: "0 \<le> fl (1 / 100)" "fl (1 / 100) \<le> 1 / 50" using fl_upper [of "1 / 100"] fl_nonneg [of "1 / 100"] by simp_all
  let ?p = "of_nat n * fl (1 / 100)"
  have "?p \<le> 10 * (1 / 50)" using assms(2) g by (intro mult_mono) simp_all
  then have p: "0 \<le> ?p" "?p \<le> 1 / 5" using g by simp_all
  have "0 \<le> fl ?p" "fl ?p \<le> ?p + ?p / 2 ^ 53" using fl_upper [OF p(1)] fl_nonneg [OF p(1)] by simp_all
  then have "0 \<le> fl ?p" "fl ?p < 1" using p(2) by simp_all
  then have "\<lfloor>fl ?p\<rfloor> = 0" by (simp add: floor_eq_iff)
  moreover have "dround (of_int k) = k" using assms(1) by (simp add: dround_def floor_eq_iff)
  ultimately show ?thesis using assms by (simp add: growth_size_def Let_def)
qed

text \<open>
  When the selection ends: every single draw returns exactly if the engine will draw an
  index that is below the number of remaining entries and was not drawn before. So one node
  can always be moved (any first number is new and in range), and growth by one terminates.
\<close>

theorem growth_by_one_terminates:
  assumes "hall app \<noteq> []" "draws seed (length (hall app) - 1) 0 < length (hall app)"
    and "growth_size (apolicies app ! 0) (apolicies app ! 1) (length (hall app)) = 1" "apolicies app ! 0 \<ge> 0"
  shows "\<exists>app'. add_growth_transactions place draws seed app = Some app'"
proof -
  obtain y where "pick (draws seed (length (hall app) - 1)) (length (hall app)) 0 {} = Some y"
    using pick_total [of 0 0 "draws seed (length (hall app) - 1)" "length (hall app)" "{}"] assms(2) by auto
  then show ?thesis using assms(3,4) by (cases y) (simp add: add_growth_transactions_def Let_def split: prod.split)
qed

theorem growth_by_one_terminates_witness:
  "\<exists>app'. add_growth_transactions (\<lambda>m e. e # m) (\<lambda>seed mx n. 0) 7 ((auth_app0 (pub_new []))\<lparr>hall := [(Hash 1 0 0, ''a'')]\<rparr>) = Some app'"
  using growth_size_percent [of 1 1] by (intro growth_by_one_terminates) (simp_all add: auth_app0_def fl_nonneg)

text \<open>
  The selection of more than one node can hang: of two candidates, both to be moved, when the
  first number drawn is 0 the remaining candidate has index 0, which counts as already drawn, and
  the loop never ends, whatever the engine draws later.
\<close>

theorem growth_hangs:
  assumes "um_ok [c1, c2]" "growth_size (apolicies app ! 0) (apolicies app ! 1) 2 = 2" "hall app = [c1, c2]"
    and "draws seed 1 0 = 0" "apolicies app ! 0 \<ge> fl (1 / 100)"
  shows "add_growth_transactions place draws seed app = None"
proof -
  let ?rnd = "draws seed (length (hall app) - 1)"
  obtain k a where c1: "c1 = (k, a)" by (cases c1)
  have p: "pick ?rnd 2 0 {} = Some (0, 1, {0})" using assms(3,4) by (subst pick.simps) (simp add: Let_def)
  have l: "length (um_erase k [c1, c2]) = 1"
    using length_um_erase [OF assms(1), of k] by (simp add: um_keys_def c1)
  have "\<nexists>y. pick ?rnd 1 1 {0} = Some y" unfolding pick_iff by auto
  then have "pick ?rnd (length (um_erase k [c1, c2])) 1 {0} = None" unfolding l by (metis not_Some_eq)
  moreover have "fl (1 / 100000000) < fl (1 / 100)"
  proof -
    have "\<bar>fl (1 / 100) - 1 / 100\<bar> \<le> 1 / 1000" by (rule order_trans [OF fl_error]) simp
    moreover have "fl (1 / 100000000) \<le> 1 / 1000" by (rule order_trans [OF fl_upper]) simp_all
    ultimately show ?thesis by linarith
  qed
  moreover have "0 \<le> apolicies app ! 0" using order_trans [OF fl_nonneg assms(5)] by simp
  ultimately show ?thesis
    using assms(2,3,5) p c1 by (simp add: add_growth_transactions_def Let_def numeral_2_eq_2)
qed

theorem growth_hangs_witness:
  "add_growth_transactions (\<lambda>m e. e # m) (\<lambda>seed mx n. n mod 2) 7
     ((auth_app0 (pub_new []))\<lparr>hall := [(Hash 1 0 0, ''a''), (Hash 2 0 0, ''b'')], apolicies := [fl (1 / 100), 2]\<rparr>) = None"
  using growth_size_percent [of 2 2] by (intro growth_hangs) (simp_all add: um_ok_def)

end
