(* ===== verification/Identity.thy ===== *)
theory Identity
  imports Auth_App Datagram
begin

text \<open>
  How two peers identify each other: \<open>src/gov/id/peer_t.{h,cpp}\<close>, the authorisation of
  \<open>src/gov/auth/peer_t.cpp\<close> and \<open>src/gov/engine/peer_t.cpp\<close>, and the check for duplicates of \<open>src/gov/id/daemon.cpp\<close>. The
  side that connects sends a random message; the other side answers with its key, a signature of
  that message and a message of its own; the first side answers with its key and signature.

  Outside of the code: the elliptic-curve library, the random messages (taken from \<open>/dev/urandom\<close>), and the
  numbers of the three services, which come from a generated header. \<open>None\<close> is a failed assertion.
\<close>

section \<open>State and messages\<close>

datatype id_stage = Anonymous | Verified | Verified_Fail
datatype auth_stage = Denied | Authorized

record id_peer =
  stage_peer :: id_stage
  msg :: string
  pubkey :: pub_t

datatype id_dgram =
    Id_Request string
  | Id_Peer_Challenge string
  | Id_Challenge_Response string

definition id_peer0 :: "byte list \<Rightarrow> id_peer" where
  "id_peer0 junk = \<lparr>stage_peer = Anonymous, msg = [], pubkey = pub_new junk\<rparr>"

text \<open>A random message is the Base58 text of twenty random bytes.\<close>

definition random_message :: "byte list \<Rightarrow> string" where
  "random_message bs = (case encode bs of Some s \<Rightarrow> s | None \<Rightarrow> [])"

definition verification_is_fine :: "id_peer \<Rightarrow> bool" where
  "verification_is_fine p \<longleftrightarrow> stage_peer p = Verified"

section \<open>The dialogue\<close>

text \<open>A dialogue that is under way is not started again.\<close>

definition initiate_dialogue :: "byte list \<Rightarrow> id_peer \<Rightarrow> id_peer \<times> id_dgram list" where
  "initiate_dialogue rnd p =
     (if msg p = [] then let m = random_message rnd in (p\<lparr>msg := m\<rparr>, [Id_Request m]) else (p, []))"

definition process_request ::
  "secp \<Rightarrow> byte list \<Rightarrow> keys_t \<Rightarrow> byte list \<Rightarrow> string \<Rightarrow> id_peer \<Rightarrow> (id_peer \<times> id_dgram list) option" where
  "process_request lib jbuf k rnd hello_msg p =
     (case sign_encode lib jbuf (priv k) hello_msg of
        None \<Rightarrow> None
      | Some signature \<Rightarrow>
          (let p = p\<lparr>msg := random_message rnd\<rparr>
           in if \<not> valid (pub k) then None
              else Some (p, [Id_Peer_Challenge (show_pub lib (pub k) @ '' '' @ signature @ '' '' @ msg p)])))"

text \<open>The check both answers share: the stage and the key of the peer, from its key and signature.\<close>

definition check_answer :: "secp \<Rightarrow> byte list \<Rightarrow> pub_t \<Rightarrow> string \<Rightarrow> id_peer \<Rightarrow> id_peer" where
  "check_answer lib jbuf k signature p =
     (let p = (if \<not> valid k then p\<lparr>stage_peer := Verified_Fail\<rparr>
               else if verify_text_not_normalized lib jbuf k (msg p) signature then p\<lparr>stage_peer := Verified, pubkey := k\<rparr>
               else p\<lparr>stage_peer := Verified_Fail\<rparr>)
      in p\<lparr>msg := []\<rparr>)"

definition process_peer_challenge ::
  "secp \<Rightarrow> byte list \<Rightarrow> byte list \<Rightarrow> keys_t \<Rightarrow> string \<Rightarrow> id_peer \<Rightarrow> (id_peer \<times> id_dgram list) option" where
  "process_peer_challenge lib jbuf jkey k d p =
     (let (pk, is) = read_pub lib (pub_new jkey) (istr d);
          (signature, is) = read_string is;
          (hello_msg, is) = read_string is;
          p = check_answer lib jbuf pk signature p
      in if \<not> valid (pub k) then None
         else case sign_encode lib jbuf (priv k) hello_msg of
                None \<Rightarrow> None
              | Some s \<Rightarrow> Some (p, [Id_Challenge_Response (show_pub lib (pub k) @ '' '' @ s)]))"

definition process_challenge_response :: "secp \<Rightarrow> byte list \<Rightarrow> byte list \<Rightarrow> string \<Rightarrow> id_peer \<Rightarrow> id_peer" where
  "process_challenge_response lib jbuf jkey d p =
     (let (pk, is) = read_pub lib (pub_new jkey) (istr d);
          (signature, is) = read_string is
      in check_answer lib jbuf pk signature p)"

definition id_process_work ::
  "secp \<Rightarrow> byte list \<Rightarrow> byte list \<Rightarrow> keys_t \<Rightarrow> byte list \<Rightarrow> id_dgram \<Rightarrow> id_peer \<Rightarrow> (id_peer \<times> id_dgram list) option" where
  "id_process_work lib jbuf jkey k rnd d p =
     (case d of
        Id_Request m \<Rightarrow> process_request lib jbuf k rnd m p
      | Id_Peer_Challenge m \<Rightarrow> process_peer_challenge lib jbuf jkey k m p
      | Id_Challenge_Response m \<Rightarrow> Some (process_challenge_response lib jbuf jkey m p, []))"

text \<open>
  \<open>run_auth_responder\<close>: process what arrives until the peer is verified or not; the error text, empty for
  success. An arrival is an error of \<open>recv\<close>, a datagram of the dialogue or a datagram nobody processes;
  the end of the list is the termination of the program.
\<close>

datatype arrival = Recv_Error string | Recv_Id id_dgram | Recv_Other

fun run_auth_responder ::
  "secp \<Rightarrow> byte list \<Rightarrow> byte list \<Rightarrow> keys_t \<Rightarrow> byte list \<Rightarrow> arrival list \<Rightarrow> id_peer \<Rightarrow> (string \<times> id_peer) option" where
  "run_auth_responder lib jbuf jkey k rnd as p =
     (if stage_peer p \<noteq> Anonymous \<or> as = []
      then Some (if stage_peer p = Verified then [] else ''Error. Peer failed to demonstrate identity'', p)
      else case hd as of
             Recv_Error e \<Rightarrow> Some (''Error. Peer not responding. '' @ e, p)
           | Recv_Other \<Rightarrow> Some (''Error. Unrecognized datagram arrived'', p)
           | Recv_Id d \<Rightarrow>
               (case id_process_work lib jbuf jkey k rnd d p of
                  None \<Rightarrow> None
                | Some (p, _) \<Rightarrow> run_auth_responder lib jbuf jkey k rnd (tl as) p))"

declare run_auth_responder.simps [simp del]

section \<open>Authorisation\<close>

text \<open>A key is a duplicate when more than one active peer has it.\<close>

definition is_duplicate :: "pub_t list \<Rightarrow> pub_t \<Rightarrow> bool" where
  "is_duplicate active p \<longleftrightarrow> 1 < length (filter (pub_eq p) active)"

definition auth_verification_completed :: "pub_t list \<Rightarrow> id_peer \<Rightarrow> auth_stage \<Rightarrow> auth_stage" where
  "auth_verification_completed active p s =
     (if \<not> verification_is_fine p then s
      else if is_duplicate active (pubkey p) then s
      else Authorized)"

datatype verdict = Keep auth_stage stage_t | Disconnected

text \<open>
  \<open>verification_completed\<close> of the engine: the application decides the stage; a peer with the key of
  this node is its operator, whose authorisation overrides the layer below.
\<close>

definition verification_completed ::
  "secp \<Rightarrow> byte list \<Rightarrow> pub_t list \<Rightarrow> bool \<Rightarrow> string \<Rightarrow> id_peer \<Rightarrow> auth_stage \<Rightarrow> auth_app \<Rightarrow> verdict \<times> auth_app" where
  "verification_completed lib jbuf active sysop_allowed addr p s app =
     (let s = auth_verification_completed active p s
      in if \<not> verification_is_fine p then (Disconnected, app)
         else let (st, app) = basic_auth_completed app (pubkey p) (pub_compute_hash lib jbuf (pubkey p)) addr;
                  s = (if st = Sysop then (if sysop_allowed then Authorized else Denied) else s)
              in if s \<noteq> Authorized then (Disconnected, app) else (Keep s st, app))"

section \<open>Lemmas\<close>

text \<open>
  What a signature that the key of a pair made means to \<open>verify_not_normalized\<close>; documented is that
  normalising keeps a signature valid.
\<close>

definition secp_normalizes :: "secp \<Rightarrow> bool" where
  "secp_normalizes lib \<longleftrightarrow> (\<forall>s h p. sc_verify lib s h p \<longrightarrow> sc_verify lib (sc_sig_normalize lib s) h p)"

lemma toy_normalizes: "secp_normalizes toy_secp"
  by (simp add: secp_normalizes_def toy_secp_def)

lemma verify_normalized: "secp_normalizes lib \<Longrightarrow> verify_text lib jbuf k t s \<Longrightarrow> verify_text_not_normalized lib jbuf k t s"
  by (auto simp: verify_text_def verify_hash_def verify_text_not_normalized_def verify_hash_not_normalized_def secp_normalizes_def
      Let_def split: option.splits if_splits)

text \<open>A key pair in order.\<close>

definition good_keys :: "secp \<Rightarrow> keys_t \<Rightarrow> bool" where
  "good_keys lib k \<longleftrightarrow> secp_signs lib (priv k) \<and> sc_create lib (priv k) = Some (pdata (pub k)) \<and> valid (pub k) \<and> secp_prints lib (pdata (pub k))"

lemma good_keys_sign:
  assumes "good_keys lib k" "secp_normalizes lib"
  obtains s where "sign_encode lib jbuf (priv k) m = Some s" "token s"
    "\<forall>k'. pdata k' = pdata (pub k) \<longrightarrow> verify_text_not_normalized lib jbuf k' m s"
proof -
  obtain s where s: "sign_encode lib jbuf (priv k) m = Some s" "token s" "verify_text lib jbuf (pub k) m s"
    using sign_encode_verifies [of lib "priv k" "pdata (pub k)" "pub k" jbuf m] assms(1) by (auto simp: good_keys_def)
  have "verify_text lib jbuf k' m s" if "pdata k' = pdata (pub k)" for k'
    using s(3) that by (simp add: verify_text_def verify_hash_def Let_def split: if_splits option.splits)
  then show ?thesis using that [OF s(1,2)] verify_normalized [OF assms(2)] by blast
qed

lemma read_answer:
  assumes "good_keys lib k" "token s" "c = [] \<or> isspace (hd c)"
  shows "\<exists>is. read_pub lib (pub_new jkey) (istr (show_pub lib (pub k) @ '' '' @ s @ c)) =
      ((pub_new jkey)\<lparr>pdata := pdata (pub k), valid := True\<rparr>, is) \<and> fst (read_string is) = s
      \<and> (c \<noteq> [] \<longrightarrow> snd (read_string is) = istr c)"
proof -
  have "read_pub lib (pub_new jkey) (istr (show_pub lib (pub k) @ CHR '' '' # s @ c)) =
      ((pub_new jkey)\<lparr>pdata := pdata (pub k), valid := True\<rparr>, istr (CHR '' '' # s @ c))"
    using assms(1) by (intro read_pub_show) (simp_all add: good_keys_def)
  moreover have "fst (read_string (istr (CHR '' '' # s @ c))) = s \<and> (c \<noteq> [] \<longrightarrow> snd (read_string (istr (CHR '' '' # s @ c))) = istr c)"
  proof (cases c)
    case Nil
    then show ?thesis using read_string_last [OF assms(2)] by (simp add: read_skip)
  next
    case (Cons x xs)
    then show ?thesis using read_string_token [OF assms(2), of x xs] assms(3) by (simp add: read_skip)
  qed
  ultimately show ?thesis by simp
qed

lemma token_random: "bs \<noteq> [] \<Longrightarrow> token (random_message bs)"
proof -
  assume "bs \<noteq> []"
  moreover obtain s where "encode bs = Some s" "set s \<subseteq> set pszBase58" "bs \<noteq> [] \<longrightarrow> s \<noteq> []" by (rule encode_text)
  ultimately show ?thesis using token_alphabet [of s] by (simp add: random_message_def)
qed

lemma check_answer_fine:
  "valid k \<Longrightarrow> verify_text_not_normalized lib jbuf k (msg p) s \<Longrightarrow> check_answer lib jbuf k s p = p\<lparr>stage_peer := Verified, pubkey := k, msg := []\<rparr>"
  by (simp add: check_answer_def)

text \<open>For examples, a key pair of the library that has every secret key as its own public key.\<close>

definition toy_pair :: "byte list \<Rightarrow> keys_t" where
  "toy_pair s = \<lparr>priv = s, pub = (pub_new [])\<lparr>pdata := s, valid := True\<rparr>\<rparr>"

lemma toy_good_keys: "length s = 32 \<Longrightarrow> good_keys toy_secp (toy_pair s)"
  using toy_signs [of s] toy_prints [of s] by (simp add: good_keys_def toy_pair_def) (simp add: toy_secp_def)

section \<open>Properties\<close>

text \<open>
  C27. The dialogue between two honest peers ends well: the request of the first, the challenge of the
  second and the response of the first leave both sides verified, each with the key of the
  other, and with no message outstanding.
\<close>

theorem handshake_completes:
  assumes "good_keys lib ka" "good_keys lib kb" "secp_normalizes lib" "ra \<noteq> []" "rb \<noteq> []"
  shows "\<exists>a1 m1 b1 m2 a2 m3 b2. initiate_dialogue ra (id_peer0 jkey) = (a1, [m1])
    \<and> id_process_work lib jbuf jkey kb rb m1 (id_peer0 jkey) = Some (b1, [m2])
    \<and> id_process_work lib jbuf jkey ka ra m2 a1 = Some (a2, [m3])
    \<and> id_process_work lib jbuf jkey kb rb m3 b1 = Some (b2, [])
    \<and> stage_peer a2 = Verified \<and> pub_eq (pubkey a2) (pub kb) \<and> stage_peer b2 = Verified \<and> pub_eq (pubkey b2) (pub ka)
    \<and> msg a2 = [] \<and> msg b2 = []"
proof -
  let ?ma = "random_message ra" and ?mb = "random_message rb"
  let ?pb = "(pub_new jkey)\<lparr>pdata := pdata (pub kb), valid := True\<rparr>" and ?pa = "(pub_new jkey)\<lparr>pdata := pdata (pub ka), valid := True\<rparr>"
  define a1 where "a1 = (id_peer0 jkey)\<lparr>msg := ?ma\<rparr>"
  define b1 where "b1 = (id_peer0 jkey)\<lparr>msg := ?mb\<rparr>"
  obtain sb where sb: "sign_encode lib jbuf (priv kb) ?ma = Some sb" "token sb"
      "\<forall>k'. pdata k' = pdata (pub kb) \<longrightarrow> verify_text_not_normalized lib jbuf k' ?ma sb"
    by (rule good_keys_sign [OF assms(2,3)])
  obtain sa where sa: "sign_encode lib jbuf (priv ka) ?mb = Some sa" "token sa"
      "\<forall>k'. pdata k' = pdata (pub ka) \<longrightarrow> verify_text_not_normalized lib jbuf k' ?mb sa"
    by (rule good_keys_sign [OF assms(1,3)])
  have v: "valid (pub ka)" "valid (pub kb)" using assms(1,2) by (simp_all add: good_keys_def)
  define m2 where "m2 = show_pub lib (pub kb) @ '' '' @ sb @ '' '' @ ?mb"
  define m3 where "m3 = show_pub lib (pub ka) @ '' '' @ sa"
  have 1: "initiate_dialogue ra (id_peer0 jkey) = (a1, [Id_Request ?ma])"
    by (simp add: initiate_dialogue_def id_peer0_def a1_def Let_def)
  have 2: "id_process_work lib jbuf jkey kb rb (Id_Request ?ma) (id_peer0 jkey) = Some (b1, [Id_Peer_Challenge m2])"
    using sb(1) v by (simp add: id_process_work_def process_request_def b1_def m2_def id_peer0_def Let_def)
  obtain i2 where i2: "read_pub lib (pub_new jkey) (istr m2) = (?pb, i2)" "read_string i2 = (sb, istr ('' '' @ ?mb))"
    using read_answer [OF assms(2) sb(2), of "'' '' @ ?mb" jkey] by (auto simp: m2_def) (metis prod.collapse)
  have "fst (read_string (istr ('' '' @ ?mb))) = ?mb" using read_string_last [OF token_random [OF assms(5)]] by (simp add: read_skip)
  then obtain i3 where i3: "read_string (istr ('' '' @ ?mb)) = (?mb, i3)" by (metis prod.collapse)
  let ?a2 = "a1\<lparr>stage_peer := Verified, pubkey := ?pb, msg := []\<rparr>"
  have ca: "check_answer lib jbuf ?pb sb a1 = ?a2" using sb(3) by (intro check_answer_fine) (simp_all add: a1_def)
  have 3: "id_process_work lib jbuf jkey ka ra (Id_Peer_Challenge m2) a1 = Some (?a2, [Id_Challenge_Response m3])"
    using i2 i3 ca sa(1) v by (simp add: id_process_work_def process_peer_challenge_def m3_def)
  obtain i4 where i4: "read_pub lib (pub_new jkey) (istr m3) = (?pa, i4)" "fst (read_string i4) = sa"
    using read_answer [OF assms(1) sa(2), of "[]" jkey] by (auto simp: m3_def)
  then obtain i5 where i5: "read_string i4 = (sa, i5)" by (metis prod.collapse)
  let ?b2 = "b1\<lparr>stage_peer := Verified, pubkey := ?pa, msg := []\<rparr>"
  have cb: "check_answer lib jbuf ?pa sa b1 = ?b2" using sa(3) by (intro check_answer_fine) (simp_all add: b1_def)
  have 4: "id_process_work lib jbuf jkey kb rb (Id_Challenge_Response m3) b1 = Some (?b2, [])"
    using i4(1) i5 cb by (simp add: id_process_work_def process_challenge_response_def)
  show ?thesis using 1 2 3 4 by (intro exI conjI) (assumption | simp add: pub_eq_def)+
qed

theorem handshake_completes_witness:
  "\<exists>a1 m1 b1 m2 a2 m3 b2. initiate_dialogue (replicate 20 1) (id_peer0 []) = (a1, [m1])
    \<and> id_process_work toy_secp (replicate 64 0) [] (toy_pair (replicate 32 8)) (replicate 20 2) m1 (id_peer0 []) = Some (b1, [m2])
    \<and> id_process_work toy_secp (replicate 64 0) [] (toy_pair (replicate 32 7)) (replicate 20 1) m2 a1 = Some (a2, [m3])
    \<and> id_process_work toy_secp (replicate 64 0) [] (toy_pair (replicate 32 8)) (replicate 20 2) m3 b1 = Some (b2, [])
    \<and> stage_peer a2 = Verified \<and> pub_eq (pubkey a2) (pub (toy_pair (replicate 32 8)))
    \<and> stage_peer b2 = Verified \<and> pub_eq (pubkey b2) (pub (toy_pair (replicate 32 7)))
    \<and> msg a2 = [] \<and> msg b2 = []"
  by (rule handshake_completes [OF toy_good_keys toy_good_keys toy_normalizes]) simp_all

text \<open>
  C40. An answer can come without a question. Asked to sign the empty text, a node answers with its key and
  a signature of it; whoever asked forwards that very message, as a challenge response, to a second
  node which has sent no challenge yet, and is taken for the first node there.
\<close>

theorem empty_challenge_impersonates:
  assumes "good_keys lib kv" "secp_normalizes lib" "rnd \<noteq> []"
  shows "\<exists>p m q. id_process_work lib jbuf jkey kv rnd (Id_Request []) p0 = Some (p, [Id_Peer_Challenge m])
    \<and> id_process_work lib jbuf jkey kb rb (Id_Challenge_Response m) (id_peer0 jkey) = Some (q, [])
    \<and> verification_is_fine q \<and> pub_eq (pubkey q) (pub kv)"
proof -
  let ?pv = "(pub_new jkey)\<lparr>pdata := pdata (pub kv), valid := True\<rparr>" and ?p0 = "id_peer0 jkey"
  obtain s where s: "sign_encode lib jbuf (priv kv) [] = Some s" "token s"
      "\<forall>k'. pdata k' = pdata (pub kv) \<longrightarrow> verify_text_not_normalized lib jbuf k' [] s"
    by (rule good_keys_sign [OF assms(1,2)])
  have v: "valid (pub kv)" using assms(1) by (simp add: good_keys_def)
  define m where "m = show_pub lib (pub kv) @ '' '' @ s @ '' '' @ random_message rnd"
  have 1: "id_process_work lib jbuf jkey kv rnd (Id_Request []) p0 = Some (p0\<lparr>msg := random_message rnd\<rparr>, [Id_Peer_Challenge m])"
    using s(1) v by (simp add: id_process_work_def process_request_def m_def Let_def)
  obtain i where i: "read_pub lib (pub_new jkey) (istr m) = (?pv, i)" "fst (read_string i) = s"
    using read_answer [OF assms(1) s(2), of "'' '' @ random_message rnd" jkey] by (auto simp: m_def)
  then obtain i' where i': "read_string i = (s, i')" by (metis prod.collapse)
  have "check_answer lib jbuf ?pv s ?p0 = ?p0\<lparr>stage_peer := Verified, pubkey := ?pv, msg := []\<rparr>"
    using s(3) by (intro check_answer_fine) (simp_all add: id_peer0_def)
  then have 2: "id_process_work lib jbuf jkey kb rb (Id_Challenge_Response m) ?p0 =
      Some (?p0\<lparr>stage_peer := Verified, pubkey := ?pv, msg := []\<rparr>, [])"
    using i(1) i' by (simp add: id_process_work_def process_challenge_response_def)
  show ?thesis using 1 2 by (intro exI conjI) (assumption | simp add: pub_eq_def verification_is_fine_def)+
qed

theorem empty_challenge_impersonates_witness:
  "\<exists>p m q. id_process_work toy_secp (replicate 64 0) [] (toy_pair (replicate 32 8)) [4] (Id_Request []) (id_peer0 []) =
      Some (p, [Id_Peer_Challenge m])
    \<and> id_process_work toy_secp (replicate 64 0) [] (toy_pair (replicate 32 9)) [5] (Id_Challenge_Response m) (id_peer0 []) = Some (q, [])
    \<and> verification_is_fine q \<and> pub_eq (pubkey q) (pub (toy_pair (replicate 32 8)))"
  by (rule empty_challenge_impersonates [OF toy_good_keys toy_normalizes]) simp_all

end
