(* ===== verification/Double_Text.thy ===== *)
theory Double_Text
  imports Streams Doubles
begin

text \<open>
  The text of \<open>double\<close>s, as \<open>operator <<\<close> and \<open>operator >>\<close> of the C++ streams print and read it with the
  default format: six significant digits (\<open>%g\<close>). Printing loses digits; what the lemmas show
  is that printing what was read back prints the same text, so that texts that contain policies,
  and their hashes, are stable.
\<close>

section \<open>Printing\<close>

definition pow10 :: "int \<Rightarrow> rat" where
  "pow10 e = (if 0 \<le> e then 10 ^ nat e else 1 / 10 ^ nat (- e))"

text \<open>The decimal exponent of a positive number.\<close>

definition dec_exp :: "rat \<Rightarrow> int" where
  "dec_exp x =
     (let (p, q) = quotient_of x;
          e = int (length (show_nat (nat p))) - int (length (show_nat (nat q)))
      in if pow10 e \<le> x then e else e - 1)"

text \<open>Six digits and the exponent of the first one.\<close>

definition digits6 :: "rat \<Rightarrow> int \<times> int" where
  "digits6 x =
     (let e = dec_exp x; m = round_even (x / pow10 (e - 5))
      in if m = 10 ^ 6 then (10 ^ 5, e + 1) else (m, e))"

definition strip0 :: "string \<Rightarrow> string" where
  "strip0 ds = rev (dropWhile (\<lambda>c. c = CHR ''0'') (rev ds))"

definition point :: "string \<Rightarrow> string" where
  "point f = (if f = [] then [] else CHR ''.'' # f)"

definition show_exp :: "int \<Rightarrow> string" where
  "show_exp e = CHR ''e'' # (if e < 0 then CHR ''-'' else CHR ''+'') #
     (if \<bar>e\<bar> < 10 then CHR ''0'' # show_nat (nat \<bar>e\<bar>) else show_nat (nat \<bar>e\<bar>))"

definition show_digits :: "int \<times> int \<Rightarrow> string" where
  "show_digits = (\<lambda>(m, e).
     let ds = show_nat (nat m)
     in if e < -4 \<or> 6 \<le> e then hd ds # point (strip0 (tl ds)) @ show_exp e
        else if 0 \<le> e then take (nat (e + 1)) ds @ point (strip0 (drop (nat (e + 1)) ds))
        else ''0'' @ point (replicate (nat (- e - 1)) CHR ''0'' @ strip0 ds))"

definition show_double :: "rat \<Rightarrow> string" where
  "show_double x =
     (if x = 0 then ''0'' else if x < 0 then CHR ''-'' # show_digits (digits6 (- x)) else show_digits (digits6 x))"

section \<open>Reading\<close>

text \<open>
  The characters of a number: sign, digits, a point and digits, an exponent. The result is the number
  and whether there were digits where digits have to be.
\<close>

definition dec_value :: "string \<Rightarrow> string \<Rightarrow> int \<Rightarrow> rat" where
  "dec_value ip fp ex = of_nat (parse_nat (ip @ fp)) * pow10 (ex - int (length fp))"

definition read_fraction :: "string \<Rightarrow> string \<times> string" where
  "read_fraction s =
     (case s of
        [] \<Rightarrow> ([], [])
      | c # r \<Rightarrow> if c = CHR ''.'' then (takeWhile isdigit r, dropWhile isdigit r) else ([], s))"

definition read_exponent :: "string \<Rightarrow> int option \<times> string" where
  "read_exponent s =
     (case s of
        [] \<Rightarrow> (Some 0, [])
      | c # r \<Rightarrow>
          (if c = CHR ''e'' \<or> c = CHR ''E''
           then let neg = (r \<noteq> [] \<and> hd r = CHR ''-'');
                    r = (if r \<noteq> [] \<and> (hd r = CHR ''-'' \<or> hd r = CHR ''+'') then tl r else r);
                    ds = takeWhile isdigit r
                in (if ds = [] then None else Some (if neg then - int (parse_nat ds) else int (parse_nat ds)),
                    dropWhile isdigit r)
           else (Some 0, s)))"

definition read_double :: "istream \<Rightarrow> rat option \<times> istream" where
  "read_double is =
     (case sentry is of
        (False, is) \<Rightarrow> (None, is)
      | (True, is) \<Rightarrow>
          let neg = hd (ichars is) = CHR ''-'';
              body = (if neg \<or> hd (ichars is) = CHR ''+'' then tl (ichars is) else ichars is);
              ip = takeWhile isdigit body;
              (fp, r) = read_fraction (dropWhile isdigit body);
              (ex, r) = (if ip = [] \<and> fp = [] then (None, r) else read_exponent r);
              is = is\<lparr>ichars := r, ieof := r = []\<rparr>
          in case ex of
               None \<Rightarrow> (Some 0, setfail is)
             | Some ex \<Rightarrow> (Some (fl (if neg then - dec_value ip fp ex else dec_value ip fp ex)), is))"

section \<open>Powers of ten\<close>

lemma pow10_powi: "pow10 e = 10 powi e"
  by (simp add: pow10_def power_int_def field_simps)

lemma pow10_pos [simp]: "0 < pow10 e"
  by (simp add: pow10_def)

lemma pow10_nonzero [simp]: "pow10 e \<noteq> 0"
  using pow10_pos [of e] by linarith

lemma pow10_add: "pow10 (a + b) = pow10 a * pow10 b"
  by (simp add: pow10_powi power_int_add)

lemma pow10_nat: "pow10 (int n) = 10 ^ n"
  by (simp add: pow10_def)

lemma pow10_mono: "a \<le> b \<Longrightarrow> pow10 a \<le> pow10 b"
  unfolding pow10_powi by (intro power_int_increasing) simp_all

lemma pow10_less: "pow10 a < pow10 b \<Longrightarrow> a < b"
  using pow10_mono [of b a] by linarith

lemma length_show_nat: "0 < n \<Longrightarrow> 10 ^ (length (show_nat n) - 1) \<le> n \<and> n < 10 ^ length (show_nat n)"
proof (induction n rule: show_nat.induct)
  case (1 n)
  show ?case
  proof (cases "n < 10")
    case True
    then have "length (show_nat n) = 1" by (subst show_nat.simps) simp
    then show ?thesis using True 1(2) by simp
  next
    case False
    have l: "length (show_nat n) = Suc (length (show_nat (n div 10)))" using False by (subst show_nat.simps) simp
    have ih: "10 ^ (length (show_nat (n div 10)) - 1) \<le> n div 10" "n div 10 < 10 ^ length (show_nat (n div 10))"
      using 1(1) False by auto
    have "n div 10 * 10 \<le> n" "n < (n div 10 + 1) * 10" by presburger+
    moreover have "10 ^ (length (show_nat n) - 1) = 10 ^ (length (show_nat (n div 10)) - 1) * (10 :: nat)"
      unfolding l by (cases "length (show_nat (n div 10))") simp_all
    moreover have "10 ^ length (show_nat n) = 10 ^ length (show_nat (n div 10)) * (10 :: nat)" unfolding l by simp
    ultimately show ?thesis using mult_le_mono1 [OF ih(1), of 10] mult_le_mono1 [of "n div 10 + 1" _ 10] ih(2) by fastforce
  qed
qed

lemma show_nat_pow10:
  assumes "0 < p"
  shows "pow10 (int (length (show_nat (nat p))) - 1) \<le> of_int p" "of_int p < pow10 (int (length (show_nat (nat p))))"
proof -
  define d where "d = length (show_nat (nat p))"
  have b: "10 ^ (d - 1) \<le> nat p" "nat p < 10 ^ d" using length_show_nat [of "nat p"] assms by (simp_all add: d_def)
  have "int d - 1 = int (d - 1)" using show_nat_nonempty [of "nat p"] by (cases d) (auto simp: d_def)
  moreover have "(of_nat (10 ^ (d - 1)) :: rat) \<le> of_nat (nat p)" "(of_nat (nat p) :: rat) < of_nat (10 ^ d)"
    using b by (simp_all only: of_nat_le_iff of_nat_less_iff)
  moreover have "of_nat (nat p) = (of_int p :: rat)" using assms by simp
  ultimately have "pow10 (int d - 1) \<le> of_int p" "of_int p < pow10 (int d)"
    by (simp_all only: pow10_nat of_nat_power of_nat_numeral)
  then show "pow10 (int (length (show_nat (nat p))) - 1) \<le> of_int p" "of_int p < pow10 (int (length (show_nat (nat p))))"
    by (simp_all only: d_def)
qed

lemma dec_exp_bounds:
  assumes "0 < x"
  shows "pow10 (dec_exp x) \<le> x \<and> x < pow10 (dec_exp x + 1)"
proof -
  obtain p q where pq: "quotient_of x = (p, q)" by (cases "quotient_of x")
  have q: "0 < q" using pq by (rule quotient_of_denom_pos)
  have x: "x = of_int p / of_int q" using pq by (rule quotient_of_div)
  have p: "0 < p" using assms q unfolding x by (simp add: zero_less_divide_iff)
  define dp dq where "dp = length (show_nat (nat p))" and "dq = length (show_nat (nat q))"
  have pr: "pow10 (int dp - 1) \<le> of_int p" "of_int p < pow10 (int dp)"
    unfolding dp_def by (rule show_nat_pow10 [OF p])+
  have qr: "pow10 (int dq - 1) \<le> of_int q" "of_int q < pow10 (int dq)"
    unfolding dq_def by (rule show_nat_pow10 [OF q])+
  let ?e = "int dp - int dq"
  have lo: "pow10 (?e - 1) \<le> x"
  proof -
    have "pow10 (?e - 1) * of_int q \<le> pow10 (?e - 1) * pow10 (int dq)" using qr(2) by (intro mult_left_mono) (simp_all add: less_imp_le)
    also have "\<dots> = pow10 (int dp - 1)" unfolding pow10_add [symmetric] by simp
    finally show ?thesis using pr(1) q by (simp add: x pos_le_divide_eq)
  qed
  have hi: "x < pow10 (?e + 1)"
  proof -
    have "pow10 (int dp) = pow10 (?e + 1) * pow10 (int dq - 1)" unfolding pow10_add [symmetric] by simp
    also have "\<dots> \<le> pow10 (?e + 1) * of_int q" using qr(1) by (intro mult_left_mono) (simp_all add: less_imp_le)
    finally show ?thesis using pr(2) q by (simp add: x pos_divide_less_eq)
  qed
  have "dec_exp x = (if pow10 ?e \<le> x then ?e else ?e - 1)" by (simp add: dec_exp_def pq dp_def dq_def)
  then show ?thesis using lo hi by auto
qed

lemma dec_exp_unique:
  assumes "0 < x" "pow10 e \<le> x" "x < pow10 (e + 1)"
  shows "dec_exp x = e"
proof -
  have "pow10 (dec_exp x) < pow10 (e + 1)" "pow10 e < pow10 (dec_exp x + 1)"
    using dec_exp_bounds [OF assms(1)] assms(2,3) by linarith+
  from pow10_less [OF this(1)] pow10_less [OF this(2)] show ?thesis by linarith
qed

section \<open>Six digits survive\<close>

lemma round_even_near:
  assumes "\<bar>x - of_int n\<bar> < 1 / 2"
  shows "round_even x = n"
proof -
  have "\<bar>of_int (round_even x) - of_int n :: rat\<bar> < 1"
    using round_even_error [of x] assms by linarith
  then have "\<bar>(of_int (round_even x - n) :: rat)\<bar> < 1" by simp
  then have "\<bar>round_even x - n\<bar> < 1" by linarith
  then show ?thesis by simp
qed

lemma digits6_range:
  assumes "0 < x" "digits6 x = (m, e)"
  shows "10 ^ 5 \<le> m \<and> m < 10 ^ 6"
proof -
  define y where "y = x / pow10 (dec_exp x - 5)"
  have "pow10 (dec_exp x) = 10 ^ 5 * pow10 (dec_exp x - 5)" "pow10 (dec_exp x + 1) = 10 ^ 6 * pow10 (dec_exp x - 5)"
    using pow10_add [of 5 "dec_exp x - 5"] pow10_add [of 6 "dec_exp x - 5"] by (simp_all add: pow10_def [of 5] pow10_def [of 6] add.commute)
  then have y: "100000 \<le> y" "y < 1000000"
    using dec_exp_bounds [OF assms(1)] by (simp_all add: y_def pos_le_divide_eq pos_divide_less_eq)
  have "(99999 :: rat) < of_int (round_even y)" "(of_int (round_even y) :: rat) < 1000001"
    using y round_even_error [of y] by linarith+
  then have "99999 < round_even y" "round_even y < 1000001" by simp_all
  then show ?thesis using assms(2) by (auto simp: digits6_def Let_def y_def [symmetric] split: if_splits)
qed

lemma quotient_near:
  fixes u :: rat
  assumes "0 < u" "\<bar>y - of_int n * u\<bar> < u / 2"
  shows "round_even (y / u) = n"
proof (rule round_even_near)
  have "y / u - of_int n = (y - of_int n * u) / u" using assms(1) by (simp add: diff_divide_distrib)
  then have "\<bar>y / u - of_int n\<bar> = \<bar>y - of_int n * u\<bar> / u" using assms(1) by (simp only: abs_divide abs_of_pos)
  then show "\<bar>y / u - of_int n\<bar> < 1 / 2" using assms by (simp add: pos_divide_less_eq)
qed

lemma digits6_exact:
  assumes "10 ^ 5 \<le> m" "m < 10 ^ 6" "\<bar>y - of_int m * pow10 (e - 5)\<bar> \<le> of_int m * pow10 (e - 5) / 2 ^ 53"
  shows "digits6 y = (m, e)"
proof -
  let ?u = "pow10 (e - 5)"
  have mr: "(100000 :: rat) \<le> of_int m" "(of_int m :: rat) \<le> 999999"
    using assms(1,2) of_int_le_iff [of 100000 m, where 'a = rat] of_int_le_iff [of m 999999, where 'a = rat] by simp_all
  have u: "0 < ?u" by simp
  have "of_int m * ?u / 2 ^ 53 \<le> 1000000 * ?u / 2 ^ 53" using mr(2) u by (intro divide_right_mono mult_right_mono) (simp_all add: less_imp_le)
  moreover have "1000000 * ?u / 2 ^ 53 < ?u / 1000" using u by simp
  ultimately have near: "\<bar>y - of_int m * ?u\<bar> < ?u / 1000" using assms(3) by linarith
  have p: "pow10 e = 100000 * ?u" "pow10 (e + 1) = 1000000 * ?u" "pow10 (e - 1) = 10000 * ?u" "pow10 (e - 1 - 5) = ?u / 10"
    using pow10_add [of 5 "e - 5"] pow10_add [of 6 "e - 5"] pow10_add [of 4 "e - 5"] pow10_add [of "-1" "e - 5"]
    by (simp_all add: pow10_def [of 5] pow10_def [of 6] pow10_def [of 4] pow10_def [of "-1"] algebra_simps)
  have u0: "0 \<le> ?u" using u by (rule less_imp_le)
  have mu: "100000 * ?u \<le> of_int m * ?u" "of_int m * ?u \<le> 999999 * ?u" using mult_right_mono [OF _ u0] mr by blast+
  have y0: "0 < y" using near mu(1) u by linarith
  show ?thesis
  proof (cases "pow10 e \<le> y")
    case True
    have "y < pow10 (e + 1)" using near mu(2) u unfolding p by linarith
    then have e: "dec_exp y = e" using True y0 by (intro dec_exp_unique)
    have "round_even (y / ?u) = m" by (rule quotient_near [OF u]) (use near u in linarith)
    then show ?thesis using assms(2) e by (simp add: digits6_def)
  next
    case False
    then have lt: "y < 100000 * ?u" by (simp add: p)
    have "of_int m * ?u < 100001 * ?u" using lt near u by linarith
    then have "(of_int m :: rat) < of_int 100001" using u by simp
    then have "m < 100001" by (simp only: of_int_less_iff)
    then have m: "m = 100000" using assms(1) by simp
    have "pow10 (e - 1) \<le> y" using near mu(1) u unfolding p by linarith
    then have e: "dec_exp y = e - 1" using False y0 by (intro dec_exp_unique) simp_all
    have eq: "of_int 1000000 * (?u / 10) = of_int m * ?u" by (simp add: m)
    have "\<bar>y - of_int 1000000 * (?u / 10)\<bar> < ?u / 10 / 2" unfolding eq using near u by linarith
    then have "round_even (y / (?u / 10)) = 1000000" using u by (intro quotient_near) simp_all
    then have "round_even (y / pow10 (e - 1 - 5)) = 1000000" unfolding p(4) .
    then show ?thesis unfolding digits6_def e Let_def by (simp add: m)
  qed
qed

text \<open>The decimal number that is printed.\<close>

definition dec6 :: "rat \<Rightarrow> rat" where
  "dec6 x = (if x = 0 then 0 else let (m, e) = digits6 \<bar>x\<bar> in sgn x * of_int m * pow10 (e - 5))"

lemma fl_minus: "fl (- x) = - fl x"
  by (simp add: fl_def Let_def sgn_minus)

lemma digits6_dec6:
  assumes "0 < x"
  shows "digits6 (fl (dec6 x)) = digits6 x" and "0 < fl (dec6 x)"
proof -
  obtain m e where me: "digits6 x = (m, e)" by (cases "digits6 x")
  note r = digits6_range [OF assms me]
  have d: "dec6 x = of_int m * pow10 (e - 5)" using assms me by (simp add: dec6_def)
  have pos: "0 < dec6 x" using r unfolding d by simp
  show "digits6 (fl (dec6 x)) = digits6 x"
    using digits6_exact [of m "fl (dec6 x)" e] r fl_error [of "dec6 x"] pos me d by simp
  have "dec6 x / 2 ^ 53 < dec6 x" using pos by simp
  then show "0 < fl (dec6 x)" using fl_error [of "dec6 x"] pos by linarith
qed

lemma dec6_minus: "dec6 (- x) = - dec6 x"
  by (simp add: dec6_def sgn_minus split: prod.split)

lemma show_double_stable: "show_double (fl (dec6 x)) = show_double x"
proof (cases x "0 :: rat" rule: linorder_cases)
  case less
  then have "0 < - x" by simp
  from digits6_dec6 [OF this] show ?thesis using less by (simp add: show_double_def dec6_minus fl_minus)
next
  case equal
  then show ?thesis by (simp add: dec6_def fl_def)
next
  case greater
  from digits6_dec6 [OF this] show ?thesis using greater by (simp add: show_double_def)
qed

section \<open>Reading what was printed\<close>

lemma parse_nat_append: "parse_nat (xs @ ys) = parse_nat xs * 10 ^ length ys + parse_nat ys"
proof (induction ys rule: rev_induct)
  case (snoc y ys)
  have sn: "parse_nat (zs @ [y]) = parse_nat zs * 10 + digit_val y" for zs by (simp add: parse_nat_def)
  show ?case using sn [of "xs @ ys"] sn [of ys] snoc by (simp add: algebra_simps)
qed (simp add: parse_nat_def)

lemma parse_zeros [simp]: "parse_nat (replicate n CHR ''0'') = 0" "parse_nat (CHR ''0'' # ds) = parse_nat ds"
proof -
  show z: "parse_nat (replicate n CHR ''0'') = 0" for n
    unfolding parse_nat_def by (simp add: digit_val_def)
  show "parse_nat (CHR ''0'' # ds) = parse_nat ds"
    using parse_nat_append [of "[CHR ''0'']" ds] z [of 1] by simp
qed

lemma strip0_zeros: "\<exists>z. ds = strip0 ds @ replicate z CHR ''0''"
proof -
  let ?t = "takeWhile (\<lambda>c. c = CHR ''0'') (rev ds)"
  have "?t = replicate (length ?t) CHR ''0''" by (rule takeWhile_eq_replicate)
  moreover have "rev ds = ?t @ dropWhile (\<lambda>c. c = CHR ''0'') (rev ds)" by simp
  then have "ds = strip0 ds @ rev ?t" unfolding strip0_def by (metis rev_append rev_rev_ident)
  ultimately show ?thesis by (metis rev_replicate)
qed

lemma set_strip0: "set (strip0 ds) \<subseteq> set ds"
  unfolding strip0_def using set_dropWhileD by fastforce

text \<open>Dropping zeros at the end of the fraction does not change the value.\<close>

lemma dec_value_strip: "dec_value ip (strip0 fp) ex = dec_value ip fp ex"
proof -
  obtain z where z: "fp = strip0 fp @ replicate z CHR ''0''" using strip0_zeros by blast
  have "parse_nat (ip @ fp) = parse_nat (ip @ strip0 fp) * 10 ^ z"
    using parse_nat_append [of "ip @ strip0 fp" "replicate z CHR ''0''"] z by simp
  moreover have "length fp = length (strip0 fp) + z" using z by (metis length_append length_replicate)
  moreover have "pow10 (ex - int (length (strip0 fp))) = pow10 (int z) * pow10 (ex - int (length (strip0 fp) + z))"
    unfolding pow10_add [symmetric] by simp
  ultimately show ?thesis by (simp add: dec_value_def pow10_nat)
qed

lemma dec_value_split: "dec_value xs ys ex = of_nat (parse_nat (xs @ ys)) * pow10 (ex - int (length ys))"
  by (simp add: dec_value_def)

lemma isdigit_zero [simp]: "isdigit CHR ''0''"
  by (simp add: isdigit_def)

lemma not_isdigit [simp]: "\<not> isdigit CHR ''.''" "\<not> isdigit CHR ''e''" "\<not> isdigit CHR ''-''" "\<not> isdigit CHR ''+''" "\<not> isdigit CHR '' ''"
  by (simp_all add: isdigit_def)

text \<open>Characters after a run of digits.\<close>

lemma digits_then:
  assumes "\<forall>c \<in> set ds. isdigit c" "r = [] \<or> \<not> isdigit (hd r)"
  shows "takeWhile isdigit (ds @ r) = ds" "dropWhile isdigit (ds @ r) = r"
proof -
  show "takeWhile isdigit (ds @ r) = ds" using assms by (cases r) (simp_all add: takeWhile_append2)
  show "dropWhile isdigit (ds @ r) = r" using assms by (cases r) (simp_all add: dropWhile_append2)
qed

lemma read_fraction_point:
  assumes "\<forall>c \<in> set fp. isdigit c" "c \<noteq> CHR ''.''" "\<not> isdigit c"
  shows "read_fraction (point fp @ c # r) = (fp, c # r)"
  using assms digits_then [of fp "c # r"] by (simp add: read_fraction_def point_def)

lemma read_exponent_show:
  "read_exponent (show_exp e @ CHR '' '' # r) = (Some e, CHR '' '' # r)"
proof -
  define ds where "ds = (if \<bar>e\<bar> < 10 then CHR ''0'' # show_nat (nat \<bar>e\<bar>) else show_nat (nat \<bar>e\<bar>))"
  have d: "\<forall>c \<in> set ds. isdigit c" using show_nat_isdigit by (auto simp: ds_def)
  have "ds \<noteq> []" by (simp add: ds_def)
  moreover have "parse_nat ds = nat \<bar>e\<bar>" by (simp add: ds_def)
  moreover have "show_exp e = CHR ''e'' # (if e < 0 then CHR ''-'' else CHR ''+'') # ds" by (simp add: show_exp_def ds_def)
  ultimately show ?thesis
    using digits_then [OF d, of "CHR '' '' # r"] by (simp add: read_exponent_def Let_def)
qed

lemma read_exponent_none: "read_exponent (CHR '' '' # r) = (Some 0, CHR '' '' # r)"
  by (simp add: read_exponent_def)

lemma point_hd: "s \<noteq> [] \<Longrightarrow> \<not> isdigit (hd s) \<Longrightarrow> point fp @ s \<noteq> [] \<and> \<not> isdigit (hd (point fp @ s))"
  by (simp add: point_def)

lemma read_number:
  assumes "\<forall>c \<in> set ip. isdigit c" "\<forall>c \<in> set fp. isdigit c" "ip \<noteq> []"
    and "s = (if neg then CHR ''-'' # body else body)" and "body = ip @ point fp @ tail"
    and "read_exponent tail = (Some ex, CHR '' '' # r)" "tail \<noteq> []" "\<not> isdigit (hd tail)" "hd tail \<noteq> CHR ''.''"
  shows "read_double (istr s) = (Some (fl (if neg then - dec_value ip fp ex else dec_value ip fp ex)), istr (CHR '' '' # r))"
proof -
  obtain i ip' where i: "ip = i # ip'" "isdigit i" using assms(1,3) by (cases ip) auto
  obtain t tl' where t: "tail = t # tl'" using assms(7) by (cases tail) auto
  have "sentry (istr s) = (True, istr s)"
    using assms(4,5) i isdigit_not_space [OF i(2)] by (intro sentry_token) (auto simp: isspace_def)
  moreover have "hd s = CHR ''-'' \<longleftrightarrow> neg" "\<not> neg \<Longrightarrow> hd s \<noteq> CHR ''+''" using assms(4,5) i isdigit_not_sign [OF i(2)] by auto
  moreover have "takeWhile isdigit body = ip" "dropWhile isdigit body = point fp @ tail"
    using digits_then [OF assms(1), of "point fp @ tail"] point_hd [OF assms(7,8)] by (simp_all add: assms(5))
  moreover have "read_fraction (point fp @ tail) = (fp, tail)"
    using read_fraction_point [OF assms(2), of t tl'] assms(8,9) by (simp add: t)
  moreover have "tl (CHR ''-'' # body) = body" by simp
  ultimately show ?thesis using assms(3,4,6) by (cases neg) (simp_all add: read_double_def)
qed

lemma digits6_text:
  assumes "10 ^ 5 \<le> m" "m < 10 ^ 6"
  shows "length (show_nat (nat m)) = 6" "\<forall>c \<in> set (show_nat (nat m)). isdigit c" "parse_nat (show_nat (nat m)) = nat m"
proof -
  define l where "l = length (show_nat (nat m))"
  have n: "0 < nat m" "10 ^ 5 \<le> nat m" "nat m < 10 ^ 6" using assms by simp_all
  have "10 ^ (l - 1) \<le> nat m" "nat m < 10 ^ l" using length_show_nat [OF n(1)] by (simp_all add: l_def)
  then have "10 ^ (l - 1) < (10 :: nat) ^ 6" "(10 :: nat) ^ 5 < 10 ^ l" using n(2,3) by (meson le_less_trans)+
  then have "l - 1 < 6" "5 < l" using power_less_imp_less_exp [of "10 :: nat" "l - 1" 6] power_less_imp_less_exp [of "10 :: nat" 5 l] by linarith+
  then show "length (show_nat (nat m)) = 6" by (simp add: l_def)
qed (simp_all add: show_nat_isdigit)

lemma strip0_digits: "\<forall>c \<in> set x. isdigit c \<Longrightarrow> \<forall>c \<in> set (strip0 x). isdigit c"
  using set_strip0 by blast

text \<open>The three formats of \<open>%g\<close>, as digits before the point, digits after it and an exponent.\<close>

lemma format_e:
  assumes "ds = i # r" "length ds = 6" "parse_nat ds = n"
  shows "dec_value [i] (strip0 r) e = of_nat n * pow10 (e - 5)"
  using assms unfolding dec_value_strip by (simp add: dec_value_split)

lemma format_f:
  assumes "length ds = 6" "parse_nat ds = n" "0 \<le> e" "e < 6"
  shows "dec_value (take (nat (e + 1)) ds) (strip0 (drop (nat (e + 1)) ds)) 0 = of_nat n * pow10 (e - 5)"
proof -
  have "0 - int (length (drop (nat (e + 1)) ds)) = e - 5" using assms(1,3,4) by simp
  then show ?thesis unfolding dec_value_strip using assms(2) by (simp only: dec_value_split append_take_drop_id)
qed

lemma format_small:
  assumes "length ds = 6" "parse_nat ds = n" "e < 0"
  shows "dec_value ''0'' (replicate (nat (- e - 1)) CHR ''0'' @ strip0 ds) 0 = of_nat n * pow10 (e - 5)"
proof -
  let ?z = "replicate (nat (- e - 1)) CHR ''0''"
  obtain y where y: "ds = strip0 ds @ replicate y CHR ''0''" using strip0_zeros by blast
  have p: "n = parse_nat (strip0 ds) * 10 ^ y"
    using parse_nat_append [of "strip0 ds" "replicate y CHR ''0''"] y assms(2) by simp
  have l: "length (strip0 ds) + y = 6" using y assms(1) by (metis length_append length_replicate)
  have "parse_nat (''0'' @ ?z @ strip0 ds) = parse_nat (strip0 ds)"
    using parse_nat_append [of ?z "strip0 ds"] by simp
  moreover have "0 - int (length (?z @ strip0 ds)) = int y + (e - 5)" using l assms(3) by simp
  ultimately show ?thesis unfolding dec_value_split p by (simp only: pow10_add pow10_nat of_nat_mult of_nat_power of_nat_numeral mult.assoc)
qed

lemma show_digits_form:
  assumes "10 ^ 5 \<le> m" "m < 10 ^ 6"
  obtains ip fp ex where "\<forall>c \<in> set ip. isdigit c" "\<forall>c \<in> set fp. isdigit c" "ip \<noteq> []"
    "dec_value ip fp ex = of_int m * pow10 (e - 5)"
    "show_digits (m, e) = ip @ point fp @ (if ex = 0 then [] else show_exp ex)"
proof -
  define ds where "ds = show_nat (nat m)"
  have d: "length ds = 6" "\<forall>c \<in> set ds. isdigit c" "parse_nat ds = nat m" unfolding ds_def by (rule digits6_text [OF assms])+
  have m: "(of_nat (nat m) :: rat) = of_int m" using assms by simp
  have sd: "show_digits (m, e) = (if e < -4 \<or> 6 \<le> e then hd ds # point (strip0 (tl ds)) @ show_exp e
        else if 0 \<le> e then take (nat (e + 1)) ds @ point (strip0 (drop (nat (e + 1)) ds))
        else ''0'' @ point (replicate (nat (- e - 1)) CHR ''0'' @ strip0 ds))"
    by (simp only: show_digits_def prod.case ds_def Let_def)
  obtain i r where ir: "ds = i # r" using d(1) by (cases ds) auto
  consider "e < -4 \<or> 6 \<le> e" | "0 \<le> e" "e < 6" | "-4 \<le> e" "e < 0" by linarith
  then show ?thesis
  proof cases
    case 1
    have dr: "\<forall>c \<in> set [i]. isdigit c" "\<forall>c \<in> set r. isdigit c" using d(2) unfolding ir by simp_all
    note dr(1) strip0_digits [OF dr(2)]
    moreover have "show_digits (m, e) = [i] @ point (strip0 r) @ (if e = 0 then [] else show_exp e)"
      using 1 unfolding sd by (auto simp: ir)
    ultimately show ?thesis by (intro that [of "[i]" "strip0 r" e, OF _ _ _ format_e [OF ir d(1,3), of e, unfolded m]]) simp_all
  next
    case 2
    let ?k = "nat (e + 1)"
    have "\<forall>c \<in> set (take ?k ds). isdigit c" using d(2) set_take_subset [of ?k ds] by blast
    moreover have "\<forall>c \<in> set (strip0 (drop ?k ds)). isdigit c" using d(2) set_drop_subset [of ?k ds] by (intro strip0_digits) blast
    moreover have "take ?k ds \<noteq> []" using 2(1) by (simp add: ir)
    moreover have "show_digits (m, e) = take ?k ds @ point (strip0 (drop ?k ds)) @ (if (0 :: int) = 0 then [] else show_exp 0)"
      using 2 unfolding sd by simp
    ultimately show ?thesis
      by (intro that [of "take ?k ds" "strip0 (drop ?k ds)" 0, OF _ _ _ format_f [OF d(1,3) 2, unfolded m]])
  next
    case 3
    let ?z = "replicate (nat (- e - 1)) CHR ''0''"
    have "\<forall>c \<in> set (?z @ strip0 ds). isdigit c" using strip0_digits [OF d(2)] by auto
    moreover have "show_digits (m, e) = ''0'' @ point (?z @ strip0 ds) @ (if (0 :: int) = 0 then [] else show_exp 0)"
      using 3 unfolding sd by simp
    ultimately show ?thesis
      by (intro that [of "''0''" "?z @ strip0 ds" 0, OF _ _ _ format_small [OF d(1,3) 3(2), unfolded m]]) simp_all
  qed
qed

lemma read_show_digits:
  assumes "10 ^ 5 \<le> m" "m < 10 ^ 6" "s = (if neg then CHR ''-'' # body else body)" "body = show_digits (m, e) @ CHR '' '' # r"
    "v = of_int m * pow10 (e - 5)"
  shows "read_double (istr s) = (Some (fl (if neg then - v else v)), istr (CHR '' '' # r))"
proof -
  obtain ip fp ex where f: "\<forall>c \<in> set ip. isdigit c" "\<forall>c \<in> set fp. isdigit c" "ip \<noteq> []" "dec_value ip fp ex = v"
      and sd: "show_digits (m, e) = ip @ point fp @ (if ex = 0 then [] else show_exp ex)"
    using show_digits_form [OF assms(1,2), of e] assms(5) by metis
  let ?t = "(if ex = 0 then [] else show_exp ex) @ CHR '' '' # r"
  have "read_exponent ?t = (Some ex, CHR '' '' # r)" by (simp add: read_exponent_show read_exponent_none)
  moreover have "?t \<noteq> []" "\<not> isdigit (hd ?t)" "hd ?t \<noteq> CHR ''.''" by (simp_all add: show_exp_def)
  ultimately show ?thesis
    using read_number [OF f(1-3) assms(3), of ?t ex r] f(4) assms(4) sd by simp
qed

lemma read_double_zero: "read_double (istr (CHR ''0'' # CHR '' '' # r)) = (Some 0, istr (CHR '' '' # r))"
proof -
  have "read_double (istr (CHR ''0'' # CHR '' '' # r)) = (Some (fl (if False then - dec_value ''0'' [] 0 else dec_value ''0'' [] 0)), istr (CHR '' '' # r))"
    by (rule read_number [where tail = "CHR '' '' # r"]) (simp_all add: point_def read_exponent_none)
  moreover have "dec_value ''0'' [] 0 = 0" using parse_zeros(1) [of 1] by (simp add: dec_value_def)
  ultimately show ?thesis by (simp add: fl_def)
qed

lemma read_double_show [stream_simps]:
  "read_double (istr (show_double x @ CHR '' '' # r)) = (Some (fl (dec6 x)), istr (CHR '' '' # r))"
proof (cases "x = 0")
  case True
  then show ?thesis by (simp add: show_double_def dec6_def read_double_zero fl_def)
next
  case False
  obtain m e where me: "digits6 \<bar>x\<bar> = (m, e)" by (cases "digits6 \<bar>x\<bar>")
  have "0 < \<bar>x\<bar>" using False by simp
  note r = digits6_range [OF this me]
  let ?v = "of_int m * pow10 (e - 5)" and ?b = "show_digits (m, e) @ CHR '' '' # r"
  have "show_double x = (if x < 0 then CHR ''-'' # show_digits (m, e) else show_digits (m, e))"
    using False me by (simp add: show_double_def abs_if split: if_splits)
  then have s: "show_double x @ CHR '' '' # r = (if x < 0 then CHR ''-'' # ?b else ?b)" by simp
  have "dec6 x = (if x < 0 then - ?v else ?v)" using False me by (simp add: dec6_def)
  then show ?thesis
    using read_show_digits [OF conjunct1 [OF r] conjunct2 [OF r] s refl refl] by simp
qed

lemma read_double_skip [stream_simps]: "isspace c \<Longrightarrow> read_double (istr (c # s)) = read_double (istr s)"
  by (simp add: read_double_def)

end
