(* ===== verification/Delta_Text.thy ===== *)
theory Delta_Text
  imports Auth_App Cash_Consensus Double_Text
begin

text \<open>
  The textual forms of the deltas of the two applications (\<open>to_stream\<close> and \<open>from_stream\<close> in
  \<open>src/gov/engine/auth_app.cpp\<close>, \<open>src/gov/cash/app.cpp\<close>, and of the policies in \<open>src/gov/engine/app.h\<close>), and
  the functions of \<open>src/gov/engine/app.cpp\<close> that create a delta from an application number and a stream.

  Reading returns \<open>None\<close> when the process ends: an unknown application fails an assertion, and a
  negative number of candidates makes \<open>reserve\<close> throw. Policies are printed with six digits; the locale \<open>app_text\<close>
  says what survives: a delta is read back with its policies rounded (\<open>norm\<close>), and that
  delta has the same text.
\<close>

section \<open>Uninitialised variables\<close>

record junk =
  jcount :: int
  jid :: int
  jdouble :: rat
  jwork :: nat

definition read_int :: "int \<Rightarrow> istream \<Rightarrow> int \<times> istream" where
  "read_int j is = (case read_signed 32 is of (Some n, is) \<Rightarrow> (n, is) | (None, is) \<Rightarrow> (j, is))"

section \<open>Policies\<close>

definition show_policies :: "rat list \<Rightarrow> string" where
  "show_policies vs = concat (map (\<lambda>v. show_double v @ '' '') vs)"

fun read_policies :: "rat \<Rightarrow> nat \<Rightarrow> istream \<Rightarrow> rat list \<times> istream" where
  "read_policies jd 0 is = ([], is)"
| "read_policies jd (Suc n) is =
     (let (v, is) = read_double is;
          v = (case v of Some v \<Rightarrow> v | None \<Rightarrow> jd);
          (vs, is) = read_policies jd n is
      in (v # vs, is))"

section \<open>The deltas of the node application\<close>

definition show_candidates :: "(hash_t \<times> string) list \<Rightarrow> string" where
  "show_candidates cs = show_nat (length cs) @ '' '' @ concat (map (\<lambda>(k, a). show_hash k @ '' '' @ a @ '' '') cs)"

fun read_candidates :: "nat \<Rightarrow> istream \<Rightarrow> (hash_t \<times> string) list \<times> istream" where
  "read_candidates 0 is = ([], is)"
| "read_candidates (Suc n) is =
     (let (k, is) = read_hash hash_zero is;
          (a, is) = read_string is;
          (cs, is) = read_candidates n is
      in ((k, a) # cs, is))"

definition auth_local_to_stream :: "auth_local_delta \<Rightarrow> string" where
  "auth_local_to_stream d = show_candidates (to_hall d) @ show_policies (alpolicies d)"

definition auth_local_from_stream :: "junk \<Rightarrow> istream \<Rightarrow> (auth_local_delta \<times> istream) option" where
  "auth_local_from_stream j is =
     (let (n, is) = read_int (jcount j) is
      in if n < 0 then None
         else let (cs, is) = read_candidates (nat n) is;
                  (vs, is) = read_policies (jdouble j) auth_num_params is
              in Some (\<lparr>to_hall = cs, alpolicies = vs\<rparr>, is))"

definition auth_delta_to_stream :: "auth_delta \<Rightarrow> string" where
  "auth_delta_to_stream d = show_candidates (hall_candidates d) @ show_policies (adpolicies d)"

definition auth_delta_from_stream :: "junk \<Rightarrow> istream \<Rightarrow> (auth_delta \<times> istream) option" where
  "auth_delta_from_stream j is =
     (let (n, is) = read_int (jcount j) is;
          (cs, is) = read_candidates (nat n) is;
          (vs, is) = read_policies (jdouble j) auth_num_params is
      in Some (\<lparr>hall_candidates = foldl (\<lambda>m (k, a). om_emplace k a m) om_empty cs, adpolicies = vs, admultiplicity = 0\<rparr>, is))"

section \<open>The deltas of the cash application\<close>

definition cash_local_to_stream :: "local_delta \<Rightarrow> string" where
  "cash_local_to_stream d = show_nat (length (accounts d)) @ '' '' @
     concat (map (\<lambda>(k, a). show_hash k @ '' '' @ account_to_stream a) (accounts d)) @
     show_int (fees d) @ '' '' @ show_policies (lpolicies d)"

definition cash_local_from_stream :: "junk \<Rightarrow> istream \<Rightarrow> (local_delta \<times> istream) option" where
  "cash_local_from_stream j is =
     (let (n, is) = read_int (jcount j) is;
          (as, is) = read_accounts (nat n) om_empty is;
          (f, is) = read_signed 64 is;
          (vs, is) = read_policies (jdouble j) num_params is
      in Some (\<lparr>accounts = as, fees = (case f of Some f \<Rightarrow> f | None \<Rightarrow> 0), lpolicies = vs\<rparr>, is))"

definition cash_delta_to_stream :: "delta \<Rightarrow> string" where
  "cash_delta_to_stream d = cash_local_to_stream (dg d) @ show_policies (dpolicies d)"

definition cash_delta_from_stream :: "junk \<Rightarrow> istream \<Rightarrow> (delta \<times> istream) option" where
  "cash_delta_from_stream j is =
     (case cash_local_from_stream j is of
        None \<Rightarrow> None
      | Some (g, is) \<Rightarrow>
          (let (vs, is) = read_policies (jdouble j) num_params is
           in Some (\<lparr>dpolicies = vs, multiplicity = 0, dg = g, dm = []\<rparr>, is)))"

section \<open>Deltas by application number\<close>

datatype app_local_delta = AuthLocal auth_local_delta | CashLocal local_delta
datatype app_delta = AuthDelta auth_delta | CashDelta delta

definition auth_id :: int where "auth_id = 20"
definition cash_id :: int where "cash_id = 30"

fun app_local_to_stream :: "app_local_delta \<Rightarrow> string" where
  "app_local_to_stream (AuthLocal d) = auth_local_to_stream d"
| "app_local_to_stream (CashLocal d) = cash_local_to_stream d"

fun app_delta_to_stream :: "app_delta \<Rightarrow> string" where
  "app_delta_to_stream (AuthDelta d) = auth_delta_to_stream d"
| "app_delta_to_stream (CashDelta d) = cash_delta_to_stream d"

definition app_local_create :: "junk \<Rightarrow> int \<Rightarrow> istream \<Rightarrow> (app_local_delta \<times> istream) option" where
  "app_local_create j i is =
     (if i = auth_id then map_option (apfst AuthLocal) (auth_local_from_stream j is)
      else if i = cash_id then map_option (apfst CashLocal) (cash_local_from_stream j is)
      else None)"

definition app_delta_create :: "junk \<Rightarrow> int \<Rightarrow> istream \<Rightarrow> (app_delta \<times> istream) option" where
  "app_delta_create j i is =
     (if i = auth_id then map_option (apfst AuthDelta) (auth_delta_from_stream j is)
      else if i = cash_id then map_option (apfst CashDelta) (cash_delta_from_stream j is)
      else None)"

definition app_delta_new :: "int \<Rightarrow> app_delta option" where
  "app_delta_new i =
     (if i = auth_id then Some (AuthDelta auth_delta0) else if i = cash_id then Some (CashDelta delta0) else None)"

text \<open>The loops of \<open>local_deltas::from_stream\<close> and \<open>diff::from_stream\<close>, for either kind of delta.\<close>

fun read_apps ::
  "(int \<Rightarrow> istream \<Rightarrow> ('d \<times> istream) option) \<Rightarrow> int \<Rightarrow> nat \<Rightarrow> (int, 'd) omap \<Rightarrow> istream \<Rightarrow> ((int, 'd) omap \<times> istream) option" where
  "read_apps create ji 0 m is = Some (m, is)"
| "read_apps create ji (Suc n) m is =
     (let (appid, is) = read_int ji is
      in case create appid is of
           None \<Rightarrow> None
         | Some (v, is) \<Rightarrow> read_apps create ji n (om_emplace appid v m) is)"

definition show_apps :: "('d \<Rightarrow> string) \<Rightarrow> (int, 'd) omap \<Rightarrow> string" where
  "show_apps wr m = concat (map (\<lambda>(i, d). show_int i @ '' '' @ wr d) m)"

section \<open>What survives printing and reading\<close>

definition in32 :: "int \<Rightarrow> bool" where "in32 i \<longleftrightarrow> - (2 ^ 31) \<le> i \<and> i < 2 ^ 31"

locale app_text =
  fixes wr :: "'d \<Rightarrow> string" and create :: "int \<Rightarrow> istream \<Rightarrow> ('d \<times> istream) option"
    and norm :: "'d \<Rightarrow> 'd" and wf :: "int \<Rightarrow> 'd \<Rightarrow> bool"
  assumes created: "wf i d \<Longrightarrow> create i (istr (CHR '' '' # wr d @ r)) = Some (norm d, istr (CHR '' '' # r))"
    and same_text: "wf i d \<Longrightarrow> wr (norm d) = wr d"
    and number: "wf i d \<Longrightarrow> in32 i"
begin

lemma show_apps_norm: "\<forall>(i, d) \<in> set m. wf i d \<Longrightarrow> show_apps wr (map (apsnd norm) m) = show_apps wr m"
  by (induction m) (auto simp: show_apps_def same_text)

lemma read_apps_written:
  "om_ok (map (apsnd norm) m0 @ map (apsnd norm) m) \<Longrightarrow> \<forall>(i, d) \<in> set m. wf i d \<Longrightarrow>
   read_apps create ji (length m) (map (apsnd norm) m0) (istr (CHR '' '' # show_apps wr m @ r))
     = Some (map (apsnd norm) m0 @ map (apsnd norm) m, istr (CHR '' '' # r))"
proof (induction m arbitrary: m0)
  case (Cons e m)
  obtain i d where e: "e = (i, d)" by (cases e)
  have wf: "wf i d" "in32 i" using Cons.prems(2) number by (auto simp: e)
  have ri: "read_int ji (istr (show_int i @ CHR '' '' # s)) = (i, istr (CHR '' '' # s))" for s
    using wf(2) by (simp add: read_int_def read_signed_show in32_def)
  have "om_emplace i (norm d) (map (apsnd norm) m0) = map (apsnd norm) (m0 @ [e])"
    using om_emplace_last [of "map (apsnd norm) m0" i "norm d"] Cons.prems(1) by (simp add: e)
  then show ?case
    using Cons.IH [of "m0 @ [e]"] Cons.prems created [OF wf(1)] ri
    by (simp add: e show_apps_def read_int_def read_skip)
qed (simp add: show_apps_def)

end

section \<open>The codecs\<close>

definition norm_policies :: "rat list \<Rightarrow> rat list" where "norm_policies vs = map (\<lambda>v. fl (dec6 v)) vs"

lemma read_policies_written:
  "read_policies jd (length vs) (istr (CHR '' '' # show_policies vs @ r)) = (norm_policies vs, istr (CHR '' '' # r))"
  by (induction vs) (simp_all add: show_policies_def norm_policies_def stream_simps)

lemma show_norm_policies [simp]: "show_policies (norm_policies vs) = show_policies vs"
  by (simp add: show_policies_def norm_policies_def show_double_stable o_def)

lemma length_norm_policies [simp]: "length (norm_policies vs) = length vs"
  by (simp add: norm_policies_def)

lemma read_int_count:
  "n < 2 ^ 31 \<Longrightarrow> read_int j (istr (CHR '' '' # show_nat n @ CHR '' '' # r)) = (int n, istr (CHR '' '' # r))"
  using read_signed_show [of 32 "int n" "CHR '' ''" r] by (simp add: read_int_def read_skip show_int_def)

definition wf_candidates :: "(hash_t \<times> string) list \<Rightarrow> bool" where
  "wf_candidates cs \<longleftrightarrow> length cs < 2 ^ 31 \<and> (\<forall>(k, a) \<in> set cs. token a)"

lemma read_candidates_written:
  "\<forall>(k, a) \<in> set cs. token a \<Longrightarrow>
   read_candidates (length cs) (istr (CHR '' '' # concat (map (\<lambda>(k, a). show_hash k @ '' '' @ a @ '' '') cs) @ r))
     = (cs, istr (CHR '' '' # r))"
  by (induction cs) (auto simp: stream_simps)

lemma candidates_written:
  assumes "wf_candidates cs"
  shows "read_int j (istr (CHR '' '' # show_candidates cs @ r))
      = (int (length cs), istr (CHR '' '' # concat (map (\<lambda>(k, a). show_hash k @ '' '' @ a @ '' '') cs) @ r))"
  using assms read_int_count by (simp add: show_candidates_def wf_candidates_def)

definition norm_auth_local :: "auth_local_delta \<Rightarrow> auth_local_delta" where
  "norm_auth_local d = d\<lparr>alpolicies := norm_policies (alpolicies d)\<rparr>"

definition wf_auth_local :: "auth_local_delta \<Rightarrow> bool" where
  "wf_auth_local d \<longleftrightarrow> wf_candidates (to_hall d) \<and> length (alpolicies d) = auth_num_params"

lemma auth_local_read_back:
  "wf_auth_local d \<Longrightarrow>
   auth_local_from_stream j (istr (CHR '' '' # auth_local_to_stream d @ r)) = Some (norm_auth_local d, istr (CHR '' '' # r))"
  using candidates_written [of "to_hall d" "jcount j" "show_policies (alpolicies d) @ r"]
    read_candidates_written [of "to_hall d" "show_policies (alpolicies d) @ r"]
    read_policies_written [of "jdouble j" "alpolicies d" r]
  by (simp add: auth_local_from_stream_def auth_local_to_stream_def wf_auth_local_def wf_candidates_def norm_auth_local_def)

definition norm_auth_delta :: "auth_delta \<Rightarrow> auth_delta" where
  "norm_auth_delta d = d\<lparr>adpolicies := norm_policies (adpolicies d), admultiplicity := 0\<rparr>"

definition wf_auth_delta :: "auth_delta \<Rightarrow> bool" where
  "wf_auth_delta d \<longleftrightarrow> wf_candidates (hall_candidates d) \<and> om_ok (hall_candidates d) \<and> length (adpolicies d) = auth_num_params"

lemma om_emplaces: "om_ok (m @ es) \<Longrightarrow> foldl (\<lambda>m (k, a). om_emplace k a m) m es = m @ es"
proof (induction es arbitrary: m)
  case (Cons e es)
  then show ?case using om_emplace_last [of m "fst e" "snd e" es] by (simp add: case_prod_beta)
qed simp

lemma auth_delta_read_back:
  "wf_auth_delta d \<Longrightarrow>
   auth_delta_from_stream j (istr (CHR '' '' # auth_delta_to_stream d @ r)) = Some (norm_auth_delta d, istr (CHR '' '' # r))"
  using candidates_written [of "hall_candidates d" "jcount j" "show_policies (adpolicies d) @ r"]
    read_candidates_written [of "hall_candidates d" "show_policies (adpolicies d) @ r"]
    read_policies_written [of "jdouble j" "adpolicies d" r] om_emplaces [of "[]" "hall_candidates d"]
  by (simp add: auth_delta_from_stream_def auth_delta_to_stream_def wf_auth_delta_def wf_candidates_def norm_auth_delta_def om_empty_def)

definition norm_cash_local :: "local_delta \<Rightarrow> local_delta" where
  "norm_cash_local d = d\<lparr>lpolicies := norm_policies (lpolicies d)\<rparr>"

definition wf_cash_local :: "local_delta \<Rightarrow> bool" where
  "wf_cash_local d \<longleftrightarrow> om_ok (accounts d) \<and> length (accounts d) < 2 ^ 31 \<and> (\<forall>(k, a) \<in> set (accounts d). in64 (box a))
     \<and> in64 (fees d) \<and> length (lpolicies d) = num_params"

lemma cash_local_read_back:
  "wf_cash_local d \<Longrightarrow>
   cash_local_from_stream j (istr (CHR '' '' # cash_local_to_stream d @ r)) = Some (norm_cash_local d, istr (CHR '' '' # r))"
  using read_int_count [of "length (accounts d)" "jcount j"]
    read_accounts_written [of "[]" "accounts d" "show_int (fees d) @ CHR '' '' # show_policies (lpolicies d) @ r"]
    read_policies_written [of "jdouble j" "lpolicies d" r]
  by (simp add: cash_local_from_stream_def cash_local_to_stream_def wf_cash_local_def norm_cash_local_def om_empty_def stream_simps)

definition norm_cash_delta :: "delta \<Rightarrow> delta" where
  "norm_cash_delta d = \<lparr>dpolicies = norm_policies (dpolicies d), multiplicity = 0, dg = norm_cash_local (dg d), dm = []\<rparr>"

definition wf_cash_delta :: "delta \<Rightarrow> bool" where
  "wf_cash_delta d \<longleftrightarrow> wf_cash_local (dg d) \<and> length (dpolicies d) = num_params"

lemma cash_delta_read_back:
  "wf_cash_delta d \<Longrightarrow>
   cash_delta_from_stream j (istr (CHR '' '' # cash_delta_to_stream d @ r)) = Some (norm_cash_delta d, istr (CHR '' '' # r))"
  using cash_local_read_back [of "dg d" j "show_policies (dpolicies d) @ r"] read_policies_written [of "jdouble j" "dpolicies d" r]
  by (simp add: cash_delta_from_stream_def cash_delta_to_stream_def wf_cash_delta_def norm_cash_delta_def)

text \<open>Both together: the contract \<open>app_text\<close> holds for the local deltas and for the deltas.\<close>

fun norm_app_local :: "app_local_delta \<Rightarrow> app_local_delta" where
  "norm_app_local (AuthLocal d) = AuthLocal (norm_auth_local d)"
| "norm_app_local (CashLocal d) = CashLocal (norm_cash_local d)"

fun wf_app_local :: "int \<Rightarrow> app_local_delta \<Rightarrow> bool" where
  "wf_app_local i (AuthLocal d) = (i = auth_id \<and> wf_auth_local d)"
| "wf_app_local i (CashLocal d) = (i = cash_id \<and> wf_cash_local d)"

fun norm_app_delta :: "app_delta \<Rightarrow> app_delta" where
  "norm_app_delta (AuthDelta d) = AuthDelta (norm_auth_delta d)"
| "norm_app_delta (CashDelta d) = CashDelta (norm_cash_delta d)"

fun wf_app_delta :: "int \<Rightarrow> app_delta \<Rightarrow> bool" where
  "wf_app_delta i (AuthDelta d) = (i = auth_id \<and> wf_auth_delta d)"
| "wf_app_delta i (CashDelta d) = (i = cash_id \<and> wf_cash_delta d)"

lemma id_values [simp]: "cash_id \<noteq> auth_id" "auth_id \<noteq> cash_id" "in32 auth_id" "in32 cash_id"
  by (simp_all add: cash_id_def auth_id_def in32_def)

interpretation lt: app_text app_local_to_stream "app_local_create j" norm_app_local wf_app_local for j
proof
  fix i d r
  assume wf: "wf_app_local i d"
  show "app_local_create j i (istr (CHR '' '' # app_local_to_stream d @ r)) = Some (norm_app_local d, istr (CHR '' '' # r))"
    using wf by (cases d) (simp_all add: app_local_create_def auth_local_read_back cash_local_read_back)
  show "app_local_to_stream (norm_app_local d) = app_local_to_stream d" "in32 i"
    using wf by (cases d; simp add: auth_local_to_stream_def norm_auth_local_def cash_local_to_stream_def norm_cash_local_def)+
qed

interpretation dt: app_text app_delta_to_stream "app_delta_create j" norm_app_delta wf_app_delta for j
proof
  fix i d r
  assume wf: "wf_app_delta i d"
  show "app_delta_create j i (istr (CHR '' '' # app_delta_to_stream d @ r)) = Some (norm_app_delta d, istr (CHR '' '' # r))"
    using wf by (cases d) (simp_all add: app_delta_create_def auth_delta_read_back cash_delta_read_back)
  show "app_delta_to_stream (norm_app_delta d) = app_delta_to_stream d" "in32 i"
    using wf
    by (cases d; simp add: auth_delta_to_stream_def norm_auth_delta_def cash_delta_to_stream_def norm_cash_delta_def
        cash_local_to_stream_def norm_cash_local_def)+
qed

end
