(* ===== verification/Diff.thy ===== *)
theory Diff
  imports Delta_Text
begin

text \<open>
  Blocks: \<open>src/gov/engine/diff.{h,cpp}\<close> and \<open>signed_data.cpp\<close>. A node signs and sends its \<open>local_deltas\<close>, one
  local delta per application; a \<open>diff\<close> merges those that arrive, at most one for each key, and is the
  block when merging ends. Its identity is the hash of its text.

  \<open>None\<close> stands for the end of the process: a failed assertion, or the use of an iterator that
  points nowhere. \<open>jbuf\<close> is the uninitialised buffer of the hashers.
\<close>

section \<open>Local deltas\<close>

record local_deltas =
  ldapps :: "(int, app_local_delta) omap"
  lpub :: pub_t
  lsig :: string

definition message_to_sign :: "local_deltas \<Rightarrow> string" where
  "message_to_sign g = show_nat (length (ldapps g)) @ '' '' @ show_apps app_local_to_stream (ldapps g)"

definition ld_sign :: "secp \<Rightarrow> byte list \<Rightarrow> keys_t \<Rightarrow> local_deltas \<Rightarrow> local_deltas option" where
  "ld_sign lib jbuf k g =
     (let g = g\<lparr>lpub := pub k\<rparr>
      in case sign_encode lib jbuf (priv k) (message_to_sign g) of
           None \<Rightarrow> None
         | Some s \<Rightarrow> Some (g\<lparr>lsig := s\<rparr>))"

definition ld_verify :: "secp \<Rightarrow> byte list \<Rightarrow> local_deltas \<Rightarrow> bool" where
  "ld_verify lib jbuf g \<longleftrightarrow> verify_text lib jbuf (lpub g) (message_to_sign g) (lsig g)"

definition ld_to_stream :: "secp \<Rightarrow> local_deltas \<Rightarrow> string option" where
  "ld_to_stream lib g =
     (if lsig g = [] then None
      else Some (show_pub lib (lpub g) @ '' '' @ lsig g @ '' '' @ message_to_sign g @ '' ''))"

text \<open>\<open>Some None\<close> is the null pointer.\<close>

definition ld_from_stream :: "secp \<Rightarrow> junk \<Rightarrow> byte list \<Rightarrow> istream \<Rightarrow> local_deltas option option" where
  "ld_from_stream lib j jkey is =
     (let (k, is) = read_pub lib (pub_new jkey) is;
          (s, is) = read_string is
      in if s = [] then Some None
         else let (n, is) = read_int (jcount j) is
              in if n < 0 then Some None
                 else case read_apps (app_local_create j) (jid j) (nat n) om_empty is of
                        None \<Rightarrow> None
                      | Some (m, is) \<Rightarrow> Some (Some \<lparr>ldapps = m, lpub = k, lsig = s\<rparr>))"

definition key_hash :: "secp \<Rightarrow> byte list \<Rightarrow> pub_t \<Rightarrow> hash_t" where
  "key_hash lib jbuf k = fst (pub_get_hash lib jbuf k)"

section \<open>Diffs\<close>

record diff =
  dapps :: "(int, app_delta) omap"
  hash_cached :: "hash_t option"
  prev :: hash_t
  proof_of_work :: pow_t

definition diff0 :: diff where
  "diff0 = \<lparr>dapps = om_empty, hash_cached = None, prev = hash_zero, proof_of_work = om_empty\<rparr>"

definition diff_to_stream :: "diff \<Rightarrow> string" where
  "diff_to_stream d = show_hash (prev d) @ '' '' @ show_nat (length (dapps d)) @ '' '' @
     show_apps app_delta_to_stream (dapps d) @ show_nat (length (proof_of_work d)) @ '' '' @
     concat (map (\<lambda>(k, w). show_hash k @ '' '' @ show_nat (unat w) @ '' '') (proof_of_work d))"

fun read_pow :: "nat \<Rightarrow> nat \<Rightarrow> pow_t \<Rightarrow> istream \<Rightarrow> pow_t \<times> istream" where
  "read_pow jw 0 m is = (m, is)"
| "read_pow jw (Suc n) m is =
     (let (k, is) = read_hash hash_zero is;
          (w, is) = read_unsigned 64 is
      in read_pow jw n (om_emplace k (of_nat (case w of Some w \<Rightarrow> w | None \<Rightarrow> jw)) m) is)"

definition diff_from_stream :: "junk \<Rightarrow> istream \<Rightarrow> diff option option" where
  "diff_from_stream j is =
     (let (p, is) = read_hash hash_zero is;
          (n, is) = read_int (jcount j) is
      in if n < 0 then Some None
         else case read_apps (app_delta_create j) (jid j) (nat n) om_empty is of
                None \<Rightarrow> None
              | Some (m, is) \<Rightarrow>
                  (let (n, is) = read_int n is
                   in if n < 0 then Some None
                      else Some (Some \<lparr>dapps = m, hash_cached = None, prev = p,
                             proof_of_work = fst (read_pow (jwork j) (nat n) om_empty is)\<rparr>)))"

text \<open>One local delta per key.\<close>

definition diff_allow :: "hash_t \<Rightarrow> diff \<Rightarrow> bool \<times> diff" where
  "diff_allow pkh d =
     (case om_find (proof_of_work d) pkh of
        Some _ \<Rightarrow> (False, d)
      | None \<Rightarrow> (True, d\<lparr>proof_of_work := om_emplace pkh 0 (proof_of_work d)\<rparr>))"

fun app_merge :: "byte list \<Rightarrow> app_delta \<Rightarrow> app_local_delta \<Rightarrow> app_delta option" where
  "app_merge jbuf (AuthDelta d) (AuthLocal g) = Some (AuthDelta (auth_merge d g))"
| "app_merge jbuf (CashDelta d) (CashLocal g) = Some (CashDelta (delta_merge jbuf d g))"
| "app_merge jbuf (AuthDelta d) (CashLocal g) = None"
| "app_merge jbuf (CashDelta d) (AuthLocal g) = None"

fun app_end_merge :: "app_delta \<Rightarrow> app_delta" where
  "app_end_merge (AuthDelta d) = AuthDelta (auth_end_merge d)"
| "app_end_merge (CashDelta d) = CashDelta (delta_end_merge d)"

definition diff_add_one :: "byte list \<Rightarrow> (int, app_delta) omap \<Rightarrow> int \<times> app_local_delta \<Rightarrow> (int, app_delta) omap option" where
  "diff_add_one jbuf m = (\<lambda>(i, g).
     case (case om_find m i of Some a \<Rightarrow> Some a | None \<Rightarrow> app_delta_new i) of
       None \<Rightarrow> None
     | Some a \<Rightarrow> (case app_merge jbuf a g of None \<Rightarrow> None | Some a \<Rightarrow> Some (om_set i a m)))"

fun diff_add_all ::
  "byte list \<Rightarrow> (int, app_delta) omap \<Rightarrow> (int \<times> app_local_delta) list \<Rightarrow> (int, app_delta) omap option" where
  "diff_add_all jbuf m [] = Some m"
| "diff_add_all jbuf m (g # gs) = (case diff_add_one jbuf m g of None \<Rightarrow> None | Some m \<Rightarrow> diff_add_all jbuf m gs)"

text \<open>Every \<open>merge\<close> returns 0 as its work. The entry of the key is expected to exist.\<close>

definition diff_add :: "byte list \<Rightarrow> hash_t \<Rightarrow> local_deltas \<Rightarrow> diff \<Rightarrow> diff option" where
  "diff_add jbuf pkh g d =
     (case diff_add_all jbuf (dapps d) (ldapps g) of
        None \<Rightarrow> None
      | Some m \<Rightarrow>
          (case om_find (proof_of_work d) pkh of
             None \<Rightarrow> None
           | Some _ \<Rightarrow> Some (d\<lparr>dapps := m, proof_of_work := om_set pkh 0 (proof_of_work d)\<rparr>)))"

definition end_adding :: "diff \<Rightarrow> diff" where
  "end_adding d = d\<lparr>dapps := map (apsnd app_end_merge) (dapps d), hash_cached := None\<rparr>"

definition hash_text :: "byte list \<Rightarrow> string \<Rightarrow> hash_t" where
  "hash_text jbuf s = ripemd160_value (ripemd160_write_string (ripemd160_new jbuf) s)"

definition diff_hash :: "byte list \<Rightarrow> diff \<Rightarrow> hash_t \<times> diff" where
  "diff_hash jbuf d =
     (case hash_cached d of
        Some h \<Rightarrow> (h, d)
      | None \<Rightarrow> let h = hash_text jbuf (diff_to_stream d) in (h, d\<lparr>hash_cached := Some h\<rparr>))"

section \<open>Lemmas\<close>

definition wf_local_deltas :: "local_deltas \<Rightarrow> bool" where
  "wf_local_deltas g \<longleftrightarrow> om_ok (ldapps g) \<and> length (ldapps g) < 2 ^ 31 \<and> (\<forall>(i, d) \<in> set (ldapps g). wf_app_local i d)"

definition norm_apps :: "('d \<Rightarrow> 'd) \<Rightarrow> (int, 'd) omap \<Rightarrow> (int, 'd) omap" where
  "norm_apps f m = map (apsnd f) m"

lemma om_ok_norm: "om_ok (map (apsnd f) m) \<longleftrightarrow> om_ok m"
  by (simp add: om_ok_def o_def)

lemma length_norm [simp]: "length (norm_apps f m) = length m"
  by (simp add: norm_apps_def)

lemma message_norm:
  "wf_local_deltas g \<Longrightarrow> ldapps g' = norm_apps norm_app_local (ldapps g) \<Longrightarrow> message_to_sign g' = message_to_sign g"
  using lt.show_apps_norm [of "ldapps g"] by (simp add: message_to_sign_def wf_local_deltas_def norm_apps_def)

lemma ld_read_back:
  assumes wf: "wf_local_deltas g" and k: "valid (lpub g)" "secp_prints lib (pdata (lpub g))" and s: "token (lsig g)"
    and t: "ld_to_stream lib g = Some t"
  shows "ld_from_stream lib j jkey (istr t) =
    Some (Some \<lparr>ldapps = norm_apps norm_app_local (ldapps g), lpub = (pub_new jkey)\<lparr>pdata := pdata (lpub g), valid := True\<rparr>, lsig = lsig g\<rparr>)"
proof -
  have sig: "lsig g \<noteq> []" using s by (auto simp: token_def)
  have t': "t = show_pub lib (lpub g) @ CHR '' '' # lsig g @ CHR '' '' # show_nat (length (ldapps g)) @ CHR '' '' #
      show_apps app_local_to_stream (ldapps g) @ '' ''"
    using t sig by (auto simp: ld_to_stream_def message_to_sign_def)
  have "read_apps (app_local_create j) (jid j) (length (ldapps g)) om_empty
      (istr (CHR '' '' # show_apps app_local_to_stream (ldapps g) @ '' '')) =
      Some (norm_apps norm_app_local (ldapps g), istr (CHR '' '' # '' ''))"
    using lt.read_apps_written [of "[]" "ldapps g" j "jid j" "'' ''"] wf
    by (simp add: wf_local_deltas_def om_ok_norm norm_apps_def om_empty_def)
  then show ?thesis
    using wf sig read_int_count [of "length (ldapps g)" "jcount j"]
    by (simp add: ld_from_stream_def t' read_pub_show [OF k] read_skip read_string_token [OF s] wf_local_deltas_def)
qed

definition wf_diff :: "diff \<Rightarrow> bool" where
  "wf_diff d \<longleftrightarrow> om_ok (dapps d) \<and> length (dapps d) < 2 ^ 31 \<and> (\<forall>(i, x) \<in> set (dapps d). wf_app_delta i x)
     \<and> om_ok (proof_of_work d) \<and> length (proof_of_work d) < 2 ^ 31"

definition norm_diff :: "diff \<Rightarrow> diff" where
  "norm_diff d = d\<lparr>dapps := norm_apps norm_app_delta (dapps d), hash_cached := None\<rparr>"

lemma read_pow_written:
  "om_ok (m @ ws) \<Longrightarrow>
   read_pow jw (length ws) m (istr (CHR '' '' # concat (map (\<lambda>(k, w). show_hash k @ '' '' @ show_nat (unat w) @ '' '') ws)))
     = (m @ ws, istr '' '')"
proof (induction ws arbitrary: m)
  case (Cons e ws)
  obtain k w where e: "e = (k, w)" by (cases e)
  have "om_emplace k w m = m @ [(k, w)]" using om_emplace_last [of m k w ws] Cons.prems by (simp add: e)
  moreover have "unat w < 2 ^ 64" using unsigned_less [of w] by simp
  ultimately show ?case using Cons.IH [of "m @ [e]"] Cons.prems by (simp add: e stream_simps)
qed simp

lemma diff_text_norm: "wf_diff d \<Longrightarrow> diff_to_stream (norm_diff d) = diff_to_stream d"
  using dt.show_apps_norm [of "dapps d"] by (simp add: diff_to_stream_def norm_diff_def norm_apps_def wf_diff_def)

lemma read_int_skip: "isspace c \<Longrightarrow> read_int j (istr (c # s)) = read_int j (istr s)"
  by (simp add: read_int_def read_skip)

lemma diff_read_back:
  assumes wf: "wf_diff d"
  shows "diff_from_stream j (istr (diff_to_stream d)) = Some (Some (norm_diff d))"
proof -
  define pw where "pw = concat (map (\<lambda>(k, w). show_hash k @ '' '' @ show_nat (unat w) @ '' '') (proof_of_work d))"
  have t: "diff_to_stream d = show_hash (prev d) @ CHR '' '' # show_nat (length (dapps d)) @ CHR '' '' #
      show_apps app_delta_to_stream (dapps d) @ show_nat (length (proof_of_work d)) @ CHR '' '' # pw"
    by (simp add: diff_to_stream_def pw_def)
  have "read_apps (app_delta_create j) (jid j) (length (dapps d)) om_empty
      (istr (CHR '' '' # show_apps app_delta_to_stream (dapps d) @ show_nat (length (proof_of_work d)) @ CHR '' '' # pw)) =
      Some (norm_apps norm_app_delta (dapps d), istr (CHR '' '' # show_nat (length (proof_of_work d)) @ CHR '' '' # pw))"
    using dt.read_apps_written [of "[]" "dapps d" j "jid j"] wf by (simp add: wf_diff_def om_ok_norm norm_apps_def om_empty_def)
  moreover have "fst (read_pow (jwork j) (length (proof_of_work d)) om_empty (istr (CHR '' '' # pw))) = proof_of_work d"
    using read_pow_written [of "[]" "proof_of_work d" "jwork j"] wf by (simp add: wf_diff_def om_empty_def pw_def)
  ultimately show ?thesis
    unfolding t using wf read_int_count [of "length (dapps d)"] read_int_count [of "length (proof_of_work d)"]
    by (simp add: diff_from_stream_def read_hash_show wf_diff_def norm_diff_def)
qed

text \<open>The hash depends on the text only, not on the uninitialised buffer.\<close>

lemma hash_text_spec: "length jbuf = 64 \<Longrightarrow> hash_text jbuf s = hash_of_bytes (rmd160 (bytes_of_string s))"
  using rmd.finalize_digest [OF rmd.write_holds [OF ripemd160_new_holds]] rmd.finalize_digest [OF ripemd160_new_holds]
  by (simp add: hash_text_def ripemd160_value_def ripemd160_write_string_def std_digest_rmd160 bytes_of_string_def)

lemma diff_hash_new: "hash_cached d = None \<Longrightarrow> fst (diff_hash jbuf d) = hash_text jbuf (diff_to_stream d)"
  by (simp add: diff_hash_def Let_def)

text \<open>Typing: the number of an application determines the kind of its delta.\<close>

fun typed_local :: "int \<Rightarrow> app_local_delta \<Rightarrow> bool" where
  "typed_local i (AuthLocal g) = (i = auth_id)"
| "typed_local i (CashLocal g) = (i = cash_id)"

fun typed_delta :: "int \<Rightarrow> app_delta \<Rightarrow> bool" where
  "typed_delta i (AuthDelta d) = (i = auth_id)"
| "typed_delta i (CashDelta d) = (i = cash_id)"

definition diff_typed :: "diff \<Rightarrow> bool" where
  "diff_typed d \<longleftrightarrow> om_ok (dapps d) \<and> om_ok (proof_of_work d) \<and> (\<forall>(i, x) \<in> set (dapps d). typed_delta i x)"

lemma typed_merge: "typed_delta i x \<Longrightarrow> typed_local i g \<Longrightarrow> \<exists>y. app_merge jbuf x g = Some y \<and> typed_delta i y"
  by (cases x; cases g) auto

lemma om_set_entries: "set (om_set k v m) \<subseteq> insert (k, v) (set m)"
  by (induction k v m rule: om_set.induct) auto

lemma typed_new: "typed_local i g \<Longrightarrow> \<exists>x. app_delta_new i = Some x \<and> typed_delta i x"
  by (cases g) (auto simp: app_delta_new_def)

lemma add_one_typed:
  assumes "om_ok m" "\<forall>(i, x) \<in> set m. typed_delta i x" "typed_local i g"
  shows "\<exists>m'. diff_add_one jbuf m (i, g) = Some m' \<and> om_ok m' \<and> (\<forall>(i, x) \<in> set m'. typed_delta i x)"
proof -
  obtain x where x: "(case om_find m i of Some a \<Rightarrow> Some a | None \<Rightarrow> app_delta_new i) = Some x" "typed_delta i x"
    using assms(2) typed_new [OF assms(3)] by (cases "om_find m i") (auto simp: om_find_def dest!: map_of_SomeD)
  obtain y where y: "app_merge jbuf x g = Some y" "typed_delta i y" using typed_merge [OF x(2) assms(3)] by blast
  then show ?thesis
    using x(1) assms(1,2) om_ok_set [OF assms(1)] om_set_entries [of i y m] by (auto simp: diff_add_one_def)
qed

lemma add_all_typed:
  "om_ok m \<Longrightarrow> \<forall>(i, x) \<in> set m. typed_delta i x \<Longrightarrow> \<forall>(i, g) \<in> set gs. typed_local i g \<Longrightarrow>
   \<exists>m'. diff_add_all jbuf m gs = Some m' \<and> om_ok m' \<and> (\<forall>(i, x) \<in> set m'. typed_delta i x)"
proof (induction gs arbitrary: m)
  case (Cons e gs)
  obtain i g where e: "e = (i, g)" by (cases e)
  obtain m' where "diff_add_one jbuf m (i, g) = Some m'" "om_ok m'" "\<forall>(i, x) \<in> set m'. typed_delta i x"
    using add_one_typed [OF Cons.prems(1,2), of i g jbuf] Cons.prems(3) by (auto simp: e)
  then show ?case using Cons.IH [of m'] Cons.prems(3) by (simp add: e)
qed simp

section \<open>Properties\<close>

lemma local_deltas_accepted:
  assumes "wf_local_deltas g" "secp_signs lib (priv k)" "sc_create lib (priv k) = Some (pdata (pub k))"
    and "valid (pub k)" "secp_prints lib (pdata (pub k))" "length jbuf = 64" "length jbuf' = 64"
  shows "\<exists>g' t g''. ld_sign lib jbuf k g = Some g' \<and> ld_to_stream lib g' = Some t
    \<and> ld_from_stream lib j jkey (istr t) = Some (Some g'') \<and> ld_verify lib jbuf' g''"
proof -
  obtain s where s: "sign_encode lib jbuf (priv k) (message_to_sign (g\<lparr>lpub := pub k\<rparr>)) = Some s" "token s"
      "verify_text lib jbuf (pub k) (message_to_sign (g\<lparr>lpub := pub k\<rparr>)) s"
    using sign_encode_verifies [OF assms(2,3) refl] .
  define g' where "g' = g\<lparr>lpub := pub k, lsig := s\<rparr>"
  have m: "message_to_sign g' = message_to_sign (g\<lparr>lpub := pub k\<rparr>)" by (simp add: g'_def message_to_sign_def)
  have "s \<noteq> []" using s(2) by (auto simp: token_def)
  then obtain t where t: "ld_to_stream lib g' = Some t" by (simp add: ld_to_stream_def g'_def)
  have wf: "wf_local_deltas g'" using assms(1) by (simp add: wf_local_deltas_def g'_def)
  let ?g = "\<lparr>ldapps = norm_apps norm_app_local (ldapps g'), lpub = (pub_new jkey)\<lparr>pdata := pdata (pub k), valid := True\<rparr>, lsig = s\<rparr>"
  have r: "ld_from_stream lib j jkey (istr t) = Some (Some ?g)"
    using ld_read_back [OF wf _ _ _ t, of j jkey] assms(4,5) s(2) by (simp add: g'_def)
  have "message_to_sign ?g = message_to_sign g'" using message_norm [OF wf, of ?g] by simp
  then have "ld_verify lib jbuf' ?g"
    using s(3) m assms(6,7) by (simp add: ld_verify_def verify_text_def verify_hash_def sha_text_fips Let_def split: if_splits option.splits)
  moreover have "ld_sign lib jbuf k g = Some g'" using s(1) by (simp add: ld_sign_def g'_def)
  ultimately show ?thesis using t r by blast
qed



text \<open>
  C18. A block that is saved can be loaded: reading the text of a diff gives a diff with the same
  text and therefore the same hash, so that the check of the hash in \<open>patch_db\<close> succeeds.
\<close>

theorem diff_reload:
  assumes "wf_diff d" "hash_cached d = None" "length jbuf = 64" "length jbuf' = 64"
  shows "\<exists>d'. diff_from_stream j (istr (diff_to_stream d)) = Some (Some d') \<and> diff_to_stream d' = diff_to_stream d
    \<and> fst (diff_hash jbuf' d') = fst (diff_hash jbuf d) \<and> prev d' = prev d \<and> proof_of_work d' = proof_of_work d"
proof -
  have c: "hash_cached (norm_diff d) = None" by (simp add: norm_diff_def)
  have "fst (diff_hash jbuf' (norm_diff d)) = fst (diff_hash jbuf d)"
    unfolding diff_hash_new [OF c] diff_hash_new [OF assms(2)] diff_text_norm [OF assms(1)]
    using assms(3,4) by (simp add: hash_text_spec)
  then show ?thesis using diff_read_back [OF assms(1)] diff_text_norm [OF assms(1)] by (auto simp: norm_diff_def)
qed

definition fee_diff :: diff where
  "fee_diff = diff0\<lparr>dapps := [(cash_id, CashDelta (delta0\<lparr>dpolicies := [1234567]\<rparr>))]\<rparr>"

lemma wf_fee_diff: "wf_diff fee_diff"
  by (simp add: fee_diff_def wf_diff_def diff0_def om_empty_def om_ok_def wf_cash_delta_def wf_cash_local_def delta0_def
      local_delta0_def num_params_def in64_def)

theorem diff_reload_witness:
  "\<exists>d'. diff_from_stream \<lparr>jcount = 0, jid = 0, jdouble = 0, jwork = 0\<rparr> (istr (diff_to_stream fee_diff)) = Some (Some d')
    \<and> diff_to_stream d' = diff_to_stream fee_diff
    \<and> fst (diff_hash (replicate 64 0) d') = fst (diff_hash (replicate 64 9) fee_diff) \<and> prev d' = prev fee_diff
    \<and> proof_of_work d' = proof_of_work fee_diff"
  by (rule diff_reload [OF wf_fee_diff]) (simp_all add: fee_diff_def diff0_def)

lemma digits6_fee: "digits6 1234567 = (123457, 6)"
proof -
  have e: "dec_exp 1234567 = 6" by (rule dec_exp_unique) (simp_all add: pow10_def)
  have "round_even (1234567 / pow10 (6 - 5)) = 123457" by (rule round_even_near) (simp add: pow10_def)
  then show ?thesis unfolding digits6_def e Let_def by simp
qed

text \<open>
  A reloaded block is not the same block: a node that merged the block uses a minimum fee of
  1234567, a node that reads the saved block, which has the same hash, uses 1234570.
\<close>

theorem reload_changes_policies:
  "diff_from_stream j (istr (diff_to_stream fee_diff)) = Some (Some (fee_diff\<lparr>dapps :=
     [(cash_id, CashDelta (delta0\<lparr>dpolicies := [1234570]\<rparr>))]\<rparr>))"
proof -
  have "dec6 1234567 = 1234570" using digits6_fee by (simp add: dec6_def pow10_def)
  then have "fl (dec6 1234567) = 1234570" using fl_of_int_exact [of 1234570] by simp
  moreover have "fl (dec6 0) = 0" by (simp add: dec6_def fl_def)
  ultimately have "norm_diff fee_diff = fee_diff\<lparr>dapps := [(cash_id, CashDelta (delta0\<lparr>dpolicies := [1234570]\<rparr>))]\<rparr>"
    by (simp add: norm_diff_def fee_diff_def norm_apps_def norm_cash_delta_def norm_cash_local_def norm_policies_def delta0_def
        local_delta0_def num_params_def diff0_def)
  then show ?thesis using diff_read_back [OF wf_fee_diff] by simp
qed

text \<open>
  C16. Merging is type safe: once \<open>allow\<close> has accepted a key, adding its local deltas succeeds, whatever
  they contain, and keeps the diff well formed (sorted maps, every application with its own kind of
  delta); \<open>allow\<close> then refuses the key. Ending the merge keeps this too.
\<close>

theorem diff_add_typed:
  assumes "diff_typed d" "diff_allow pkh d = (True, d1)" "\<forall>(i, g) \<in> set (ldapps gs). typed_local i g"
  shows "\<exists>d2. diff_add jbuf pkh gs d1 = Some d2 \<and> diff_typed d2 \<and> diff_typed (end_adding d2) \<and> diff_allow pkh d2 = (False, d2)"
proof -
  have n: "om_find (proof_of_work d) pkh = None" and d1: "d1 = d\<lparr>proof_of_work := om_emplace pkh 0 (proof_of_work d)\<rparr>"
    using assms(2) by (auto simp: diff_allow_def split: option.splits)
  have ok: "om_ok (proof_of_work d1)" "om_ok (dapps d1)" "\<forall>(i, x) \<in> set (dapps d1). typed_delta i x"
    using assms(1) by (simp_all add: d1 diff_typed_def om_ok_emplace)
  have f: "om_find (proof_of_work d1) pkh = Some 0"
    using assms(1) n by (simp add: d1 om_find_emplace diff_typed_def)
  obtain m where m: "diff_add_all jbuf (dapps d1) (ldapps gs) = Some m" "om_ok m" "\<forall>(i, x) \<in> set m. typed_delta i x"
    using add_all_typed [OF ok(2,3) assms(3)] by blast
  let ?d = "d1\<lparr>dapps := m, proof_of_work := om_set pkh 0 (proof_of_work d1)\<rparr>"
  have "diff_add jbuf pkh gs d1 = Some ?d" using m(1) f by (simp add: diff_add_def)
  moreover have "diff_typed ?d" using m ok om_ok_set [OF ok(1)] by (simp add: diff_typed_def)
  moreover have "typed_delta i (app_end_merge x)" if "typed_delta i x" for i x using that by (cases x) simp_all
  then have "diff_typed (end_adding ?d)"
    using m ok om_ok_set [OF ok(1)] by (auto simp: diff_typed_def end_adding_def om_ok_norm)
  moreover have "diff_allow pkh ?d = (False, ?d)" using om_find_set [OF ok(1)] by (simp add: diff_allow_def)
  ultimately show ?thesis by blast
qed

theorem diff_add_typed_witness:
  "\<exists>d1 d2. diff_allow (Hash 1 0 0) diff0 = (True, d1) \<and>
    diff_add (replicate 64 0) (Hash 1 0 0) \<lparr>ldapps = [(auth_id, AuthLocal auth_local0)], lpub = pub_new [], lsig = ''s''\<rparr> d1 = Some d2
    \<and> diff_allow (Hash 1 0 0) d2 = (False, d2)"
proof -
  have a: "diff_allow (Hash 1 0 0) diff0 = (True, diff0\<lparr>proof_of_work := [(Hash 1 0 0, 0)]\<rparr>)"
    by (simp add: diff_allow_def diff0_def om_find_def om_empty_def om_emplace_def)
  have "diff_typed diff0" by (simp add: diff_typed_def diff0_def om_empty_def)
  from diff_add_typed [OF this a, of "\<lparr>ldapps = [(auth_id, AuthLocal auth_local0)], lpub = pub_new [], lsig = ''s''\<rparr>" "replicate 64 0"]
  show ?thesis using a by auto
qed

text \<open>
  Unauthenticated text can end the process: local deltas are parsed before their signature is
  looked at, and a negative number of candidates, or an application number other than 20 and 30, ends
  the process whoever sent it.
\<close>

theorem local_deltas_abort:
  assumes "token p" "token s" "fst (pub_set_b58 lib (pub_new jkey) p)"
  shows "ld_from_stream lib j jkey (istr (p @ '' '' @ s @ '' 1 20 -1 '')) = None"
proof -
  obtain k where k: "pub_set_b58 lib (pub_new jkey) p = (True, k)" using assms(3) by (cases "pub_set_b58 lib (pub_new jkey) p") auto
  have r: "read_signed 32 (istr (show_int 1 @ CHR '' '' # x)) = (Some 1, istr (CHR '' '' # x))"
      "read_signed 32 (istr (show_int 20 @ CHR '' '' # x)) = (Some 20, istr (CHR '' '' # x))"
      "read_signed 32 (istr (show_int (- 1) @ CHR '' '' # x)) = (Some (- 1), istr (CHR '' '' # x))" for x
    by (rule read_signed_show; simp)+
  have t: "show_int 1 = ''1''" "show_int 20 = ''20''" "show_int (- 1) = ''-1''"
    by code_simp+
  have "s \<noteq> []" using assms(2) by (auto simp: token_def)
  then show ?thesis
    using read_string_token [OF assms(1), of "CHR '' ''"] read_string_token [OF assms(2), of "CHR '' ''"] k r [unfolded t]
    by (simp add: ld_from_stream_def read_pub_def read_int_def read_skip app_local_create_def auth_id_def auth_local_from_stream_def)
qed

theorem local_deltas_abort_witness:
  "ld_from_stream toy_secp j [] (istr (show_pub toy_secp \<lparr>pdata = replicate 32 1, valid = True, hcached = None\<rparr> @ '' '' @ ''x'' @ '' 1 20 -1 '')) = None"
proof -
  let ?k = "\<lparr>pdata = replicate 32 1, valid = True, hcached = None\<rparr>"
  obtain s where s: "pub_to_b58 toy_secp ?k = Some s" "token s"
      "\<forall>k'. pub_set_b58 toy_secp k' s = (True, k'\<lparr>pdata := pdata ?k, valid := True\<rparr>)"
    by (rule pub_text [of ?k toy_secp]) (simp_all add: toy_prints)
  have "token ''x''" by (simp add: token_def isspace_def)
  from local_deltas_abort [OF s(2) this, of toy_secp "[]" j] s show ?thesis by (simp add: show_pub_def)
qed

end
