(* ===== verification/Votes.thy ===== *)
theory Votes
  imports Ordered_Map Unordered_Map Hash_Value
begin

text \<open>
  The vote for the next block, \<open>votes_t\<close> of \<open>src/gov/engine/daemon.{h,cpp}\<close>: an unordered map from
  the hash of a key to the block it votes for. A key votes once; the selection counts the votes in an
  ordered map, takes the last entry with the largest count and empties the box.

  The contract of the box is the locale \<open>election\<close>: adding and selecting refine an abstract box that
  is a finite map from voters to ballots, whose winner is the largest hash among those with most ballots.
\<close>

section \<open>The box\<close>

type_synonym votes_t = "(hash_t, hash_t \<times> u64) umap"

definition votes_add :: "(hash_t, hash_t \<times> u64) place \<Rightarrow> hash_t \<Rightarrow> hash_t \<Rightarrow> votes_t \<Rightarrow> bool \<times> votes_t" where
  "votes_add place h v m =
     (case um_find m h of
        Some _ \<Rightarrow> (False, m)
      | None \<Rightarrow> (True, um_emplace place h (v, 1) m))"

definition count_vote :: "(hash_t, u64) omap \<Rightarrow> hash_t \<times> hash_t \<times> u64 \<Rightarrow> (hash_t, u64) omap" where
  "count_vote x = (\<lambda>(k, v, c). case om_find x v of Some n \<Rightarrow> om_set v (n + 1) x | None \<Rightarrow> om_emplace v 1 x)"

definition largest :: "u64 \<times> hash_t option \<Rightarrow> hash_t \<times> u64 \<Rightarrow> u64 \<times> hash_t option" where
  "largest = (\<lambda>(mx, best) (h, n). if n \<ge> mx then (n, Some h) else (mx, best))"

text \<open>\<open>None\<close> would be the use of the pointer before it is set.\<close>

definition votes_select :: "votes_t \<Rightarrow> (hash_t \<times> votes_t) option" where
  "votes_select m =
     (if m = [] then Some (hash_set 0, m)
      else map_option (\<lambda>h. (h, [])) (snd (foldl largest (0, None) (foldl count_vote om_empty m))))"

definition votes_clear :: "votes_t \<Rightarrow> votes_t" where "votes_clear m = []"

section \<open>The abstract box\<close>

definition ballots :: "('k \<rightharpoonup> 'h) \<Rightarrow> 'h multiset" where
  "ballots b = image_mset (the \<circ> b) (mset_set (dom b))"

definition winner :: "'h::linorder multiset \<Rightarrow> 'h" where
  "winner M = Max {h \<in> set_mset M. \<forall>h' \<in> set_mset M. count M h' \<le> count M h}"

lemma winner_most:
  assumes "M \<noteq> {#}"
  shows "winner M \<in># M \<and> (\<forall>h. count M h \<le> count M (winner M)) \<and> (\<forall>h \<in># M. count M h = count M (winner M) \<longrightarrow> h \<le> winner M)"
proof -
  let ?S = "{h \<in> set_mset M. \<forall>h' \<in> set_mset M. count M h' \<le> count M h}"
  have "Max (count M ` set_mset M) \<in> count M ` set_mset M" using assms by (intro Max_in) auto
  then obtain h where h: "h \<in># M" "count M h = Max (count M ` set_mset M)" by auto
  then have "h \<in> ?S" by simp
  then have w: "winner M \<in> ?S" unfolding winner_def by (intro Max_in) auto
  have "count M x \<le> count M (winner M)" for x using w by (cases "x \<in># M") (auto simp: not_in_iff)
  moreover have "x \<le> winner M" if "x \<in># M" "count M x = count M (winner M)" for x
    unfolding winner_def using that w by (intro Max_ge) auto
  ultimately show ?thesis using w by blast
qed

lemma winner_unique:
  assumes "h \<in># M" "\<And>x. x \<in># M \<Longrightarrow> count M x \<le> count M h" "\<And>x. x \<in># M \<Longrightarrow> count M x = count M h \<Longrightarrow> x \<le> h"
  shows "winner M = h"
proof -
  have "M \<noteq> {#}" using assms(1) by auto
  note w = winner_most [OF this]
  have "count M (winner M) = count M h" using w assms(1,2) by (metis le_antisym)
  then have "h \<le> winner M" "winner M \<le> h" using w assms(1,3) by auto
  then show ?thesis by simp
qed

section \<open>The contract\<close>

locale election =
  fixes ok :: "'s \<Rightarrow> bool" and empty :: 's and vote :: "'k \<Rightarrow> 'h::linorder \<Rightarrow> 's \<Rightarrow> bool \<times> 's"
    and tip :: "'s \<Rightarrow> ('h \<times> 's) option" and box :: "'s \<Rightarrow> 'k \<rightharpoonup> 'h" and nobody :: 'h
  assumes empty_ok: "ok empty" and empty_box: "box empty = Map.empty"
    and vote_ok: "ok s \<Longrightarrow> ok (snd (vote k h s))"
    and vote_box: "ok s \<Longrightarrow> box (snd (vote k h s)) = (if k \<in> dom (box s) then box s else (box s)(k \<mapsto> h))"
    and vote_new: "ok s \<Longrightarrow> fst (vote k h s) \<longleftrightarrow> k \<notin> dom (box s)"
    and finite_box: "ok s \<Longrightarrow> finite (dom (box s))"
    and tip_box: "ok s \<Longrightarrow> card (dom (box s)) < 2 ^ 64 \<Longrightarrow>
      tip s = Some (if dom (box s) = {} then nobody else winner (ballots (box s)), empty)"
begin

definition collect :: "('k \<times> 'h) list \<Rightarrow> 's" where
  "collect vs = foldl (\<lambda>s (k, h). snd (vote k h s)) empty vs"

lemma collect_snoc: "collect (vs @ [(k, h)]) = snd (vote k h (collect vs))"
  by (simp add: collect_def)

text \<open>The first vote of a key counts.\<close>

lemma collect_box: "ok (collect vs) \<and> box (collect vs) = map_of vs"
proof (induction vs rule: rev_induct)
  case Nil
  then show ?case using empty_ok empty_box by (simp add: collect_def)
next
  case (snoc e vs)
  obtain k h where e: "e = (k, h)" by (cases e)
  have ok: "ok (collect vs)" and b: "box (collect vs) = map_of vs" using snoc by simp_all
  have "box (collect (vs @ [e])) = map_of (vs @ [e])"
    using vote_box [OF ok, of k h] b by (auto simp: e collect_snoc map_add_def fun_eq_iff dom_def split: option.splits)
  then show ?case using vote_ok [OF ok] by (simp add: e collect_snoc)
qed

lemma tip_collect:
  assumes "distinct (map fst vs)" "length vs < 2 ^ 64"
  shows "tip (collect vs) = Some (if vs = [] then nobody else winner (mset (map snd vs)), empty)"
proof -
  have ok: "ok (collect vs)" and b: "box (collect vs) = map_of vs" using collect_box by simp_all
  have d: "dom (box (collect vs)) = fst ` set vs" by (simp add: b dom_map_of_conv_image_fst)
  have "ballots (map_of vs) = mset (map (the \<circ> map_of vs) (map fst vs))"
    unfolding ballots_def dom_map_of_conv_image_fst using mset_set_set [OF assms(1)] by (simp add: multiset.map_comp)
  also have "map (the \<circ> map_of vs) (map fst vs) = map snd vs" using assms(1) by (auto simp: map_of_is_SomeI)
  finally have "ballots (box (collect vs)) = mset (map snd vs)" by (simp add: b)
  moreover have "card (dom (box (collect vs))) < 2 ^ 64"
    using assms distinct_card [OF assms(1)] by (simp add: d)
  ultimately show ?thesis using tip_box [OF ok] d by simp
qed

text \<open>Nodes that have received the same votes, in whatever order, select the same block.\<close>

lemma agreement:
  assumes "distinct (map fst vs)" "mset ws = mset vs" "length vs < 2 ^ 64"
  shows "map_option fst (tip (collect ws)) = map_option fst (tip (collect vs))"
proof -
  have "mset (map fst ws) = mset (map fst vs)" "mset (map snd ws) = mset (map snd vs)" using assms(2) by simp_all
  moreover have "distinct (map fst ws)" using assms(1) calculation(1) mset_eq_imp_distinct_iff by blast
  moreover have "length ws = length vs" using assms(2) by (rule mset_eq_length)
  ultimately show ?thesis using tip_collect [of vs] tip_collect [of ws] assms by auto
qed

end

section \<open>The code keeps it\<close>

definition votes_box :: "votes_t \<Rightarrow> hash_t \<rightharpoonup> hash_t" where
  "votes_box m = map_option fst \<circ> um_find m"

lemma dom_votes_box: "dom (votes_box m) = fst ` set m"
  by (auto simp: votes_box_def um_find_def dom_map_of_conv_image_fst [symmetric])

lemma votes_ballots: "um_ok m \<Longrightarrow> ballots (votes_box m) = mset (map (fst \<circ> snd) m)"
proof -
  assume d: "um_ok m"
  have "map (the \<circ> votes_box m) (map fst m) = map (fst \<circ> snd) m"
    using d by (auto simp: votes_box_def um_find_def um_ok_def map_of_is_SomeI)
  then have "image_mset (the \<circ> votes_box m) (mset (map fst m)) = mset (map (fst \<circ> snd) m)" by (metis mset_map)
  moreover have "mset_set (dom (votes_box m)) = mset (map fst m)"
    using mset_set_set [of "map fst m"] d by (simp add: um_ok_def dom_votes_box)
  ultimately show ?thesis by (simp add: ballots_def)
qed

lemma count_vote_step:
  "om_ok x \<Longrightarrow> om_ok (count_vote x (k, v, c)) \<and>
   om_find (count_vote x (k, v, c)) h = (if h = v then Some (case om_find x v of Some n \<Rightarrow> n + 1 | None \<Rightarrow> 1) else om_find x h)"
  by (auto simp: count_vote_def om_ok_set om_ok_emplace om_find_set om_find_emplace split: option.splits)

lemma count_votes:
  "om_ok (foldl count_vote om_empty m) \<and>
   om_find (foldl count_vote om_empty m) h =
     (if h \<in># mset (map (fst \<circ> snd) m) then Some (of_nat (count (mset (map (fst \<circ> snd) m)) h)) else None)"
proof (induction m arbitrary: h rule: rev_induct)
  case (snoc e m)
  obtain k v c where e: "e = (k, v, c)" by (metis prod_cases3)
  define x where "x = foldl count_vote om_empty m"
  define M where "M = mset (map (fst \<circ> snd) m)"
  have M: "mset (map (fst \<circ> snd) (m @ [e])) = add_mset v M" by (simp add: M_def e)
  have x: "om_ok x" "om_find x h = (if h \<in># M then Some (of_nat (count M h)) else None)" for h
    using snoc [of h] unfolding x_def M_def by simp_all
  have "count M v = 0" if "v \<notin># M" using that by (simp add: not_in_iff)
  then show ?case unfolding M using count_vote_step [OF x(1), of k v c h] x(2) by (simp add: e flip: x_def)
qed (simp add: om_empty_def om_find_def)

lemma largest_last:
  "om_ok xs \<Longrightarrow> xs \<noteq> [] \<Longrightarrow> \<exists>h n. foldl largest (0, None) xs = (n, Some h) \<and> (h, n) \<in> set xs
    \<and> (\<forall>(h', n') \<in> set xs. n' \<le> n \<and> (n' = n \<longrightarrow> h' \<le> h))"
proof (induction xs rule: rev_induct)
  case (snoc e xs)
  obtain h n where e: "e = (h, n)" by (cases e)
  have ok: "om_ok xs" and lt: "\<forall>(h', n') \<in> set xs. h' < h" using snoc.prems(1) by (auto simp: om_ok_def e sorted_wrt_append)
  show ?case
  proof (cases "xs = []")
    case True
    then show ?thesis by (simp add: e largest_def)
  next
    case False
    then obtain h1 n1 where "foldl largest (0, None) xs = (n1, Some h1)" "(h1, n1) \<in> set xs"
        "\<forall>(h', n') \<in> set xs. n' \<le> n1 \<and> (n' = n1 \<longrightarrow> h' \<le> h1)"
      using snoc.IH [OF ok] by blast
    then show ?thesis using lt by (cases "n1 \<le> n") (fastforce simp: e largest_def)+
  qed
qed simp

lemma select_winner:
  assumes "m \<noteq> []" "length m < 2 ^ 64"
  shows "votes_select m = Some (winner (mset (map (fst \<circ> snd) m)), [])"
proof -
  define x where "x = foldl count_vote om_empty m"
  define M where "M = mset (map (fst \<circ> snd) m)"
  have x: "om_ok x" "om_find x h = (if h \<in># M then Some (of_nat (count M h)) else None)" for h
    using count_votes [of m h] unfolding x_def M_def by simp_all
  have "size M = length m" by (simp add: M_def)
  then have u: "unat (of_nat (count M h) :: u64) = count M h" for h
    using count_le_size [of M h] assms(2) by (simp add: unat_of_nat)
  have sx: "(h, n) \<in> set x \<longleftrightarrow> h \<in># M \<and> n = of_nat (count M h)" for h n
    using x(2) [of h] map_of_eq_Some_iff [OF om_ok_distinct [OF x(1)], of h n] by (auto simp: om_find_def split: if_splits)
  obtain e m' where m: "m = e # m'" using assms(1) by (cases m) auto
  have "fst (snd e) \<in># M" by (simp add: M_def m)
  then have "x \<noteq> []" using sx by fastforce
  from largest_last [OF x(1) this] obtain h n where h: "foldl largest (0, None) x = (n, Some h)" "(h, n) \<in> set x"
    "\<forall>(h', n') \<in> set x. n' \<le> n \<and> (n' = n \<longrightarrow> h' \<le> h)" by blast
  have le: "count M y \<le> count M h" and eq: "count M y = count M h \<Longrightarrow> y \<le> h" if "y \<in># M" for y
    using bspec [OF h(3), of "(y, of_nat (count M y))"] that h(2) sx u [of y] u [of h] by (auto simp: word_le_nat_alt)
  have "winner M = h" using h(2) sx le eq by (intro winner_unique) auto
  then show ?thesis using assms(1) h(1) by (simp add: votes_select_def x_def M_def)
qed

text \<open>A hash table whose placement is any of those the standard allows has the contract.\<close>

locale vote_table =
  fixes place :: "(hash_t, hash_t \<times> u64) place"
  assumes placement: "placement place"

sublocale vote_table \<subseteq> election um_ok "[]" "votes_add place" votes_select votes_box "hash_set 0"
proof
  fix s :: votes_t and k h :: hash_t
  assume ok: "um_ok s"
  show "um_ok (snd (votes_add place k h s))"
    using um_ok_emplace [OF placement ok] ok by (simp add: votes_add_def split: option.splits)
  show "votes_box (snd (votes_add place k h s)) = (if k \<in> dom (votes_box s) then votes_box s else (votes_box s)(k \<mapsto> h))"
    using um_find_emplace [OF placement ok]
    by (auto simp: votes_add_def votes_box_def fun_eq_iff dom_def split: option.splits)
  show "fst (votes_add place k h s) \<longleftrightarrow> k \<notin> dom (votes_box s)"
    by (auto simp: votes_add_def votes_box_def dom_def split: option.splits)
  show "finite (dom (votes_box s))" by (simp add: dom_votes_box)
  show "votes_select s = Some (if dom (votes_box s) = {} then hash_set 0 else winner (ballots (votes_box s)), [])"
    if "card (dom (votes_box s)) < 2 ^ 64"
  proof -
    have "card (dom (votes_box s)) = length s"
      using distinct_card [of "map fst s"] ok by (simp add: dom_votes_box um_ok_def)
    then show ?thesis using that select_winner [of s] votes_ballots [OF ok] by (auto simp: dom_votes_box votes_select_def)
  qed
qed (simp_all add: um_ok_def votes_box_def um_find_def fun_eq_iff)

context vote_table
begin

lemma contract: "election um_ok [] (votes_add place) votes_select votes_box (hash_set 0)"
  by (rule election_axioms)

end

interpretation front: vote_table "\<lambda>m e. e # m"
  by unfold_locales (rule placement_front)

lemma votes_election: "placement place \<Longrightarrow> election um_ok [] (votes_add place) votes_select votes_box (hash_set 0)"
  by (rule vote_table.contract) (rule vote_table.intro)

section \<open>Properties\<close>

definition receive_votes :: "(hash_t, hash_t \<times> u64) place \<Rightarrow> (hash_t \<times> hash_t) list \<Rightarrow> votes_t" where
  "receive_votes place vs = foldl (\<lambda>m (k, h). snd (votes_add place k h m)) [] vs"

lemma receive_collect: "placement place \<Longrightarrow> receive_votes place vs = election.collect [] (votes_add place) vs"
  using election.collect_def [OF votes_election] by (simp add: receive_votes_def)





end
