(* ===== verification/Chain.thy ===== *)
theory Chain
  imports Diff Votes Identity
begin

text \<open>
  The node and its chain of blocks: the part of \<open>src/gov/engine/daemon.{h,cpp}\<close> that saves, loads and imports
  blocks, with the state of the daemon that synchronises (\<open>src/gov/engine/syncd.{h,cpp}\<close>).

  The parameters of \<open>env\<close> stand for code outside of the sources (the elliptic-curve library, hash tables, random engines) and
  for uninitialised memory. The files are a map from path to content: writing always succeeds, and
  every file is a regular one. \<open>None\<close> as the result of an operation is the end of the process (a failed
  assertion, an exception nobody catches, memory misused) or a loop that never ends.
\<close>

section \<open>State\<close>

record env =
  e_lib :: secp
  e_jbuf :: "byte list"
  e_junk :: junk
  e_jkey :: "byte list"
  e_jtx :: "nat \<times> nat"
  e_jquery :: int
  e_prog :: "hash_t \<Rightarrow> bool"
  e_lower :: "u16 \<Rightarrow> bool"
  e_nplace :: "(hash_t, string) place"
  e_vplace :: "(hash_t, hash_t \<times> u64) place"
  e_hplace :: "(nat, datagram) place"
  e_draws :: "u32 \<Rightarrow> nat \<Rightarrow> nat \<Rightarrow> nat"
  e_reward :: "u32 \<Rightarrow> nat \<Rightarrow> nat"

record syncd_t =
  head :: hash_t
  cur :: hash_t
  tail :: hash_t
  resume :: bool
  file_arrived :: bool

text \<open>A peer: its number stands for the pointer, \<open>in_service\<close> for the stage \<open>service\<close> of the layer below.\<close>

record peer_t =
  pid :: nat
  stage :: stage_t
  in_service :: bool
  peer_pub :: pub_t

record daemon =
  id_keys :: keys_t
  home :: string
  files :: "string \<rightharpoonup> string"
  auth :: auth_app
  cash :: cash_app
  last_block_imported :: hash_t
  chaininfo_lbi :: hash_t
  chaininfo_tip :: hash_t
  syncd :: syncd_t
  peers :: "peer_t list"
  votes :: votes_t
  new_diff :: "diff option"
  mpool :: "diff option"
  evidences :: "hash_t set"
  evidences_on_hold :: "(nat, datagram) umap"
  calendar :: "(u64 \<times> tx) list"
  last_ev_ts :: u64
  sysop_allowed :: bool

section \<open>The synchronising daemon, seen from outside\<close>

definition syncd0 :: syncd_t where
  "syncd0 = \<lparr>head = hash_set 0, cur = hash_set 0, tail = hash_set 0, resume = False, file_arrived = False\<rparr>"

definition update_head_tail :: "hash_t \<Rightarrow> hash_t \<Rightarrow> syncd_t \<Rightarrow> syncd_t" where
  "update_head_tail h t s = s\<lparr>cur := h, head := h, tail := t, resume := True\<rparr>"

definition update_tail :: "hash_t \<Rightarrow> syncd_t \<Rightarrow> syncd_t" where
  "update_tail t s = s\<lparr>tail := t, cur := head s, resume := True\<rparr>"

definition in_sync :: "syncd_t \<Rightarrow> bool" where
  "in_sync s \<longleftrightarrow> hash_eq (head s) (tail s)"

definition signal_file_arrived :: "syncd_t \<Rightarrow> syncd_t" where
  "signal_file_arrived s = s\<lparr>file_arrived := True\<rparr>"

text \<open>The daemon as constructed, with its two applications, on the files it finds.\<close>

definition daemon0 :: "keys_t \<Rightarrow> string \<Rightarrow> (string \<rightharpoonup> string) \<Rightarrow> daemon" where
  "daemon0 k hm fs =
     \<lparr>id_keys = k, home = hm, files = fs, auth = auth_app0 (pub k), cash = cash_app0, last_block_imported = hash_zero,
      chaininfo_lbi = hash_set 0, chaininfo_tip = hash_set 0, syncd = syncd0, peers = [], votes = [], new_diff = None, mpool = None,
      evidences = {}, evidences_on_hold = [], calendar = [], last_ev_ts = 0, sysop_allowed = False\<rparr>"

section \<open>Files\<close>

definition blocksdir :: "daemon \<Rightarrow> string" where
  "blocksdir d = home d @ ''/blocks''"

definition block_file :: "daemon \<Rightarrow> hash_t \<Rightarrow> string" where
  "block_file d h = blocksdir d @ ''/'' @ show_hash h"

definition head_file :: "daemon \<Rightarrow> string" where
  "head_file d = blocksdir d @ ''/head''"

definition write_file :: "string \<Rightarrow> string \<Rightarrow> daemon \<Rightarrow> daemon" where
  "write_file f s d = d\<lparr>files := (files d)(f \<mapsto> s)\<rparr>"

definition remove_file :: "string \<Rightarrow> daemon \<Rightarrow> daemon" where
  "remove_file f d = d\<lparr>files := (files d)(f := None)\<rparr>"

definition file_exists :: "daemon \<Rightarrow> string \<Rightarrow> bool" where
  "file_exists d f \<longleftrightarrow> files d f \<noteq> None"

definition save :: "env \<Rightarrow> diff \<Rightarrow> daemon \<Rightarrow> daemon" where
  "save e b d = write_file (block_file d (fst (diff_hash (e_jbuf e) b))) (diff_to_stream b) d"

text \<open>\<open>load_block\<close> for the text of a hash, whatever the text is, and for a hash.\<close>

definition load_block :: "daemon \<Rightarrow> string \<Rightarrow> string" where
  "load_block d s = (case files d (blocksdir d @ ''/'' @ s) of None \<Rightarrow> [] | Some c \<Rightarrow> c)"

definition load_block_hash :: "daemon \<Rightarrow> hash_t \<Rightarrow> string" where
  "load_block_hash d h = (case files d (block_file d h) of None \<Rightarrow> [] | Some c \<Rightarrow> c)"

definition get_prev :: "daemon \<Rightarrow> hash_t \<Rightarrow> hash_t option" where
  "get_prev d h =
     (if \<not> file_exists d (block_file d h) then None
      else case files d (block_file d h) of
             None \<Rightarrow> None
           | Some c \<Rightarrow> Some (fst (read_hash hash_zero (istr c))))"

section \<open>Importing blocks\<close>

definition set_last_block_imported :: "hash_t \<Rightarrow> daemon \<Rightarrow> daemon" where
  "set_last_block_imported h d =
     (let d = d\<lparr>last_block_imported := h\<rparr> in write_file (head_file d) (show_hash h @ ''\<newline>'') d)"

definition daemon_clear :: "daemon \<Rightarrow> daemon" where
  "daemon_clear d = set_last_block_imported (hash_set 0) (d\<lparr>auth := auth_clear (auth d), cash := cash_clear (cash d)\<rparr>)"

definition update_peer :: "env \<Rightarrow> auth_app \<Rightarrow> peer_t \<Rightarrow> peer_t" where
  "update_peer e a p =
     (if in_service p \<and> stage p \<noteq> Sysop
      then let (h, k) = pub_get_hash (e_lib e) (e_jbuf e) (peer_pub p) in p\<lparr>stage := get_stage a h, peer_pub := k\<rparr>
      else p)"

definition update_peers_state :: "env \<Rightarrow> daemon \<Rightarrow> daemon" where
  "update_peers_state e d = d\<lparr>peers := map (update_peer e (auth d)) (peers d)\<rparr>"

text \<open>The delta of one application; the casts of the code are wrong for any other kind of delta.\<close>

definition import_app :: "env \<Rightarrow> pow_t \<Rightarrow> daemon \<Rightarrow> int \<times> app_delta \<Rightarrow> daemon option" where
  "import_app e w d = (\<lambda>(i, x).
     if i = auth_id then
       (case x of
          AuthDelta g \<Rightarrow>
            (case auth_import (e_nplace e) (e_draws e) (chaininfo_lbi d) (auth d) g of
               None \<Rightarrow> None
             | Some a \<Rightarrow> Some (update_peers_state e (d\<lparr>auth := a\<rparr>)))
        | CashDelta g \<Rightarrow> None)
     else if i = cash_id then
       (case x of
          CashDelta g \<Rightarrow> Some (d\<lparr>cash := cash_import (e_reward e (get_seed (chaininfo_lbi d)) (length w - 1)) (cash d) g w\<rparr>)
        | AuthDelta g \<Rightarrow> None)
     else None)"

fun import_apps :: "env \<Rightarrow> pow_t \<Rightarrow> daemon \<Rightarrow> (int \<times> app_delta) list \<Rightarrow> daemon option" where
  "import_apps e w d [] = Some d"
| "import_apps e w d (x # xs) = (case import_app e w d x of None \<Rightarrow> None | Some d \<Rightarrow> import_apps e w d xs)"

definition import :: "env \<Rightarrow> diff \<Rightarrow> daemon \<Rightarrow> (bool \<times> daemon) option" where
  "import e b d =
     (if hash_ne (prev b) (last_block_imported d) then Some (False, d)
      else case import_apps e (proof_of_work b) (d\<lparr>chaininfo_lbi := last_block_imported d\<rparr>) (dapps b) of
             None \<Rightarrow> None
           | Some d \<Rightarrow> Some (True, set_last_block_imported (fst (diff_hash (e_jbuf e) b)) d))"

text \<open>The blocks to apply come newest first.\<close>

fun patch_loop :: "env \<Rightarrow> hash_t list \<Rightarrow> daemon \<Rightarrow> (bool \<times> daemon) option" where
  "patch_loop e [] d = Some (True, d)"
| "patch_loop e (h # ps) d =
     (case files d (block_file d h) of
        None \<Rightarrow> Some (False, remove_file (block_file d h) d)
      | Some c \<Rightarrow>
          (case diff_from_stream (e_junk e) (istr c) of
             None \<Rightarrow> None
           | Some None \<Rightarrow> Some (False, remove_file (block_file d h) d)
           | Some (Some b) \<Rightarrow>
               (if hash_ne (fst (diff_hash (e_jbuf e) b)) h then Some (False, remove_file (block_file d h) d)
                else case import e b d of
                       None \<Rightarrow> None
                     | Some (False, d) \<Rightarrow> Some (False, d)
                     | Some (True, d) \<Rightarrow> patch_loop e ps d)))"

definition patch_db :: "env \<Rightarrow> hash_t list \<Rightarrow> daemon \<Rightarrow> (bool \<times> daemon) option" where
  "patch_db e patches d =
     (case patch_loop e (rev patches) d of
        None \<Rightarrow> None
      | Some (False, d) \<Rightarrow> Some (False, d)
      | Some (True, d) \<Rightarrow> Some (True, d\<lparr>syncd := update_tail (last_block_imported d) (syncd d)\<rparr>))"

text \<open>The candidate of this node is saved and imported only if it is the block that was voted.\<close>

definition eat_diff :: "env \<Rightarrow> hash_t \<Rightarrow> daemon \<Rightarrow> daemon option" where
  "eat_diff e voted_tip d =
     map_option (\<lambda>d. d\<lparr>syncd := update_head_tail voted_tip (last_block_imported d) (syncd d)\<rparr>)
       (case new_diff d of
          None \<Rightarrow> Some d
        | Some b \<Rightarrow>
            (let (h, b) = diff_hash (e_jbuf e) b
             in map_option (\<lambda>d. d\<lparr>new_diff := None\<rparr>)
                  (if hash_eq voted_tip h
                   then (case import e b (save e b d) of
                           None \<Rightarrow> None
                         | Some (ok, d) \<Rightarrow> Some (if ok then d else daemon_clear d))
                   else Some d)))"

definition load_head :: "daemon \<Rightarrow> daemon" where
  "load_head d =
     (let h = (case files d (head_file d) of None \<Rightarrow> hash_set 0 | Some c \<Rightarrow> fst (read_hash (hash_set 0) (istr c)))
      in d\<lparr>syncd := update_head_tail h (last_block_imported d) (syncd d), chaininfo_tip := h\<rparr>)"

section \<open>Lemmas\<close>

lemma show_hash_length: "19 \<le> length (show_hash h)"
proof -
  have "hash_to_b58 h = Some (show_hash h)" by (rule show_hash_text) simp
  then have "hash_set_b58 hash_zero (show_hash h) = (True, h)" by (rule hash_set_b58_text)
  moreover obtain v where "decode (show_hash h) = Some v" using calculation by (cases "decode (show_hash h)") (simp_all add: hash_set_b58_def)
  ultimately show ?thesis using decode_length [of "show_hash h" v] by (cases "length v = 20") (simp_all add: hash_set_b58_def)
qed

lemma show_hash_not_head: "show_hash h \<noteq> ''head''"
  using show_hash_length [of h] by auto

lemma show_hash_short: "length (show_hash h) \<le> 41"
proof -
  have "hash_to_b58 h = Some (show_hash h)" by (rule show_hash_text) simp
  then show ?thesis using encode_length [of "hash_bytes h" "show_hash h"] by (simp add: hash_to_b58_def)
qed

lemma show_hash_inj: "show_hash h = show_hash h' \<longleftrightarrow> h = h'"
proof
  assume eq: "show_hash h = show_hash h'"
  have t: "hash_set_b58 hash_zero (show_hash x) = (True, x)" for x
    by (rule show_hash_text [of x]) (rule hash_set_b58_text)
  show "h = h'" using t [of h] unfolding eq t [of h'] by blast
qed simp

lemma file_names [simp]:
  "head_file d \<noteq> block_file d h" "block_file d h \<noteq> head_file d" "block_file d h = block_file d h' \<longleftrightarrow> h = h'"
  using show_hash_not_head [of h] show_hash_inj [of h h'] by (auto simp: head_file_def block_file_def)

lemma home_files [simp]:
  "home (write_file f s d) = home d" "home (remove_file f d) = home d" "home (set_last_block_imported h d) = home d"
  "home (save e b d) = home d" "home (daemon_clear d) = home d"
  by (simp_all add: write_file_def remove_file_def set_last_block_imported_def save_def daemon_clear_def Let_def)

lemma file_home: "home d' = home d \<Longrightarrow> block_file d' h = block_file d h \<and> head_file d' = head_file d \<and> blocksdir d' = blocksdir d"
  by (simp add: block_file_def head_file_def blocksdir_def)

text \<open>What importing changes.\<close>

lemma import_app_frame:
  assumes "import_app e w d x = Some d'"
  obtains a c ps where "d' = d\<lparr>auth := a, cash := c, peers := ps\<rparr>"
proof -
  obtain i y where x: "x = (i, y)" by (cases x)
  show ?thesis
  proof (cases y)
    case (AuthDelta g)
    then obtain a where "d' = update_peers_state e (d\<lparr>auth := a\<rparr>)"
      using assms by (auto simp: import_app_def x split: if_splits option.splits)
    then have "d' = d\<lparr>auth := a, cash := cash d, peers := map (update_peer e a) (peers d)\<rparr>" by (simp add: update_peers_state_def)
    then show ?thesis by (rule that)
  next
    case (CashDelta g)
    then obtain c where "d' = d\<lparr>cash := c\<rparr>" using assms by (auto simp: import_app_def x split: if_splits)
    then have "d' = d\<lparr>auth := auth d, cash := c, peers := peers d\<rparr>" by simp
    then show ?thesis by (rule that)
  qed
qed

lemma import_apps_frame:
  "import_apps e w d xs = Some d' \<Longrightarrow> \<exists>a c ps. d' = d\<lparr>auth := a, cash := c, peers := ps\<rparr>"
proof (induction xs arbitrary: d)
  case Nil
  then have "d' = d\<lparr>auth := auth d, cash := cash d, peers := peers d\<rparr>" by simp
  then show ?case by blast
next
  case (Cons x xs)
  obtain d1 where d1: "import_app e w d x = Some d1" "import_apps e w d1 xs = Some d'"
    using Cons.prems by (auto split: option.splits)
  obtain a c ps where f1: "d1 = d\<lparr>auth := a, cash := c, peers := ps\<rparr>" by (rule import_app_frame [OF d1(1)])
  show ?case using Cons.IH [OF d1(2)] by (auto simp: f1)
qed

lemma import_frame:
  assumes "import e b d = Some (True, d')"
  obtains a c ps where "prev b = last_block_imported d"
    "d' = set_last_block_imported (fst (diff_hash (e_jbuf e) b))
       (d\<lparr>chaininfo_lbi := last_block_imported d, auth := a, cash := c, peers := ps\<rparr>)"
proof -
  obtain d1 where d1: "import_apps e (proof_of_work b) (d\<lparr>chaininfo_lbi := last_block_imported d\<rparr>) (dapps b) = Some d1"
      "d' = set_last_block_imported (fst (diff_hash (e_jbuf e) b)) d1" "prev b = last_block_imported d"
    using assms by (auto simp: import_def split: if_splits option.splits)
  then show ?thesis using import_apps_frame [OF d1(1)] that by auto
qed

lemma import_effect:
  assumes "import e b d = Some (True, d')"
  shows "prev b = last_block_imported d \<and> last_block_imported d' = fst (diff_hash (e_jbuf e) b) \<and> home d' = home d
    \<and> files d' = (files d)(head_file d \<mapsto> show_hash (fst (diff_hash (e_jbuf e) b)) @ ''\<newline>'') \<and> syncd d' = syncd d
    \<and> new_diff d' = new_diff d"
  by (rule import_frame [OF assms]) (simp add: set_last_block_imported_def write_file_def head_file_def blocksdir_def Let_def)

lemma import_refused: "import e b d = Some (False, d') \<Longrightarrow> d' = d \<and> prev b \<noteq> last_block_imported d"
  by (auto simp: import_def split: if_splits option.splits)

text \<open>Importing a sequence of blocks, each of which must be accepted.\<close>

fun import_all :: "env \<Rightarrow> diff list \<Rightarrow> daemon \<Rightarrow> daemon option" where
  "import_all e [] d = Some d"
| "import_all e (b # bs) d =
     (case import e b d of Some (True, d) \<Rightarrow> import_all e bs d | _ \<Rightarrow> None)"

lemma import_all_Cons:
  "import_all e (b # bs) d = Some d' \<Longrightarrow> \<exists>d1. import e b d = Some (True, d1) \<and> import_all e bs d1 = Some d'"
  by (auto split: option.splits prod.splits bool.splits if_splits)

text \<open>A block that has been saved, under its hash, and not tampered with.\<close>

definition stored :: "env \<Rightarrow> daemon \<Rightarrow> diff \<Rightarrow> bool" where
  "stored e d b \<longleftrightarrow> wf_diff b \<and> hash_cached b = None
     \<and> files d (block_file d (fst (diff_hash (e_jbuf e) b))) = Some (diff_to_stream b)"

lemma norm_hash: "wf_diff b \<Longrightarrow> hash_cached b = None \<Longrightarrow> fst (diff_hash jb (norm_diff b)) = fst (diff_hash jb b)"
  using diff_hash_new [of "norm_diff b" jb] diff_hash_new [of b jb] diff_text_norm [of b] by (simp add: norm_diff_def)

lemma stored_other_files:
  "stored e d b \<Longrightarrow> home d' = home d \<Longrightarrow> files d' = (files d)(head_file d \<mapsto> s) \<Longrightarrow> stored e d' b"
  using file_home [of d' d] by (simp add: stored_def)

lemma patch_loop_stored:
  assumes "stored e d b"
  shows "patch_loop e (fst (diff_hash (e_jbuf e) b) # ps) d =
    (case import e (norm_diff b) d of
       None \<Rightarrow> None
     | Some (False, d) \<Rightarrow> Some (False, d)
     | Some (True, d) \<Rightarrow> patch_loop e ps d)"
  using assms diff_read_back [of b "e_junk e"] norm_hash [of b] by (simp add: stored_def)

lemma patch_loop_all:
  "\<forall>b \<in> set bs. stored e d b \<Longrightarrow> import_all e (map norm_diff bs) d = Some d' \<Longrightarrow>
   patch_loop e (map (\<lambda>b. fst (diff_hash (e_jbuf e) b)) bs) d = Some (True, d')"
proof (induction bs arbitrary: d)
  case (Cons b bs)
  obtain d1 where d1: "import e (norm_diff b) d = Some (True, d1)" "import_all e (map norm_diff bs) d1 = Some d'"
    using import_all_Cons [of e "norm_diff b" "map norm_diff bs" d d'] Cons.prems(2) by (simp only: list.map) blast
  have "stored e d1 b'" if "b' \<in> set bs" for b'
    using import_effect [OF d1(1)] Cons.prems(1) that by (auto intro: stored_other_files)
  then show ?case using Cons.IH [OF _ d1(2)] patch_loop_stored [of e d b] Cons.prems(1) d1(1) by simp
qed simp

text \<open>Parameters and a daemon for examples.\<close>

definition toy_env :: env where
  "toy_env = \<lparr>e_lib = toy_secp, e_jbuf = replicate 64 0, e_junk = \<lparr>jcount = 0, jid = 0, jdouble = 0, jwork = 0\<rparr>, e_jkey = [],
     e_jtx = (0, 0), e_jquery = 0, e_prog = (\<lambda>_. False), e_lower = (\<lambda>_. False), e_nplace = (\<lambda>m x. x # m), e_vplace = (\<lambda>m x. x # m),
     e_hplace = (\<lambda>m x. x # m), e_draws = (\<lambda>s m n. 0), e_reward = (\<lambda>s m. 0)\<rparr>"

definition toy_daemon :: daemon where
  "toy_daemon = daemon0 (toy_pair (replicate 32 1)) ''/h'' Map.empty"

section \<open>Properties\<close>



lemma eat_diff_effect:
  assumes "eat_diff e tip d = Some d'"
  shows "new_diff d' = None \<and> head (syncd d') = tip \<and> (in_sync (syncd d') \<longleftrightarrow> last_block_imported d' = tip) \<and>
    (case new_diff d of
       Some b \<Rightarrow>
         if fst (diff_hash (e_jbuf e) b) \<noteq> tip
         then (auth d', cash d', last_block_imported d', files d') = (auth d, cash d, last_block_imported d, files d)
         else if prev b = last_block_imported d
         then last_block_imported d' = tip \<and> files d' (block_file d tip) = Some (diff_to_stream b)
         else (auth d', cash d', last_block_imported d') = (auth_clear (auth d), cash_clear (cash d), hash_set 0)
     | None \<Rightarrow> (auth d', cash d', last_block_imported d', files d') = (auth d, cash d, last_block_imported d, files d))"
proof (cases "new_diff d")
  case None
  then show ?thesis using assms by (auto simp: eat_diff_def update_head_tail_def in_sync_def)
next
  case (Some b)
  obtain h b1 where h: "diff_hash (e_jbuf e) b = (h, b1)" by (cases "diff_hash (e_jbuf e) b")
  have b1: "prev b1 = prev b" "diff_to_stream b1 = diff_to_stream b" "fst (diff_hash (e_jbuf e) b1) = h"
    using h by (auto simp: diff_hash_def diff_to_stream_def Let_def split: option.splits)
  let ?s = "save e b1 d"
  have s: "last_block_imported ?s = last_block_imported d" "files ?s = (files d)(block_file d h \<mapsto> diff_to_stream b)"
    "auth ?s = auth d" "cash ?s = cash d"
    using b1 by (simp_all add: save_def write_file_def)
  show ?thesis
  proof (cases "h = tip")
    case False
    then show ?thesis using assms h by (auto simp: eat_diff_def Some update_head_tail_def in_sync_def)
  next
    case True
    then obtain ok d1 where d1: "import e b1 ?s = Some (ok, d1)"
        "d' = ((if ok then d1 else daemon_clear d1)\<lparr>new_diff := None\<rparr>)
           \<lparr>syncd := update_head_tail tip (last_block_imported (if ok then d1 else daemon_clear d1)) (syncd (if ok then d1 else daemon_clear d1))\<rparr>"
      using assms h by (auto simp: eat_diff_def Some split: option.splits prod.splits)
    show ?thesis
    proof (cases ok)
      case True
      then show ?thesis
        using d1 import_effect [of e b1 ?s d1] h b1 s \<open>h = tip\<close> file_home [of ?s d]
        by (auto simp: Some update_head_tail_def in_sync_def)
    next
      case False
      then show ?thesis
        using d1 import_refused [of e b1 ?s d1] h b1 s \<open>h = tip\<close>
        by (auto simp: Some update_head_tail_def in_sync_def daemon_clear_def set_last_block_imported_def write_file_def Let_def)
    qed
  qed
qed

text \<open>
  C6. Only the voted block is imported. After \<open>eat_diff\<close> the candidate is gone and the head of the
  synchronisation is the voted block. If the candidate was that block it has been saved and imported when it
  continues the last block imported, and else the data base is reset; if it was not, the ledger has not changed. The node is in sync exactly when the
  voted block is the last one imported.
\<close>

theorem eat_diff_imports_voted:
  assumes "eat_diff e tip d = Some d'"
  shows "new_diff d' = None \<and> head (syncd d') = tip \<and> (in_sync (syncd d') \<longleftrightarrow> last_block_imported d' = tip) \<and>
    (case new_diff d of
       Some b \<Rightarrow>
         if fst (diff_hash (e_jbuf e) b) \<noteq> tip
         then (auth d', cash d', last_block_imported d', files d') = (auth d, cash d, last_block_imported d, files d)
         else if prev b = last_block_imported d
         then last_block_imported d' = tip \<and> files d' (block_file d tip) = Some (diff_to_stream b)
         else (auth d', cash d', last_block_imported d') = (auth_clear (auth d), cash_clear (cash d), hash_set 0)
     | None \<Rightarrow> (auth d', cash d', last_block_imported d', files d') = (auth d, cash d, last_block_imported d, files d))"
  using assms by (rule eat_diff_effect)

lemma import_empty:
  "dapps b = [] \<Longrightarrow> prev b = last_block_imported d \<Longrightarrow> \<exists>d'. import e b d = Some (True, d')"
  by (simp add: import_def)

theorem eat_diff_imports_voted_witness:
  "\<exists>d'. eat_diff toy_env (fst (diff_hash (e_jbuf toy_env) diff0)) (toy_daemon\<lparr>new_diff := Some diff0\<rparr>) = Some d'
    \<and> last_block_imported d' = fst (diff_hash (e_jbuf toy_env) diff0)"
proof -
  let ?d = "toy_daemon\<lparr>new_diff := Some diff0\<rparr>" and ?h = "fst (diff_hash (e_jbuf toy_env) diff0)"
  let ?b = "snd (diff_hash (e_jbuf toy_env) diff0)"
  have b: "dapps ?b = []" "prev ?b = hash_zero" "prev diff0 = hash_zero"
    by (simp_all add: diff_hash_def Let_def diff0_def om_empty_def)
  have l: "last_block_imported ?d = hash_zero" by (simp add: toy_daemon_def daemon0_def)
  then have "last_block_imported (save toy_env ?b ?d) = hash_zero" by (simp add: save_def write_file_def)
  then obtain d1 where "import toy_env ?b (save toy_env ?b ?d) = Some (True, d1)" using import_empty [of ?b] b by metis
  then obtain d' where d': "eat_diff toy_env ?h ?d = Some d'" by (cases "diff_hash (e_jbuf toy_env) diff0") (simp add: eat_diff_def)
  from eat_diff_imports_voted [OF d'] show ?thesis using d' b l by auto
qed

end
