(* ===== verification/Evidence.thy ===== *)
theory Evidence
  imports Chain
begin

text \<open>
  Evidence, that is transactions on their way into the mempool: the relay of \<open>src/gov/relay/daemon.cpp\<close>, and
  \<open>process_evidence\<close>, \<open>flush_evidences_on_hold\<close>, the calendar and one turn of \<open>evidence_processor\<close> of
  \<open>src/gov/engine/daemon.{h,cpp}\<close>. While the node is not in sync evidence is put on hold; otherwise it is parsed and scheduled by its
  time stamp; a thread takes the entries whose time has come, in order, and hands them to the
  application.

  A datagram on hold carries a number that stands for its address. The locking program is checked
  with the keys and signatures of \<open>Ec_Keys\<close>.
\<close>

section \<open>Unlocking with real keys\<close>

definition ec_of :: "secp \<Rightarrow> byte list \<Rightarrow> byte list \<Rightarrow> pub_t ec_lib" where
  "ec_of lib jb jk =
     \<lparr>pub_of_text = (\<lambda>s. let (ok, k) = pub_set_b58 lib (pub_new jk) s in if ok then k else pub_zero k),
      pub_hash = (\<lambda>k. fst (pub_get_hash lib jb k)),
      ec_verify = verify_hash lib\<rparr>"

text \<open>\<open>p2pkh::create_input\<close> for a transaction.\<close>

definition create_input :: "secp \<Rightarrow> byte list \<Rightarrow> byte list \<Rightarrow> tx \<Rightarrow> nat \<Rightarrow> byte \<Rightarrow> byte list \<Rightarrow> string option" where
  "create_input lib jb jk t i sigcodes sk =
     (case tx_get_hash jb t i sigcodes of
        None \<Rightarrow> None
      | Some h \<Rightarrow>
          (case sign_encode_hash lib sk h of
             None \<Rightarrow> None
           | Some s \<Rightarrow> Some (p2pkh_create_input s sigcodes (show_pub lib (get_pubkey lib jk sk)))))"

definition unlock_env :: "env \<Rightarrow> hash_t \<Rightarrow> nat \<Rightarrow> hash_t \<Rightarrow> string \<Rightarrow> tx \<Rightarrow> bool" where
  "unlock_env e = unlock (ec_of (e_lib e) (e_jbuf e) (e_jkey e)) (e_prog e) (e_jbuf e) (e_jquery e)"

section \<open>Scheduling\<close>

text \<open>\<open>multimap::emplace\<close>: after the entries with the same key.\<close>

definition calendar_schedule :: "tx \<Rightarrow> (u64 \<times> tx) list \<Rightarrow> (u64 \<times> tx) list" where
  "calendar_schedule t c = takeWhile (\<lambda>x. fst x \<le> ts t) c @ (ts t, t) # dropWhile (\<lambda>x. fst x \<le> ts t) c"

definition hold_add :: "env \<Rightarrow> nat \<Rightarrow> datagram \<Rightarrow> daemon \<Rightarrow> daemon" where
  "hold_add e a g d = d\<lparr>evidences_on_hold := um_emplace (e_hplace e) a g (evidences_on_hold d)\<rparr>"

text \<open>The result tells whether somebody took the datagram, which is deleted in either case.\<close>

definition process_evidence :: "env \<Rightarrow> nat \<Rightarrow> datagram \<Rightarrow> daemon \<Rightarrow> bool \<times> daemon" where
  "process_evidence e a g d =
     (if \<not> in_sync (syncd d) then (True, hold_add e a g d)
      else case Cash_App.parse_evidence (fst (e_jtx e)) (snd (e_jtx e)) (cash d) (service g) (parse_string g) of
             None \<Rightarrow> (False, d)
           | Some t \<Rightarrow> (True, d\<lparr>calendar := calendar_schedule t (calendar d)\<rparr>))"

text \<open>
  \<open>flush_evidences_on_hold\<close>: an entry is processed and then erased; evidence nobody takes has been deleted
  when it is printed, and is deleted again: \<open>None\<close>.
\<close>

fun flush_loop :: "env \<Rightarrow> (nat \<times> datagram) list \<Rightarrow> daemon \<Rightarrow> daemon option" where
  "flush_loop e [] d = Some d"
| "flush_loop e ((a, g) # xs) d =
     (case process_evidence e a g d of
        (False, d) \<Rightarrow> None
      | (True, d) \<Rightarrow> flush_loop e xs (d\<lparr>evidences_on_hold := um_erase a (evidences_on_hold d)\<rparr>))"

definition flush_evidences_on_hold :: "env \<Rightarrow> daemon \<Rightarrow> daemon option" where
  "flush_evidences_on_hold e d = flush_loop e (evidences_on_hold d) d"

definition on_sync :: "env \<Rightarrow> daemon \<Rightarrow> daemon option" where
  "on_sync e d = flush_evidences_on_hold e d"

text \<open>
  One turn of \<open>evidence_processor\<close>, \<open>tip_ts\<close> being the time five seconds ago. It waits while there is
  evidence on hold. Evidence older than the last one processed is dropped.
\<close>

definition evidence_turn :: "env \<Rightarrow> u64 \<Rightarrow> daemon \<Rightarrow> daemon" where
  "evidence_turn e tip_ts d =
     (if evidences_on_hold d \<noteq> [] then d
      else case calendar d of
             [] \<Rightarrow> d
           | (k, t) # c \<Rightarrow>
               (if k > tip_ts then d
                else let d = d\<lparr>calendar := c\<rparr>
                     in if ts t < last_ev_ts d then d
                        else d\<lparr>cash := cash_process (unlock_env e) (cash d) t, last_ev_ts := ts t\<rparr>))"

section \<open>Relay\<close>

type_synonym msgs = "(nat \<times> datagram) list"

definition compute_hash :: "byte list \<Rightarrow> datagram \<Rightarrow> hash_t" where
  "compute_hash jb g = ripemd160_value (ripemd160_write (ripemd160_new jb) (dbytes g))"

definition get_nodes :: "daemon \<Rightarrow> nat list" where
  "get_nodes d = map pid (filter (\<lambda>p. in_service p \<and> stage p = Node) (peers d))"

definition get_people :: "daemon \<Rightarrow> nat list" where
  "get_people d = map pid (filter (\<lambda>p. in_service p \<and> (stage p = Out \<or> stage p = Hall \<or> stage p = Node)) (peers d))"

definition relay_send :: "nat list \<Rightarrow> nat \<Rightarrow> datagram \<Rightarrow> msgs" where
  "relay_send ns exclude g = map (\<lambda>n. (n, g)) (filter (\<lambda>n. n \<noteq> exclude) ns)"

definition retrieve_evidences :: "daemon \<Rightarrow> daemon" where
  "retrieve_evidences d = d\<lparr>evidences := {}\<rparr>"

text \<open>The relay's part of the dispatch, for evidence: \<open>a\<close> is the address of the datagram, \<open>c\<close> the sender.\<close>

definition relay_evidence :: "env \<Rightarrow> nat \<Rightarrow> nat \<Rightarrow> datagram \<Rightarrow> daemon \<Rightarrow> bool \<times> daemon \<times> msgs" where
  "relay_evidence e a c g d =
     (let h = compute_hash (e_jbuf e) g
      in if h \<in> evidences d then (True, d, [])
         else let d = d\<lparr>evidences := insert h (evidences d)\<rparr>;
                  ms = relay_send (get_nodes d) c g;
                  (ok, d) = process_evidence e a g d
              in (ok, d, ms))"

section \<open>Lemmas\<close>

lemma sign_hash_verifies:
  assumes "secp_signs lib sk" "sc_create lib sk = Some (pdata k)"
  obtains s where "sign_encode_hash lib sk h = Some s" "token s" "verify_hash lib k h s"
proof -
  obtain g der where g: "sc_sign lib h sk = Some g" "sc_sig_der lib g = Some der" "der \<noteq> []"
      "sc_sig_parse lib der = Some g" "sc_verify lib g h (pdata k)"
    using assms unfolding secp_signs_def by blast
  obtain s where s: "ec_to_b58 der = Some s" "ec_from_b58 s = der" "s \<noteq> []" "token s"
    using ec_b58_roundtrip [OF g(3)] .
  show ?thesis using that [of s] g s by (simp add: sign_encode_hash_def sign_hash_def verify_hash_def)
qed

lemma verify_hash_pdata: "pdata k' = pdata k \<Longrightarrow> verify_hash lib k' h s = verify_hash lib k h s"
  by (simp add: verify_hash_def Let_def split: option.split)

definition calendar_ok :: "(u64 \<times> tx) list \<Rightarrow> bool" where
  "calendar_ok c \<longleftrightarrow> sorted (map fst c) \<and> (\<forall>(k, t) \<in> set c. k = ts t)"

lemma calendar_schedule_ok:
  assumes "calendar_ok c"
  shows "calendar_ok (calendar_schedule t c) \<and> mset (calendar_schedule t c) = add_mset (ts t, t) (mset c)"
proof -
  let ?P = "\<lambda>x. fst x \<le> ts t" and ?l = "takeWhile (\<lambda>x. fst x \<le> ts t) c" and ?r = "dropWhile (\<lambda>x. fst x \<le> ts t) c"
  have c: "?l @ ?r = c" by simp
  have s: "sorted (map fst c)" and e: "\<forall>(k, t) \<in> set c. k = ts t" using assms by (simp_all add: calendar_ok_def)
  have "sorted (map fst ?l @ map fst ?r)" using s by (metis map_append c)
  then have lr: "sorted (map fst ?l)" "sorted (map fst ?r)" by (simp_all add: sorted_append)
  have l: "\<forall>x \<in> set ?l. fst x \<le> ts t" using set_takeWhileD by fast
  have r: "\<forall>x \<in> set ?r. ts t \<le> fst x"
  proof (cases ?r)
    case Nil
    show ?thesis unfolding Nil by simp
  next
    case (Cons y ys)
    then have "\<not> fst y \<le> ts t" using hd_dropWhile [of ?P c] by simp
    moreover have "\<forall>x \<in> set ys. fst y \<le> fst x" using lr(2) by (simp add: Cons)
    ultimately show ?thesis by (auto simp: Cons)
  qed
  have "sorted (map fst (calendar_schedule t c))"
    using lr l r by (force simp: calendar_schedule_def sorted_append)
  moreover have m: "mset (calendar_schedule t c) = add_mset (ts t, t) (mset c)"
    unfolding calendar_schedule_def by (subst c [symmetric]) (simp del: takeWhile_dropWhile_id)
  then have "set (calendar_schedule t c) = insert (ts t, t) (set c)" by (metis set_mset_add_mset_insert set_mset_mset)
  ultimately show ?thesis using m e by (auto simp: calendar_ok_def)
qed

lemma process_evidence_frame:
  "process_evidence e a g d = (r, d') \<Longrightarrow> syncd d' = syncd d \<and> cash d' = cash d \<and> last_ev_ts d' = last_ev_ts d
    \<and> (calendar_ok (calendar d) \<longrightarrow> calendar_ok (calendar d'))"
  using calendar_schedule_ok by (auto simp: process_evidence_def hold_add_def split: if_splits option.splits)

text \<open>Out of sync, processing puts back what is on hold already.\<close>

lemma flush_out_of_sync:
  "\<not> in_sync (syncd d) \<Longrightarrow> um_ok xs \<Longrightarrow> flush_loop e xs (d\<lparr>evidences_on_hold := xs\<rparr>) = Some (d\<lparr>evidences_on_hold := []\<rparr>)"
proof (induction xs)
  case (Cons x xs)
  obtain a g where x: "x = (a, g)" by (cases x)
  have "um_find ((a, g) # xs) a = Some g" by (simp add: um_find_def)
  moreover have "um_erase a ((a, g) # xs) = xs"
    using Cons.prems(2) by (auto simp: um_erase_def um_ok_def x filter_id_conv intro: rev_image_eqI)
  moreover have "um_ok xs" using Cons.prems(2) by (simp add: um_ok_def)
  ultimately show ?case
    using Cons by (simp add: x process_evidence_def hold_add_def um_emplace_def)
qed simp

section \<open>Runs\<close>

text \<open>
  What happens to the calendar between two blocks: evidence arrives, the hold is flushed, the processor takes
  a turn. A run collects the time stamps of the transactions that were processed, in order.
\<close>

definition turn_processes :: "u64 \<Rightarrow> daemon \<Rightarrow> bool" where
  "turn_processes tip_ts d \<longleftrightarrow> evidences_on_hold d = [] \<and> calendar d \<noteq> [] \<and> fst (hd (calendar d)) \<le> tip_ts
     \<and> last_ev_ts d \<le> ts (snd (hd (calendar d)))"

inductive ev_run :: "env \<Rightarrow> daemon \<Rightarrow> u64 list \<Rightarrow> daemon \<Rightarrow> bool" for e where
  start: "ev_run e d [] d"
| arrives: "ev_run e d ps d1 \<Longrightarrow> relay_evidence e a c g d1 = (True, d2, ms) \<Longrightarrow> ev_run e d ps d2"
| flushed: "ev_run e d ps d1 \<Longrightarrow> flush_evidences_on_hold e d1 = Some d2 \<Longrightarrow> ev_run e d ps d2"
| idle: "ev_run e d ps d1 \<Longrightarrow> \<not> turn_processes now d1 \<Longrightarrow> d2 = evidence_turn e now d1 \<Longrightarrow> ev_run e d ps d2"
| turn: "ev_run e d ps d1 \<Longrightarrow> turn_processes now d1 \<Longrightarrow> d2 = evidence_turn e now d1 \<Longrightarrow>
    ev_run e d (ps @ [ts (snd (hd (calendar d1)))]) d2"

lemma relay_evidence_frame:
  "relay_evidence e a c g d = (r, d', ms) \<Longrightarrow> calendar_ok (calendar d) \<Longrightarrow> calendar_ok (calendar d') \<and> last_ev_ts d' = last_ev_ts d"
  using process_evidence_frame [of e a g "d\<lparr>evidences := insert (compute_hash (e_jbuf e) g) (evidences d)\<rparr>"]
  by (auto simp: relay_evidence_def Let_def split: if_splits prod.splits)

lemma flush_loop_frame:
  "flush_loop e xs d = Some d' \<Longrightarrow> calendar_ok (calendar d) \<Longrightarrow> calendar_ok (calendar d') \<and> last_ev_ts d' = last_ev_ts d"
proof (induction xs arbitrary: d)
  case (Cons x xs)
  obtain a g where x: "x = (a, g)" by (cases x)
  obtain d1 where d1: "process_evidence e a g d = (True, d1)"
    using Cons.prems(1) by (cases "process_evidence e a g d") (auto simp: x split: bool.splits if_splits)
  then show ?case
    using Cons.IH [of "d1\<lparr>evidences_on_hold := um_erase a (evidences_on_hold d1)\<rparr>"] Cons.prems process_evidence_frame [OF d1]
    by (simp add: x)
qed simp

lemma calendar_ok_Cons: "calendar_ok (x # c) \<Longrightarrow> calendar_ok c \<and> fst x = ts (snd x)"
  by (cases x) (simp add: calendar_ok_def)

lemma turn_idle:
  assumes "\<not> turn_processes now d" "calendar_ok (calendar d)"
  shows "calendar_ok (calendar (evidence_turn e now d)) \<and> last_ev_ts (evidence_turn e now d) = last_ev_ts d
    \<and> cash (evidence_turn e now d) = cash d"
proof (cases "calendar d")
  case (Cons x c)
  then show ?thesis using assms calendar_ok_Cons [of x c]
    by (cases x) (auto simp: turn_processes_def evidence_turn_def Let_def not_le)
qed (simp add: evidence_turn_def calendar_ok_def)

lemma turn_done:
  assumes "turn_processes now d" "calendar_ok (calendar d)"
  shows "calendar_ok (calendar (evidence_turn e now d)) \<and> last_ev_ts (evidence_turn e now d) = ts (snd (hd (calendar d)))"
proof (cases "calendar d")
  case (Cons x c)
  then show ?thesis using assms calendar_ok_Cons [of x c]
    by (cases x) (simp add: turn_processes_def evidence_turn_def Let_def not_less not_le [symmetric])
qed (use assms(1) in \<open>simp add: turn_processes_def\<close>)

lemma sorted_snoc: "sorted xs \<Longrightarrow> xs \<noteq> [] \<Longrightarrow> last xs \<le> y \<Longrightarrow> sorted (xs @ [y])"
proof (induction xs)
  case (Cons x xs)
  then show ?case
  proof (cases "xs = []")
    case False
    then have "x \<le> last xs" using Cons.prems(1) by simp
    then have "x \<le> y" using Cons.prems(3) False by (auto intro: order_trans)
    then show ?thesis using Cons False by auto
  qed simp
qed simp

lemma ev_run_invariant:
  "ev_run e d ps d' \<Longrightarrow> calendar_ok (calendar d) \<Longrightarrow>
   calendar_ok (calendar d') \<and> sorted (last_ev_ts d # ps) \<and> last_ev_ts d' = last (last_ev_ts d # ps)"
proof (induction rule: ev_run.induct)
  case (arrives d ps d1 a c g d2 ms)
  then show ?case using relay_evidence_frame [OF arrives.hyps(2)] by simp
next
  case (flushed d ps d1 d2)
  then show ?case using flush_loop_frame by (fastforce simp: flush_evidences_on_hold_def)
next
  case (idle d ps d1 now d2)
  then show ?case using turn_idle [OF idle.hyps(2)] by simp
next
  case (turn d ps d1 now d2)
  have IH: "calendar_ok (calendar d1)" "sorted (last_ev_ts d # ps)" "last_ev_ts d1 = last (last_ev_ts d # ps)"
    using turn.IH turn.prems by simp_all
  have "last (last_ev_ts d # ps) \<le> ts (snd (hd (calendar d1)))" using turn.hyps(2) IH(3) by (simp add: turn_processes_def)
  then have "sorted ((last_ev_ts d # ps) @ [ts (snd (hd (calendar d1)))])" using IH(2) by (intro sorted_snoc) simp_all
  then show ?case using turn_done [OF turn.hyps(2) IH(1), of e] turn.hyps(3) by simp
qed simp

section \<open>Properties\<close>



lemma sigmsg_same_inputs:
  assumes "map (\<lambda>i. (iaddress i, iamount i)) (inputs t') = map (\<lambda>i. (iaddress i, iamount i)) (inputs t)"
    and "outputs t' = outputs t" "ts t' = ts t"
  shows "tx_get_hash jb t' k sc = tx_get_hash jb t k sc"
proof -
  have f: "foldl input_write_sigmsg st xs = foldl (\<lambda>st (a, m). sha256_write (sha256_write st (hash_bytes a)) (cash_bytes m)) st
      (map (\<lambda>i. (iaddress i, iamount i)) xs)" for st xs
    by (induction xs arbitrary: st) (simp_all add: input_write_sigmsg_def)
  have l: "length (inputs t') = length (inputs t)" using assms(1) by (metis length_map)
  then have "input_write_sigmsg st (inputs t' ! k) = input_write_sigmsg st (inputs t ! k)" if "k < length (inputs t)" for st
    using arg_cong [OF assms(1), of "\<lambda>xs. xs ! k"] that by (simp add: input_write_sigmsg_def)
  then have "inputs_write_sigmsg st (inputs t') k c = inputs_write_sigmsg st (inputs t) k c" for st c
    using l by (simp add: inputs_write_sigmsg_def f assms(1))
  then show ?thesis by (simp add: tx_get_hash_def tx_write_sigmsg_def assms(2,3))
qed

text \<open>The transaction with the input program of one input filled in.\<close>

definition fill_input :: "tx \<Rightarrow> nat \<Rightarrow> string \<Rightarrow> tx" where
  "fill_input t i lpi = t\<lparr>inputs := (inputs t)[i := (inputs t ! i)\<lparr>locking_program_input := lpi\<rparr>]\<rparr>"

lemma fill_input_hash: "tx_get_hash jb (fill_input t i lpi) k sc = tx_get_hash jb t k sc"
proof (rule sigmsg_same_inputs)
  have "(\<lambda>x. (iaddress x, iamount x)) ((inputs t ! i)\<lparr>locking_program_input := lpi\<rparr>) = (iaddress (inputs t ! i), iamount (inputs t ! i))"
    by simp
  then show "map (\<lambda>x. (iaddress x, iamount x)) (inputs (fill_input t i lpi)) = map (\<lambda>x. (iaddress x, iamount x)) (inputs t)"
    by (cases "i < length (inputs t)") (simp_all add: fill_input_def map_update list_update_same_conv list_update_beyond)
qed (simp_all add: fill_input_def)

lemma created_input_unlocks:
  assumes "good_keys lib k" "address = pub_compute_hash lib jb (pub k)" "length jb = 64" "i < length (inputs t)"
  obtains lpi where "create_input lib jb jk t i sc (priv k) = Some lpi"
    "\<forall>t'. tx_get_hash jb t' i sc = tx_get_hash jb t i sc \<longrightarrow>
      unlock (ec_of lib jb jk) prog jb jint address i p2pkh_locking_program_hash lpi t'"
proof -
  obtain h where h: "tx_get_hash jb t i sc = Some h" using get_hash_sigmsg [OF assms(3)] assms(4) by blast
  have g: "secp_signs lib (priv k)" "sc_create lib (priv k) = Some (pdata (pub k))" "valid (pub k)" "secp_prints lib (pdata (pub k))"
    using assms(1) by (simp_all add: good_keys_def)
  obtain s where s: "sign_encode_hash lib (priv k) h = Some s" "token s" "verify_hash lib (pub k) h s"
    by (rule sign_hash_verifies [OF g(1,2)])
  define pk where "pk = (pub_new jk)\<lparr>pdata := pdata (pub k), valid := True\<rparr>"
  obtain p where p: "pub_to_b58 lib pk = Some p" "token p" "\<forall>k'. pub_set_b58 lib k' p = (True, k'\<lparr>pdata := pdata pk, valid := True\<rparr>)"
    by (rule pub_text [of pk lib]) (simp_all add: pk_def g(4))
  have gk: "get_pubkey lib jk (priv k) = pk" by (simp add: get_pubkey_def g(2) pk_def)
  have t: "pub_of_text (ec_of lib jb jk) p = pk" using p(3) by (simp add: ec_of_def pk_def)
  have ph: "pub_hash (ec_of lib jb jk) pk = address"
    using g(3) by (simp add: ec_of_def pub_get_hash_def pk_def pub_new_def pub_compute_hash_def assms(2) Let_def)
  have "verify_hash lib pk h s" using s(3) verify_hash_pdata [of pk "pub k"] by (simp add: pk_def)
  then have v: "ec_verify (ec_of lib jb jk) pk h s" by (simp add: ec_of_def)
  have c: "p2pkh_check_input (ec_of lib jb jk) jb jint address t' i (p2pkh_create_input s sc p)" if "tx_get_hash jb t' i sc = Some h" for t'
    using t that ph v by (simp add: p2pkh_check [OF s(2) p(2)])
  have "hash_less p2pkh_locking_program_hash min_locking_program \<and> \<not> hash_eq p2pkh_locking_program_hash (hash_set 0)"
    by (simp add: p2pkh_locking_program_hash_def min_locking_program_def hash_set_def)
  then show ?thesis
    using that [of "p2pkh_create_input s sc p"] c h s(1) p(1) by (simp add: create_input_def gk show_pub_def unlock_def)
qed

text \<open>
  C15. The owner of a key can spend: an input created with the private key, put into the transaction it was
  created for, unlocks the account whose address is the hash of the public key.
\<close>

theorem owner_unlocks:
  assumes "good_keys lib k" "address = pub_compute_hash lib jb (pub k)" "length jb = 64" "i < length (inputs t)"
  shows "\<exists>lpi. create_input lib jb jk t i sc (priv k) = Some lpi
    \<and> unlock (ec_of lib jb jk) prog jb jint address i p2pkh_locking_program_hash lpi (fill_input t i lpi)"
  using created_input_unlocks [OF assms, of jk sc prog jint] fill_input_hash [of jb t] by metis

theorem owner_unlocks_witness:
  "\<exists>lpi. create_input toy_secp (replicate 64 0) [] overdraft_tx 0 0 (priv (toy_pair (replicate 32 6))) = Some lpi
    \<and> unlock (ec_of toy_secp (replicate 64 0) []) (\<lambda>_. False) (replicate 64 0) 0
        (pub_compute_hash toy_secp (replicate 64 0) (pub (toy_pair (replicate 32 6)))) 0 p2pkh_locking_program_hash lpi
        (fill_input overdraft_tx 0 lpi)"
  by (rule owner_unlocks [OF toy_good_keys]) (simp_all add: overdraft_tx_def)

text \<open>
  Evidence on hold is lost when the hold is flushed while the node is still out of sync, as it is after a
  failed synchronisation: every entry is put back where it already is, and then erased.
\<close>

theorem flush_loses_evidence:
  assumes "\<not> in_sync (syncd d)" "um_ok (evidences_on_hold d)"
  shows "on_sync e d = Some (d\<lparr>evidences_on_hold := []\<rparr>)"
  using flush_out_of_sync [OF assms, of e] by (simp add: on_sync_def flush_evidences_on_hold_def)

theorem flush_loses_evidence_witness:
  "on_sync toy_env (toy_daemon\<lparr>syncd := update_head_tail (hash_set 7) (hash_set 0) syncd0,
      evidences_on_hold := [(1, datagram0), (2, datagram0)]\<rparr>) =
   Some (toy_daemon\<lparr>syncd := update_head_tail (hash_set 7) (hash_set 0) syncd0, evidences_on_hold := []\<rparr>)"
  by (subst flush_loses_evidence) (simp_all add: in_sync_def update_head_tail_def hash_set_def um_ok_def)

text \<open>
  Held evidence that turns out to be invalid ends the process: when the hold is flushed in sync and the
  first entry does not parse as a transaction, it is used after it has been deleted.
\<close>

theorem flush_bad_evidence:
  assumes "in_sync (syncd d)" "evidences_on_hold d = (a, g) # xs"
    and "Cash_App.parse_evidence (fst (e_jtx e)) (snd (e_jtx e)) (cash d) (service g) (parse_string g) = None"
  shows "on_sync e d = None"
  using assms by (simp add: on_sync_def flush_evidences_on_hold_def process_evidence_def)

theorem flush_bad_evidence_witness:
  "on_sync toy_env (toy_daemon\<lparr>evidences_on_hold := [(1, datagram0)]\<rparr>) = None"
proof (rule flush_bad_evidence)
  have "service datagram0 = 0" by (simp add: datagram0_def)
  then show "Cash_App.parse_evidence (fst (e_jtx toy_env)) (snd (e_jtx toy_env))
      (cash (toy_daemon\<lparr>evidences_on_hold := [(1, datagram0)]\<rparr>)) (service datagram0) (parse_string datagram0) = None"
    by (simp add: Cash_App.parse_evidence_def service_defs)
qed (simp_all add: toy_daemon_def daemon0_def syncd0_def in_sync_def)

end
