(* ===== verification/First_Block.thy ===== *)
theory First_Block
  imports Diff
begin

text \<open>
  The hash of the empty first block (no application deltas, no work, the zero hash before it), computed in the
  kernel: the five groups of rounds of \<open>Transform\<close> step by step on its text. The value is the RIPEMD-160 digest
  \<open>c56a49c26c2ca87ea264f6ffb1319be7d7715fe0\<close> of \<open>11111111111111111111 0 0 \<close>, and serves as an example of a block whose
  hash is not zero.
\<close>

lemmas round_defs =
  R11_def R12_def R21_def R22_def R31_def R32_def R41_def R42_def R51_def R52_def
  rmd_Round_def rmd_f1_def rmd_f2_def rmd_f3_def rmd_f4_def rmd_f5_def rol_def

lemma steps_1:
  "R11 0x67452301 0xefcdab89 0x98badcfe 0x10325476 0xc3d2e1f0 0x31313131 11 = (0x9f8c81ed, 0xeb73fa62)"
  "R12 0x67452301 0xefcdab89 0x98badcfe 0x10325476 0xc3d2e1f0 0x30203020 8 = (0xfe065fe8, 0xeb73fa62)"
  "R11 0xc3d2e1f0 0x9f8c81ed 0xefcdab89 0xeb73fa62 0x10325476 0x31313131 14 = (0xc8fc3883, 0x36ae27bf)"
  "R12 0xc3d2e1f0 0xfe065fe8 0xefcdab89 0xeb73fa62 0x10325476 0xc8 9 = (0x92f07aa2, 0x36ae27bf)"
  "R11 0x10325476 0xc8fc3883 0x9f8c81ed 0x36ae27bf 0xeb73fa62 0x31313131 15 = (0xfdb04c03, 0x3207b67e)"
  "R12 0x10325476 0x92f07aa2 0xfe065fe8 0x36ae27bf 0xeb73fa62 0x0 9 = (0xe47f47fe, 0x197fa3f8)"
  "R11 0xeb73fa62 0xfdb04c03 0xc8fc3883 0x3207b67e 0x36ae27bf 0x31313131 12 = (0x459739fe, 0xf0e20f23)"
  "R12 0xeb73fa62 0xe47f47fe 0x92f07aa2 0x197fa3f8 0x36ae27bf 0x31313131 11 = (0xee34bbbd, 0xc1ea8a4b)"
  "R11 0x36ae27bf 0x459739fe 0xfdb04c03 0xf0e20f23 0x3207b67e 0x31313131 5 = (0x46a23054, 0xc1300ff6)"
  "R12 0x36ae27bf 0xee34bbbd 0xe47f47fe 0xc1ea8a4b 0x197fa3f8 0x0 13 = (0xa97cb6eb, 0xfd1ffb91)"
  "R11 0x3207b67e 0x46a23054 0x459739fe 0xc1300ff6 0xf0e20f23 0x30203020 8 = (0x1dcf0947, 0x5ce7f916)"
  "R12 0x197fa3f8 0xa97cb6eb 0xee34bbbd 0xfd1ffb91 0xc1ea8a4b 0x31313131 15 = (0x76fc7bb8, 0xd2eef7b8)"
  "R11 0xf0e20f23 0x1dcf0947 0x46a23054 0x5ce7f916 0xc1300ff6 0x8020 7 = (0xf7d7b472, 0x88c1511a)"
  "R12 0xc1ea8a4b 0x76fc7bb8 0xa97cb6eb 0xd2eef7b8 0xfd1ffb91 0x0 15 = (0x6ae47298, 0xf2dbaea5)"
  "R11 0xc1300ff6 0xf7d7b472 0x1dcf0947 0x88c1511a 0x5ce7f916 0x0 9 = (0x70e0435e, 0x3c251c77)"
  "R12 0xfd1ffb91 0x6ae47298 0x76fc7bb8 0xf2dbaea5 0xd2eef7b8 0x31313131 5 = (0x5467390a, 0xf1eee1db)"
  "R11 0x5ce7f916 0x70e0435e 0xf7d7b472 0x3c251c77 0x88c1511a 0x0 11 = (0x5fe4d9d9, 0x5ed1cbdf)"
  "R12 0xd2eef7b8 0x5467390a 0x6ae47298 0xf1eee1db 0xf2dbaea5 0x0 7 = (0x4c158d4, 0x91ca61ab)"
  "R11 0x88c1511a 0x5fe4d9d9 0x70e0435e 0x5ed1cbdf 0x3c251c77 0x0 13 = (0x10737bc9, 0x810d79c3)"
  "R12 0xf2dbaea5 0x4c158d4 0x5467390a 0x91ca61ab 0xf1eee1db 0x8020 7 = (0xcbffcba, 0x9ce42951)"
  "R11 0x3c251c77 0x10737bc9 0x5fe4d9d9 0x810d79c3 0x5ed1cbdf 0x0 14 = (0x5ce44e8e, 0x9367657f)"
  "R12 0xf1eee1db 0xcbffcba 0x4c158d4 0x9ce42951 0x91ca61ab 0x0 8 = (0x875a6758, 0x5635013)"
  "R11 0x5ed1cbdf 0x5ce44e8e 0x10737bc9 0x9367657f 0x810d79c3 0x0 15 = (0x8f191924, 0xcdef2441)"
  "R12 0x91ca61ab 0x875a6758 0xcbffcba 0x5635013 0x9ce42951 0x0 11 = (0x3115e433, 0xfff2e832)"
  "R11 0x810d79c3 0x8f191924 0x5ce44e8e 0xcdef2441 0x9367657f 0x0 6 = (0x5b62d126, 0x913a3973)"
  "R12 0x9ce42951 0x3115e433 0x875a6758 0xfff2e832 0x5635013 0x31313131 14 = (0xa3f90553, 0x699d621d)"
  "R11 0x9367657f 0x5b62d126 0x8f191924 0x913a3973 0xcdef2441 0x0 7 = (0x229a9cad, 0x6464923c)"
  "R12 0x5635013 0xa3f90553 0x3115e433 0x699d621d 0xfff2e832 0x0 14 = (0x351942d7, 0x5790ccc4)"
  "R11 0xcdef2441 0x229a9cad 0x5b62d126 0x6464923c 0x913a3973 0xc8 9 = (0xa943bb4a, 0x8b44996d)"
  "R12 0xfff2e832 0x351942d7 0xa3f90553 0x5790ccc4 0x699d621d 0x31313131 12 = (0x3b4cb427, 0xe4154e8f)"
  "R11 0x913a3973 0xa943bb4a 0x229a9cad 0x8b44996d 0x6464923c 0x0 8 = (0x3c5c8fcd, 0x6a72b48a)"
  "R12 0x699d621d 0x3b4cb427 0x351942d7 0xe4154e8f 0x5790ccc4 0x0 6 = (0x155e41b3, 0x650b5cd4)"
  by (simp_all add: round_defs)

lemma group_1:
  "rmd_rounds_1 (0x31313131, 0x31313131, 0x31313131, 0x31313131, 0x31313131, 0x30203020, 0x8020, 0x0, 0x0, 0x0, 0x0, 0x0, 0x0, 0x0, 0xc8, 0x0)
     ((0x67452301, 0xefcdab89, 0x98badcfe, 0x10325476, 0xc3d2e1f0),
      (0x67452301, 0xefcdab89, 0x98badcfe, 0x10325476, 0xc3d2e1f0)) =
     ((0x3c5c8fcd, 0xa943bb4a, 0x6a72b48a, 0x8b44996d, 0x6464923c),
      (0x155e41b3, 0x3b4cb427, 0x650b5cd4, 0xe4154e8f, 0x5790ccc4))"
  by (simp only: rmd_rounds_1_def Let_def prod.case steps_1)

lemma steps_2:
  "R21 0x6464923c 0x3c5c8fcd 0xa943bb4a 0x6a72b48a 0x8b44996d 0x0 7 = (0x30282901, 0xeed2aa5)"
  "R22 0x5790ccc4 0x155e41b3 0x3b4cb427 0x650b5cd4 0xe4154e8f 0x8020 9 = (0x4012c635, 0x32d09ced)"
  "R21 0x8b44996d 0x30282901 0x3c5c8fcd 0xeed2aa5 0x6a72b48a 0x31313131 6 = (0xdbc6ab9f, 0x723f34f1)"
  "R22 0xe4154e8f 0x4012c635 0x155e41b3 0x32d09ced 0x650b5cd4 0x0 13 = (0xa1a8a584, 0x7906cc55)"
  "R21 0x6a72b48a 0xdbc6ab9f 0x30282901 0x723f34f1 0xeed2aa5 0x0 8 = (0x3d58af9a, 0xa0a404c0)"
  "R22 0x650b5cd4 0xa1a8a584 0x4012c635 0x7906cc55 0x32d09ced 0x31313131 15 = (0xa57726ba, 0x4b18d500)"
  "R21 0xeed2aa5 0x3d58af9a 0xdbc6ab9f 0xa0a404c0 0x723f34f1 0x31313131 13 = (0x22685b81, 0x1aae7f6f)"
  "R22 0x32d09ced 0xa57726ba 0xa1a8a584 0x4b18d500 0x7906cc55 0x0 7 = (0xe05016ed, 0xa2961286)"
  "R21 0x723f34f1 0x22685b81 0x3d58af9a 0x1aae7f6f 0xa0a404c0 0x0 11 = (0x1f97c4ec, 0x62be68f5)"
  "R22 0x7906cc55 0xe05016ed 0xa57726ba 0xa2961286 0x4b18d500 0x31313131 12 = (0xbb6f3fbf, 0xdc9aea95)"
  "R21 0xa0a404c0 0x1f97c4ec 0x22685b81 0x62be68f5 0x1aae7f6f 0x8020 9 = (0xb97c9429, 0xa16e0489)"
  "R22 0x4b18d500 0xbb6f3fbf 0xe05016ed 0xdc9aea95 0xa2961286 0x0 8 = (0x537b33e5, 0x405bb781)"
  "R21 0x1aae7f6f 0xb97c9429 0x1f97c4ec 0xa16e0489 0x62be68f5 0x0 7 = (0x867d413c, 0x5f13b07e)"
  "R22 0xa2961286 0x537b33e5 0xbb6f3fbf 0x405bb781 0xdc9aea95 0x30203020 9 = (0xe339fcea, 0xbcfefeed)"
  "R21 0x62be68f5 0x867d413c 0xb97c9429 0x5f13b07e 0xa16e0489 0x31313131 15 = (0x382e881, 0xf250a6e5)"
  "R22 0xdc9aea95 0xe339fcea 0x537b33e5 0xbcfefeed 0x405bb781 0x0 11 = (0x5628c062, 0xeccf954d)"
  "R21 0xa16e0489 0x382e881 0x867d413c 0xf250a6e5 0x5f13b07e 0x0 7 = (0x7f75f3f5, 0xf504f219)"
  "R22 0x405bb781 0x5628c062 0xe339fcea 0xeccf954d 0xbcfefeed 0xc8 7 = (0xae3826de, 0xe7f3ab8c)"
  "R21 0x5f13b07e 0x7f75f3f5 0x382e881 0xf504f219 0xf250a6e5 0x31313131 12 = (0x760dbdc1, 0xba2040e)"
  "R22 0xbcfefeed 0xae3826de 0x5628c062 0xe7f3ab8c 0xeccf954d 0x0 7 = (0xaf691534, 0xa3018958)"
  "R21 0xf250a6e5 0x760dbdc1 0x7f75f3f5 0xba2040e 0xf504f219 0x0 15 = (0x5e2bd856, 0xd7cfd5fd)"
  "R22 0xeccf954d 0xaf691534 0xae3826de 0xa3018958 0xe7f3ab8c 0x0 12 = (0x50d42b11, 0xe09b7ab8)"
  "R21 0xf504f219 0x5e2bd856 0x760dbdc1 0xd7cfd5fd 0xba2040e 0x30203020 9 = (0xf6157abc, 0x36f705d8)"
  "R22 0xe7f3ab8c 0x50d42b11 0xaf691534 0xe09b7ab8 0xa3018958 0x0 7 = (0xbbd76ba2, 0xa454d2bd)"
  "R21 0xba2040e 0xf6157abc 0x5e2bd856 0x36f705d8 0xd7cfd5fd 0x31313131 11 = (0xa0313d6e, 0xaf615978)"
  "R22 0xa3018958 0xbbd76ba2 0x50d42b11 0xa454d2bd 0xe09b7ab8 0x31313131 6 = (0x35d94e00, 0x50ac4543)"
  "R21 0xd7cfd5fd 0xa0313d6e 0xf6157abc 0xaf615978 0x36f705d8 0xc8 7 = (0x8db5348, 0x55eaf3d8)"
  "R22 0xe09b7ab8 0x35d94e00 0xbbd76ba2 0x50ac4543 0xa454d2bd 0x0 15 = (0x1934f1f, 0x5dae8aef)"
  "R21 0x36f705d8 0x8db5348 0xa0313d6e 0x55eaf3d8 0xaf615978 0x0 13 = (0x158a964d, 0xc4f5ba80)"
  "R22 0xa454d2bd 0x1934f1f 0x35d94e00 0x5dae8aef 0x50ac4543 0x31313131 13 = (0x35106fb7, 0x653800d7)"
  "R21 0xaf615978 0x158a964d 0x8db5348 0xc4f5ba80 0x55eaf3d8 0x0 12 = (0x86c89086, 0x6d4d2023)"
  "R22 0x50ac4543 0x35106fb7 0x1934f1f 0x653800d7 0x5dae8aef 0x31313131 11 = (0x5268430c, 0x4d3c7c06)"
  by (simp_all add: round_defs)

lemma group_2:
  "rmd_rounds_2 (0x31313131, 0x31313131, 0x31313131, 0x31313131, 0x31313131, 0x30203020, 0x8020, 0x0, 0x0, 0x0, 0x0, 0x0, 0x0, 0x0, 0xc8, 0x0)
     ((0x3c5c8fcd, 0xa943bb4a, 0x6a72b48a, 0x8b44996d, 0x6464923c),
      (0x155e41b3, 0x3b4cb427, 0x650b5cd4, 0xe4154e8f, 0x5790ccc4)) =
     ((0x158a964d, 0x6d4d2023, 0xc4f5ba80, 0x55eaf3d8, 0x86c89086),
      (0x35106fb7, 0x4d3c7c06, 0x653800d7, 0x5dae8aef, 0x5268430c))"
  by (simp only: rmd_rounds_2_def Let_def prod.case steps_2)

lemma steps_3:
  "R31 0x55eaf3d8 0x86c89086 0x158a964d 0x6d4d2023 0xc4f5ba80 0x31313131 11 = (0xfc47b64d, 0x2a593456)"
  "R32 0x5dae8aef 0x5268430c 0x35106fb7 0x4d3c7c06 0x653800d7 0x0 9 = (0x4a2a599c, 0x41bedcd4)"
  "R31 0xc4f5ba80 0xfc47b64d 0x86c89086 0x2a593456 0x6d4d2023 0x0 13 = (0x3b76a182, 0x22421a1b)"
  "R32 0x653800d7 0x4a2a599c 0x5268430c 0x41bedcd4 0x4d3c7c06 0x30203020 7 = (0xb20506de, 0xa10c3149)"
  "R31 0x6d4d2023 0x3b76a182 0xfc47b64d 0x22421a1b 0x2a593456 0xc8 6 = (0xa35941d3, 0x1ed937f1)"
  "R32 0x4d3c7c06 0xb20506de 0x4a2a599c 0xa10c3149 0x41bedcd4 0x31313131 15 = (0x3aede2f, 0xa9667128)"
  "R31 0x2a593456 0xa35941d3 0x3b76a182 0x1ed937f1 0x22421a1b 0x31313131 7 = (0xd49eb57c, 0xda8608ed)"
  "R32 0x41bedcd4 0x3aede2f 0xb20506de 0xa9667128 0xa10c3149 0x31313131 11 = (0x67e42f80, 0x141b7ac8)"
  "R31 0x22421a1b 0xd49eb57c 0xa35941d3 0xda8608ed 0x1ed937f1 0x0 14 = (0x4e2c9dc6, 0x65074e8d)"
  "R32 0xa10c3149 0x67e42f80 0x3aede2f 0x141b7ac8 0xa9667128 0x0 8 = (0x142bc622, 0xbb78bc0e)"
  "R31 0x1ed937f1 0x4e2c9dc6 0xd49eb57c 0x65074e8d 0xda8608ed 0x0 9 = (0x15efc21d, 0x7ad5f352)"
  "R32 0xa9667128 0x142bc622 0x67e42f80 0xbb78bc0e 0x141b7ac8 0xc8 6 = (0x9aa24fd7, 0x90be019f)"
  "R31 0xda8608ed 0x15efc21d 0x4e2c9dc6 0x7ad5f352 0x65074e8d 0x0 13 = (0xa5c6f19e, 0xb2771938)"
  "R32 0x141b7ac8 0x9aa24fd7 0x142bc622 0x90be019f 0xbb78bc0e 0x8020 6 = (0xf0a6c309, 0xaf188850)"
  "R31 0x65074e8d 0xa5c6f19e 0x15efc21d 0xb2771938 0x7ad5f352 0x31313131 15 = (0xa2e8a4ac, 0xbf087457)"
  "R32 0xbb78bc0e 0xf0a6c309 0x9aa24fd7 0xaf188850 0x90be019f 0x0 14 = (0xae5ca293, 0x893f5e6a)"
  "R31 0x7ad5f352 0xa2e8a4ac 0xa5c6f19e 0xbf087457 0xb2771938 0x31313131 14 = (0x6d2eb16c, 0x1bc67a97)"
  "R32 0x90be019f 0xae5ca293 0xf0a6c309 0x893f5e6a 0xaf188850 0x0 12 = (0xc12b7a99, 0x9b0c27c2)"
  "R31 0xb2771938 0x6d2eb16c 0xa2e8a4ac 0x1bc67a97 0xbf087457 0x0 8 = (0x98f35df, 0xa292b28b)"
  "R32 0xaf188850 0xc12b7a99 0xae5ca293 0x9b0c27c2 0x893f5e6a 0x0 13 = (0x8d2fab50, 0x728a4eb9)"
  "R31 0xbf087457 0x98f35df 0x6d2eb16c 0xa292b28b 0x1bc67a97 0x31313131 13 = (0x47962da3, 0xbac5b1b4)"
  "R32 0x893f5e6a 0x8d2fab50 0xc12b7a99 0x728a4eb9 0x9b0c27c2 0x0 5 = (0x1fbc0d5a, 0xadea6704)"
  "R31 0x1bc67a97 0x47962da3 0x98f35df 0xbac5b1b4 0xa292b28b 0x8020 6 = (0x97a3ce80, 0x3cd77c26)"
  "R32 0x9b0c27c2 0x1fbc0d5a 0x8d2fab50 0xadea6704 0x728a4eb9 0x31313131 14 = (0x674291a9, 0xbead4234)"
  "R31 0xa292b28b 0x97a3ce80 0x47962da3 0x3cd77c26 0xbac5b1b4 0x0 5 = (0x4fedd686, 0x58b68d1e)"
  "R32 0x728a4eb9 0x674291a9 0x1fbc0d5a 0xbead4234 0xadea6704 0x0 13 = (0xd5d30e41, 0xf035687e)"
  "R31 0xbac5b1b4 0x4fedd686 0x97a3ce80 0x58b68d1e 0x3cd77c26 0x0 12 = (0xee5ae234, 0x8f3a025e)"
  "R32 0xadea6704 0xd5d30e41 0x674291a9 0xf035687e 0xbead4234 0x31313131 13 = (0x7a57717e, 0xa46a59d)"
  "R31 0x3cd77c26 0xee5ae234 0x4fedd686 0x8f3a025e 0x58b68d1e 0x30203020 7 = (0xf1f71244, 0xb75a193f)"
  "R32 0xbead4234 0x7a57717e 0xd5d30e41 0xa46a59d 0xf035687e 0x31313131 7 = (0xb438c664, 0x4c390757)"
  "R31 0x58b68d1e 0xf1f71244 0xee5ae234 0xb75a193f 0x8f3a025e 0x0 5 = (0x56e9f83f, 0x6b88d3b9)"
  "R32 0xf035687e 0xb438c664 0x7a57717e 0x4c390757 0xa46a59d 0x0 5 = (0xef34ca07, 0x5dc5f9e9)"
  by (simp_all add: round_defs)

lemma group_3:
  "rmd_rounds_3 (0x31313131, 0x31313131, 0x31313131, 0x31313131, 0x31313131, 0x30203020, 0x8020, 0x0, 0x0, 0x0, 0x0, 0x0, 0x0, 0x0, 0xc8, 0x0)
     ((0x158a964d, 0x6d4d2023, 0xc4f5ba80, 0x55eaf3d8, 0x86c89086),
      (0x35106fb7, 0x4d3c7c06, 0x653800d7, 0x5dae8aef, 0x5268430c)) =
     ((0x6b88d3b9, 0xb75a193f, 0x8f3a025e, 0x56e9f83f, 0xf1f71244),
      (0x5dc5f9e9, 0x4c390757, 0xa46a59d, 0xef34ca07, 0xb438c664))"
  by (simp only: rmd_rounds_3_def Let_def prod.case steps_3)

lemma steps_4:
  "R41 0x8f3a025e 0x56e9f83f 0xf1f71244 0x6b88d3b9 0xb75a193f 0x31313131 11 = (0xed615a53, 0xdc4913c7)"
  "R42 0xa46a59d 0xef34ca07 0xb438c664 0x5dc5f9e9 0x4c390757 0x0 15 = (0x5472242a, 0xe31992d0)"
  "R41 0xb75a193f 0xed615a53 0x56e9f83f 0xdc4913c7 0x6b88d3b9 0x0 12 = (0xe892350e, 0xa7e0fd5b)"
  "R42 0x4c390757 0x5472242a 0xef34ca07 0xe31992d0 0x5dc5f9e9 0x8020 5 = (0x19d8203e, 0xd3281fbc)"
  "R41 0x6b88d3b9 0xe892350e 0xed615a53 0xa7e0fd5b 0xdc4913c7 0x0 14 = (0x4e310c90, 0x85694fb5)"
  "R42 0x5dc5f9e9 0x19d8203e 0x5472242a 0xd3281fbc 0xe31992d0 0x31313131 8 = (0xb7fb40ab, 0xc890a951)"
  "R41 0xdc4913c7 0x4e310c90 0xe892350e 0x85694fb5 0xa7e0fd5b 0x0 15 = (0xae7fe967, 0x48d43ba2)"
  "R42 0xe31992d0 0xb7fb40ab 0x19d8203e 0xc890a951 0xd3281fbc 0x31313131 11 = (0x5a4b4700, 0x6080f867)"
  "R41 0xa7e0fd5b 0xae7fe967 0x4e310c90 0x48d43ba2 0x85694fb5 0x31313131 14 = (0x4b8fed5d, 0xc4324138)"
  "R42 0xd3281fbc 0x5a4b4700 0xb7fb40ab 0x6080f867 0xc890a951 0x31313131 14 = (0x78a015b5, 0xed02aedf)"
  "R41 0x85694fb5 0x4b8fed5d 0xae7fe967 0xc4324138 0x48d43ba2 0x0 15 = (0xc3cc7b0c, 0xffa59eb9)"
  "R42 0xc890a951 0x78a015b5 0x5a4b4700 0xed02aedf 0x6080f867 0x0 14 = (0x94620067, 0x2d1c0169)"
  "R41 0x48d43ba2 0xc3cc7b0c 0x4b8fed5d 0xffa59eb9 0xc4324138 0x0 9 = (0xc119d66e, 0x3fb5752e)"
  "R42 0x6080f867 0x94620067 0x78a015b5 0x2d1c0169 0xed02aedf 0x0 6 = (0xf79ece24, 0x8056d5e2)"
  "R41 0xc4324138 0xc119d66e 0xc3cc7b0c 0x3fb5752e 0xffa59eb9 0x31313131 8 = (0xd83311fe, 0x31ec330f)"
  "R42 0xed02aedf 0xf79ece24 0x94620067 0x8056d5e2 0x2d1c0169 0x31313131 14 = (0x753cca1, 0x88019e51)"
  "R41 0xffa59eb9 0xd83311fe 0xc119d66e 0x31ec330f 0x3fb5752e 0x0 9 = (0x26177beb, 0x6759bb04)"
  "R42 0x2d1c0169 0x753cca1 0xf79ece24 0x88019e51 0x8056d5e2 0x30203020 6 = (0x2f788e7b, 0x7b3893de)"
  "R41 0x3fb5752e 0x26177beb 0xd83311fe 0x6759bb04 0x31ec330f 0x31313131 14 = (0x99b9a29c, 0xcc47fb60)"
  "R42 0x8056d5e2 0x2f788e7b 0x753cca1 0x7b3893de 0x88019e51 0x0 9 = (0xb1d67ef5, 0x4f32841d)"
  "R41 0x31ec330f 0x99b9a29c 0x26177beb 0xcc47fb60 0x6759bb04 0x0 5 = (0xca8c09d1, 0x5defac98)"
  "R42 0x88019e51 0xb1d67ef5 0x2f788e7b 0x4f32841d 0x7b3893de 0x31313131 12 = (0x8886de0f, 0xe239ecbd)"
  "R41 0x6759bb04 0xca8c09d1 0x99b9a29c 0x5defac98 0xcc47fb60 0x0 6 = (0x90a8988f, 0xe68a7266)"
  "R42 0x7b3893de 0x8886de0f 0xb1d67ef5 0xe239ecbd 0x4f32841d 0x0 9 = (0x1a457dcd, 0x59fbd6c7)"
  "R41 0xcc47fb60 0x90a8988f 0xca8c09d1 0xe68a7266 0x5defac98 0xc8 8 = (0x4dc2487b, 0x3027472a)"
  "R42 0x4f32841d 0x1a457dcd 0x8886de0f 0x59fbd6c7 0xe239ecbd 0x0 12 = (0xcfcb3df2, 0x1b783e22)"
  "R41 0x5defac98 0x4dc2487b 0x90a8988f 0x3027472a 0xe68a7266 0x30203020 6 = (0x5427034d, 0xa2623e42)"
  "R42 0xe239ecbd 0xcfcb3df2 0x1a457dcd 0x1b783e22 0x59fbd6c7 0x0 5 = (0x3d104395, 0x15f73469)"
  "R41 0xe68a7266 0x5427034d 0x4dc2487b 0xa2623e42 0x3027472a 0x8020 5 = (0x994582a2, 0x921ed37)"
  "R42 0x59fbd6c7 0x3d104395 0xcfcb3df2 0x15f73469 0x1b783e22 0x0 15 = (0x5d4caf4a, 0x2cf7cb3f)"
  "R41 0x3027472a 0x994582a2 0x5427034d 0x921ed37 0xa2623e42 0x31313131 12 = (0x5ddc5319, 0x9c0d3550)"
  "R42 0x1b783e22 0x5d4caf4a 0x3d104395 0x2cf7cb3f 0x15f73469 0xc8 8 = (0xaef03d3c, 0x410e54f4)"
  by (simp_all add: round_defs)

lemma group_4:
  "rmd_rounds_4 (0x31313131, 0x31313131, 0x31313131, 0x31313131, 0x31313131, 0x30203020, 0x8020, 0x0, 0x0, 0x0, 0x0, 0x0, 0x0, 0x0, 0xc8, 0x0)
     ((0x6b88d3b9, 0xb75a193f, 0x8f3a025e, 0x56e9f83f, 0xf1f71244),
      (0x5dc5f9e9, 0x4c390757, 0xa46a59d, 0xef34ca07, 0xb438c664)) =
     ((0x921ed37, 0xa2623e42, 0x5ddc5319, 0x994582a2, 0x9c0d3550),
      (0x2cf7cb3f, 0x15f73469, 0xaef03d3c, 0x5d4caf4a, 0x410e54f4))"
  by (simp only: rmd_rounds_4_def Let_def prod.case steps_4)

lemma steps_5:
  "R51 0xa2623e42 0x5ddc5319 0x994582a2 0x9c0d3550 0x921ed37 0x31313131 9 = (0x2f2edb7d, 0x160a8a65)"
  "R52 0x15f73469 0xaef03d3c 0x5d4caf4a 0x410e54f4 0x2cf7cb3f 0x0 8 = (0xd6f2b707, 0x32bd2975)"
  "R51 0x921ed37 0x2f2edb7d 0x5ddc5319 0x160a8a65 0x9c0d3550 0x31313131 15 = (0x5b908d, 0x714c6577)"
  "R52 0x2cf7cb3f 0xd6f2b707 0xaef03d3c 0x32bd2975 0x410e54f4 0x0 5 = (0x37fc26a2, 0xc0f4f2bb)"
  "R51 0x9c0d3550 0x5b908d 0x2f2edb7d 0x714c6577 0x160a8a65 0x30203020 5 = (0xc2c05029, 0xbb6df4bc)"
  "R52 0x410e54f4 0x37fc26a2 0xd6f2b707 0xc0f4f2bb 0x32bd2975 0x0 12 = (0xbe3e4fa5, 0xcadc1f5b)"
  "R51 0x160a8a65 0xc2c05029 0x5b908d 0xbb6df4bc 0x714c6577 0x0 11 = (0x43e92fa2, 0x6e423401)"
  "R52 0x32bd2975 0xbe3e4fa5 0x37fc26a2 0xcadc1f5b 0xc0f4f2bb 0x31313131 9 = (0xda96f809, 0xf09a88df)"
  "R51 0x714c6577 0x43e92fa2 0xc2c05029 0x6e423401 0xbb6df4bc 0x0 6 = (0x68c3bd66, 0x140a70b)"
  "R52 0xc0f4f2bb 0xda96f809 0xbe3e4fa5 0xf09a88df 0xcadc1f5b 0x31313131 12 = (0x511217c0, 0xf93e96f8)"
  "R51 0xbb6df4bc 0x68c3bd66 0x43e92fa2 0x140a70b 0x6e423401 0x0 8 = (0x6cf6cefc, 0xa4be890f)"
  "R52 0xcadc1f5b 0x511217c0 0xda96f809 0xf93e96f8 0xf09a88df 0x30203020 5 = (0xa7739e6c, 0x5be0276a)"
  "R51 0x6e423401 0x6cf6cefc 0x68c3bd66 0xa4be890f 0x140a70b 0x31313131 13 = (0x93b1f30a, 0xef599a3)"
  "R52 0xf09a88df 0xa7739e6c 0x511217c0 0x5be0276a 0xf93e96f8 0x0 14 = (0x727fe7f, 0x485f0144)"
  "R51 0x140a70b 0x93b1f30a 0x6cf6cefc 0xef599a3 0xa4be890f 0x0 12 = (0xe0e37a9d, 0xdb3bf1b3)"
  "R52 0xf93e96f8 0x727fe7f 0xa7739e6c 0x485f0144 0x5be0276a 0x0 6 = (0xae5e3b62, 0xce79b29d)"
  "R51 0xa4be890f 0xe0e37a9d 0x93b1f30a 0xdb3bf1b3 0xef599a3 0xc8 5 = (0xb41738b7, 0xc7cc2a4e)"
  "R52 0x5be0276a 0xae5e3b62 0x727fe7f 0xce79b29d 0x485f0144 0x8020 8 = (0x297e0c06, 0x9ff9fc1c)"
  "R51 0xef599a3 0xb41738b7 0xe0e37a9d 0xc7cc2a4e 0xdb3bf1b3 0x31313131 12 = (0xd42eb518, 0x8dea7783)"
  "R52 0x485f0144 0x297e0c06 0xae5e3b62 0x9ff9fc1c 0xce79b29d 0x31313131 13 = (0xe3764ea, 0x78ed8ab9)"
  "R51 0xdb3bf1b3 0xd42eb518 0xb41738b7 0x8dea7783 0xc7cc2a4e 0x31313131 13 = (0xd8f654d, 0x5ce2ded0)"
  "R52 0xce79b29d 0xe3764ea 0x297e0c06 0x78ed8ab9 0x9ff9fc1c 0x0 6 = (0x279f38a7, 0xf83018a5)"
  "R51 0xc7cc2a4e 0xd8f654d 0xd42eb518 0x5ce2ded0 0x8dea7783 0x0 14 = (0xcbee1277, 0xbad46350)"
  "R52 0x9ff9fc1c 0x279f38a7 0xe3764ea 0xf83018a5 0x78ed8ab9 0xc8 5 = (0xab35c447, 0xdd93a838)"
  "R51 0x8dea7783 0xcbee1277 0xd8f654d 0xbad46350 0x5ce2ded0 0x0 11 = (0x60062cbc, 0x3d953436)"
  "R52 0x78ed8ab9 0xab35c447 0x279f38a7 0xdd93a838 0xf83018a5 0x31313131 15 = (0x919651, 0x7ce29c9e)"
  "R51 0x5ce2ded0 0x60062cbc 0xcbee1277 0x3d953436 0xbad46350 0x8020 8 = (0xdb27e502, 0xb849df2f)"
  "R52 0xf83018a5 0x919651 0xab35c447 0x7ce29c9e 0xdd93a838 0x31313131 13 = (0xe09f684d, 0xd7111eac)"
  "R51 0xbad46350 0xdb27e502 0x60062cbc 0xb849df2f 0x3d953436 0x0 5 = (0x54da87ba, 0x18b2f180)"
  "R52 0xdd93a838 0xe09f684d 0x919651 0xd7111eac 0x7ce29c9e 0x0 11 = (0x1929dd43, 0x46594402)"
  "R51 0x3d953436 0x54da87ba 0xdb27e502 0x18b2f180 0xb849df2f 0x0 6 = (0x5ff07193, 0x9f940b6c)"
  "R52 0x7ce29c9e 0x1929dd43 0xe09f684d 0x46594402 0xd7111eac 0x0 11 = (0x6b7e7092, 0x7da13782)"
  by (simp_all add: round_defs)

lemma group_5:
  "rmd_rounds_5 (0x31313131, 0x31313131, 0x31313131, 0x31313131, 0x31313131, 0x30203020, 0x8020, 0x0, 0x0, 0x0, 0x0, 0x0, 0x0, 0x0, 0xc8, 0x0)
     ((0x921ed37, 0xa2623e42, 0x5ddc5319, 0x994582a2, 0x9c0d3550),
      (0x2cf7cb3f, 0x15f73469, 0xaef03d3c, 0x5d4caf4a, 0x410e54f4)) =
     ((0xb849df2f, 0x5ff07193, 0x54da87ba, 0x9f940b6c, 0x18b2f180),
      (0xd7111eac, 0x6b7e7092, 0x1929dd43, 0x7da13782, 0x46594402))"
  by (simp only: rmd_rounds_5_def Let_def prod.case steps_5)

definition diff0_block :: "byte list" where
  "diff0_block =
    [0x31, 0x31, 0x31, 0x31, 0x31, 0x31, 0x31, 0x31, 0x31, 0x31, 0x31, 0x31, 0x31, 0x31, 0x31, 0x31, 0x31, 0x31, 0x31, 0x31, 
     0x20, 0x30, 0x20, 0x30, 0x20, 0x80,
     0x0, 0x0, 0x0, 0x0, 0x0, 0x0, 0x0, 0x0, 0x0, 0x0, 0x0, 0x0, 0x0, 0x0, 0x0, 0x0, 0x0, 0x0, 0x0, 0x0, 0x0, 0x0, 0x0, 0x0, 0x0, 0x0, 0x0, 0x0, 0x0, 0x0, 0xc8, 0x0, 0x0, 0x0, 0x0, 0x0, 0x0, 0x0]"

lemma diff0_text: "bytes_of_string (diff_to_stream diff0) = replicate 20 0x31 @ [0x20, 0x30, 0x20, 0x30, 0x20]"
  by code_simp

lemma diff0_words: "rmd_words_of diff0_block =
  (0x31313131, 0x31313131, 0x31313131, 0x31313131, 0x31313131, 0x30203020, 0x8020, 0x0, 0x0, 0x0, 0x0, 0x0, 0x0, 0x0, 0xc8, 0x0)"
  by (simp add: rmd_words_of_def ReadLE32_def diff0_block_def read_le_def)

lemma diff0_transform: "rmd_Transform rmd_Initialize diff0_block = (0xc2496ac5, 0x7ea82c6c, 0xfff664a2, 0xe79b31b1, 0xe05f71d7)"
  by (simp add: rmd_Transform_def diff0_words rmd_Initialize_def group_1 group_2 group_3 group_4 group_5)

lemma write_le_4: "write_le 4 x = [of_nat x, of_nat (x div 256), of_nat (x div 256 div 256), of_nat (x div 256 div 256 div 256)]"
proof -
  have "4 = Suc (Suc (Suc (Suc 0)))" by simp
  then show ?thesis by (simp only: write_le.simps)
qed

lemma write_le_8: "write_le 8 x = write_le 4 x @ write_le 4 (x div 256 div 256 div 256 div 256)"
proof -
  have "8 = Suc (Suc (Suc (Suc (Suc (Suc (Suc (Suc 0)))))))" by simp
  then show ?thesis by (simp only: write_le_4 write_le.simps append.simps)
qed

lemma diff0_hash:
  assumes "length jb = 64"
  shows "hash_text jb (diff_to_stream diff0) = Hash 0x7ea82c6cc2496ac5 0xe79b31b1fff664a2 0xe05f71d7"
proof -
  let ?m = "replicate 20 0x31 @ [0x20, 0x30, 0x20, 0x30, 0x20] :: byte list"
  have p: "?m @ padding (length ?m) @ write_le 8 (8 * length ?m) = diff0_block" by code_simp
  have "blocks diff0_block = [diff0_block]" using blocks_step [of diff0_block "[]"] by (simp add: diff0_block_def)
  then have "rmd160 ?m = ripemd160_output (0xc2496ac5, 0x7ea82c6c, 0xfff664a2, 0xe79b31b1, 0xe05f71d7)"
    unfolding rmd160_def p by (simp add: diff0_transform flip: rmd_Transform_spec)
  moreover have "hash_bytes (Hash 0x7ea82c6cc2496ac5 0xe79b31b1fff664a2 0xe05f71d7) =
      ripemd160_output (0xc2496ac5, 0x7ea82c6c, 0xfff664a2, 0xe79b31b1, 0xe05f71d7)"
    by (simp add: ripemd160_output_def WriteLE32_def WriteLE64_def write_le_4 write_le_8)
  ultimately show ?thesis by (metis hash_of_bytes_bytes hash_text_spec [OF assms] diff0_text)
qed

lemma diff0_hash_not_zero: "length jb = 64 \<Longrightarrow> fst (diff_hash jb diff0) \<noteq> hash_zero"
  using diff_hash_new [of diff0 jb] diff0_hash [of jb] by (simp add: diff0_def hash_zero_def)

end
