(* ===== verification/Sync.thy ===== *)
theory Sync
  imports Evidence First_Block
begin

text \<open>
  The synchronising thread, \<open>syncd_t::run\<close> of \<open>src/gov/engine/syncd.cpp\<close>, with \<open>query_block\<close> and
  \<open>get_random_edge\<close> of \<open>src/gov/engine/daemon.cpp\<close>. From the head it walks back along the saved blocks, asking peers for those that are
  missing, until it meets the tail; then it applies what it has collected. A block that
  does not come in a hundred rounds resets the data base.

  One iteration of the inner loop is a function of the state and of what chance and network answer to a query: the
  index drawn for a peer, and whether the datagram could be delivered. The loop is a partial function: \<open>None\<close> if it never ends.
\<close>

section \<open>The thread\<close>

record sync_locals =
  patches :: "hash_t list"
  last_queryed :: hash_t
  query_reps :: int

definition sync_locals0 :: sync_locals where
  "sync_locals0 = \<lparr>patches = [], last_queryed = hash_zero, query_reps = 100\<rparr>"

type_synonym answer = "(nat \<Rightarrow> nat) \<times> (nat \<Rightarrow> bool)"

definition get_random_edge :: "(nat \<Rightarrow> nat) \<Rightarrow> daemon \<Rightarrow> nat option" where
  "get_random_edge rnd d =
     (let n = get_people d in if n = [] then None else Some (n ! rnd (length n - 1)))"

text \<open>\<open>Some (None, _)\<close> is the null pointer, \<open>None\<close> a failed assertion.\<close>

definition query_block :: "answer \<Rightarrow> hash_t \<Rightarrow> daemon \<Rightarrow> (nat option \<times> msgs) option" where
  "query_block q h d =
     (case get_random_edge (fst q) d of
        None \<Rightarrow> Some (None, [])
      | Some n \<Rightarrow>
          (case datagram_str svc_query_block (show_hash h) of
             None \<Rightarrow> None
           | Some g \<Rightarrow> if snd q n then Some (Some n, [(n, g)]) else Some (None, [])))"

datatype iteration = Crash | Break | Again daemon sync_locals msgs

text \<open>A query that was delivered: count, and reset everything when the count is over.\<close>

definition sync_count :: "hash_t \<Rightarrow> daemon \<Rightarrow> sync_locals \<Rightarrow> daemon \<times> sync_locals" where
  "sync_count cu d l =
     (if hash_ne (last_queryed l) cu then (d, l\<lparr>last_queryed := cu, query_reps := 100\<rparr>)
      else let l = l\<lparr>query_reps := query_reps l - 1\<rparr>
           in if query_reps l = 0
              then (daemon_clear (d\<lparr>syncd := (syncd d)\<lparr>tail := hash_set 0, cur := hash_set 0, head := hash_set 0\<rparr>\<rparr>), l)
              else (d, l))"

definition sync_iter :: "answer \<Rightarrow> daemon \<Rightarrow> sync_locals \<Rightarrow> iteration" where
  "sync_iter q d l =
     (let s = syncd d
      in if hash_eq (cur s) (tail s) then Break
         else if hash_is_zero (head s) then Break
         else if hash_is_zero (cur s) then Break
         else let he = head s; cu = cur s;
                  l = (if hash_eq cu he then l\<lparr>patches := []\<rparr> else l)
              in case get_prev d cu of
                   Some pv \<Rightarrow> Again (d\<lparr>syncd := s\<lparr>cur := pv\<rparr>\<rparr>) (l\<lparr>patches := patches l @ [cu]\<rparr>) []
                 | None \<Rightarrow>
                     (case query_block q cu d of
                        None \<Rightarrow> Crash
                      | Some (p, ms) \<Rightarrow>
                          (let (d, l) = (if p \<noteq> None then sync_count cu d l else (d, l))
                           in Again (d\<lparr>syncd := (syncd d)\<lparr>file_arrived := False\<rparr>\<rparr>) l ms)))"

partial_function (option) sync_loop :: "(nat \<Rightarrow> answer) \<Rightarrow> nat \<Rightarrow> daemon \<Rightarrow> sync_locals \<Rightarrow> (daemon \<times> sync_locals) option" where
  "sync_loop q n d l =
     (case sync_iter (q n) d l of
        Crash \<Rightarrow> None
      | Break \<Rightarrow> Some (d, l)
      | Again d l ms \<Rightarrow> sync_loop q (Suc n) d l)"

text \<open>After the inner loop: apply the patches or reset; the evidence on hold is flushed.\<close>

definition sync_apply :: "env \<Rightarrow> hash_t list \<Rightarrow> daemon \<Rightarrow> daemon option" where
  "sync_apply e ps d =
     (if ps = [] then Some d
      else case patch_db e ps d of
             None \<Rightarrow> None
           | Some (True, d) \<Rightarrow> Some (d\<lparr>syncd := (syncd d)\<lparr>tail := hd ps\<rparr>\<rparr>)
           | Some (False, d) \<Rightarrow> Some (daemon_clear d))"

definition sync_finish :: "env \<Rightarrow> daemon \<Rightarrow> sync_locals \<Rightarrow> daemon option" where
  "sync_finish e d l = (case sync_apply e (patches l) d of None \<Rightarrow> None | Some d \<Rightarrow> on_sync e d)"

text \<open>\<open>wait\<close> returns when there is something to do.\<close>

definition sync_wait :: "syncd_t \<Rightarrow> syncd_t option" where
  "sync_wait s = (if resume s then Some (s\<lparr>resume := False\<rparr>) else None)"

section \<open>Lemmas\<close>

lemma get_prev_stored: "stored e d b \<Longrightarrow> get_prev d (fst (diff_hash (e_jbuf e) b)) = Some (prev b)"
  by (simp add: stored_def get_prev_def file_exists_def diff_to_stream_def read_hash_show)

lemma syncd_files [simp]:
  "block_file (d\<lparr>syncd := s\<rparr>) h = block_file d h" "head_file (d\<lparr>syncd := s\<rparr>) = head_file d"
  "stored e (d\<lparr>syncd := s\<rparr>) b = stored e d b" "get_prev (d\<lparr>syncd := s\<rparr>) h = get_prev d h"
  by (simp_all add: block_file_def head_file_def blocksdir_def stored_def get_prev_def file_exists_def)

text \<open>A chain of blocks, oldest first, that continues \<open>t\<close>.\<close>

fun linked :: "env \<Rightarrow> hash_t \<Rightarrow> diff list \<Rightarrow> bool" where
  "linked e t [] = True"
| "linked e t (b # bs) = (prev b = t \<and> linked e (fst (diff_hash (e_jbuf e) b)) bs)"

abbreviation hashes :: "env \<Rightarrow> diff list \<Rightarrow> hash_t list" where
  "hashes e bs \<equiv> map (\<lambda>b. fst (diff_hash (e_jbuf e) b)) bs"

lemma linked_append: "linked e t (xs @ [b]) \<longleftrightarrow> linked e t xs \<and> prev b = last (t # hashes e xs)"
  by (induction xs arbitrary: t) auto

text \<open>Walking back over a chain that is there.\<close>

lemma sync_loop_collects:
  assumes "linked e t bs" "\<forall>b \<in> set bs. stored e d b" "hash_zero \<notin> set (hashes e bs)" "t \<notin> set (hashes e bs)"
    and "tail (syncd d) = t" "cur (syncd d) = last (t # hashes e bs)" "head (syncd d) \<noteq> hash_zero"
    and "head (syncd d) \<notin> set (hashes e (butlast bs))" "patches l = [] \<or> bs = [] \<or> cur (syncd d) \<noteq> head (syncd d)"
  shows "\<exists>l'. sync_loop q n d l = Some (d\<lparr>syncd := (syncd d)\<lparr>cur := t\<rparr>\<rparr>, l') \<and> patches l' = patches l @ rev (hashes e bs)"
  using assms
proof (induction bs arbitrary: d l n rule: rev_induct)
  case Nil
  then have "sync_iter (q n) d l = Break" "d\<lparr>syncd := (syncd d)\<lparr>cur := t\<rparr>\<rparr> = d" by (simp_all add: sync_iter_def)
  then show ?case by (subst sync_loop.simps) simp
next
  case (snoc b bs)
  let ?h = "fst (diff_hash (e_jbuf e) b)" and ?s = "syncd d"
  have c: "cur ?s = ?h" "prev b = last (t # hashes e bs)" using snoc.prems(1,6) by (simp_all add: linked_append)
  have g: "get_prev d ?h = Some (prev b)" using snoc.prems(2) by (intro get_prev_stored) simp
  let ?d = "d\<lparr>syncd := ?s\<lparr>cur := prev b\<rparr>\<rparr>" and ?l = "l\<lparr>patches := patches l @ [?h]\<rparr>"
  have l: "(if hash_eq ?h (head ?s) then l\<lparr>patches := []\<rparr> else l) = l" using snoc.prems(9) c(1) by auto
  have "hash_zero \<noteq> ?h" "?h \<noteq> t" using snoc.prems(3,4) by auto
  then have i: "sync_iter (q n) d l = Again ?d ?l []"
    using c g l snoc.prems(5,7) by (simp add: sync_iter_def Let_def)
  have ne: "prev b \<noteq> head ?s \<or> bs = []"
  proof (cases "bs = []")
    case False
    then have "prev b \<in> set (hashes e bs)" using c(2) last_in_set [of "hashes e bs"] by simp
    then show ?thesis using snoc.prems(8) by (simp only: butlast_snoc) metis
  qed simp
  have p: "linked e t bs" "\<forall>b \<in> set bs. stored e ?d b" "hash_zero \<notin> set (hashes e bs)" "t \<notin> set (hashes e bs)" "head ?s \<notin> set (hashes e bs)"
    using snoc.prems(1-4,8) by (simp_all add: linked_append)
  then have hb: "head (syncd ?d) \<notin> set (hashes e (butlast bs))" using in_set_butlastD [of "head ?s" "hashes e bs"] by (auto simp: map_butlast)
  have f: "tail (syncd ?d) = t" "cur (syncd ?d) = last (t # hashes e bs)" "head (syncd ?d) \<noteq> hash_zero"
    using snoc.prems(5,7) c(2) by simp_all
  have k: "patches ?l = [] \<or> bs = [] \<or> cur (syncd ?d) \<noteq> head (syncd ?d)" using ne by auto
  have "\<exists>l'. sync_loop q (Suc n) ?d ?l = Some (?d\<lparr>syncd := (syncd ?d)\<lparr>cur := t\<rparr>\<rparr>, l')
      \<and> patches l' = patches ?l @ rev (hashes e bs)"
    by (rule snoc.IH [OF p(1-4) f hb k])
  then show ?case by (subst sync_loop.simps) (simp add: i)
qed

text \<open>Importing does not look at the state of the synchronisation.\<close>

lemma import_app_syncd: "import_app e w (d\<lparr>syncd := s\<rparr>) x = map_option (\<lambda>d. d\<lparr>syncd := s\<rparr>) (import_app e w d x)"
  by (cases x) (simp add: import_app_def update_peers_state_def split: option.split app_delta.split)

lemma import_apps_syncd:
  "import_apps e w (d\<lparr>syncd := s\<rparr>) xs = map_option (\<lambda>d. d\<lparr>syncd := s\<rparr>) (import_apps e w d xs)"
  by (induction xs arbitrary: d) (simp_all add: import_app_syncd split: option.split)

lemma set_lbi_syncd: "set_last_block_imported h (d\<lparr>syncd := s\<rparr>) = (set_last_block_imported h d)\<lparr>syncd := s\<rparr>"
  by (simp add: set_last_block_imported_def write_file_def head_file_def blocksdir_def Let_def)

lemma import_syncd: "import e b (d\<lparr>syncd := s\<rparr>) = map_option (apsnd (\<lambda>d. d\<lparr>syncd := s\<rparr>)) (import e b d)"
proof -
  have eq: "d\<lparr>syncd := s, chaininfo_lbi := v\<rparr> = d\<lparr>chaininfo_lbi := v\<rparr>\<lparr>syncd := s\<rparr>" for v by simp
  have "import_apps e w (d\<lparr>syncd := s, chaininfo_lbi := v\<rparr>) xs =
      map_option (\<lambda>d. d\<lparr>syncd := s\<rparr>) (import_apps e w (d\<lparr>chaininfo_lbi := v\<rparr>) xs)" for w v xs
    unfolding eq by (rule import_apps_syncd)
  then show ?thesis by (simp add: import_def set_lbi_syncd split: option.split)
qed

lemma import_all_syncd: "import_all e bs (d\<lparr>syncd := s\<rparr>) = map_option (\<lambda>d. d\<lparr>syncd := s\<rparr>) (import_all e bs d)"
proof (induction bs arbitrary: d)
  case (Cons b bs)
  show ?case
  proof (cases "import e b d")
    case (Some r)
    then show ?thesis using Cons.IH by (cases r) (auto simp: import_syncd split: bool.split)
  qed (simp add: import_syncd)
qed simp

lemma import_all_last:
  "import_all e bs d = Some d' \<Longrightarrow>
   last_block_imported d' = last (last_block_imported d # hashes e bs) \<and> syncd d' = syncd d \<and> home d' = home d"
proof (induction bs arbitrary: d)
  case (Cons b bs)
  obtain d1 where d1: "import e b d = Some (True, d1)" "import_all e bs d1 = Some d'" using import_all_Cons [OF Cons.prems] by blast
  then show ?case using Cons.IH [OF d1(2)] import_effect [OF d1(1)] by auto
qed simp

lemma hashes_norm:
  "\<forall>b \<in> set bs. stored e d b \<Longrightarrow> hashes e (map norm_diff bs) = hashes e bs"
  using norm_hash by (auto simp: stored_def)

text \<open>Applying what was collected.\<close>

lemma sync_apply_chain:
  assumes "bs \<noteq> []" "\<forall>b \<in> set bs. stored e d b" "import_all e (map norm_diff bs) d = Some d'"
  shows "\<exists>s. sync_apply e (rev (hashes e bs)) d = Some (d'\<lparr>syncd := s\<rparr>) \<and> head s = head (syncd d) \<and> tail s = last (hashes e bs)"
proof -
  have "syncd d' = syncd d" using import_all_last [OF assms(3)] by simp
  then have "sync_apply e (rev (hashes e bs)) d =
      Some (d'\<lparr>syncd := (syncd d)\<lparr>cur := head (syncd d), resume := True, tail := last (hashes e bs)\<rparr>\<rparr>)"
    using patch_loop_all [OF assms(2,3)] assms(1)
    by (simp add: sync_apply_def patch_db_def update_tail_def hd_rev last_map)
  then show ?thesis by (intro exI [of _ "(syncd d)\<lparr>cur := head (syncd d), resume := True, tail := last (hashes e bs)\<rparr>"]) simp
qed

lemma on_sync_empty: "evidences_on_hold d = [] \<Longrightarrow> on_sync e d = Some d"
  by (simp add: on_sync_def flush_evidences_on_hold_def)

lemma import_all_hold: "import_all e bs d = Some d' \<Longrightarrow> evidences_on_hold d' = evidences_on_hold d"
proof (induction bs arbitrary: d)
  case (Cons b bs)
  obtain d1 where d1: "import e b d = Some (True, d1)" "import_all e bs d1 = Some d'" using import_all_Cons [OF Cons.prems] by blast
  have "evidences_on_hold d1 = evidences_on_hold d"
    by (rule import_frame [OF d1(1)]) (simp add: set_last_block_imported_def write_file_def Let_def)
  then show ?case using Cons.IH [OF d1(2)] by simp
qed simp

lemma load_head_fresh:
  assumes "d = load_head (daemon0 k hm fs)" "fs (head_file d) = Some (show_hash h @ ''\<newline>'')"
  shows "d = (daemon0 k hm fs)\<lparr>syncd := update_head_tail h hash_zero syncd0, chaininfo_tip := h\<rparr>"
proof -
  let ?d0 = "daemon0 k hm fs"
  have hf: "head_file d = head_file ?d0" by (simp add: assms(1) load_head_def Let_def head_file_def blocksdir_def)
  then have "read_hash (hash_set 0) (istr (the (fs (head_file ?d0)))) = (h, istr ''\<newline>'')"
    using assms(2) read_hash_show [of "CHR ''\<newline>''" "hash_set 0" h "[]"] by (simp add: isspace_def)
  moreover have "files ?d0 (head_file ?d0) = Some (show_hash h @ ''\<newline>'')" using assms(2) hf by (simp add: daemon0_def)
  ultimately show ?thesis using assms(2) hf by (simp add: assms(1) load_head_def Let_def) (simp add: daemon0_def)
qed

text \<open>The whole synchronisation on a chain that is there.\<close>

lemma sync_chain:
  assumes "bs \<noteq> []" "\<forall>b \<in> set bs. stored e d b" "linked e t bs" "hash_zero \<notin> set (hashes e bs)" "distinct (t # hashes e bs)"
    and "syncd d = update_head_tail (last (hashes e bs)) t sb" "evidences_on_hold d = []"
    and "import_all e (map norm_diff bs) d = Some d'"
  shows "\<exists>d1 l1 s2. sync_loop q n d sync_locals0 = Some (d1, l1) \<and> sync_finish e d1 l1 = Some (d'\<lparr>syncd := s2\<rparr>) \<and> in_sync s2"
proof -
  let ?h = "last (hashes e bs)"
  have s: "tail (syncd d) = t" "cur (syncd d) = last (t # hashes e bs)" "head (syncd d) = ?h"
    using assms(1,6) by (simp_all add: update_head_tail_def)
  obtain cs b where bs: "bs = cs @ [b]" using assms(1) by (metis rev_exhaust)
  have nz: "t \<notin> set (hashes e bs)" "?h \<noteq> hash_zero" "?h \<notin> set (hashes e (butlast bs))"
    using assms(4,5) by (auto simp: bs)
  have l0: "patches sync_locals0 = [] \<or> bs = [] \<or> cur (syncd d) \<noteq> head (syncd d)" by (simp add: sync_locals0_def)
  let ?d1 = "d\<lparr>syncd := (syncd d)\<lparr>cur := t\<rparr>\<rparr>" and ?d' = "d'\<lparr>syncd := (syncd d)\<lparr>cur := t\<rparr>\<rparr>"
  obtain l1 where l1: "sync_loop q n d sync_locals0 = Some (?d1, l1)" "patches l1 = rev (hashes e bs)"
    using sync_loop_collects [OF assms(3,2,4) nz(1) s(1,2) _ _ l0, of q n] nz(2,3) s(3) by (auto simp: sync_locals0_def)
  have i: "import_all e (map norm_diff bs) ?d1 = Some ?d'" using assms(8) by (simp add: import_all_syncd)
  have st: "\<forall>b \<in> set bs. stored e ?d1 b" using assms(2) by simp
  obtain s2 where s2: "sync_apply e (rev (hashes e bs)) ?d1 = Some (?d'\<lparr>syncd := s2\<rparr>)" "head s2 = ?h" "tail s2 = ?h"
    using sync_apply_chain [OF assms(1) st i] s(3) by auto
  have "evidences_on_hold d' = []" using import_all_hold [OF assms(8)] assms(7) by simp
  then have "sync_finish e ?d1 l1 = Some (?d'\<lparr>syncd := s2\<rparr>)" using s2(1) l1(2) by (simp add: sync_finish_def on_sync_empty)
  moreover have "in_sync s2" using s2(2,3) by (simp add: in_sync_def)
  ultimately show ?thesis using l1(1) by fastforce
qed

text \<open>A block that is missing while queries for it are delivered.\<close>

lemma query_datagram: obtains g where "datagram_str svc (show_hash h) = Some g"
  using show_hash_short [of h] that by (simp add: datagram_str_eq datagram_maxsize_def)

definition missing :: "hash_t \<Rightarrow> daemon \<Rightarrow> bool" where
  "missing h d \<longleftrightarrow> cur (syncd d) = h \<and> h \<noteq> tail (syncd d) \<and> head (syncd d) \<noteq> hash_zero \<and> h \<noteq> hash_zero
     \<and> get_prev d h = None \<and> get_people d \<noteq> []"

definition no_file :: "daemon \<Rightarrow> daemon" where
  "no_file d = d\<lparr>syncd := (syncd d)\<lparr>file_arrived := False\<rparr>\<rparr>"

lemma no_file_simps [simp]:
  "get_people (no_file d) = get_people d" "syncd (no_file d) = (syncd d)\<lparr>file_arrived := False\<rparr>" "get_prev (no_file d) h = get_prev d h"
  "no_file (no_file d) = no_file d"
  by (simp_all add: no_file_def get_people_def)

lemma missing_no_file: "missing h (no_file d) = missing h d"
  by (simp add: missing_def)

lemma sync_iter_missing:
  assumes "missing h d" "snd q = (\<lambda>_. True)"
  obtains ms l1 where "sync_iter q d l = (let (d, l) = sync_count h d l1 in Again (no_file d) l ms)"
    "last_queryed l1 = last_queryed l" "query_reps l1 = query_reps l"
proof -
  obtain g where "datagram_str svc_query_block (show_hash h) = Some g" by (rule query_datagram)
  moreover have "get_random_edge (fst q) d \<noteq> None" using assms(1) by (simp add: missing_def get_random_edge_def Let_def)
  ultimately obtain n ms where "query_block q h d = Some (Some n, ms)" using assms(2) by (auto simp: query_block_def)
  then show ?thesis
    using assms(1) that [of "if h = head (syncd d) then l\<lparr>patches := []\<rparr> else l" ms]
    by (simp add: sync_iter_def missing_def no_file_def Let_def split: prod.splits)
qed

lemma cleared_breaks: "cur (syncd d) = tail (syncd d) \<Longrightarrow> sync_loop q n d l = Some (d, l)"
  by (subst sync_loop.simps) (simp add: sync_iter_def)

lemma sync_countdown:
  assumes "missing h d" "\<forall>n. snd (q n) = (\<lambda>_. True)" "last_queryed l = h" "query_reps l = int (Suc k)"
  shows "\<exists>d' l'. sync_loop q n d l = Some (d', l') \<and> last_block_imported d' = hash_zero
    \<and> auth d' = auth_clear (auth d) \<and> cash d' = cash_clear (cash d) \<and> in_sync (syncd d')"
  using assms
proof (induction k arbitrary: n d l)
  case 0
  obtain ms l1 where i: "sync_iter (q n) d l = (let (d, l) = sync_count h d l1 in Again (no_file d) l ms)"
      "last_queryed l1 = last_queryed l" "query_reps l1 = query_reps l"
    using sync_iter_missing [OF 0(1), of "q n" l] 0(2) by metis
  let ?c = "daemon_clear (d\<lparr>syncd := (syncd d)\<lparr>tail := hash_set 0, cur := hash_set 0, head := hash_set 0\<rparr>\<rparr>)"
  have s: "syncd ?c = (syncd d)\<lparr>tail := hash_set 0, cur := hash_set 0, head := hash_set 0\<rparr>"
    by (simp add: daemon_clear_def set_last_block_imported_def write_file_def Let_def)
  have "sync_count h d l1 = (?c, l1\<lparr>query_reps := 0\<rparr>)" using 0(3,4) i(2,3) by (simp add: sync_count_def Let_def)
  then have "sync_iter (q n) d l = Again (no_file ?c) (l1\<lparr>query_reps := 0\<rparr>) ms" using i(1) by simp
  then have "sync_loop q n d l = sync_loop q (Suc n) (no_file ?c) (l1\<lparr>query_reps := 0\<rparr>)" by (subst sync_loop.simps) simp
  also have "\<dots> = Some (no_file ?c, l1\<lparr>query_reps := 0\<rparr>)" by (rule cleared_breaks) (simp add: s)
  finally have l: "sync_loop q n d l = Some (no_file ?c, l1\<lparr>query_reps := 0\<rparr>)" .
  have "last_block_imported (no_file ?c) = hash_zero" "auth (no_file ?c) = auth_clear (auth d)" "cash (no_file ?c) = cash_clear (cash d)"
    by (simp_all add: no_file_def daemon_clear_def set_last_block_imported_def write_file_def hash_set_def hash_zero_def Let_def)
  moreover have "in_sync (syncd (no_file ?c))" by (simp add: s in_sync_def)
  ultimately show ?case using l by blast
next
  case (Suc k)
  obtain ms l1 where i: "sync_iter (q n) d l = (let (d, l) = sync_count h d l1 in Again (no_file d) l ms)"
      "last_queryed l1 = last_queryed l" "query_reps l1 = query_reps l"
    using sync_iter_missing [OF Suc.prems(1), of "q n" l] Suc.prems(2) by metis
  let ?l = "l1\<lparr>query_reps := query_reps l1 - 1\<rparr>"
  have "sync_count h d l1 = (d, ?l)" using Suc.prems(3,4) i(2,3) by (simp add: sync_count_def Let_def)
  then have e: "sync_loop q n d l = sync_loop q (Suc n) (no_file d) ?l" using i(1) by (subst sync_loop.simps) simp
  have "auth (no_file d) = auth d" "cash (no_file d) = cash d" by (simp_all add: no_file_def)
  then show ?case
    unfolding e using Suc.IH [of "no_file d" ?l "Suc n"] Suc.prems i(2,3) by (simp add: missing_no_file)
qed

section \<open>Properties\<close>

text \<open>
  C3. A node that is restarted recovers: on files that hold a chain of blocks from the first one to the one in
  the file \<open>head\<close>, the loop of the synchronising thread ends, whatever chance and network would answer to a
  query, and the node is in sync, at that block, with the ledger that importing the saved blocks
  one after another gives.
\<close>

theorem restart_recovers:
  assumes "d = load_head (daemon0 k hm fs)" "\<forall>b \<in> set bs. stored e d b" "linked e hash_zero bs"
    and "distinct (hash_zero # hashes e bs)" "fs (head_file d) = Some (show_hash (last (hash_zero # hashes e bs)) @ ''\<newline>'')"
    and "import_all e (map norm_diff bs) d = Some d'"
  shows "\<exists>d1 l1 d2. sync_loop q 0 d sync_locals0 = Some (d1, l1) \<and> sync_finish e d1 l1 = Some d2 \<and> auth d2 = auth d'
    \<and> cash d2 = cash d' \<and> last_block_imported d2 = last (hash_zero # hashes e bs) \<and> in_sync (syncd d2)"
proof (cases "bs = []")
  case True
  have d: "d = (daemon0 k hm fs)\<lparr>syncd := update_head_tail hash_zero hash_zero syncd0, chaininfo_tip := hash_zero\<rparr>"
    using load_head_fresh [OF assms(1), of hash_zero] assms(5) True by simp
  then have "sync_iter (q 0) d sync_locals0 = Break" by (simp add: sync_iter_def update_head_tail_def)
  then have "sync_loop q 0 d sync_locals0 = Some (d, sync_locals0)" by (subst sync_loop.simps) simp
  moreover have "evidences_on_hold d = []" "in_sync (syncd d)" "last_block_imported d = hash_zero"
    by (simp_all add: d daemon0_def in_sync_def update_head_tail_def)
  ultimately show ?thesis
    using assms(6) True by (simp add: sync_finish_def sync_apply_def sync_locals0_def on_sync_empty)
next
  case False
  have d: "d = (daemon0 k hm fs)\<lparr>syncd := update_head_tail (last (hashes e bs)) hash_zero syncd0, chaininfo_tip := last (hashes e bs)\<rparr>"
    using load_head_fresh [OF assms(1), of "last (hashes e bs)"] assms(5) False by simp
  have "\<exists>d1 l1 s2. sync_loop q 0 d sync_locals0 = Some (d1, l1) \<and> sync_finish e d1 l1 = Some (d'\<lparr>syncd := s2\<rparr>) \<and> in_sync s2"
    using False assms(2-4,6) by (intro sync_chain [where t = hash_zero and sb = syncd0]) (simp_all add: d daemon0_def)
  moreover have "last_block_imported d' = last (hashes e bs)"
    using import_all_last [OF assms(6)] False unfolding hashes_norm [OF assms(2)] by simp
  ultimately show ?thesis using False by fastforce
qed

definition saved_files :: "string \<rightharpoonup> string" where
  "saved_files = files (set_last_block_imported (fst (diff_hash (replicate 64 0) diff0)) (save toy_env diff0 toy_daemon))"

theorem restart_recovers_witness:
  "\<exists>d1 l1 d2. sync_loop (\<lambda>n. (\<lambda>m. 0, \<lambda>p. False)) 0 (load_head (daemon0 (toy_pair (replicate 32 1)) ''/h'' saved_files)) sync_locals0
      = Some (d1, l1)
    \<and> sync_finish toy_env d1 l1 = Some d2 \<and> last_block_imported d2 = fst (diff_hash (replicate 64 0) diff0) \<and> in_sync (syncd d2)"
proof -
  let ?h = "fst (diff_hash (replicate 64 0) diff0)"
  define d where "d = load_head (daemon0 (toy_pair (replicate 32 1)) ''/h'' saved_files)"
  have hm: "home d = ''/h''" "home toy_daemon = ''/h''" by (simp_all add: d_def load_head_def Let_def daemon0_def toy_daemon_def)
  then have f: "block_file d h = block_file toy_daemon h" "head_file d = head_file toy_daemon" for h
    using file_home [of d toy_daemon] by simp_all
  have j: "e_jbuf toy_env = replicate 64 0" by (simp add: toy_env_def)
  have fs: "saved_files (head_file d) = Some (show_hash ?h @ ''\<newline>'')" "saved_files (block_file d ?h) = Some (diff_to_stream diff0)"
    using f hm file_home [of "save toy_env diff0 toy_daemon" toy_daemon] file_home [of "(save toy_env diff0 toy_daemon)\<lparr>last_block_imported := ?h\<rparr>" toy_daemon]
    by (simp_all add: saved_files_def set_last_block_imported_def save_def write_file_def j Let_def)
  have fd: "files d = saved_files" by (simp add: d_def load_head_def Let_def daemon0_def)
  have lb: "last_block_imported d = hash_zero" by (simp add: d_def load_head_def Let_def daemon0_def)
  have n: "norm_diff diff0 = diff0" "prev diff0 = hash_zero" "dapps diff0 = []" "hash_cached diff0 = None"
    by (simp_all add: norm_diff_def diff0_def norm_apps_def om_empty_def)
  have "wf_diff diff0" by (simp add: wf_diff_def diff0_def om_empty_def)
  then have st: "\<forall>b \<in> set [diff0]. stored toy_env d b" using fs(2) n(4) by (simp add: stored_def j fd)
  have lk: "linked toy_env hash_zero [diff0]" "distinct (hash_zero # hashes toy_env [diff0])"
    using n(2) diff0_hash_not_zero [of "replicate 64 0"] by (auto simp: j)
  have hd: "saved_files (head_file d) = Some (show_hash (last (hash_zero # hashes toy_env [diff0])) @ ''\<newline>'')"
    using fs(1) by (simp add: j)
  obtain d' where d': "import_all toy_env (map norm_diff [diff0]) d = Some d'" by (simp add: n import_def lb)
  show ?thesis using restart_recovers [OF d_def st lk hd d', of "\<lambda>n. (\<lambda>m. 0, \<lambda>p. False)"] unfolding d_def by (auto simp: j)
qed

text \<open>
  C33. A block nobody delivers does not stop the node for ever: if the file of the next block never arrives, although
  the queries for it are sent, the inner loop ends with the data base reset to the first block
  and the node in sync there.
\<close>

theorem missing_block_resets:
  assumes "missing h d" "\<forall>n. snd (q n) = (\<lambda>_. True)"
  shows "\<exists>d' l'. sync_loop q 0 d sync_locals0 = Some (d', l') \<and> last_block_imported d' = hash_zero
    \<and> auth d' = auth_clear (auth d) \<and> cash d' = cash_clear (cash d) \<and> in_sync (syncd d')"
proof -
  obtain ms l1 where i: "sync_iter (q 0) d sync_locals0 = (let (d, l) = sync_count h d l1 in Again (no_file d) l ms)"
      "last_queryed l1 = last_queryed sync_locals0" "query_reps l1 = query_reps sync_locals0"
    using sync_iter_missing [OF assms(1), of "q 0" sync_locals0] assms(2) by metis
  let ?l = "l1\<lparr>last_queryed := h, query_reps := 100\<rparr>"
  have "h \<noteq> hash_zero" using assms(1) by (simp add: missing_def)
  then have "sync_count h d l1 = (d, ?l)" using i(2) by (auto simp: sync_count_def sync_locals0_def)
  then have e: "sync_loop q 0 d sync_locals0 = sync_loop q (Suc 0) (no_file d) ?l" using i(1) by (subst sync_loop.simps) simp
  have m: "missing h (no_file d)" using assms(1) by (simp add: missing_no_file)
  have "auth (no_file d) = auth d" "cash (no_file d) = cash d" by (simp_all add: no_file_def)
  then show ?thesis unfolding e using sync_countdown [OF m assms(2), of ?l 99 "Suc 0"] by simp
qed

theorem missing_block_resets_witness:
  "\<exists>d' l'. sync_loop (\<lambda>n. (\<lambda>m. 0, \<lambda>p. True)) 0 (toy_daemon\<lparr>syncd := update_head_tail (hash_set 7) (hash_set 0) syncd0,
       peers := [\<lparr>pid = 1, stage = Node, in_service = True, peer_pub = pub_new []\<rparr>]\<rparr>) sync_locals0 = Some (d', l')
    \<and> last_block_imported d' = hash_zero"
proof -
  let ?d = "toy_daemon\<lparr>syncd := update_head_tail (hash_set 7) (hash_set 0) syncd0,
       peers := [\<lparr>pid = 1, stage = Node, in_service = True, peer_pub = pub_new []\<rparr>]\<rparr>"
  have "missing (hash_set 7) ?d"
    by (simp add: missing_def update_head_tail_def get_people_def get_prev_def file_exists_def hash_set_def hash_zero_def)
      (simp add: toy_daemon_def daemon0_def)
  from missing_block_resets [OF this, of "\<lambda>n. (\<lambda>m. 0, \<lambda>p. True)"] show ?thesis by auto
qed

end
