(* ===== verification/Engine.thy ===== *)
theory Engine
  imports Sync
begin

text \<open>
  The engine: the four stages of a cycle and the handlers of incoming datagrams of \<open>src/gov/engine/daemon.cpp\<close>, the
  clock of the cycle (\<open>cycle.{h,cpp}\<close>), and the dispatch of datagrams through the layers (\<open>networking.cpp\<close>, \<open>src/gov/dfs/daemon.cpp\<close>,
  \<open>src/gov/relay/daemon.cpp\<close>, \<open>src/gov/socket/daemon.cpp\<close>). The last part is the node as a transition system: what its
  threads do in any order.

  A handler returns the new state and the datagrams it sends, with the numbers of the peers they go to; \<open>None\<close> is the end of the process.
\<close>

section \<open>The cycle\<close>

datatype cycle_stage = New_Cycle | Local_Deltas_Io | Sync_Db | Consensus_Vote_Tip_Io

fun stage_second :: "cycle_stage \<Rightarrow> nat" where
  "stage_second New_Cycle = 0"
| "stage_second Local_Deltas_Io = 10"
| "stage_second Sync_Db = 20"
| "stage_second Consensus_Vote_Tip_Io = 40"

text \<open>\<open>get_stage\<close>, from the second within the minute.\<close>

definition cycle_get_stage :: "nat \<Rightarrow> cycle_stage" where
  "cycle_get_stage sec =
     (if sec < stage_second Local_Deltas_Io then New_Cycle
      else if sec < stage_second Consensus_Vote_Tip_Io then Local_Deltas_Io
      else if sec < stage_second Sync_Db then Sync_Db
      else Consensus_Vote_Tip_Io)"

text \<open>\<open>wait_for_stage\<close>: how long it sleeps; the loop adds minutes until the time is not past.\<close>

function next_boundary :: "nat \<Rightarrow> nat \<Rightarrow> nat" where
  "next_boundary s n = (if s > n then next_boundary s (n + 60) else n)"
  by pat_completeness auto
termination by (relation "measure (\<lambda>(s, n). s - n)") auto

declare next_boundary.simps [simp del]

definition sleep_seconds :: "nat \<Rightarrow> cycle_stage \<Rightarrow> nat" where
  "sleep_seconds s st = next_boundary s (stage_second st) - s"

section \<open>Votes\<close>

definition my_hash :: "env \<Rightarrow> daemon \<Rightarrow> hash_t \<times> daemon" where
  "my_hash e d =
     (let (h, k) = pub_get_hash (e_lib e) (e_jbuf e) (pub (id_keys d)) in (h, d\<lparr>id_keys := (id_keys d)\<lparr>pub := k\<rparr>\<rparr>))"

definition my_stage_d :: "env \<Rightarrow> daemon \<Rightarrow> stage_t \<times> daemon" where
  "my_stage_d e d =
     (let (k, pk) = pub_get_hash (e_lib e) (e_jbuf e) (node_pubkey (auth d));
          (st, a) = my_stage k ((auth d)\<lparr>node_pubkey := pk\<rparr>)
      in (st, d\<lparr>auth := a\<rparr>))"

definition vote_text :: "env \<Rightarrow> hash_t \<Rightarrow> keys_t \<Rightarrow> string option" where
  "vote_text e h k =
     map_option (\<lambda>sg. show_hash h @ '' '' @ show_pub (e_lib e) (pub k) @ '' '' @ sg)
       (sign_encode (e_lib e) (e_jbuf e) (priv k) (show_hash h))"

definition send_all :: "nat list \<Rightarrow> u16 \<Rightarrow> string \<Rightarrow> msgs option" where
  "send_all ns svc s =
     (if ns = [] then Some []
      else case datagram_str svc s of None \<Rightarrow> None | Some g \<Rightarrow> Some (map (\<lambda>n. (n, g)) ns))"

definition vote_tip :: "env \<Rightarrow> diff \<Rightarrow> daemon \<Rightarrow> (daemon \<times> msgs) option" where
  "vote_tip e b d =
     (let h = fst (diff_hash (e_jbuf e) b);
          (k, d) = my_hash e d;
          d = d\<lparr>votes := snd (votes_add (e_vplace e) k h (votes d))\<rparr>
      in case vote_text e h (id_keys d) of
           None \<Rightarrow> None
         | Some m \<Rightarrow> map_option (\<lambda>ms. (d, ms)) (send_all (get_people d) svc_vote_tip m))"

definition process_vote_tip :: "env \<Rightarrow> nat \<Rightarrow> string \<Rightarrow> daemon \<Rightarrow> (daemon \<times> msgs) option" where
  "process_vote_tip e c s d =
     (let (block_hash_b58, is) = read_string (istr s);
          (k, is) = read_pub (e_lib e) (pub_new (e_jkey e)) is;
          (signature, is) = read_string is
      in if \<not> verify_text (e_lib e) (e_jbuf e) k block_hash_b58 signature then Some (d, [])
         else let (new, v) = votes_add (e_vplace e) (fst (pub_get_hash (e_lib e) (e_jbuf e) k)) (hash_from_b58 block_hash_b58) (votes d);
                  d = d\<lparr>votes := v\<rparr>
              in if \<not> new then Some (d, [])
                 else let (st, d) = my_stage_d e d
                      in if st \<noteq> Node then Some (d, [])
                         else map_option (\<lambda>ms. (d, ms)) (send_all (filter (\<lambda>n. n \<noteq> c) (get_people d)) svc_vote_tip s))"

section \<open>The stages\<close>

definition stage1 :: "env \<Rightarrow> daemon \<Rightarrow> (daemon \<times> msgs) option" where
  "stage1 e d =
     (case new_diff d of
        None \<Rightarrow> Some (d, [])
      | Some b \<Rightarrow>
          (let (st, d) = my_stage_d e d
           in if st \<noteq> Node then Some (d, [])
              else vote_tip e b (d\<lparr>new_diff := Some (snd (diff_hash (e_jbuf e) b))\<rparr>)))"

definition stage2 :: "env \<Rightarrow> daemon \<Rightarrow> daemon option" where
  "stage2 e d =
     (case votes_select (votes d) of
        None \<Rightarrow> None
      | Some (tip, v) \<Rightarrow>
          (let d = d\<lparr>votes := v, chaininfo_tip := tip\<rparr>
           in if \<not> hash_is_zero tip then eat_diff e tip d else Some d))"

text \<open>Every application has something to say, so that the map is never empty.\<close>

definition create_local_deltas :: "env \<Rightarrow> daemon \<Rightarrow> (local_deltas \<times> daemon) option" where
  "create_local_deltas e d =
     (let (al, a) = auth_create_local_delta (auth d);
          (cl, c) = create_local_delta (cash d);
          mg = \<lparr>ldapps = om_emplace cash_id (CashLocal cl) (om_emplace auth_id (AuthLocal al) om_empty),
                lpub = pub_new (e_jkey e), lsig = []\<rparr>;
          d = retrieve_evidences (d\<lparr>auth := a, cash := c\<rparr>)
      in case ld_sign (e_lib e) (e_jbuf e) (id_keys d) mg of
           None \<Rightarrow> None
         | Some mg \<Rightarrow> Some (mg, d))"

definition send_local_deltas :: "env \<Rightarrow> local_deltas \<Rightarrow> nat list \<Rightarrow> msgs option" where
  "send_local_deltas e g ns =
     (case ld_to_stream (e_lib e) g of
        None \<Rightarrow> None
      | Some s \<Rightarrow> (case datagram_str svc_local_deltas s of None \<Rightarrow> None | Some x \<Rightarrow> Some (map (\<lambda>n. (n, x)) ns)))"

text \<open>The mempool of the network may still be missing: \<open>None\<close>.\<close>

definition pool_allow :: "env \<Rightarrow> local_deltas \<Rightarrow> daemon \<Rightarrow> (bool \<times> daemon) option" where
  "pool_allow e g d =
     (case mpool d of
        None \<Rightarrow> None
      | Some p \<Rightarrow> (let (ok, p) = diff_allow (key_hash (e_lib e) (e_jbuf e) (lpub g)) p in Some (ok, d\<lparr>mpool := Some p\<rparr>)))"

definition pool_add :: "env \<Rightarrow> local_deltas \<Rightarrow> daemon \<Rightarrow> daemon option" where
  "pool_add e g d =
     (case mpool d of
        None \<Rightarrow> None
      | Some p \<Rightarrow> map_option (\<lambda>p. d\<lparr>mpool := Some p\<rparr>) (diff_add (e_jbuf e) (key_hash (e_lib e) (e_jbuf e) (lpub g)) g p))"

definition stage3 :: "env \<Rightarrow> daemon \<Rightarrow> (bool \<times> daemon \<times> msgs) option" where
  "stage3 e d =
     (let (st, d) = my_stage_d e d
      in if st \<noteq> Node then Some (False, d, [])
         else if \<not> in_sync (syncd d) then Some (False, d, [])
         else case create_local_deltas e d of
                None \<Rightarrow> None
              | Some (mg, d) \<Rightarrow>
                  (case send_local_deltas e mg (get_nodes d) of
                     None \<Rightarrow> None
                   | Some ms \<Rightarrow>
                       (case pool_allow e mg d of
                          None \<Rightarrow> None
                        | Some (False, d) \<Rightarrow> Some (True, d, ms)
                        | Some (True, d) \<Rightarrow> map_option (\<lambda>d. (True, d, ms)) (pool_add e mg d))))"

definition stage4 :: "daemon \<Rightarrow> daemon option" where
  "stage4 d =
     (if new_diff d \<noteq> None then None
      else case mpool d of
             None \<Rightarrow> None
           | Some p \<Rightarrow> Some (d\<lparr>new_diff := Some ((end_adding p)\<lparr>prev := last_block_imported d\<rparr>), mpool := Some diff0\<rparr>))"

text \<open>What \<open>run\<close> does before its main loop: the pool, and the head found on disk.\<close>

definition start_up :: "daemon \<Rightarrow> daemon option" where
  "start_up d = (if mpool d \<noteq> None then None else Some (load_head (d\<lparr>mpool := Some diff0\<rparr>)))"

section \<open>Handlers\<close>

text \<open>Local deltas: the lock is released between the two halves, here one after the other.\<close>

definition incoming_check :: "env \<Rightarrow> string \<Rightarrow> daemon \<Rightarrow> (local_deltas option \<times> daemon) option" where
  "incoming_check e s d =
     (case ld_from_stream (e_lib e) (e_junk e) (e_jkey e) (istr s) of
        None \<Rightarrow> None
      | Some None \<Rightarrow> Some (None, d)
      | Some (Some g) \<Rightarrow>
          (if \<not> ld_verify (e_lib e) (e_jbuf e) g then Some (None, d)
           else case pool_allow e g d of
                  None \<Rightarrow> None
                | Some (ok, d) \<Rightarrow> Some (if ok then Some g else None, d)))"

definition incoming_add :: "env \<Rightarrow> nat \<Rightarrow> local_deltas \<Rightarrow> daemon \<Rightarrow> (daemon \<times> msgs) option" where
  "incoming_add e c g d =
     (case send_local_deltas e g (filter (\<lambda>n. n \<noteq> c) (get_nodes d)) of
        None \<Rightarrow> None
      | Some ms \<Rightarrow> map_option (\<lambda>d. (d, ms)) (pool_add e g d))"

definition process_incoming_local_deltas :: "env \<Rightarrow> nat \<Rightarrow> string \<Rightarrow> daemon \<Rightarrow> (daemon \<times> msgs) option" where
  "process_incoming_local_deltas e c s d =
     (case incoming_check e s d of
        None \<Rightarrow> None
      | Some (None, d) \<Rightarrow> Some (d, [])
      | Some (Some g, d) \<Rightarrow> incoming_add e c g d)"

definition process_query_block :: "nat \<Rightarrow> string \<Rightarrow> daemon \<Rightarrow> (daemon \<times> msgs) option" where
  "process_query_block c s d =
     (let content = load_block d s
      in if content = [] then Some (d, [])
         else map_option (\<lambda>ms. (d, ms)) (send_all [c] svc_block content))"

definition process_block :: "env \<Rightarrow> string \<Rightarrow> daemon \<Rightarrow> (daemon \<times> msgs) option" where
  "process_block e content d =
     (case diff_from_stream (e_junk e) (istr content) of
        None \<Rightarrow> None
      | Some None \<Rightarrow> Some (d, [])
      | Some (Some b) \<Rightarrow>
          (let f = block_file d (fst (diff_hash (e_jbuf e) b))
           in if file_exists d f then Some (d, [])
              else let d = write_file f content d in Some (d\<lparr>syncd := signal_file_arrived (syncd d)\<rparr>, [])))"

definition process_app_query :: "env \<Rightarrow> nat \<Rightarrow> datagram \<Rightarrow> daemon \<Rightarrow> (bool \<times> daemon \<times> msgs) option" where
  "process_app_query e c g d =
     (if service g = svc_cash_query
      then (case cash_query (e_jquery e) (cash d) (chaininfo_tip d) (parse_string g) of
              None \<Rightarrow> None
            | Some r \<Rightarrow> map_option (\<lambda>ms. (True, d, ms)) (send_all [c] svc_cash_response r))
      else Some (False, d, []))"

section \<open>Dispatch\<close>

text \<open>
  What becomes of a datagram: done, the peer is disconnected, nobody takes it, it belongs to the layers below
  (identification, ping), or it is a command for the shell of the operator.
\<close>

datatype fate = Done | Hang_Up | Not_Mine | Lower | To_Shell

definition engine_process_work :: "env \<Rightarrow> nat \<Rightarrow> stage_t \<Rightarrow> datagram \<Rightarrow> daemon \<Rightarrow> (fate \<times> daemon \<times> msgs) option" where
  "engine_process_work e c st g d =
     (let done = map_option (\<lambda>(d, ms). (Done, d, ms))
      in if service g = svc_query_block then done (process_query_block c (parse_string g) d)
         else if service g = svc_block then done (process_block e (parse_string g) d)
         else if service g = svc_vote_tip then done (process_vote_tip e c (parse_string g) d)
         else if service g = svc_local_deltas then done (process_incoming_local_deltas e c (parse_string g) d)
         else if service g = svc_sysop
         then Some (if st = Sysop \<and> sysop_allowed d then To_Shell else Hang_Up, d, [])
         else Some (Not_Mine, d, []))"

text \<open>
  \<open>dfs\<close> over \<open>relay\<close> over the layers below. Evidence that nobody takes has been deleted, and is looked at
  again to find its service; the two services of \<open>dfs\<close> are failed assertions.
\<close>

definition dfs_process_work :: "env \<Rightarrow> nat \<Rightarrow> nat \<Rightarrow> datagram \<Rightarrow> daemon \<Rightarrow> (fate \<times> daemon \<times> msgs) option" where
  "dfs_process_work e a c g d =
     (if is_evidence (service g)
      then (case relay_evidence e a c g d of
              (True, d, ms) \<Rightarrow> Some (Done, d, ms)
            | (False, d, ms) \<Rightarrow> None)
      else if e_lower e (service g) then Some (Lower, d, [])
      else if service g = file_request \<or> service g = file_response then None
      else Some (Not_Mine, d, []))"

definition process_work :: "env \<Rightarrow> nat \<Rightarrow> nat \<Rightarrow> stage_t \<Rightarrow> datagram \<Rightarrow> daemon \<Rightarrow> (fate \<times> daemon \<times> msgs) option" where
  "process_work e a c st g d =
     (case (if is_node_protocol (service g) then engine_process_work e c st g d else Some (Not_Mine, d, [])) of
        None \<Rightarrow> None
      | Some (Not_Mine, d, _) \<Rightarrow>
          (case (if is_app_query (service g) then process_app_query e c g d else Some (False, d, [])) of
             None \<Rightarrow> None
           | Some (True, d, ms) \<Rightarrow> Some (Done, d, ms)
           | Some (False, d, _) \<Rightarrow> dfs_process_work e a c g d)
      | Some r \<Rightarrow> Some r)"

text \<open>The worker thread hangs up on a peer whose datagram nobody takes.\<close>

definition receive_and_process :: "env \<Rightarrow> nat \<Rightarrow> nat \<Rightarrow> stage_t \<Rightarrow> datagram \<Rightarrow> daemon \<Rightarrow> (fate \<times> daemon \<times> msgs) option" where
  "receive_and_process e a c st g d =
     map_option (\<lambda>(r, d, ms). (if r = Not_Mine then Hang_Up else r, d, ms)) (process_work e a c st g d)"

end
