(* ===== verification/Reachable.thy ===== *)
theory Reachable
  imports Engine
begin

text \<open>
  The node as a transition system: datagrams arrive, the main loop goes through its stages, the synchronising thread and
  the evidence thread take their steps, peers come and go, in any order. The invariant of the reachable states says that
  every map is a map, every delta has the type of its application, and the calendar is sorted.
\<close>

section \<open>Well-formed data\<close>

fun local_ok :: "int \<Rightarrow> app_local_delta \<Rightarrow> bool" where
  "local_ok i (AuthLocal g) = (i = auth_id)"
| "local_ok i (CashLocal g) = (i = cash_id \<and> om_ok (accounts g))"

fun delta_ok :: "int \<Rightarrow> app_delta \<Rightarrow> bool" where
  "delta_ok i (AuthDelta g) = (i = auth_id)"
| "delta_ok i (CashDelta g) = (i = cash_id \<and> om_ok (accounts (dg g)) \<and> (\<forall>(x, n) \<in> set (dm g). om_ok (accounts x)))"

definition locals_ok :: "local_deltas \<Rightarrow> bool" where
  "locals_ok g \<longleftrightarrow> om_ok (ldapps g) \<and> (\<forall>(i, x) \<in> set (ldapps g). local_ok i x)"

definition diff_ok :: "diff \<Rightarrow> bool" where
  "diff_ok b \<longleftrightarrow> om_ok (dapps b) \<and> om_ok (proof_of_work b) \<and> (\<forall>(i, x) \<in> set (dapps b). delta_ok i x)"

definition env_ok :: "env \<Rightarrow> bool" where
  "env_ok e \<longleftrightarrow> placement (e_nplace e) \<and> placement (e_vplace e) \<and> placement (e_hplace e)"

definition daemon_ok :: "daemon \<Rightarrow> bool" where
  "daemon_ok d \<longleftrightarrow> auth_ok (auth d) \<and> cash_ok (cash d) \<and> um_ok (votes d) \<and> um_ok (evidences_on_hold d) \<and> calendar_ok (calendar d)
     \<and> (\<forall>b. new_diff d = Some b \<longrightarrow> diff_ok b) \<and> (\<exists>b. mpool d = Some b \<and> diff_ok b)"

section \<open>Reading and merging\<close>

lemma read_accounts_ok: "om_ok m \<Longrightarrow> om_ok (fst (read_accounts n m is))"
  by (induction n m "is" rule: read_accounts.induct) (auto simp: Let_def om_ok_emplace split: prod.splits)

lemma read_accounts_empty: "read_accounts n om_empty is = (m, is') \<Longrightarrow> om_ok m"
  using read_accounts_ok [of om_empty n "is"] by (simp add: om_empty_def)

lemma cash_local_ok: "cash_local_from_stream j is = Some (g, is') \<Longrightarrow> om_ok (accounts g)"
  by (auto simp: cash_local_from_stream_def Let_def split: prod.splits dest: read_accounts_empty)

lemma app_local_create_ok: "app_local_create j i is = Some (g, is') \<Longrightarrow> local_ok i g"
  using cash_local_ok by (fastforce simp: app_local_create_def split: if_splits)

lemma app_delta_create_ok: "app_delta_create j i is = Some (g, is') \<Longrightarrow> delta_ok i g"
  using cash_local_ok
  by (fastforce simp: app_delta_create_def cash_delta_from_stream_def Let_def split: if_splits option.splits prod.splits)

lemma emplace_entries: "set (om_emplace k v m) \<subseteq> insert (k, v) (set m)"
  using om_set_entries [of k v m] by (auto simp: om_emplace_def split: option.splits)

lemma read_apps_ok:
  assumes "\<And>i is x is'. create i is = Some (x, is') \<Longrightarrow> P i x"
  shows "read_apps create ji n m is = Some (m', is') \<Longrightarrow> om_ok m \<Longrightarrow> \<forall>(i, x) \<in> set m. P i x \<Longrightarrow>
    om_ok m' \<and> (\<forall>(i, x) \<in> set m'. P i x)"
proof (induction n arbitrary: m "is")
  case (Suc n)
  obtain i i1 where i: "read_int ji is = (i, i1)" by (cases "read_int ji is")
  obtain x i2 where x: "create i i1 = Some (x, i2)" "read_apps create ji n (om_emplace i x m) i2 = Some (m', is')"
    using Suc.prems(1) by (auto simp: i split: option.splits)
  have "\<forall>(i, x) \<in> set (om_emplace i x m). P i x" using Suc.prems(3) assms [OF x(1)] emplace_entries [of i x m] by blast
  then show ?case using Suc.IH [OF x(2)] om_ok_emplace [OF Suc.prems(2)] by blast
qed simp

lemma read_locals_ok:
  "read_apps (app_local_create j) ji n om_empty is = Some (m, is') \<Longrightarrow> om_ok m \<and> (\<forall>(i, x) \<in> set m. local_ok i x)"
  using read_apps_ok [where create = "app_local_create j" and P = local_ok, OF app_local_create_ok] by (fastforce simp: om_empty_def)

lemma read_deltas_ok:
  "read_apps (app_delta_create j) ji n om_empty is = Some (m, is') \<Longrightarrow> om_ok m \<and> (\<forall>(i, x) \<in> set m. delta_ok i x)"
  using read_apps_ok [where create = "app_delta_create j" and P = delta_ok, OF app_delta_create_ok] by (fastforce simp: om_empty_def)

lemma ld_from_stream_ok: "ld_from_stream lb j jk is = Some (Some g) \<Longrightarrow> locals_ok g"
  by (auto simp: ld_from_stream_def locals_ok_def Let_def split: prod.splits if_splits option.splits dest!: read_locals_ok)

lemma read_pow_ok: "om_ok m \<Longrightarrow> om_ok (fst (read_pow jw n m is))"
  by (induction jw n m "is" rule: read_pow.induct) (auto simp: Let_def om_ok_emplace split: prod.splits)

lemma diff_from_stream_ok: "diff_from_stream j is = Some (Some b) \<Longrightarrow> diff_ok b"
  using read_pow_ok [OF om_ok_Nil]
  by (auto simp: diff_from_stream_def diff_ok_def Let_def om_empty_def split: prod.splits if_splits option.splits
      dest!: read_deltas_ok [unfolded om_empty_def])

lemma majority_merge_entries: "fst ` set (majority_merge eqv m x) \<subseteq> insert x (fst ` set m)"
  by (induction eqv m x rule: majority_merge.induct) auto

lemma majority_loop_entry: "majority_loop m x z = (Some y, z') \<Longrightarrow> x = Some y \<or> y \<in> fst ` set m"
  by (induction m x z rule: majority_loop.induct) (auto split: if_splits)

lemma majority_end_entry: "fst (majority_end_merge zero m) \<in> insert zero (fst ` set m)"
  using majority_loop_entry [of m None 0]
  by (cases "majority_loop m None 0") (auto simp: majority_end_merge_def split: option.splits)

lemma delta_merge_ok: "delta_ok i (CashDelta d) \<Longrightarrow> om_ok (accounts g) \<Longrightarrow> delta_ok i (CashDelta (delta_merge jb d g))"
  using majority_merge_entries [of "ld_same jb" "dm d" g]
  by (fastforce simp: delta_merge_def Let_def policies_merge_def)

lemma delta_end_merge_ok: "delta_ok i (CashDelta d) \<Longrightarrow> delta_ok i (CashDelta (delta_end_merge d))"
  using majority_end_entry [of local_delta0 "dm d"]
  by (auto simp: delta_end_merge_def Let_def local_delta0_def om_empty_def majority_end_merge_def split: prod.splits)

lemma delta_ok_cash: "delta_ok i (CashDelta d) \<Longrightarrow> i = cash_id"
  by simp

lemma app_merge_ok: "delta_ok i x \<Longrightarrow> local_ok i g \<Longrightarrow> \<exists>y. app_merge jb x g = Some y \<and> delta_ok i y"
  by (cases x; cases g)
    (auto simp: auth_id_def cash_id_def simp del: delta_ok.simps(2) dest: delta_ok_cash delta_merge_ok)

lemma app_end_merge_ok: "delta_ok i x \<Longrightarrow> delta_ok i (app_end_merge x)"
  using delta_end_merge_ok by (cases x) auto

lemma delta_new_ok: "local_ok i g \<Longrightarrow> \<exists>x. app_delta_new i = Some x \<and> delta_ok i x"
  by (cases g) (auto simp: app_delta_new_def delta0_def local_delta0_def om_empty_def auth_id_def cash_id_def)

lemma diff_add_one_ok:
  assumes "om_ok m" "\<forall>(i, x) \<in> set m. delta_ok i x" "local_ok i g"
  shows "\<exists>m'. diff_add_one jb m (i, g) = Some m' \<and> om_ok m' \<and> (\<forall>(i, x) \<in> set m'. delta_ok i x)"
proof -
  obtain x where x: "(case om_find m i of Some a \<Rightarrow> Some a | None \<Rightarrow> app_delta_new i) = Some x" "delta_ok i x"
    using assms(2) delta_new_ok [OF assms(3)] by (cases "om_find m i") (auto simp: om_find_def dest!: map_of_SomeD)
  obtain y where y: "app_merge jb x g = Some y" "delta_ok i y" using app_merge_ok [OF x(2) assms(3)] by blast
  then show ?thesis
    using x(1) assms(1,2) om_ok_set [OF assms(1)] om_set_entries [of i y m] by (auto simp: diff_add_one_def)
qed

lemma diff_add_all_ok:
  "om_ok m \<Longrightarrow> \<forall>(i, x) \<in> set m. delta_ok i x \<Longrightarrow> \<forall>(i, g) \<in> set gs. local_ok i g \<Longrightarrow>
   \<exists>m'. diff_add_all jb m gs = Some m' \<and> om_ok m' \<and> (\<forall>(i, x) \<in> set m'. delta_ok i x)"
proof (induction gs arbitrary: m)
  case (Cons x gs)
  obtain i g where x: "x = (i, g)" by (cases x)
  obtain m' where "diff_add_one jb m (i, g) = Some m'" "om_ok m'" "\<forall>(i, x) \<in> set m'. delta_ok i x"
    using diff_add_one_ok [OF Cons.prems(1,2), of i g jb] Cons.prems(3) by (auto simp: x)
  then show ?case using Cons.IH [of m'] Cons.prems(3) by (simp add: x)
qed simp

lemma diff_add_ok: "diff_ok p \<Longrightarrow> locals_ok g \<Longrightarrow> diff_add jb k g p = Some p' \<Longrightarrow> diff_ok p'"
  using diff_add_all_ok [of "dapps p" "ldapps g" jb] om_ok_set [of "proof_of_work p" k 0]
  by (auto simp: diff_add_def diff_ok_def locals_ok_def split: option.splits)

lemma diff_allow_ok: "diff_ok p \<Longrightarrow> diff_ok (snd (diff_allow k p))"
  by (auto simp: diff_allow_def diff_ok_def om_ok_emplace split: option.splits)

lemma end_adding_ok: "diff_ok p \<Longrightarrow> diff_ok (end_adding p)"
  using app_end_merge_ok by (auto simp: diff_ok_def end_adding_def om_ok_norm)

lemma diff0_ok: "diff_ok diff0"
  by (simp add: diff_ok_def diff0_def om_empty_def)

section \<open>What the operations keep\<close>

lemma import_rewards_ok: "om_ok (db_accounts d) \<Longrightarrow> om_ok (db_accounts (import_rewards n fs w d))"
proof (cases "w = []")
  case False
  assume ok: "om_ok (db_accounts d)"
  obtain c d1 where c: "get_newcash d = (c, d1)" by (cases "get_newcash d")
  have d1: "db_accounts d1 = db_accounts d" using c by (auto simp: get_newcash_def Let_def split: if_splits)
  obtain m paid where m: "pay_shares (wrap64 (c + fs)) w (db_accounts d1) = (m, paid)"
    by (cases "pay_shares (wrap64 (c + fs)) w (db_accounts d1)")
  have "om_ok m" using pay_shares_ok [OF _ m] ok d1 by simp
  then show ?thesis using False by (simp add: import_rewards_def c m pay_ok Let_def)
qed (simp add: import_rewards_def)

lemma import_accounts_ok: "om_ok d \<Longrightarrow> om_ok (foldl import_account d as)"
  by (induction as arbitrary: d) (simp_all add: import_account_ok)

lemma cash_import_ok: "cash_ok app \<Longrightarrow> cash_ok (cash_import n app g w)"
  by (simp add: cash_ok_def cash_import_def Let_def import_rewards_ok import_accounts_ok)

lemma clear_ok: "auth_ok (auth_clear a)" "cash_ok c \<Longrightarrow> cash_ok (cash_clear c)"
  by (simp_all add: auth_ok_def auth_clear_def um_ok_def cash_ok_def cash_clear_def db_clear_def om_empty_def)

lemma import_app_ok:
  assumes "env_ok e" "daemon_ok d" "import_app e w d x = Some d'"
  shows "daemon_ok d'"
proof -
  obtain i y where x: "x = (i, y)" by (cases x)
  have a: "auth_ok a" if "auth_import (e_nplace e) (e_draws e) (chaininfo_lbi d) (auth d) g = Some a" for g a
    using auth_import_effect [OF _ _ that] assms(1,2) by (simp add: env_ok_def daemon_ok_def)
  show ?thesis
    using assms(2,3) cash_import_ok by (auto simp: x import_app_def daemon_ok_def update_peers_state_def
        split: if_splits app_delta.splits option.splits dest: a)
qed

lemma import_apps_ok: "env_ok e \<Longrightarrow> daemon_ok d \<Longrightarrow> import_apps e w d xs = Some d' \<Longrightarrow> daemon_ok d'"
  by (induction xs arbitrary: d) (auto split: option.splits dest: import_app_ok)

lemma frame_ok:
  "daemon_ok (write_file f c d) = daemon_ok d" "daemon_ok (remove_file f d) = daemon_ok d"
  "daemon_ok (set_last_block_imported h d) = daemon_ok d" "daemon_ok (d\<lparr>syncd := s\<rparr>) = daemon_ok d"
  "daemon_ok (d\<lparr>peers := ps\<rparr>) = daemon_ok d" "daemon_ok (d\<lparr>chaininfo_lbi := h\<rparr>) = daemon_ok d" "daemon_ok (save e b d) = daemon_ok d"
  "daemon_ok (d\<lparr>evidences := ev\<rparr>) = daemon_ok d" "daemon_ok (d\<lparr>id_keys := ks\<rparr>) = daemon_ok d"
  by (simp_all add: daemon_ok_def write_file_def remove_file_def set_last_block_imported_def save_def Let_def)

lemma import_ok: "env_ok e \<Longrightarrow> daemon_ok d \<Longrightarrow> import e b d = Some (r, d') \<Longrightarrow> daemon_ok d'"
  using import_apps_ok [of e "d\<lparr>chaininfo_lbi := last_block_imported d\<rparr>"]
  by (auto simp: import_def frame_ok split: if_splits option.splits)

lemma daemon_clear_ok: "daemon_ok d \<Longrightarrow> daemon_ok (daemon_clear d)"
  by (simp add: daemon_clear_def frame_ok) (simp add: daemon_ok_def clear_ok)

lemma patch_loop_ok: "env_ok e \<Longrightarrow> daemon_ok d \<Longrightarrow> patch_loop e ps d = Some (r, d') \<Longrightarrow> daemon_ok d'"
proof (induction ps arbitrary: d)
  case (Cons h ps)
  then show ?case
    by (auto simp: frame_ok split: option.splits if_splits prod.splits bool.splits dest: import_ok)
qed simp

lemma patch_db_ok: "env_ok e \<Longrightarrow> daemon_ok d \<Longrightarrow> patch_db e ps d = Some (r, d') \<Longrightarrow> daemon_ok d'"
  by (auto simp: patch_db_def frame_ok split: option.splits prod.splits bool.splits dest: patch_loop_ok)

lemma new_diff_ok:
  "daemon_ok d \<Longrightarrow> daemon_ok (d\<lparr>new_diff := None\<rparr>)" "daemon_ok d \<Longrightarrow> diff_ok b \<Longrightarrow> daemon_ok (d\<lparr>new_diff := Some b\<rparr>)"
  by (simp_all add: daemon_ok_def)

lemma eat_diff_ok:
  assumes "env_ok e" "daemon_ok d" "eat_diff e tip d = Some d'"
  shows "daemon_ok d'"
proof (cases "new_diff d")
  case None
  then show ?thesis using assms by (auto simp: eat_diff_def frame_ok)
next
  case (Some b)
  obtain h b1 where h: "diff_hash (e_jbuf e) b = (h, b1)" by (cases "diff_hash (e_jbuf e) b")
  obtain d1 where d1: "(if hash_eq tip h then (case import e b1 (save e b1 d) of None \<Rightarrow> None
        | Some (ok, d) \<Rightarrow> Some (if ok then d else daemon_clear d)) else Some d) = Some d1"
      "d' = d1\<lparr>new_diff := None\<rparr>\<lparr>syncd := update_head_tail tip (last_block_imported d1) (syncd d1)\<rparr>"
    using assms(3) h by (auto simp: eat_diff_def Some)
  have "daemon_ok d1"
    using d1(1) assms(1,2) daemon_clear_ok import_ok [of e "save e b1 d" b1]
    by (fastforce simp: frame_ok split: if_splits option.splits)
  then show ?thesis unfolding d1(2) by (simp add: frame_ok new_diff_ok)
qed

lemma votes_ok: "env_ok e \<Longrightarrow> daemon_ok d \<Longrightarrow> daemon_ok (d\<lparr>votes := snd (votes_add (e_vplace e) k h (votes d))\<rparr>)"
  using election.vote_ok [OF votes_election, of "e_vplace e" "votes d" k h] by (simp add: env_ok_def daemon_ok_def)

lemma select_ok: "votes_select m = Some (tip, v) \<Longrightarrow> um_ok m \<Longrightarrow> um_ok v"
  by (auto simp: votes_select_def um_ok_def split: if_splits)

lemma stage2_ok:
  assumes "env_ok e" "daemon_ok d" "stage2 e d = Some d'"
  shows "daemon_ok d'"
proof -
  obtain tip v where v: "votes_select (votes d) = Some (tip, v)" using assms(3) by (auto simp: stage2_def split: option.splits)
  let ?d = "d\<lparr>votes := v, chaininfo_tip := tip\<rparr>"
  have "daemon_ok ?d" using assms(2) select_ok [OF v] by (simp add: daemon_ok_def)
  then show ?thesis using eat_diff_ok [OF assms(1), of ?d tip d'] assms(3) v by (auto simp: stage2_def Let_def split: if_splits)
qed

lemma my_stage_d_ok: "my_stage_d e d = (st, d') \<Longrightarrow> daemon_ok d \<Longrightarrow> daemon_ok d'"
  by (auto simp: my_stage_d_def my_stage_def daemon_ok_def auth_ok_def Let_def split: prod.splits)

lemma my_stage_d_frame: "my_stage_d e d = (st, d') \<Longrightarrow> \<exists>a. d' = d\<lparr>auth := a\<rparr>"
  by (auto simp: my_stage_d_def Let_def split: prod.splits)

lemma vote_tip_ok:
  assumes "env_ok e" "daemon_ok d" "vote_tip e b d = Some (d', ms)"
  shows "daemon_ok d'"
proof -
  obtain k d1 where k: "my_hash e d = (k, d1)" by (cases "my_hash e d")
  have "daemon_ok d1" using k assms(2) by (auto simp: my_hash_def frame_ok Let_def split: prod.splits)
  then show ?thesis
    using votes_ok [OF assms(1)] assms(3) by (auto simp: vote_tip_def k Let_def split: option.splits)
qed

lemma process_vote_tip_ok:
  assumes "env_ok e" "daemon_ok d" "process_vote_tip e c s d = Some (d', ms)"
  shows "daemon_ok d'"
proof -
  obtain t i1 where 1: "read_string (istr s) = (t, i1)" by (cases "read_string (istr s)")
  obtain k i2 where 2: "read_pub (e_lib e) (pub_new (e_jkey e)) i1 = (k, i2)" by (cases "read_pub (e_lib e) (pub_new (e_jkey e)) i1")
  obtain sg i3 where 3: "read_string i2 = (sg, i3)" by (cases "read_string i2")
  obtain new v where v: "votes_add (e_vplace e) (fst (pub_get_hash (e_lib e) (e_jbuf e) k)) (hash_from_b58 t) (votes d) = (new, v)"
    by (cases "votes_add (e_vplace e) (fst (pub_get_hash (e_lib e) (e_jbuf e) k)) (hash_from_b58 t) (votes d)")
  have ok: "daemon_ok (d\<lparr>votes := v\<rparr>)" using votes_ok [OF assms(1,2), of "fst (pub_get_hash (e_lib e) (e_jbuf e) k)" "hash_from_b58 t"] v by simp
  obtain st d1 where d1: "my_stage_d e (d\<lparr>votes := v\<rparr>) = (st, d1)" by (cases "my_stage_d e (d\<lparr>votes := v\<rparr>)")
  show ?thesis
    using assms(2,3) ok my_stage_d_ok [OF d1 ok] by (auto simp: process_vote_tip_def 1 2 3 v d1 Let_def split: if_splits)
qed

lemma diff_hash_ok: "diff_ok b \<Longrightarrow> diff_ok (snd (diff_hash jb b))"
  by (auto simp: diff_hash_def diff_ok_def Let_def split: option.splits)

lemma stage1_ok:
  assumes "env_ok e" "daemon_ok d" "stage1 e d = Some (d', ms)"
  shows "daemon_ok d'"
proof (cases "new_diff d")
  case None
  then show ?thesis using assms by (simp add: stage1_def)
next
  case (Some b)
  obtain st d1 where d1: "my_stage_d e d = (st, d1)" by (cases "my_stage_d e d")
  have b: "diff_ok b" using assms(2) Some by (simp add: daemon_ok_def)
  have "daemon_ok (d1\<lparr>new_diff := Some (snd (diff_hash (e_jbuf e) b))\<rparr>)"
    by (intro new_diff_ok my_stage_d_ok [OF d1 assms(2)] diff_hash_ok b)
  then show ?thesis
    using assms(1,3) my_stage_d_ok [OF d1 assms(2)] vote_tip_ok by (auto simp: stage1_def Some d1 split: if_splits)
qed

lemma pool_allow_ok: "daemon_ok d \<Longrightarrow> pool_allow e g d = Some (r, d') \<Longrightarrow> daemon_ok d'"
  using diff_allow_ok [of "the (mpool d)" "key_hash (e_lib e) (e_jbuf e) (lpub g)"]
  by (auto simp: pool_allow_def daemon_ok_def split: option.splits prod.splits)

lemma pool_add_ok: "daemon_ok d \<Longrightarrow> locals_ok g \<Longrightarrow> pool_add e g d = Some d' \<Longrightarrow> daemon_ok d'"
  by (auto simp: pool_add_def daemon_ok_def split: option.splits dest: diff_add_ok)

lemma create_local_deltas_ok:
  assumes "daemon_ok d" "create_local_deltas e d = Some (g, d')"
  shows "daemon_ok d' \<and> locals_ok g"
proof -
  have "om_ok (accounts (pool (cash d)))" "om_ok (db_accounts (db (cash d)))" using assms(1) by (simp_all add: daemon_ok_def cash_ok_def)
  then show ?thesis
    using assms by (auto simp: create_local_deltas_def auth_create_local_delta_def create_local_delta_def add_policies_def
        auth_add_policies_def retrieve_evidences_def ld_sign_def locals_ok_def daemon_ok_def auth_ok_def cash_ok_def local_delta0_def
        om_emplace_def om_find_def om_empty_def auth_id_def cash_id_def om_ok_Cons Let_def split: option.splits)
qed

lemma stage3_ok:
  assumes "env_ok e" "daemon_ok d" "stage3 e d = Some (r, d', ms)"
  shows "daemon_ok d'"
proof -
  obtain st d1 where d1: "my_stage_d e d = (st, d1)" by (cases "my_stage_d e d")
  note ok = my_stage_d_ok [OF d1 assms(2)]
  show ?thesis
    using assms(3) ok by (auto simp: stage3_def d1 split: if_splits option.splits prod.splits bool.splits
        dest: create_local_deltas_ok pool_allow_ok pool_add_ok)
qed

lemma prev_ok: "diff_ok (b\<lparr>prev := h\<rparr>) = diff_ok b"
  by (simp add: diff_ok_def)

lemma stage4_ok: "daemon_ok d \<Longrightarrow> stage4 d = Some d' \<Longrightarrow> daemon_ok d'"
  using end_adding_ok [of "the (mpool d)"] diff0_ok by (auto simp: stage4_def daemon_ok_def prev_ok split: if_splits option.splits)

lemma process_evidence_ok:
  assumes "env_ok e" "daemon_ok d" "process_evidence e a g d = (r, d')"
  shows "daemon_ok d'"
  using assms um_ok_emplace [of "e_hplace e" "evidences_on_hold d" a g] calendar_schedule_ok
  by (auto simp: process_evidence_def hold_add_def daemon_ok_def env_ok_def split: if_splits option.splits)

lemma flush_loop_ok: "env_ok e \<Longrightarrow> daemon_ok d \<Longrightarrow> flush_loop e xs d = Some d' \<Longrightarrow> daemon_ok d'"
proof (induction xs arbitrary: d)
  case (Cons x xs)
  obtain a g where x: "x = (a, g)" by (cases x)
  obtain d1 where d1: "process_evidence e a g d = (True, d1)"
    using Cons.prems(3) by (cases "process_evidence e a g d") (auto simp: x split: bool.splits if_splits)
  have "daemon_ok (d1\<lparr>evidences_on_hold := um_erase a (evidences_on_hold d1)\<rparr>)"
    using process_evidence_ok [OF Cons.prems(1,2) d1] um_ok_erase by (auto simp: daemon_ok_def)
  then show ?case using Cons.IH Cons.prems d1 by (simp add: x)
qed simp

lemma sync_finish_ok:
  assumes "env_ok e" "daemon_ok d" "sync_finish e d l = Some d'"
  shows "daemon_ok d'"
proof -
  obtain d1 where d1: "sync_apply e (patches l) d = Some d1" "on_sync e d1 = Some d'"
    using assms(3) by (auto simp: sync_finish_def split: option.splits)
  have "daemon_ok d1"
    using d1(1) assms(1,2) by (auto simp: sync_apply_def frame_ok split: if_splits option.splits prod.splits bool.splits
        dest: patch_db_ok intro: daemon_clear_ok)
  then show ?thesis using flush_loop_ok [OF assms(1)] d1(2) by (auto simp: on_sync_def flush_evidences_on_hold_def)
qed

lemma sync_count_ok: "sync_count h d l = (d', l') \<Longrightarrow> daemon_ok d \<Longrightarrow> daemon_ok d'"
  by (auto simp: sync_count_def frame_ok Let_def split: if_splits intro: daemon_clear_ok)

lemma sync_iter_ok: "daemon_ok d \<Longrightarrow> sync_iter q d l = Again d' l' ms \<Longrightarrow> daemon_ok d'"
  by (auto simp: sync_iter_def frame_ok Let_def split: if_splits option.splits prod.splits dest: sync_count_ok)

lemma evidence_turn_ok: "daemon_ok d \<Longrightarrow> daemon_ok (evidence_turn e now d)"
  using calendar_ok_Cons [of "hd (calendar d)" "tl (calendar d)"]
  by (auto simp: evidence_turn_def daemon_ok_def cash_process_ok Let_def split: list.splits)

lemma incoming_check_ok: "daemon_ok d \<Longrightarrow> incoming_check e s d = Some (r, d') \<Longrightarrow> daemon_ok d' \<and> (\<forall>g. r = Some g \<longrightarrow> locals_ok g)"
  by (auto simp: incoming_check_def split: option.splits if_splits dest: pool_allow_ok ld_from_stream_ok)

lemma incoming_add_ok: "daemon_ok d \<Longrightarrow> locals_ok g \<Longrightarrow> incoming_add e c g d = Some (d', ms) \<Longrightarrow> daemon_ok d'"
  by (auto simp: incoming_add_def split: option.splits dest: pool_add_ok)

lemma incoming_ok:
  assumes "daemon_ok d" "process_incoming_local_deltas e c s d = Some (d', ms)"
  shows "daemon_ok d'"
proof -
  obtain r d1 where r: "incoming_check e s d = Some (r, d1)"
    using assms(2) by (auto simp: process_incoming_local_deltas_def split: option.splits)
  note ok = incoming_check_ok [OF assms(1) r]
  show ?thesis
  proof (cases r)
    case None
    then show ?thesis using assms(2) r ok by (simp add: process_incoming_local_deltas_def)
  next
    case (Some g)
    then show ?thesis using assms(2) r ok incoming_add_ok [of d1 g e c d' ms] by (simp add: process_incoming_local_deltas_def)
  qed
qed

lemma process_block_ok: "daemon_ok d \<Longrightarrow> process_block e s d = Some (d', ms) \<Longrightarrow> daemon_ok d'"
  by (auto simp: process_block_def frame_ok Let_def split: option.splits if_splits)

lemma engine_work_ok: "env_ok e \<Longrightarrow> daemon_ok d \<Longrightarrow> engine_process_work e c st g d = Some (r, d', ms) \<Longrightarrow> daemon_ok d'"
  by (auto simp: engine_process_work_def process_query_block_def Let_def split: if_splits
      dest: process_block_ok process_vote_tip_ok incoming_ok)

lemma relay_evidence_ok: "env_ok e \<Longrightarrow> daemon_ok d \<Longrightarrow> relay_evidence e a c g d = (r, d', ms) \<Longrightarrow> daemon_ok d'"
  using process_evidence_ok [of e "d\<lparr>evidences := insert (compute_hash (e_jbuf e) g) (evidences d)\<rparr>" a g]
  by (auto simp: relay_evidence_def frame_ok Let_def split: if_splits prod.splits)

lemma dfs_work_ok: "env_ok e \<Longrightarrow> daemon_ok d \<Longrightarrow> dfs_process_work e a c g d = Some (r, d', ms) \<Longrightarrow> daemon_ok d'"
  by (auto simp: dfs_process_work_def split: if_splits prod.splits bool.splits dest: relay_evidence_ok)

lemma app_query_frame: "process_app_query e c g d = Some (r, d', ms) \<Longrightarrow> d' = d"
  by (auto simp: process_app_query_def split: if_splits option.splits)

lemma process_work_ok:
  assumes "env_ok e" "daemon_ok d" "process_work e a c st g d = Some (r, d', ms)"
  shows "daemon_ok d'"
proof -
  obtain r1 d1 m1 where 1: "(if is_node_protocol (service g) then engine_process_work e c st g d else Some (Not_Mine, d, [])) = Some (r1, d1, m1)"
    using assms(3) by (auto simp: process_work_def split: option.splits)
  have ok: "daemon_ok d1" using 1 assms(1,2) by (auto split: if_splits dest: engine_work_ok)
  show ?thesis
  proof (cases "r1 = Not_Mine")
    case True
    obtain r2 d2 m2 where 2: "(if is_app_query (service g) then process_app_query e c g d1 else Some (False, d1, [])) = Some (r2, d2, m2)"
      using assms(3) 1 True by (auto simp: process_work_def split: option.splits)
    then have "d2 = d1" using app_query_frame by (auto split: if_splits)
    then show ?thesis using assms(1,3) 1 2 True ok dfs_work_ok by (auto simp: process_work_def split: bool.splits)
  next
    case False
    then show ?thesis using assms(3) 1 ok by (auto simp: process_work_def split: fate.splits)
  qed
qed

section \<open>The transition system\<close>

text \<open>
  The state: the daemon, the local variables of the synchronising thread, and the local deltas between the two halves
  of their handler, with the number of the peer they came from.
\<close>

inductive reach :: "env \<Rightarrow> daemon \<Rightarrow> sync_locals \<Rightarrow> (nat \<times> local_deltas) list \<Rightarrow> bool" for e where
  boot: "start_up (daemon0 k hm fs) = Some d \<Longrightarrow> reach e d sync_locals0 []"
| dgram: "reach e d l pend \<Longrightarrow> receive_and_process e a c st g d = Some (r, d', ms) \<Longrightarrow> reach e d' l pend"
| check: "reach e d l pend \<Longrightarrow> incoming_check e s d = Some (Some g, d') \<Longrightarrow> reach e d' l ((c, g) # pend)"
| add: "reach e d l pend \<Longrightarrow> (c, g) \<in> set pend \<Longrightarrow> incoming_add e c g d = Some (d', ms) \<Longrightarrow> reach e d' l (remove1 (c, g) pend)"
| one: "reach e d l pend \<Longrightarrow> stage1 e d = Some (d', ms) \<Longrightarrow> reach e d' l pend"
| two: "reach e d l pend \<Longrightarrow> stage2 e d = Some d' \<Longrightarrow> reach e d' l pend"
| three: "reach e d l pend \<Longrightarrow> stage3 e d = Some (r, d', ms) \<Longrightarrow> reach e d' l pend"
| four: "reach e d l pend \<Longrightarrow> stage4 d = Some d' \<Longrightarrow> reach e d' l pend"
| turn: "reach e d l pend \<Longrightarrow> reach e (evidence_turn e now d) l pend"
| walk: "reach e d l pend \<Longrightarrow> sync_iter q d l = Again d' l' ms \<Longrightarrow> reach e d' l' pend"
| apply_patches: "reach e d l pend \<Longrightarrow> sync_iter q d l = Break \<Longrightarrow> sync_finish e d l = Some d' \<Longrightarrow> reach e d' (l\<lparr>patches := []\<rparr>) pend"
| wake: "reach e d l pend \<Longrightarrow> sync_wait (syncd d) = Some s \<Longrightarrow> reach e (d\<lparr>syncd := s\<rparr>) l pend"
| net: "reach e d l pend \<Longrightarrow> reach e (d\<lparr>peers := ps\<rparr>) l pend"
| greet: "reach e d l pend \<Longrightarrow> basic_auth_completed (auth d) pk pkh addr = (st, a) \<Longrightarrow> reach e (d\<lparr>auth := a\<rparr>) l pend"

lemma start_up_ok: "start_up (daemon0 k hm fs) = Some d \<Longrightarrow> daemon_ok d"
  using diff0_ok
  by (auto simp: start_up_def daemon0_def load_head_def daemon_ok_def auth_ok_def auth_app0_def um_ok_def cash_ok_def cash_app0_def
      local_delta0_def db_clear_def om_empty_def calendar_ok_def Let_def)

lemma greet_ok: "daemon_ok d \<Longrightarrow> basic_auth_completed (auth d) pk pkh addr = (st, a) \<Longrightarrow> daemon_ok (d\<lparr>auth := a\<rparr>)"
  by (auto simp: basic_auth_completed_def daemon_ok_def auth_ok_def split: if_splits)

lemma reach_invariant:
  assumes "env_ok e"
  shows "reach e d l pend \<Longrightarrow> daemon_ok d \<and> (\<forall>(c, g) \<in> set pend. locals_ok g)"
proof (induction rule: reach.induct)
  case (dgram d l pend a c st g r d' ms)
  obtain r1 where "process_work e a c st g d = Some (r1, d', ms)"
    using dgram.hyps(2) by (auto simp: receive_and_process_def)
  then show ?case using process_work_ok [OF assms] dgram.IH by blast
next
  case (check d l pend s g d' c)
  then show ?case using incoming_check_ok [of d e s "Some g" d'] by auto
next
  case (add d l pend c g d' ms)
  then have "daemon_ok d'" using incoming_add_ok [of d g e c d' ms] by auto
  then show ?case using add.IH set_remove1_subset [of "(c, g)" pend] by blast
qed (auto simp: frame_ok evidence_turn_ok dest: start_up_ok stage1_ok [OF assms] stage2_ok [OF assms] stage3_ok [OF assms] stage4_ok
    sync_iter_ok sync_finish_ok [OF assms] greet_ok)

section \<open>Properties\<close>


lemma toy_env_ok: "env_ok toy_env"
  by (simp add: env_ok_def toy_env_def placement_front)


text \<open>The candidate block of \<open>eat_diff\<close>, with or without its hash cached, is imported alike.\<close>

lemma diff_hash_same:
  "dapps (snd (diff_hash jb b)) = dapps b" "prev (snd (diff_hash jb b)) = prev b"
  "proof_of_work (snd (diff_hash jb b)) = proof_of_work b" "fst (diff_hash jb (snd (diff_hash jb b))) = fst (diff_hash jb b)"
  "diff_to_stream (snd (diff_hash jb b)) = diff_to_stream b"
  by (auto simp: diff_hash_def diff_to_stream_def Let_def split: option.splits)

lemma import_cached: "import e (snd (diff_hash (e_jbuf e) b)) d = import e b d" "save e (snd (diff_hash (e_jbuf e) b)) d = save e b d"
  by (simp_all add: import_def save_def diff_hash_same split: option.split)


lemma single_vote: "votes_select [(k, h, c)] = Some (h, [])"
  by (simp add: votes_select_def count_vote_def om_empty_def om_find_def om_emplace_def largest_def)

lemma diff0_stays: "(end_adding diff0)\<lparr>prev := hash_zero\<rparr> = diff0"
  by (simp add: end_adding_def diff0_def om_empty_def)


text \<open>
  A race ends the process: the handler of local deltas asks the mempool whether it may add them and adds them later,
  with the lock released in between; if the last stage of the cycle replaces the mempool in between, the entry
  for the key is not there any more.
\<close>

theorem race_ends_process:
  assumes "stage4 d = Some d'"
  shows "incoming_add e c g d' = None"
proof -
  have m: "mpool d' = Some diff0" using assms by (auto simp: stage4_def split: if_splits option.splits)
  have "om_find (proof_of_work diff0) k = None" for k by (simp add: diff0_def om_empty_def om_find_def)
  then have "pool_add e g d' = None" using m by (simp add: pool_add_def diff_add_def split: option.split)
  then show ?thesis by (simp add: incoming_add_def split: option.split)
qed

lemma toy_secp_length: "sc_serialize toy_secp p = Some out \<Longrightarrow> length out = 33"
  by (auto simp: toy_secp_def)

theorem race_ends_process_witness:
  "\<exists>s g d1 d2. incoming_check toy_env s (toy_daemon\<lparr>mpool := Some diff0\<rparr>) = Some (Some g, d1) \<and> stage4 d1 = Some d2
    \<and> incoming_add toy_env 1 g d2 = None"
proof -
  let ?d = "toy_daemon\<lparr>mpool := Some diff0\<rparr>" and ?k = "toy_pair (replicate 32 4)"
  let ?g = "\<lparr>ldapps = [(auth_id, AuthLocal auth_local0)], lpub = pub_new [], lsig = []\<rparr>"
  have k: "secp_signs toy_secp (priv ?k)" "sc_create toy_secp (priv ?k) = Some (pdata (pub ?k))" "valid (pub ?k)"
      "secp_prints toy_secp (pdata (pub ?k))"
    using toy_good_keys [of "replicate 32 4"] by (simp_all add: good_keys_def)
  have wf: "wf_local_deltas ?g"
    by (simp add: wf_local_deltas_def om_ok_def wf_auth_local_def wf_candidates_def auth_local0_def)
  have e: "e_lib toy_env = toy_secp" "e_jbuf toy_env = replicate 64 0" by (simp_all add: toy_env_def)
  obtain t g where t: "ld_from_stream toy_secp (e_junk toy_env) (e_jkey toy_env) (istr t) = Some (Some g)"
      "ld_verify toy_secp (replicate 64 0) g"
    using local_deltas_accepted [OF wf k, of "replicate 64 0" "replicate 64 0" "e_junk toy_env" "e_jkey toy_env"] by auto
  let ?kh = "key_hash toy_secp (replicate 64 0) (lpub g)"
  have "om_find (proof_of_work diff0) ?kh = None" by (simp add: diff0_def om_empty_def om_find_def)
  then obtain p where "pool_allow toy_env g ?d = Some (True, ?d\<lparr>mpool := Some p\<rparr>)"
    using that [of "diff0\<lparr>proof_of_work := om_emplace ?kh 0 (proof_of_work diff0)\<rparr>"] by (simp add: pool_allow_def diff_allow_def e)
  then have c: "incoming_check toy_env t ?d = Some (Some g, ?d\<lparr>mpool := Some p\<rparr>)"
    using t by (simp add: incoming_check_def e)
  obtain d2 where d2: "stage4 (?d\<lparr>mpool := Some p\<rparr>) = Some d2" by (simp add: stage4_def toy_daemon_def daemon0_def)
  show ?thesis using c d2 race_ends_process [OF d2] by blast
qed

lemma read_hash_end: "\<not> good is \<Longrightarrow> read_hash hash_zero is = (hash_zero, setfail is)"
proof -
  assume "\<not> good is"
  then have r: "read_string is = ([], setfail is)" by (simp add: read_string_def sentry_def)
  have "decode [] = Some []" by code_simp
  then show ?thesis by (simp add: read_hash_def r hash_set_b58_def) (simp add: setfail_def)
qed

lemma read_hashes_end: "\<not> good is \<Longrightarrow> fst (read_hashes n is) = replicate n hash_zero"
proof (induction n arbitrary: "is")
  case (Suc n)
  have "\<not> good (setfail is)" by (simp add: good_def setfail_def)
  from Suc.IH [OF this] show ?case using read_hash_end [OF Suc.prems] by (cases "read_hashes n (setfail is)") simp
qed simp

lemma query_5000: "query_from_string j ''5000'' = Some (replicate 5000 hash_zero)"
proof -
  have r: "read_signed 32 (istr ''5000'') = (Some 5000, \<lparr>ichars = [], ieof = True, ifail = False\<rparr>)" by code_simp
  have "\<not> good \<lparr>ichars = [], ieof = True, ifail = False\<rparr>" by (simp add: good_def)
  from read_hashes_end [OF this, of 5000] show ?thesis by (simp add: query_from_string_def r)
qed

lemma account_text_length: "20 \<le> length (account_to_stream a)"
  using show_hash_length [of "locking_program a"] by (simp add: account_to_stream_def)

lemma answer_5000: "\<exists>r. cash_query j app tip ''5000'' = Some r \<and> 100000 \<le> length r"
proof -
  let ?f = "\<lambda>addr. account_to_stream (case om_find (db_accounts (db app)) addr of Some a \<Rightarrow> a
      | None \<Rightarrow> \<lparr>locking_program = hash_set 0, box = 0\<rparr>)"
  have "length (concat (map ?f (replicate n x))) = n * length (?f x)" for n x by (induction n) simp_all
  then have "length (concat (map ?f (replicate 5000 hash_zero))) = 5000 * length (?f hash_zero)" .
  moreover have "20 \<le> length (?f hash_zero)" by (rule account_text_length)
  ultimately have "100000 \<le> length (concat (map ?f (replicate 5000 hash_zero)))" by linarith
  then show ?thesis by (simp add: cash_query_def query_5000 del: map_replicate)
qed

text \<open>
  A small query ends the process: the cash query that consists of the number 5000 is answered with five thousand times the
  account of the zero address, which does not fit in a datagram. Anybody may send it, at any time.
\<close>

theorem query_ends_process:
  assumes "service g = svc_cash_query" "parse_string g = ''5000''"
  shows "receive_and_process e a c st g d = None"
proof -
  obtain r where r: "cash_query (e_jquery e) (cash d) (chaininfo_tip d) ''5000'' = Some r" "100000 \<le> length r"
    using answer_5000 by blast
  then have "datagram_str svc_cash_response r = None" by (simp add: datagram_str_eq datagram_maxsize_def)
  then have "process_app_query e c g d = None" using assms r(1) by (simp add: process_app_query_def send_all_def)
  moreover have "\<not> is_node_protocol svc_cash_query" "is_app_query svc_cash_query"
    by (simp_all add: is_node_protocol_def is_app_query_def service_defs)
  ultimately show ?thesis using assms(1) by (simp add: receive_and_process_def process_work_def)
qed

theorem query_ends_process_witness:
  "\<exists>g. datagram_str svc_cash_query ''5000'' = Some g \<and> receive_and_process toy_env 0 1 Wallet g toy_daemon = None"
proof -
  obtain g where g: "datagram_str svc_cash_query ''5000'' = Some g" by (simp add: datagram_str_eq datagram_maxsize_def)
  have "service g = svc_cash_query" "parse_string g = ''5000''"
    using g by (auto simp: datagram_str_eq parse_string_def wire_def header_def datagram_h_def split: if_splits)
  from query_ends_process [OF this] show ?thesis using g by blast
qed

text \<open>
  An invalid transaction ends the process: evidence that is new, and that does not parse as a transaction with
  a sufficient fee, is deleted by \<open>process_evidence\<close> and looked at again by the layer above, while the node is in sync.
\<close>

theorem invalid_evidence_ends_process:
  assumes "is_evidence (service g)" "compute_hash (e_jbuf e) g \<notin> evidences d" "in_sync (syncd d)"
    and "Cash_App.parse_evidence (fst (e_jtx e)) (snd (e_jtx e)) (cash d) (service g) (parse_string g) = None"
  shows "receive_and_process e a c st g d = None"
proof -
  have s: "\<not> is_node_protocol (service g)" "\<not> is_app_query (service g)"
    using assms(1) by (simp_all add: is_evidence_def is_node_protocol_def is_app_query_def service_defs)
  obtain d' ms where "relay_evidence e a c g d = (False, d', ms)"
    using assms(2-4) by (simp add: relay_evidence_def process_evidence_def Let_def)
  then show ?thesis using assms(1) s by (simp add: receive_and_process_def process_work_def dfs_process_work_def)
qed

theorem invalid_evidence_ends_process_witness:
  "receive_and_process toy_env 0 1 Node (datagram0\<lparr>service := 1\<rparr>) toy_daemon = None"
proof (rule invalid_evidence_ends_process)
  show "is_evidence (service (datagram0\<lparr>service := 1\<rparr>))" by (simp add: is_evidence_def service_defs)
  show "Cash_App.parse_evidence (fst (e_jtx toy_env)) (snd (e_jtx toy_env)) (cash toy_daemon) (service (datagram0\<lparr>service := 1\<rparr>))
      (parse_string (datagram0\<lparr>service := 1\<rparr>)) = None"
    by (simp add: Cash_App.parse_evidence_def service_defs)
qed (simp_all add: toy_daemon_def daemon0_def syncd0_def in_sync_def)

lemma stage3_new_diff: "stage3 e d = Some (r, d', ms) \<Longrightarrow> new_diff d' = new_diff d"
proof -
  assume s: "stage3 e d = Some (r, d', ms)"
  obtain st d1 where d1: "my_stage_d e d = (st, d1)" by (cases "my_stage_d e d")
  obtain x where "d1 = d\<lparr>auth := x\<rparr>" using my_stage_d_frame [OF d1] by blast
  then have n1: "new_diff d1 = new_diff d" by simp
  have c: "new_diff d2 = new_diff d1" if "create_local_deltas e d1 = Some (mg, d2)" for mg d2
    using that by (auto simp: create_local_deltas_def retrieve_evidences_def Let_def split: prod.splits option.splits)
  show ?thesis
    using s n1 by (auto simp: stage3_def d1 pool_allow_def pool_add_def Let_def dest: c
        split: if_splits option.splits prod.splits bool.splits)
qed

text \<open>
  Votes for nothing end the process: if most votes are for the zero hash, which is what a vote for any text that is not a
  hash counts for, the candidate block of the node survives the second stage, and if the third stage goes through
  the assertion of the last one fails.
\<close>

theorem zero_votes_end_process:
  assumes "new_diff d \<noteq> None" "votes_select (votes d) = Some (hash_zero, v)" "stage2 e d = Some d2"
  shows "new_diff d2 = new_diff d \<and> (\<forall>r d3 ms. stage3 e d2 = Some (r, d3, ms) \<longrightarrow> stage4 d3 = None)"
proof -
  have "new_diff d2 = new_diff d" using assms(2,3) by (auto simp: stage2_def Let_def)
  then show ?thesis using assms(1) stage3_new_diff by (auto simp: stage4_def)
qed

theorem zero_votes_end_process_witness:
  "\<exists>d2. stage2 toy_env (toy_daemon\<lparr>new_diff := Some diff0, votes := [(hash_set 1, hash_from_b58 ''none'', 1)]\<rparr>) = Some d2
    \<and> (\<forall>r d3 ms. stage3 toy_env d2 = Some (r, d3, ms) \<longrightarrow> stage4 d3 = None)"
proof -
  let ?d = "toy_daemon\<lparr>new_diff := Some diff0, votes := [(hash_set 1, hash_from_b58 ''none'', 1)]\<rparr>"
  have "length v \<noteq> 20" if "decode ''none'' = Some v" for v using decode_length [OF that] by auto
  then have z: "hash_from_b58 ''none'' = hash_zero" by (auto simp: hash_from_b58_def split: option.split)
  have v: "votes_select (votes ?d) = Some (hash_zero, [])" by (simp add: single_vote z)
  then obtain d2 where d2: "stage2 toy_env ?d = Some d2" by (simp add: stage2_def Let_def)
  have n: "new_diff ?d \<noteq> None" by simp
  from zero_votes_end_process [OF n v d2] show ?thesis using d2 by blast
qed

lemma read_pub_skip: "isspace c \<Longrightarrow> read_pub lib k (istr (c # s)) = read_pub lib k (istr s)"
  by (simp add: read_pub_def read_skip)

text \<open>
  Everybody votes: the vote that a node signs is accepted and counted by whoever receives it for the first time, and
  nothing asks whether the key belongs to a node of the network.
\<close>

theorem anyone_votes:
  assumes "good_keys (e_lib e) k" "placement (e_vplace e)" "um_ok (votes d)"
    and "um_find (votes d) (pub_compute_hash (e_lib e) (e_jbuf e) (pub k)) = None"
    and "vote_text e h k = Some m" "6 + length m < datagram_maxsize"
  shows "\<exists>d' ms. process_vote_tip e c m d = Some (d', ms)
    \<and> um_find (votes d') (pub_compute_hash (e_lib e) (e_jbuf e) (pub k)) = Some (h, 1) \<and> members (auth d') = members (auth d)"
proof -
  let ?lib = "e_lib e" and ?jb = "e_jbuf e"
  have g: "secp_signs ?lib (priv k)" "sc_create ?lib (priv k) = Some (pdata (pub k))" "valid (pub k)" "secp_prints ?lib (pdata (pub k))"
    using assms(1) by (simp_all add: good_keys_def)
  obtain sg where sg: "sign_encode ?lib ?jb (priv k) (show_hash h) = Some sg" "token sg" "verify_text ?lib ?jb (pub k) (show_hash h) sg"
    using sign_encode_verifies [OF g(1,2) refl] .
  have m: "m = show_hash h @ CHR '' '' # show_pub ?lib (pub k) @ CHR '' '' # sg" using assms(5) sg(1) by (simp add: vote_text_def)
  define pk where "pk = (pub_new (e_jkey e))\<lparr>pdata := pdata (pub k), valid := True\<rparr>"
  have r1: "read_string (istr m) = (show_hash h, istr (CHR '' '' # show_pub ?lib (pub k) @ CHR '' '' # sg))"
    unfolding m by (rule read_string_token) (simp_all add: isspace_def)
  have r2: "read_pub ?lib (pub_new (e_jkey e)) (istr (CHR '' '' # show_pub ?lib (pub k) @ CHR '' '' # sg)) = (pk, istr (CHR '' '' # sg))"
    using read_pub_show(1) [OF g(3,4), of "CHR '' ''" "pub_new (e_jkey e)" sg] by (simp add: read_pub_skip pk_def isspace_def)
  obtain i3 where r3: "read_string (istr (CHR '' '' # sg)) = (sg, i3)"
    using read_string_last [OF sg(2)] by (cases "read_string (istr sg)") (simp add: read_skip isspace_def)
  have v: "verify_text ?lib ?jb pk (show_hash h) sg"
    using sg(3) by (simp add: pk_def verify_text_def verify_hash_def Let_def split: if_splits option.splits)
  have kh: "fst (pub_get_hash ?lib ?jb pk) = pub_compute_hash ?lib ?jb (pub k)"
    using g(3) by (simp add: pub_get_hash_def pk_def pub_new_def pub_compute_hash_def Let_def)
  have hb: "hash_from_b58 (show_hash h) = h"
  proof -
    have "hash_to_b58 h = Some (show_hash h)" by (rule show_hash_text) simp
    then have "hash_set_b58 hash_zero (show_hash h) = (True, h)" by (rule hash_set_b58_text)
    then show ?thesis by (cases "decode (show_hash h)") (auto simp: hash_set_b58_def hash_from_b58_def split: if_splits)
  qed
  let ?kh = "pub_compute_hash ?lib ?jb (pub k)"
  let ?v = "um_emplace (e_vplace e) ?kh (h, 1) (votes d)"
  have a: "votes_add (e_vplace e) ?kh h (votes d) = (True, ?v)" using assms(4) by (simp add: votes_add_def)
  have f: "um_find ?v ?kh = Some (h, 1)" using um_find_emplace [OF assms(2,3)] assms(4) by simp
  obtain st d1 where d1: "my_stage_d e (d\<lparr>votes := ?v\<rparr>) = (st, d1)" by (cases "my_stage_d e (d\<lparr>votes := ?v\<rparr>)")
  then have d1v: "votes d1 = ?v" "members (auth d1) = members (auth d)"
    by (auto simp: my_stage_d_def my_stage_def members_def Let_def split: prod.splits)
  have "\<exists>ms. send_all ns svc_vote_tip m = Some ms" for ns using assms(6) by (simp add: send_all_def datagram_str_eq)
  then obtain ms where "send_all (filter (\<lambda>n. n \<noteq> c) (get_people d1)) svc_vote_tip m = Some ms" by blast
  then have "\<exists>ms. process_vote_tip e c m d = Some (d1, ms)"
    using v by (simp add: process_vote_tip_def r1 r2 r3 kh hb a d1 Let_def)
  then show ?thesis using d1v f by auto
qed

lemma length_sha_text: "length (sha_text jb t) = 32"
  by (simp add: sha_text_def sha256_finalize_def sha256_output_def WriteBE32_def length_write_le Let_def split: prod.split)

lemma toy_vote_length:
  assumes "vote_text toy_env h (toy_pair s) = Some m" "length s = 32"
  shows "6 + length m < datagram_maxsize"
proof -
  obtain sg where sg: "sign_encode toy_secp (replicate 64 0) s (show_hash h) = Some sg"
      and m: "m = show_hash h @ CHR '' '' # show_pub toy_secp (pub (toy_pair s)) @ CHR '' '' # sg"
    using assms(1) by (auto simp: vote_text_def toy_env_def toy_pair_def)
  have "length sg \<le> 2 * 65 + 1"
    using encode_length [of "sign_text toy_secp (replicate 64 0) s (show_hash h)" sg] sg assms(2)
    by (auto simp: sign_encode_def ec_to_b58_def sign_text_def sign_hash_def toy_secp_def length_sha_text split: if_splits)
  moreover have "length (show_pub toy_secp (pub (toy_pair s))) \<le> 2 * 33 + 1"
    using encode_length [of "take 33 (s @ replicate 33 0)"] assms(2)
    by (auto simp: show_pub_def pub_to_b58_def toy_pair_def toy_secp_def split: option.split)
  ultimately show ?thesis using show_hash_short [of h] by (simp add: m datagram_maxsize_def)
qed

theorem anyone_votes_witness:
  "\<exists>m d' ms. vote_text toy_env (hash_set 7) (toy_pair (replicate 32 9)) = Some m
    \<and> process_vote_tip toy_env 3 m toy_daemon = Some (d', ms)
    \<and> um_find (votes d') (pub_compute_hash toy_secp (replicate 64 0) (pub (toy_pair (replicate 32 9)))) = Some (hash_set 7, 1)"
proof -
  let ?k = "toy_pair (replicate 32 9)"
  have g: "good_keys (e_lib toy_env) ?k" using toy_good_keys [of "replicate 32 9"] by (simp add: toy_env_def)
  have "\<exists>s. sign_encode (e_lib toy_env) (e_jbuf toy_env) (priv ?k) (show_hash (hash_set 7)) = Some s"
    using good_keys_sign [OF g] by (simp add: toy_env_def toy_normalizes) blast
  then obtain m where m: "vote_text toy_env (hash_set 7) ?k = Some m" by (auto simp: vote_text_def)
  have p: "placement (e_vplace toy_env)" by (simp add: toy_env_def placement_def)
  have o: "um_ok (votes toy_daemon)" "um_find (votes toy_daemon) h = None" for h
    by (simp_all add: toy_daemon_def daemon0_def um_ok_def um_find_def)
  have "6 + length m < datagram_maxsize" using toy_vote_length [OF m] by simp
  from anyone_votes [OF g p o m this, of 3] show ?thesis using m by (auto simp: toy_env_def)
qed

end
