(* ===== verification/Wallet.thy ===== *)
theory Wallet
  imports Evidence
begin

text \<open>
  The wallet, \<open>src/wallet/wallet.{h,cpp}\<close>: a table of key pairs under their addresses, kept in a file, and the
  accounts last reported by a node. It asks the node for its accounts, selects those a payment comes from, builds
  the transaction and signs the inputs.

  The node at the other end of the connection is a pair of functions: what \<open>send_recv\<close> returns for a datagram (an
  error text, or the answer), and the text \<open>send\<close> returns. \<open>None\<close> as the result of an operation is the end of the
  process. The order in which \<open>std::sort\<close> leaves equal elements is the library's: the sorting function is
  a parameter (\<open>sorts\<close>).
\<close>

section \<open>State\<close>

record wallet_env =
  w_env :: env
  w_beyond :: "u64 list"
  w_place :: "(hash_t, keys_t) place"
  w_sort :: "(hash_t \<times> account_t) list \<Rightarrow> (hash_t \<times> account_t) list"
  w_err :: u16

record backend =
  bk_query :: "datagram \<Rightarrow> string + datagram"
  bk_send :: "datagram \<Rightarrow> string"

record wallet =
  wkeys :: "(hash_t, keys_t) umap"
  wdata :: accounts_t
  wfile :: "string option"
  need_save :: bool

record input_account_t = account_t +
  ia_address :: hash_t
  withdraw_amount :: int

record p2pkh_input =
  rcpt_addr :: hash_t
  pay_amount :: int
  pay_fee :: int
  sigcode_inputs :: sigcode
  sigcode_outputs :: sigcode
  sendover :: bool

definition sorts :: "((hash_t \<times> account_t) list \<Rightarrow> (hash_t \<times> account_t) list) \<Rightarrow> bool" where
  "sorts f \<longleftrightarrow> (\<forall>xs. mset (f xs) = mset xs \<and> sorted (map (box \<circ> snd) (f xs)))"

text \<open>The pair of an error text, empty for success, and a result.\<close>

definition result :: "string \<Rightarrow> 'a \<Rightarrow> string + 'a" where
  "result s x = (if s = [] then Inr x else Inl s)"

section \<open>The key store\<close>

function load_loop :: "wallet_env \<Rightarrow> istream \<Rightarrow> (hash_t, keys_t) umap \<Rightarrow> (hash_t, keys_t) umap" where
  "load_loop e is m =
     (if \<not> good is then m
      else let (s, is) = read_string is
           in if s = [] then load_loop e is m
              else let pk = priv_from_b58 s
                   in if \<not> keys_verify (e_lib (w_env e)) (w_beyond e) pk then load_loop e is m
                      else let k = keys_of_priv (e_lib (w_env e)) (e_jkey (w_env e)) pk
                           in load_loop e is (um_emplace (w_place e) (pub_compute_hash (e_lib (w_env e)) (e_jbuf (w_env e)) (pub k)) k m))"
  by pat_completeness auto

lemma read_string_decreases:
  "(s, is') = read_string is \<Longrightarrow> good is' \<Longrightarrow> length (ichars is') < length (ichars is)"
  by (metis read_string_shorter snd_conv)

termination load_loop
proof (relation "measure (\<lambda>(e, is, m). if good is then Suc (length (ichars is)) else 0)", goal_cases)
  case 1
  show ?case by simp
qed (auto dest: read_string_decreases)

declare load_loop.simps [simp del]

definition wallet_load :: "wallet_env \<Rightarrow> wallet \<Rightarrow> bool \<times> wallet" where
  "wallet_load e w =
     (case wfile w of
        None \<Rightarrow> (False, w)
      | Some s \<Rightarrow> (True, w\<lparr>wkeys := load_loop e (istr s) (wkeys w)\<rparr>))"

text \<open>The text of a private key; the encoder never fails.\<close>

definition show_priv :: "byte list \<Rightarrow> string" where
  "show_priv k = (case priv_to_b58 k of Some s \<Rightarrow> s | None \<Rightarrow> [])"

definition wallet_save :: "wallet \<Rightarrow> wallet" where
  "wallet_save w =
     (if \<not> need_save w then w
      else w\<lparr>wfile := Some (concat (map (\<lambda>(h, k). show_priv (priv k) @ '' '') (wkeys w))), need_save := False\<rparr>)"

definition new_address :: "wallet_env \<Rightarrow> byte list option \<Rightarrow> wallet \<Rightarrow> (hash_t \<times> wallet) option" where
  "new_address e entropy w =
     (case keys_generate (e_lib (w_env e)) (w_beyond e) (e_jkey (w_env e)) entropy of
        None \<Rightarrow> None
      | Some k \<Rightarrow>
          (let h = pub_compute_hash (e_lib (w_env e)) (e_jbuf (w_env e)) (pub k)
           in Some (h, wallet_save (w\<lparr>wkeys := um_emplace (w_place e) h k (wkeys w), need_save := True\<rparr>))))"

definition add_address :: "wallet_env \<Rightarrow> byte list \<Rightarrow> wallet \<Rightarrow> hash_t \<times> wallet" where
  "add_address e key w =
     (if \<not> keys_verify (e_lib (w_env e)) (w_beyond e) key then (hash_set 0, w)
      else let k = keys_of_priv (e_lib (w_env e)) (e_jkey (w_env e)) key;
               h = pub_compute_hash (e_lib (w_env e)) (e_jbuf (w_env e)) (pub k)
           in (h, if um_find (wkeys w) h = None
                  then wallet_save (w\<lparr>wkeys := um_emplace (w_place e) h k (wkeys w), need_save := True\<rparr>)
                  else w))"

definition get_keys :: "wallet \<Rightarrow> hash_t \<Rightarrow> keys_t option" where
  "get_keys w a = um_find (wkeys w) a"

text \<open>The constructor and the destructor.\<close>

definition wallet_open :: "wallet_env \<Rightarrow> string option \<Rightarrow> wallet" where
  "wallet_open e f = snd (wallet_load e \<lparr>wkeys = [], wdata = om_empty, wfile = f, need_save = False\<rparr>)"

definition wallet_close :: "wallet \<Rightarrow> string option" where "wallet_close w = wfile (wallet_save w)"

definition wallet_balance :: "wallet \<Rightarrow> int" where
  "wallet_balance w = foldl (\<lambda>b (k, a). wrap64 (b + box a)) 0 (wdata w)"

section \<open>The accounts\<close>

text \<open>Reading the answer: accounts with a positive balance.\<close>

fun read_answer :: "hash_t list \<Rightarrow> accounts_t \<Rightarrow> istream \<Rightarrow> accounts_t" where
  "read_answer [] m is = m"
| "read_answer (a # as) m is =
     (let (x, is) = account_from_stream is
      in read_answer as (if box x > 0 then om_emplace a x m else m) is)"

definition query_accounts :: "wallet_env \<Rightarrow> backend \<Rightarrow> hash_t list \<Rightarrow> (string + accounts_t) option" where
  "query_accounts e bk q =
     (case query_text q of
        None \<Rightarrow> Some (Inl ''Error. Wallet contains no addresses.'')
      | Some s \<Rightarrow>
          (case datagram_str svc_cash_query s of
             None \<Rightarrow> None
           | Some d \<Rightarrow>
               (case bk_query bk d of
                  Inl r \<Rightarrow> if r = [] then None else Some (Inl r)
                | Inr g \<Rightarrow>
                    (if service g = w_err e then Some (result (parse_string g) om_empty)
                     else let (code, is) = read_int (e_jquery (w_env e)) (istr (parse_string g))
                          in if code \<noteq> 0 then Some (Inl (''Error. Backend reported: '' @ fst (read_string is)))
                             else Some (Inr (read_answer q om_empty is))))))"

definition refresh :: "wallet_env \<Rightarrow> backend \<Rightarrow> wallet \<Rightarrow> (string \<times> wallet) option" where
  "refresh e bk w =
     (case query_accounts e bk (map fst (wkeys w)) of
        None \<Rightarrow> None
      | Some (Inl r) \<Rightarrow> Some (r, w)
      | Some (Inr m) \<Rightarrow> Some ([], w\<lparr>wdata := m\<rparr>))"

section \<open>Selecting the sources\<close>

text \<open>The loop over the accounts, smallest balance first.\<close>

fun take_sources :: "int \<Rightarrow> (hash_t \<times> account_t) list \<Rightarrow> input_account_t list" where
  "take_sources remaining [] = []"
| "take_sources remaining ((h, a) # v) =
     (if box a \<le> remaining
      then \<lparr>locking_program = locking_program a, box = box a, ia_address = h, withdraw_amount = box a\<rparr>
           # take_sources (wrap64 (remaining - box a)) v
      else [\<lparr>locking_program = locking_program a, box = box a, ia_address = h, withdraw_amount = remaining\<rparr>])"

definition select_sources :: "wallet_env \<Rightarrow> backend \<Rightarrow> int \<Rightarrow> wallet \<Rightarrow> ((string + input_account_t list) \<times> wallet) option" where
  "select_sources e bk amount w =
     (case refresh e bk w of
        None \<Rightarrow> None
      | Some (r, w) \<Rightarrow> Some (result r (take_sources amount (w_sort e (wdata w))), w))"

definition get_withdraw_amount :: "input_account_t list \<Rightarrow> int" where
  "get_withdraw_amount v = foldl (\<lambda>w i. wrap64 (w + withdraw_amount i)) 0 v"

section \<open>Transactions\<close>

definition wallet_send :: "backend \<Rightarrow> tx \<Rightarrow> string option" where
  "wallet_send bk t =
     (if tx_check t \<le> 0 then Some ''Error. Individual inputs and fees must be positive.''
      else map_option (bk_send bk) (datagram_str svc_cash_tx (tx_to_b58 t)))"

text \<open>The two overloads: for a signed hash, and for an input of a transaction.\<close>

definition generate_lpi_hash :: "env \<Rightarrow> wallet \<Rightarrow> byte list \<Rightarrow> byte \<Rightarrow> hash_t \<Rightarrow> hash_t \<Rightarrow> string option" where
  "generate_lpi_hash e w h sigcodes address lp =
     (if hash_less lp min_locking_program
      then (if hash_eq lp (hash_set 0) then Some []
            else if hash_eq lp (hash_set 1)
            then (case get_keys w address of
                    None \<Rightarrow> Some []
                  | Some k \<Rightarrow>
                      map_option (\<lambda>s. p2pkh_create_input s sigcodes (show_pub (e_lib e) (get_pubkey (e_lib e) (e_jkey e) (priv k))))
                        (sign_encode_hash (e_lib e) (priv k) h))
            else Some [])
      else Some [])"

definition generate_lpi :: "env \<Rightarrow> wallet \<Rightarrow> tx \<Rightarrow> nat \<Rightarrow> byte \<Rightarrow> hash_t \<Rightarrow> hash_t \<Rightarrow> string option" where
  "generate_lpi e w t i sigcodes address lp =
     (if hash_less lp min_locking_program
      then (if hash_eq lp (hash_set 0) then Some []
            else if hash_eq lp (hash_set 1)
            then (case get_keys w address of
                    None \<Rightarrow> Some []
                  | Some k \<Rightarrow> create_input (e_lib e) (e_jbuf e) (e_jkey e) t i sigcodes (priv k))
            else Some [])
      else Some [])"

text \<open>The loop over the inputs, with what is generated for each; the accounts are those of the inputs.\<close>

fun fill_inputs :: "(nat \<Rightarrow> tx \<Rightarrow> input_account_t \<Rightarrow> string option) \<Rightarrow> nat \<Rightarrow> input_account_t list \<Rightarrow> tx \<Rightarrow> tx option" where
  "fill_inputs g n [] t = Some t"
| "fill_inputs g n (a # as) t =
     (case g n t a of None \<Rightarrow> None | Some s \<Rightarrow> fill_inputs g (Suc n) as (fill_input t n s))"

definition sign_inputs :: "env \<Rightarrow> wallet \<Rightarrow> byte \<Rightarrow> input_account_t list \<Rightarrow> tx \<Rightarrow> tx option" where
  "sign_inputs e w sigcodes accs t =
     (if same_sigmsg_across_inputs sigcodes
      then (case tx_get_hash (e_jbuf e) t 0 sigcodes of
              None \<Rightarrow> None
            | Some h \<Rightarrow> fill_inputs (\<lambda>n t a. generate_lpi_hash e w h sigcodes (ia_address a) (locking_program a)) 0 accs t)
      else fill_inputs (\<lambda>n t a. generate_lpi e w t n sigcodes (ia_address a) (locking_program a)) 0 accs t)"

text \<open>The transaction before it is signed; \<open>now\<close> is the time stamp of its construction.\<close>

definition payment_tx :: "u64 \<Rightarrow> input_account_t list \<Rightarrow> p2pkh_input \<Rightarrow> tx" where
  "payment_tx now accs i =
     add_output (foldl (\<lambda>t a. add_input t (ia_address a) (withdraw_amount a) []) \<lparr>inputs = [], outputs = [], ts = now\<rparr> accs)
       (rcpt_addr i) (pay_amount i) p2pkh_locking_program_hash"

definition tx_make_p2pkh :: "wallet_env \<Rightarrow> backend \<Rightarrow> u64 \<Rightarrow> p2pkh_input \<Rightarrow> wallet \<Rightarrow> ((string + tx) \<times> wallet) option" where
  "tx_make_p2pkh e bk now i w =
     (case select_sources e bk (wrap64 (pay_amount i + pay_fee i)) w of
        None \<Rightarrow> None
      | Some (Inl r, w) \<Rightarrow> Some (Inl r, w)
      | Some (Inr accs, w) \<Rightarrow>
          (if accs = [] then Some (Inl ''Error. Insufficient balance'', w)
           else if get_withdraw_amount accs \<noteq> wrap64 (pay_amount i + pay_fee i)
           then Some (Inl ''Error. Inconsistency on amounts.'', w)
           else let t = payment_tx now accs i; fee = tx_check t
                in if fee < 1 then Some (Inl (''Failed check. fees are '' @ show_int fee), w)
                   else (case sign_inputs (w_env e) w (combine (sigcode_inputs i) (sigcode_outputs i)) accs t of
                           None \<Rightarrow> None
                         | Some t \<Rightarrow>
                             (if \<not> sendover i then Some (Inr t, w)
                              else map_option (\<lambda>r. (result r t, w)) (wallet_send bk t)))))"

text \<open>Signing a transaction somebody else made: inputs that are unlocked already stay as they are.\<close>

fun sign_loop :: "wallet_env \<Rightarrow> wallet \<Rightarrow> byte \<Rightarrow> accounts_t \<Rightarrow> nat \<Rightarrow> input_t list \<Rightarrow> tx \<Rightarrow> (string + tx) option" where
  "sign_loop e w sigcodes bases n [] t = Some (Inr t)"
| "sign_loop e w sigcodes bases n (i # is) t =
     (case om_find bases (iaddress i) of
        None \<Rightarrow> Some (Inl ''Error. Address not found.'')
      | Some src \<Rightarrow>
          (if unlock_env (w_env e) (iaddress i) n (locking_program src) (locking_program_input i) t
           then sign_loop e w sigcodes bases (Suc n) is t
           else case generate_lpi (w_env e) w t n sigcodes (iaddress i) (locking_program src) of
                  None \<Rightarrow> None
                | Some s \<Rightarrow>
                    (let t = fill_input t n s
                     in sign_loop e w sigcodes bases (Suc n) is
                          (if unlock_env (w_env e) (iaddress i) n (locking_program src) s t then t else fill_input t n []))))"

definition tx_sign :: "wallet_env \<Rightarrow> backend \<Rightarrow> string \<Rightarrow> sigcode \<Rightarrow> sigcode \<Rightarrow> wallet \<Rightarrow> (string + tx) option" where
  "tx_sign e bk txb58 sci sco w =
     (case tx_from_b58 (fst (e_jtx (w_env e))) (snd (e_jtx (w_env e))) txb58 of
        Inl r \<Rightarrow> Some (Inl r)
      | Inr t \<Rightarrow>
          (case query_accounts e bk (map iaddress (inputs t)) of
             None \<Rightarrow> None
           | Some (Inl r) \<Rightarrow> Some (Inl r)
           | Some (Inr bases) \<Rightarrow> sign_loop e w (combine sci sco) bases 0 (inputs t) t))"

section \<open>The request as text\<close>

definition p2pkh_to_stream :: "p2pkh_input \<Rightarrow> string" where
  "p2pkh_to_stream i = show_hash (rcpt_addr i) @ '' '' @ show_int (pay_amount i) @ '' '' @ show_int (pay_fee i) @ '' ''
     @ show_int (uint (sigcode_inputs i)) @ '' '' @ show_int (uint (sigcode_outputs i)) @ '' '' @ (if sendover i then ''1'' else ''0'')"

text \<open>Reading a boolean: another number is true, with \<open>failbit\<close>. \<open>junk\<close> is the uninitialised object.\<close>

definition read_bool :: "bool \<Rightarrow> istream \<Rightarrow> bool \<times> istream" where
  "read_bool junk is =
     (case read_signed 64 is of
        (None, is) \<Rightarrow> (junk, is)
      | (Some n, is) \<Rightarrow> (n \<noteq> 0, if n = 0 \<or> n = 1 then is else setfail is))"

definition read_cash :: "int \<Rightarrow> istream \<Rightarrow> int \<times> istream" where
  "read_cash junk is = (case read_signed 64 is of (None, is) \<Rightarrow> (junk, is) | (Some n, is) \<Rightarrow> (n, is))"

definition p2pkh_from_stream :: "int \<Rightarrow> p2pkh_input \<Rightarrow> istream \<Rightarrow> p2pkh_input \<times> istream" where
  "p2pkh_from_stream jx junk is =
     (let (a, is) = read_hash hash_zero is;
          (m, is) = read_cash (pay_amount junk) is;
          (f, is) = read_cash (pay_fee junk) is;
          (ci, is) = read_int jx is;
          (co, is) = read_int jx is;
          (b, is) = read_bool (sendover junk) is
      in (\<lparr>rcpt_addr = a, pay_amount = m, pay_fee = f, sigcode_inputs = of_int ci, sigcode_outputs = of_int co, sendover = b\<rparr>, is))"

section \<open>Lemmas on the selection\<close>

abbreviation full :: "hash_t \<times> account_t \<Rightarrow> input_account_t" where
  "full x \<equiv> \<lparr>locking_program = locking_program (snd x), box = box (snd x), ia_address = fst x, withdraw_amount = box (snd x)\<rparr>"

abbreviation part :: "hash_t \<times> account_t \<Rightarrow> int \<Rightarrow> input_account_t" where
  "part x m \<equiv> \<lparr>locking_program = locking_program (snd x), box = box (snd x), ia_address = fst x, withdraw_amount = m\<rparr>"

definition boxes :: "(hash_t \<times> account_t) list \<Rightarrow> int" where
  "boxes v = (\<Sum>x \<leftarrow> v. box (snd x))"

lemma boxes_simps [simp]: "boxes [] = 0" "boxes (x # v) = box (snd x) + boxes v" "boxes (u @ v) = boxes u + boxes v"
  by (simp_all add: boxes_def)

lemma boxes_nonneg: "\<forall>x \<in> set v. 0 < box (snd x) \<Longrightarrow> 0 \<le> boxes v"
  unfolding boxes_def by (rule sum_list_nonneg) auto

text \<open>The loop empties a prefix of the accounts and takes the rest of the amount from the next one.\<close>

lemma take_sources_shape:
  assumes "\<forall>x \<in> set v. 0 < box (snd x)" "0 \<le> r" "in64 r"
  obtains n where "n \<le> length v" "boxes (take n v) \<le> r" "n = length v \<or> r - boxes (take n v) < box (snd (v ! n))"
    "take_sources r v = map full (take n v) @ (if n < length v then [part (v ! n) (r - boxes (take n v))] else [])"
proof -
  have "\<exists>n \<le> length v. boxes (take n v) \<le> r \<and> (n = length v \<or> r - boxes (take n v) < box (snd (v ! n))) \<and>
    take_sources r v = map full (take n v) @ (if n < length v then [part (v ! n) (r - boxes (take n v))] else [])"
    using assms
  proof (induction v arbitrary: r)
    case (Cons x v)
    obtain h a where x: "x = (h, a)" by (cases x)
    show ?case
    proof (cases "box a \<le> r")
      case False
      then show ?thesis using Cons.prems by (intro exI [of _ 0]) (simp add: x)
    next
      case True
      then have i: "in64 (r - box a)" using Cons.prems by (auto simp: in64_def x)
      obtain n where n: "n \<le> length v" "boxes (take n v) \<le> r - box a"
          "n = length v \<or> r - box a - boxes (take n v) < box (snd (v ! n))"
          "take_sources (r - box a) v = map full (take n v) @ (if n < length v then [part (v ! n) (r - box a - boxes (take n v))] else [])"
        using Cons.IH [of "r - box a"] Cons.prems True i by auto
      have "take_sources r (x # v) = full x # take_sources (r - box a) v" using True i by (simp add: x wrap64_id)
      then show ?thesis using n by (intro exI [of _ "Suc n"]) (simp add: x algebra_simps)
    qed
  qed simp
  then show ?thesis using that by blast
qed

lemma fold_withdraw: "foldl (\<lambda>w i. wrap64 (w + withdraw_amount i)) s v = wrap64 (s + (\<Sum>i \<leftarrow> v. withdraw_amount i))" if "in64 s"
  using that
proof (induction v arbitrary: s)
  case (Cons i v)
  have "foldl (\<lambda>w i. wrap64 (w + withdraw_amount i)) s (i # v) = wrap64 (wrap64 (s + withdraw_amount i) + (\<Sum>i \<leftarrow> v. withdraw_amount i))"
    using Cons.IH [of "wrap64 (s + withdraw_amount i)"] by simp
  then show ?case by (simp add: wrap64_add_left add.assoc)
qed (simp add: wrap64_id)

lemma get_withdraw_amount_eq: "get_withdraw_amount v = wrap64 (\<Sum>i \<leftarrow> v. withdraw_amount i)"
  using fold_withdraw [of 0 v] by (simp add: get_withdraw_amount_def in64_def)

text \<open>What is withdrawn altogether: the amount, or everything there is.\<close>

lemma take_sources_sum:
  assumes "\<forall>x \<in> set v. 0 < box (snd x)" "0 \<le> r" "in64 r"
  shows "(\<Sum>i \<leftarrow> take_sources r v. withdraw_amount i) = min r (boxes v)"
proof -
  obtain n where n: "n \<le> length v" "boxes (take n v) \<le> r" "n = length v \<or> r - boxes (take n v) < box (snd (v ! n))"
      "take_sources r v = map full (take n v) @ (if n < length v then [part (v ! n) (r - boxes (take n v))] else [])"
    by (rule take_sources_shape [OF assms])
  have f: "(\<Sum>i \<leftarrow> map full u. withdraw_amount i) = boxes u" for u by (simp add: boxes_def comp_def)
  show ?thesis
  proof (cases "n < length v")
    case True
    have "boxes v = boxes (take n v) + (box (snd (v ! n)) + boxes (drop (Suc n) v))"
      by (metis True boxes_simps(2,3) append_take_drop_id Cons_nth_drop_Suc)
    moreover have "0 \<le> boxes (drop (Suc n) v)" using assms(1) by (intro boxes_nonneg) (auto dest: in_set_dropD)
    ultimately show ?thesis using n True f [of "take n v"] by simp
  next
    case False
    then show ?thesis using n f [of v] by simp
  qed
qed

text \<open>No input is empty unless the amount is the sum of the smallest balances and there are more accounts.\<close>

definition splits_evenly :: "int \<Rightarrow> (hash_t \<times> account_t) list \<Rightarrow> bool" where
  "splits_evenly r v \<longleftrightarrow> (\<exists>n < length v. boxes (take n v) = r)"

lemma take_sources_positive:
  assumes "\<forall>x \<in> set v. 0 < box (snd x)" "0 \<le> r" "in64 r"
  shows "(\<forall>i \<in> set (take_sources r v). 0 < withdraw_amount i) \<longleftrightarrow> \<not> splits_evenly r v"
proof -
  obtain n where n: "n \<le> length v" "boxes (take n v) \<le> r" "n = length v \<or> r - boxes (take n v) < box (snd (v ! n))"
      "take_sources r v = map full (take n v) @ (if n < length v then [part (v ! n) (r - boxes (take n v))] else [])"
    by (rule take_sources_shape [OF assms])
  have p: "\<forall>x \<in> set (take n v). 0 < box (snd x)" using assms(1) by (auto dest: in_set_takeD)
  have mono: "boxes (take k v) < boxes (take m v)" if "k < m" "m \<le> length v" for k m
  proof -
    have t: "take m v = take k v @ take (m - k) (drop k v)" using that by (metis take_add le_add_diff_inverse less_imp_le)
    have d: "drop k v = v ! k # drop (Suc k) v" using that by (simp add: Cons_nth_drop_Suc)
    obtain j where j: "m - k = Suc j" using Suc_diff_Suc [OF \<open>k < m\<close>] by metis
    have "0 < box (snd (v ! k))" using assms(1) that by simp
    moreover have "0 \<le> boxes (take j (drop (Suc k) v))" using assms(1) by (intro boxes_nonneg) (auto dest!: in_set_takeD in_set_dropD)
    ultimately show ?thesis by (simp add: t d j)
  qed
  have "splits_evenly r v \<longleftrightarrow> n < length v \<and> boxes (take n v) = r"
  proof
    assume "splits_evenly r v"
    then obtain k where k: "k < length v" "boxes (take k v) = r" by (auto simp: splits_evenly_def)
    have "\<not> n < k" using mono [of "Suc n" k] mono [of n k] n(2,3) k by (cases "Suc n = k") (auto simp: take_Suc_conv_app_nth)
    moreover have "\<not> k < n" using mono [of k n] n(1,2) k by auto
    ultimately show "n < length v \<and> boxes (take n v) = r" using k by (simp add: not_less_iff_gr_or_eq)
  qed (auto simp: splits_evenly_def)
  then show ?thesis using n p by (auto simp: not_less)
qed

section \<open>Lemmas on signing\<close>

text \<open>Two transactions that differ in the unlocking data only.\<close>

definition same_payment :: "tx \<Rightarrow> tx \<Rightarrow> bool" where
  "same_payment t t' \<longleftrightarrow> map (\<lambda>i. (iaddress i, iamount i)) (inputs t') = map (\<lambda>i. (iaddress i, iamount i)) (inputs t)
     \<and> outputs t' = outputs t \<and> ts t' = ts t"

lemma same_payment_hash: "same_payment t t' \<Longrightarrow> tx_get_hash jb t' k sc = tx_get_hash jb t k sc"
  unfolding same_payment_def by (elim conjE) (rule sigmsg_same_inputs)

lemma same_payment_length: "same_payment t t' \<Longrightarrow> length (inputs t') = length (inputs t)"
  unfolding same_payment_def by (metis length_map)

lemma same_payment_nth:
  assumes "same_payment t t'" "k < length (inputs t)"
  shows "iaddress (inputs t' ! k) = iaddress (inputs t ! k)" "iamount (inputs t' ! k) = iamount (inputs t ! k)"
proof -
  have "map (\<lambda>i. (iaddress i, iamount i)) (inputs t') ! k = map (\<lambda>i. (iaddress i, iamount i)) (inputs t) ! k"
    using assms(1) by (simp add: same_payment_def)
  then show "iaddress (inputs t' ! k) = iaddress (inputs t ! k)" "iamount (inputs t' ! k) = iamount (inputs t ! k)"
    using assms same_payment_length [OF assms(1)] by simp_all
qed

lemma same_payment_check: "same_payment t t' \<Longrightarrow> tx_check t' = tx_check t"
proof -
  assume s: "same_payment t t'"
  then have "map snd (map (\<lambda>i. (iaddress i, iamount i)) (inputs t')) = map snd (map (\<lambda>i. (iaddress i, iamount i)) (inputs t))"
    by (simp add: same_payment_def)
  then have "map iamount (inputs t') = map iamount (inputs t)" by (simp add: comp_def)
  moreover have "outputs t' = outputs t" using s by (simp add: same_payment_def)
  ultimately show ?thesis by (simp only: tx_check_def)
qed

lemma same_payment_refl [simp]: "same_payment t t"
  by (simp add: same_payment_def)

lemma same_payment_trans: "same_payment t u \<Longrightarrow> same_payment u v \<Longrightarrow> same_payment t v"
  by (simp add: same_payment_def)

lemma same_payment_fill [simp]: "same_payment t (fill_input t i l)"
proof -
  have "(\<lambda>x. (iaddress x, iamount x)) ((inputs t ! i)\<lparr>locking_program_input := l\<rparr>) = (iaddress (inputs t ! i), iamount (inputs t ! i))"
    by simp
  then show ?thesis
    by (cases "i < length (inputs t)") (simp_all add: same_payment_def fill_input_def map_update list_update_same_conv list_update_beyond)
qed

lemma fill_inputs_spec:
  assumes "\<And>n t l i a. g n (fill_input t i l) a = g n t a"
    and "n + length as \<le> length (inputs t)" "length ls = length as" "\<And>k. k < length as \<Longrightarrow> g (n + k) t (as ! k) = Some (ls ! k)"
  shows "\<exists>t'. fill_inputs g n as t = Some t' \<and> same_payment t t'
    \<and> (\<forall>k < length as. locking_program_input (inputs t' ! (n + k)) = ls ! k) \<and> (\<forall>j < n. inputs t' ! j = inputs t ! j)"
  using assms(2-4)
proof (induction "as" arbitrary: n t ls)
  case (Cons a "as")
  obtain l ls' where ls: "ls = l # ls'" using Cons.prems(2) by (cases ls) auto
  let ?t = "fill_input t n l"
  have g: "g n t a = Some l" using Cons.prems(3) [of 0] by (simp add: ls)
  have g': "g (Suc n + k) ?t (as ! k) = Some (ls' ! k)" if "k < length as" for k
    using Cons.prems(3) [of "Suc k"] that by (simp add: ls assms(1))
  have len: "Suc n + length as \<le> length (inputs ?t)" using Cons.prems(1) by (simp add: fill_input_def)
  obtain t' where t': "fill_inputs g (Suc n) as ?t = Some t'" "same_payment ?t t'"
      "\<forall>k < length as. locking_program_input (inputs t' ! (Suc n + k)) = ls' ! k" "\<forall>j < Suc n. inputs t' ! j = inputs ?t ! j"
    using Cons.IH [OF len _ g'] Cons.prems(2) by (auto simp: ls)
  have "locking_program_input (inputs t' ! n) = l" using t'(4) Cons.prems(1) by (simp add: fill_input_def)
  then have "\<forall>k < length (a # as). locking_program_input (inputs t' ! (n + k)) = ls ! k"
    using t'(3) by (auto simp: ls nth_Cons split: nat.split)
  moreover have "\<forall>j < n. inputs t' ! j = inputs t ! j" using t'(4) by (simp add: fill_input_def)
  ultimately show ?case using t'(1,2) g same_payment_trans [OF same_payment_fill] by auto
qed simp

definition wallet_ok :: "env \<Rightarrow> wallet \<Rightarrow> bool" where
  "wallet_ok e w \<longleftrightarrow> um_ok (wkeys w)
     \<and> (\<forall>(h, k) \<in> set (wkeys w). good_keys (e_lib e) k \<and> h = pub_compute_hash (e_lib e) (e_jbuf e) (pub k))"

lemma wallet_keys:
  assumes "wallet_ok e w" "h \<in> um_keys (wkeys w)"
  obtains k where "get_keys w h = Some k" "good_keys (e_lib e) k" "h = pub_compute_hash (e_lib e) (e_jbuf e) (pub k)"
proof -
  obtain k where "um_find (wkeys w) h = Some k" using assms(2) um_find_None by fastforce
  moreover from this have "(h, k) \<in> set (wkeys w)" by (simp add: um_find_def map_of_SomeD)
  ultimately show ?thesis using that assms(1) by (auto simp: wallet_ok_def get_keys_def)
qed

text \<open>The wallet can sign for every account it owns, whatever the other inputs are.\<close>

lemma generate_lpi_unlocks:
  assumes "wallet_ok e w" "length (e_jbuf e) = 64" "h \<in> um_keys (wkeys w)" "n < length (inputs t)"
  obtains l where "generate_lpi e w t n sc h (hash_set 1) = Some l"
    "\<And>t'. same_payment t t' \<Longrightarrow> unlock_env e h n (hash_set 1) l t'"
proof -
  obtain k where k: "get_keys w h = Some k" "good_keys (e_lib e) k" "h = pub_compute_hash (e_lib e) (e_jbuf e) (pub k)"
    by (rule wallet_keys [OF assms(1,3)])
  obtain l where l: "create_input (e_lib e) (e_jbuf e) (e_jkey e) t n sc (priv k) = Some l"
      "\<forall>t'. tx_get_hash (e_jbuf e) t' n sc = tx_get_hash (e_jbuf e) t n sc \<longrightarrow>
        unlock (ec_of (e_lib e) (e_jbuf e) (e_jkey e)) (e_prog e) (e_jbuf e) (e_jquery e) h n p2pkh_locking_program_hash l t'"
    by (rule created_input_unlocks [OF k(2,3) assms(2,4), where jk = "e_jkey e" and sc = sc and prog = "e_prog e" and jint = "e_jquery e"])
  have "hash_less (hash_set 1) min_locking_program \<and> \<not> hash_eq (hash_set 1) (hash_set 0) \<and> hash_eq (hash_set 1) (hash_set 1)"
    by (simp add: min_locking_program_def hash_set_def)
  then have "generate_lpi e w t n sc h (hash_set 1) = Some l" using k(1) l(1) by (simp add: generate_lpi_def)
  then show ?thesis using that l(2) same_payment_hash by (simp add: unlock_env_def p2pkh_locking_program_hash_def)
qed

lemma generate_lpi_fill: "generate_lpi e w (fill_input t i l) n sc h lp = generate_lpi e w t n sc h lp"
  by (simp add: generate_lpi_def create_input_def fill_input_hash split: option.split)

lemma sign_inputs_unlocks:
  assumes "wallet_ok e w" "length (e_jbuf e) = 64" "\<not> same_sigmsg_across_inputs sc" "length accs = length (inputs t)"
    and "\<forall>a \<in> set accs. ia_address a \<in> um_keys (wkeys w) \<and> locking_program a = hash_set 1"
  obtains t' where "sign_inputs e w sc accs t = Some t'" "same_payment t t'"
    "\<And>k t''. k < length accs \<Longrightarrow> same_payment t t'' \<Longrightarrow>
      unlock_env e (ia_address (accs ! k)) k (hash_set 1) (locking_program_input (inputs t' ! k)) t''"
proof -
  let ?g = "\<lambda>n t a. generate_lpi e w t n sc (ia_address a) (locking_program a)"
  have "\<exists>l. ?g k t (accs ! k) = Some l \<and> (\<forall>t'. same_payment t t' \<longrightarrow> unlock_env e (ia_address (accs ! k)) k (hash_set 1) l t')"
    if "k < length accs" for k
  proof -
    have a: "ia_address (accs ! k) \<in> um_keys (wkeys w)" "locking_program (accs ! k) = hash_set 1" using assms(5) that by simp_all
    from that assms(4) have "k < length (inputs t)" by simp
    from generate_lpi_unlocks [OF assms(1,2) a(1) this, of sc] show ?thesis using a(2) by metis
  qed
  then obtain f where f: "\<And>k. k < length accs \<Longrightarrow> ?g k t (accs ! k) = Some (f k)"
      "\<And>k t'. k < length accs \<Longrightarrow> same_payment t t' \<Longrightarrow> unlock_env e (ia_address (accs ! k)) k (hash_set 1) (f k) t'"
    by metis
  let ?ls = "map f [0..<length accs]"
  have "\<exists>t'. fill_inputs ?g 0 accs t = Some t' \<and> same_payment t t'
      \<and> (\<forall>k < length accs. locking_program_input (inputs t' ! (0 + k)) = ?ls ! k) \<and> (\<forall>j < 0. inputs t' ! j = inputs t ! j)"
    by (rule fill_inputs_spec) (use f(1) assms(4) in \<open>simp_all add: generate_lpi_fill\<close>)
  then obtain t' where t': "fill_inputs ?g 0 accs t = Some t'" "same_payment t t'"
      "\<forall>k < length accs. locking_program_input (inputs t' ! k) = ?ls ! k" by auto
  have "sign_inputs e w sc accs t = Some t'" using assms(3) t'(1) by (simp add: sign_inputs_def)
  then show ?thesis using that t'(2,3) f(2) by simp
qed

end
