(* ===== verification/Wallet_Node.thy ===== *)
theory Wallet_Node
  imports Wallet Engine
begin

text \<open>
  The wallet and the node together: the answers of the wallet's backend are those of the handler of
  queries of the node, and the transactions it makes are processed by the cash application of the node.
\<close>

section \<open>The node as a backend\<close>

text \<open>What the node \<open>d\<close> answers to the peer \<open>c\<close>. An answer that ends the node is an error for the wallet.\<close>

definition node_answer :: "env \<Rightarrow> nat \<Rightarrow> daemon \<Rightarrow> datagram \<Rightarrow> string + datagram" where
  "node_answer e c d g =
     (case process_app_query e c g d of
        Some (True, _, (_, r) # _) \<Rightarrow> Inr r
      | _ \<Rightarrow> Inl ''Error. Connection closed by peer.'')"

definition node_backend :: "env \<Rightarrow> nat \<Rightarrow> daemon \<Rightarrow> backend" where
  "node_backend e c d = \<lparr>bk_query = node_answer e c d, bk_send = (\<lambda>g. [])\<rparr>"

section \<open>Query and answer\<close>

lemma show_nat_length: "n < 10 ^ k \<Longrightarrow> 0 < k \<Longrightarrow> length (show_nat n) \<le> k"
proof (induction k arbitrary: n)
  case (Suc k)
  show ?case
  proof (cases "n < 10")
    case False
    then have k: "0 < k" using Suc.prems(1) by (cases k) auto
    have "n div 10 < 10 ^ k" using Suc.prems(1) by (simp add: less_mult_imp_div_less mult.commute)
    then show ?thesis using Suc.IH [of "n div 10"] k False by (subst show_nat.simps) simp
  qed (subst show_nat.simps, simp)
qed simp

lemma show_int_length: "in64 i \<Longrightarrow> length (show_int i) \<le> 20"
proof -
  assume "in64 i"
  then have "nat (- i) < 10 ^ 19" "nat i < 10 ^ 19" by (auto simp: in64_def)
  from show_nat_length [OF this(1)] show_nat_length [OF this(2)] show ?thesis by (simp add: show_int_def)
qed

lemma concat_length: "\<forall>x \<in> set xs. length (f x) \<le> n \<Longrightarrow> length (concat (map f xs)) \<le> n * length xs"
  by (induction xs) (auto simp: algebra_simps intro: add_le_mono)

lemma read_hashes_written:
  "read_hashes (length q) (istr (CHR '' '' # concat (map (\<lambda>a. show_hash a @ '' '') q) @ r)) = (q, istr (CHR '' '' # r))"
  by (induction q) (simp_all add: stream_simps)

lemma query_text_read:
  assumes "query_text q = Some s" "length q < 2 ^ 31"
  shows "query_from_string j s = Some q"
proof -
  have q: "q \<noteq> []" and s: "s = show_int (int (length q)) @ CHR '' '' # concat (map (\<lambda>a. show_hash a @ '' '') q)"
    using assms(1) by (auto simp: query_text_def show_int_def split: if_splits)
  have "read_signed 32 (istr s) = (Some (int (length q)), istr (CHR '' '' # concat (map (\<lambda>a. show_hash a @ '' '') q)))"
    unfolding s using assms(2) by (intro read_signed_show) simp_all
  then show ?thesis using read_hashes_written [of q "[]"] by (simp add: query_from_string_def)
qed

lemma no_nul_query: "query_text q = Some s \<Longrightarrow> c_str s = s"
  by (intro c_str_id) (auto simp: query_text_def split: if_splits)

lemma query_text_fits: "query_text q = Some s \<Longrightarrow> length q \<le> 1000 \<Longrightarrow> length s \<le> 50000"
proof -
  assume s: "query_text q = Some s" and l: "length q \<le> 1000"
  have "length (concat (map (\<lambda>a. show_hash a @ '' '') q)) \<le> 42 * length q"
    using show_hash_short by (intro concat_length) simp
  moreover have "length (show_nat (length q)) \<le> 4" using l show_nat_length [of "length q" 4] by simp
  ultimately show ?thesis using s l by (auto simp: query_text_def split: if_splits)
qed

text \<open>The account the node reports for an address.\<close>

definition reported :: "accounts_t \<Rightarrow> hash_t \<Rightarrow> account_t" where
  "reported m a = (case om_find m a of Some x \<Rightarrow> x | None \<Rightarrow> \<lparr>locking_program = hash_set 0, box = 0\<rparr>)"

lemma cash_query_reported:
  "query_from_string j s = Some q \<Longrightarrow> cash_query j app tip s =
     Some (''0 '' @ concat (map (\<lambda>a. account_to_stream (reported (db_accounts (db app)) a)) q) @ '' '' @ show_hash tip)"
  by (simp add: cash_query_def reported_def)

lemma account_text_fits: "in64 (box a) \<Longrightarrow> length (account_to_stream a) \<le> 63"
  using show_hash_short [of "locking_program a"] show_int_length [of "box a"] by (simp add: account_to_stream_def)

lemma no_nul_account: "CHR 0x00 \<notin> set (account_to_stream a)"
  by (simp add: account_to_stream_def)

text \<open>The accounts of the wallet among those of the ledger.\<close>

definition owned :: "accounts_t \<Rightarrow> hash_t set \<Rightarrow> accounts_t" where
  "owned m K = filter (\<lambda>(a, x). a \<in> K \<and> box x > 0) m"

lemma owned_ok: "om_ok m \<Longrightarrow> om_ok (owned m K)"
  unfolding om_ok_def owned_def by (induction m) auto

lemma owned_find:
  "om_ok m \<Longrightarrow> om_find (owned m K) a = (if a \<in> K \<and> box (reported m a) > 0 then om_find m a else None)"
proof (induction m)
  case (Cons y m)
  obtain k x where y: "y = (k, x)" by (cases y)
  have "om_ok m" "k \<notin> fst ` set m" using Cons.prems by (auto simp: y om_ok_Cons)
  then have n: "om_find m k = None" by (simp add: om_find_None)
  have i: "om_find (owned m K) a = (if a \<in> K \<and> box (reported m a) > 0 then om_find m a else None)"
    using Cons.IH \<open>om_ok m\<close> by simp
  show ?case
  proof (cases "a = k")
    case True
    then show ?thesis using i n by (simp add: y owned_def reported_def om_find_def)
  next
    case False
    then show ?thesis using i by (simp add: y owned_def reported_def om_find_def)
  qed
qed (simp add: owned_def om_find_def)

lemma read_answer_written:
  assumes "\<forall>a \<in> set q. in64 (box (f a))" "om_ok m"
  shows "om_ok (read_answer q m (istr (CHR '' '' # concat (map (\<lambda>a. account_to_stream (f a)) q) @ r)))
    \<and> om_find (read_answer q m (istr (CHR '' '' # concat (map (\<lambda>a. account_to_stream (f a)) q) @ r))) k =
      (case om_find m k of Some x \<Rightarrow> Some x | None \<Rightarrow> if k \<in> set q \<and> box (f k) > 0 then Some (f k) else None)"
  using assms
proof (induction q arbitrary: m)
  case (Cons a q)
  let ?m = "if box (f a) > 0 then om_emplace a (f a) m else m"
  have ok: "om_ok ?m" using Cons.prems(2) by (simp add: om_ok_emplace)
  have "read_answer (a # q) m (istr (CHR '' '' # concat (map (\<lambda>a. account_to_stream (f a)) (a # q)) @ r)) =
      read_answer q ?m (istr (CHR '' '' # concat (map (\<lambda>a. account_to_stream (f a)) q) @ r))"
    using Cons.prems(1) account_read_written [of "f a"] by simp
  then show ?case
    using Cons.IH [of ?m] Cons.prems ok by (auto simp: om_find_emplace split: option.splits)
qed (simp split: option.split)

text \<open>Refreshing: the wallet sees its accounts as the ledger of the node has them.\<close>

lemma refresh_node:
  assumes "wkeys w \<noteq> []" "length (wkeys w) \<le> 1000" "w_err e \<noteq> svc_cash_response"
    and "om_ok (db_accounts (db (cash d)))" "\<forall>x \<in> snd ` set (db_accounts (db (cash d))). in64 (box x)"
  shows "refresh e (node_backend (w_env e) c d) w =
    Some ([], w\<lparr>wdata := owned (db_accounts (db (cash d))) (um_keys (wkeys w))\<rparr>)"
proof -
  let ?m = "db_accounts (db (cash d))" and ?q = "map fst (wkeys w)" and ?j = "e_jquery (w_env e)"
  obtain s where s: "query_text ?q = Some s" using assms(1) by (simp add: query_text_def)
  have "length s \<le> 50000" using query_text_fits [OF s] assms(2) by simp
  then obtain g where g: "datagram_str svc_cash_query s = Some g" by (simp add: datagram_str_eq datagram_maxsize_def)
  have sg: "service g = svc_cash_query" using g by (auto simp: datagram_str_eq split: if_splits)
  have pg: "parse_string g = s" using datagram_payload_roundtrip [OF g] no_nul_query [OF s] by simp
  let ?t = "concat (map (\<lambda>a. account_to_stream (reported ?m a)) ?q) @ '' '' @ show_hash (chaininfo_tip d)"
  have f: "in64 (box (reported ?m a))" for a
    using assms(5) by (auto simp: reported_def om_find_def in64_def dest!: map_of_SomeD split: option.split)
  have "length (concat (map (\<lambda>a. account_to_stream (reported ?m a)) ?q)) \<le> 63 * length ?q"
    using account_text_fits [OF f] by (intro concat_length) simp
  then have "length (''0 '' @ ?t) \<le> 70000" using assms(2) show_hash_short [of "chaininfo_tip d"] by simp
  then obtain x where x: "datagram_str svc_cash_response (''0 '' @ ?t) = Some x" by (simp add: datagram_str_eq datagram_maxsize_def)
  have sx: "service x = svc_cash_response" using x by (auto simp: datagram_str_eq split: if_splits)
  have "CHR 0x00 \<notin> set (''0 '' @ ?t)" using no_nul_account by auto
  then have px: "parse_string x = ''0 '' @ ?t" using datagram_payload_roundtrip [OF x] c_str_id by simp
  have "length ?q < 2 ^ 31" using assms(2) by simp
  note qs = query_text_read [OF s this]
  have "node_answer (w_env e) c d g = Inr x"
    using sg pg x cash_query_reported [OF qs, of ?j "cash d" "chaininfo_tip d"]
    by (simp add: node_answer_def process_app_query_def send_all_def)
  moreover have "show_int 0 = ''0''" by code_simp
  then have "read_signed 32 (istr (parse_string x)) = (Some 0, istr (CHR '' '' # ?t))"
    using read_signed_show [of 32 0 "CHR '' ''" ?t] by (simp add: px)
  then have "read_int ?j (istr (parse_string x)) = (0, istr (CHR '' '' # ?t))" by (simp add: read_int_def)
  ultimately have "query_accounts e (node_backend (w_env e) c d) ?q = Some (Inr (read_answer ?q om_empty (istr (CHR '' '' # ?t))))"
    using s g sx assms(3) by (simp add: query_accounts_def node_backend_def)
  moreover have "read_answer ?q om_empty (istr (CHR '' '' # ?t)) = owned ?m (um_keys (wkeys w))"
  proof (rule om_ext)
    note a = read_answer_written [of ?q "reported ?m" om_empty "'' '' @ show_hash (chaininfo_tip d)", OF _ om.ok_empty]
    show "om_ok (read_answer ?q om_empty (istr (CHR '' '' # ?t)))" using a f by simp
    show "om_ok (owned ?m (um_keys (wkeys w)))" using owned_ok [OF assms(4)] .
    fix k
    have "om_find ?m k = Some (reported ?m k)" if "0 < box (reported ?m k)" using that by (auto simp: reported_def split: option.splits)
    then show "om_find (read_answer ?q om_empty (istr (CHR '' '' # ?t))) k = om_find (owned ?m (um_keys (wkeys w))) k"
      using a [of k] f by (simp add: om.find_empty owned_find [OF assms(4)] um_keys_def)
  qed
  ultimately show ?thesis by (simp add: refresh_def)
qed

section \<open>Payments\<close>

text \<open>What the selection takes: different accounts, each with its locking program and no more than its balance.\<close>

lemma take_sources_from:
  assumes "\<forall>x \<in> set v. 0 < box (snd x)" "0 \<le> r" "in64 r"
  shows "(\<forall>a \<in> set (take_sources r v). \<exists>x \<in> set v. ia_address a = fst x \<and> locking_program a = locking_program (snd x)
      \<and> withdraw_amount a \<le> box (snd x))
    \<and> (\<exists>m. map ia_address (take_sources r v) = take m (map fst v))"
proof -
  obtain n where n: "n \<le> length v" "boxes (take n v) \<le> r" "n = length v \<or> r - boxes (take n v) < box (snd (v ! n))"
      "take_sources r v = map full (take n v) @ (if n < length v then [part (v ! n) (r - boxes (take n v))] else [])"
    by (rule take_sources_shape [OF assms])
  show ?thesis
  proof (cases "n < length v")
    case True
    then have "map ia_address (take_sources r v) = take (Suc n) (map fst v)"
      using n(4) by (simp add: take_Suc_conv_app_nth take_map comp_def)
    moreover have "\<exists>x \<in> set v. ia_address a = fst x \<and> locking_program a = locking_program (snd x) \<and> withdraw_amount a \<le> box (snd x)"
      if "a \<in> set (take_sources r v)" for a
    proof -
      from that True n(4) consider x where "x \<in> set (take n v)" "a = full x" | "a = part (v ! n) (r - boxes (take n v))" by auto
      then show ?thesis
      proof cases
        case (1 x)
        then show ?thesis using in_set_takeD [of x n v] by (intro bexI [of _ x]) simp_all
      next
        case 2
        then show ?thesis using n(3) True by (intro bexI [of _ "v ! n"]) simp_all
      qed
    qed
    ultimately show ?thesis by blast
  next
    case False
    then have t: "take_sources r v = map full v" using n(1,4) by simp
    then have "map ia_address (take_sources r v) = take (length v) (map fst v)" by (simp add: comp_def)
    moreover have "\<forall>a \<in> set (take_sources r v). \<exists>x \<in> set v. ia_address a = fst x \<and> locking_program a = locking_program (snd x)
      \<and> withdraw_amount a \<le> box (snd x)" using t by auto
    ultimately show ?thesis by blast
  qed
qed

lemma payment_tx_eq:
  "payment_tx now accs i =
     \<lparr>inputs = map (\<lambda>a. \<lparr>iaddress = ia_address a, iamount = withdraw_amount a, locking_program_input = []\<rparr>) accs,
      outputs = [\<lparr>oaddress = rcpt_addr i, oamount = pay_amount i, olocking_program = p2pkh_locking_program_hash\<rparr>], ts = now\<rparr>"
proof -
  have f: "foldl (\<lambda>t a. add_input t (ia_address a) (withdraw_amount a) []) t as =
      t\<lparr>inputs := inputs t @ map (\<lambda>a. \<lparr>iaddress = ia_address a, iamount = withdraw_amount a, locking_program_input = []\<rparr>) as\<rparr>" for t as
    by (induction "as" arbitrary: t) (simp_all add: add_input_def)
  show ?thesis unfolding payment_tx_def f by (simp add: add_output_def)
qed

lemma payment_fee:
  assumes "\<forall>a \<in> set accs. 0 < withdraw_amount a" "(\<Sum>a \<leftarrow> accs. withdraw_amount a) = pay_amount i + pay_fee i"
    and "0 < pay_amount i" "in64 (pay_fee i)"
  shows "tx_check (payment_tx now accs i) = pay_fee i"
proof -
  have "sum_list (map iamount (inputs (payment_tx now accs i))) = pay_amount i + pay_fee i"
    using assms(2) by (simp add: payment_tx_eq comp_def)
  moreover have "\<not> (\<exists>a \<in> set (map iamount (inputs (payment_tx now accs i)) @ map oamount (outputs (payment_tx now accs i))). a \<le> 0)"
    using assms(1,3) by (auto simp: payment_tx_eq)
  ultimately show ?thesis using assms(4) unfolding tx_check_eq by (simp add: payment_tx_eq)
qed

text \<open>
  The wallet has the funds for a payment: what it owns is known to the node, is locked by its keys, and covers
  the amount and the fee. It can make the payment when these are not the sum of its smallest balances.
\<close>

definition funded :: "wallet_env \<Rightarrow> wallet \<Rightarrow> daemon \<Rightarrow> p2pkh_input \<Rightarrow> bool" where
  "funded e w d i \<longleftrightarrow>
     (let own = owned (db_accounts (db (cash d))) (um_keys (wkeys w)); r = pay_amount i + pay_fee i
      in length (e_jbuf (w_env e)) = 64 \<and> sorts (w_sort e) \<and> w_err e \<noteq> svc_cash_response
         \<and> wkeys w \<noteq> [] \<and> length (wkeys w) \<le> 1000
         \<and> cash_ok (cash d) \<and> (\<forall>x \<in> snd ` set (db_accounts (db (cash d))). in64 (box x))
         \<and> (\<forall>(a, x) \<in> set own. locking_program x = hash_set 1 \<and> om_find (accounts (pool (cash d))) a = None)
         \<and> 0 < pay_amount i \<and> 0 < pay_fee i \<and> in64 r \<and> r \<le> boxes own)"

definition exact_split :: "wallet_env \<Rightarrow> wallet \<Rightarrow> daemon \<Rightarrow> p2pkh_input \<Rightarrow> bool" where
  "exact_split e w d i \<longleftrightarrow>
     splits_evenly (pay_amount i + pay_fee i) (w_sort e (owned (db_accounts (db (cash d))) (um_keys (wkeys w))))"

lemma funded_sources:
  assumes "funded e w d i"
    and "own = owned (db_accounts (db (cash d))) (um_keys (wkeys w))" "r = pay_amount i + pay_fee i"
    and "accs = take_sources r (w_sort e own)"
  shows "select_sources e (node_backend (w_env e) c d) r w = Some (Inr accs, w\<lparr>wdata := own\<rparr>)"
    and "distinct (map ia_address accs)" "(\<Sum>a \<leftarrow> accs. withdraw_amount a) = r"
    and "(\<forall>a \<in> set accs. 0 < withdraw_amount a) \<longleftrightarrow> \<not> exact_split e w d i"
    and "\<forall>a \<in> set accs. ia_address a \<in> um_keys (wkeys w) \<and> locking_program a = hash_set 1 \<and>
      (\<exists>x. om_find own (ia_address a) = Some x \<and> locking_program x = hash_set 1)"
    and "accs \<noteq> []" "boxes (w_sort e own) = boxes own"
proof -
  note p = assms(1) [unfolded funded_def Let_def, folded assms(2,3)]
  have m: "mset (w_sort e own) = mset own" using p by (simp add: sorts_def)
  then have s: "set (w_sort e own) = set own" by (rule mset_eq_setD)
  have "mset (map (box \<circ> snd) (w_sort e own)) = mset (map (box \<circ> snd) own)" using m by simp
  then show b: "boxes (w_sort e own) = boxes own" by (simp add: boxes_def comp_def flip: sum_mset_sum_list)
  have "\<forall>x \<in> set own. 0 < box (snd x)" by (auto simp: assms(2) owned_def)
  then have pos: "\<forall>x \<in> set (w_sort e own). 0 < box (snd x)" by (simp only: s)
  have r: "0 \<le> r" "in64 r" using p by (simp_all add: assms(3))
  have "om_ok own" using p owned_ok by (simp add: cash_ok_def assms(2))
  then have "distinct (map fst own)" by (rule om_ok_distinct)
  moreover have "mset (map fst (w_sort e own)) = mset (map fst own)" using m by simp
  ultimately have d: "distinct (map fst (w_sort e own))" using mset_eq_imp_distinct_iff by blast
  show "select_sources e (node_backend (w_env e) c d) r w = Some (Inr accs, w\<lparr>wdata := own\<rparr>)"
    using p refresh_node [of w e d c] by (simp add: select_sources_def result_def assms(2,4) cash_ok_def)
  note f = take_sources_from [OF pos r]
  show "distinct (map ia_address accs)" using f d by (auto simp: assms(4) distinct_take)
  show su: "(\<Sum>a \<leftarrow> accs. withdraw_amount a) = r" using take_sources_sum [OF pos r] p b by (simp add: assms(4))
  show "(\<forall>a \<in> set accs. 0 < withdraw_amount a) \<longleftrightarrow> \<not> exact_split e w d i"
    using take_sources_positive [OF pos r] by (simp add: assms(2,3,4) exact_split_def)
  have "ia_address a \<in> um_keys (wkeys w) \<and> locking_program a = hash_set 1 \<and>
      (\<exists>x. om_find own (ia_address a) = Some x \<and> locking_program x = hash_set 1)" if a: "a \<in> set accs" for a
  proof -
    obtain h x where x: "(h, x) \<in> set own" "ia_address a = h" "locking_program a = locking_program x"
      using f a by (fastforce simp: assms(4) s)
    have "om_find own h = Some x" using x(1) \<open>distinct (map fst own)\<close> by (simp add: om_find_def)
    moreover have "h \<in> um_keys (wkeys w)" using x(1) by (auto simp: assms(2) owned_def)
    moreover have "locking_program x = hash_set 1" using p x(1) by auto
    ultimately show ?thesis using x by simp
  qed
  then show "\<forall>a \<in> set accs. ia_address a \<in> um_keys (wkeys w) \<and> locking_program a = hash_set 1 \<and>
      (\<exists>x. om_find own (ia_address a) = Some x \<and> locking_program x = hash_set 1)" by blast
  show "accs \<noteq> []" using su p by (auto simp: assms(3))
qed

lemma payment_made:
  assumes "funded e w d i" "wallet_ok (w_env e) w" "\<not> exact_split e w d i" "\<not> same_sigmsg_across_inputs (combine (sigcode_inputs i) (sigcode_outputs i))" "\<not> sendover i"
    and "accs = take_sources (pay_amount i + pay_fee i) (w_sort e (owned (db_accounts (db (cash d))) (um_keys (wkeys w))))"
  obtains t w' where "tx_make_p2pkh e (node_backend (w_env e) c d) now i w = Some (Inr t, w')"
    "same_payment (payment_tx now accs i) t" "tx_check t = pay_fee i"
    "\<forall>k < length accs. unlock_env (w_env e) (ia_address (accs ! k)) k (hash_set 1) (locking_program_input (inputs t ! k)) t"
proof -
  let ?own = "owned (db_accounts (db (cash d))) (um_keys (wkeys w))" and ?sc = "combine (sigcode_inputs i) (sigcode_outputs i)"
  note p = funded_sources [OF assms(1) refl refl assms(6)]
  have pd: "0 < pay_amount i" "0 < pay_fee i" "in64 (pay_amount i + pay_fee i)" "length (e_jbuf (w_env e)) = 64"
    using assms(1) by (simp_all add: funded_def Let_def)
  then have fee: "in64 (pay_fee i)" by (simp add: in64_def)
  let ?t = "payment_tx now accs i" and ?w = "w\<lparr>wdata := ?own\<rparr>"
  have ok: "wallet_ok (w_env e) ?w" using assms(2) by (simp add: wallet_ok_def)
  have len: "length accs = length (inputs ?t)" by (simp add: payment_tx_eq)
  have keys: "\<forall>a \<in> set accs. ia_address a \<in> um_keys (wkeys ?w) \<and> locking_program a = hash_set 1" using p(5) by simp
  obtain t where t: "sign_inputs (w_env e) ?w ?sc accs ?t = Some t" "same_payment ?t t"
      "\<And>k t''. k < length accs \<Longrightarrow> same_payment ?t t'' \<Longrightarrow>
        unlock_env (w_env e) (ia_address (accs ! k)) k (hash_set 1) (locking_program_input (inputs t ! k)) t''"
    using sign_inputs_unlocks [OF ok pd(4) assms(4) len keys] by blast
  have c: "tx_check ?t = pay_fee i" by (rule payment_fee [OF _ p(3) pd(1) fee]) (use p(4) assms(3) in simp)
  have g: "get_withdraw_amount accs = pay_amount i + pay_fee i" using pd(3) by (simp add: get_withdraw_amount_eq p(3))
  have "tx_make_p2pkh e (node_backend (w_env e) c d) now i w = Some (Inr t, ?w)"
    using p(1,6) g c t(1) pd(2,3) assms(5) by (simp add: tx_make_p2pkh_def Let_def)
  then show ?thesis using that t(2,3) c same_payment_check [OF t(2)] by simp
qed

lemma process_inputs_accepts:
  assumes "\<forall>k < length is. \<exists>st. account_state b pl d (iaddress (is ! k)) = Some st
      \<and> unlk (iaddress (is ! k)) (j + k) (locking_program st) (locking_program_input (is ! k))"
    and "distinct (map iaddress is)" "om_ok b"
  obtains b' where "process_inputs unlk pl d j is b = Some b'"
proof -
  have "\<exists>b'. process_inputs unlk pl d j is b = Some b'"
    using assms
  proof (induction "is" arbitrary: j b)
    case (Cons i "is")
    obtain st where st: "account_state b pl d (iaddress i) = Some st" "unlk (iaddress i) j (locking_program st) (locking_program_input i)"
      using Cons.prems(1) [rule_format, of 0] by auto
    let ?b = "batch_add b (iaddress i) (st\<lparr>box := wrap64 (box st - iamount i)\<rparr>)"
    have "\<exists>st. account_state ?b pl d (iaddress (is ! k)) = Some st
      \<and> unlk (iaddress (is ! k)) (Suc j + k) (locking_program st) (locking_program_input (is ! k))" if k: "k < length is" for k
    proof -
      have "iaddress (is ! k) \<noteq> iaddress i" using Cons.prems(2) k by (metis distinct.simps(2) list.simps(9) nth_map nth_mem length_map)
      then show ?thesis using Cons.prems(1) [rule_format, of "Suc k"] k by (simp add: account_state_add [OF Cons.prems(3)])
    qed
    then have "\<exists>b'. process_inputs unlk pl d (Suc j) is ?b = Some b'"
      using Cons.IH [of ?b "Suc j"] Cons.prems(2) batch_add_ok [OF Cons.prems(3)] by simp
    then show ?case using st by simp
  qed simp
  then show ?thesis using that by blast
qed

lemma app_balance_accepted:
  assumes "accepted_batch unlk app t = Some b" "cash_ok app"
  shows "app_balance (cash_process unlk app t) = balance b (accounts (pool app)) (db_accounts (db app))"
  using assms account_state_final [of "accounts (pool app)" b] accepted_batch_ok [OF assms(1)]
  by (auto simp: cash_process_eq app_balance_def balance_def cash_ok_def fun_eq_iff)

text \<open>A transaction with one output to an address that is not an input.\<close>

lemma transfer_effect:
  assumes "process_inputs (\<lambda>a j lp lpi. unlk a j lp lpi t) (accounts (pool app)) (db_accounts (db app)) 0 (inputs t) om_empty = Some bi"
    and "outputs t = [p]" "oaddress p \<notin> K" "iaddress ` set (inputs t) \<subseteq> K" "finite K" "cash_ok app" "in64 (oamount p)"
    and "\<forall>st. account_state om_empty (accounts (pool app)) (db_accounts (db app)) (oaddress p) = Some st \<longrightarrow>
      locking_program st = olocking_program p"
  shows "fees (pool (cash_process unlk app t)) = wrap64 (fees (pool app) + tx_check t)
    \<and> app_balance (cash_process unlk app t) (oaddress p) = wrap64 (app_balance app (oaddress p) + oamount p)
    \<and> wrap64 (sum (app_balance (cash_process unlk app t)) K) = wrap64 (sum (app_balance app) K - sum_list (map iamount (inputs t)))"
proof -
  let ?pl = "accounts (pool app)" and ?d = "db_accounts (db app)"
  have ok: "om_ok bi" using process_inputs_ok [OF assms(1) om.ok_empty] .
  have st: "account_state bi ?pl ?d (oaddress p) = account_state om_empty ?pl ?d (oaddress p)"
    using process_inputs_state [OF assms(1) om.ok_empty, of "oaddress p"] assms(3,4) by (metis image_subset_iff nth_mem)
  obtain b where b: "process_outputs ?pl ?d (outputs t) bi = Some b"
      "balance b ?pl ?d (oaddress p) = wrap64 (app_balance app (oaddress p) + oamount p)"
    using assms(2,7,8) st ok
    by (cases "account_state om_empty ?pl ?d (oaddress p)")
      (auto simp: app_balance_def balance_def account_state_add)
  have a: "accepted_batch unlk app t = Some b" using assms(1) b(1) by (simp add: accepted_batch_def)
  note eq = app_balance_accepted [OF a assms(6)]
  have "balance b ?pl ?d x = balance bi ?pl ?d x" if "x \<in> K" for x
    
  proof -
    have "x \<notin> oaddress ` set (outputs t)" using assms(2,3) that by auto
    from process_outputs_state [OF b(1) ok this] show ?thesis by (simp add: balance_def)
  qed
  then have "sum (balance b ?pl ?d) K = sum (balance bi ?pl ?d) K" by simp
  moreover have "wrap64 (sum (balance bi ?pl ?d) K) = wrap64 (sum (app_balance app) K - sum_list (map iamount (inputs t)))"
    using process_inputs_balance [OF assms(5,1) om.ok_empty assms(4)] by (simp add: app_balance_def)
  ultimately show ?thesis using b(2) by (simp add: eq) (simp add: cash_process_eq a)
qed

lemma payment_inputs_accepted:
  assumes "funded e w d i" "\<not> exact_split e w d i"
    and "accs = take_sources (pay_amount i + pay_fee i) (w_sort e (owned (db_accounts (db (cash d))) (um_keys (wkeys w))))"
    and "same_payment (payment_tx now accs i) t"
    and "\<forall>k < length accs. unlock_env (w_env e) (ia_address (accs ! k)) k (hash_set 1) (locking_program_input (inputs t ! k)) t"
  obtains bi where "process_inputs (\<lambda>a j lp lpi. unlock_env (w_env e) a j lp lpi t) (accounts (pool (cash d))) (db_accounts (db (cash d)))
      0 (inputs t) om_empty = Some bi"
    "iaddress ` set (inputs t) \<subseteq> um_keys (wkeys w)" "sum_list (map iamount (inputs t)) = pay_amount i + pay_fee i"
    "outputs t = [\<lparr>oaddress = rcpt_addr i, oamount = pay_amount i, olocking_program = p2pkh_locking_program_hash\<rparr>]"
proof -
  let ?m = "db_accounts (db (cash d))" and ?pl = "accounts (pool (cash d))" and ?K = "um_keys (wkeys w)"
  note s = funded_sources [OF assms(1) refl refl assms(3)]
  have pd: "cash_ok (cash d)" "\<forall>(a, x) \<in> set (owned ?m ?K). locking_program x = hash_set 1 \<and> om_find ?pl a = None"
    using assms(1) by (simp_all add: funded_def Let_def)
  have len: "length (inputs t) = length accs" using same_payment_length [OF assms(4)] by (simp add: payment_tx_eq)
  have ad: "iaddress (inputs t ! k) = ia_address (accs ! k)" "iamount (inputs t ! k) = withdraw_amount (accs ! k)" if "k < length accs" for k
    using same_payment_nth [OF assms(4), of k] that by (simp_all add: payment_tx_eq)
  have addrs: "map iaddress (inputs t) = map ia_address accs" "map iamount (inputs t) = map withdraw_amount accs"
    using len ad by (simp_all add: list_eq_iff_nth_eq)
  have acc: "\<exists>st. account_state om_empty ?pl ?m (iaddress (inputs t ! k)) = Some st
      \<and> unlock_env (w_env e) (iaddress (inputs t ! k)) (0 + k) (locking_program st) (locking_program_input (inputs t ! k)) t"
    if k: "k < length (inputs t)" for k
  proof -
    have "accs ! k \<in> set accs" using k len by simp
    then obtain x where x: "om_find (owned ?m ?K) (ia_address (accs ! k)) = Some x" "locking_program x = hash_set 1" using s(5) by blast
    then have "(ia_address (accs ! k), x) \<in> set (owned ?m ?K)" by (simp add: om_find_def map_of_SomeD)
    then have n: "om_find ?pl (ia_address (accs ! k)) = None" using pd(2) by auto
    have "om_find ?m (ia_address (accs ! k)) = Some x"
      using x(1) owned_find [of ?m ?K] pd(1) by (auto simp: cash_ok_def split: if_splits)
    then have "account_state om_empty ?pl ?m (ia_address (accs ! k)) = Some x" using n by (simp add: account_state_def om.find_empty)
    then show ?thesis using assms(5) x(2) k len ad(1) by simp
  qed
  have "distinct (map iaddress (inputs t))" using s(2) by (simp add: addrs)
  then obtain bi where "process_inputs (\<lambda>a j lp lpi. unlock_env (w_env e) a j lp lpi t) ?pl ?m 0 (inputs t) om_empty = Some bi"
    using process_inputs_accepts [of "inputs t" om_empty ?pl ?m "\<lambda>a j lp lpi. unlock_env (w_env e) a j lp lpi t" 0] acc om.ok_empty
    by blast
  moreover have "iaddress ` set (inputs t) = ia_address ` set accs" by (metis addrs(1) list.set_map)
  then have "iaddress ` set (inputs t) \<subseteq> ?K" using s(5) by auto
  moreover have "sum_list (map iamount (inputs t)) = pay_amount i + pay_fee i" using s(3) by (simp add: addrs)
  moreover have "outputs t = [\<lparr>oaddress = rcpt_addr i, oamount = pay_amount i, olocking_program = p2pkh_locking_program_hash\<rparr>]"
    using assms(4) by (simp add: same_payment_def payment_tx_eq)
  ultimately show ?thesis using that by blast
qed


lemma payment_refused:
  assumes "\<exists>a \<in> set accs. withdraw_amount a \<le> 0"
  shows "tx_check (payment_tx now accs i) = -1"
  using assms unfolding tx_check_eq by (simp add: payment_tx_eq image_iff)

text \<open>
  A wallet cannot make a payment whose amount and fee are exactly the sum of its smallest balances, unless
  they are everything it owns: the loop then takes nothing from the next account, and an input of zero fails
  the check of the transaction. No money is spent, and the accounts stay as refreshed.
\<close>
theorem exact_split_refused:
  assumes "funded e w d i" "exact_split e w d i"
  shows "\<exists>w'. tx_make_p2pkh e (node_backend (w_env e) c d) now i w = Some (Inl ''Failed check. fees are -1'', w') \<and> wkeys w' = wkeys w"
proof -
  define accs where "accs = take_sources (pay_amount i + pay_fee i) (w_sort e (owned (db_accounts (db (cash d))) (um_keys (wkeys w))))"
  note s = funded_sources [OF assms(1) refl refl accs_def]
  have r: "in64 (pay_amount i + pay_fee i)" using assms(1) by (simp add: funded_def Let_def)
  have "\<exists>a \<in> set accs. withdraw_amount a \<le> 0" using s(4) assms(2) by (meson not_less)
  from payment_refused [OF this] have t: "tx_check (payment_tx now accs i) = -1" .
  moreover have "show_int (-1) = ''-1''" by code_simp
  moreover have "get_withdraw_amount accs = pay_amount i + pay_fee i" using r by (simp add: get_withdraw_amount_eq s(3))
  ultimately show ?thesis using s(1,6) r by (simp add: tx_make_p2pkh_def Let_def)
qed

text \<open>A wallet with two addresses, and a node at which they have some money.\<close>

definition toy_addr :: hash_t where
  "toy_addr = pub_compute_hash toy_secp (replicate 64 0) (pub (toy_pair (replicate 32 6)))"

definition toy_wallet_env :: wallet_env where
  "toy_wallet_env = \<lparr>w_env = toy_env, w_beyond = [], w_place = (\<lambda>m x. x # m), w_sort = sort_key (\<lambda>x. box (snd x)), w_err = 1\<rparr>"

definition toy_wallet :: "(hash_t, keys_t) umap \<Rightarrow> wallet" where
  "toy_wallet m = \<lparr>wkeys = m, wdata = om_empty, wfile = None, need_save = False\<rparr>"

definition toy_node :: "accounts_t \<Rightarrow> daemon" where
  "toy_node m = toy_daemon\<lparr>cash := (cash toy_daemon)\<lparr>db := (db (cash toy_daemon))\<lparr>db_accounts := m\<rparr>\<rparr>\<rparr>"

definition toy_payment :: "hash_t \<Rightarrow> int \<Rightarrow> int \<Rightarrow> p2pkh_input" where
  "toy_payment a m f = \<lparr>rcpt_addr = a, pay_amount = m, pay_fee = f, sigcode_inputs = sigcode_all, sigcode_outputs = sigcode_all, sendover = False\<rparr>"

lemma toy_sorts: "sorts (sort_key (\<lambda>x. box (snd x)))"
  by (simp add: sorts_def comp_def)

lemma toy_node_cash:
  "cash_ok (cash (toy_node m)) \<longleftrightarrow> om_ok m" "db_accounts (db (cash (toy_node m))) = m"
  "accounts (pool (cash (toy_node m))) = []" "policies (cash (toy_node m)) = [1]" "fees (pool (cash (toy_node m))) = 0"
  by (simp_all add: toy_node_def cash_ok_def toy_daemon_def daemon0_def cash_app0_def local_delta0_def om_empty_def om_ok_def)

abbreviation toy_account :: "int \<Rightarrow> account_t" where "toy_account m \<equiv> \<lparr>locking_program = hash_set 1, box = m\<rparr>"

lemma toy_funded:
  assumes "om_ok m" "\<forall>x \<in> set m. snd x = toy_account 7 \<or> snd x = toy_account 5" "m \<noteq> []" "length m \<le> 9"
  shows "funded toy_wallet_env (toy_wallet (map (\<lambda>x. (fst x, k)) m)) (toy_node m) (toy_payment c 4 1)"
proof -
  have "fst x \<in> um_keys (map (\<lambda>x. (fst x, k)) m) \<and> 0 < box (snd x)" if "x \<in> set m" for x
    using assms(2) that by (force simp: um_keys_def image_image)
  then have o: "owned m (um_keys (map (\<lambda>x. (fst x, k)) m)) = m" by (auto simp: owned_def filter_id_conv split_beta)
  obtain x m' where m: "m = x # m'" using assms(3) by (cases m) auto
  have "0 \<le> boxes m'" using assms(2) m by (intro boxes_nonneg) auto
  moreover have "5 \<le> box (snd x)" using assms(2) m by auto
  ultimately have "5 \<le> boxes m" by (simp add: m)
  moreover have "locking_program (snd x) = hash_set 1 \<and> in64 (box (snd x))" if "x \<in> set m" for x
    using assms(2) that by (auto simp: in64_def)
  moreover have "svc_cash_response \<noteq> 1" by (simp add: svc_cash_response_def query_suffix_def cash_base_def)
  ultimately show ?thesis
    using assms o
    by (auto simp add: funded_def Let_def toy_wallet_env_def toy_wallet_def toy_node_cash toy_payment_def toy_sorts toy_env_def
      om_find_def in64_def)
qed

lemma exact_split_refused_witness:
  "\<exists>w'. tx_make_p2pkh toy_wallet_env (node_backend toy_env 0 (toy_node [(hash_set 5, toy_account 5), (hash_set 6, toy_account 7)])) 0
      (toy_payment (hash_set 9) 4 1) (toy_wallet [(hash_set 5, toy_pair []), (hash_set 6, toy_pair [])])
    = Some (Inl ''Failed check. fees are -1'', w') \<and> wkeys w' = [(hash_set 5, toy_pair []), (hash_set 6, toy_pair [])]"
proof -
  let ?m = "[(hash_set 5, toy_account 5), (hash_set 6, toy_account 7)]"
  have ok: "om_ok ?m" by (simp add: om_ok_def hash_set_def less_hash_t_def)
  note f = toy_funded [OF ok, of "toy_pair []" "hash_set 9", simplified]
  have "owned ?m (um_keys [(hash_set 5, toy_pair []), (hash_set 6, toy_pair [])]) = ?m"
    by (simp add: owned_def um_keys_def)
  then have "exact_split toy_wallet_env (toy_wallet [(hash_set 5, toy_pair []), (hash_set 6, toy_pair [])]) (toy_node ?m) (toy_payment (hash_set 9) 4 1)"
    by (simp add: exact_split_def toy_wallet_env_def toy_wallet_def toy_node_cash toy_payment_def splits_evenly_def exI [of _ 1])
  from exact_split_refused [OF f this, of 0 0] show ?thesis by (simp add: toy_wallet_env_def toy_wallet_def)
qed



end
