(* ===== verification/Wallet_File.thy ===== *)
theory Wallet_File
  imports Wallet_Node
begin

text \<open>
  What the wallet writes and reads back: its file of private keys, and the requests for payments. The last section
  is about the signature of a transaction with several inputs.
\<close>

section \<open>The key file\<close>

text \<open>A key the wallet would load again: checked, with its own public key and address.\<close>

definition storable :: "wallet_env \<Rightarrow> hash_t \<times> keys_t \<Rightarrow> bool" where
  "storable e x \<longleftrightarrow> length (priv (snd x)) = 32 \<and> keys_verify (e_lib (w_env e)) (w_beyond e) (priv (snd x))
     \<and> snd x = keys_of_priv (e_lib (w_env e)) (e_jkey (w_env e)) (priv (snd x))
     \<and> fst x = pub_compute_hash (e_lib (w_env e)) (e_jbuf (w_env e)) (pub (snd x))"

lemma show_priv_text:
  assumes "length k = 32"
  shows "token (show_priv k)" "priv_from_b58 (show_priv k) = k"
proof -
  obtain s where s: "encode k = Some s" "decode s = Some k" "set s \<subseteq> set pszBase58" "k \<noteq> [] \<longrightarrow> s \<noteq> []" by (rule encode_text)
  have p: "show_priv k = s" using s(1) by (simp add: show_priv_def priv_to_b58_def)
  then show "token (show_priv k)" using s(3,4) assms token_alphabet [of s] by auto
  have "decode32 s = Decoded k" using b58_decode32 s(2) assms by blast
  then show "priv_from_b58 (show_priv k) = k" by (simp add: p priv_from_b58_def)
qed

lemma read_string_blank: "\<exists>is. read_string (istr '' '') = ([], is) \<and> \<not> good is"
  by (simp add: read_string_def sentry_def not_good_setfail [unfolded good_def] good_def setfail_def)

lemma load_loop_saved:
  assumes "\<forall>x \<in> set xs. storable e x"
  shows "load_loop e (istr (CHR '' '' # concat (map (\<lambda>(h, k). show_priv (priv k) @ '' '') xs))) m =
    foldl (\<lambda>m (h, k). um_emplace (w_place e) h k m) m xs"
  using assms
proof (induction xs arbitrary: m)
  case Nil
  obtain "is" where r: "read_string (istr '' '') = ([], is)" "\<not> good is" using read_string_blank by blast
  then have "load_loop e is m = m" by (subst load_loop.simps) simp
  then show ?case using r by (subst load_loop.simps) simp
next
  case (Cons x xs)
  obtain h k where x: "x = (h, k)" by (cases x)
  have s: "storable e (h, k)" using Cons.prems by (simp add: x)
  note t = show_priv_text [of "priv k"]
  have "show_priv (priv k) \<noteq> []" using s t(1) by (simp add: storable_def token_def)
  then show ?case
    using Cons.IH [of "um_emplace (w_place e) h k m"] Cons.prems s t
    by (subst load_loop.simps) (simp add: x storable_def stream_simps Let_def)
qed

lemma fold_emplace:
  assumes "placement place" "um_ok m" "um_ok xs" "um_keys m \<inter> um_keys xs = {}"
  shows "um_ok (foldl (\<lambda>m (h, k). um_emplace place h k m) m xs)
    \<and> um_find (foldl (\<lambda>m (h, k). um_emplace place h k m) m xs) a = (case um_find xs a of Some k \<Rightarrow> Some k | None \<Rightarrow> um_find m a)"
  using assms(2-4)
proof (induction xs arbitrary: m)
  case (Cons x xs)
  obtain h k where x: "x = (h, k)" by (cases x)
  let ?m = "um_emplace place h k m"
  have h: "um_find m h = None" "um_ok xs" "h \<notin> um_keys xs" "um_keys m \<inter> um_keys xs = {}"
    using Cons.prems by (auto simp: x um_ok_def um_keys_def um_find_None)
  have "um_keys ?m \<inter> um_keys xs = {}" using h(3,4) by (simp add: um_keys_emplace [OF assms(1)])
  then show ?case
    using Cons.IH [OF um_ok_emplace [OF assms(1) Cons.prems(1)] h(2), of h k] um_find_emplace [OF assms(1) Cons.prems(1), of h k a] h(1,3)
      um_find_None [of xs h]
    by (auto simp: x um_find_def split: option.splits)
qed (simp add: um_find_def)

text \<open>
  C24. No key is lost: what the wallet saved is what a new wallet finds in the file, whatever the order of the
  two hash tables is.
\<close>

theorem wallet_reload:
  assumes "\<forall>x \<in> set (wkeys w). storable e x" "um_ok (wkeys w)" "placement (w_place e)" "need_save w"
  shows "get_keys (wallet_open e (wallet_close w)) a = get_keys w a"
proof -
  let ?t = "concat (map (\<lambda>(h, k). show_priv (priv k) @ '' '') (wkeys w))"
  have "load_loop e (istr ?t) [] = load_loop e (istr (CHR '' '' # ?t)) []"
    by (subst (1 2) load_loop.simps) (simp add: stream_simps)
  then have "wkeys (wallet_open e (wallet_close w)) = foldl (\<lambda>m (h, k). um_emplace (w_place e) h k m) [] (wkeys w)"
    using load_loop_saved [OF assms(1), of "[]"] assms(4) by (simp add: wallet_open_def wallet_close_def wallet_save_def wallet_load_def)
  then show ?thesis
    using fold_emplace [OF assms(3) _ assms(2), of "[]" a] by (simp add: get_keys_def um_ok_def um_keys_def um_find_def split: option.split)
qed

theorem wallet_reload_witness:
  "get_keys (wallet_open toy_wallet_env (wallet_close ((toy_wallet [(toy_addr, toy_pair (replicate 32 6))])\<lparr>need_save := True\<rparr>))) toy_addr =
     Some (toy_pair (replicate 32 6))"
proof -
  have "storable toy_wallet_env (toy_addr, toy_pair (replicate 32 6))"
    by (simp add: storable_def toy_wallet_env_def toy_env_def toy_addr_def toy_pair_def keys_of_priv_def toy_secp_def keys_verify_def
      priv_is_zero_def pub_new_def)
  then show ?thesis
    by (subst wallet_reload) (simp_all add: toy_wallet_def toy_wallet_env_def placement_front um_ok_def get_keys_def um_find_def)
qed

section \<open>Requests as text\<close>

lemma show_bools: "show_int 1 = ''1''" "show_int 0 = ''0''"
  by code_simp+

lemma p2pkh_roundtrip:
  assumes "in64 (pay_amount i)" "in64 (pay_fee i)" "isspace c"
  shows "fst (p2pkh_from_stream jx junk (istr (p2pkh_to_stream i @ c # r))) = i"
proof -
  have u: "- (2 ^ 31) \<le> uint x \<and> uint x < 2 ^ 31" for x :: byte
  proof -
    have "uint x < 256" using unsigned_less [of x] by simp
    moreover have "- (2 ^ 31) \<le> (0 :: int)" "(256 :: int) \<le> 2 ^ 31" "0 \<le> uint x" by simp_all
    ultimately show ?thesis by (intro conjI) linarith+
  qed
  have w: "read_signed 32 (istr (show_int (uint x) @ d # s)) = (Some (uint x), istr (d # s))" if "isspace d" for x :: byte and d s
    using u [of x] that by (intro read_signed_show) simp_all
  have b: "read_signed 64 (istr (CHR ''1'' # c # r)) = (Some 1, istr (c # r))" "read_signed 64 (istr (CHR ''0'' # c # r)) = (Some 0, istr (c # r))"
    using read_signed_show [of 64 1 c r] read_signed_show [of 64 0 c r] assms(3) by (simp_all add: show_bools)
  show ?thesis
    using assms
    by (simp add: p2pkh_from_stream_def p2pkh_to_stream_def stream_simps read_cash_def read_int_def read_bool_def Let_def w b)
qed

section \<open>Signatures for all the inputs at once\<close>

text \<open>
  When the codes are \<open>sigcode_this\<close> for the inputs, \<open>same_sigmsg_across_inputs\<close> holds, and the message of the first
  input is signed for all of them; but then the messages are those of different inputs.
\<close>

lemma one_signature_for_all:
  assumes "sigcode_input sc = sigcode_this" "length jb = 64" "inputs t \<noteq> []"
  shows "same_sigmsg_across_inputs sc" "tx_get_hash jb t 0 sc = Some (fips_sha256 (sigmsg_bytes t 0 sc))"
    and "k < length (inputs t) \<Longrightarrow> iaddress (inputs t ! k) \<noteq> iaddress (inputs t ! 0) \<Longrightarrow> sigmsg_bytes t k sc \<noteq> sigmsg_bytes t 0 sc"
proof -
  show "same_sigmsg_across_inputs sc" using assms(1) by (simp add: same_sigmsg_across_inputs_def)
  show "tx_get_hash jb t 0 sc = Some (fips_sha256 (sigmsg_bytes t 0 sc))" using assms(2,3) by (intro get_hash_sigmsg) auto
  assume "k < length (inputs t)" "iaddress (inputs t ! k) \<noteq> iaddress (inputs t ! 0)"
  then have "take 20 (sigmsg_bytes t k sc) \<noteq> take 20 (sigmsg_bytes t 0 sc)"
    using assms(1) by (simp add: sigmsg_bytes_def sigcode_this_def sigcode_all_def input_sigbytes_def)
  then show "sigmsg_bytes t k sc \<noteq> sigmsg_bytes t 0 sc" by metis
qed

end
