(* ===== verification/Connections.thy ===== *)
theory Connections
  imports Unordered_Map
begin

text \<open>
  The connections of a node: \<open>server::clients_t\<close> of \<open>src/gov/socket/server.{h,cpp}\<close> with the clients of
  \<open>socket/client.cpp\<close>, \<open>socket/peer_t.cpp\<close> and the workers of \<open>socket/daemon.cpp\<close>. The objects are on a heap and
  the containers hold their addresses; the thread of the server, which accepts, watches and deletes, the workers of
  the pool and the other threads of the node (the timer that connects to neighbours and whoever sends to a peer)
  interleave. An operation of a thread is one step, except \<open>update\<close>, whose loops are steps per client.

  File descriptors and objects are numbers: the descriptor the kernel chooses is an argument of the step, only
  required to be free; an object has its own number, which stays unused when it is deleted. A failed assertion and
  the use of a deleted object end the run as a \<open>fault\<close>.
\<close>

section \<open>State\<close>

record conn =
  csock :: nat
  cbusy :: bool
  cparent :: bool

text \<open>Where the thread of the server is; the loops of \<open>shrink\<close> and \<open>grow\<close> with the copy they iterate over (for
  \<open>grow\<close>, and whether it was empty).\<close>

datatype pc = Selecting | Woken | Shrinking "nat set" | Growing "nat set" bool | Purging | Scanning

datatype fault = Assertion | Dangling_server | Dangling_worker | Dangling_other

record server =
  heap :: "nat \<rightharpoonup> conn"
  fds :: "nat set"
  conns :: "(nat, nat) umap"
  wadd :: "nat set"
  wremove :: "nat set"
  attic :: "nat set"
  watched :: "nat set"
  active_list :: "nat list"
  wakes :: nat
  connecting :: bool
  held :: "nat set"
  fresh :: "nat set"
  made :: "nat set"
  working :: "nat set"
  pc :: pc
  fault :: "fault option"

definition server0 :: server where
  "server0 = \<lparr>heap = Map.empty, fds = {}, conns = [], wadd = {}, wremove = {}, attic = {}, watched = {}, active_list = [],
     wakes = 0, connecting = False, held = {}, fresh = {}, made = {}, working = {}, pc = Woken, fault = None\<rparr>"

section \<open>Clients\<close>

text \<open>The loopback connection wakes the thread of the server from \<open>select\<close>.\<close>

definition read_sockets :: "server \<Rightarrow> server" where
  "read_sockets s = s\<lparr>wakes := Suc (wakes s)\<rparr>"

text \<open>\<open>client::disconnect\<close>: closing the socket.\<close>

definition close_client :: "nat \<Rightarrow> conn \<Rightarrow> server \<Rightarrow> server" where
  "close_client a c s =
     (if csock c = 0 then s else s\<lparr>fds := fds s - {csock c}, heap := (heap s)(a \<mapsto> c\<lparr>csock := 0\<rparr>)\<rparr>)"

text \<open>\<open>clients_t::remove\<close> with \<open>rmlist::add\<close>.\<close>

definition detach :: "nat \<Rightarrow> conn \<Rightarrow> server \<Rightarrow> server" where
  "detach a c s = (if csock c = 0 then s else read_sockets (s\<lparr>wremove := insert a (wremove s)\<rparr>))"

text \<open>\<open>peer_t::disconnect\<close>: a managed client is queued, another closed. The thread may hold a stale address.\<close>

definition disconnect :: "fault \<Rightarrow> nat \<Rightarrow> server \<Rightarrow> server" where
  "disconnect f a s =
     (case heap s a of
        None \<Rightarrow> s\<lparr>fault := Some f\<rparr>
      | Some c \<Rightarrow> if cparent c then detach a c s else close_client a c s)"

text \<open>\<open>daemon::attach\<close>, \<open>server::attach\<close> and \<open>clients_t::add\<close>.\<close>

definition attach :: "nat \<Rightarrow> bool \<Rightarrow> server \<Rightarrow> server" where
  "attach a wakeupselect s =
     (case heap s a of
        None \<Rightarrow> s\<lparr>fault := Some Dangling_server\<rparr>
      | Some c \<Rightarrow>
          (if cparent c \<or> csock c = 0 then s\<lparr>fault := Some Assertion\<rparr>
           else (if wakeupselect then read_sockets else id) (s\<lparr>heap := (heap s)(a \<mapsto> c\<lparr>cparent := True\<rparr>), wadd := insert a (wadd s)\<rparr>)))"

text \<open>\<open>peer_t::on_detach\<close>: spins while the client is busy (\<open>None\<close>: no progress).\<close>

definition on_detach :: "nat \<Rightarrow> conn \<Rightarrow> server \<Rightarrow> server option" where
  "on_detach a c s =
     (if cbusy c then None
      else Some (disconnect Dangling_server a (s\<lparr>heap := (heap s)(a \<mapsto> c\<lparr>cparent := False\<rparr>)\<rparr>)))"

section \<open>The loops of \<open>update\<close>\<close>

definition shrink_one :: "nat \<Rightarrow> server \<Rightarrow> server option" where
  "shrink_one a s =
     (case heap s a of
        None \<Rightarrow> Some (s\<lparr>fault := Some Dangling_server\<rparr>)
      | Some c \<Rightarrow>
          (case on_detach a c s of
             None \<Rightarrow> None
           | Some s \<Rightarrow>
               (let fd = (case heap s a of Some c \<Rightarrow> csock c | None \<Rightarrow> 0)
                in Some (if um_find (conns s) fd \<noteq> None then s\<lparr>conns := um_erase fd (conns s), attic := insert a (attic s)\<rparr>
                         else if a \<in> wadd s then s\<lparr>wadd := wadd s - {a}, attic := insert a (attic s)\<rparr>
                         else s))))"

definition grow_one :: "(nat, nat) place \<Rightarrow> nat \<Rightarrow> server \<Rightarrow> server" where
  "grow_one place a s =
     (case heap s a of
        None \<Rightarrow> s\<lparr>fault := Some Dangling_server\<rparr>
      | Some c \<Rightarrow>
          (if um_find (conns s) (csock c) \<noteq> None \<or> csock c = 0 then s\<lparr>fault := Some Assertion\<rparr>
           else s\<lparr>conns := um_emplace place (csock c) a (conns s)\<rparr>))"

text \<open>\<open>attic_t::purge\<close>: idle clients are deleted, their destructor disconnects.\<close>

definition purgeable :: "server \<Rightarrow> nat \<Rightarrow> bool" where
  "purgeable s a \<longleftrightarrow> (case heap s a of Some c \<Rightarrow> \<not> cbusy c | None \<Rightarrow> False)"

definition sock_of :: "server \<Rightarrow> nat \<Rightarrow> nat" where
  "sock_of s a = (case heap s a of Some c \<Rightarrow> csock c | None \<Rightarrow> 0)"

definition purge :: "server \<Rightarrow> server" where
  "purge s =
     (if \<exists>a \<in> attic s. heap s a = None then s\<lparr>fault := Some Dangling_server\<rparr>
      else let dead = Set.filter (purgeable s) (attic s)
           in s\<lparr>heap := (heap s) |` (- dead), fds := fds s - (sock_of s ` dead - {0}), attic := attic s - dead\<rparr>)"

text \<open>
  The loop over the clients: those still connected are watched, unless a worker has them, and are the active ones;
  the others go to the attic. \<open>on_detach\<close> for them does nothing but clear \<open>parent\<close>, and spins if they are busy.
\<close>

definition scan :: "server \<Rightarrow> server option" where
  "scan s =
     (let as = map snd (conns s); gone = filter (\<lambda>a. sock_of s a = 0) as; live = filter (\<lambda>a. sock_of s a \<noteq> 0) as
      in if \<exists>a \<in> set as. heap s a = None then Some (s\<lparr>fault := Some Dangling_server\<rparr>)
         else if \<exists>a \<in> set gone. \<not> purgeable s a then None
         else Some (s\<lparr>heap := (\<lambda>a. if a \<in> set gone then map_option (cparent_update (\<lambda>_. False)) (heap s a) else heap s a),
                      conns := filter (\<lambda>(fd, a). sock_of s a \<noteq> 0) (conns s), attic := attic s \<union> set gone,
                      watched := sock_of s ` set (filter (purgeable s) live), active_list := live\<rparr>))"

section \<open>Threads\<close>

text \<open>
  The steps. Server: \<open>Select\<close> returns, whatever the reason, and up to four bytes of the loopback are taken; then it
  accepts a connection, hands watched clients with data to the pool (\<open>idle\<close>: a worker is idle) and updates.
  Worker: \<open>Done\<close>, after an error or an unknown service with \<open>err\<close>. Timer: \<open>Connect\<close> and, once, \<open>Connected\<close>; a
  neighbour it has just connected to may be one too many, and is disconnected (\<open>Drop\<close>). Any other
  thread: \<open>Take\<close> copies the active clients; such a client may be disconnected, or used, at any later time.
\<close>

datatype event =
  Select | Accept nat nat | Service nat bool | Update | Shrink nat | Flush | Grow nat | Grown | Purge | Scan
| Done nat bool | Connect nat nat | Connected | Drop nat | Take | Use nat | Disconnect nat

definition service :: "nat \<Rightarrow> bool \<Rightarrow> server \<Rightarrow> server" where
  "service fd idle s =
     (case um_find (conns s) fd of
        None \<Rightarrow> s
      | Some a \<Rightarrow>
          (case heap s a of
             None \<Rightarrow> s\<lparr>fault := Some Dangling_server\<rparr>
           | Some c \<Rightarrow>
               (if cbusy c then s
                else let s = s\<lparr>heap := (heap s)(a \<mapsto> c\<lparr>cbusy := True\<rparr>)\<rparr>
                     in if idle then s\<lparr>working := insert a (working s)\<rparr> else disconnect Dangling_server a s)))"

definition work_done :: "nat \<Rightarrow> bool \<Rightarrow> server \<Rightarrow> server" where
  "work_done a err s =
     (let s = if err then disconnect Dangling_worker a s else s
      in case heap s a of
           None \<Rightarrow> s\<lparr>fault := Some Dangling_worker\<rparr>
         | Some c \<Rightarrow> read_sockets (s\<lparr>heap := (heap s)(a \<mapsto> c\<lparr>cbusy := False\<rparr>), working := working s - {a}\<rparr>))"

definition new_client :: "nat \<Rightarrow> nat \<Rightarrow> server \<Rightarrow> server" where
  "new_client fd a s = s\<lparr>heap := (heap s)(a \<mapsto> \<lparr>csock = fd, cbusy = False, cparent = False\<rparr>), fds := insert fd (fds s), made := insert a (made s)\<rparr>"

definition free_for :: "nat \<Rightarrow> nat \<Rightarrow> server \<Rightarrow> bool" where
  "free_for fd a s \<longleftrightarrow> fd \<noteq> 0 \<and> fd \<notin> fds s \<and> a \<notin> made s"

fun step :: "(nat, nat) place \<Rightarrow> event \<Rightarrow> server \<Rightarrow> server option" where
  "step place Select s = (if pc s = Selecting then Some (s\<lparr>pc := Woken, wakes := wakes s - 4\<rparr>) else None)"
| "step place (Accept fd a) s = (if pc s = Woken \<and> free_for fd a s then Some (attach a False (new_client fd a s)) else None)"
| "step place (Service fd idle) s = (if pc s = Woken \<and> fd \<in> watched s then Some (service fd idle s) else None)"
| "step place Update s = (if pc s = Woken then Some (s\<lparr>pc := Shrinking (wremove s), wremove := {}\<rparr>) else None)"
| "step place (Shrink a) s =
     (case pc s of
        Shrinking q \<Rightarrow> if a \<in> q then map_option (\<lambda>s. s\<lparr>pc := Shrinking (q - {a})\<rparr>) (shrink_one a s) else None
      | _ \<Rightarrow> None)"
| "step place Flush s = (if pc s = Shrinking {} then Some (s\<lparr>pc := Growing (wadd s) (wadd s \<noteq> {}), wadd := {}\<rparr>) else None)"
| "step place (Grow a) s =
     (case pc s of
        Growing q b \<Rightarrow> if a \<in> q then Some ((grow_one place a s)\<lparr>pc := Growing (q - {a}) b\<rparr>) else None
      | _ \<Rightarrow> None)"
| "step place Grown s = 
     (case pc s of
        Growing q b \<Rightarrow> if q = {} then Some ((if b then read_sockets else id) (s\<lparr>pc := Purging\<rparr>)) else None
      | _ \<Rightarrow> None)"
| "step place Purge s = (if pc s = Purging then Some ((purge s)\<lparr>pc := Scanning\<rparr>) else None)"
| "step place Scan s = (if pc s = Scanning then map_option (\<lambda>s. s\<lparr>pc := Selecting\<rparr>) (scan s) else None)"
| "step place (Done a err) s = (if a \<in> working s then Some (work_done a err s) else None)"
| "step place (Connect fd a) s =
     (if free_for fd a s then Some ((attach a False (new_client fd a s))\<lparr>fresh := insert a (fresh s), connecting := True\<rparr>) else None)"
| "step place Connected s = (if connecting s then Some (read_sockets (s\<lparr>connecting := False\<rparr>)) else None)"
| "step place (Drop a) s = (if a \<in> fresh s then Some (disconnect Dangling_other a (s\<lparr>fresh := fresh s - {a}\<rparr>)) else None)"
| "step place Take s = Some (s\<lparr>held := held s \<union> set (active_list s)\<rparr>)"
| "step place (Use a) s =
     (if a \<in> held s then Some (if heap s a = None then s\<lparr>fault := Some Dangling_other\<rparr> else s) else None)"
| "step place (Disconnect a) s = (if a \<in> held s then Some (disconnect Dangling_other a s) else None)"

text \<open>A run stops at the first fault.\<close>

fun runs :: "(nat, nat) place \<Rightarrow> event list \<Rightarrow> server \<Rightarrow> server option" where
  "runs place [] s = Some s"
| "runs place (e # es) s = (if fault s \<noteq> None then None else case step place e s of None \<Rightarrow> None | Some s \<Rightarrow> runs place es s)"

section \<open>The invariant\<close>

definition um_vals :: "('k, 'v) umap \<Rightarrow> 'v set" where "um_vals m = snd ` set m"

lemma um_valsI: "(k, v) \<in> set m \<Longrightarrow> v \<in> um_vals m"
  by (force simp: um_vals_def)

definition adding :: "server \<Rightarrow> nat set" where
  "adding s = wadd s \<union> (case pc s of Growing q b \<Rightarrow> q | _ \<Rightarrow> {})"

definition removing :: "server \<Rightarrow> nat set" where
  "removing s = (case pc s of Shrinking q \<Rightarrow> q | _ \<Rightarrow> {})"

definition updating :: "server \<Rightarrow> bool" where
  "updating s \<longleftrightarrow> pc s \<noteq> Selecting \<and> pc s \<noteq> Woken"

text \<open>
  Every object is in exactly one container (\<open>m\<close>: the table, \<open>w\<close>: to be added, \<open>t\<close>: the attic), which determines its
  state; nothing deleted is in any, or about to be removed (\<open>r\<close>: queued, \<open>q\<close>: in the copy), or worked on (\<open>k\<close>).
  An object not yet in the table is queued at most once (\<open>f\<close>: the timer has it, \<open>h\<close>: another thread). One in the attic is
  queued only between updates, so that the queue is emptied before it is deleted.
\<close>

definition role_ok :: "conn option \<Rightarrow> bool \<Rightarrow> bool \<Rightarrow> bool \<Rightarrow> bool \<Rightarrow> bool \<Rightarrow> bool \<Rightarrow> bool \<Rightarrow> bool \<Rightarrow> bool \<Rightarrow> bool" where
  "role_ok x m w t r q k f h u \<longleftrightarrow>
     (case x of
        None \<Rightarrow> \<not> m \<and> \<not> w \<and> \<not> t \<and> \<not> r \<and> \<not> q \<and> \<not> k
      | Some c \<Rightarrow>
          (m \<and> \<not> w \<and> \<not> t \<and> (if cparent c then csock c \<noteq> 0 else csock c = 0 \<and> \<not> cbusy c \<and> u)
           \<or> \<not> m \<and> w \<and> \<not> t \<and> csock c \<noteq> 0 \<and> cparent c \<and> \<not> cbusy c \<and> \<not> h \<and> \<not> (r \<and> q) \<and> (f \<longrightarrow> \<not> r \<and> \<not> q)
           \<or> \<not> m \<and> \<not> w \<and> t \<and> csock c = 0 \<and> \<not> cparent c \<and> \<not> cbusy c \<and> (r \<longrightarrow> \<not> u))
          \<and> (k \<longrightarrow> cbusy c))"

definition owned_once :: "server \<Rightarrow> nat \<Rightarrow> bool" where
  "owned_once s a \<longleftrightarrow>
     role_ok (heap s a) (a \<in> um_vals (conns s)) (a \<in> adding s) (a \<in> attic s) (a \<in> wremove s) (a \<in> removing s) (a \<in> working s)
       (a \<in> fresh s) (a \<in> held s) (updating s)"

definition socks_ok :: "server \<Rightarrow> bool" where
  "socks_ok s \<longleftrightarrow>
     (\<forall>a c. heap s a = Some c \<longrightarrow> csock c \<noteq> 0 \<longrightarrow> csock c \<in> fds s \<and> (\<forall>b d. heap s b = Some d \<longrightarrow> csock d = csock c \<longrightarrow> a = b))"

definition made_ok :: "server \<Rightarrow> bool" where
  "made_ok s \<longleftrightarrow> dom (heap s) \<union> held s \<union> fresh s \<subseteq> made s"

definition table_ok :: "server \<Rightarrow> bool" where
  "table_ok s \<longleftrightarrow> um_ok (conns s) \<and> distinct (map snd (conns s))
     \<and> (\<forall>(fd, a) \<in> set (conns s). fd \<noteq> 0 \<and> (sock_of s a = 0 \<or> sock_of s a = fd))
     \<and> set (active_list s) \<subseteq> um_vals (conns s)
     \<and> (\<forall>q b. pc s = Growing q b \<longrightarrow> q \<inter> wadd s = {})"

definition conn_ok :: "server \<Rightarrow> bool" where
  "conn_ok s \<longleftrightarrow> table_ok s \<and> socks_ok s \<and> made_ok s \<and> (\<forall>a. owned_once s a)"

definition no_lost_wakeup :: "server \<Rightarrow> bool" where
  "no_lost_wakeup s \<longleftrightarrow>
     (wremove s \<noteq> {} \<longrightarrow> wakes s > 0 \<or> pc s = Woken)
     \<and> (wadd s \<noteq> {} \<longrightarrow> wakes s > 0 \<or> connecting s \<or> pc s = Woken \<or> (\<exists>q. pc s = Shrinking q))"

section \<open>Lemmas\<close>

lemma role_ok_simps [simp]:
  "role_ok None m w t r q k f h u \<longleftrightarrow> \<not> m \<and> \<not> w \<and> \<not> t \<and> \<not> r \<and> \<not> q \<and> \<not> k"
  "role_ok (Some c) m w t r q k f h u \<longleftrightarrow>
     (m \<and> \<not> w \<and> \<not> t \<and> (if cparent c then csock c \<noteq> 0 else csock c = 0 \<and> \<not> cbusy c \<and> u)
      \<or> \<not> m \<and> w \<and> \<not> t \<and> csock c \<noteq> 0 \<and> cparent c \<and> \<not> cbusy c \<and> \<not> h \<and> \<not> (r \<and> q) \<and> (f \<longrightarrow> \<not> r \<and> \<not> q)
      \<or> \<not> m \<and> \<not> w \<and> t \<and> csock c = 0 \<and> \<not> cparent c \<and> \<not> cbusy c \<and> (r \<longrightarrow> \<not> u))
     \<and> (k \<longrightarrow> cbusy c)"
  by (simp_all add: role_ok_def)

lemma um_find_0: "table_ok s \<Longrightarrow> um_find (conns s) 0 = None"
  by (auto simp: table_ok_def um_find_None um_keys_def)

lemma conn_okD:
  "conn_ok s \<Longrightarrow> table_ok s" "conn_ok s \<Longrightarrow> socks_ok s" "conn_ok s \<Longrightarrow> owned_once s a" "conn_ok s \<Longrightarrow> made_ok s"
  by (simp_all add: conn_ok_def)

lemma table_cong:
  assumes "table_ok s" "\<forall>x \<in> um_vals (conns s). sock_of s' x = 0 \<or> sock_of s' x = sock_of s x"
    and "\<forall>q b. pc s' = Growing q b \<longrightarrow> q \<inter> wadd s' = {}" "conns s' = conns s" "active_list s' = active_list s"
  shows "table_ok s'"
proof -
  have "fd \<noteq> 0 \<and> (sock_of s' a = 0 \<or> sock_of s' a = fd)" if "(fd, a) \<in> set (conns s)" for fd a
  proof -
    have "a \<in> um_vals (conns s)" using that by (rule um_valsI)
    with assms(2) have "sock_of s' a = 0 \<or> sock_of s' a = sock_of s a" by (rule bspec)
    moreover have "fd \<noteq> 0 \<and> (sock_of s a = 0 \<or> sock_of s a = fd)" using assms(1) that by (auto simp: table_ok_def)
    ultimately show ?thesis by auto
  qed
  then show ?thesis using assms(1,3-5) by (auto simp: table_ok_def)
qed

lemma table_frame:
  "table_ok (s\<lparr>wremove := x\<rparr>) = table_ok s" "table_ok (s\<lparr>wakes := n\<rparr>) = table_ok s" "table_ok (s\<lparr>working := x\<rparr>) = table_ok s"
  "table_ok (s\<lparr>held := x\<rparr>) = table_ok s" "table_ok (s\<lparr>connecting := b\<rparr>) = table_ok s" "table_ok (s\<lparr>fds := x\<rparr>) = table_ok s"
  "table_ok (s\<lparr>attic := x\<rparr>) = table_ok s" "table_ok (s\<lparr>watched := x\<rparr>) = table_ok s" "table_ok (s\<lparr>fresh := x\<rparr>) = table_ok s"
  "table_ok (s\<lparr>made := x\<rparr>) = table_ok s"
  by (simp_all add: table_ok_def sock_of_def)

lemma socks_frame:
  "socks_ok (s\<lparr>wremove := x\<rparr>) = socks_ok s" "socks_ok (s\<lparr>wakes := n\<rparr>) = socks_ok s" "socks_ok (s\<lparr>working := x\<rparr>) = socks_ok s"
  "socks_ok (s\<lparr>held := x\<rparr>) = socks_ok s" "socks_ok (s\<lparr>connecting := b\<rparr>) = socks_ok s" "socks_ok (s\<lparr>pc := p\<rparr>) = socks_ok s"
  "socks_ok (s\<lparr>attic := x\<rparr>) = socks_ok s" "socks_ok (s\<lparr>watched := x\<rparr>) = socks_ok s" "socks_ok (s\<lparr>conns := t\<rparr>) = socks_ok s"
  "socks_ok (s\<lparr>wadd := x\<rparr>) = socks_ok s" "socks_ok (s\<lparr>active_list := v\<rparr>) = socks_ok s" "socks_ok (s\<lparr>fresh := x\<rparr>) = socks_ok s"
  "socks_ok (s\<lparr>made := x\<rparr>) = socks_ok s"
  by (simp_all add: socks_ok_def)

lemma owned_frame:
  "owned_once (s\<lparr>wakes := n\<rparr>) = owned_once s" "owned_once (s\<lparr>made := x\<rparr>) = owned_once s"
  "owned_once (s\<lparr>connecting := b\<rparr>) = owned_once s" "owned_once (s\<lparr>fds := x\<rparr>) = owned_once s"
  "owned_once (s\<lparr>watched := x\<rparr>) = owned_once s" "owned_once (s\<lparr>active_list := v\<rparr>) = owned_once s"
  by (simp_all add: owned_once_def adding_def removing_def updating_def fun_eq_iff)

lemma made_frame:
  "made_ok (s\<lparr>wremove := x\<rparr>) = made_ok s" "made_ok (s\<lparr>wakes := n\<rparr>) = made_ok s" "made_ok (s\<lparr>working := x\<rparr>) = made_ok s"
  "made_ok (s\<lparr>fds := x\<rparr>) = made_ok s" "made_ok (s\<lparr>connecting := b\<rparr>) = made_ok s" "made_ok (s\<lparr>pc := p\<rparr>) = made_ok s"
  "made_ok (s\<lparr>attic := x\<rparr>) = made_ok s" "made_ok (s\<lparr>watched := x\<rparr>) = made_ok s" "made_ok (s\<lparr>conns := t\<rparr>) = made_ok s"
  "made_ok (s\<lparr>wadd := x\<rparr>) = made_ok s" "made_ok (s\<lparr>active_list := v\<rparr>) = made_ok s"
  by (simp_all add: made_ok_def)

lemmas frames = table_frame socks_frame owned_frame made_frame
lemmas owned_defs = owned_once_def adding_def removing_def updating_def

text \<open>Replacing an object, or making one.\<close>

lemma socks_same:
  "socks_ok s \<Longrightarrow> heap s a = Some c \<Longrightarrow> csock c' = csock c \<or> csock c' = 0 \<Longrightarrow> socks_ok (s\<lparr>heap := (heap s)(a \<mapsto> c')\<rparr>)"
  by (auto simp: socks_ok_def)

lemma table_same:
  "table_ok s \<Longrightarrow> heap s a = Some c \<Longrightarrow> csock c' = csock c \<or> csock c' = 0 \<Longrightarrow> table_ok (s\<lparr>heap := (heap s)(a \<mapsto> c')\<rparr>)"
  by (rule table_cong) (auto simp: sock_of_def table_ok_def)

lemma made_same: "made_ok s \<Longrightarrow> heap s a = Some c \<Longrightarrow> made_ok (s\<lparr>heap := (heap s)(a \<mapsto> c')\<rparr>)"
  by (auto simp: made_ok_def)

lemma socks_close:
  "socks_ok s \<Longrightarrow> heap s a = Some c \<Longrightarrow> csock c' = 0 \<Longrightarrow> socks_ok (s\<lparr>fds := fds s - {csock c}, heap := (heap s)(a \<mapsto> c')\<rparr>)"
  by (auto simp: socks_ok_def)

lemma socks_new:
  "socks_ok s \<Longrightarrow> free_for fd a s \<Longrightarrow>
   socks_ok (s\<lparr>heap := (heap s)(a \<mapsto> \<lparr>csock = fd, cbusy = x, cparent = y\<rparr>), fds := insert fd (fds s)\<rparr>)"
  by (auto simp: socks_ok_def free_for_def)

lemma read_sockets_ok [simp]: "conn_ok (read_sockets s) = conn_ok s" "fault (read_sockets s) = fault s" "heap (read_sockets s) = heap s"
  by (simp_all add: conn_ok_def read_sockets_def frames)

lemma detach_ok:
  assumes "conn_ok s" "heap s a = Some c" "cparent c" "a \<in> um_vals (conns s) \<or> a \<in> adding s \<and> a \<notin> wremove s \<union> removing s \<union> fresh s"
  shows "conn_ok (detach a c s)"
proof -
  have "owned_once (s\<lparr>wremove := insert a (wremove s)\<rparr>) b" for b
    using conn_okD(3) [OF assms(1), of b] assms(2-4)
    by (cases "b = a") (auto simp: owned_defs split: if_splits)
  then show ?thesis using assms(1) by (simp add: detach_def) (simp add: conn_ok_def frames)
qed

lemma disconnect_ok:
  assumes "conn_ok s" "heap s a = Some c" "a \<notin> adding s \<or> a \<notin> wremove s \<union> removing s \<union> fresh s"
  shows "conn_ok (disconnect f a s) \<and> fault (disconnect f a s) = fault s \<and> heap (disconnect f a s) = heap s"
proof (cases "cparent c")
  case True
  then have "a \<in> um_vals (conns s) \<or> a \<in> adding s" using conn_okD(3) [OF assms(1), of a] assms(2) by (auto simp: owned_once_def)
  then have "conn_ok (detach a c s)" using detach_ok [OF assms(1,2) True] assms(3) by blast
  then show ?thesis using assms(2) True by (simp add: disconnect_def) (simp add: detach_def)
next
  case False
  then have "csock c = 0" using conn_okD(3) [OF assms(1), of a] assms(2) by (auto simp: owned_once_def split: if_splits)
  then show ?thesis using False assms by (simp add: disconnect_def close_client_def)
qed

lemma fresh_ok:
  assumes "conn_ok s" "a \<notin> wremove s \<union> removing s" "a \<in> made s"
  shows "conn_ok (s\<lparr>fresh := insert a (fresh s)\<rparr>)"
proof -
  have "owned_once (s\<lparr>fresh := insert a (fresh s)\<rparr>) b" for b
    using conn_okD(3) [OF assms(1), of b] assms(2) by (cases "heap s b") (auto simp: owned_defs split: if_splits)
  moreover have "made_ok (s\<lparr>fresh := insert a (fresh s)\<rparr>)" using conn_okD(4) [OF assms(1)] assms(3) by (auto simp: made_ok_def)
  ultimately show ?thesis using assms(1) by (simp add: conn_ok_def frames)
qed

lemma attach_new_ok:
  assumes "conn_ok s" "free_for fd a s"
  shows "conn_ok (attach a False (new_client fd a s)) \<and> fault (attach a False (new_client fd a s)) = fault s
    \<and> a \<notin> wremove (attach a False (new_client fd a s)) \<union> removing (attach a False (new_client fd a s)) \<and> a \<in> made (attach a False (new_client fd a s))"
proof -
  let ?s = "s\<lparr>heap := (heap s)(a \<mapsto> \<lparr>csock = fd, cbusy = False, cparent = True\<rparr>), fds := insert fd (fds s), wadd := insert a (wadd s),
    made := insert a (made s)\<rparr>"
  have m: "dom (heap s) \<union> held s \<union> fresh s \<subseteq> made s" using conn_okD(4) [OF assms(1)] by (simp only: made_ok_def)
  then have f: "fd \<noteq> 0" "heap s a = None" "a \<notin> held s" using assms(2) by (auto simp: free_for_def)
  have e: "attach a False (new_client fd a s) = ?s" using f(1) by (simp add: attach_def new_client_def)
  have n: "a \<notin> um_vals (conns s)" "a \<notin> adding s" "a \<notin> attic s" "a \<notin> wremove s" "a \<notin> removing s" "a \<notin> working s"
    using conn_okD(3) [OF assms(1), of a] f(2) by (simp_all add: owned_once_def)
  have "table_ok ?s"
  proof (rule table_cong [OF conn_okD(1) [OF assms(1)]])
    show "\<forall>x \<in> um_vals (conns s). sock_of ?s x = 0 \<or> sock_of ?s x = sock_of s x" using n(1) by (auto simp: sock_of_def)
    show "\<forall>q b. pc ?s = Growing q b \<longrightarrow> q \<inter> wadd ?s = {}"
    proof (intro allI impI)
      fix q b
      assume "pc ?s = Growing q b"
      then show "q \<inter> wadd ?s = {}" using n(2) conn_okD(1) [OF assms(1)] by (simp add: table_ok_def adding_def)
    qed
  qed simp_all
  moreover have "socks_ok ?s" using socks_new [OF conn_okD(2) [OF assms(1)] assms(2)] by (simp only: socks_frame)
  moreover have "made_ok ?s" using m by (auto simp: made_ok_def)
  moreover have "owned_once ?s b" for b
    using conn_okD(3) [OF assms(1), of b] n f(1,3)
    by (cases "b = a") (auto simp: owned_defs split: if_splits)
  ultimately show ?thesis using n by (simp add: conn_ok_def e removing_def)
qed

text \<open>The flag of a client in the table.\<close>

lemma busy_ok:
  assumes "conn_ok s" "heap s a = Some c" "cparent c" "a \<in> um_vals (conns s)" "\<not> b \<Longrightarrow> x = working s - {a}"
    and "b \<Longrightarrow> x = working s \<or> x = insert a (working s)"
  shows "conn_ok (s\<lparr>heap := (heap s)(a \<mapsto> c\<lparr>cbusy := b\<rparr>), working := x\<rparr>)"
proof -
  let ?s = "s\<lparr>heap := (heap s)(a \<mapsto> c\<lparr>cbusy := b\<rparr>), working := x\<rparr>"
  have "owned_once ?s d" for d
    using conn_okD(3) [OF assms(1), of d] assms(2-6)
    by (cases "d = a"; cases b) (auto simp: owned_defs split: if_splits)
  moreover have "table_ok ?s" using table_same [OF conn_okD(1) [OF assms(1)] assms(2), of "c\<lparr>cbusy := b\<rparr>"] by (simp add: frames)
  moreover have "socks_ok ?s" using socks_same [OF conn_okD(2) [OF assms(1)] assms(2), of "c\<lparr>cbusy := b\<rparr>"] by (simp add: frames)
  moreover have "made_ok ?s" using made_same [OF conn_okD(4) [OF assms(1)] assms(2)] by (simp add: frames)
  ultimately show ?thesis by (simp add: conn_ok_def)
qed

lemma in_table: "um_find (conns s) fd = Some a \<Longrightarrow> a \<in> um_vals (conns s)"
  by (auto simp: um_find_def dest: map_of_SomeD intro: um_valsI)

lemma service_ok:
  assumes "conn_ok s" "pc s = Woken"
  shows "conn_ok (service fd idle s) \<and> fault (service fd idle s) = fault s"
proof (cases "um_find (conns s) fd")
  case (Some a)
  then have m: "a \<in> um_vals (conns s)" by (rule in_table)
  then obtain c where c: "heap s a = Some c" "cparent c" "a \<notin> adding s"
    using conn_okD(3) [OF assms(1), of a] assms(2) by (cases "heap s a") (auto simp: owned_once_def updating_def split: if_splits)
  let ?s = "s\<lparr>heap := (heap s)(a \<mapsto> c\<lparr>cbusy := True\<rparr>)\<rparr>"
  have i: "conn_ok (?s\<lparr>working := insert a (working s)\<rparr>)" by (rule busy_ok [OF assms(1) c(1,2) m]) simp_all
  have "conn_ok (?s\<lparr>working := working s\<rparr>)" by (rule busy_ok [OF assms(1) c(1,2) m]) simp_all
  then have ok: "conn_ok ?s" by simp
  have "conn_ok (disconnect Dangling_server a ?s) \<and> fault (disconnect Dangling_server a ?s) = fault ?s"
    using disconnect_ok [OF ok, of a] c(3) by (simp add: adding_def)
  then show ?thesis using Some c(1) i assms(1) by (simp add: service_def Let_def)
qed (simp add: service_def assms(1))

lemma work_done_ok:
  assumes "conn_ok s" "a \<in> working s"
  shows "conn_ok (work_done a err s) \<and> fault (work_done a err s) = fault s"
proof -
  obtain c where c: "heap s a = Some c" "cbusy c"
    using conn_okD(3) [OF assms(1), of a] assms(2) by (cases "heap s a") (auto simp: owned_once_def)
  then have m: "a \<in> um_vals (conns s)" "cparent c" "a \<notin> adding s"
    using conn_okD(3) [OF assms(1), of a] by (auto simp: owned_once_def split: if_splits)
  let ?s = "if err then disconnect Dangling_worker a s else s"
  have s: "conn_ok ?s" "fault ?s = fault s" "heap ?s = heap s" "conns ?s = conns s" "working ?s = working s"
    using disconnect_ok [OF assms(1) c(1), of Dangling_worker] m(3) assms(1) c(1) m(2)
    by (simp_all) (simp_all add: disconnect_def detach_def read_sockets_def)
  have "conn_ok (?s\<lparr>heap := (heap ?s)(a \<mapsto> c\<lparr>cbusy := False\<rparr>), working := working ?s - {a}\<rparr>)"
    using busy_ok [OF s(1), of a c False] c(1) m by (simp only: s(3-5) simp_thms)
  then show ?thesis using c(1) s by (simp add: work_done_def Let_def)
qed

text \<open>Shrinking takes an idle client from its socket, and out of the clients to be added.\<close>

definition shrunk :: "nat \<Rightarrow> conn \<Rightarrow> server \<Rightarrow> server" where
  "shrunk a c s = s\<lparr>fds := fds s - ({csock c} - {0}), heap := (heap s)(a \<mapsto> c\<lparr>cparent := False, csock := 0\<rparr>),
     wadd := wadd s - {a}, attic := attic s \<union> ({a} \<inter> wadd s)\<rparr>"

lemma shrink_eq:
  assumes "table_ok s" "heap s a = Some c"
  shows "shrink_one a s = (if cbusy c then None else Some (shrunk a c s))"
proof -
  have z: "csock c = 0 \<Longrightarrow> c\<lparr>cparent := False, csock := 0\<rparr> = c\<lparr>cparent := False\<rparr>" by (cases c) simp
  have "wadd s - {a} = wadd s" if "a \<notin> wadd s" using that by simp
  then show ?thesis
    using assms(2) um_find_0 [OF assms(1)]
    by (auto simp: shrink_one_def on_detach_def disconnect_def close_client_def Let_def z shrunk_def)
qed

lemma shrink_ok:
  assumes "conn_ok s" "pc s = Shrinking q" "a \<in> q" "shrink_one a s = Some s'"
  shows "conn_ok (s'\<lparr>pc := Shrinking (q - {a})\<rparr>) \<and> fault s' = fault s"
proof -
  have q: "a \<in> removing s" using assms(2,3) by (simp add: removing_def)
  obtain c where c: "heap s a = Some c"
    using conn_okD(3) [OF assms(1), of a] q by (cases "heap s a") (auto simp: owned_once_def)
  then have nb: "\<not> cbusy c" and s': "s' = shrunk a c s"
    using assms(4) shrink_eq [OF conn_okD(1) [OF assms(1)] c] by (auto split: if_splits)
  let ?c = "c\<lparr>cparent := False, csock := 0\<rparr>"
  let ?s = "(shrunk a c s)\<lparr>pc := Shrinking (q - {a})\<rparr>"
  have "socks_ok (s\<lparr>fds := fds s - {csock c}, heap := (heap s)(a \<mapsto> ?c)\<rparr>)" using socks_close [OF conn_okD(2) [OF assms(1)] c] by simp
  then have "socks_ok ?s" using socks_same [OF conn_okD(2) [OF assms(1)] c, of ?c] by (cases "csock c = 0") (simp_all add: shrunk_def frames)
  moreover have "table_ok ?s"
    using c by (intro table_cong [OF conn_okD(1) [OF assms(1)]]) (auto simp: shrunk_def sock_of_def)
  moreover have "made_ok ?s" using conn_okD(4) [OF assms(1)] c by (auto simp: made_ok_def shrunk_def)
  moreover have "owned_once ?s b" for b
    using conn_okD(3) [OF assms(1), of b] c nb assms(2,3)
    by (cases "b = a"; cases "a \<in> wadd s") (auto simp: owned_defs shrunk_def split: if_splits)
  ultimately show ?thesis by (simp add: conn_ok_def s') (simp add: shrunk_def)
qed

lemma grow_ok:
  assumes "conn_ok s" "pc s = Growing q b" "a \<in> q" "placement place" "fault s = None"
  shows "fault (grow_one place a s) = Some Assertion \<or>
    fault (grow_one place a s) = None \<and> conn_ok ((grow_one place a s)\<lparr>pc := Growing (q - {a}) b\<rparr>)"
proof -
  have "a \<in> adding s" using assms(2,3) by (simp add: adding_def)
  then obtain c where c: "heap s a = Some c" "csock c \<noteq> 0" "a \<notin> um_vals (conns s)" "cparent c"
    using conn_okD(3) [OF assms(1), of a] by (cases "heap s a") (auto simp: owned_once_def)
  show ?thesis
  proof (cases "um_find (conns s) (csock c)")
    case None
    let ?t = "place (conns s) (csock c, a)"
    let ?s = "s\<lparr>conns := ?t, pc := Growing (q - {a}) b\<rparr>"
    have g: "(grow_one place a s)\<lparr>pc := Growing (q - {a}) b\<rparr> = ?s" "fault (grow_one place a s) = None"
      using c None assms(5) by (simp_all add: grow_one_def um_emplace_def)
    have t: "set ?t = insert (csock c, a) (set (conns s))" by (rule placement_set [OF assms(4)])
    have v: "um_vals ?t = insert a (um_vals (conns s))" by (simp add: um_vals_def t)
    have "mset (map snd ?t) = mset (map snd ((csock c, a) # conns s))" using assms(4) by (simp add: placement_def)
    then have "distinct (map snd ?t) = distinct (map snd ((csock c, a) # conns s))" by (rule mset_eq_imp_distinct_iff)
    moreover have "um_ok ?t"
      using placement_distinct [OF assms(4), of "conns s" "(csock c, a)"] None conn_okD(1) [OF assms(1)]
      by (simp add: um_ok_def um_find_None table_ok_def)
    moreover have "a \<notin> set (map snd (conns s))" using c(3) by (simp add: um_vals_def)
    ultimately have "table_ok ?s"
      using conn_okD(1) [OF assms(1)] c assms(2) t v by (auto simp: table_ok_def sock_of_def)
    moreover have "owned_once ?s d" for d
      using conn_okD(3) [OF assms(1), of d] c v assms(2,3) conn_okD(1) [OF assms(1)]
      by (cases "d = a") (auto simp: owned_defs table_ok_def split: if_splits)
    ultimately show ?thesis using g assms(1) by (simp add: conn_ok_def frames)
  qed (use c in \<open>simp add: grow_one_def\<close>)
qed

lemma attic_idle: "conn_ok s \<Longrightarrow> a \<in> attic s \<Longrightarrow> \<exists>c. heap s a = Some c \<and> csock c = 0 \<and> \<not> cbusy c"
  using conn_okD(3) [of s a] by (cases "heap s a") (auto simp: owned_once_def)

lemma purge_eq:
  assumes "conn_ok s"
  shows "purge s = s\<lparr>heap := heap s |` (- attic s), attic := {}\<rparr>"
proof -
  have d: "Set.filter (purgeable s) (attic s) = attic s" "sock_of s ` attic s - {0} = {}" "\<not> (\<exists>a \<in> attic s. heap s a = None)"
    using attic_idle [OF assms] by (fastforce simp: purgeable_def sock_of_def)+
  show ?thesis by (simp only: purge_def Let_def if_False d(1) d(2) Diff_empty Diff_cancel d(3)) simp
qed

lemma purge_ok:
  assumes "conn_ok s" "pc s = Purging"
  shows "conn_ok ((purge s)\<lparr>pc := Scanning\<rparr>) \<and> fault (purge s) = fault s"
proof -
  note p = purge_eq [OF assms(1)]
  let ?s = "(purge s)\<lparr>pc := Scanning\<rparr>"
  have "table_ok ?s"
    by (rule table_cong [OF conn_okD(1) [OF assms(1)]]) (auto simp: p sock_of_def restrict_map_def)
  moreover have "socks_ok ?s" using conn_okD(2) [OF assms(1)] by (auto simp: socks_ok_def p restrict_map_def split: if_splits)
  moreover have "made_ok ?s" using conn_okD(4) [OF assms(1)] by (auto simp: made_ok_def p)
  moreover have "owned_once ?s b" for b
    using conn_okD(3) [OF assms(1), of b] attic_idle [OF assms(1), of b] assms(2)
    by (cases "b \<in> attic s"; cases "heap s b") (auto simp: owned_defs p restrict_map_def)
  ultimately show ?thesis by (simp add: conn_ok_def) (simp add: p)
qed

lemma table_state:
  "conn_ok s \<Longrightarrow> a \<in> um_vals (conns s) \<Longrightarrow>
   \<exists>c. heap s a = Some c \<and> (csock c = 0 \<longleftrightarrow> \<not> cparent c) \<and> (csock c = 0 \<longrightarrow> \<not> cbusy c)"
  using conn_okD(3) [of s a] by (cases "heap s a") (auto simp: owned_once_def split: if_splits)

text \<open>The scan moves the closed clients from the table to the attic.\<close>

definition scanned :: "server \<Rightarrow> server" where
  "scanned s = s\<lparr>conns := filter (\<lambda>(fd, a). sock_of s a \<noteq> 0) (conns s), attic := attic s \<union> {a \<in> um_vals (conns s). sock_of s a = 0},
     watched := sock_of s ` {a \<in> um_vals (conns s). sock_of s a \<noteq> 0 \<and> purgeable s a},
     active_list := filter (\<lambda>a. sock_of s a \<noteq> 0) (map snd (conns s))\<rparr>"

lemma scan_eq:
  assumes "conn_ok s"
  shows "scan s = Some (scanned s)"
proof -
  let ?m = "um_vals (conns s)"
  note m = table_state [OF assms]
  have "map_option (cparent_update (\<lambda>_. False)) (heap s a) = heap s a" if a: "a \<in> ?m" "sock_of s a = 0" for a
  proof -
    obtain c where "heap s a = Some c" "\<not> cparent c" using m [OF a(1)] a(2) by (auto simp: sock_of_def)
    then show ?thesis by (cases c) simp
  qed
  then have h: "(\<lambda>a. if a \<in> ?m \<and> sock_of s a = 0 then map_option (cparent_update (\<lambda>_. False)) (heap s a) else heap s a) = heap s"
    unfolding um_vals_def by (simp add: fun_eq_iff)
  have "heap s a \<noteq> None" "sock_of s a = 0 \<longrightarrow> purgeable s a" if "a \<in> ?m" for a
    using m [OF that] by (auto simp: sock_of_def purgeable_def)
  then have "\<not> (\<exists>a \<in> set (map snd (conns s)). heap s a = None)"
      "\<not> (\<exists>a \<in> set (filter (\<lambda>a. sock_of s a = 0) (map snd (conns s))). \<not> purgeable s a)"
    by (auto simp: um_vals_def)
  then show ?thesis unfolding scan_def Let_def by (simp only: if_False) (simp add: scanned_def h [unfolded um_vals_def] um_vals_def)
qed

lemma scan_ok:
  assumes "conn_ok s" "pc s = Scanning" "scan s = Some s'"
  shows "conn_ok (s'\<lparr>pc := Selecting\<rparr>) \<and> fault s' = fault s"
proof -
  let ?m = "um_vals (conns s)"
  let ?t = "filter (\<lambda>(fd, a). sock_of s a \<noteq> 0) (conns s)" and ?l = "filter (\<lambda>a. sock_of s a \<noteq> 0) (map snd (conns s))"
  have s': "s' = scanned s" "fault s' = fault s" using scan_eq [OF assms(1)] assms(3) by (auto simp: scanned_def)
  let ?s = "(scanned s)\<lparr>pc := Selecting\<rparr>"
  have t: "set ?t = {x \<in> set (conns s). sock_of s (snd x) \<noteq> 0}" "um_vals ?t = {a \<in> ?m. sock_of s a \<noteq> 0}" "map snd ?t = ?l"
    by (auto simp: um_vals_def filter_map comp_def case_prod_unfold intro: rev_image_eqI)
  have "um_ok ?t" "distinct ?l" using conn_okD(1) [OF assms(1)] by (auto simp: um_ok_def table_ok_def distinct_map_filter)
  then have "table_ok ?s" using conn_okD(1) [OF assms(1)] t by (auto simp: table_ok_def sock_of_def scanned_def intro: um_valsI)
  moreover have "owned_once ?s b" for b
    using conn_okD(3) [OF assms(1), of b] table_state [OF assms(1), of b] assms(2) t(2)
    by (cases "b \<in> um_vals (conns s)"; cases "sock_of s b = 0"; cases "heap s b") (auto simp: owned_defs sock_of_def scanned_def split: if_splits)
  moreover have "socks_ok ?s \<and> made_ok ?s" using assms(1) by (simp add: scanned_def conn_ok_def frames)
  ultimately show ?thesis using s' by (simp add: conn_ok_def)
qed

lemma pc_ok:
  assumes "conn_ok s" "pc s = Woken \<and> s' = s\<lparr>pc := Shrinking (wremove s), wremove := {}\<rparr>
      \<or> pc s = Shrinking {} \<and> s' = s\<lparr>pc := Growing (wadd s) b, wadd := {}\<rparr>
      \<or> pc s = Growing {} b \<and> s' = s\<lparr>pc := Purging\<rparr> \<or> pc s = Selecting \<and> s' = s\<lparr>pc := Woken\<rparr>"
  shows "conn_ok s'"
proof -
  have "table_ok s'" using assms(2) by (intro table_cong [OF conn_okD(1) [OF assms(1)]]) (auto simp: sock_of_def)
  moreover have "socks_ok s'" "made_ok s'" using assms by (auto simp: conn_ok_def frames)
  moreover have "owned_once s' a" for a
    using conn_okD(3) [OF assms(1), of a] assms(2) by (cases "heap s a") (auto simp: owned_defs split: if_splits)
  ultimately show ?thesis by (simp add: conn_ok_def)
qed

lemma take_ok: "conn_ok s \<Longrightarrow> conn_ok (s\<lparr>held := held s \<union> set (active_list s)\<rparr>)"
proof -
  assume s: "conn_ok s"
  let ?s = "s\<lparr>held := held s \<union> set (active_list s)\<rparr>"
  have a: "set (active_list s) \<subseteq> um_vals (conns s)" using conn_okD(1) [OF s] by (simp add: table_ok_def)
  have "owned_once ?s b" for b
    using conn_okD(3) [OF s, of b] a by (cases "heap s b") (auto simp: owned_defs split: if_splits)
  moreover have "b \<in> dom (heap s)" if "b \<in> set (active_list s)" for b
    using conn_okD(3) [OF s, of b] a that by (cases "heap s b") (auto simp: owned_once_def)
  then have "made_ok ?s" using conn_okD(4) [OF s] by (auto simp: made_ok_def)
  ultimately show ?thesis using s by (simp add: conn_ok_def frames)
qed

lemma drop_ok:
  assumes "conn_ok s" "a \<in> fresh s"
  shows "conn_ok (s\<lparr>fresh := fresh s - {a}\<rparr>) \<and> (a \<in> adding s \<longrightarrow> a \<notin> wremove s \<union> removing s)"
proof -
  have "owned_once (s\<lparr>fresh := fresh s - {a}\<rparr>) b" for b
    using conn_okD(3) [OF assms(1), of b] by (cases "heap s b") (auto simp: owned_defs split: if_splits)
  moreover have "made_ok (s\<lparr>fresh := fresh s - {a}\<rparr>)" using conn_okD(4) [OF assms(1)] by (auto simp: made_ok_def)
  moreover have "a \<in> adding s \<longrightarrow> a \<notin> wremove s \<union> removing s"
    using conn_okD(3) [OF assms(1), of a] assms(2) by (cases "heap s a") (auto simp: owned_once_def)
  ultimately show ?thesis using assms(1) by (simp add: conn_ok_def frames)
qed

definition other_fault :: "server \<Rightarrow> bool" where
  "other_fault s \<longleftrightarrow> fault s = Some Assertion \<or> fault s = Some Dangling_other"

lemma disconnect_safe:
  assumes "conn_ok s" "fault s = None" "a \<notin> adding s \<or> a \<notin> wremove s \<union> removing s \<union> fresh s"
  shows "fault (disconnect Dangling_other a s) = Some Dangling_other \<or>
    fault (disconnect Dangling_other a s) = None \<and> conn_ok (disconnect Dangling_other a s)"
proof (cases "heap s a")
  case (Some c)
  then show ?thesis using disconnect_ok [OF assms(1) Some assms(3)] assms(2) by simp
qed (simp add: disconnect_def)

lemma step_ok:
  assumes "conn_ok s" "fault s = None" "placement place" "step place e s = Some s'"
  shows "other_fault s' \<or> fault s' = None \<and> conn_ok s'"
proof (cases e)
  case Select
  then show ?thesis using assms pc_ok [OF assms(1), of "s\<lparr>pc := Woken\<rparr>"]
    by (auto simp: conn_ok_def frames split: if_splits)
next
  case (Accept fd a)
  then show ?thesis using assms attach_new_ok [of s fd a] by (auto split: if_splits)
next
  case (Connect fd a)
  then have f: "free_for fd a s" and s': "s' = (attach a False (new_client fd a s))\<lparr>fresh := insert a (fresh s), connecting := True\<rparr>"
    using assms(4) by (auto split: if_splits)
  let ?s = "attach a False (new_client fd a s)"
  have k: "conn_ok ?s" "fault ?s = fault s" "conn_ok (?s\<lparr>fresh := insert a (fresh ?s)\<rparr>)"
    using attach_new_ok [OF assms(1) f] fresh_ok [of ?s a] by blast+
  have "fresh ?s = fresh s" by (simp add: attach_def new_client_def)
  then show ?thesis using k assms(2) by (simp add: s' conn_ok_def frames)
next
  case (Service fd idle)
  then show ?thesis using assms service_ok [of s fd idle] by (auto split: if_splits)
next
  case (Done a err)
  then show ?thesis using assms work_done_ok [of s a err] by (auto split: if_splits)
next
  case (Shrink a)
  then show ?thesis using assms shrink_ok [OF assms(1)] by (auto split: pc.splits if_splits)
next
  case (Grow a)
  then obtain q b where "pc s = Growing q b" "a \<in> q" "s' = (grow_one place a s)\<lparr>pc := Growing (q - {a}) b\<rparr>"
    using assms(4) by (auto split: pc.splits if_splits)
  then show ?thesis using grow_ok [OF assms(1) _ _ assms(3,2), of q b a] by (auto simp: other_fault_def)
next
  case Purge
  then show ?thesis using assms purge_ok [OF assms(1)] by (auto split: if_splits)
next
  case Scan
  then show ?thesis using assms scan_ok [OF assms(1)] by (auto split: if_splits)
next
  case Take
  then show ?thesis using assms take_ok by auto
next
  case (Drop a)
  then show ?thesis using assms drop_ok [of s a] disconnect_safe [of "s\<lparr>fresh := fresh s - {a}\<rparr>" a]
    by (auto simp: other_fault_def adding_def removing_def split: if_splits)
next
  case (Disconnect a)
  then have "a \<in> held s" using assms(4) by (auto split: if_splits)
  then have "a \<notin> adding s" using conn_okD(3) [OF assms(1), of a] by (cases "heap s a") (auto simp: owned_once_def)
  then show ?thesis using Disconnect assms disconnect_safe [of s a] by (auto simp: other_fault_def split: if_splits)
next
  case Connected
  moreover have "conn_ok (s\<lparr>connecting := False\<rparr>)" using assms(1) by (simp add: conn_ok_def frames)
  ultimately show ?thesis using assms(2,4) by (auto split: if_splits)
next
  case Grown
  then show ?thesis using assms pc_ok [OF assms(1), of "s\<lparr>pc := Purging\<rparr>"] by (auto split: pc.splits if_splits)
next
  case Update
  then have "pc s = Woken" "s' = s\<lparr>pc := Shrinking (wremove s), wremove := {}\<rparr>" using assms(4) by (auto split: if_splits)
  then show ?thesis using pc_ok [OF assms(1), of s'] assms(2) by simp
next
  case Flush
  then have "pc s = Shrinking {}" "s' = s\<lparr>pc := Growing (wadd s) (wadd s \<noteq> {}), wadd := {}\<rparr>" using assms(4) by (auto split: if_splits)
  then show ?thesis using pc_ok [OF assms(1), of s' "wadd s \<noteq> {}"] assms(2) by simp
next
  case (Use a)
  then show ?thesis using assms by (auto simp: other_fault_def split: if_splits)
qed

lemma runs_ok:
  assumes "runs place es s = Some s'" "placement place" "other_fault s \<or> fault s = None \<and> conn_ok s"
  shows "other_fault s' \<or> fault s' = None \<and> conn_ok s'"
  using assms(1,3)
proof (induction es arbitrary: s)
  case (Cons e es)
  then obtain s1 where s1: "fault s = None" "step place e s = Some s1" "runs place es s1 = Some s'"
    by (auto split: option.splits if_splits)
  then have "conn_ok s" using Cons.prems(2) by (auto simp: other_fault_def)
  then show ?case using Cons.IH [OF s1(3)] step_ok [OF _ s1(1) assms(2) s1(2)] by blast
qed simp

lemma server0_ok: "conn_ok server0"
  by (simp add: conn_ok_def table_ok_def socks_ok_def made_ok_def owned_once_def adding_def removing_def server0_def um_ok_def um_vals_def)

lemma runs_append: "runs place (es @ fs) s = (case runs place es s of None \<Rightarrow> None | Some s \<Rightarrow> runs place fs s)"
  by (induction es arbitrary: s) (auto split: option.split)

text \<open>Wake-ups, and the sets the loops run over.\<close>

lemma wakes_frame:
  "no_lost_wakeup (s\<lparr>heap := h\<rparr>) = no_lost_wakeup s" "no_lost_wakeup (s\<lparr>working := x\<rparr>) = no_lost_wakeup s"
  "no_lost_wakeup (s\<lparr>fault := f\<rparr>) = no_lost_wakeup s" "no_lost_wakeup (s\<lparr>fresh := x\<rparr>) = no_lost_wakeup s"
  "no_lost_wakeup (s\<lparr>conns := t\<rparr>) = no_lost_wakeup s" "no_lost_wakeup (s\<lparr>attic := x\<rparr>) = no_lost_wakeup s"
  "no_lost_wakeup (s\<lparr>fds := x\<rparr>) = no_lost_wakeup s"
  by (simp_all add: no_lost_wakeup_def)

lemma wakes_read [simp]: "no_lost_wakeup (read_sockets s)"
  by (simp add: no_lost_wakeup_def read_sockets_def)

lemma wakes_disconnect: "no_lost_wakeup s \<Longrightarrow> no_lost_wakeup (disconnect f a s)"
  by (auto simp: disconnect_def detach_def close_client_def wakes_frame split: option.split)

lemma wakes_shrink:
  assumes "no_lost_wakeup s" "shrink_one a s = Some s'" "pc s = Shrinking q"
  shows "no_lost_wakeup (s'\<lparr>pc := Shrinking p\<rparr>)"
proof -
  have d: "no_lost_wakeup t \<Longrightarrow> pc t = Shrinking q \<Longrightarrow> no_lost_wakeup (t\<lparr>pc := Shrinking p\<rparr>)
      \<and> no_lost_wakeup (t\<lparr>wadd := x, attic := y, pc := Shrinking p\<rparr>) \<and> no_lost_wakeup (t\<lparr>conns := z, attic := y, pc := Shrinking p\<rparr>)" for t x y z
    by (auto simp: no_lost_wakeup_def)
  have p: "pc (disconnect f a t) = pc t" for f t
    by (simp add: disconnect_def detach_def close_client_def read_sockets_def split: option.split)
  have "no_lost_wakeup (s\<lparr>heap := h, fault := f\<rparr>)" "no_lost_wakeup (s\<lparr>heap := h\<rparr>)" "no_lost_wakeup (s\<lparr>fault := f\<rparr>)" for h f
    using assms(1) by (simp_all add: wakes_frame)
  then show ?thesis
    using assms(2,3) by (auto simp: shrink_one_def on_detach_def Let_def p wakes_disconnect intro: d [THEN conjunct1]
      d [THEN conjunct2, THEN conjunct1] d [THEN conjunct2, THEN conjunct2] split: option.splits if_splits)
qed

lemma step_wakes:
  assumes "no_lost_wakeup s" "step place e s = Some s'"
  shows "no_lost_wakeup s'"
proof (cases e)
  case (Service fd idle)
  then show ?thesis using assms by (auto simp: service_def Let_def wakes_disconnect wakes_frame split: if_splits option.splits)
next
  case (Done a err)
  then show ?thesis using assms by (auto simp: work_done_def Let_def wakes_disconnect wakes_frame split: if_splits option.splits)
next
  case (Disconnect a)
  then show ?thesis using assms by (auto simp: wakes_disconnect split: if_splits)
next
  case (Drop a)
  then show ?thesis using assms by (auto simp: wakes_disconnect wakes_frame split: if_splits)
next
  case (Shrink a)
  then show ?thesis using assms by (auto simp: wakes_shrink split: pc.splits if_splits)
next
  case (Grow a)
  then show ?thesis using assms by (auto simp: no_lost_wakeup_def grow_one_def split: pc.splits if_splits option.splits)
next
  case (Accept fd a)
  then show ?thesis using assms by (auto simp: no_lost_wakeup_def attach_def new_client_def split: if_splits)
next
  case (Connect fd a)
  then show ?thesis using assms by (auto simp: no_lost_wakeup_def attach_def new_client_def split: if_splits)
next
  case Purge
  then show ?thesis using assms by (auto simp: no_lost_wakeup_def purge_def Let_def split: if_splits)
next
  case Scan
  then show ?thesis using assms by (auto simp: no_lost_wakeup_def scan_def Let_def split: if_splits)
next
  case Grown
  then show ?thesis using assms by (auto simp: no_lost_wakeup_def read_sockets_def split: if_splits pc.splits)
qed (use assms in \<open>auto simp: no_lost_wakeup_def read_sockets_def split: if_splits\<close>)

lemma runs_wakes:
  assumes "runs place es s = Some s'" "no_lost_wakeup s"
  shows "no_lost_wakeup s'"
  using assms by (induction es arbitrary: s) (auto split: option.splits if_splits dest: step_wakes)

end
