(* ===== verification/Connection_Runs.thy ===== *)
theory Connection_Runs
  imports Connections
begin

text \<open>
  What happens to connections over the runs of the server of \<open>Connections\<close>: the ownership of the clients, their
  way from \<open>disconnect\<close> to \<open>delete\<close>, and the runs that go wrong.
\<close>

section \<open>A connection nobody works on\<close>

definition stuck :: "nat \<Rightarrow> server \<Rightarrow> bool" where
  "stuck a s \<longleftrightarrow> (\<exists>c. heap s a = Some c \<and> cbusy c \<and> cparent c) \<and> a \<notin> working s \<and> a \<in> made s
     \<and> (pc s = Woken \<and> a \<in> wremove s \<or> (\<exists>q. pc s = Shrinking q \<and> a \<in> q))"

lemma stuck_disconnect: "stuck a s \<Longrightarrow> stuck a (disconnect f b s)"
  by (auto simp: stuck_def disconnect_def detach_def close_client_def read_sockets_def split: option.split)

lemma stuck_service:
  assumes "stuck a s"
  shows "stuck a (service fd idle s)"
proof (cases "um_find (conns s) fd")
  case (Some b)
  have "stuck a (s\<lparr>heap := (heap s)(b \<mapsto> c\<lparr>cbusy := True\<rparr>)\<rparr>)" "\<not> cbusy c \<Longrightarrow> stuck a (s\<lparr>heap := (heap s)(b \<mapsto> c\<lparr>cbusy := True\<rparr>),
      working := insert b (working s)\<rparr>)" if "heap s b = Some c" for c
    using assms that by (auto simp: stuck_def)
  moreover have "stuck a (s\<lparr>fault := f\<rparr>)" for f using assms by (auto simp: stuck_def)
  ultimately show ?thesis using assms Some stuck_disconnect by (auto simp: service_def Let_def split: option.split)
qed (simp add: service_def assms)

lemma stuck_step:
  assumes "stuck a s" "step place e s = Some s'"
  shows "stuck a s'"
proof (cases e)
  case (Service fd idle)
  then show ?thesis using assms stuck_service by (auto split: if_splits)
next
  case (Done b err)
  then have "b \<noteq> a" using assms by (auto simp: stuck_def split: if_splits)
  moreover have "stuck a (read_sockets (t\<lparr>heap := (heap t)(b \<mapsto> c), working := working t - {b}\<rparr>))" "stuck a (t\<lparr>fault := f\<rparr>)"
    if "stuck a t" "b \<noteq> a" for t c f using that by (auto simp: stuck_def read_sockets_def)
  ultimately show ?thesis using Done assms stuck_disconnect [OF assms(1)]
    by (auto simp: work_done_def Let_def split: if_splits option.splits)
next
  case (Disconnect b)
  then show ?thesis using assms stuck_disconnect by (auto split: if_splits)
next
  case (Drop b)
  have "stuck a (s\<lparr>fresh := x\<rparr>)" for x using assms(1) by (auto simp: stuck_def)
  then show ?thesis using Drop assms stuck_disconnect by (auto split: if_splits)
next
  case (Shrink b)
  then obtain q t where q: "pc s = Shrinking q" "b \<in> q" "shrink_one b s = Some t" "s' = t\<lparr>pc := Shrinking (q - {b})\<rparr>"
    using assms(2) by (auto split: pc.splits if_splits)
  have "b \<noteq> a" using q(3) assms(1) by (auto simp: stuck_def shrink_one_def on_detach_def)
  have f: "stuck a (t\<lparr>heap := (heap t)(b \<mapsto> c)\<rparr>)" "stuck a (t\<lparr>fault := f\<rparr>)" "stuck a (t\<lparr>wadd := x, attic := y\<rparr>)"
      "stuck a (t\<lparr>conns := m, attic := y\<rparr>)" "pc t = Shrinking q \<Longrightarrow> stuck a (t\<lparr>pc := Shrinking (q - {b})\<rparr>)"
    if "stuck a t" for t c f x y m using that \<open>b \<noteq> a\<close> by (auto simp: stuck_def)
  have p: "pc (disconnect g b t) = pc t" for g t
    by (simp add: disconnect_def detach_def close_client_def read_sockets_def split: option.split)
  have "stuck a t \<and> pc t = Shrinking q"
    using q(1,3) assms(1) by (auto simp: shrink_one_def on_detach_def Let_def f stuck_disconnect p split: option.splits if_splits)
  then show ?thesis using f(5) q(4) by simp
next
  case (Accept fd b)
  then show ?thesis using assms by (auto simp: stuck_def attach_def new_client_def free_for_def split: if_splits)
next
  case (Connect fd b)
  then show ?thesis using assms by (auto simp: stuck_def attach_def new_client_def free_for_def split: if_splits)
next
  case Update
  then show ?thesis using assms by (auto simp: stuck_def split: if_splits)
next
  case (Use b)
  then show ?thesis using assms by (auto simp: stuck_def split: if_splits)
next
  case Connected
  then show ?thesis using assms by (auto simp: stuck_def read_sockets_def split: if_splits)
next
  case Take
  then show ?thesis using assms by (auto simp: stuck_def)
qed (use assms in \<open>auto simp: stuck_def split: if_splits pc.splits\<close>)

lemma stuck_runs: "runs place es s = Some s' \<Longrightarrow> stuck a s \<Longrightarrow> stuck a s'"
  by (induction es arbitrary: s) (auto split: option.splits if_splits dest: stuck_step)

section \<open>The server on its own\<close>

lemma shrink_all:
  assumes "distinct xs" "pc s = Shrinking (set xs)" "conn_ok s" "fault s = None" "\<forall>x \<in> set xs. purgeable s x"
  shows "\<exists>s'. runs place (map Shrink xs) s = Some s' \<and> pc s' = Shrinking {} \<and> conn_ok s' \<and> fault s' = None
    \<and> conns s' = conns s \<and> wremove s' = wremove s \<and> wadd s' = wadd s - set xs \<and> fds s' \<subseteq> fds s \<and> (\<forall>x \<in> set xs. sock_of s x = 0 \<or> sock_of s x \<notin> fds s')
    \<and> (\<forall>x. sock_of s' x = (if x \<in> set xs then 0 else sock_of s x)) \<and> (\<forall>x. purgeable s' x = purgeable s x) \<and> attic s \<subseteq> attic s' \<and> dom (heap s') = dom (heap s)"
  using assms
proof (induction xs arbitrary: s)
  case (Cons a xs)
  obtain c where c: "heap s a = Some c" "\<not> cbusy c" using Cons.prems(5) by (auto simp: purgeable_def split: option.splits)
  let ?s = "(shrunk a c s)\<lparr>pc := Shrinking (set xs)\<rparr>"
  have one: "shrink_one a s = Some (shrunk a c s)" using shrink_eq [OF conn_okD(1) [OF Cons.prems(3)] c(1)] c(2) by simp
  have d: "set (a # xs) - {a} = set xs" using Cons.prems(1) by auto
  have ok: "conn_ok ?s" "fault ?s = None"
    using shrink_ok [OF Cons.prems(3,2) _ one] Cons.prems(4) d by (simp_all add: shrunk_def)
  have f: "sock_of ?s x = (if x = a then 0 else sock_of s x)" "purgeable ?s x = purgeable s x" for x
    using c by (simp_all add: sock_of_def purgeable_def shrunk_def)
  have st: "step place (Shrink a) s = Some ?s" using Cons.prems(2) one d by simp
  have "distinct xs" "pc ?s = Shrinking (set xs)" "\<forall>x \<in> set xs. purgeable ?s x" using Cons.prems(1,5) f by simp_all
  note i = Cons.IH [OF this(1,2) ok this(3)]
  obtain s' where s': "runs place (map Shrink xs) ?s = Some s'" "pc s' = Shrinking {}" "conn_ok s'" "fault s' = None"
      "conns s' = conns ?s" "wremove s' = wremove ?s" "wadd s' = wadd ?s - set xs" "fds s' \<subseteq> fds ?s"
      "\<forall>x \<in> set xs. sock_of ?s x = 0 \<or> sock_of ?s x \<notin> fds s'" "\<forall>x. sock_of s' x = (if x \<in> set xs then 0 else sock_of ?s x)"
      "\<forall>x. purgeable s' x = purgeable ?s x" "attic ?s \<subseteq> attic s'" "dom (heap s') = dom (heap ?s)"
    using i by blast
  have e: "conns ?s = conns s" "wremove ?s = wremove s" "wadd ?s = wadd s - {a}" "fds ?s = fds s - ({csock c} - {0})" "sock_of s a = csock c"
    using c by (simp_all add: shrunk_def sock_of_def)
  show ?case
  proof (intro exI [of _ s'] conjI)
    show "runs place (map Shrink (a # xs)) s = Some s'" using st s'(1) Cons.prems(4) by simp
    show "\<forall>x \<in> set (a # xs). sock_of s x = 0 \<or> sock_of s x \<notin> fds s'"
    proof
      fix x
      assume "x \<in> set (a # xs)"
      then show "sock_of s x = 0 \<or> sock_of s x \<notin> fds s'"
        using s'(8,9) [unfolded e f] e(5) by (cases "x = a") (auto simp del: neq0_conv dest: bspec)
    qed
    show "\<forall>x. sock_of s' x = (if x \<in> set (a # xs) then 0 else sock_of s x)" using s'(10) by (auto simp: f)
    show "wadd s' = wadd s - set (a # xs)" using s'(7) by (auto simp: e)
    show "fds s' \<subseteq> fds s" using s'(8) by (auto simp: e)
    show "attic s \<subseteq> attic s'" using s'(12) by (auto simp: shrunk_def)
    show "dom (heap s') = dom (heap s)" using s'(13) c(1) by (auto simp: shrunk_def)
  qed (use s' e f in simp_all)
qed simp

lemma grow_all:
  assumes "distinct xs" "pc s = Growing (set xs) b" "conn_ok s" "fault s = None" "placement place"
    and "\<forall>x \<in> set xs. sock_of s x \<notin> um_keys (conns s)"
  shows "\<exists>s'. runs place (map Grow xs) s = Some s' \<and> pc s' = Growing {} b \<and> conn_ok s' \<and> fault s' = None
    \<and> wremove s' = wremove s \<and> wadd s' = wadd s \<and> fds s' = fds s \<and> heap s' = heap s \<and> attic s' = attic s"
  using assms(1-4,6)
proof (induction xs arbitrary: s)
  case (Cons a xs)
  have "a \<in> adding s" using Cons.prems(2) by (simp add: adding_def)
  then obtain c where c: "heap s a = Some c" "csock c \<noteq> 0"
    using conn_okD(3) [OF Cons.prems(3), of a] by (cases "heap s a") (auto simp: owned_once_def)
  have n: "um_find (conns s) (csock c) = None" using Cons.prems(5) c(1) by (simp add: um_find_None sock_of_def)
  let ?s = "s\<lparr>conns := um_emplace place (csock c) a (conns s), pc := Growing (set xs) b\<rparr>"
  have d: "set (a # xs) - {a} = set xs" using Cons.prems(1) by auto
  have g: "(grow_one place a s)\<lparr>pc := Growing (set xs) b\<rparr> = ?s" "fault (grow_one place a s) = None"
    using c n Cons.prems(4) by (simp_all add: grow_one_def)
  have ok: "conn_ok ?s" "fault ?s = None"
    using grow_ok [OF Cons.prems(3,2) _ assms(5) Cons.prems(4), of a] d g Cons.prems(4) by simp_all
  have st: "step place (Grow a) s = Some ?s" using Cons.prems(2) g d by simp
  have "sock_of ?s x \<notin> um_keys (conns ?s)" if x: "x \<in> set xs" for x
  proof -
    have "x \<in> adding s" using x Cons.prems(2) by (simp add: adding_def)
    then obtain e where e: "heap s x = Some e" "csock e \<noteq> 0"
      using conn_okD(3) [OF Cons.prems(3), of x] by (cases "heap s x") (auto simp: owned_once_def)
    have "x \<noteq> a" using x Cons.prems(1) by auto
    then have "csock e \<noteq> csock c" using conn_okD(2) [OF Cons.prems(3)] c e unfolding socks_ok_def by metis
    moreover have "csock e \<notin> um_keys (conns s)" using Cons.prems(5) x e(1) by (auto simp: sock_of_def)
    ultimately show ?thesis using e(1) by (simp add: sock_of_def um_keys_emplace [OF assms(5)])
  qed
  then have "\<exists>s'. runs place (map Grow xs) ?s = Some s' \<and> pc s' = Growing {} b \<and> conn_ok s' \<and> fault s' = None
    \<and> wremove s' = wremove ?s \<and> wadd s' = wadd ?s \<and> fds s' = fds ?s \<and> heap s' = heap ?s \<and> attic s' = attic ?s"
    using Cons.IH [of ?s] Cons.prems(1) ok by simp
  then show ?case using st Cons.prems(4) by auto
qed simp

text \<open>The rest of an update: purge and scan.\<close>

lemma purge_scan:
  assumes "pc s = Growing {} b" "conn_ok s" "fault s = None"
  shows "\<exists>s'. runs place [Grown, Purge, Scan] s = Some s' \<and> pc s' = Selecting \<and> conn_ok s' \<and> fault s' = None
    \<and> wremove s' = wremove s \<and> wadd s' = wadd s \<and> fds s' = fds s
    \<and> (\<forall>x. heap s' x = (if x \<in> attic s then None else heap s x)) \<and> attic s' = {a \<in> um_vals (conns s). sock_of s a = 0}"
proof -
  define r where "r = (if b then read_sockets else id) (s\<lparr>pc := Purging\<rparr>)"
  have r: "heap r = heap s" "conns r = conns s" "attic r = attic s" "wremove r = wremove s" "wadd r = wadd s" "fds r = fds s"
      "fault r = None" "pc r = Purging" "step place Grown s = Some r"
    using assms(1,3) by (simp_all add: r_def read_sockets_def)
  have 1: "conn_ok r" using pc_ok [OF assms(2), of "s\<lparr>pc := Purging\<rparr>"] assms(1) by (auto simp: r_def)
  define t where "t = (purge r)\<lparr>pc := Scanning\<rparr>"
  have 2: "conn_ok t" "fault t = None" "step place Purge r = Some t" using purge_ok [OF 1 r(8)] r(7,8) by (simp_all add: t_def)
  have t: "heap t = heap s |` (- attic s)" "conns t = conns s" "attic t = {}" "wremove t = wremove s" "wadd t = wadd s" "fds t = fds s"
      "pc t = Scanning"
    using purge_eq [OF 1] r by (simp_all add: t_def)
  let ?s' = "(scanned t)\<lparr>pc := Selecting\<rparr>"
  have 3: "conn_ok ?s'" "step place Scan t = Some ?s'" using scan_ok [OF 2(1) t(7) scan_eq [OF 2(1)]] scan_eq [OF 2(1)] t(7) by simp_all
  have "a \<notin> attic s" if "a \<in> um_vals (conns s)" for a
    using conn_okD(3) [OF assms(2), of a] that by (cases "heap s a") (auto simp: owned_once_def)
  then have at: "{a \<in> um_vals (conns s). sock_of t a = 0} = {a \<in> um_vals (conns s). sock_of s a = 0}"
    by (auto simp: t sock_of_def restrict_map_def)
  show ?thesis
  proof (intro exI [of _ ?s'] conjI)
    show "runs place [Grown, Purge, Scan] s = Some ?s'"
      using r(7,9) 2(2,3) 3(2) assms(3) by (simp del: step.simps)
  qed (use 3(1) 2(2) t at in \<open>simp_all add: scanned_def restrict_map_def\<close>)
qed

text \<open>Steps of the server only.\<close>

fun alone :: "event \<Rightarrow> bool" where
  "alone (Accept fd a) = False" | "alone (Service fd idle) = False" | "alone (Done a err) = False" | "alone (Connect fd a) = False"
| "alone Connected = False" | "alone (Drop a) = False" | "alone Take = False" | "alone (Use a) = False" | "alone (Disconnect a) = False"
| "alone e = True"

lemma alone_map: "list_all alone (map Shrink xs)" "list_all alone (map Grow xs)"
  by (simp_all add: list_all_iff)

lemma keys_apart:
  assumes "conn_ok s" "pc s = Woken" "x \<in> wadd s"
  shows "sock_of s x \<notin> um_keys (conns s)"
proof
  assume "sock_of s x \<in> um_keys (conns s)"
  then obtain y where y: "(sock_of s x, y) \<in> set (conns s)" by (auto simp: um_keys_def)
  then have m: "y \<in> um_vals (conns s)" by (rule um_valsI)
  have z: "x \<in> adding s" "\<not> updating s" using assms(2,3) by (simp_all add: adding_def updating_def)
  obtain c where c: "heap s x = Some c" "x \<notin> um_vals (conns s)"
    using conn_okD(3) [OF assms(1), of x] z by (cases "heap s x") (auto simp: owned_once_def)
  obtain d where d: "heap s y = Some d" "csock d \<noteq> 0"
    using conn_okD(3) [OF assms(1), of y] z m by (cases "heap s y") (auto simp: owned_once_def split: if_splits)
  have "sock_of s y = sock_of s x" using conn_okD(1) [OF assms(1)] y d by (auto simp: table_ok_def sock_of_def)
  then have "csock d = csock c" using c(1) d(1) by (simp add: sock_of_def)
  then have "x = y" using conn_okD(2) [OF assms(1)] c(1) d unfolding socks_ok_def by metis
  then show False using c(2) m by simp
qed

lemma closed_place:
  assumes "conn_ok s" "sock_of s x = 0" "purgeable s x"
  shows "x \<in> um_vals (conns s) \<or> x \<in> attic s"
  using conn_okD(3) [OF assms(1), of x] assms(2,3)
  by (cases "heap s x") (auto simp: owned_once_def sock_of_def purgeable_def)

lemma update_alone:
  assumes "conn_ok s" "fault s = None" "pc s = Woken" "placement place" "finite (wremove s)" "finite (wadd s)"
    and "\<forall>x \<in> wremove s. purgeable s x"
  shows "\<exists>es s'. list_all alone es \<and> runs place es s = Some s' \<and> pc s' = Selecting \<and> conn_ok s' \<and> fault s' = None
    \<and> wremove s' = {} \<and> wadd s' = {} \<and> fds s' \<subseteq> fds s
    \<and> (\<forall>x \<in> wremove s. (heap s' x = None \<or> x \<in> attic s') \<and> (sock_of s x = 0 \<or> sock_of s x \<notin> fds s'))
    \<and> (\<forall>x \<in> attic s. heap s' x = None) \<and> dom (heap s') \<subseteq> dom (heap s)"
proof -
  obtain xs where xs: "set xs = wremove s" "distinct xs" using finite_distinct_list [OF assms(5)] by blast
  let ?s0 = "s\<lparr>pc := Shrinking (set xs), wremove := {}\<rparr>"
  have 0: "conn_ok ?s0" "fault ?s0 = None" "step place Update s = Some ?s0" "\<forall>x \<in> set xs. purgeable ?s0 x" "pc ?s0 = Shrinking (set xs)"
    using pc_ok [OF assms(1), of ?s0] assms(2,3,7) by (simp_all add: xs(1) purgeable_def)
  obtain s1 where 1: "runs place (map Shrink xs) ?s0 = Some s1" "pc s1 = Shrinking {}" "conn_ok s1" "fault s1 = None"
      "conns s1 = conns s" "wremove s1 = {}" "wadd s1 = wadd s - set xs" "fds s1 \<subseteq> fds s"
      "\<forall>x \<in> set xs. sock_of ?s0 x = 0 \<or> sock_of ?s0 x \<notin> fds s1" "\<forall>x. sock_of s1 x = (if x \<in> set xs then 0 else sock_of ?s0 x)"
      "\<forall>x. purgeable s1 x = purgeable ?s0 x" "attic s \<subseteq> attic s1" "dom (heap s1) = dom (heap s)"
    using shrink_all [OF xs(2) 0(5,1,2,4), of place] by auto
  obtain ys where ys: "set ys = wadd s1" "distinct ys" using finite_distinct_list [of "wadd s1"] assms(6) 1(7) by auto
  let ?s2 = "s1\<lparr>pc := Growing (set ys) (wadd s1 \<noteq> {}), wadd := {}\<rparr>"
  have 2: "conn_ok ?s2" "fault ?s2 = None" "step place Flush s1 = Some ?s2" "pc ?s2 = Growing (set ys) (wadd s1 \<noteq> {})"
    using pc_ok [OF 1(3), of ?s2 "wadd s1 \<noteq> {}"] 1(2,4) by (simp_all add: ys(1))
  have so: "sock_of ?s0 = sock_of s" "sock_of ?s2 = sock_of s1" by (simp_all add: sock_of_def fun_eq_iff)
  have c9: "\<forall>x \<in> set xs. sock_of s x = 0 \<or> sock_of s x \<notin> fds s1" using 1(9) by (simp only: so)
  have "\<forall>x \<in> set ys. sock_of ?s2 x \<notin> um_keys (conns ?s2)"
  proof
    fix x
    assume "x \<in> set ys"
    then have x: "x \<in> wadd s" "x \<notin> set xs" using 1(7) ys(1) by auto
    then have "sock_of s1 x = sock_of s x" using 1(10) so(1) by simp
    then show "sock_of ?s2 x \<notin> um_keys (conns ?s2)" using keys_apart [OF assms(1,3) x(1)] 1(5) by (simp add: so(2) del: ys(1))
  qed
  from grow_all [OF ys(2) 2(4,1,2) assms(4) this] obtain s3 where 3: "runs place (map Grow ys) ?s2 = Some s3"
      "pc s3 = Growing {} (wadd s1 \<noteq> {})" "conn_ok s3" "fault s3 = None" "wremove s3 = {}" "wadd s3 = {}" "fds s3 = fds s1" "heap s3 = heap s1" "attic s3 = attic s1"
    using 1(6) by auto
  obtain s' where s': "runs place [Grown, Purge, Scan] s3 = Some s'" "pc s' = Selecting" "conn_ok s'" "fault s' = None"
      "wremove s' = {}" "wadd s' = {}" "fds s' = fds s1" "\<forall>x. heap s' x = (if x \<in> attic s3 then None else heap s3 x)"
      "attic s' = {a \<in> um_vals (conns s3). sock_of s3 a = 0}"
    using purge_scan [OF 3(2-4), of place] 3(5-7) by auto
  have h3: "sock_of s3 x = sock_of s1 x" "purgeable s3 x = purgeable s1 x" for x using 3(8) by (simp_all add: sock_of_def purgeable_def)
  have dead: "heap s' x = None \<or> x \<in> attic s'" if "sock_of s1 x = 0" "purgeable s1 x" for x
    using closed_place [OF 3(3), of x] that s'(8,9) h3 by auto
  let ?es = "Update # map Shrink xs @ Flush # map Grow ys @ [Grown, Purge, Scan]"
  show ?thesis
  proof (intro exI [of _ ?es] exI [of _ s'] conjI)
    show "list_all alone ?es" by (simp add: alone_map)
    show "runs place ?es s = Some s'"
      using assms(2) 0(3) 1(1,4) 2(3) 3(1) s'(1) by (simp add: runs_append del: step.simps)
    show "\<forall>x \<in> wremove s. (heap s' x = None \<or> x \<in> attic s') \<and> (sock_of s x = 0 \<or> sock_of s x \<notin> fds s')"
    proof
      fix x
      assume x: "x \<in> wremove s"
      then have "sock_of s1 x = 0" "purgeable s1 x" using 0(4) 1(10,11) xs(1) by auto
      from dead [OF this] show "(heap s' x = None \<or> x \<in> attic s') \<and> (sock_of s x = 0 \<or> sock_of s x \<notin> fds s')"
        using x c9 s'(7) by (simp add: xs(1))
    qed
    show "\<forall>x \<in> attic s. heap s' x = None" using 1(12) 3(9) s'(8) by auto
    show "dom (heap s') \<subseteq> dom (heap s)" 
    proof
      fix x
      assume "x \<in> dom (heap s')"
      moreover have "heap s' x = (if x \<in> attic s3 then None else heap s1 x)" using 3(8) s'(8) by simp
      ultimately have "x \<in> dom (heap s1)" by (cases "x \<in> attic s3") (simp_all add: domIff)
      then show "x \<in> dom (heap s)" by (simp only: 1(13))
    qed
  qed (use s' 1(8) in auto)
qed

text \<open>The sets are finite.\<close>

definition finite_ok :: "server \<Rightarrow> bool" where
  "finite_ok s \<longleftrightarrow> finite (wremove s) \<and> finite (wadd s)"

lemma finite_disconnect: "finite_ok s \<Longrightarrow> finite_ok (disconnect f a s)"
  by (auto simp: finite_ok_def disconnect_def detach_def close_client_def read_sockets_def split: option.split)

lemma finite_frame:
  "finite_ok (s\<lparr>heap := h\<rparr>) = finite_ok s" "finite_ok (s\<lparr>fault := x\<rparr>) = finite_ok s" "finite_ok (s\<lparr>working := w\<rparr>) = finite_ok s"
  "finite_ok (s\<lparr>fresh := w\<rparr>) = finite_ok s" "finite_ok (s\<lparr>pc := p\<rparr>) = finite_ok s" "finite_ok (s\<lparr>conns := m\<rparr>) = finite_ok s"
  "finite_ok (s\<lparr>attic := w\<rparr>) = finite_ok s" "finite_ok (s\<lparr>connecting := b\<rparr>) = finite_ok s" "finite_ok (s\<lparr>held := w\<rparr>) = finite_ok s"
  "finite_ok (read_sockets s) = finite_ok s"
  by (simp_all add: finite_ok_def read_sockets_def)

lemma finite_step:
  assumes "finite_ok s" "step place e s = Some s'"
  shows "finite_ok s'"
proof (cases e)
  case (Service fd idle)
  then show ?thesis using assms by (auto simp: service_def Let_def finite_disconnect finite_frame split: if_splits option.splits)
next
  case (Done a err)
  then show ?thesis using assms by (auto simp: work_done_def Let_def finite_disconnect finite_frame split: if_splits option.splits)
next
  case (Disconnect a)
  then show ?thesis using assms by (auto simp: finite_disconnect split: if_splits)
next
  case (Drop a)
  then show ?thesis using assms by (auto simp: finite_disconnect finite_frame split: if_splits)
next
  case (Shrink a)
  then obtain q t where t: "shrink_one a s = Some t" "s' = t\<lparr>pc := q\<rparr>" using assms(2) by (auto split: pc.splits if_splits)
  have "finite_ok t" using t(1) assms(1)
    by (auto simp: shrink_one_def on_detach_def disconnect_def detach_def close_client_def read_sockets_def finite_ok_def Let_def
      split: option.splits if_splits)
  then show ?thesis by (simp add: t(2) finite_frame)
next
  case (Grow a)
  then show ?thesis using assms by (auto simp: grow_one_def finite_frame split: pc.splits if_splits option.splits)
next
  case (Accept fd a)
  then show ?thesis using assms by (auto simp: finite_ok_def attach_def new_client_def split: if_splits)
next
  case (Connect fd a)
  then show ?thesis using assms by (auto simp: finite_ok_def attach_def new_client_def split: if_splits)
next
  case Purge
  then show ?thesis using assms by (auto simp: finite_ok_def purge_def Let_def split: if_splits)
next
  case Scan
  then show ?thesis using assms by (auto simp: finite_ok_def scan_def Let_def split: if_splits)
next
  case Grown
  then show ?thesis using assms by (auto simp: finite_frame split: if_splits pc.splits)
qed (use assms in \<open>auto simp: finite_ok_def read_sockets_def split: if_splits\<close>)

lemma runs_finite: "runs place es s = Some s' \<Longrightarrow> finite_ok s \<Longrightarrow> finite_ok s'"
  by (induction es arbitrary: s) (auto split: option.splits if_splits dest: finite_step)

lemma reached:
  assumes "runs place es server0 = Some s" "placement place"
  shows "other_fault s \<or> fault s = None \<and> conn_ok s" "finite_ok s" "no_lost_wakeup s"
proof -
  have 0: "fault server0 = None" "finite_ok server0" "no_lost_wakeup server0" by (simp_all add: server0_def finite_ok_def no_lost_wakeup_def)
  show "other_fault s \<or> fault s = None \<and> conn_ok s" using runs_ok [OF assms] 0(1) server0_ok by blast
  show "finite_ok s" by (rule runs_finite [OF assms(1) 0(2)])
  show "no_lost_wakeup s" by (rule runs_wakes [OF assms(1) 0(3)])
qed

section \<open>Properties\<close>



text \<open>
  No wake-up is lost: while the server waits in \<open>select\<close> with clients to be removed, or to be added by a timer that is
  done connecting, a byte on the loopback connection lets it return.
\<close>

theorem no_wakeup_lost:
  assumes "runs place es server0 = Some s" "placement place" "pc s = Selecting"
    and "wremove s \<noteq> {} \<or> wadd s \<noteq> {} \<and> \<not> connecting s"
  shows "0 < wakes s"
  using reached(3) [OF assms(1,2)] assms(3,4) by (auto simp: no_lost_wakeup_def)



text \<open>
  C37. A connection dropped because no worker is idle stops the server. Its client was marked busy for the worker it did
  not get, and nobody clears the mark: the next update spins on it, and from then on the server never returns to \<open>select\<close>,
  whatever the other threads do.
\<close>

theorem full_pool_hangs:
  assumes "runs place es server0 = Some s" "placement place" "fault s = None" "pc s = Woken"
    and "um_find (conns s) fd = Some a" "purgeable s a" "a \<notin> working s"
    and "runs place fs (service fd False s) = Some s'"
  shows "pc s' = Woken \<or> (\<exists>q. pc s' = Shrinking q \<and> a \<in> q)"
proof -
  have ok: "conn_ok s" using reached(1) [OF assms(1,2)] assms(3) by (auto simp: other_fault_def)
  have "a \<in> um_vals (conns s)" by (rule in_table [OF assms(5)])
  then obtain c where c: "heap s a = Some c" "cparent c" "csock c \<noteq> 0" "\<not> cbusy c" "a \<in> made s"
    using conn_okD(3) [OF ok, of a] conn_okD(4) [OF ok] assms(4,6)
    by (cases "heap s a") (auto simp: owned_once_def updating_def purgeable_def made_ok_def split: if_splits)
  have "stuck a (service fd False s)"
    using c assms(4,5,7)
    by (auto simp: service_def stuck_def disconnect_def detach_def read_sockets_def Let_def)
  from stuck_runs [OF assms(8) this] show ?thesis by (auto simp: stuck_def)
qed

lemma full_pool_hangs_witness:
  "\<exists>s. runs (\<lambda>m e. e # m) [Accept 7 1, Update, Flush, Grow 1, Grown, Purge, Scan, Select, Service 7 False, Update] server0 = Some s
    \<and> pc s = Shrinking {1} \<and> (\<forall>fs s'. runs (\<lambda>m e. e # m) fs s = Some s' \<longrightarrow> pc s' = Woken \<or> (\<exists>q. pc s' = Shrinking q \<and> 1 \<in> q))"
proof -
  let ?p = "\<lambda>m e. e # m" and ?es = "[Accept 7 1, Update, Flush, Grow 1, Grown, Purge, Scan, Select]"
  note defs = server0_def free_for_def attach_def new_client_def grow_one_def um_find_def um_emplace_def purge_def scan_def
      read_sockets_def sock_of_def purgeable_def Let_def service_def disconnect_def detach_def
  obtain s where s: "runs ?p ?es server0 = Some s" "fault s = None" "pc s = Woken" "um_find (conns s) 7 = Some 1" "purgeable s 1"
      "1 \<notin> working s" "7 \<in> watched s" "wremove s = {}" "\<exists>c. heap s 1 = Some c \<and> \<not> cbusy c \<and> cparent c \<and> csock c = 7"
    by (simp add: defs)
  let ?t = "(service 7 False s)\<lparr>pc := Shrinking {1}, wremove := {}\<rparr>"
  have t: "runs ?p [Update] (service 7 False s) = Some ?t" using s by (auto simp: service_def disconnect_def detach_def read_sockets_def)
  have "runs ?p (?es @ [Service 7 False, Update]) server0 = Some ?t"
    using s(1,2,3,7) t by (subst runs_append) simp
  moreover have "pc s' = Woken \<or> (\<exists>q. pc s' = Shrinking q \<and> 1 \<in> q)" if "runs ?p fs ?t = Some s'" for fs s'
  proof (rule full_pool_hangs [OF s(1) placement_front s(2-6)])
    show "runs ?p ([Update] @ fs) (service 7 False s) = Some s'" using t that by (simp only: runs_append option.case)
  qed
  ultimately show ?thesis by auto
qed

text \<open>
  A descriptor closed while the server updates can be given to a connection the timer makes, before the table
  forgets it; adding the new client then fails the assertion, which ends the process.
\<close>

theorem fd_reuse_aborts:
  assumes "conn_ok s" "fault s = None" "pc s = Shrinking {a}" "wadd s = {}" "um_find (conns s) fd = Some a" "heap s a = Some c"
    and "csock c = fd" "fd \<noteq> 0" "\<not> cbusy c" "b \<notin> made s"
  shows "\<exists>s'. runs place [Shrink a, Connect fd b, Flush, Grow b] s = Some s' \<and> fault s' = Some Assertion"
proof -
  have "b \<noteq> a" using conn_okD(4) [OF assms(1)] assms(6,10) by (auto simp: made_ok_def)
  then show ?thesis
    using shrink_eq [OF conn_okD(1) [OF assms(1)] assms(6)] assms
    by (simp add: shrunk_def free_for_def attach_def new_client_def grow_one_def)
qed

text \<open>
  The active clients are copied without any claim on them: a thread that goes on with its copy after the server
  has removed and deleted one uses freed memory.
\<close>

theorem stale_client_used:
  "\<exists>s. runs (\<lambda>m e. e # m) [Accept 7 1, Update, Flush, Grow 1, Grown, Purge, Scan, Take, Select, Service 7 True, Done 1 True,
      Update, Shrink 1, Flush, Grown, Purge, Scan, Select, Update, Flush, Grown, Purge, Use 1] server0 = Some s
    \<and> fault s = Some Dangling_other"
  by (simp add: server0_def free_for_def attach_def new_client_def grow_one_def um_find_def um_emplace_def purge_def scan_def
      read_sockets_def sock_of_def purgeable_def Let_def service_def disconnect_def detach_def work_done_def shrink_one_def on_detach_def
      close_client_def restrict_map_def)

end
