(* ===== verification/Neighbours.thy ===== *)
theory Neighbours
  imports Prelude "HOL-Library.Multiset"
begin

text \<open>
  The neighbours of a node, \<open>src/gov/peer/daemon.{h,cpp}\<close>, with the choice of an address from
  \<open>src/gov/engine/networking.cpp\<close>: every round the node connects to one neighbour more than it wants, and
  disconnects slow ones and then the oldest until the number is right.

  A neighbour is an object with its number; a null pointer in a list of neighbours is \<open>None\<close>. What the generator of
  random numbers draws, and whether a connection succeeds, are functions of the iteration.
\<close>

section \<open>State\<close>

datatype peer_stage = Disconnected | Connected | Exceed_Latency | Service | Disconnecting

record neighbour =
  n_id :: nat
  n_addr :: string
  n_stage :: peer_stage
  n_since :: int

type_synonym peers = "neighbour option list"

definition asize :: "peers \<Rightarrow> nat" where "asize a = length (filter (\<lambda>p. p \<noteq> None) a)"

section \<open>Operations\<close>

text \<open>A node of the application, or one of the seeds: the first of ten drawn that is not excluded.\<close>

definition get_random_peer :: "string list \<Rightarrow> (nat \<Rightarrow> nat) \<Rightarrow> string \<Rightarrow> string set \<Rightarrow> string" where
  "get_random_peer seeds rnd node excl =
     (if node = [] \<and> seeds \<noteq> []
      then (case find (\<lambda>j. seeds ! rnd j \<notin> excl) [0..<10] of None \<Rightarrow> node | Some j \<Rightarrow> seeds ! rnd j)
      else node)"

fun add_loop :: "(nat \<Rightarrow> string set \<Rightarrow> string) \<Rightarrow> (nat \<Rightarrow> string \<Rightarrow> neighbour option) \<Rightarrow> nat \<Rightarrow> nat \<Rightarrow> string set \<Rightarrow> peers \<Rightarrow> peers" where
  "add_loop draw connect i 0 excl a = a"
| "add_loop draw connect i (Suc n) excl a =
     (let addr = draw i excl
      in if addr = [] \<or> addr \<in> excl then add_loop draw connect (Suc i) n excl a
         else (case connect i addr of
                 None \<Rightarrow> add_loop draw connect (Suc i) n (insert addr excl) a
               | Some p \<Rightarrow> add_loop draw connect (Suc i) n (insert addr excl) (a @ [Some p])))"

definition add_peers :: "nat \<Rightarrow> (nat \<Rightarrow> string set \<Rightarrow> string) \<Rightarrow> (nat \<Rightarrow> string \<Rightarrow> neighbour option) \<Rightarrow> peers \<Rightarrow> peers" where
  "add_peers edges draw connect a =
     add_loop draw connect 0 (nat (int edges - int (asize a) + 1)) {n_addr p | p. Some p \<in> set a} a"

text \<open>The neighbours that are disconnected, and the others.\<close>

definition purge_slow :: "peers \<Rightarrow> neighbour list \<times> peers" where
  "purge_slow a =
     (let slow = (\<lambda>p. case p of Some q \<Rightarrow> n_stage q = Exceed_Latency | None \<Rightarrow> False)
      in (map the (filter slow a), filter (\<lambda>p. \<not> slow p) a))"

text \<open>The position of the first of the oldest neighbours that are older than now.\<close>

fun oldest_from :: "int \<Rightarrow> nat option \<Rightarrow> nat \<Rightarrow> peers \<Rightarrow> nat option" where
  "oldest_from cur best i [] = best"
| "oldest_from cur best i (None # v) = oldest_from cur best (Suc i) v"
| "oldest_from cur best i (Some c # v) =
     (if n_since c < cur then oldest_from (n_since c) (Some i) (Suc i) v else oldest_from cur best (Suc i) v)"

definition oldest :: "int \<Rightarrow> peers \<Rightarrow> nat option" where "oldest now v = oldest_from now None 0 v"

lemma oldest_from_none: "\<forall>q. Some q \<in> set v \<longrightarrow> cur \<le> n_since q \<Longrightarrow> oldest_from cur best i v = best"
  by (induction cur best i v rule: oldest_from.induct) (auto simp: not_less)

lemma oldest_from_some:
  "Some q \<in> set v \<Longrightarrow> n_since q < cur \<Longrightarrow>
   \<exists>j c. oldest_from cur best i v = Some (i + j) \<and> j < length v \<and> v ! j = Some c \<and> (\<forall>q. Some q \<in> set v \<longrightarrow> n_since c \<le> n_since q)"
proof (induction v arbitrary: cur best i q)
  case (Cons x v)
  show ?case
  proof (cases "x \<noteq> None \<and> n_since (the x) < cur")
    case False
    then have "oldest_from cur best i (x # v) = oldest_from cur best (Suc i) v" "Some q \<in> set v" using Cons.prems by (cases x; auto)+
    then obtain j c where j: "oldest_from cur best i (x # v) = Some (Suc i + j)" "j < length v" "v ! j = Some c"
        "\<forall>q. Some q \<in> set v \<longrightarrow> n_since c \<le> n_since q"
      using Cons.IH [of q cur best "Suc i"] Cons.prems(2) by auto
    have "n_since c \<le> n_since q" using j(4) \<open>Some q \<in> set v\<close> by blast
    then show ?thesis using j False Cons.prems(2) by (intro exI [of _ "Suc j"] exI [of _ c]) auto
  next
    case True
    then obtain d where d: "x = Some d" "n_since d < cur" by auto
    show ?thesis
    proof (cases "\<exists>q. Some q \<in> set v \<and> n_since q < n_since d")
      case True
      then obtain q' where q': "Some q' \<in> set v" "n_since q' < n_since d" by blast
      obtain j c where j: "oldest_from (n_since d) (Some i) (Suc i) v = Some (Suc i + j)" "j < length v" "v ! j = Some c"
          "\<forall>q. Some q \<in> set v \<longrightarrow> n_since c \<le> n_since q"
        using Cons.IH [OF q', of "Some i" "Suc i"] by auto
      have "n_since c \<le> n_since d" using j(4) q' by fastforce
      then show ?thesis using j d by (intro exI [of _ "Suc j"] exI [of _ c]) auto
    next
      case False
      then have "oldest_from (n_since d) (Some i) (Suc i) v = Some i" by (intro oldest_from_none) (auto simp: not_less)
      then show ?thesis using d False by (intro exI [of _ 0] exI [of _ d]) (auto simp: not_less)
    qed
  qed
qed simp

lemma oldest_Some:
  assumes "oldest now v = Some j"
  obtains c where "j < length v" "v ! j = Some c" "\<forall>q. Some q \<in> set v \<longrightarrow> n_since c \<le> n_since q"
proof -
  have "\<exists>q. Some q \<in> set v \<and> n_since q < now"
    using assms oldest_from_none [of v now None 0] by (force simp: oldest_def not_less)
  then obtain q where "Some q \<in> set v" "n_since q < now" by blast
  from oldest_from_some [OF this, of None 0] show ?thesis using assms that by (auto simp: oldest_def)
qed

lemma asize_update: "j < length v \<Longrightarrow> v ! j \<noteq> None \<Longrightarrow> Suc (asize (v[j := None])) = asize v"
proof (induction v arbitrary: j)
  case (Cons x v)
  then show ?case by (cases j) (auto simp: asize_def)
qed simp

function excess_loop :: "nat \<Rightarrow> int \<Rightarrow> peers \<Rightarrow> neighbour list \<times> peers" where
  "excess_loop edges now a =
     (if asize a \<le> edges then ([], a)
      else case oldest now a of
             None \<Rightarrow> ([], a)
           | Some i \<Rightarrow> let (gone, a') = excess_loop edges now (a[i := None]) in (the (a ! i) # gone, a'))"
  by pat_completeness auto

termination
  by (relation "measure (\<lambda>(edges, now, a). asize a)") (auto elim!: oldest_Some dest!: asize_update simp: Suc_le_eq)

declare excess_loop.simps [simp del]

definition purge_excess :: "nat \<Rightarrow> int \<Rightarrow> peers \<Rightarrow> neighbour list \<times> peers" where
  "purge_excess edges now a = (let (gone, a) = excess_loop edges now a in (gone, filter (\<lambda>p. p \<noteq> None) a))"

definition purge_peers :: "nat \<Rightarrow> int \<Rightarrow> peers \<Rightarrow> neighbour list \<times> peers" where
  "purge_peers edges now a =
     (let (slow, a) = purge_slow a; (old, a) = purge_excess edges now a in (slow @ old, a))"

definition adjust_peer_number ::
  "nat \<Rightarrow> int \<Rightarrow> (nat \<Rightarrow> string set \<Rightarrow> string) \<Rightarrow> (nat \<Rightarrow> string \<Rightarrow> neighbour option) \<Rightarrow> peers \<Rightarrow> neighbour list \<times> peers" where
  "adjust_peer_number edges now draw connect a = purge_peers edges now (add_peers edges draw connect a)"

definition check_latency :: "peers \<Rightarrow> neighbour list" where
  "check_latency a = [p. Some p \<leftarrow> a, n_stage p = Connected]"

definition in_service :: "peers \<Rightarrow> neighbour list" where
  "in_service a = [p. Some p \<leftarrow> a, n_stage p = Service]"

text \<open>Sending to \<open>num\<close> neighbours, to all with zero; the list is shuffled first unless it is for all.\<close>

fun send_loop :: "int \<Rightarrow> nat option \<Rightarrow> peers \<Rightarrow> neighbour list" where
  "send_loop num excl [] = []"
| "send_loop num excl (None # a) = send_loop num excl a"
| "send_loop num excl (Some p # a) =
     (if excl = Some (n_id p) then send_loop num excl a
      else p # (if num - 1 = 0 then [] else send_loop (num - 1) excl a))"

definition send_peers :: "int \<Rightarrow> nat option \<Rightarrow> (peers \<Rightarrow> peers) \<Rightarrow> peers \<Rightarrow> neighbour list" where
  "send_peers num excl shuffle a =
     (if num = 0 then send_loop (int (asize a)) excl a else send_loop num excl (shuffle a))"

section \<open>Lemmas\<close>

definition live :: "peers \<Rightarrow> neighbour list" where "live a = map the (filter (\<lambda>p. p \<noteq> None) a)"

lemma live_simps [simp]:
  "live [] = []" "live (None # a) = live a" "live (Some p # a) = p # live a" "live (a @ b) = live a @ live b"
  by (simp_all add: live_def)

lemma live_filter [simp]: "live (filter (\<lambda>p. p \<noteq> None) a) = live a" "live (filter (\<lambda>p. \<exists>q. p = Some q) a) = live a"
  by (simp_all add: live_def)

lemma live_mset: "mset a = mset b \<Longrightarrow> mset (live a) = mset (live b)"
  unfolding live_def by (metis mset_filter mset_map)

lemma asize_live: "asize a = length (live a)"
  by (simp add: asize_def live_def)

lemma asize_simps [simp]: "asize [] = 0" "asize (None # a) = asize a" "asize (Some p # a) = Suc (asize a)" "asize (a @ b) = asize a + asize b"
  by (simp_all add: asize_live)

lemma oldest_None: "oldest now v = None \<Longrightarrow> Some q \<in> set v \<Longrightarrow> now \<le> n_since q"
  using oldest_from_some [of q v now None 0] by (force simp: oldest_def not_less)

lemma mset_live_update:
  "i < length a \<Longrightarrow> a ! i = Some c \<Longrightarrow> mset (live a) = add_mset c (mset (live (a[i := None])))"
proof (induction a arbitrary: i)
  case (Cons x a)
  then show ?case by (cases i; cases x) auto
qed simp

lemma live_iff: "q \<in> set (live a) \<longleftrightarrow> Some q \<in> set a"
  by (force simp: live_def)

text \<open>The loop takes neighbours away, the oldest first, until there are no more than wanted.\<close>

lemma excess_loop_spec:
  assumes "\<forall>q \<in> set (live a). n_since q < now"
  shows "mset (live a) = mset (fst (excess_loop edges now a)) + mset (live (snd (excess_loop edges now a)))
    \<and> length (fst (excess_loop edges now a)) = asize a - edges
    \<and> (\<forall>g \<in> set (fst (excess_loop edges now a)). \<forall>q \<in> set (live (snd (excess_loop edges now a))). n_since g \<le> n_since q)"
  using assms
proof (induction edges now a rule: excess_loop.induct)
  case (1 edges now a)
  show ?case
  proof (cases "asize a \<le> edges")
    case True
    then show ?thesis by (simp add: excess_loop.simps [of edges now a])
  next
    case False
    then have "live a \<noteq> []" by (auto simp: asize_live)
    then obtain q where "q \<in> set (live a)" using hd_in_set by blast
    then have q: "Some q \<in> set a" "n_since q < now" using live_iff 1(2) by blast+
    then obtain i where i: "oldest now a = Some i" using oldest_None [of now a q] by fastforce
    obtain c where c: "i < length a" "a ! i = Some c" "\<forall>q. Some q \<in> set a \<longrightarrow> n_since c \<le> n_since q" by (rule oldest_Some [OF i])
    let ?a = "a[i := None]" and ?r = "excess_loop edges now (a[i := None])"
    note m = mset_live_update [OF c(1,2)]
    then have s: "set (live ?a) \<subseteq> set (live a)" by (metis insert_subset mset_eq_setD order_refl set_mset_add_mset_insert set_mset_mset subset_insertI)
    then have "\<forall>q \<in> set (live ?a). n_since q < now" using 1(2) by blast
    note ih = 1(1) [OF False i this]
    have e: "excess_loop edges now a = (c # fst ?r, snd ?r)"
      using False i c(2) by (subst excess_loop.simps) (simp add: case_prod_unfold Let_def)
    have "set (live (snd ?r)) \<subseteq> set (live ?a)" using ih by (metis mset_subset_eq_add_right set_mset_mono set_mset_mset)
    then have "\<forall>q \<in> set (live (snd ?r)). n_since c \<le> n_since q" using s c(3) live_iff by blast
    moreover have "Suc (asize ?a) = asize a" using c by (intro asize_update) simp_all
    ultimately show ?thesis using ih m False by (simp add: e)
  qed
qed

text \<open>Connecting: new neighbours at addresses that are not among the others.\<close>

lemma add_loop_spec:
  assumes "\<forall>i x p. connect i x = Some p \<longrightarrow> n_addr p = x" "n_addr ` set (live a) \<subseteq> excl" "distinct (map n_addr (live a))"
  shows "distinct (map n_addr (live (add_loop draw connect i n excl a))) \<and> asize (add_loop draw connect i n excl a) \<le> asize a + n
    \<and> set (live a) \<subseteq> set (live (add_loop draw connect i n excl a))
    \<and> (\<forall>q \<in> set (live (add_loop draw connect i n excl a)). q \<in> set (live a) \<or> (\<exists>i x. connect i x = Some q))"
  using assms
proof (induction draw connect i n excl a rule: add_loop.induct)
  case (2 draw connect i n excl a)
  define addr where "addr = draw i excl"
  show ?case
  proof (cases "addr = [] \<or> addr \<in> excl")
    case True
    then show ?thesis using 2(1) [OF addr_def True 2(4-6)] by (auto simp: Let_def simp flip: addr_def)
  next
    case n: False
    show ?thesis
    proof (cases "connect i addr")
      case None
      have "n_addr ` set (live a) \<subseteq> insert addr excl" using 2(5) by blast
      from 2(2) [OF addr_def n None 2(4) this 2(6)] show ?thesis using n None by (auto simp: Let_def simp flip: addr_def)
    next
      case (Some p)
      have "n_addr p = addr" using 2(4) Some by blast
      then have "n_addr ` set (live (a @ [Some p])) \<subseteq> insert addr excl" "distinct (map n_addr (live (a @ [Some p])))"
        using 2(5,6) n by auto
      from 2(3) [OF addr_def n Some 2(4) this] show ?thesis using n Some by (auto simp: Let_def asize_def simp flip: addr_def)
    qed
  qed
qed simp

lemma purge_slow_live:
  "mset (live a) = mset (fst (purge_slow a)) + mset (live (snd (purge_slow a)))"
proof (induction a)
  case (Cons x a)
  then show ?case by (cases x) (auto simp: purge_slow_def Let_def)
qed (simp add: purge_slow_def)

lemma purge_excess_spec:
  assumes "\<forall>q \<in> set (live a). n_since q < now"
  shows "mset (live a) = mset (fst (purge_excess edges now a)) + mset (live (snd (purge_excess edges now a)))
    \<and> None \<notin> set (snd (purge_excess edges now a)) \<and> length (snd (purge_excess edges now a)) = min (asize a) edges"
proof -
  obtain g b where e: "excess_loop edges now a = (g, b)" by (cases "excess_loop edges now a")
  note x = excess_loop_spec [OF assms, of edges, unfolded e fst_conv snd_conv]
  then have "size (mset (live a)) = size (mset g + mset (live b))" by (simp only:)
  then have "asize a = length g + length (live b)" by (simp add: asize_live)
  moreover have "length (filter (\<lambda>p. p \<noteq> None) b) = length (live b)" by (simp add: live_def)
  ultimately show ?thesis using x by (auto simp: purge_excess_def e min_def)
qed

section \<open>Properties\<close>


text \<open>The copies of a datagram go to different neighbours, as many as asked for if there are, and not to the one it came from.\<close>

lemma send_loop_take:
  "send_loop (int (Suc n)) excl a = take (Suc n) (filter (\<lambda>p. excl \<noteq> Some (n_id p)) (live a))"
proof (induction a arbitrary: n)
  case (Cons x a)
  note i = Cons.IH [of n, simplified] Cons.IH [of "n - 1"]
  then show ?case by (cases x; cases n) auto
qed simp

lemma send_loop_all: "asize a \<le> k \<Longrightarrow> send_loop (int k) excl a = filter (\<lambda>p. excl \<noteq> Some (n_id p)) (live a)"
proof (cases k)
  case 0
  assume "asize a \<le> k"
  then have "live a = []" using 0 by (simp add: asize_live)
  moreover have "live a = [] \<Longrightarrow> send_loop n excl a = []" for n by (induction n excl a rule: send_loop.induct) auto
  ultimately show ?thesis by simp
next
  case (Suc n)
  assume "asize a \<le> k"
  then have "length (filter (\<lambda>p. excl \<noteq> Some (n_id p)) (live a)) \<le> k" by (metis asize_live length_filter_le order_trans)
  then show ?thesis unfolding Suc send_loop_take by simp
qed

theorem send_peers_to:
  assumes "mset (shuffle a) = mset a" "0 \<le> num"
  shows "\<exists>ps. mset ps = mset (filter (\<lambda>p. excl \<noteq> Some (n_id p)) (live a))
    \<and> send_peers num excl shuffle a = (if num = 0 then ps else take (nat num) ps)"
proof (cases "num = 0")
  case True
  then show ?thesis by (intro exI [of _ "filter (\<lambda>p. excl \<noteq> Some (n_id p)) (live a)"]) (simp add: send_peers_def send_loop_all)
next
  case False
  then obtain n where n: "num = int (Suc n)" using assms(2) by (metis nat_0_iff nonneg_int_cases not0_implies_Suc of_nat_eq_0_iff)
  have "mset (live (shuffle a)) = mset (live a)" using assms(1) by (rule live_mset)
  then have "mset (filter (\<lambda>p. excl \<noteq> Some (n_id p)) (live (shuffle a))) = mset (filter (\<lambda>p. excl \<noteq> Some (n_id p)) (live a))"
    by (simp add: mset_filter)
  then show ?thesis using False n by (intro exI [of _ "filter (\<lambda>p. excl \<noteq> Some (n_id p)) (live (shuffle a))"])
      (simp add: send_peers_def send_loop_take del: of_nat_Suc)
qed

text \<open>The seeds are used only when no node is known, and an excluded address is never returned but as no address.\<close>

theorem random_peer_not_excluded:
  assumes "node \<notin> excl \<or> node = []" "get_random_peer seeds rnd node excl = r" "r \<noteq> []"
  shows "r \<notin> excl \<and> (node \<noteq> [] \<longrightarrow> r = node)"
proof (cases "find (\<lambda>j. seeds ! rnd j \<notin> excl) [0..<10]")
  case (Some j)
  then have "seeds ! rnd j \<notin> excl" by (auto simp: find_Some_iff)
  then show ?thesis using assms Some by (auto simp: get_random_peer_def split: if_splits)
qed (use assms in \<open>auto simp: get_random_peer_def split: if_splits\<close>)


end
