(* ===== verification/Pairing.thy ===== *)
theory Pairing
  imports Ec_Keys Unordered_Map
begin

text \<open>
  The devices paired with a wallet, \<open>src/wallet/pairing.{h,cpp}\<close> and \<open>pairing_local_api.cpp\<close>: a table of
  public keys and names under the hashes of the keys, kept in a file. The first device that asks is let in.
\<close>

section \<open>State\<close>

record device =
  dpub :: pub_t
  dname :: string

record pairing_env =
  p_lib :: secp
  p_jbuf :: "byte list"
  p_junk :: "byte list"
  p_place :: "(hash_t, device) place"

record devices =
  entries :: "(hash_t, device) umap"
  dfile :: "string option"

definition default_name :: string where "default_name = ''my device''"
definition not_found :: string where "not_found = ''not found''"

section \<open>The file\<close>

definition device_to_stream :: "secp \<Rightarrow> device \<Rightarrow> string" where
  "device_to_stream lib d = show_pub lib (dpub d) @ '' '' @ dname d"

definition device_from_stream :: "pairing_env \<Rightarrow> istream \<Rightarrow> (bool \<times> device) \<times> istream" where
  "device_from_stream e is =
     (let (k, is) = read_pub (p_lib e) (pub_new (p_junk e)) is;
          (n, is) = read_string is
      in ((good is, \<lparr>dpub = k, dname = n\<rparr>), is))"

definition devices_save :: "secp \<Rightarrow> devices \<Rightarrow> devices" where
  "devices_save lib s = s\<lparr>dfile := Some (concat (map (\<lambda>(h, d). device_to_stream lib d @ '' '') (entries s)))\<rparr>"

text \<open>The hash of a key is computed once and kept in it.\<close>

definition with_hash :: "pairing_env \<Rightarrow> device \<Rightarrow> hash_t \<times> device" where
  "with_hash e d = (let (h, k) = pub_get_hash (p_lib e) (p_jbuf e) (dpub d) in (h, d\<lparr>dpub := k\<rparr>))"

lemma good_read_pub: "good (snd (read_pub lib k is)) \<Longrightarrow> good (snd (read_string is)) \<and> snd (read_pub lib k is) = snd (read_string is)"
  by (auto simp: read_pub_def split: prod.splits if_splits)

lemma device_from_stream_shorter:
  assumes "device_from_stream e is = ((True, d), is')"
  shows "length (ichars is') < length (ichars is)"
proof -
  define s1 where "s1 = snd (read_pub (p_lib e) (pub_new (p_junk e)) is)"
  have 1: "is' = snd (read_string s1)" "good is'"
    using assms by (auto simp: device_from_stream_def s1_def Let_def split: prod.splits)
  then have "good s1" using good_read_string by simp
  then have "good (snd (read_string is))" "s1 = snd (read_string is)" using good_read_pub by (auto simp: s1_def)
  then have "length (ichars s1) < length (ichars is)" using read_string_shorter by simp
  then show ?thesis using read_string_shorter [of s1] 1 by simp
qed

function devices_load_loop :: "pairing_env \<Rightarrow> istream \<Rightarrow> (hash_t, device) umap \<Rightarrow> (hash_t, device) umap" where
  "devices_load_loop e is m =
     (if \<not> good is then m
      else let (r, is) = device_from_stream e is
           in if \<not> fst r then m
              else if \<not> valid (dpub (snd r)) then m
              else let (h, d) = with_hash e (snd r) in devices_load_loop e is (um_emplace (p_place e) h d m))"
  by pat_completeness auto

termination
  by (relation "measure (\<lambda>(e, is, m). length (ichars is))") (auto dest: device_from_stream_shorter [OF sym])

declare devices_load_loop.simps [simp del]

text \<open>Opening a file that is not there leaves a stream that is not good.\<close>

definition devices_load :: "pairing_env \<Rightarrow> devices \<Rightarrow> devices" where
  "devices_load e s =
     s\<lparr>entries := (case dfile s of None \<Rightarrow> [] | Some t \<Rightarrow> devices_load_loop e (istr t) [])\<rparr>"

definition devices_open :: "pairing_env \<Rightarrow> string option \<Rightarrow> devices" where
  "devices_open e f = devices_load e \<lparr>entries = [], dfile = f\<rparr>"

section \<open>Operations\<close>

definition devices_authorize :: "pairing_env \<Rightarrow> pub_t \<Rightarrow> devices \<Rightarrow> bool \<times> devices" where
  "devices_authorize e p s =
     (let (h, d) = with_hash e \<lparr>dpub = p, dname = ''First_seen_device''\<rparr>
      in if entries s = [] then (True, devices_save (p_lib e) (s\<lparr>entries := um_emplace (p_place e) h d (entries s)\<rparr>))
         else (um_find (entries s) h \<noteq> None, s))"

text \<open>Pairing again renames: only then is the name for an empty one used.\<close>

definition devices_pair :: "pairing_env \<Rightarrow> pub_t \<Rightarrow> string \<Rightarrow> devices \<Rightarrow> devices" where
  "devices_pair e p name s =
     (let n = if name = [] then default_name else name;
          (h, d) = with_hash e \<lparr>dpub = p, dname = name\<rparr>
      in devices_save (p_lib e)
           (if um_find (entries s) h = None then s\<lparr>entries := um_emplace (p_place e) h d (entries s)\<rparr>
            else s\<lparr>entries := map (\<lambda>(k, x). (k, if k = h then x\<lparr>dname := n\<rparr> else x)) (entries s)\<rparr>))"

definition devices_unpair :: "pairing_env \<Rightarrow> pub_t \<Rightarrow> devices \<Rightarrow> devices" where
  "devices_unpair e p s =
     (let h = fst (pub_get_hash (p_lib e) (p_jbuf e) p)
      in if um_find (entries s) h = None then s else devices_save (p_lib e) (s\<lparr>entries := um_erase h (entries s)\<rparr>))"

definition get_name :: "pairing_env \<Rightarrow> pub_t \<Rightarrow> devices \<Rightarrow> string" where
  "get_name e p s =
     (case um_find (entries s) (fst (pub_get_hash (p_lib e) (p_jbuf e) p)) of None \<Rightarrow> not_found | Some d \<Rightarrow> dname d)"

definition devices_dump :: "secp \<Rightarrow> devices \<Rightarrow> string" where
  "devices_dump lib s =
     concat (map (\<lambda>(h, d). device_to_stream lib d @ [CHR 0x0A]) (entries s)) @ show_nat (length (entries s)) @ '' devices''"

text \<open>The commands: what is printed, and the devices.\<close>

definition api_pair :: "pairing_env \<Rightarrow> pub_t \<Rightarrow> string \<Rightarrow> devices \<Rightarrow> string \<times> devices" where
  "api_pair e p name s =
     (if \<not> valid p then (''Error: invalid public key.'', s) else (''done.'', devices_pair e p name s))"

definition api_unpair :: "pairing_env \<Rightarrow> pub_t \<Rightarrow> devices \<Rightarrow> string \<times> devices" where
  "api_unpair e p s = (''done.'', devices_unpair e p s)"

text \<open>A history of the devices: \<open>Restart\<close> reads the file.\<close>

datatype pairing_op = Authorize pub_t | Pair pub_t string | Unpair pub_t | Restart

fun pairing_step :: "pairing_env \<Rightarrow> pairing_op \<Rightarrow> devices \<Rightarrow> devices" where
  "pairing_step e (Authorize p) s = snd (devices_authorize e p s)"
| "pairing_step e (Pair p n) s = snd (api_pair e p n s)"
| "pairing_step e (Unpair p) s = snd (api_unpair e p s)"
| "pairing_step e Restart s = devices_open e (dfile s)"

section \<open>Lemmas\<close>

definition device_hash :: "pairing_env \<Rightarrow> pub_t \<Rightarrow> hash_t" where
  "device_hash e p = fst (pub_get_hash (p_lib e) (p_jbuf e) p)"

lemma with_hash_simps:
  "fst (with_hash e d) = device_hash e (dpub d)" "pdata (dpub (snd (with_hash e d))) = pdata (dpub d)"
  "valid (dpub (snd (with_hash e d))) = valid (dpub d)" "dname (snd (with_hash e d)) = dname d"
  by (auto simp: with_hash_def device_hash_def pub_get_hash_def Let_def split: option.split)

text \<open>Devices as the file has them: the key and the name.\<close>

definition facts :: "device \<Rightarrow> byte list \<times> string" where "facts d = (pdata (dpub d), dname d)"

definition stored_ok :: "pairing_env \<Rightarrow> hash_t \<times> device \<Rightarrow> bool" where
  "stored_ok e x \<longleftrightarrow> valid (dpub (snd x)) \<and> secp_prints (p_lib e) (pdata (dpub (snd x))) \<and> token (dname (snd x))
     \<and> fst x = pub_compute_hash (p_lib e) (p_jbuf e) (dpub (snd x))"

lemma read_device:
  assumes "valid (dpub d)" "secp_prints (p_lib e) (pdata (dpub d))" "token (dname d)"
  shows "device_from_stream e (istr (CHR '' '' # device_to_stream (p_lib e) d @ CHR '' '' # r)) =
    ((True, \<lparr>dpub = (pub_new (p_junk e))\<lparr>pdata := pdata (dpub d), valid := True\<rparr>, dname = dname d\<rparr>), istr (CHR '' '' # r))"
proof -
  have "read_pub (p_lib e) k (istr (CHR '' '' # s)) = read_pub (p_lib e) k (istr s)" for k s
    by (simp add: read_pub_def stream_simps)
  then show ?thesis using assms by (simp add: device_from_stream_def device_to_stream_def stream_simps)
qed

lemma load_saved:
  assumes "\<forall>x \<in> set xs. stored_ok e x" "placement (p_place e)" "um_ok m" "um_ok xs" "um_keys m \<inter> um_keys xs = {}"
  shows "map_option facts (um_find (devices_load_loop e (istr (CHR '' '' # concat (map (\<lambda>(h, d). device_to_stream (p_lib e) d @ '' '') xs))) m) a) =
    (case um_find xs a of Some d \<Rightarrow> Some (facts d) | None \<Rightarrow> map_option facts (um_find m a))"
  using assms(1,3-5)
proof (induction xs arbitrary: m)
  case Nil
  have "fst (fst (device_from_stream e (istr '' ''))) = False"
    by (auto simp: device_from_stream_def read_pub_def read_string_def sentry_def good_def setfail_def Let_def split: prod.splits if_splits)
  then show ?case by (subst devices_load_loop.simps) (auto simp: um_find_def split: prod.splits)
next
  case (Cons x xs)
  obtain h d where x: "x = (h, d)" by (cases x)
  have s: "valid (dpub d)" "secp_prints (p_lib e) (pdata (dpub d))" "token (dname d)" "h = pub_compute_hash (p_lib e) (p_jbuf e) (dpub d)"
    using Cons.prems(1) by (simp_all add: x stored_ok_def)
  define d' where "d' = \<lparr>dpub = (pub_new (p_junk e))\<lparr>pdata := pdata (dpub d), valid := True\<rparr>, dname = dname d\<rparr>"
  have h: "fst (with_hash e d') = h" "facts (snd (with_hash e d')) = facts d" "valid (dpub d')"
    using s(1,4) by (simp_all add: with_hash_simps facts_def d'_def device_hash_def pub_get_hash_def pub_new_def pub_compute_hash_def Let_def)
  let ?m = "um_emplace (p_place e) h (snd (with_hash e d')) m"
  have l: "devices_load_loop e (istr (CHR '' '' # concat (map (\<lambda>(h, d). device_to_stream (p_lib e) d @ '' '') (x # xs)))) m =
      devices_load_loop e (istr (CHR '' '' # concat (map (\<lambda>(h, d). device_to_stream (p_lib e) d @ '' '') xs))) ?m"
    using read_device [OF s(1-3)] h unfolding d'_def [symmetric] by (subst devices_load_loop.simps) (simp add: x case_prod_unfold flip: d'_def)
  have m: "um_find m h = None" "um_ok xs" "h \<notin> um_keys xs" "um_keys m \<inter> um_keys xs = {}"
    using Cons.prems by (auto simp: x um_ok_def um_keys_def um_find_None)
  then have "um_keys ?m \<inter> um_keys xs = {}" by (simp add: um_keys_emplace [OF assms(2)])
  then show ?case
    unfolding l using Cons.IH [of ?m] um_ok_emplace [OF assms(2) Cons.prems(2)] um_find_emplace [OF assms(2) Cons.prems(2), of h _ a] Cons.prems(1) m h(2)
      um_find_None [of xs h]
    by (auto simp: x um_find_def split: option.splits)
qed

lemma load_skip: "devices_load_loop e (istr (CHR '' '' # t)) m = devices_load_loop e (istr t) m"
proof -
  have "device_from_stream e (istr (CHR '' '' # t)) = device_from_stream e (istr t)"
    by (simp add: device_from_stream_def read_pub_def stream_simps)
  then show ?thesis by (subst (1 2) devices_load_loop.simps) simp
qed

text \<open>Only keys that were paired, or found the table empty, are in it.\<close>

fun lets_in :: "pairing_env \<Rightarrow> hash_t \<Rightarrow> pairing_op list \<Rightarrow> devices \<Rightarrow> bool" where
  "lets_in e h [] s = False"
| "lets_in e h (x # xs) s =
     ((case x of Authorize p \<Rightarrow> entries s = [] \<and> device_hash e p = h | Pair p n \<Rightarrow> valid p \<and> device_hash e p = h | _ \<Rightarrow> False)
      \<or> lets_in e h xs (pairing_step e x s))"

lemma save_entries [simp]: "entries (devices_save lib s) = entries s"
  by (simp add: devices_save_def)

lemma step_entries:
  assumes "placement (p_place e)" "h \<in> um_keys (entries (pairing_step e x s))" "x \<noteq> Restart"
  shows "h \<in> um_keys (entries s) \<or> (case x of Authorize p \<Rightarrow> entries s = [] \<and> device_hash e p = h | Pair p n \<Rightarrow> valid p \<and> device_hash e p = h | _ \<Rightarrow> False)"
proof (cases x)
  case (Authorize p)
  obtain k d where k: "with_hash e \<lparr>dpub = p, dname = ''First_seen_device''\<rparr> = (k, d)" by fastforce
  then have "k = device_hash e p" using with_hash_simps(1) [of e "\<lparr>dpub = p, dname = ''First_seen_device''\<rparr>"] by simp
  then show ?thesis using Authorize assms(2) k by (auto simp: devices_authorize_def um_keys_emplace [OF assms(1)] split: if_splits)
next
  case (Pair p n)
  obtain k d where k: "with_hash e \<lparr>dpub = p, dname = n\<rparr> = (k, d)" by fastforce
  then have e: "k = device_hash e p" using with_hash_simps(1) [of e "\<lparr>dpub = p, dname = n\<rparr>"] by simp
  have "um_keys (map (\<lambda>(k, x). (k, f k x)) m) = um_keys m" for f :: "hash_t \<Rightarrow> device \<Rightarrow> device" and m
    by (force simp: um_keys_def)
  then show ?thesis using Pair assms(2) k e
    by (auto simp: api_pair_def devices_pair_def Let_def um_keys_emplace [OF assms(1)] split: if_splits)
next
  case (Unpair p)
  then show ?thesis using assms(2) by (auto simp: api_unpair_def devices_unpair_def Let_def um_keys_erase split: if_splits)
qed (use assms(3) in simp)

section \<open>Properties\<close>

text \<open>
  The devices survive a restart: the file that is saved gives back every key with its name, whatever the order of
  the hash table, as long as the names are single words.
\<close>

theorem devices_reload:
  assumes "\<forall>x \<in> set (entries s). stored_ok e x" "um_ok (entries s)" "placement (p_place e)"
  shows "map_option facts (um_find (entries (devices_open e (dfile (devices_save (p_lib e) s)))) a) = map_option facts (um_find (entries s) a)"
proof -
  let ?t = "concat (map (\<lambda>(h, d). device_to_stream (p_lib e) d @ '' '') (entries s))"
  have "entries (devices_open e (dfile (devices_save (p_lib e) s))) = devices_load_loop e (istr (CHR '' '' # ?t)) []"
    by (simp add: devices_open_def devices_load_def devices_save_def load_skip)
  then show ?thesis
    using load_saved [OF assms(1,3) _ assms(2), of "[]" a] by (simp add: um_ok_def um_keys_def um_find_def split: option.split)
qed

text \<open>
  The name for an empty one has a blank: once a device is renamed to it, the file ends there for the next start,
  and every device saved after it is forgotten.
\<close>

theorem default_name_forgets:
  assumes "stored_ok e (h, d\<lparr>dname := ''x''\<rparr>)" "dname d = default_name" "entries s = (h, d) # more_devices"
  shows "\<exists>d'. entries (devices_open e (dfile (devices_save (p_lib e) s))) = um_emplace (p_place e) h d' [] \<and> dname d' = ''my''"
proof -
  define r where "r = concat (map (\<lambda>(h, d). device_to_stream (p_lib e) d @ '' '') more_devices)"
  let ?d = "d\<lparr>dname := ''my''\<rparr>"
  define d' where "d' = \<lparr>dpub = (pub_new (p_junk e))\<lparr>pdata := pdata (dpub d), valid := True\<rparr>, dname = ''my''\<rparr>"
  have k: "valid (dpub ?d)" "secp_prints (p_lib e) (pdata (dpub ?d))" "token (dname ?d)" "h = pub_compute_hash (p_lib e) (p_jbuf e) (dpub d)"
    using assms(1) by (simp_all add: stored_ok_def token_def isspace_def)
  have h: "fst (with_hash e d') = h"
    using k(1,4) by (simp add: with_hash_simps d'_def device_hash_def pub_get_hash_def pub_new_def pub_compute_hash_def Let_def)
  have t: "CHR '' '' # device_to_stream (p_lib e) d @ '' '' @ r =
      CHR '' '' # device_to_stream (p_lib e) ?d @ CHR '' '' # (''device'' @ CHR '' '' # r)"
    using assms(2) by (simp add: device_to_stream_def default_name_def)
  have dev: "device_from_stream e (istr (CHR '' '' # device_to_stream (p_lib e) d @ '' '' @ r)) = ((True, d'), istr (CHR '' '' # ''device'' @ CHR '' '' # r))"
    unfolding t using read_device [OF k(1-3)] by (simp add: d'_def)
  have "token ''device''" by (simp add: token_def isspace_def)
  then have rs: "read_string (istr (CHR '' '' # ''device'' @ CHR '' '' # r)) = (''device'', istr (CHR '' '' # r))"
    using read_string_token [of "''device''" "CHR '' ''" r] by (simp add: stream_simps)
  have "\<not> fst (pub_set_b58 (p_lib e) (pub_new (p_junk e)) ''device'')"
    using decode_length [of "''device''"] by (auto simp: pub_set_b58_def split: option.split)
  then have "\<not> good (snd (read_pub (p_lib e) (pub_new (p_junk e)) (istr (CHR '' '' # ''device'' @ CHR '' '' # r))))"
    unfolding read_pub_def rs by (simp add: case_prod_unfold)
  then have "\<not> fst (fst (device_from_stream e (istr (CHR '' '' # ''device'' @ CHR '' '' # r))))"
    using good_read_string by (auto simp: device_from_stream_def case_prod_unfold Let_def)
  then have stop: "devices_load_loop e (istr (CHR '' '' # ''device'' @ CHR '' '' # r)) m = m" for m
    by (subst devices_load_loop.simps) (simp add: case_prod_unfold)
  have "entries (devices_open e (dfile (devices_save (p_lib e) s))) =
      devices_load_loop e (istr (CHR '' '' # device_to_stream (p_lib e) d @ '' '' @ r)) []"
    by (simp add: devices_open_def devices_load_def devices_save_def load_skip assms(3) r_def)
  also have "\<dots> = devices_load_loop e (istr (CHR '' '' # ''device'' @ CHR '' '' # r)) (um_emplace (p_place e) h (snd (with_hash e d')) [])"
    using dev h by (subst devices_load_loop.simps) (simp add: d'_def case_prod_unfold)
  finally show ?thesis using stop by (intro exI [of _ "snd (with_hash e d')"]) (simp add: with_hash_simps d'_def)
qed

text \<open>
  Nobody else gets in: a key that is authorised in the end was there in the beginning, was paired, or asked when
  there were no devices, as long as the program is not restarted.
\<close>

theorem authorized_was_let_in:
  assumes "placement (p_place e)" "Restart \<notin> set xs" "fst (devices_authorize e p (fold (pairing_step e) xs s))"
  shows "device_hash e p \<in> um_keys (entries s) \<or> lets_in e (device_hash e p) (xs @ [Authorize p]) s"
proof -
  have in_table: "device_hash e p \<in> um_keys (entries s) \<or> lets_in e (device_hash e p) ys s"
    if "device_hash e p \<in> um_keys (entries (fold (pairing_step e) ys s))" "Restart \<notin> set ys" for ys s
    using that
  proof (induction ys arbitrary: s)
    case (Cons x ys)
    then show ?case using step_entries [OF assms(1), of "device_hash e p" x s] by auto
  qed simp
  have mono: "lets_in e h ys s \<Longrightarrow> lets_in e h (ys @ zs) s" for h ys zs s by (induction ys arbitrary: s) auto
  have last: "lets_in e h (ys @ [x]) s = (lets_in e h ys s \<or> lets_in e h [x] (fold (pairing_step e) ys s))" for h ys x s
    by (induction ys arbitrary: s) auto
  obtain k d where k: "with_hash e \<lparr>dpub = p, dname = ''First_seen_device''\<rparr> = (k, d)" by fastforce
  then have "k = device_hash e p" using with_hash_simps(1) [of e "\<lparr>dpub = p, dname = ''First_seen_device''\<rparr>"] by simp
  then have "entries (fold (pairing_step e) xs s) = [] \<or> device_hash e p \<in> um_keys (entries (fold (pairing_step e) xs s))"
    using assms(3) k um_find_None [of "entries (fold (pairing_step e) xs s)" k] by (auto simp: devices_authorize_def split: if_splits)
  then show ?thesis using in_table [OF _ assms(2)] mono by (auto simp: last)
qed

text \<open>Unpairing the only device lets the next stranger in.\<close>

theorem unpair_last_opens:
  assumes "entries s = [(device_hash e p, d)]"
  shows "fst (devices_authorize e q (devices_unpair e p s))"
  using assms by (simp add: devices_authorize_def devices_unpair_def device_hash_def [symmetric] um_find_def um_erase_def Let_def split: prod.split)

end
