(* ===== verification/Api_Generator.thy ===== *)
theory Api_Generator
  imports Streams Protocol
begin

text \<open>
  The generator of the remote interfaces, \<open>src/api/main.cpp\<close>: it reads the tables of functions of \<open>src/api/data\<close>
  and writes the pieces of C++ and Java source that the other programs include: declarations, the stubs that ask a
  remote object, the constants with the service numbers, and the switch of the receiver with its handlers.

  A table is text; what is written is text too. \<open>None\<close> is the end of the generator where its text is
  due: a failed assertion, or \<open>exit(1)\<close> when a type has no Java name. The file being written is cut short then.
\<close>

section \<open>Tables\<close>

record api_fn =
  fn_args :: "string list"
  fn_name :: string
  fn_fcgi :: string
  fn_service :: string
  fn_custom :: string

abbreviation endl :: string where "endl \<equiv> [CHR 0x0A]"
definition quot :: string where "quot = [CHR 0x22]"

text \<open>\<open>getline\<close> of the standard library, into a fresh string.\<close>

definition getline :: "istream \<Rightarrow> string \<times> istream" where
  "getline is =
     (if \<not> good is then ([], setfail is)
      else let l = takeWhile (\<lambda>c. c \<noteq> CHR 0x0A) (ichars is)
           in case dropWhile (\<lambda>c. c \<noteq> CHR 0x0A) (ichars is) of
                [] \<Rightarrow> (l, \<lparr>ichars = [], ieof = True, ifail = l = []\<rparr>)
              | c # r \<Rightarrow> (l, is\<lparr>ichars := r\<rparr>))"

definition lookup_java :: "string \<Rightarrow> string option" where
  "lookup_java cpp_type = map_of
     [(''const string&'', ''String''), (''const pub_t&'', ''String''), (''const priv_t&'', ''String''), (''bool'', ''boolean''),
      (''const hash_t&'', ''String''), (''const cash_t&'', ''long''), (''const tx_make_p2pkh_input&'', ''tx_make_p2pkh_input''),
      (''sigcode_t'', ''sigcode_t''), (''ostream&'', ''OutputStream'')] cpp_type"

text \<open>The lines of the arguments; empty ones are dropped.\<close>

fun read_args :: "nat \<Rightarrow> istream \<Rightarrow> string list \<times> istream" where
  "read_args 0 is = ([], is)"
| "read_args (Suc n) is =
     (let (line, is) = getline is; (r, is) = read_args n is
      in (if line \<noteq> [] then line # r else r, is))"

text \<open>
  One function; \<open>junk\<close> is the uninitialised \<open>n\<close> when the stream ends after the name, and \<open>reserve\<close> throws for a
  negative number. (That there is memory for as many strings as the table says is taken for granted.)
\<close>

definition fn_from_stream :: "int \<Rightarrow> istream \<Rightarrow> (api_fn \<times> istream) option" where
  "fn_from_stream junk is =
     (let (nm, is) = read_string is;
          (n, is) = read_signed 32 is
      in if nm = [] then Some (\<lparr>fn_args = [], fn_name = nm, fn_fcgi = [], fn_service = [], fn_custom = []\<rparr>, is)
         else let n = (case n of Some n \<Rightarrow> n | None \<Rightarrow> junk); (_, is) = getline is
              in if n < 0 then None
                 else let (as, is) = read_args (nat n) is;
                          (fcgi, is) = getline is;
                          (custom, is) = getline is
                      in Some (\<lparr>fn_args = as @ [''ostream&''], fn_name = nm, fn_fcgi = fcgi, fn_service = [], fn_custom = custom\<rparr>, is))"

text \<open>The functions up to the first that leaves the stream unusable. Each of them consumes its name.\<close>

lemma getline_le: "length (ichars (snd (getline is))) \<le> length (ichars is)"
  using length_dropWhile_le [of "\<lambda>c. c \<noteq> CHR 0x0A" "ichars is"]
  by (auto simp: getline_def setfail_def Let_def split: list.split)

lemma good_getline: "good (snd (getline is)) \<Longrightarrow> good is"
  by (cases "good is") (auto simp: getline_def)

lemma read_args_le: "length (ichars (snd (read_args n is))) \<le> length (ichars is)"
proof (induction n arbitrary: "is")
  case (Suc n)
  show ?case using Suc [of "snd (getline is)"] getline_le [of "is"] by (simp add: case_prod_unfold Let_def)
qed simp

lemma good_read_args: "good (snd (read_args n is)) \<Longrightarrow> good is"
proof (induction n arbitrary: "is")
  case (Suc n)
  then show ?case using Suc.IH [of "snd (getline is)"] good_getline [of "is"] by (simp add: case_prod_unfold Let_def)
qed simp

lemma read_signed_le: "length (ichars (snd (read_signed w is))) \<le> length (ichars is)"
proof -
  have d: "length (ichars (snd (read_digits is))) \<le> length (ichars is)"
  proof (cases "good is \<and> dropWhile isspace (ichars is) \<noteq> []")
    case True
    let ?r = "dropWhile isspace (ichars is)" and ?x = "snd (read_digits is)"
    have "ichars ?x = dropWhile isdigit ?r \<or> ichars ?x = dropWhile isdigit (tl ?r)"
      using True by (simp add: read_digits_def sentry_def Let_def del: dropWhile_eq_Nil_conv)
    then have "length (ichars ?x) \<le> length ?r"
      using length_dropWhile_le [of isdigit ?r] length_dropWhile_le [of isdigit "tl ?r"] by auto
    then show ?thesis using length_dropWhile_le [of isspace "ichars is"] by linarith
  qed (auto simp: read_digits_def sentry_def setfail_def)
  show ?thesis using d by (auto simp: read_signed_def Let_def setfail_def split: prod.splits option.splits)
qed

lemma good_read_signed: "good (snd (read_signed w is)) \<Longrightarrow> good is"
  by (cases "good is") (simp_all add: read_bad)

lemma fn_from_stream_shorter:
  assumes "fn_from_stream junk is = Some (x, is')" "good is'"
  shows "length (ichars is') < length (ichars is)"
proof -
  define s1 where "s1 = snd (read_string is)"
  define s2 where "s2 = snd (read_signed 32 s1)"
  have "good s2 \<and> length (ichars is') \<le> length (ichars s2)"
  proof (cases "fst (read_string is) = []")
    case True
    then show ?thesis using assms by (auto simp: fn_from_stream_def s1_def s2_def Let_def split: prod.splits)
  next
    case False
    define s3 where "s3 = snd (getline s2)"
    define n where "n = nat (case fst (read_signed 32 s1) of Some n \<Rightarrow> n | None \<Rightarrow> junk)"
    have "is' = snd (getline (snd (getline (snd (read_args n s3)))))"
      using assms(1) False by (auto simp: fn_from_stream_def s1_def s2_def s3_def n_def Let_def split: prod.splits if_splits)
    moreover define s4 where "s4 = snd (read_args n s3)"
    moreover define s5 where "s5 = snd (getline s4)"
    ultimately have "is' = snd (getline s5)" by simp
    moreover from this have "good s5" using assms(2) good_getline by simp
    moreover from this have "good s4" using good_getline [of s4] by (simp add: s5_def)
    moreover from this have "good s3" using good_read_args [of n s3] by (simp add: s4_def)
    moreover from this have "good s2" using good_getline [of s2] by (simp add: s3_def)
    ultimately show ?thesis
      using getline_le [of s5] getline_le [of s4] read_args_le [of n s3] getline_le [of s2] by (simp add: s5_def s4_def s3_def)
  qed
  moreover from this have "good s1" using good_read_signed [of 32 s1] by (simp add: s2_def)
  ultimately show ?thesis using read_string_shorter [of "is"] read_signed_le [of 32 s1] by (simp add: s2_def s1_def)
qed

function api_from_stream :: "int \<Rightarrow> istream \<Rightarrow> api_fn list option" where
  "api_from_stream junk is =
     (if \<not> good is then Some []
      else case fn_from_stream junk is of
             None \<Rightarrow> None
           | Some (i, is') \<Rightarrow> if \<not> good is' then Some [] else map_option ((#) i) (api_from_stream junk is'))"
  by pat_completeness auto

termination
  by (relation "measure (\<lambda>(j, is). length (ichars is))") (auto dest: fn_from_stream_shorter)

declare api_from_stream.simps [simp del]

section \<open>Declarations\<close>

text \<open>The loops over the parameters: all but the last one, followed by a comma, and the last one.\<close>

definition types_list :: "string list \<Rightarrow> string" where
  "types_list as = (if as = [] then [] else concat (map (\<lambda>a. a @ '', '') (butlast as)) @ last as)"

text \<open>\<open>name_k\<close> is the name of the k-th parameter.\<close>

definition numbered :: "string \<Rightarrow> string list \<Rightarrow> string" where
  "numbered p as = concat (map (\<lambda>(j, a). a @ '' '' @ p @ show_nat j @ '', '') (enumerate 0 (butlast as)))"

definition params_list :: "string list \<Rightarrow> string" where
  "params_list as = (if as = [] then [] else numbered ''a'' as @ last as @ '' a'' @ show_nat (length as - 1))"

definition actuals_list :: "string list \<Rightarrow> string" where
  "actuals_list as =
     (if as = [] then []
      else concat (map (\<lambda>j. ''a'' @ show_nat j @ '', '') [0..<length as - 1]) @ ''a'' @ show_nat (length as - 1))"

definition java_types :: "api_fn \<Rightarrow> string list option" where
  "java_types i = those (map lookup_java (fn_args i))"

definition fn_fcgi_index_cpp :: "api_fn \<Rightarrow> string" where
  "fn_fcgi_index_cpp i =
     (if fn_fcgi i = ''-'' then []
      else ''os << url << '' @ quot @ ''/?<b>'' @ fn_fcgi i @ ''</b>'' @ quot @ '' << endl;'' @ endl)"

definition fn_cpp_purevir :: "api_fn \<Rightarrow> string" where
  "fn_cpp_purevir i = ''  virtual void '' @ fn_name i @ ''('' @ types_list (fn_args i) @ '')=0;'' @ endl"

definition fn_java_purevir :: "api_fn \<Rightarrow> string option" where
  "fn_java_purevir i = map_option (\<lambda>ts. ''  void '' @ fn_name i @ ''('' @ (if ts = [] then [] else numbered ''arg'' ts @ last ts @ '' os'')
     @ '');'' @ endl) (java_types i)"

definition fn_cpp_override :: "api_fn \<Rightarrow> string" where
  "fn_cpp_override i = ''  virtual void '' @ fn_name i @ ''('' @ types_list (fn_args i) @ '') override;'' @ endl"

section \<open>Stubs\<close>

definition custom_or :: "api_fn \<Rightarrow> string \<Rightarrow> string" where
  "custom_or i s = (if fn_custom i = ''-'' then s @ endl else fn_custom i @ endl)"

definition fn_cpp_rpc_impl :: "api_fn \<Rightarrow> string option" where
  "fn_cpp_rpc_impl i =
     (let as = fn_args i; n = length as in
      if n = 0 then None
      else Some (''void c::'' @ fn_name i @ ''('' @ params_list as @ '') {'' @ endl
        @ (if n = 1 then custom_or i (''    ask('' @ fn_service i @ '', a0);'')
           else if n = 2 \<and> as ! 0 = ''const string&'' then custom_or i (''    ask('' @ fn_service i @ '', a0, a1);'')
           else ''    ostringstream o; o << '' @ concat (map (\<lambda>j. ''a'' @ show_nat j @ '' << ' ' << '') [0..<n - 2])
             @ ''a'' @ show_nat (n - 2) @ '';'' @ endl
             @ custom_or i (''    ask('' @ fn_service i @ '', o.str(), a'' @ show_nat (n - 1) @ '');''))
        @ ''}'' @ endl))"

text \<open>In Java, parameters that are not texts are converted; all but the last text are followed by a blank.\<close>

definition java_piece :: "string list \<Rightarrow> string \<Rightarrow> nat \<Rightarrow> string" where
  "java_piece ts sep j =
     (if ts ! j = ''String'' then ''    o += a'' @ show_nat j @ sep else ''    o += to_string(a'' @ show_nat j @ '')'' @ sep)"

definition fn_java_rpc_impl :: "api_fn \<Rightarrow> string option" where
  "fn_java_rpc_impl i =
     (case java_types i of
        None \<Rightarrow> None
      | Some ts \<Rightarrow>
          (let n = length ts in
           if n = 0 then None
           else Some (''@Override public void '' @ fn_name i @ ''('' @ params_list ts @ '') {'' @ endl
             @ (if n = 1 then custom_or i (''    endpoint.ask(protocol.'' @ fn_service i @ '', a0);'')
                else if n = 2 \<and> ts ! 0 = ''String'' then custom_or i (''    endpoint.ask(protocol.'' @ fn_service i @ '', a0, a1);'')
                else ''    String o=new String();'' @ endl
                  @ concat (map (\<lambda>j. java_piece ts '' + ' ';'' j @ endl) [0..<n - 2])
                  @ (if ts ! (n - 2) = ''String'' then java_piece ts '';'' (n - 2) else java_piece ts '' + ' ';'' (n - 2)) @ endl
                  @ custom_or i (''    endpoint.ask(protocol.'' @ fn_service i @ '', o, a'' @ show_nat (n - 1) @ '');''))
             @ ''}'' @ endl)))"

definition fn_cpp_delegate :: "string \<Rightarrow> api_fn \<Rightarrow> string" where
  "fn_cpp_delegate to i = ''  inline virtual void '' @ fn_name i @ ''('' @ params_list (fn_args i) @ '') override { '' @ to @ ''::''
     @ fn_name i @ ''('' @ actuals_list (fn_args i) @ ''); }'' @ endl"

definition fn_java_delegate :: "string \<Rightarrow> api_fn \<Rightarrow> string option" where
  "fn_java_delegate to i = map_option (\<lambda>ts. ''  @Override public void '' @ fn_name i @ ''('' @ params_list ts @ '') { '' @ to @ ''.''
     @ fn_name i @ ''('' @ actuals_list ts @ ''); }'' @ endl) (java_types i)"

section \<open>The receiver\<close>

definition fn_service_router :: "api_fn \<Rightarrow> string" where
  "fn_service_router i = ''    case '' @ fn_service i @ '': { return send_response__'' @ fn_service i @ ''(c,d); }'' @ endl"

definition fn_service_handler :: "api_fn \<Rightarrow> string" where
  "fn_service_handler i = ''bool c::send_response__'' @ fn_service i @ ''(socket::peer_t* c, socket::datagram* d) {'' @ endl
     @ ''   abort();'' @ endl @ ''}'' @ endl"

definition fn_service_header :: "api_fn \<Rightarrow> string" where
  "fn_service_header i = ''bool send_response__'' @ fn_service i @ ''(socket::peer_t*, socket::datagram*);'' @ endl"

section \<open>Interfaces\<close>

record api_t =
  api_fns :: "api_fn list"
  api_src :: string
  api_name :: string
  api_v :: "string list"

definition warn_h :: string where "warn_h = ''//------------------generated by apitool- do not edit'' @ endl"
definition warn_f :: string where "warn_f = ''//-/----------------generated by apitool- do not edit'' @ endl"

definition api_info :: "api_t \<Rightarrow> string" where
  "api_info a = ''// '' @ api_name a @ '' - master file: us/apitool/'' @ api_src a @ endl"

text \<open>The names of the constants; the name of its constant becomes the service of the function.\<close>

definition with_service :: "string \<Rightarrow> api_fn \<Rightarrow> api_fn" where
  "with_service prefix i = i\<lparr>fn_service := prefix @ ''_'' @ fn_name i\<rparr>"

definition with_protocol_vector :: "api_t \<Rightarrow> api_t" where
  "with_protocol_vector a =
     (let fs = map (with_service (api_name a)) (api_fns a)
      in a\<lparr>api_fns := fs, api_v := (api_name a @ ''_base'') # map fn_service fs\<rparr>)"

text \<open>Loading a table; a file that is not there leaves a stream that is not good.\<close>

definition api_load :: "int \<Rightarrow> string \<Rightarrow> string option \<Rightarrow> api_t option" where
  "api_load junk nm text =
     map_option (\<lambda>fs. with_protocol_vector \<lparr>api_fns = fs, api_src = ''data/'' @ nm, api_name = nm, api_v = []\<rparr>)
       (api_from_stream junk (case text of Some s \<Rightarrow> istr s | None \<Rightarrow> setfail (istr [])))"

text \<open>The loops over the functions.\<close>

definition api_each :: "(api_fn \<Rightarrow> string) \<Rightarrow> api_t \<Rightarrow> string" where
  "api_each g a = concat (map g (api_fns a))"

definition api_each_opt :: "(api_fn \<Rightarrow> string option) \<Rightarrow> api_t \<Rightarrow> string option" where
  "api_each_opt g a = map_option concat (those (map g (api_fns a)))"

definition with_info :: "api_t \<Rightarrow> string option \<Rightarrow> string option" where
  "with_info a t = map_option (\<lambda>t. api_info a @ t) t"

text \<open>The constants; the assertion is that there is a base. The prefixes of the names are empty texts.\<close>

definition protocol_cpp_body :: "int \<Rightarrow> api_t \<Rightarrow> string option" where
  "protocol_cpp_body nbase a =
     (case api_v a of
        [] \<Rightarrow> None
      | base # vs \<Rightarrow> Some (api_info a @ ''    static constexpr uint16_t '' @ base @ ''{'' @ show_int nbase @ ''};'' @ endl
          @ concat (map (\<lambda>(k, v). ''    static constexpr uint16_t '' @ v @ ''{'' @ base @ ''+'' @ show_nat (2 * k) @ ''};'' @ endl) (enumerate 0 vs))))"

definition gov_protocol_cpp_body :: "int \<Rightarrow> api_t \<Rightarrow> string option" where
  "gov_protocol_cpp_body nbase a =
     (case api_v a of
        [] \<Rightarrow> None
      | base # vs \<Rightarrow> Some (api_info a @ ''    static constexpr uint16_t '' @ base @ ''{'' @ show_int nbase @ ''};'' @ endl
          @ concat (map (\<lambda>(k, v). ''    static constexpr uint16_t '' @ v @ ''{(('' @ base @ ''+'' @ show_nat k @ '')<<2)+protocol_suffix};'' @ endl)
              (enumerate 0 vs))))"

definition protocol_java_body :: "int \<Rightarrow> api_t \<Rightarrow> string option" where
  "protocol_java_body nbase a =
     (case api_v a of
        [] \<Rightarrow> None
      | base # vs \<Rightarrow> Some (api_info a @ ''    public static final short '' @ base @ '' = '' @ show_int nbase @ '';'' @ endl
          @ concat (map (\<lambda>(k, v). ''    public static final short '' @ v @ '' = '' @ base @ ''+'' @ show_nat (2 * k) @ '';'' @ endl) (enumerate 0 vs))))"

definition gov_protocol_java_body :: "int \<Rightarrow> api_t \<Rightarrow> string option" where
  "gov_protocol_java_body nbase a =
     (case api_v a of
        [] \<Rightarrow> None
      | base # vs \<Rightarrow> Some (api_info a @ ''    public static final short '' @ base @ '' = '' @ show_int nbase @ '';'' @ endl
          @ concat (map (\<lambda>(k, v). ''    public static final short '' @ v @ '' = (('' @ base @ ''+'' @ show_nat k @ '')<<2)+protocol_suffix;'' @ endl)
              (enumerate 0 vs))))"

section \<open>Files\<close>

text \<open>
  A file with its text, \<open>None\<close> when the generator ends while it writes it. What follows is not written then.
\<close>

type_synonym gen_file = "string \<times> string option"

fun written :: "gen_file list \<Rightarrow> gen_file list \<times> bool" where
  "written [] = ([], True)"
| "written ((n, None) # fs) = ([(n, None)], False)"
| "written ((n, Some t) # fs) = (let (ws, b) = written fs in ((n, Some t) # ws, b))"

definition out_file :: "string \<Rightarrow> string option \<Rightarrow> gen_file" where
  "out_file fn t = (''apitool_generated__'' @ fn, map_option (\<lambda>t. warn_h @ t @ warn_f) t)"

definition both :: "string option \<Rightarrow> string option \<Rightarrow> string option" where
  "both s t = (case (s, t) of (Some s, Some t) \<Rightarrow> Some (s @ t) | _ \<Rightarrow> None)"

definition gen_cpp_service_router :: "api_t \<Rightarrow> gen_file" where
  "gen_cpp_service_router a = out_file (''protocol_'' @ api_name a @ ''_cpp_service_router'') (Some (api_info a @ api_each fn_service_router a))"

definition gen_cpp_service_handlers :: "api_t \<Rightarrow> gen_file" where
  "gen_cpp_service_handlers a =
     out_file (''protocol_'' @ api_name a @ ''_cpp_service_handlers'') (Some (api_info a @ api_each (\<lambda>i. fn_service_handler i @ endl) a))"

definition gen_cpp_service_handler_headers :: "api_t \<Rightarrow> gen_file" where
  "gen_cpp_service_handler_headers a =
     out_file (''protocol_'' @ api_name a @ ''_cpp_service_handler_headers'') (Some (api_info a @ api_each fn_service_header a))"

definition gen_functions_cpp_rpc_impl :: "api_t \<Rightarrow> gen_file" where
  "gen_functions_cpp_rpc_impl a =
     out_file (''functions_'' @ api_name a @ ''_cpp_rpc-impl'') (api_each_opt (\<lambda>i. map_option (\<lambda>t. t @ endl) (fn_cpp_rpc_impl i)) a)"

definition gen_functions_java_rpc_impl :: "api_t \<Rightarrow> gen_file" where
  "gen_functions_java_rpc_impl a =
     out_file (''functions_'' @ api_name a @ ''_java_rpc-impl'') (api_each_opt (\<lambda>i. map_option (\<lambda>t. t @ endl) (fn_java_rpc_impl i)) a)"

definition gen_functions_cpp_override :: "api_t \<Rightarrow> gen_file" where
  "gen_functions_cpp_override a = out_file (''functions_'' @ api_name a @ ''_cpp_override'') (Some (api_info a @ api_each fn_cpp_override a))"

definition gen_functions_cpp_purevir :: "api_t \<Rightarrow> gen_file" where
  "gen_functions_cpp_purevir a = out_file (''functions_'' @ api_name a @ ''_cpp_purevir'') (Some (api_info a @ api_each fn_cpp_purevir a))"

definition gen_functions_java_purevir :: "api_t \<Rightarrow> gen_file" where
  "gen_functions_java_purevir a =
     out_file (''functions_'' @ api_name a @ ''_java_purevir'') (with_info a (api_each_opt fn_java_purevir a))"

definition gen_fcgi_index_cpp :: "api_t \<Rightarrow> gen_file" where
  "gen_fcgi_index_cpp a = out_file (''links_'' @ api_name a @ ''_fcgi_query_strings'') (Some (api_info a @ api_each fn_fcgi_index_cpp a))"

definition gen_functions_wallet_daemon_cpp_impl :: "api_t \<Rightarrow> api_t \<Rightarrow> gen_file" where
  "gen_functions_wallet_daemon_cpp_impl w p = out_file ''functions_wallet-daemon_cpp_impl''
     (Some (api_info w @ api_each (fn_cpp_delegate ''w'') w @ endl @ api_info p @ api_each (fn_cpp_delegate ''p'') p))"

definition gen_functions_wallet_daemon_java_impl :: "api_t \<Rightarrow> api_t \<Rightarrow> gen_file" where
  "gen_functions_wallet_daemon_java_impl w p = out_file ''functions_wallet-daemon_java_impl''
     (both (map_option (\<lambda>t. t @ endl) (with_info w (api_each_opt (fn_java_delegate ''w'') w)))
        (with_info p (api_each_opt (fn_java_delegate ''p'') p)))"

definition gen_protocol :: "api_t \<Rightarrow> int \<Rightarrow> gen_file list" where
  "gen_protocol a nbase =
     [out_file (''protocol_'' @ api_name a @ ''_cpp'') (protocol_cpp_body nbase a),
      out_file (''protocol_'' @ api_name a @ ''_java'') (protocol_java_body nbase a)]"

definition gen_gov_protocol :: "api_t \<Rightarrow> int \<Rightarrow> gen_file list" where
  "gen_gov_protocol a nbase =
     [out_file (''protocol_'' @ api_name a @ ''_cpp'') (gov_protocol_cpp_body nbase a),
      out_file (''protocol_'' @ api_name a @ ''_java'') (gov_protocol_java_body nbase a)]"

definition gen_cpp_wallet_daemon_service_router :: "api_t \<Rightarrow> api_t \<Rightarrow> gen_file" where
  "gen_cpp_wallet_daemon_service_router w p = out_file ''protocol_wallet-daemon_cpp_service_router''
     (Some (api_info w @ api_each fn_service_router w @ api_info p @ api_each fn_service_router p))"

definition gen_cpp_wallet_daemon_service_handlers :: "api_t \<Rightarrow> api_t \<Rightarrow> gen_file" where
  "gen_cpp_wallet_daemon_service_handlers w p = out_file ''protocol_wallet-daemon_cpp_service_handlers''
     (Some (api_info w @ api_each (\<lambda>i. fn_service_handler i @ endl) w @ api_info p @ api_each (\<lambda>i. fn_service_handler i @ endl) p))"

definition gen_cpp_wallet_daemon_service_handler_headers :: "api_t \<Rightarrow> api_t \<Rightarrow> gen_file" where
  "gen_cpp_wallet_daemon_service_handler_headers w p = out_file ''protocol_wallet-daemon_cpp_service_handler_headers''
     (Some (api_info w @ api_each fn_service_header w @ api_info p @ api_each fn_service_header p))"

definition gen_wallet_daemon_protocol :: "api_t \<Rightarrow> int \<Rightarrow> api_t \<Rightarrow> int \<Rightarrow> gen_file list" where
  "gen_wallet_daemon_protocol w wbase p pbase =
     [out_file ''protocol_wallet-daemon_cpp'' (both (protocol_cpp_body wbase w) (protocol_cpp_body pbase p)),
      out_file ''protocol_wallet-daemon_java'' (both (protocol_java_body wbase w) (protocol_java_body pbase p))]"

definition do_wallet_daemon :: "api_t \<Rightarrow> int \<Rightarrow> api_t \<Rightarrow> int \<Rightarrow> gen_file list" where
  "do_wallet_daemon w wbase p pbase =
     [gen_functions_wallet_daemon_cpp_impl w p, gen_functions_wallet_daemon_java_impl w p]
     @ gen_wallet_daemon_protocol w wbase p pbase
     @ [gen_cpp_wallet_daemon_service_router w p, gen_cpp_wallet_daemon_service_handlers w p,
        gen_cpp_wallet_daemon_service_handler_headers w p]"

definition do_common_api :: "api_t \<Rightarrow> gen_file list" where
  "do_common_api a =
     [gen_functions_cpp_purevir a, gen_functions_java_purevir a, gen_functions_cpp_override a, gen_functions_cpp_rpc_impl a,
      gen_functions_java_rpc_impl a, gen_cpp_service_router a, gen_cpp_service_handlers a, gen_cpp_service_handler_headers a]"

definition do_api :: "api_t \<Rightarrow> int \<Rightarrow> gen_file list" where
  "do_api a nbase = do_common_api a @ [gen_fcgi_index_cpp a] @ gen_protocol a nbase"

definition do_gov_api :: "api_t \<Rightarrow> int \<Rightarrow> gen_file list" where
  "do_gov_api a nbase = do_common_api a @ gen_gov_protocol a nbase"

text \<open>
  \<open>main\<close>: the directory of the tables maps names to texts. The result is what is written and whether the
  generator came to its end; \<open>None\<close> if it already ends while it loads the tables.
\<close>

definition gen_files :: "api_t \<Rightarrow> api_t \<Rightarrow> api_t \<Rightarrow> api_t \<Rightarrow> gen_file list" where
  "gen_files w p gid gsocket =
     do_api w 0 @ do_api p 100 @ do_wallet_daemon w 0 p 100 @ do_gov_api gsocket 100 @ do_gov_api gid 200"

definition gen_main :: "int \<Rightarrow> (string \<Rightarrow> string option) \<Rightarrow> (gen_file list \<times> bool) option" where
  "gen_main junk dir =
     (case (api_load junk ''wallet'' (dir ''wallet''), api_load junk ''pairing'' (dir ''pairing''),
            api_load junk ''gov_id'' (dir ''gov_id''), api_load junk ''gov_socket'' (dir ''gov_socket'')) of
        (Some w, Some p, Some gid, Some gsocket) \<Rightarrow> Some (written (gen_files w p gid gsocket))
      | _ \<Rightarrow> None)"

section \<open>The tables of the repository\<close>

definition unlines :: "string list \<Rightarrow> string" where "unlines ls = concat (map (\<lambda>l. l @ endl) ls)"

definition data_wallet :: string where
  "data_wallet = unlines
    [''balance 1'', ''bool'', ''cmd=balance&detailed=&lt;1|0&gt;'', ''-'', [],
     ''list 1'', ''bool'', ''cmd=list&show_priv_keys=&lt;1|0&gt;'', ''-'', [],
     ''new_address 0'', ''cmd=new_address'', ''-'', [],
     ''add_address 1'', ''const priv_t&'', ''cmd=add_address&privkey=b58'', ''-'', [],
     ''transfer 2'', ''const hash_t&'', ''const cash_t&'', ''cmd=transfer&recipient=addressb58&amount='', ''-'', [],
     ''tx_make_p2pkh 1'', ''const tx_make_p2pkh_input&'', ''-'', ''-'', [],
     ''tx_sign 3'', ''const string&'', ''sigcode_t'', ''sigcode_t'', ''-'', ''-'', [],
     ''tx_send 1'', ''const string&'', ''-'', ''-'', [],
     ''tx_decode 1'', ''const string&'', ''-'', ''-'', [],
     ''tx_check 1'', ''const string&'', ''-'', ''-'', [],
     ''ping 0'', ''cmd=ping'', ''    ask_ping(a0);'', []]"

definition data_pairing :: string where
  "data_pairing = unlines
    [''pair 2'', ''const pub_t&'', ''const string&'', ''cmd=pair&device=pubkeyB58&name='', ''-'', [],
     ''unpair 1'', ''const pub_t&'', ''cmd=unpair&device=pubkeyB58&name='', ''-'', [],
     ''list_devices 0'', ''cmd=list_devices'', ''-'', []]"

definition data_gov_id :: string where
  "data_gov_id = unlines [''request 0'', ''-'', ''-'', [], ''peer_challenge 0'', ''-'', ''-'', [], ''challenge_response 0'', ''-'', ''-'', []]"

definition data_gov_socket :: string where
  "data_gov_socket = unlines [''error 0'', ''-'', ''-'', [], ''ping 0'', ''-'', ''-'', [], ''pong 0'', ''-'', ''-'', []]"

definition data_dir :: "string \<Rightarrow> string option" where
  "data_dir = map_of [(''wallet'', data_wallet), (''pairing'', data_pairing), (''gov_id'', data_gov_id), (''gov_socket'', data_gov_socket)]"

end
