(* ===== verification/Api_Tables.thy ===== *)
theory Api_Tables
  imports Api_Generator
begin

text \<open>
  Properties of the tables of \<open>src/api\<close>: what a table must look like for its functions to be read, and when the
  generator comes to its end.
\<close>

section \<open>The format of a table\<close>

text \<open>A function as it stands in a table: its name, the number of arguments and a line for each, two more lines, and a blank one.\<close>

definition declared :: "api_fn \<Rightarrow> string list" where "declared i = butlast (fn_args i)"

definition fn_text :: "api_fn \<Rightarrow> string" where
  "fn_text i = fn_name i @ '' '' @ show_nat (length (declared i)) @ endl @ unlines (declared i @ [fn_fcgi i, fn_custom i, []])"

definition a_line :: "string \<Rightarrow> bool" where "a_line l \<longleftrightarrow> CHR 0x0A \<notin> set l"

definition fn_ok :: "api_fn \<Rightarrow> bool" where
  "fn_ok i \<longleftrightarrow> token (fn_name i) \<and> fn_args i = declared i @ [''ostream&''] \<and> (\<forall>a \<in> set (declared i). a \<noteq> [] \<and> a_line a)
     \<and> length (declared i) < 2 ^ 31 \<and> a_line (fn_fcgi i) \<and> a_line (fn_custom i) \<and> fn_service i = []"

lemma unlines_simps [simp]: "unlines [] = []" "unlines (l # ls) = l @ CHR 0x0A # unlines ls" "unlines (ls @ ks) = unlines ls @ unlines ks"
  by (simp_all add: unlines_def)

lemma getline_line [stream_simps]: "a_line l \<Longrightarrow> getline (istr (l @ CHR 0x0A # r)) = (l, istr r)"
  by (simp add: getline_def a_line_def takeWhile_append dropWhile_append)

lemma getline_nl [stream_simps]: "getline (istr (CHR 0x0A # r)) = ([], istr r)"
  using getline_line [of "[]" r] by (simp add: a_line_def)

text \<open>A last line without its end.\<close>

lemma getline_last: "a_line l \<Longrightarrow> \<not> good (snd (getline (istr l)))"
proof -
  assume "a_line l"
  then have "dropWhile (\<lambda>c. c \<noteq> CHR 0x0A) l = []" by (auto simp: a_line_def)
  then have "getline (istr l) = (takeWhile (\<lambda>c. c \<noteq> CHR 0x0A) l, \<lparr>ichars = [], ieof = True, ifail = takeWhile (\<lambda>c. c \<noteq> CHR 0x0A) l = []\<rparr>)"
    by (simp add: getline_def Let_def del: dropWhile_eq_Nil_conv)
  then show ?thesis by (simp add: good_def)
qed

lemma read_args_written:
  "\<forall>a \<in> set as. a \<noteq> [] \<and> a_line a \<Longrightarrow> read_args (length as) (istr (unlines as @ r)) = (as, istr r)"
  by (induction as) (simp_all add: stream_simps)

lemma read_count:
  "n < 2 ^ 31 \<Longrightarrow> read_signed 32 (istr (CHR '' '' # show_nat n @ CHR 0x0A # r)) = (Some (int n), istr (CHR 0x0A # r))"
  using read_signed_show [of 32 "int n" "CHR 0x0A" r] by (simp add: read_skip show_int_def)

text \<open>What is left before the line after the last one decides how the function is read.\<close>

lemma read_head:
  assumes "fn_ok i"
  shows "fn_from_stream junk (istr (fn_name i @ CHR '' '' # show_nat (length (declared i)) @ CHR 0x0A # unlines (declared i) @ fn_fcgi i @ CHR 0x0A # s))
    = (let (c, is) = getline (istr s) in Some (i\<lparr>fn_custom := c\<rparr>, is))"
proof -
  have n: "token (fn_name i)" "fn_name i \<noteq> []" using assms by (simp_all add: fn_ok_def token_def)
  let ?r = "CHR 0x0A # unlines (declared i) @ fn_fcgi i @ CHR 0x0A # s"
  note c = read_count [of "length (declared i)" ?r]
  show ?thesis
    using assms n read_args_written [of "declared i" "fn_fcgi i @ CHR 0x0A # s"] read_string_token [OF n(1), of "CHR '' ''"]
      getline_line [of "fn_fcgi i" s]
    by (simp add: fn_from_stream_def read_count getline_nl fn_ok_def split: prod.split)
qed

lemma read_fn:
  assumes "fn_ok i"
  shows "fn_from_stream junk (istr (fn_text i @ r)) = Some (i, istr (CHR 0x0A # r))"
  using read_head [OF assms, of junk "fn_custom i @ CHR 0x0A # CHR 0x0A # r"] assms getline_line [of "fn_custom i" "CHR 0x0A # r"]
  by (simp add: fn_text_def fn_ok_def)

lemma api_skip: "api_from_stream junk (istr (CHR 0x0A # s)) = api_from_stream junk (istr s)"
proof -
  have "fn_from_stream junk (istr (CHR 0x0A # s)) = fn_from_stream junk (istr s)"
    by (simp add: fn_from_stream_def read_skip)
  then show ?thesis by (subst (1 2) api_from_stream.simps) simp
qed

lemma api_read_app:
  "\<forall>i \<in> set fs. fn_ok i \<Longrightarrow>
   api_from_stream junk (istr (concat (map fn_text fs) @ s)) = map_option ((@) fs) (api_from_stream junk (istr s))"
proof (induction fs)
  case (Cons i fs)
  then show ?case
    using read_fn [of i junk "concat (map fn_text fs) @ s"] api_skip [of junk "concat (map fn_text fs) @ s"]
    by (subst api_from_stream.simps) (cases "api_from_stream junk (istr s)"; simp)
qed (cases "api_from_stream junk (istr s)"; simp)

lemma api_read_end: "api_from_stream junk (istr []) = Some []"
  by (subst api_from_stream.simps)
    (simp add: fn_from_stream_def read_string_def sentry_def read_signed_def read_digits_def good_def setfail_def istr_def)

section \<open>Reading\<close>

text \<open>
  Every table in the format is read back: the functions in their order, with their lines, and the stream as
  the last parameter of each.
\<close>
theorem api_table_read:
  assumes "\<forall>i \<in> set fs. fn_ok i"
  shows "api_from_stream junk (istr (concat (map fn_text fs))) = Some fs"
  using api_read_app [OF assms, of junk "[]"] by (simp add: api_read_end)

text \<open>
  When the last line of a table is not ended, the last function is lost without a message: everything the generator
  writes is as if the function were not there.
\<close>
theorem last_function_lost:
  assumes "\<forall>i \<in> set fs. fn_ok i" "fn_ok i"
    and "fn_text i = t @ endl @ endl"
  shows "api_from_stream junk (istr (concat (map fn_text fs) @ t)) = Some fs"
proof -
  have "t = fn_name i @ CHR '' '' # show_nat (length (declared i)) @ CHR 0x0A # unlines (declared i) @ fn_fcgi i @ CHR 0x0A # fn_custom i"
    using assms(3) append_same_eq [of _ "endl @ endl" t] by (simp add: fn_text_def)
  then have "fn_from_stream junk (istr t) = (let (c, is) = getline (istr (fn_custom i)) in Some (i\<lparr>fn_custom := c\<rparr>, is))"
    using read_head [OF assms(2), of junk "fn_custom i"] by simp
  moreover have "\<not> good (snd (getline (istr (fn_custom i))))" using assms(2) getline_last by (simp add: fn_ok_def)
  ultimately have "api_from_stream junk (istr t) = Some []" by (subst api_from_stream.simps) (simp add: case_prod_unfold Let_def)
  then show ?thesis using api_read_app [OF assms(1), of junk t] by simp
qed

section \<open>Coming to the end\<close>

definition java_known :: "api_fn \<Rightarrow> bool" where
  "java_known i \<longleftrightarrow> (\<forall>a \<in> set (fn_args i). lookup_java a \<noteq> None)"

lemma those_Some: "those xs \<noteq> None \<longleftrightarrow> None \<notin> set xs"
proof (induction xs)
  case (Cons x xs)
  then show ?case by (cases x) auto
qed simp

lemma those_map: "those (map f xs) \<noteq> None \<longleftrightarrow> (\<forall>x \<in> set xs. f x \<noteq> None)"
  unfolding those_Some by force

lemma those_length: "those xs = Some ys \<Longrightarrow> length ys = length xs"
proof (induction xs arbitrary: ys)
  case (Cons x xs)
  then show ?case by (cases x; cases "those xs") auto
qed simp

lemma java_types_known: "java_types i \<noteq> None \<longleftrightarrow> java_known i"
  unfolding java_types_def java_known_def those_map ..

lemma java_parts:
  assumes "fn_args i \<noteq> []"
  shows "fn_cpp_rpc_impl i \<noteq> None" "fn_java_purevir i \<noteq> None \<longleftrightarrow> java_known i"
    "fn_java_rpc_impl i \<noteq> None \<longleftrightarrow> java_known i" "fn_java_delegate t i \<noteq> None \<longleftrightarrow> java_known i"
proof -
  show "fn_cpp_rpc_impl i \<noteq> None" using assms by (simp add: fn_cpp_rpc_impl_def Let_def)
  show "fn_java_purevir i \<noteq> None \<longleftrightarrow> java_known i" "fn_java_delegate t i \<noteq> None \<longleftrightarrow> java_known i"
    by (simp_all add: fn_java_purevir_def fn_java_delegate_def flip: java_types_known)
  show "fn_java_rpc_impl i \<noteq> None \<longleftrightarrow> java_known i"
  proof (cases "java_types i")
    case (Some ts)
    then have "length ts = length (fn_args i)" using those_length by (fastforce simp: java_types_def)
    then have "ts \<noteq> []" using assms by auto
    then show ?thesis using Some java_types_known [of i] by (simp add: fn_java_rpc_impl_def Let_def)
  qed (use java_types_known [of i] in \<open>simp add: fn_java_rpc_impl_def\<close>)
qed

definition loaded :: "api_t \<Rightarrow> bool" where
  "loaded a \<longleftrightarrow> api_v a \<noteq> [] \<and> (\<forall>i \<in> set (api_fns a). fn_args i \<noteq> [])"

definition all_known :: "api_t \<Rightarrow> bool" where "all_known a \<longleftrightarrow> (\<forall>i \<in> set (api_fns a). java_known i)"

lemma each_opt: "api_each_opt g a \<noteq> None \<longleftrightarrow> (\<forall>i \<in> set (api_fns a). g i \<noteq> None)"
  using those_map [of g "api_fns a"] by (simp add: api_each_opt_def)

text \<open>The files that a type without a Java name cuts short are those in Java, apart from the constants.\<close>

definition finished :: "gen_file \<Rightarrow> bool" where "finished f \<longleftrightarrow> snd f \<noteq> None"

lemma finished_out [simp]: "finished (out_file n t) \<longleftrightarrow> t \<noteq> None"
  by (simp add: finished_def out_file_def)

lemma bodies: "loaded a \<Longrightarrow> protocol_cpp_body n a \<noteq> None \<and> protocol_java_body n a \<noteq> None
    \<and> gov_protocol_cpp_body n a \<noteq> None \<and> gov_protocol_java_body n a \<noteq> None"
  by (auto simp: loaded_def protocol_cpp_body_def protocol_java_body_def gov_protocol_cpp_body_def gov_protocol_java_body_def split: list.split)

lemma common_complete:
  assumes "loaded a"
  shows "(\<forall>f \<in> set (do_common_api a). finished f) \<longleftrightarrow> all_known a"
proof -
  have "api_each_opt (\<lambda>i. map_option (\<lambda>t. t @ endl) (fn_cpp_rpc_impl i)) a \<noteq> None"
    "api_each_opt fn_java_purevir a \<noteq> None \<longleftrightarrow> all_known a"
    "api_each_opt (\<lambda>i. map_option (\<lambda>t. t @ endl) (fn_java_rpc_impl i)) a \<noteq> None \<longleftrightarrow> all_known a"
    using assms java_parts unfolding each_opt by (auto simp: loaded_def all_known_def)
  then show ?thesis
    by (simp add: do_common_api_def gen_functions_cpp_purevir_def gen_functions_java_purevir_def gen_functions_cpp_override_def
      gen_functions_cpp_rpc_impl_def gen_functions_java_rpc_impl_def gen_cpp_service_router_def gen_cpp_service_handlers_def
      gen_cpp_service_handler_headers_def with_info_def)
qed

lemma both_Some: "both s t \<noteq> None \<longleftrightarrow> s \<noteq> None \<and> t \<noteq> None"
  by (cases s; cases t) (simp_all add: both_def)

lemma daemon_complete:
  assumes "loaded w" "loaded p"
  shows "(\<forall>f \<in> set (do_wallet_daemon w wb p pb). finished f) \<longleftrightarrow> all_known w \<and> all_known p"
proof -
  have "api_each_opt (fn_java_delegate t) a \<noteq> None \<longleftrightarrow> all_known a" if "loaded a" for t a
    using that java_parts unfolding each_opt by (auto simp: loaded_def all_known_def)
  then show ?thesis
    using assms bodies [of w wb] bodies [of p pb] both_Some
    by (auto simp: do_wallet_daemon_def gen_functions_wallet_daemon_cpp_impl_def gen_functions_wallet_daemon_java_impl_def
      gen_wallet_daemon_protocol_def gen_cpp_wallet_daemon_service_router_def gen_cpp_wallet_daemon_service_handlers_def
      gen_cpp_wallet_daemon_service_handler_headers_def with_info_def)
qed

lemma files_complete:
  assumes "loaded w" "loaded p" "loaded gid" "loaded gs"
  shows "(\<forall>f \<in> set (gen_files w p gid gs). finished f) \<longleftrightarrow> all_known w \<and> all_known p \<and> all_known gid \<and> all_known gs"
  using assms bodies common_complete daemon_complete [OF assms(1,2)]
  by (auto simp: gen_files_def do_api_def do_gov_api_def ball_Un gen_fcgi_index_cpp_def gen_protocol_def gen_gov_protocol_def)

lemma written_complete:
  "snd (written fs) \<longleftrightarrow> (\<forall>f \<in> set fs. finished f)" "snd (written fs) \<Longrightarrow> fst (written fs) = fs"
  by (induction fs rule: written.induct) (auto simp: finished_def split: prod.splits)

text \<open>What is loaded from a table in the format.\<close>

definition api_of :: "string \<Rightarrow> api_fn list \<Rightarrow> api_t" where
  "api_of nm fs = with_protocol_vector \<lparr>api_fns = fs, api_src = ''data/'' @ nm, api_name = nm, api_v = []\<rparr>"

lemma api_load_table: "\<forall>i \<in> set fs. fn_ok i \<Longrightarrow> api_load junk nm (Some (concat (map fn_text fs))) = Some (api_of nm fs)"
  using api_read_app [of fs junk "[]"] by (simp add: api_load_def api_of_def api_read_end)

lemma api_of_simps [simp]:
  "api_fns (api_of nm fs) = map (with_service nm) fs" "api_name (api_of nm fs) = nm"
  "api_v (api_of nm fs) = (nm @ ''_base'') # map (\<lambda>i. nm @ ''_'' @ fn_name i) fs"
  by (simp_all add: api_of_def with_protocol_vector_def with_service_def comp_def)

lemma loaded_api: "\<forall>i \<in> set fs. fn_ok i \<Longrightarrow> loaded (api_of nm fs)"
  by (auto simp: loaded_def with_service_def fn_ok_def)

lemma all_known_api: "all_known (api_of nm fs) \<longleftrightarrow> (\<forall>i \<in> set fs. java_known i)"
  by (simp add: all_known_def java_known_def with_service_def)

lemmas file_defs =
  gen_files_def do_api_def do_gov_api_def do_common_api_def do_wallet_daemon_def gen_functions_cpp_purevir_def
  gen_functions_java_purevir_def gen_functions_cpp_override_def gen_functions_cpp_rpc_impl_def gen_functions_java_rpc_impl_def
  gen_cpp_service_router_def gen_cpp_service_handlers_def gen_cpp_service_handler_headers_def
  gen_functions_wallet_daemon_cpp_impl_def gen_functions_wallet_daemon_java_impl_def gen_wallet_daemon_protocol_def
  gen_cpp_wallet_daemon_service_router_def gen_cpp_wallet_daemon_service_handlers_def
  gen_cpp_wallet_daemon_service_handler_headers_def gen_fcgi_index_cpp_def gen_protocol_def gen_gov_protocol_def out_file_def

lemma files_distinct:
  "distinct (map fst (gen_files (api_of ''wallet'' w) (api_of ''pairing'' p) (api_of ''gov_id'' i) (api_of ''gov_socket'' s)))
   \<and> length (gen_files (api_of ''wallet'' w) (api_of ''pairing'' p) (api_of ''gov_id'' i) (api_of ''gov_socket'' s)) = 49"
  by (simp add: file_defs)

definition table_names :: "string set" where "table_names = {''wallet'', ''pairing'', ''gov_id'', ''gov_socket''}"

text \<open>
  C35. With tables in the format, the generator comes to its end exactly when every type of an argument has a
  Java name. Then it has written 49 complete files, all under different names.
\<close>
theorem generator_completes:
  assumes "\<forall>n \<in> table_names. dir n = Some (concat (map fn_text (T n))) \<and> (\<forall>i \<in> set (T n). fn_ok i)"
  shows "\<exists>fs b. gen_main junk dir = Some (fs, b) \<and> (b \<longleftrightarrow> (\<forall>n \<in> table_names. \<forall>i \<in> set (T n). java_known i))
    \<and> (b \<longrightarrow> length fs = 49 \<and> distinct (map fst fs) \<and> (\<forall>f \<in> set fs. finished f))"
proof -
  let ?fs = "gen_files (api_of ''wallet'' (T ''wallet'')) (api_of ''pairing'' (T ''pairing''))
    (api_of ''gov_id'' (T ''gov_id'')) (api_of ''gov_socket'' (T ''gov_socket''))"
  have t: "dir n = Some (concat (map fn_text (T n)))" "\<forall>i \<in> set (T n). fn_ok i" if "n \<in> table_names" for n
    using assms that by blast+
  have n: "''wallet'' \<in> table_names" "''pairing'' \<in> table_names" "''gov_id'' \<in> table_names" "''gov_socket'' \<in> table_names"
    by (simp_all add: table_names_def)
  obtain fs b where w: "written ?fs = (fs, b)" by (cases "written ?fs")
  have "gen_main junk dir = Some (fs, b)"
    unfolding gen_main_def t(1) [OF n(1)] t(1) [OF n(2)] t(1) [OF n(3)] t(1) [OF n(4)]
      api_load_table [OF t(2) [OF n(1)]] api_load_table [OF t(2) [OF n(2)]] api_load_table [OF t(2) [OF n(3)]]
      api_load_table [OF t(2) [OF n(4)]] using w by simp
  moreover have c: "b \<longleftrightarrow> (\<forall>f \<in> set ?fs. finished f)" using written_complete(1) [of ?fs] unfolding w by simp
  moreover have "(\<forall>f \<in> set ?fs. finished f) \<longleftrightarrow> (\<forall>n \<in> table_names. \<forall>i \<in> set (T n). java_known i)"
    unfolding files_complete [OF loaded_api loaded_api loaded_api loaded_api, OF t(2) t(2) t(2) t(2), OF n]
      all_known_api by (auto simp: table_names_def)
  moreover have "b \<Longrightarrow> fs = ?fs" using written_complete(2) [of ?fs] unfolding w by simp
  ultimately show ?thesis using files_distinct by blast
qed

section \<open>The tables of the repository\<close>

abbreviation api_fn_of :: "string \<Rightarrow> string list \<Rightarrow> string \<Rightarrow> string \<Rightarrow> api_fn" where
  "api_fn_of nm as f c \<equiv> \<lparr>fn_args = as @ [''ostream&''], fn_name = nm, fn_fcgi = f, fn_service = [], fn_custom = c\<rparr>"

definition wallet_fns :: "api_fn list" where
  "wallet_fns =
    [api_fn_of ''balance'' [''bool''] ''cmd=balance&detailed=&lt;1|0&gt;'' ''-'',
     api_fn_of ''list'' [''bool''] ''cmd=list&show_priv_keys=&lt;1|0&gt;'' ''-'',
     api_fn_of ''new_address'' [] ''cmd=new_address'' ''-'',
     api_fn_of ''add_address'' [''const priv_t&''] ''cmd=add_address&privkey=b58'' ''-'',
     api_fn_of ''transfer'' [''const hash_t&'', ''const cash_t&''] ''cmd=transfer&recipient=addressb58&amount='' ''-'',
     api_fn_of ''tx_make_p2pkh'' [''const tx_make_p2pkh_input&''] ''-'' ''-'',
     api_fn_of ''tx_sign'' [''const string&'', ''sigcode_t'', ''sigcode_t''] ''-'' ''-'',
     api_fn_of ''tx_send'' [''const string&''] ''-'' ''-'',
     api_fn_of ''tx_decode'' [''const string&''] ''-'' ''-'',
     api_fn_of ''tx_check'' [''const string&''] ''-'' ''-'',
     api_fn_of ''ping'' [] ''cmd=ping'' ''    ask_ping(a0);'']"

definition pairing_fns :: "api_fn list" where
  "pairing_fns =
    [api_fn_of ''pair'' [''const pub_t&'', ''const string&''] ''cmd=pair&device=pubkeyB58&name='' ''-'',
     api_fn_of ''unpair'' [''const pub_t&''] ''cmd=unpair&device=pubkeyB58&name='' ''-'',
     api_fn_of ''list_devices'' [] ''cmd=list_devices'' ''-'']"

definition gov_id_fns :: "api_fn list" where
  "gov_id_fns = map (\<lambda>nm. api_fn_of nm [] ''-'' ''-'') [''request'', ''peer_challenge'', ''challenge_response'']"

definition gov_socket_fns :: "api_fn list" where
  "gov_socket_fns = map (\<lambda>nm. api_fn_of nm [] ''-'' ''-'') [''error'', ''ping'', ''pong'']"

definition repo_fns :: "string \<Rightarrow> api_fn list" where
  "repo_fns n = the (map_of [(''wallet'', wallet_fns), (''pairing'', pairing_fns), (''gov_id'', gov_id_fns), (''gov_socket'', gov_socket_fns)] n)"

lemma repo_fns_simps [simp]:
  "repo_fns ''wallet'' = wallet_fns" "repo_fns ''pairing'' = pairing_fns" "repo_fns ''gov_id'' = gov_id_fns" "repo_fns ''gov_socket'' = gov_socket_fns"
  by (simp_all add: repo_fns_def)

lemma show_counts: "show_nat 0 = ''0''" "show_nat (Suc 0) = ''1''" "show_nat (Suc (Suc 0)) = ''2''" "show_nat (Suc (Suc (Suc 0))) = ''3''"
  by code_simp+

lemma repo_texts:
  "data_wallet = concat (map fn_text wallet_fns)" "data_pairing = concat (map fn_text pairing_fns)"
  "data_gov_id = concat (map fn_text gov_id_fns)" "data_gov_socket = concat (map fn_text gov_socket_fns)"
  by (simp_all add: data_wallet_def data_pairing_def data_gov_id_def data_gov_socket_def wallet_fns_def pairing_fns_def gov_id_fns_def
    gov_socket_fns_def fn_text_def declared_def show_counts)

lemma repo_ok: "n \<in> table_names \<Longrightarrow> i \<in> set (repo_fns n) \<Longrightarrow> fn_ok i \<and> java_known i"
  by (auto simp: table_names_def wallet_fns_def pairing_fns_def gov_id_fns_def gov_socket_fns_def fn_ok_def declared_def token_def
    isspace_def a_line_def java_known_def lookup_java_def)

lemma generator_completes_witness:
  "\<exists>fs. gen_main 0 data_dir = Some (fs, True) \<and> length fs = 49"
proof -
  have "\<forall>n \<in> table_names. data_dir n = Some (concat (map fn_text (repo_fns n))) \<and> (\<forall>i \<in> set (repo_fns n). fn_ok i)"
    using repo_ok repo_texts by (auto simp: table_names_def data_dir_def)
  then obtain fs b where "gen_main 0 data_dir = Some (fs, b)" "b \<longleftrightarrow> (\<forall>n \<in> table_names. \<forall>i \<in> set (repo_fns n). java_known i)"
      "b \<longrightarrow> length fs = 49" using generator_completes by blast
  moreover have "\<forall>n \<in> table_names. \<forall>i \<in> set (repo_fns n). java_known i" using repo_ok by blast
  ultimately show ?thesis by simp
qed

lemma api_table_read_witness:
  "api_from_stream 0 (istr (''pair 2'' @ endl @ ''const pub_t&'' @ endl @ ''const string&'' @ endl @ ''-'' @ endl @ ''-'' @ endl @ endl))
    = Some [api_fn_of ''pair'' [''const pub_t&'', ''const string&''] ''-'' ''-'']"
  using api_table_read [of "[api_fn_of ''pair'' [''const pub_t&'', ''const string&''] ''-'' ''-'']" 0]
  by (simp add: fn_ok_def declared_def token_def isspace_def a_line_def fn_text_def show_counts)

lemma last_function_lost_witness:
  "api_from_stream 0 (istr (''ping 0'' @ endl @ ''-'' @ endl @ ''-'' @ endl @ endl @ ''pong 0'' @ endl @ ''-'' @ endl @ ''-''))
    = Some [api_fn_of ''ping'' [] ''-'' ''-'']"
  using last_function_lost [of "[api_fn_of ''ping'' [] ''-'' ''-'']" "api_fn_of ''pong'' [] ''-'' ''-''" "''pong 0'' @ endl @ ''-'' @ endl @ ''-''" 0]
  by (simp add: fn_ok_def declared_def token_def isspace_def a_line_def fn_text_def show_counts)

end
