(* ===== verification/Api_Services.thy ===== *)
theory Api_Services
  imports Api_Tables
begin

text \<open>
  The service numbers that the generator of \<open>src/api\<close> writes: what the declarations of constants in its C++ files
  mean to a compiler, and that the numbers of different services are different.
\<close>

section \<open>Declarations of constants\<close>

datatype const_expr = Number int | Plus string nat | Shifted string nat

definition render :: "string \<times> const_expr \<Rightarrow> string" where
  "render d = ''    static constexpr uint16_t '' @ fst d
     @ (case snd d of
          Number n \<Rightarrow> ''{'' @ show_int n @ ''};''
        | Plus b k \<Rightarrow> ''{'' @ b @ ''+'' @ show_nat k @ ''};''
        | Shifted b k \<Rightarrow> ''{(('' @ b @ ''+'' @ show_nat k @ '')<<2)+protocol_suffix};'') @ endl"

text \<open>
  The value of the initialiser, computed as \<open>int\<close>; an undeclared name, a name declared twice and a value that does
  not fit the type are errors of compilation.
\<close>

fun const_value :: "(string \<rightharpoonup> nat) \<Rightarrow> const_expr \<Rightarrow> int option" where
  "const_value m (Number n) = Some n"
| "const_value m (Plus b k) = map_option (\<lambda>x. int x + int k) (m b)"
| "const_value m (Shifted b k) = map_option (\<lambda>x. (int x + int k) * 4 + int (unat protocol_suffix)) (m b)"

fun compile :: "(string \<times> const_expr) list \<Rightarrow> (string \<rightharpoonup> nat) \<Rightarrow> (string \<rightharpoonup> nat) option" where
  "compile [] m = Some m"
| "compile ((v, e) # ds) m =
     (case const_value m e of
        None \<Rightarrow> None
      | Some x \<Rightarrow> if m v \<noteq> None \<or> x < 0 \<or> 65535 < x then None else compile ds (m(v \<mapsto> nat x)))"

definition protocol_decls :: "nat \<Rightarrow> api_t \<Rightarrow> (string \<times> const_expr) list" where
  "protocol_decls nbase a =
     (hd (api_v a), Number (int nbase)) # map (\<lambda>(k, v). (v, Plus (hd (api_v a)) (2 * k))) (enumerate 0 (tl (api_v a)))"

definition gov_decls :: "nat \<Rightarrow> api_t \<Rightarrow> (string \<times> const_expr) list" where
  "gov_decls nbase a =
     (hd (api_v a), Number (int nbase)) # map (\<lambda>(k, v). (v, Shifted (hd (api_v a)) k)) (enumerate 0 (tl (api_v a)))"

text \<open>The bodies that the generator writes are these declarations.\<close>

lemma protocol_cpp_text:
  "api_v a \<noteq> [] \<Longrightarrow> protocol_cpp_body (int nbase) a = Some (api_info a @ concat (map render (protocol_decls nbase a)))"
  by (cases "api_v a") (simp_all add: protocol_cpp_body_def protocol_decls_def render_def comp_def split_def)

lemma gov_protocol_cpp_text:
  "api_v a \<noteq> [] \<Longrightarrow> gov_protocol_cpp_body (int nbase) a = Some (api_info a @ concat (map render (gov_decls nbase a)))"
  by (cases "api_v a") (simp_all add: gov_protocol_cpp_body_def gov_decls_def render_def comp_def split_def)

section \<open>What they declare\<close>

lemma compile_append: "compile (ds @ es) m = (case compile ds m of None \<Rightarrow> None | Some m \<Rightarrow> compile es m)"
proof (induction ds arbitrary: m)
  case (Cons d ds)
  show ?case by (cases d) (auto simp: Cons.IH simp del: fun_upd_apply split: option.split)
qed simp

text \<open>Constants that all depend on one declared before.\<close>

lemma compile_offsets:
  assumes "m b = Some x" "\<And>k v. f (k, v) = (v, e k)" "\<And>m k. m b = Some x \<Longrightarrow> const_value m (e k) = Some (int (g k))"
    and "distinct vs" "\<forall>v \<in> set vs. m v = None" "\<forall>k < n + length vs. g k < 65536"
  shows "\<exists>m'. compile (map f (enumerate n vs)) m = Some m' \<and> (\<forall>v. v \<notin> set vs \<longrightarrow> m' v = m v) \<and> (\<forall>k < length vs. m' (vs ! k) = Some (g (n + k)))"
  using assms(1,4-)
proof (induction vs arbitrary: m n)
  case (Cons v vs)
  let ?m = "m(v \<mapsto> g n)"
  have b: "b \<noteq> v" using Cons.prems(1,3) by auto
  have g: "g n < 65536" "\<forall>k < Suc n + length vs. g k < 65536" using Cons.prems(4) by simp_all
  have p: "?m b = Some x" "distinct vs" "\<forall>u \<in> set vs. ?m u = None" using Cons.prems(1-3) b by auto
  obtain m' where m': "compile (map f (enumerate (Suc n) vs)) ?m = Some m'" "\<forall>u. u \<notin> set vs \<longrightarrow> m' u = ?m u"
      "\<forall>k < length vs. m' (vs ! k) = Some (g (Suc n + k))"
    using Cons.IH [OF p g(2)] by blast
  have "compile (map f (enumerate n (v # vs))) m = Some m'"
    using m'(1) g(1) assms(3) [where m = m and k = n, OF Cons.prems(1)] Cons.prems(3) by (simp add: assms(2))
  moreover have "\<forall>k < length (v # vs). m' ((v # vs) ! k) = Some (g (n + k))"
    using m'(2,3) Cons.prems(2) by (auto simp: less_Suc_eq_0_disj)
  ultimately show ?case using m'(2) by auto
qed auto

definition numbers :: "(string \<rightharpoonup> nat) \<Rightarrow> api_t \<Rightarrow> (nat \<Rightarrow> nat) \<Rightarrow> bool" where
  "numbers m a g \<longleftrightarrow> (\<forall>k < length (tl (api_v a)). m (tl (api_v a) ! k) = Some (g k))"

lemma compile_protocol:
  assumes "api_v a \<noteq> []" "distinct (api_v a)" "\<forall>v \<in> set (api_v a). m v = None" "nbase + 2 * length (api_v a) < 65536"
  shows "\<exists>m'. compile (protocol_decls nbase a) m = Some m' \<and> (\<forall>v. v \<notin> set (api_v a) \<longrightarrow> m' v = m v) \<and> numbers m' a (\<lambda>k. nbase + 2 * k)"
proof -
  obtain b vs where v: "api_v a = b # vs" using assms(1) by (cases "api_v a") auto
  let ?m = "m(b \<mapsto> nbase)"
  have d: "distinct vs" "\<forall>v \<in> set vs. ?m v = None" "\<forall>k < 0 + length vs. nbase + 2 * k < 65536" using assms(2-4) v by auto
  note c = compile_offsets [where m = ?m and b = b and x = nbase and f = "\<lambda>(k, v). (v, Plus b (2 * k))" and e = "\<lambda>k. Plus b (2 * k)"
      and g = "\<lambda>k. nbase + 2 * k" and n = 0, OF _ _ _ d]
  show ?thesis using c assms(3,4) v by (auto simp: protocol_decls_def numbers_def)
qed

lemma compile_gov:
  assumes "api_v a \<noteq> []" "distinct (api_v a)" "\<forall>v \<in> set (api_v a). m v = None" "4 * (nbase + length (api_v a)) < 65536"
  shows "\<exists>m'. compile (gov_decls nbase a) m = Some m' \<and> (\<forall>v. v \<notin> set (api_v a) \<longrightarrow> m' v = m v) \<and> numbers m' a (\<lambda>k. 4 * (nbase + k))"
proof -
  obtain b vs where v: "api_v a = b # vs" using assms(1) by (cases "api_v a") auto
  let ?m = "m(b \<mapsto> nbase)"
  have d: "distinct vs" "\<forall>v \<in> set vs. ?m v = None" "\<forall>k < 0 + length vs. 4 * (nbase + k) < 65536" using assms(2-4) v by auto
  note c = compile_offsets [where m = ?m and b = b and x = nbase and f = "\<lambda>(k, v). (v, Shifted b k)" and e = "\<lambda>k. Shifted b k"
      and g = "\<lambda>k. 4 * (nbase + k)" and n = 0, OF _ _ _ d]
  show ?thesis using c assms(3,4) v by (auto simp: gov_decls_def numbers_def protocol_suffix_def)
qed

section \<open>Requests and answers\<close>

text \<open>The answer to a request has the next number (\<open>send_response\<close> of \<open>src/wallet/daemon.cpp\<close>).\<close>

definition with_answers :: "nat list \<Rightarrow> nat list" where
  "with_answers xs = concat (map (\<lambda>x. [x, Suc x]) xs)"

lemma with_answers_distinct: "distinct xs \<Longrightarrow> \<forall>x \<in> set xs. Suc x \<notin> set xs \<Longrightarrow> distinct (with_answers xs)"
  unfolding with_answers_def by (induction xs) auto

definition requests :: "(string \<rightharpoonup> nat) \<Rightarrow> api_t \<Rightarrow> nat list" where
  "requests m a = map (\<lambda>v. the (m v)) (tl (api_v a))"

lemma requests_numbers: "numbers m a g \<Longrightarrow> requests m a = map g [0..<length (tl (api_v a))]"
  by (intro nth_equalityI) (simp_all add: requests_def numbers_def)

lemma requests_apart:
  assumes "wb + 2 * n \<le> pb"
  shows "distinct (with_answers (map (\<lambda>k. wb + 2 * k) [0..<n] @ map (\<lambda>k. pb + 2 * k) [0..<l]))"
proof (rule with_answers_distinct)
  show "distinct (map (\<lambda>k. wb + 2 * k) [0..<n] @ map (\<lambda>k. pb + 2 * k) [0..<l])"
    using assms by (auto simp: distinct_map inj_on_def)
  have "Suc (wb + 2 * i) \<noteq> wb + 2 * j" "Suc (pb + 2 * i) \<noteq> pb + 2 * j" for i j by presburger+
  moreover have "Suc (wb + 2 * i) \<noteq> pb + 2 * j" "Suc (pb + 2 * j) \<noteq> wb + 2 * i" if "i < n" for i j using assms that by linarith+
  ultimately show "\<forall>x \<in> set (map (\<lambda>k. wb + 2 * k) [0..<n] @ map (\<lambda>k. pb + 2 * k) [0..<l]).
      Suc x \<notin> set (map (\<lambda>k. wb + 2 * k) [0..<n] @ map (\<lambda>k. pb + 2 * k) [0..<l])"
    by auto
qed

text \<open>
  The constants that the generator writes for a daemon with two interfaces compile, the request for the k-th function
  of an interface is its base plus 2k, and all the requests and answers of both interfaces have different numbers: if
  the names are different and the second base lies beyond the first interface.
\<close>
theorem daemon_services_apart:
  assumes "api_v w \<noteq> []" "api_v p \<noteq> []" "distinct (api_v w @ api_v p)"
    and "wb + 2 * length (api_v w) \<le> pb" "pb + 2 * length (api_v p) < 65536"
  shows "gen_wallet_daemon_protocol w (int wb) p (int pb) ! 0 = out_file ''protocol_wallet-daemon_cpp''
      (Some (api_info w @ concat (map render (protocol_decls wb w)) @ api_info p @ concat (map render (protocol_decls pb p))))
    \<and> (\<exists>m. compile (protocol_decls wb w @ protocol_decls pb p) Map.empty = Some m
        \<and> numbers m w (\<lambda>k. wb + 2 * k) \<and> numbers m p (\<lambda>k. pb + 2 * k) \<and> distinct (with_answers (requests m w @ requests m p)))"
proof -
  obtain m1 where m1: "compile (protocol_decls wb w) Map.empty = Some m1" "\<forall>v. v \<notin> set (api_v w) \<longrightarrow> m1 v = None" "numbers m1 w (\<lambda>k. wb + 2 * k)"
    using compile_protocol [of w Map.empty wb] assms by auto
  have fr: "\<forall>v \<in> set (api_v p). m1 v = None" using assms(3) m1(2) by auto
  obtain m where m: "compile (protocol_decls pb p) m1 = Some m" "\<forall>v. v \<notin> set (api_v p) \<longrightarrow> m v = m1 v" "numbers m p (\<lambda>k. pb + 2 * k)"
    using compile_protocol [OF assms(2) _ fr, of pb] assms(3,5) by auto
  have "tl (api_v w) ! k \<notin> set (api_v p)" if "k < length (tl (api_v w))" for k
    using assms(3) nth_mem [OF that] list.set_sel(2) [OF assms(1)] by (metis IntI distinct_append empty_iff)
  then have nw: "numbers m w (\<lambda>k. wb + 2 * k)" using m1(3) m(2) by (simp add: numbers_def)
  have "wb + 2 * length (tl (api_v w)) \<le> pb" using assms(4) by simp
  then have "distinct (with_answers (requests m w @ requests m p))"
    unfolding requests_numbers [OF nw] requests_numbers [OF m(3)] by (rule requests_apart)
  then show ?thesis
    using m1(1) m(1,3) nw protocol_cpp_text [OF assms(1), of wb] protocol_cpp_text [OF assms(2), of pb]
    by (simp add: compile_append gen_wallet_daemon_protocol_def both_def)
qed

text \<open>The daemon of the wallet: eleven functions from 0, and three from 100.\<close>

lemma wallet_names:
  "api_v (api_of ''wallet'' wallet_fns) = map (\<lambda>n. ''wallet_'' @ n) [''base'', ''balance'', ''list'', ''new_address'', ''add_address'',
     ''transfer'', ''tx_make_p2pkh'', ''tx_sign'', ''tx_send'', ''tx_decode'', ''tx_check'', ''ping'']"
  "api_v (api_of ''pairing'' pairing_fns) = map (\<lambda>n. ''pairing_'' @ n) [''base'', ''pair'', ''unpair'', ''list_devices'']"
  by (simp_all add: wallet_fns_def pairing_fns_def)

lemma gov_names:
  "api_v (api_of ''gov_socket'' gov_socket_fns) = map (\<lambda>n. ''gov_socket_'' @ n) [''base'', ''error'', ''ping'', ''pong'']"
  "api_v (api_of ''gov_id'' gov_id_fns) = map (\<lambda>n. ''gov_id_'' @ n) [''base'', ''request'', ''peer_challenge'', ''challenge_response'']"
  by (simp_all add: gov_socket_fns_def gov_id_fns_def)

lemma daemon_services_apart_witness:
  "\<exists>m. compile (protocol_decls 0 (api_of ''wallet'' wallet_fns) @ protocol_decls 100 (api_of ''pairing'' pairing_fns)) Map.empty = Some m
    \<and> m ''wallet_balance'' = Some 0 \<and> m ''wallet_transfer'' = Some 8 \<and> m ''pairing_unpair'' = Some 102"
proof -
  have "distinct (api_v (api_of ''wallet'' wallet_fns) @ api_v (api_of ''pairing'' pairing_fns))" unfolding wallet_names by simp
  then obtain m where "compile (protocol_decls 0 (api_of ''wallet'' wallet_fns) @ protocol_decls 100 (api_of ''pairing'' pairing_fns)) Map.empty = Some m"
      "numbers m (api_of ''wallet'' wallet_fns) (\<lambda>k. 0 + 2 * k)" "numbers m (api_of ''pairing'' pairing_fns) (\<lambda>k. 100 + 2 * k)"
    using daemon_services_apart [of "api_of ''wallet'' wallet_fns" "api_of ''pairing'' pairing_fns" 0 100] unfolding wallet_names by auto
  then show ?thesis unfolding numbers_def wallet_names by (simp add: All_less_Suc numeral_eq_Suc)
qed

text \<open>
  The numbers that the generator writes for the two lowest layers of the node, with those that the headers of the other layers
  declare: all compile, all are different, and the generated ones are of the class that the node itself handles.
\<close>
theorem gov_services_apart:
  "\<exists>m. compile (gov_decls 100 (api_of ''gov_socket'' gov_socket_fns) @ gov_decls 200 (api_of ''gov_id'' gov_id_fns)) Map.empty = Some m
    \<and> (let generated = map (\<lambda>v. word_of_nat (the (m v))) [''gov_socket_error'', ''gov_socket_ping'', ''gov_socket_pong'', ''gov_id_request'',
          ''gov_id_peer_challenge'', ''gov_id_challenge_response'']
       in distinct (generated @ services) \<and> list_all is_node_protocol generated)"
proof -
  let ?s = "api_of ''gov_socket'' gov_socket_fns" and ?i = "api_of ''gov_id'' gov_id_fns"
  obtain m1 where m1: "compile (gov_decls 100 ?s) Map.empty = Some m1" "\<forall>v. v \<notin> set (api_v ?s) \<longrightarrow> m1 v = None" "numbers m1 ?s (\<lambda>k. 4 * (100 + k))"
    using compile_gov [of ?s Map.empty 100] unfolding gov_names by auto
  have "\<forall>v \<in> set (api_v ?i). m1 v = None" using m1(2) unfolding gov_names by simp
  then obtain m where m: "compile (gov_decls 200 ?i) m1 = Some m" "\<forall>v. v \<notin> set (api_v ?i) \<longrightarrow> m v = m1 v" "numbers m ?i (\<lambda>k. 4 * (200 + k))"
    using compile_gov [of ?i m1 200] unfolding gov_names by auto
  have "m ''gov_socket_error'' = Some 400" "m ''gov_socket_ping'' = Some 404" "m ''gov_socket_pong'' = Some 408"
    using m(2) m1(3) unfolding numbers_def gov_names by (simp_all add: All_less_Suc numeral_3_eq_3)
  moreover have "m ''gov_id_request'' = Some 800" "m ''gov_id_peer_challenge'' = Some 804" "m ''gov_id_challenge_response'' = Some 808"
    using m(3) unfolding numbers_def gov_names by (simp_all add: All_less_Suc numeral_3_eq_3)
  moreover have "distinct ([400, 404, 408, 800, 804, 808] @ services)" "list_all is_node_protocol [400, 404, 408, 800, 804, 808]"
    by (simp_all add: services_def service_defs push_bit_eq_mult)
  ultimately show ?thesis using m1(1) m(1) by (simp add: compile_append Let_def)
qed

end
