(* ===== verification/Wallet_Api.thy ===== *)
theory Wallet_Api
  imports Wallet_File Pairing Identity Api_Services
begin

text \<open>
  The commands of the wallet, \<open>src/wallet/wallet_local_api.cpp\<close> and \<open>pairing_local_api.cpp\<close>, the daemon that serves them to
  paired devices, \<open>daemon.cpp\<close> with \<open>peer_t.h\<close>, and the client that calls them over a connection, \<open>rpc_api.cpp\<close>,
  \<open>wallet_rpc_api.cpp\<close> and \<open>pairing_rpc_api.cpp\<close> with the stubs that the generator of \<open>src/api\<close> writes.

  A command prints a text and changes the wallet or the table of devices; \<open>None\<close> is the end of the process. What
  comes from outside during a command is its environment: the connection to the node (a text when it cannot be
  established), the answers of the node, the time, the entropy, and the contents of uninitialised variables.
\<close>

section \<open>Listings\<close>

definition extended_balance :: "wallet \<Rightarrow> string" where
  "extended_balance w = concat (map (\<lambda>(a, x). show_hash a @ '' '' @ show_hash (locking_program x) @ '' '' @ show_int (box x) @ endl) (wdata w))"

definition dump_balances :: "wallet \<Rightarrow> string" where
  "dump_balances w = ''[address] [locking_program] [balance]'' @ endl @ extended_balance w
     @ ''total balance: '' @ show_int (wallet_balance w) @ endl"

definition key_line :: "secp \<Rightarrow> bool \<Rightarrow> nat \<times> hash_t \<times> keys_t \<Rightarrow> string" where
  "key_line lib showpriv = (\<lambda>(n, h, k). ''#'' @ show_nat n @ '': '' @ (if showpriv then show_priv (priv k) @ '' '' else [])
     @ show_pub lib (pub k) @ '' '' @ show_hash h @ endl)"

definition wallet_dump :: "secp \<Rightarrow> wallet \<Rightarrow> string" where
  "wallet_dump lib w = ''[private Key] [public key] [address]'' @ endl @ concat (map (key_line lib True) (enumerate 0 (wkeys w)))"

definition wallet_list :: "secp \<Rightarrow> bool \<Rightarrow> wallet \<Rightarrow> string" where
  "wallet_list lib showpriv w = ''#: '' @ (if showpriv then ''[private Key] '' else []) @ ''[public key] [address]'' @ endl
     @ concat (map (key_line lib showpriv) (enumerate 0 (wkeys w))) @ show_nat (length (wkeys w)) @ '' keys''"

definition input_pretty :: "nat \<times> input_t \<Rightarrow> string" where
  "input_pretty = (\<lambda>(n, i). ''  --input #'' @ show_nat n @ endl @ ''    address: '' @ show_hash (iaddress i) @ endl
     @ ''    withdraw: '' @ show_int (iamount i) @ endl @ ''    unlock with: '' @ locking_program_input i @ endl)"

definition output_pretty :: "nat \<times> output_t \<Rightarrow> string" where
  "output_pretty = (\<lambda>(n, p). ''  --output #'' @ show_nat n @ endl @ ''    address: '' @ show_hash (oaddress p) @ endl
     @ ''    amount: '' @ show_int (oamount p) @ endl @ ''    locking_program: '' @ show_hash (olocking_program p) @ endl)"

definition tx_pretty :: "tx \<Rightarrow> string" where
  "tx_pretty t = ''---transaction---------------'' @ endl @ ''  timestamp: '' @ show_nat (unat (ts t)) @ endl
     @ ''  -----'' @ show_nat (length (inputs t)) @ '' inputs-------'' @ endl @ concat (map input_pretty (enumerate 0 (inputs t)))
     @ ''  -----'' @ show_nat (length (outputs t)) @ '' outputs-------'' @ endl @ concat (map output_pretty (enumerate 0 (outputs t)))
     @ ''-/-transaction---------------'' @ endl"

section \<open>The commands\<close>

record api_env =
  a_wallet :: wallet_env
  a_pair :: pairing_env
  a_connect :: string
  a_node :: backend
  a_now :: u64
  a_entropy :: "byte list option"
  a_jbool :: bool
  a_jcash :: int
  a_jint :: int
  a_jinput :: p2pkh_input

record local_api =
  la_wallet :: wallet
  la_devices :: devices

datatype call =
  Balance bool | List bool | New_Address | Add_Address "byte list" | Transfer hash_t int | Make_P2pkh p2pkh_input
| Sign string sigcode sigcode | Send string | Decode string | Check string | Ping
| Pair_Device pub_t string | Unpair_Device pub_t | List_Devices

definition connect_backend :: "api_env \<Rightarrow> bool \<times> string" where
  "connect_backend e = (if a_connect e = [] then (True, []) else (False, ''Error. '' @ a_connect e))"

definition la_balance :: "api_env \<Rightarrow> bool \<Rightarrow> wallet \<Rightarrow> (string \<times> wallet) option" where
  "la_balance e detailed w =
     (case connect_backend e of
        (False, s) \<Rightarrow> Some (s, w)
      | (True, _) \<Rightarrow>
          (case refresh (a_wallet e) (a_node e) w of
             None \<Rightarrow> None
           | Some (r, w) \<Rightarrow>
               Some (if r \<noteq> [] then r else if detailed then extended_balance w else show_int (wallet_balance w), w)))"

definition la_new_address :: "api_env \<Rightarrow> wallet \<Rightarrow> (string \<times> wallet) option" where
  "la_new_address e w = map_option (\<lambda>(h, w). (show_hash h, w)) (new_address (a_wallet e) (a_entropy e) w)"

definition la_add_address :: "api_env \<Rightarrow> byte list \<Rightarrow> wallet \<Rightarrow> string \<times> wallet" where
  "la_add_address e k w = (let (h, w) = add_address (a_wallet e) k w in (show_hash h, w))"

definition print_tx :: "string + tx \<Rightarrow> string" where
  "print_tx r = (case r of Inl s \<Rightarrow> s | Inr t \<Rightarrow> tx_to_b58 t)"

definition la_tx_make_p2pkh :: "api_env \<Rightarrow> p2pkh_input \<Rightarrow> wallet \<Rightarrow> (string \<times> wallet) option" where
  "la_tx_make_p2pkh e i w =
     (case connect_backend e of
        (False, s) \<Rightarrow> Some (s, w)
      | (True, _) \<Rightarrow> map_option (\<lambda>(r, w). (print_tx r, w)) (tx_make_p2pkh (a_wallet e) (a_node e) (a_now e) i w))"

definition la_transfer :: "api_env \<Rightarrow> hash_t \<Rightarrow> int \<Rightarrow> wallet \<Rightarrow> (string \<times> wallet) option" where
  "la_transfer e addr amount w = la_tx_make_p2pkh e
     \<lparr>rcpt_addr = addr, pay_amount = amount, pay_fee = 1, sigcode_inputs = sigcode_all, sigcode_outputs = sigcode_all, sendover = True\<rparr> w"

definition la_tx_sign :: "api_env \<Rightarrow> string \<Rightarrow> sigcode \<Rightarrow> sigcode \<Rightarrow> wallet \<Rightarrow> string option" where
  "la_tx_sign e txb58 sci sco w =
     (case connect_backend e of
        (False, s) \<Rightarrow> Some s
      | (True, _) \<Rightarrow> map_option print_tx (tx_sign (a_wallet e) (a_node e) txb58 sci sco w))"

definition decode_tx :: "api_env \<Rightarrow> string \<Rightarrow> string + tx" where
  "decode_tx e txb58 = tx_from_b58 (fst (e_jtx (w_env (a_wallet e)))) (snd (e_jtx (w_env (a_wallet e)))) txb58"

definition la_tx_send :: "api_env \<Rightarrow> string \<Rightarrow> string option" where
  "la_tx_send e txb58 =
     (case connect_backend e of
        (False, s) \<Rightarrow> Some s
      | (True, _) \<Rightarrow>
          (case decode_tx e txb58 of
             Inl r \<Rightarrow> Some r
           | Inr t \<Rightarrow> map_option (\<lambda>r. if r \<noteq> [] then r else ''Successfully sent :)'') (wallet_send (a_node e) t)))"

definition la_tx_decode :: "api_env \<Rightarrow> string \<Rightarrow> string" where
  "la_tx_decode e txb58 = (case decode_tx e txb58 of Inl r \<Rightarrow> r | Inr t \<Rightarrow> tx_pretty t)"

text \<open>The message of success is printed under the condition of the failure.\<close>

definition la_tx_check :: "api_env \<Rightarrow> string \<Rightarrow> string" where
  "la_tx_check e txb58 =
     (case decode_tx e txb58 of
        Inl r \<Rightarrow> ''Cannot decode base58''
      | Inr t \<Rightarrow>
          (let fail = tx_check t \<le> 0
           in (if fail then ''Individual inputs and fees must be positive.'' else [])
              @ (if fail then ''This transaction looks ok.'' else [])))"

definition gov_socket_ping :: u16 where "gov_socket_ping = push_bit 2 (100 + 1) + protocol_suffix"

definition la_ping :: "api_env \<Rightarrow> string option" where
  "la_ping e = map_option (\<lambda>s. ''I am responsive. The backend... '' @ s)
     (case connect_backend e of
        (False, s) \<Rightarrow> Some s
      | (True, _) \<Rightarrow>
          (case datagram_str gov_socket_ping [] of
             None \<Rightarrow> None
           | Some d \<Rightarrow>
               (case bk_query (a_node e) d of
                  Inl r \<Rightarrow> if r = [] then None else Some (''is not responding (Error): '' @ r)
                | Inr g \<Rightarrow> Some (''is also responsive, it said: '' @ parse_string g))))"

text \<open>A command of the interface; those of the pairing work on the devices.\<close>

definition on_wallet :: "(string \<times> wallet) option \<Rightarrow> local_api \<Rightarrow> (string \<times> local_api) option" where
  "on_wallet r s = map_option (\<lambda>(t, w). (t, s\<lparr>la_wallet := w\<rparr>)) r"

definition on_devices :: "string \<times> devices \<Rightarrow> local_api \<Rightarrow> (string \<times> local_api) option" where
  "on_devices r s = Some (fst r, s\<lparr>la_devices := snd r\<rparr>)"

definition printed :: "string option \<Rightarrow> local_api \<Rightarrow> (string \<times> local_api) option" where
  "printed r s = map_option (\<lambda>t. (t, s)) r"

fun local_call :: "api_env \<Rightarrow> call \<Rightarrow> local_api \<Rightarrow> (string \<times> local_api) option" where
  "local_call e (Balance b) s = on_wallet (la_balance e b (la_wallet s)) s"
| "local_call e (List b) s = printed (Some (wallet_list (e_lib (w_env (a_wallet e))) b (la_wallet s))) s"
| "local_call e New_Address s = on_wallet (la_new_address e (la_wallet s)) s"
| "local_call e (Add_Address k) s = on_wallet (Some (la_add_address e k (la_wallet s))) s"
| "local_call e (Transfer a m) s = on_wallet (la_transfer e a m (la_wallet s)) s"
| "local_call e (Make_P2pkh i) s = on_wallet (la_tx_make_p2pkh e i (la_wallet s)) s"
| "local_call e (Sign t ci co) s = printed (la_tx_sign e t ci co (la_wallet s)) s"
| "local_call e (Send t) s = printed (la_tx_send e t) s"
| "local_call e (Decode t) s = printed (Some (la_tx_decode e t)) s"
| "local_call e (Check t) s = printed (Some (la_tx_check e t)) s"
| "local_call e Ping s = printed (la_ping e) s"
| "local_call e (Pair_Device p n) s = on_devices (api_pair (a_pair e) p n (la_devices s)) s"
| "local_call e (Unpair_Device p) s = on_devices (api_unpair (a_pair e) p (la_devices s)) s"
| "local_call e List_Devices s = printed (Some (devices_dump (p_lib (a_pair e)) (la_devices s))) s"

text \<open>Commands for the owner of the machine only; mining goes through the entropy until a key fits.\<close>

definition priv_key :: "secp \<Rightarrow> u64 list \<Rightarrow> byte list \<Rightarrow> byte list \<Rightarrow> byte list \<Rightarrow> string" where
  "priv_key lib beyond jbuf jkey k =
     (if \<not> keys_verify lib beyond k then ''The private key is incorrect.''
      else let p = get_pubkey lib jkey k
           in ''Public key: '' @ show_pub lib p @ endl @ ''Address: '' @ show_hash (pub_compute_hash lib jbuf p))"

definition gen_keys :: "secp \<Rightarrow> u64 list \<Rightarrow> byte list \<Rightarrow> byte list \<Rightarrow> byte list option \<Rightarrow> string option" where
  "gen_keys lib beyond jbuf jkey entropy =
     map_option (\<lambda>k. ''Private key: '' @ show_priv (priv k) @ endl @ ''Public key: '' @ show_pub lib (pub k) @ endl
       @ ''Address: '' @ show_hash (pub_compute_hash lib jbuf (pub k))) (keys_generate lib beyond jkey entropy)"

text \<open>\<open>find\<close> of the standard library, and the loop that ends when a key has the pattern (\<open>None\<close>: it goes on).\<close>

definition occurs :: "string \<Rightarrow> string \<Rightarrow> bool" where
  "occurs p s \<longleftrightarrow> list_ex (\<lambda>k. take (length p) (drop k s) = p) [0..<Suc (length s)]"

fun mine_public_key :: "secp \<Rightarrow> u64 list \<Rightarrow> byte list \<Rightarrow> string \<Rightarrow> byte list list \<Rightarrow> string option" where
  "mine_public_key lib beyond jkey pattern [] = None"
| "mine_public_key lib beyond jkey pattern (r # rs) =
     (case keys_generate lib beyond jkey (Some r) of
        None \<Rightarrow> None
      | Some k \<Rightarrow>
          (if occurs pattern (show_pub lib (pub k))
           then Some (''Private key: '' @ show_priv (priv k) @ endl @ ''Public key: '' @ show_pub lib (pub k) @ endl)
           else mine_public_key lib beyond jkey pattern rs))"

section \<open>The daemon\<close>

text \<open>\<open>is >> k\<close> for a private key.\<close>

definition read_priv :: "byte list \<Rightarrow> istream \<Rightarrow> byte list \<times> istream" where
  "read_priv k is =
     (let (s, is) = read_string is; (ok, k) = priv_set_b58 k s
      in if ok then (k, is) else (replicate 32 0, setfail is))"

text \<open>The numbers of the requests; \<open>request_numbers\<close> below relates them to those the generator writes.\<close>

definition wallet_svc :: "nat \<Rightarrow> u16" where "wallet_svc k = word_of_nat (0 + 2 * k)"
definition pairing_svc :: "nat \<Rightarrow> u16" where "pairing_svc k = word_of_nat (100 + 2 * k)"

text \<open>What a handler makes of the text of a request.\<close>

datatype parsed = Parsed call | Refused string | No_Service

definition parse_tx_sign :: "api_env \<Rightarrow> istream \<Rightarrow> parsed" where
  "parse_tx_sign e is =
     (let (txb58, is) = read_string is; (ci, is) = read_int (a_jint e) is; (co, is) = read_int (a_jint e) is
      in Parsed (Sign txb58 (of_int ci) (of_int co)))"

definition parse_make_p2pkh :: "api_env \<Rightarrow> istream \<Rightarrow> parsed" where
  "parse_make_p2pkh e is =
     (let (i, is) = p2pkh_from_stream (a_jint e) (a_jinput e) is
      in if ifail is then Refused ''Unacceptable input.'' else Parsed (Make_P2pkh i))"

definition parse_transfer :: "api_env \<Rightarrow> istream \<Rightarrow> parsed" where
  "parse_transfer e is =
     (let (a, is) = read_hash hash_zero is; (m, is) = read_cash (a_jcash e) is in Parsed (Transfer a m))"

definition parse_pair :: "api_env \<Rightarrow> istream \<Rightarrow> parsed" where
  "parse_pair e is =
     (let (p, is) = read_pub (p_lib (a_pair e)) (pub_new (p_junk (a_pair e))) is; (n, is) = read_string is in Parsed (Pair_Device p n))"

definition parse_unpair :: "api_env \<Rightarrow> istream \<Rightarrow> parsed" where
  "parse_unpair e is = Parsed (Unpair_Device (fst (read_pub (p_lib (a_pair e)) (pub_new (p_junk (a_pair e))) is)))"

definition parse_request :: "api_env \<Rightarrow> u16 \<Rightarrow> string \<Rightarrow> parsed" where
  "parse_request e svc t =
     (if svc = wallet_svc 0 then Parsed (Balance (fst (read_bool (a_jbool e) (istr t))))
      else if svc = wallet_svc 1 then Parsed (List (fst (read_bool (a_jbool e) (istr t))))
      else if svc = wallet_svc 2 then Parsed New_Address
      else if svc = wallet_svc 3 then Parsed (Add_Address (fst (read_priv (replicate 32 0) (istr t))))
      else if svc = wallet_svc 4 then parse_transfer e (istr t)
      else if svc = wallet_svc 5 then parse_make_p2pkh e (istr t)
      else if svc = wallet_svc 6 then parse_tx_sign e (istr t)
      else if svc = wallet_svc 7 then Parsed (Send (fst (read_string (istr t))))
      else if svc = wallet_svc 8 then Parsed (Decode (fst (read_string (istr t))))
      else if svc = wallet_svc 9 then Parsed (Check (fst (read_string (istr t))))
      else if svc = wallet_svc 10 then Parsed Ping
      else if svc = pairing_svc 0 then parse_pair e (istr t)
      else if svc = pairing_svc 1 then parse_unpair e (istr t)
      else if svc = pairing_svc 2 then Parsed List_Devices
      else No_Service)"

text \<open>
  \<open>process_work\<close>: the services of the layers below are theirs; a peer that is not authorised is disconnected. An
  answer that does not fit a datagram fails an assertion.
\<close>

datatype treatment = Below | Dropped | Answered datagram | Unknown_Service

definition lower_services :: "u16 list" where
  "lower_services = map (\<lambda>k. push_bit 2 (100 + k) + protocol_suffix) [1, 2] @ map (\<lambda>k. push_bit 2 (200 + k) + protocol_suffix) [0, 1, 2]"

definition send_response :: "u16 \<Rightarrow> string \<Rightarrow> treatment option" where
  "send_response svc payload = map_option Answered (datagram_str (svc + 1) payload)"

definition send_error_response :: "u16 \<Rightarrow> string \<Rightarrow> treatment option" where
  "send_error_response svc error = map_option Answered (datagram_str (svc + 1) (''E '' @ error))"

definition wallet_process_work :: "api_env \<Rightarrow> auth_stage \<Rightarrow> datagram \<Rightarrow> local_api \<Rightarrow> (treatment \<times> local_api) option" where
  "wallet_process_work e au d s =
     (if service d \<in> set lower_services then Some (Below, s)
      else if au \<noteq> Authorized then Some (Dropped, s)
      else case parse_request e (service d) (parse_string d) of
             No_Service \<Rightarrow> Some (Unknown_Service, s)
           | Refused r \<Rightarrow> map_option (\<lambda>t. (t, s)) (send_error_response (service d) r)
           | Parsed c \<Rightarrow>
               (case local_call e c s of
                  None \<Rightarrow> None
                | Some (t, s) \<Rightarrow> map_option (\<lambda>r. (r, s)) (send_response (service d) t)))"

text \<open>The end of the identification of a peer: the table of devices decides (\<open>auth::peer_t\<close> over \<open>wallet::peer_t\<close>).\<close>

definition wallet_verification_completed :: "pairing_env \<Rightarrow> id_peer \<Rightarrow> auth_stage \<Rightarrow> devices \<Rightarrow> auth_stage \<times> devices" where
  "wallet_verification_completed e p au ds =
     (if \<not> verification_is_fine p then (au, ds)
      else let (ok, ds) = devices_authorize e (pubkey p) ds in (if ok then Authorized else au, ds))"

section \<open>The client\<close>

definition call_service :: "call \<Rightarrow> u16" where
  "call_service c =
     (case c of Balance b \<Rightarrow> wallet_svc 0 | List b \<Rightarrow> wallet_svc 1 | New_Address \<Rightarrow> wallet_svc 2 | Add_Address k \<Rightarrow> wallet_svc 3
      | Transfer a m \<Rightarrow> wallet_svc 4 | Make_P2pkh i \<Rightarrow> wallet_svc 5 | Sign t ci co \<Rightarrow> wallet_svc 6 | Send t \<Rightarrow> wallet_svc 7
      | Decode t \<Rightarrow> wallet_svc 8 | Check t \<Rightarrow> wallet_svc 9 | Ping \<Rightarrow> wallet_svc 10
      | Pair_Device p n \<Rightarrow> pairing_svc 0 | Unpair_Device p \<Rightarrow> pairing_svc 1 | List_Devices \<Rightarrow> pairing_svc 2)"

text \<open>The arguments as the generated stubs print them: one text as it is, others separated by blanks.\<close>

definition show_bool :: "bool \<Rightarrow> string" where "show_bool b = (if b then ''1'' else ''0'')"

definition call_args :: "secp \<Rightarrow> call \<Rightarrow> string" where
  "call_args lib c =
     (case c of Balance b \<Rightarrow> show_bool b | List b \<Rightarrow> show_bool b | New_Address \<Rightarrow> [] | Add_Address k \<Rightarrow> show_priv k
      | Transfer a m \<Rightarrow> show_hash a @ '' '' @ show_int m | Make_P2pkh i \<Rightarrow> p2pkh_to_stream i
      | Sign t ci co \<Rightarrow> t @ '' '' @ show_int (uint ci) @ '' '' @ show_int (uint co) | Send t \<Rightarrow> t | Decode t \<Rightarrow> t | Check t \<Rightarrow> t
      | Ping \<Rightarrow> [] | Pair_Device p n \<Rightarrow> show_pub lib p @ '' '' @ n | Unpair_Device p \<Rightarrow> show_pub lib p | List_Devices \<Rightarrow> [])"

text \<open>
  \<open>ask\<close>, and \<open>ask_ping\<close> with its own texts: \<open>connect\<close> is what \<open>connect_walletd\<close> prints when there is no connection (empty
  otherwise), \<open>lost\<close> the error when the daemon drops the connection.
\<close>

definition remote_call ::
  "string \<Rightarrow> string \<Rightarrow> auth_stage \<Rightarrow> api_env \<Rightarrow> call \<Rightarrow> local_api \<Rightarrow> (string \<times> local_api) option" where
  "remote_call connect lost au e c s =
     (if connect \<noteq> [] then Some (connect, s)
      else case datagram_str (call_service c) (call_args (p_lib (a_pair e)) c) of
             None \<Rightarrow> None
           | Some d \<Rightarrow>
               (case wallet_process_work e au d s of
                  None \<Rightarrow> None
                | Some (Answered r, s) \<Rightarrow> Some ((if c = Ping then ''Remote wallet says: '' else []) @ parse_string r, s)
                | Some (_, s) \<Rightarrow> Some ((if c = Ping then ''(Error) '' else []) @ lost, s)))"

end
