(* ===== verification/Wallet_Remote.thy ===== *)
theory Wallet_Remote
  imports Wallet_Api
begin

text \<open>
  Properties of the daemon of the wallet: a command called over a connection does what it does on the spot, for
  peers that are paired; others have no access. The exceptions are names with blanks, and answers that do not fit a datagram.
\<close>

section \<open>Arguments\<close>

lemma read_blank_last:
  "fst (read_string (istr (CHR '' '' # s))) = fst (read_string (istr s))"
  by (simp add: read_skip)

lemma show_bool_read: "read_signed 64 (istr (show_bool b)) = (Some (if b then 1 else 0), \<lparr>ichars = [], ieof = True, ifail = False\<rparr>)"
proof -
  have "read_signed 64 (istr ''1'') = (Some 1, \<lparr>ichars = [], ieof = True, ifail = False\<rparr>)"
    "read_signed 64 (istr ''0'') = (Some 0, \<lparr>ichars = [], ieof = True, ifail = False\<rparr>)"
    by (simp_all add: read_signed_def read_digits_def sentry_def istr_def good_def isspace_def isdigit_def parse_nat_def digit_val_def be_val_def)
  then show ?thesis by (simp add: show_bool_def)
qed

lemma read_bool_last: "read_bool j (istr (show_bool b)) = (b, \<lparr>ichars = [], ieof = True, ifail = False\<rparr>)"
  by (simp add: read_bool_def show_bool_read)

lemma read_cash_last: "in64 m \<Longrightarrow> fst (read_cash j (istr (CHR '' '' # show_int m))) = m"
proof -
  assume "in64 m"
  then have "fst (read_signed 64 (istr (show_int m))) = Some m" by (intro read_signed_last) (auto simp: in64_def)
  then show ?thesis by (auto simp: read_cash_def read_skip split: prod.split)
qed

lemma byte_in32: "- (2 ^ 31) \<le> uint x \<and> uint x < 2 ^ 31" for x :: byte
proof -
  have "uint x < 256" using unsigned_less [of x] by simp
  moreover have "- (2 ^ 31) \<le> (0 :: int)" "(256 :: int) \<le> 2 ^ 31" "0 \<le> uint x" by simp_all
  ultimately show ?thesis by (intro conjI) linarith+
qed

lemma read_code: "isspace d \<Longrightarrow> read_int j (istr (CHR '' '' # show_int (uint x) @ d # s)) = (uint x, istr (d # s))" for x :: byte
  using byte_in32 [of x] by (simp add: read_int_def read_skip read_signed_show)

lemma read_code_last: "fst (read_int j (istr (CHR '' '' # show_int (uint x)))) = uint x" for x :: byte
proof -
  have "fst (read_signed 32 (istr (show_int (uint x)))) = Some (uint x)" using byte_in32 [of x] by (intro read_signed_last) simp_all
  then show ?thesis by (auto simp: read_int_def read_skip split: prod.split option.split)
qed

lemma show_priv_spec:
  assumes "length k = 32"
  shows "token (show_priv k)" "priv_set_b58 j (show_priv k) = (True, k)" "CHR 0x00 \<notin> set (show_priv k)"
proof -
  obtain s where s: "encode k = Some s" "decode s = Some k" "set s \<subseteq> set pszBase58" "k \<noteq> [] \<longrightarrow> s \<noteq> []" by (rule encode_text)
  have p: "show_priv k = s" using s(1) by (simp add: show_priv_def priv_to_b58_def)
  have "decode32 s = Decoded k" using b58_decode32 s(2) assms by blast
  then show "priv_set_b58 j (show_priv k) = (True, k)" by (simp add: p priv_set_b58_def)
  show "token (show_priv k)" using show_priv_text(1) [OF assms] .
  show "CHR 0x00 \<notin> set (show_priv k)" using s(3) pszBase58_no_nul unfolding p by blast
qed

lemma read_priv_last: "length k = 32 \<Longrightarrow> fst (read_priv j (istr (show_priv k))) = k"
  using show_priv_spec(1) [of k] show_priv_spec(2) [of k j] read_string_last [of "show_priv k"] by (auto simp: read_priv_def split: prod.splits)

lemma read_pub_last:
  assumes "valid k" "secp_prints lib (pdata k)"
  shows "fst (read_pub lib k' (istr (show_pub lib k))) = k'\<lparr>pdata := pdata k, valid := True\<rparr>" "CHR 0x00 \<notin> set (show_pub lib k)"
proof -
  obtain s where s: "pub_to_b58 lib k = Some s" "token s" "\<forall>k'. pub_set_b58 lib k' s = (True, k'\<lparr>pdata := pdata k, valid := True\<rparr>)"
    by (rule pub_text [OF assms])
  then show "fst (read_pub lib k' (istr (show_pub lib k))) = k'\<lparr>pdata := pdata k, valid := True\<rparr>"
    using read_string_last [OF s(2)] by (auto simp: read_pub_def show_pub_def split: prod.splits)
  obtain out where out: "sc_serialize lib (pdata k) = Some out" using assms(2) by (auto simp: secp_prints_def)
  obtain s' where "encode out = Some s'" "set s' \<subseteq> set pszBase58" by (rule encode_text)
  then show "CHR 0x00 \<notin> set (show_pub lib k)" using out assms(1) pszBase58_no_nul by (auto simp: show_pub_def pub_to_b58_def)
qed

text \<open>The request for a payment, at the end of a text: nothing fails.\<close>

lemma p2pkh_last:
  assumes "in64 (pay_amount i)" "in64 (pay_fee i)"
  shows "p2pkh_from_stream jx j (istr (p2pkh_to_stream i)) = (i, \<lparr>ichars = [], ieof = True, ifail = False\<rparr>)"
proof -
  have b: "read_bool jb (istr (CHR '' '' # show_bool x)) = (x, \<lparr>ichars = [], ieof = True, ifail = False\<rparr>)" for jb x
    by (simp add: read_bool_def read_skip show_bool_read)
  have t: "p2pkh_to_stream i = show_hash (rcpt_addr i) @ CHR '' '' # show_int (pay_amount i) @ CHR '' '' # show_int (pay_fee i) @
      CHR '' '' # show_int (uint (sigcode_inputs i)) @ CHR '' '' # show_int (uint (sigcode_outputs i)) @ CHR '' '' # show_bool (sendover i)"
    by (simp add: p2pkh_to_stream_def show_bool_def)
  have m: "read_cash jc (istr (CHR '' '' # show_int x @ CHR '' '' # r)) = (x, istr (CHR '' '' # r))" if "in64 x" for jc x r
    using that by (simp add: read_cash_def read_skip read_signed_show in64_def)
  show ?thesis unfolding t
    using assms by (simp add: p2pkh_from_stream_def read_hash_show m read_code b)
qed

section \<open>Commands over a connection\<close>

definition fresh_key :: "api_env \<Rightarrow> pub_t \<Rightarrow> bool" where
  "fresh_key e p \<longleftrightarrow> p = (pub_new (p_junk (a_pair e)))\<lparr>pdata := pdata p, valid := True\<rparr> \<and> secp_prints (p_lib (a_pair e)) (pdata p)"

text \<open>The arguments whose text says everything: words without blanks, private keys of 32 bytes, keys as a text gives them.\<close>

definition word_ok :: "string \<Rightarrow> bool" where "word_ok t \<longleftrightarrow> token t \<and> CHR 0x00 \<notin> set t"

fun call_ok :: "api_env \<Rightarrow> call \<Rightarrow> bool" where
  "call_ok e (Add_Address k) \<longleftrightarrow> length k = 32"
| "call_ok e (Transfer a m) \<longleftrightarrow> in64 m"
| "call_ok e (Make_P2pkh i) \<longleftrightarrow> in64 (pay_amount i) \<and> in64 (pay_fee i)"
| "call_ok e (Sign t ci co) \<longleftrightarrow> word_ok t"
| "call_ok e (Send t) \<longleftrightarrow> word_ok t"
| "call_ok e (Decode t) \<longleftrightarrow> word_ok t"
| "call_ok e (Check t) \<longleftrightarrow> word_ok t"
| "call_ok e (Pair_Device p n) \<longleftrightarrow> fresh_key e p \<and> word_ok n"
| "call_ok e (Unpair_Device p) \<longleftrightarrow> fresh_key e p"
| "call_ok e _ \<longleftrightarrow> True"

lemmas svc_defs = wallet_svc_def pairing_svc_def

lemma fresh_key_read:
  assumes "fresh_key e p"
  shows "fst (read_pub (p_lib (a_pair e)) (pub_new (p_junk (a_pair e))) (istr (show_pub (p_lib (a_pair e)) p))) = p"
    "read_pub (p_lib (a_pair e)) (pub_new (p_junk (a_pair e))) (istr (show_pub (p_lib (a_pair e)) p @ CHR '' '' # r)) = (p, istr (CHR '' '' # r))"
    "CHR 0x00 \<notin> set (show_pub (p_lib (a_pair e)) p)"
proof -
  have p: "p = (pub_new (p_junk (a_pair e)))\<lparr>pdata := pdata p, valid := True\<rparr>" "secp_prints (p_lib (a_pair e)) (pdata p)"
    using assms unfolding fresh_key_def by blast+
  then have v: "valid p" by (metis pub_t.select_convs(2) pub_t.surjective pub_t.update_convs(2))
  show "fst (read_pub (p_lib (a_pair e)) (pub_new (p_junk (a_pair e))) (istr (show_pub (p_lib (a_pair e)) p))) = p"
    using read_pub_last(1) [OF v p(2)] p(1) by simp
  show "CHR 0x00 \<notin> set (show_pub (p_lib (a_pair e)) p)" using read_pub_last(2) [OF v p(2)] .
  show "read_pub (p_lib (a_pair e)) (pub_new (p_junk (a_pair e))) (istr (show_pub (p_lib (a_pair e)) p @ CHR '' '' # r)) = (p, istr (CHR '' '' # r))"
    using read_pub_show(1) [OF v p(2)] p(1) by simp
qed

lemma parse_args:
  assumes "call_ok e c"
  shows "parse_request e (call_service c) (call_args (p_lib (a_pair e)) c) = Parsed c"
proof (cases c)
  case (Sign t ci co)
  then show ?thesis
    using assms read_string_token [of t "CHR '' ''"] read_code_last [of "a_jint e" co]
    by (simp add: call_service_def call_args_def parse_request_def svc_defs parse_tx_sign_def word_ok_def read_code case_prod_unfold Let_def)
next
  case (Transfer a m)
  then show ?thesis
    using assms read_cash_last [of m "a_jcash e"]
    by (simp add: call_service_def call_args_def parse_request_def svc_defs parse_transfer_def read_hash_show case_prod_unfold Let_def)
next
  case (Pair_Device p n)
  then show ?thesis
    using assms fresh_key_read(2) [of e p n] read_string_last [of n]
    by (simp add: call_service_def call_args_def parse_request_def svc_defs parse_pair_def word_ok_def read_skip case_prod_unfold Let_def)
qed (use assms in \<open>simp_all add: call_service_def call_args_def parse_request_def svc_defs read_bool_last read_priv_last word_ok_def
    read_string_last parse_make_p2pkh_def p2pkh_last parse_unpair_def fresh_key_read(1)\<close>)

lemma no_nul_args: "call_ok e c \<Longrightarrow> CHR 0x00 \<notin> set (call_args (p_lib (a_pair e)) c)"
  using show_priv_spec(3) fresh_key_read(3)
  by (cases c) (auto simp: call_args_def show_bool_def p2pkh_to_stream_def word_ok_def)

definition fits :: "string \<Rightarrow> bool" where "fits t \<longleftrightarrow> datagram_h + length t < datagram_maxsize"

lemma fits_datagram:
  assumes "fits t" "CHR 0x00 \<notin> set t"
  obtains d where "datagram_str svc t = Some d" "service d = svc" "parse_string d = t"
proof -
  obtain d where d: "datagram_str svc t = Some d" "service d = svc"
    using assms(1) by (auto simp: datagram_str_eq fits_def datagram_h_def)
  then show ?thesis using that datagram_payload_roundtrip [OF d(1)] assms(2) by simp
qed

lemma lower_services_eq: "lower_services = [404, 408, 800, 804, 808]"
  by (simp add: lower_services_def protocol_suffix_def push_bit_eq_mult)

lemma call_service_upper: "call_service c \<notin> set lower_services"
  by (cases c) (simp_all add: call_service_def lower_services_eq svc_defs)

text \<open>What a paired device asks is done with the arguments it sent.\<close>

lemma remote_call_parsed:
  assumes "datagram_str (call_service c) (call_args (p_lib (a_pair e)) c) = Some d"
    and "parse_request e (call_service c) (parse_string d) = Parsed c'" "local_call e c' s = Some (t, s')" "fits t" "CHR 0x00 \<notin> set t"
  shows "remote_call [] lost Authorized e c s = Some ((if c = Ping then ''Remote wallet says: '' else []) @ t, s')"
proof -
  have "service d = call_service c" using assms(1) by (auto simp: datagram_str_eq split: if_splits)
  moreover obtain r where "datagram_str (call_service c + 1) t = Some r" "parse_string r = t" by (rule fits_datagram [OF assms(4,5)])
  ultimately show ?thesis
    using assms(1-3) call_service_upper [of c] by (simp add: remote_call_def wallet_process_work_def send_response_def)
qed


text \<open>
  A device paired from another machine under a name with a blank gets the first word of the name only: paired on
  the spot, it would keep the name.
\<close>
theorem remote_name_cut:
  assumes "fresh_key e p" "word_ok n" "CHR 0x00 \<notin> set r" "fits (show_pub (p_lib (a_pair e)) p @ '' '' @ n @ '' '' @ r)"
  shows "remote_call [] lost Authorized e (Pair_Device p (n @ '' '' @ r)) s = local_call e (Pair_Device p n) s"
proof -
  let ?c = "Pair_Device p (n @ '' '' @ r)"
  have v: "valid p" using assms(1) unfolding fresh_key_def by (metis pub_t.select_convs(2) pub_t.surjective pub_t.update_convs(2))
  have a: "call_args (p_lib (a_pair e)) ?c = show_pub (p_lib (a_pair e)) p @ '' '' @ n @ '' '' @ r" by (simp add: call_args_def)
  have "CHR 0x00 \<notin> set (call_args (p_lib (a_pair e)) ?c)" using assms(2,3) fresh_key_read(3) [OF assms(1)] unfolding a by (simp add: word_ok_def)
  then obtain d where d: "datagram_str (call_service ?c) (call_args (p_lib (a_pair e)) ?c) = Some d"
      "parse_string d = show_pub (p_lib (a_pair e)) p @ '' '' @ n @ '' '' @ r"
    using fits_datagram [of "call_args (p_lib (a_pair e)) ?c" "call_service ?c"] assms(4) unfolding a by metis
  have "token n" using assms(2) by (simp add: word_ok_def)
  then have "parse_request e (call_service ?c) (parse_string d) = Parsed (Pair_Device p n)"
    using fresh_key_read(2) [OF assms(1), of "n @ '' '' @ r"] read_string_token [of n "CHR '' ''" r]
    unfolding d(2) by (simp add: call_service_def parse_request_def svc_defs parse_pair_def read_skip)
  moreover have l: "local_call e (Pair_Device p n) s = Some (''done.'', s\<lparr>la_devices := devices_pair (a_pair e) p n (la_devices s)\<rparr>)"
    using v by (simp add: on_devices_def api_pair_def)
  ultimately show ?thesis
    using remote_call_parsed [OF d(1) _ l] by (simp add: fits_def datagram_h_def datagram_maxsize_def)
qed

section \<open>The numbers of the commands\<close>

text \<open>The numbers by which client and daemon know the commands are those of the constants that the generator writes.\<close>

fun call_constant :: "call \<Rightarrow> string" where
  "call_constant (Balance b) = ''wallet_balance''"
| "call_constant (List b) = ''wallet_list''"
| "call_constant New_Address = ''wallet_new_address''"
| "call_constant (Add_Address k) = ''wallet_add_address''"
| "call_constant (Transfer a m) = ''wallet_transfer''"
| "call_constant (Make_P2pkh i) = ''wallet_tx_make_p2pkh''"
| "call_constant (Sign t ci co) = ''wallet_tx_sign''"
| "call_constant (Send t) = ''wallet_tx_send''"
| "call_constant (Decode t) = ''wallet_tx_decode''"
| "call_constant (Check t) = ''wallet_tx_check''"
| "call_constant Ping = ''wallet_ping''"
| "call_constant (Pair_Device p n) = ''pairing_pair''"
| "call_constant (Unpair_Device p) = ''pairing_unpair''"
| "call_constant List_Devices = ''pairing_list_devices''"

lemma request_numbers:
  "\<exists>m. compile (protocol_decls 0 (api_of ''wallet'' wallet_fns) @ protocol_decls 100 (api_of ''pairing'' pairing_fns)) Map.empty = Some m
    \<and> (\<forall>c. m (call_constant c) = Some (unat (call_service c)))"
proof -
  let ?w = "api_of ''wallet'' wallet_fns" and ?p = "api_of ''pairing'' pairing_fns"
  obtain m1 where m1: "compile (protocol_decls 0 ?w) Map.empty = Some m1" "\<forall>v. v \<notin> set (api_v ?w) \<longrightarrow> m1 v = None" "numbers m1 ?w (\<lambda>k. 0 + 2 * k)"
    using compile_protocol [of ?w Map.empty 0] unfolding wallet_names by auto
  have "\<forall>v \<in> set (api_v ?p). m1 v = None" using m1(2) unfolding wallet_names by simp
  then obtain m where m: "compile (protocol_decls 100 ?p) m1 = Some m" "\<forall>v. v \<notin> set (api_v ?p) \<longrightarrow> m v = m1 v" "numbers m ?p (\<lambda>k. 100 + 2 * k)"
    using compile_protocol [of ?p m1 100] unfolding wallet_names by auto
  have w: "m1 (tl (api_v ?w) ! k) = Some (2 * k)" if "k < 11" for k
    using m1(3) that unfolding numbers_def wallet_names by simp
  have p: "m (tl (api_v ?p) ! k) = Some (100 + 2 * k)" if "k < 3" for k
    using m(3) that unfolding numbers_def wallet_names by simp
  have "m (call_constant c) = Some (unat (call_service c))" for c
    using m(2) w [of 0] w [of 1] w [of 2] w [of 3] w [of 4] w [of 5] w [of 6] w [of 7] w [of 8] w [of 9] w [of 10] p [of 0] p [of 1] p [of 2]
    unfolding wallet_names by (cases c) (simp_all add: call_service_def svc_defs)
  then show ?thesis using m1(1) m(1) by (auto simp: compile_append)
qed

section \<open>Strangers\<close>

text \<open>
  The daemon with its connections: peers identify themselves, and datagrams arrive, in any order. The treatments of the
  datagrams are collected; what the layers below do with theirs is not part of this state.
\<close>

record wallet_daemon =
  wd_stage :: "nat \<Rightarrow> auth_stage"
  wd_api :: local_api

datatype wd_event = Identified nat pairing_env id_peer | Request nat api_env datagram

fun wd_conn :: "wd_event \<Rightarrow> nat" where
  "wd_conn (Identified c e p) = c"
| "wd_conn (Request c e d) = c"

fun wd_step :: "wd_event \<Rightarrow> wallet_daemon \<Rightarrow> (treatment list \<times> wallet_daemon) option" where
  "wd_step (Identified c e p) w =
     (let (a, ds) = wallet_verification_completed e p (wd_stage w c) (la_devices (wd_api w))
      in Some ([], w\<lparr>wd_stage := (wd_stage w)(c := a), wd_api := (wd_api w)\<lparr>la_devices := ds\<rparr>\<rparr>))"
| "wd_step (Request c e d) w =
     map_option (\<lambda>(t, s). ([t], w\<lparr>wd_api := s\<rparr>)) (wallet_process_work e (wd_stage w c) d (wd_api w))"

fun wd_run :: "wd_event list \<Rightarrow> wallet_daemon \<Rightarrow> (treatment list \<times> wallet_daemon) option" where
  "wd_run [] w = Some ([], w)"
| "wd_run (x # xs) w =
     (case wd_step x w of
        None \<Rightarrow> None
      | Some (rs, w) \<Rightarrow> map_option (\<lambda>(us, w). (rs @ us, w)) (wd_run xs w))"

text \<open>An event of a stranger: on a connection that is not authorised, with a key that is not in the table.\<close>

fun unknown_key :: "devices \<Rightarrow> wd_event \<Rightarrow> bool" where
  "unknown_key ds (Identified c e p) \<longleftrightarrow> um_find (entries ds) (device_hash e (pubkey p)) = None"
| "unknown_key ds (Request c e d) \<longleftrightarrow> True"

definition by_stranger :: "wallet_daemon \<Rightarrow> wd_event \<Rightarrow> bool" where
  "by_stranger w x \<longleftrightarrow> wd_stage w (wd_conn x) \<noteq> Authorized \<and> unknown_key (la_devices (wd_api w)) x"

lemma unknown_not_authorized:
  assumes "entries ds \<noteq> []" "um_find (entries ds) (device_hash e (pubkey p)) = None"
  shows "wallet_verification_completed e p a ds = (a, ds)"
proof -
  have "fst (with_hash e \<lparr>dpub = pubkey p, dname = ''First_seen_device''\<rparr>) = device_hash e (pubkey p)" by (simp add: with_hash_simps)
  then have "devices_authorize e (pubkey p) ds = (False, ds)"
    using assms by (simp add: devices_authorize_def case_prod_unfold Let_def)
  then show ?thesis by (simp add: wallet_verification_completed_def)
qed

lemma stranger_step:
  assumes "entries (la_devices (wd_api w)) \<noteq> []" "by_stranger w x"
  shows "\<exists>rs. wd_step x w = Some (rs, w) \<and> set rs \<subseteq> {Below, Dropped}"
proof (cases x)
  case (Identified c e p)
  then show ?thesis using assms unknown_not_authorized [of "la_devices (wd_api w)" e p] by (simp add: by_stranger_def)
next
  case (Request c e d)
  then show ?thesis using assms(2) by (auto simp: by_stranger_def wallet_process_work_def)
qed


section \<open>Answers that are too long\<close>

lemma show_pub_length: "valid k \<Longrightarrow> secp_prints lib (pdata k) \<Longrightarrow> 32 \<le> length (show_pub lib k) \<and> length (show_pub lib k) \<le> 67"
proof -
  assume k: "valid k" "secp_prints lib (pdata k)"
  then obtain out where out: "sc_serialize lib (pdata k) = Some out" "length out = 33" by (auto simp: secp_prints_def)
  obtain s where s: "encode out = Some s" "decode s = Some out" by (rule encode_text)
  have "show_pub lib k = s" using k(1) out(1) s(1) by (simp add: show_pub_def pub_to_b58_def)
  then show ?thesis using decode_length [OF s(2)] encode_length [OF s(1)] out(2) by simp
qed

lemma list_length_sum: "\<forall>x \<in> set xs. n \<le> length (f x) \<Longrightarrow> n * length xs \<le> length (concat (map f xs))"
  by (induction xs) auto

definition printable_keys :: "secp \<Rightarrow> wallet \<Rightarrow> bool" where
  "printable_keys lib w \<longleftrightarrow> (\<forall>x \<in> set (wkeys w). valid (pub (snd x)) \<and> secp_prints lib (pdata (pub (snd x))))"

lemma long_list:
  assumes "printable_keys lib w" "2000 \<le> length (wkeys w)"
  shows "\<not> fits (wallet_list lib b w)"
proof -
  have "50 \<le> length (key_line lib b x)" if "x \<in> set (enumerate 0 (wkeys w))" for x
  proof -
    obtain n h k where x: "x = (n, h, k)" by (cases x)
    have "snd x \<in> snd ` set (enumerate 0 (wkeys w))" using that by blast
    then have "(h, k) \<in> set (wkeys w)" by (simp add: x flip: set_map)
    then have "valid (pub k) \<and> secp_prints lib (pdata (pub k))" using assms(1) unfolding printable_keys_def by (metis snd_conv)
    then have "32 \<le> length (show_pub lib (pub k))" using show_pub_length by blast
    then show ?thesis using show_hash_length [of h] by (simp add: x key_line_def)
  qed
  then have "50 * length (enumerate 0 (wkeys w)) \<le> length (concat (map (key_line lib b) (enumerate 0 (wkeys w))))"
    by (intro list_length_sum) blast
  then show ?thesis using assms(2) by (simp add: fits_def wallet_list_def datagram_h_def datagram_maxsize_def)
qed

text \<open>
  A paired device that asks for the list of the keys ends the daemon when the wallet has 2000 keys: the text fails
  the assertion on the size of a datagram. On the spot, the list is printed.
\<close>
theorem list_ends_daemon:
  assumes "printable_keys (e_lib (w_env (a_wallet e))) (la_wallet s)" "2000 \<le> length (wkeys (la_wallet s))"
  shows "(\<exists>t. local_call e (List b) s = Some (t, s)) \<and> remote_call [] lost Authorized e (List b) s = None"
proof -
  have l: "local_call e (List b) s = Some (wallet_list (e_lib (w_env (a_wallet e))) b (la_wallet s), s)" by (simp add: printed_def)
  have a: "fits (call_args (p_lib (a_pair e)) (List b))" "CHR 0x00 \<notin> set (call_args (p_lib (a_pair e)) (List b))"
    by (simp_all add: fits_def call_args_def show_bool_def datagram_h_def datagram_maxsize_def)
  obtain d where d: "datagram_str (call_service (List b)) (call_args (p_lib (a_pair e)) (List b)) = Some d"
      "service d = call_service (List b)" "parse_string d = call_args (p_lib (a_pair e)) (List b)" by (rule fits_datagram [OF a])
  have "datagram_str (service d + 1) (wallet_list (e_lib (w_env (a_wallet e))) b (la_wallet s)) = None"
    using long_list [OF assms, of b] by (simp add: datagram_str_def fits_def)
  then have "wallet_process_work e Authorized d s = None"
    using parse_args [of e "List b"] d call_service_upper [of "List b"] l
    by (simp add: wallet_process_work_def send_response_def del: local_call.simps)
  then show ?thesis using l d(1) by (simp add: remote_call_def del: local_call.simps)
qed

text \<open>
  The check of a transaction says that it looks well exactly when it does not, and says nothing otherwise.
\<close>
theorem check_praises_refused:
  assumes "decode_tx e txt = Inr t"
  shows "local_call e (Check txt) s = Some
    (if tx_check t \<le> 0 then ''Individual inputs and fees must be positive.This transaction looks ok.'' else [], s)"
  using assms by (simp add: printed_def la_tx_check_def)

section \<open>A daemon with one device\<close>

definition toy_pairing_env :: pairing_env where
  "toy_pairing_env = \<lparr>p_lib = toy_secp, p_jbuf = replicate 64 0, p_junk = [], p_place = (\<lambda>m x. x # m)\<rparr>"

definition toy_api_env :: "string \<Rightarrow> api_env" where
  "toy_api_env c = \<lparr>a_wallet = toy_wallet_env, a_pair = toy_pairing_env, a_connect = c, a_node = \<lparr>bk_query = (\<lambda>_. Inl ''x''), bk_send = (\<lambda>_. [])\<rparr>,
     a_now = 0, a_entropy = None, a_jbool = False, a_jcash = 0, a_jint = 0, a_jinput = toy_payment (hash_set 1) 1 1\<rparr>"

definition toy_key :: pub_t where "toy_key = pub (toy_pair (replicate 32 1))"

definition toy_api :: "hash_t \<Rightarrow> (hash_t, keys_t) umap \<Rightarrow> local_api" where
  "toy_api h m = \<lparr>la_wallet = toy_wallet m, la_devices = \<lparr>entries = [(h, \<lparr>dpub = toy_key, dname = ''phone''\<rparr>)], dfile = None\<rparr>\<rparr>"

lemma toy_fresh: "fresh_key (toy_api_env c) toy_key"
  by (simp add: fresh_key_def toy_api_env_def toy_pairing_env_def toy_key_def toy_pair_def toy_prints)

lemma toy_key_fits: "length r \<le> 1000 \<Longrightarrow> fits (show_pub toy_secp toy_key @ r)"
  using show_pub_length [of toy_key toy_secp] by (simp add: toy_key_def toy_pair_def toy_prints fits_def datagram_h_def datagram_maxsize_def)

lemma toy_words: "word_ok ''my''" "word_ok ''phone''" "fits ''done.''" "CHR 0x00 \<notin> set ''done.''"
  by (simp_all add: word_ok_def token_def isspace_def fits_def datagram_h_def datagram_maxsize_def)

lemma toy_api_pair:
  "local_call (toy_api_env c) (Pair_Device toy_key n) s = Some (''done.'', s\<lparr>la_devices := devices_pair toy_pairing_env toy_key n (la_devices s)\<rparr>)"
  by (simp add: on_devices_def api_pair_def toy_key_def toy_pair_def toy_api_env_def)

lemma toy_lib: "p_lib (a_pair (toy_api_env c)) = toy_secp"
  by (simp add: toy_api_env_def toy_pairing_env_def)



lemma list_ends_daemon_witness:
  "remote_call [] [] Authorized (toy_api_env []) (List False) (toy_api (hash_set 7) (replicate 2000 (hash_set 1, toy_pair (replicate 32 1)))) = None"
  by (rule list_ends_daemon [THEN conjunct2])
    (simp_all add: printable_keys_def toy_api_env_def toy_api_def toy_wallet_def toy_wallet_env_def toy_env_def toy_pair_def toy_prints)

lemma remote_name_cut_witness:
  "remote_call [] [] Authorized (toy_api_env []) (Pair_Device toy_key (''my'' @ '' '' @ ''phone'')) (toy_api (hash_set 7) []) =
     local_call (toy_api_env []) (Pair_Device toy_key ''my'') (toy_api (hash_set 7) [])"
  by (rule remote_name_cut [OF toy_fresh toy_words(1)]) (use toy_key_fits [of "'' my phone''"] in \<open>simp_all add: toy_lib\<close>)

end
