(* ===== verification/Exchange_Amounts.thy ===== *)
theory Exchange_Amounts
  imports Double_Text
begin

text \<open>
  Amounts and currencies of the exchange: \<open>src/tex/cex/efp.{h,cpp}\<close>, \<open>currencies.cpp\<close> and \<open>wallet.cpp\<close>. An amount
  is a 64-bit number of hundred-thousandths. Products and quotients are computed with the \<open>double\<close>s that the decimal
  texts of the amounts denote, and rounded down.
\<close>

type_synonym efp = int

definition efp_precision :: nat where "efp_precision = 5"
definition efp_one :: int where "efp_one = 100000"
definition rate_multiples :: efp where "rate_multiples = 5"

section \<open>Texts\<close>

text \<open>The point goes before the last five characters, a sign counted among them.\<close>

definition efp_decode :: "efp \<Rightarrow> string" where
  "efp_decode v =
     (let s = show_int v
      in if length s \<le> efp_precision then ''0.'' @ replicate (efp_precision - length s) CHR ''0'' @ s
         else take (length s - efp_precision) s @ CHR ''.'' # drop (length s - efp_precision) s)"

text \<open>The loop over the characters: the position of the point, if there is one; \<open>None\<close> for a bad text.\<close>

fun efp_scan :: "string \<Rightarrow> nat option \<Rightarrow> nat \<Rightarrow> nat option option" where
  "efp_scan [] pos i = Some pos"
| "efp_scan (h # s) pos i =
     (if h = CHR ''.'' then (if pos \<noteq> None then None else efp_scan s (Some i) i)
      else if \<not> isdigit h then None
      else efp_scan s pos (Suc i))"

definition efp_read :: "string \<Rightarrow> efp" where
  "efp_read s = (case read_signed 64 (istr s) of (Some r, _) \<Rightarrow> r | (None, _) \<Rightarrow> 0)"

definition efp_encode :: "string \<Rightarrow> efp" where
  "efp_encode s =
     (if s = [] then 0
      else case efp_scan s None 0 of
             None \<Rightarrow> 0
           | Some None \<Rightarrow> efp_read (s @ replicate efp_precision CHR ''0'')
           | Some (Some pos) \<Rightarrow>
               (let rpos = length s - pos
                in if rpos > efp_precision + 1 then 0
                   else let s = s @ replicate (efp_precision + 1 - rpos) CHR ''0''
                        in efp_read (take pos s @ drop (Suc pos) s)))"

section \<open>Doubles\<close>

definition decode_dbl :: "efp \<Rightarrow> rat" where
  "decode_dbl v = (case read_double (istr (efp_decode v)) of (Some d, _) \<Rightarrow> d | (None, _) \<Rightarrow> 0)"

text \<open>Outside of the range of \<open>long long\<close> the conversion is undefined; the model keeps the number.\<close>

definition encode_dbl :: "rat \<Rightarrow> efp" where
  "encode_dbl v = \<lfloor>fl (v * of_int efp_one)\<rfloor>"

definition dbl_mul :: "efp \<Rightarrow> efp \<Rightarrow> efp" where
  "dbl_mul a b = encode_dbl (fl (decode_dbl a * decode_dbl b))"

definition dbl_div :: "efp \<Rightarrow> efp \<Rightarrow> efp" where
  "dbl_div a b = encode_dbl (fl (decode_dbl a / decode_dbl b))"

text \<open>Splitting a sum: what the rounding loses goes to one of the parts; \<open>None\<close> is the failed assertion.\<close>

definition encode_pair :: "rat \<Rightarrow> rat \<Rightarrow> efp \<Rightarrow> (efp \<times> efp) option" where
  "encode_pair net comm tot =
     (let a = encode_dbl net; b = encode_dbl comm;
          diff = wrap64 (tot - wrap64 (a + b));
          (a, b) = (if b > 100 then (a, wrap64 (b + diff)) else (wrap64 (a + diff), b))
      in if wrap64 (a + b) = tot then Some (a, b) else None)"

section \<open>Currencies\<close>

definition cur_eur :: int where "cur_eur = 1"
definition cur_usd :: int where "cur_usd = 2"
definition cur_gbp :: int where "cur_gbp = 3"
definition cur_aud :: int where "cur_aud = 4"

definition currencies :: "(int \<times> string) list" where
  "currencies = [(cur_eur, ''EUR''), (cur_usd, ''USD''), (cur_gbp, ''GBP''), (cur_aud, ''AUD'')]"

definition is_valid_cur :: "int \<Rightarrow> bool" where
  "is_valid_cur cid \<longleftrightarrow> map_of currencies cid \<noteq> None"

definition strcur :: "string \<Rightarrow> int" where
  "strcur s = (case map_of (map (\<lambda>(i, t). (t, i)) currencies) s of None \<Rightarrow> 0 | Some i \<Rightarrow> i)"

section \<open>Wallets\<close>

text \<open>A wallet is what is available in it.\<close>

definition cex_deposit :: "efp \<Rightarrow> efp \<Rightarrow> efp" where
  "cex_deposit amount available = wrap64 (available + amount)"

text \<open>The amount withdrawn, and what is left.\<close>

definition cex_withdraw :: "efp \<Rightarrow> efp \<Rightarrow> efp \<times> efp" where
  "cex_withdraw amount available =
     (let am = (if amount > available then available else amount) in (am, wrap64 (available - am)))"

section \<open>Lemmas\<close>

lemma not_isdigit_point: "\<not> isdigit CHR ''.''"
  by (simp add: isdigit_def)

lemma efp_scan_digits: "\<forall>c \<in> set s. isdigit c \<Longrightarrow> efp_scan (s @ r) pos i = efp_scan r pos (i + length s)"
  by (induction s arbitrary: i) (auto simp: not_isdigit_point)

lemma efp_read_digits:
  assumes "\<forall>c \<in> set ds. isdigit c" "ds \<noteq> []" "int (parse_nat ds) < 2 ^ 63"
  shows "efp_read ds = int (parse_nat ds)"
proof -
  have h: "isdigit (hd ds)" using assms(1,2) by simp
  then have "sentry (istr ds) = (True, istr ds)"
    using assms(2) by (cases ds) (auto simp: sentry_def Let_def)
  moreover have "takeWhile isdigit ds = ds" using assms(1) takeWhile_eq_all_conv by blast
  ultimately show ?thesis
    using isdigit_not_sign [OF h] assms(2,3)
    by (simp add: efp_read_def read_signed_def read_digits_def Let_def del: takeWhile_eq_all_conv)
qed

lemma efp_read_zeros:
  assumes "0 \<le> v" "v < 2 ^ 63"
  shows "efp_read (replicate k CHR ''0'' @ show_nat (nat v)) = v"
  using assms show_nat_isdigit by (subst efp_read_digits) (auto simp: parse_nat_append)

lemma show_nat_small: "n < 100000 \<Longrightarrow> length (show_nat n) \<le> 5"
proof (rule ccontr)
  assume "n < 100000" "\<not> length (show_nat n) \<le> 5"
  then have "5 \<le> length (show_nat n) - 1" "0 < n"
    by (auto simp: show_nat.simps [of 0] intro: gr0I)
  then have "10 ^ 5 \<le> (10 :: nat) ^ (length (show_nat n) - 1)" by (intro power_increasing) simp_all
  then show False using length_show_nat [OF \<open>0 < n\<close>] \<open>n < 100000\<close> by simp
qed

text \<open>The text of an amount: digits, a point and five digits.\<close>

lemma efp_decode_parts:
  assumes "0 \<le> v"
  obtains ip fp where "efp_decode v = ip @ CHR ''.'' # fp" "\<forall>c \<in> set (ip @ fp). isdigit c" "ip \<noteq> []" "length fp = 5"
    "parse_nat (ip @ fp) = nat v"
proof -
  let ?s = "show_nat (nat v)"
  have d: "\<forall>c \<in> set ?s. isdigit c" using show_nat_isdigit by auto
  have s: "show_int v = ?s" using assms by (simp add: show_int_def)
  show ?thesis
  proof (cases "length ?s \<le> 5")
    case True
    then show ?thesis
      using d by (intro that [of "''0''" "replicate (5 - length ?s) CHR ''0'' @ ?s"])
        (auto simp: efp_decode_def s efp_precision_def Let_def parse_nat_append)
  next
    case False
    then show ?thesis
      using d by (intro that [of "take (length ?s - 5) ?s" "drop (length ?s - 5) ?s"])
        (auto simp: efp_decode_def s efp_precision_def Let_def dest: in_set_takeD in_set_dropD)
  qed
qed

text \<open>Every amount that is not negative survives its text.\<close>

lemma efp_text_roundtrip:
  assumes "0 \<le> v" "v < 2 ^ 63"
  shows "efp_encode (efp_decode v) = v"
proof (rule efp_decode_parts [OF assms(1)])
  fix ip fp assume p: "efp_decode v = ip @ CHR ''.'' # fp" "\<forall>c \<in> set (ip @ fp). isdigit c" "ip \<noteq> []" "length fp = 5"
    "parse_nat (ip @ fp) = nat v"
  have "efp_scan fp (Some (length ip)) (length ip) = Some (Some (length ip))"
    using p(2) efp_scan_digits [of fp "[]" "Some (length ip)"] by simp
  then have "efp_scan (ip @ CHR ''.'' # fp) None 0 = Some (Some (length ip))"
    using p(2) by (simp add: efp_scan_digits)
  moreover have "efp_read (ip @ fp) = v" using p assms by (subst efp_read_digits) auto
  ultimately show ?thesis by (simp add: efp_encode_def p(1,4) efp_precision_def Let_def)
qed

text \<open>The double of an amount is the one nearest to it.\<close>

lemma read_double_efp:
  assumes "0 \<le> v"
  shows "\<exists>r. read_double (istr (efp_decode v)) = (Some (fl (of_int v / 100000)), r)"
proof (rule efp_decode_parts [OF assms])
  fix ip fp assume p: "efp_decode v = ip @ CHR ''.'' # fp" "\<forall>c \<in> set (ip @ fp). isdigit c" "ip \<noteq> []" "length fp = 5"
    "parse_nat (ip @ fp) = nat v"
  obtain c ip' where i: "ip = c # ip'" "isdigit c" using p(2,3) by (cases ip) auto
  have "sentry (istr (efp_decode v)) = (True, istr (efp_decode v))"
    using i by (auto simp: sentry_def Let_def p(1))
  moreover have "takeWhile isdigit (efp_decode v) = ip" "dropWhile isdigit (efp_decode v) = CHR ''.'' # fp"
    using p(2) digits_then [of ip "CHR ''.'' # fp"] by (simp_all add: p(1) not_isdigit_point)
  moreover have "takeWhile isdigit fp = fp" "dropWhile isdigit fp = []" using p(2) by auto
  moreover have "hd (efp_decode v) \<noteq> CHR ''-'' \<and> hd (efp_decode v) \<noteq> CHR ''+''" using isdigit_not_sign [OF i(2)] by (simp add: p(1) i(1))
  moreover have "fl (dec_value ip fp 0) = fl (of_int v / 100000)"
    using p(4,5) assms by (simp add: dec_value_def pow10_def)
  ultimately show ?thesis
    using p(3) by (simp add: read_double_def read_fraction_def read_exponent_def Let_def del: takeWhile_eq_all_conv dropWhile_eq_Nil_conv)
qed

lemma decode_dbl_eq: "0 \<le> v \<Longrightarrow> decode_dbl v = fl (of_int v / 100000)"
  using read_double_efp [of v] by (auto simp: decode_dbl_def)

lemma encode_pair_sum:
  assumes "encode_pair net comm tot = Some (a, b)"
  shows "wrap64 (a + b) = tot"
  using assms by (auto simp: encode_pair_def Let_def split: if_splits)

text \<open>Amounts modulo \<open>2 ^ 64\<close> are words, where sums can be rearranged.\<close>

lemma wrap64_word [simp]: "of_int (wrap64 x) = (of_int x :: u64)"
  using wrap64_eq_mod [of x] by (simp add: word_of_int_eq_iff take_bit_eq_mod)

lemma wrap64_eq_iff: "wrap64 x = wrap64 y \<longleftrightarrow> (of_int x :: u64) = of_int y"
proof
  assume "(of_int x :: u64) = of_int y"
  then have "x mod 2 ^ 64 = y mod 2 ^ 64" by (simp add: word_of_int_eq_iff take_bit_eq_mod)
  then show "wrap64 x = wrap64 y" by (rule wrap64_cong)
qed (metis wrap64_word)

lemma encode_pair_splits: "in64 tot \<Longrightarrow> \<exists>a b. encode_pair net comm tot = Some (a, b)"
proof -
  assume t: "in64 tot"
  then have "wrap64 x = tot \<longleftrightarrow> (of_int x :: u64) = of_int tot" for x
    using wrap64_eq_iff [of x tot] by simp
  then show ?thesis by (simp add: encode_pair_def Let_def algebra_simps)
qed

end
