(* ===== verification/Exchange_Queue.thy ===== *)
theory Exchange_Queue
  imports Exchange_Amounts Ordered_Map
begin

text \<open>
  Orders of the exchange and the queues they wait in: \<open>src/tex/cex/order.{h,cpp}\<close>, \<open>matches.h\<close> and
  \<open>waiting_queue.{h,cpp}\<close>, for an engine without a directory, which keeps nothing on disk.

  The orders are objects on a heap and everything else holds their numbers: the queues here, and the tables of the
  engine and the accounts. A wallet is the amount available in it. What is written to the user is not modelled. The result \<open>None\<close>
  of an operation is a program that does not go on: an endless recursion or loop, or the use of a deleted object.
\<close>

section \<open>Data\<close>

record cex_order =
  o_id :: nat
  o_value :: efp
  o_buy :: bool
  o_weak :: bool
  o_account :: nat
  o_recv_cur :: int
  o_paid_cur :: int
  o_rate :: efp
  o_weak_cur :: int
  o_strong_cur :: int

type_synonym order_heap = "(nat, cex_order) omap"

record order_store =
  o_heap :: order_heap
  o_next :: nat

record match_info =
  mi_cost :: efp
  mi_cost_cur :: int
  mi_received :: efp
  mi_received_cur :: int
  mi_buy :: bool
  mi_weak :: bool

record matchitem =
  mi_order :: nat
  mi_lay :: match_info
  mi_back :: match_info
  mi_rate :: efp

record matches =
  m_items :: "matchitem list"
  m_unmatched :: efp
  m_expired :: "nat list"
  m_updated :: "nat list"

definition matches0 :: matches where
  "matches0 = \<lparr>m_items = [], m_unmatched = 0, m_expired = [], m_updated = []\<rparr>"

section \<open>Orders\<close>

definition new_cex_order :: "efp \<Rightarrow> bool \<Rightarrow> bool \<Rightarrow> order_store \<Rightarrow> nat \<times> order_store" where
  "new_cex_order v weak buy st =
     (let i = o_next st
      in (i, \<lparr>o_heap = om_set i \<lparr>o_id = i, o_value = v, o_buy = buy, o_weak = weak, o_account = 0, o_recv_cur = 0, o_paid_cur = 0,
                 o_rate = 0, o_weak_cur = 0, o_strong_cur = 0\<rparr> (o_heap st), o_next = Suc i\<rparr>))"

definition set_data :: "nat \<Rightarrow> int \<Rightarrow> int \<Rightarrow> efp \<Rightarrow> int \<Rightarrow> int \<Rightarrow> cex_order \<Rightarrow> cex_order" where
  "set_data acid recv paid rt wc sc ord =
     ord\<lparr>o_account := acid, o_recv_cur := recv, o_paid_cur := paid, o_rate := rt, o_weak_cur := wc, o_strong_cur := sc\<rparr>"

definition budget_for_update :: "efp \<Rightarrow> cex_order \<Rightarrow> efp" where
  "budget_for_update amount ord = wrap64 (amount - o_value ord)"

text \<open>How much of an order is to be matched with an amount, and what that costs. The recursion has no other end.\<close>

definition to_match :: "efp \<Rightarrow> efp \<Rightarrow> bool \<Rightarrow> bool \<Rightarrow> efp" where
  "to_match rate amount weak buy = (if buy then amount else if weak then dbl_mul amount rate else dbl_div amount rate)"

definition all_available :: "efp \<Rightarrow> efp \<Rightarrow> bool \<Rightarrow> bool \<Rightarrow> efp" where
  "all_available rate available weak buy =
     (if buy then (if weak then dbl_mul available rate else dbl_div available rate) else available)"

partial_function (option) could_match_value :: "efp \<Rightarrow> efp \<Rightarrow> efp \<Rightarrow> bool \<Rightarrow> bool \<Rightarrow> bool option" where
  [code]: "could_match_value available rate amount weak buy =
     (let ev = to_match rate amount weak buy
      in if ev = 0 then Some False
         else let cost = (if buy then ev else dbl_div ev rate)
              in if cost = 0 then Some False
                 else if available < cost then could_match_value available rate (all_available rate available weak buy) weak buy
                 else Some True)"

definition could_match_amount :: "efp \<Rightarrow> efp \<Rightarrow> bool \<Rightarrow> bool \<Rightarrow> bool" where
  "could_match_amount rate order_value weak buy =
     ((if buy then order_value else if weak then dbl_div order_value rate else dbl_mul order_value rate) \<noteq> 0)"

text \<open>What one match does: the two sides of it.\<close>

definition match_item :: "cex_order \<Rightarrow> efp \<Rightarrow> efp \<Rightarrow> efp \<Rightarrow> int \<Rightarrow> int \<Rightarrow> bool \<Rightarrow> bool \<Rightarrow> matchitem" where
  "match_item ord rate cost received cur lay_cur weak buy =
     (let (cc, rc) = (if o_buy ord then (lay_cur, cur) else (cur, lay_cur));
          (cc, rc) = (if o_buy ord then (rc, cc) else (cc, rc))
      in \<lparr>mi_order = o_id ord,
          mi_lay = \<lparr>mi_cost = received, mi_cost_cur = rc, mi_received = cost, mi_received_cur = cc, mi_buy = o_buy ord, mi_weak = o_weak ord\<rparr>,
          mi_back = \<lparr>mi_cost = cost, mi_cost_cur = cc, mi_received = received, mi_received_cur = rc, mi_buy = buy, mi_weak = weak\<rparr>,
          mi_rate = rate\<rparr>)"

text \<open>
  Matching with an order: whether it was, and the amount left; the wallet, the order and the matches. With too
  little in the wallet the amount is replaced.
\<close>

partial_function (option) order_match ::
  "efp \<Rightarrow> cex_order \<Rightarrow> matchitem list \<Rightarrow> efp \<Rightarrow> efp \<Rightarrow> int \<Rightarrow> int \<Rightarrow> bool \<Rightarrow> bool \<Rightarrow>
   ((bool \<times> efp) \<times> efp \<times> cex_order \<times> matchitem list) option" where
  [code]: "order_match w ord ms rate amount cur lay_cur weak buy =
     (let tm = to_match rate amount weak buy
      in if tm = 0 then Some ((False, amount), w, ord, ms)
         else let more = (tm > o_value ord);
                  received = (if more then o_value ord else tm);
                  cost = (if more \<or> buy then (if weak then dbl_div received rate else dbl_mul received rate) else amount)
              in if w < cost then order_match w ord ms rate (all_available rate w weak buy) cur lay_cur weak buy
                 else if cost = 0 then Some ((False, amount), w, ord, ms)
                 else Some ((True, wrap64 (amount - (if buy then received else cost))),
                            snd (cex_withdraw cost w),
                            ord\<lparr>o_value := (if more then 0 else wrap64 (o_value ord - received))\<rparr>,
                            ms @ [match_item ord rate cost received cur lay_cur weak buy]))"

section \<open>A queue\<close>

text \<open>The orders in the order of arrival, and the sum of their values.\<close>

record wqueue =
  wq_rate :: efp
  wq_invert :: bool
  wq_ids :: "nat list"
  wq_value :: efp

definition wqueue0 :: "efp \<Rightarrow> bool \<Rightarrow> wqueue" where
  "wqueue0 r iv = \<lparr>wq_rate = r, wq_invert = iv, wq_ids = [], wq_value = 0\<rparr>"

definition wq_new_order :: "efp \<Rightarrow> bool \<Rightarrow> bool \<Rightarrow> wqueue \<Rightarrow> order_store \<Rightarrow> nat option \<times> wqueue \<times> order_store" where
  "wq_new_order amount weak buy q st =
     (if amount < 1 then (None, q, st)
      else let (i, st) = new_cex_order amount weak buy st
           in (Some i, q\<lparr>wq_ids := wq_ids q @ [i], wq_value := wrap64 (wq_value q + amount)\<rparr>, st))"

text \<open>Taking an order out of the queue; the object stays.\<close>

definition wq_cancel :: "nat \<Rightarrow> wqueue \<Rightarrow> order_heap \<Rightarrow> (nat option \<times> wqueue) option" where
  "wq_cancel i q h =
     (if i \<notin> set (wq_ids q) then Some (None, q)
      else case om_find h i of
             None \<Rightarrow> None
           | Some ord \<Rightarrow> Some (Some i, q\<lparr>wq_ids := remove1 i (wq_ids q), wq_value := wrap64 (wq_value q - o_value ord)\<rparr>))"

text \<open>A smaller amount is written into the order; for a larger one a new order is queued.\<close>

definition wq_update :: "nat \<Rightarrow> efp \<Rightarrow> wqueue \<Rightarrow> order_store \<Rightarrow> (nat option \<times> wqueue \<times> order_store) option" where
  "wq_update i amount q st =
     (if amount < 1 \<or> i \<notin> set (wq_ids q) then Some (None, q, st)
      else case om_find (o_heap st) i of
             None \<Rightarrow> None
           | Some ord \<Rightarrow>
               (let v = wrap64 (wq_value q - o_value ord)
                in if amount \<le> o_value ord
                   then Some (None, q\<lparr>wq_value := wrap64 (v + amount)\<rparr>, st\<lparr>o_heap := om_set i (ord\<lparr>o_value := amount\<rparr>) (o_heap st)\<rparr>)
                   else let more = wrap64 (amount - o_value ord);
                            (j, st) = new_cex_order more (o_weak ord) (o_buy ord) st
                        in Some (Some j, q\<lparr>wq_ids := wq_ids q @ [j], wq_value := wrap64 (wrap64 (v + o_value ord) + more)\<rparr>, st)))"

text \<open>The loop that matches the first order until nothing is left of the amount or of the queue.\<close>

record match_state =
  ms_wallet :: efp
  ms_heap :: order_heap
  ms_matches :: matches
  ms_left :: efp

definition drop_expired :: "nat \<Rightarrow> cex_order \<Rightarrow> wqueue \<Rightarrow> wqueue" where
  "drop_expired i ord q = q\<lparr>wq_ids := remove1 i (wq_ids q), wq_value := wrap64 (wq_value q - o_value ord)\<rparr>"

definition matched_first :: "nat \<Rightarrow> cex_order \<Rightarrow> bool \<Rightarrow> efp \<Rightarrow> efp \<Rightarrow> matchitem list \<Rightarrow> cex_order \<Rightarrow> wqueue \<Rightarrow> match_state \<Rightarrow> wqueue \<times> match_state" where
  "matched_first i ord b left w items ord' q s =
     (q\<lparr>wq_value := wrap64 (wrap64 (wq_value q - o_value ord) + o_value ord')\<rparr>,
      \<lparr>ms_wallet = w, ms_heap = om_set i ord' (ms_heap s),
       ms_matches = (ms_matches s)\<lparr>m_items := items, m_updated := (if b then m_updated (ms_matches s) @ [i] else m_updated (ms_matches s))\<rparr>,
       ms_left = left\<rparr>)"

definition expire :: "nat \<Rightarrow> match_state \<Rightarrow> match_state" where
  "expire i s = s\<lparr>ms_matches := (ms_matches s)\<lparr>m_expired := m_expired (ms_matches s) @ [i]\<rparr>\<rparr>"

partial_function (option) wq_match ::
  "int \<Rightarrow> int \<Rightarrow> bool \<Rightarrow> bool \<Rightarrow> wqueue \<Rightarrow> match_state \<Rightarrow> (wqueue \<times> match_state) option" where
  [code]: "wq_match cur lay_cur weak buy q s =
     (case wq_ids q of
        [] \<Rightarrow> Some (q, s)
      | i # _ \<Rightarrow>
          (case could_match_value (ms_wallet s) (wq_rate q) (ms_left s) weak buy of
             None \<Rightarrow> None
           | Some go \<Rightarrow>
               (if \<not> go then Some (q, s)
                else case om_find (ms_heap s) i of
                       None \<Rightarrow> None
                     | Some ord \<Rightarrow>
                         (case order_match (ms_wallet s) ord (m_items (ms_matches s)) (wq_rate q) (ms_left s) cur lay_cur weak buy of
                            None \<Rightarrow> None
                          | Some ((b, left), w, ord', items) \<Rightarrow>
                              (let (q, s) = matched_first i ord b left w items ord' q s
                               in if could_match_amount (wq_rate q) (o_value ord') weak buy
                                  then wq_match cur lay_cur weak buy q s
                                  else wq_match cur lay_cur weak buy (drop_expired i ord' q) (expire i s))))))"

section \<open>The two queues of a rate\<close>

record wqueues =
  wq_high :: wqueue
  wq_low :: wqueue
  wq_hash_low :: "nat set"

definition wqueues0 :: "efp \<Rightarrow> bool \<Rightarrow> wqueues" where
  "wqueues0 r iv = \<lparr>wq_high = wqueue0 r iv, wq_low = wqueue0 r iv, wq_hash_low = {}\<rparr>"

definition qs_value :: "wqueues \<Rightarrow> efp" where
  "qs_value q = wrap64 (wq_value (wq_high q) + wq_value (wq_low q))"

definition qs_has_value :: "wqueues \<Rightarrow> bool" where
  "qs_has_value q \<longleftrightarrow> wq_value (wq_high q) \<noteq> 0 \<or> wq_value (wq_low q) \<noteq> 0"

definition wq_compare :: "efp \<Rightarrow> wqueue \<Rightarrow> bool" where
  "wq_compare otherrate q \<longleftrightarrow> (if wq_invert q then wq_rate q \<le> otherrate else wq_rate q \<ge> otherrate)"

definition qs_new_order :: "bool \<Rightarrow> efp \<Rightarrow> bool \<Rightarrow> bool \<Rightarrow> wqueues \<Rightarrow> order_store \<Rightarrow> nat option \<times> wqueues \<times> order_store" where
  "qs_new_order low amount weak buy q st =
     (if low
      then (case wq_new_order amount weak buy (wq_low q) st of
              (None, l, st) \<Rightarrow> (None, q\<lparr>wq_low := l\<rparr>, st)
            | (Some i, l, st) \<Rightarrow> (Some i, q\<lparr>wq_low := l, wq_hash_low := insert i (wq_hash_low q)\<rparr>, st))
      else (let (r, hq, st) = wq_new_order amount weak buy (wq_high q) st in (r, q\<lparr>wq_high := hq\<rparr>, st)))"

definition qs_cancel :: "nat \<Rightarrow> wqueues \<Rightarrow> order_heap \<Rightarrow> (nat option \<times> wqueues) option" where
  "qs_cancel i q h =
     (if i \<notin> wq_hash_low q then map_option (\<lambda>(r, hq). (r, q\<lparr>wq_high := hq\<rparr>)) (wq_cancel i (wq_high q) h)
      else map_option (\<lambda>(r, l). (r, q\<lparr>wq_low := l, wq_hash_low := (if r \<noteq> None then wq_hash_low q - {i} else wq_hash_low q)\<rparr>))
             (wq_cancel i (wq_low q) h))"

definition qs_update :: "nat \<Rightarrow> efp \<Rightarrow> wqueues \<Rightarrow> order_store \<Rightarrow> (nat option \<times> wqueues \<times> order_store) option" where
  "qs_update i amount q st =
     (if i \<notin> wq_hash_low q then map_option (\<lambda>(r, hq, st). (r, q\<lparr>wq_high := hq\<rparr>, st)) (wq_update i amount (wq_high q) st)
      else map_option (\<lambda>(r, l, st). (r, q\<lparr>wq_low := l, wq_hash_low := (case r of None \<Rightarrow> wq_hash_low q | Some j \<Rightarrow> insert j (wq_hash_low q))\<rparr>, st))
             (wq_update i amount (wq_low q) st))"

definition qs_match :: "int \<Rightarrow> int \<Rightarrow> bool \<Rightarrow> bool \<Rightarrow> wqueues \<Rightarrow> match_state \<Rightarrow> (wqueues \<times> match_state) option" where
  "qs_match cur lay_cur weak buy q s =
     (case wq_match cur lay_cur weak buy (wq_high q) s of
        None \<Rightarrow> None
      | Some (hq, s) \<Rightarrow>
          (if ms_left s = 0 then Some (q\<lparr>wq_high := hq\<rparr>, s)
           else map_option (\<lambda>(l, s). (q\<lparr>wq_high := hq, wq_low := l\<rparr>, s)) (wq_match cur lay_cur weak buy (wq_low q) s)))"

end
