(* ===== verification/Exchange_Market.thy ===== *)
theory Exchange_Market
  imports Exchange_Queue
begin

text \<open>
  The markets of the exchange: \<open>src/tex/cex/front.{h,cpp}\<close> and \<open>market.{h,cpp}\<close>. A market has two fronts, of the orders that pay
  with its weak and with its strong currency. A front is a priority queue of queues with different rates; the model keeps them
  sorted by rate, so that the top is the last one, or the first one when the priority is inverted.
\<close>

section \<open>Fronts\<close>

record front =
  f_cur :: int
  f_invert :: bool
  f_queues :: "(efp, wqueues) omap"
  f_by_order :: "(nat, efp) omap"
  f_valid :: "efp set option"

definition front0 :: "int \<Rightarrow> bool \<Rightarrow> front" where
  "front0 cur iv = \<lparr>f_cur = cur, f_invert = iv, f_queues = om_empty, f_by_order = om_empty, f_valid = None\<rparr>"

definition f_top :: "front \<Rightarrow> (efp \<times> wqueues) option" where
  "f_top f = (if f_queues f = [] then None else Some (if f_invert f then hd (f_queues f) else last (f_queues f)))"

text \<open>The loop that pops queues without value off the top.\<close>

definition trim :: "front \<Rightarrow> front" where
  "trim f =
     (let worthless = (\<lambda>(r, q). \<not> qs_has_value q)
      in f\<lparr>f_queues := (if f_invert f then dropWhile worthless (f_queues f) else rev (dropWhile worthless (rev (f_queues f))))\<rparr>)"

text \<open>The queue of a rate, made if there is none. Without a ruler the assertion fails (\<open>None\<close>).\<close>

definition get_queue_rate :: "efp \<Rightarrow> front \<Rightarrow> (wqueues option \<times> front) option" where
  "get_queue_rate r f =
     (case f_valid f of
        None \<Rightarrow> None
      | Some valid \<Rightarrow>
          (case om_find (f_queues f) r of
             Some q \<Rightarrow> Some (Some q, f)
           | None \<Rightarrow>
               (if r \<notin> valid then Some (None, f)
                else let q = wqueues0 r (f_invert f) in Some (Some q, f\<lparr>f_queues := om_set r q (f_queues f)\<rparr>))))"

definition front_new_order :: "bool \<Rightarrow> efp \<Rightarrow> efp \<Rightarrow> bool \<Rightarrow> bool \<Rightarrow> front \<Rightarrow> order_store \<Rightarrow> (nat option \<times> front \<times> order_store) option" where
  "front_new_order low r amount weak buy f st =
     (case get_queue_rate r f of
        None \<Rightarrow> None
      | Some (None, f) \<Rightarrow> Some (None, f, st)
      | Some (Some q, f) \<Rightarrow>
          (case qs_new_order low amount weak buy q st of
             (None, q, st) \<Rightarrow> Some (None, f\<lparr>f_queues := om_set r q (f_queues f)\<rparr>, st)
           | (Some i, q, st) \<Rightarrow>
               Some (Some i, f\<lparr>f_queues := om_set r q (f_queues f), f_by_order := om_emplace i r (f_by_order f)\<rparr>, st)))"

definition has_order :: "nat \<Rightarrow> front \<Rightarrow> bool" where
  "has_order i f \<longleftrightarrow> om_find (f_by_order f) i \<noteq> None"

text \<open>The queue of an order. One that was popped is empty, and finds no order.\<close>

definition get_queue_id :: "nat \<Rightarrow> front \<Rightarrow> (efp \<times> wqueues) option" where
  "get_queue_id i f =
     (case om_find (f_by_order f) i of
        None \<Rightarrow> None
      | Some r \<Rightarrow> map_option (Pair r) (om_find (f_queues f) r))"

definition front_cancel :: "nat \<Rightarrow> front \<Rightarrow> order_heap \<Rightarrow> (nat option \<times> front) option" where
  "front_cancel i f h =
     (case get_queue_id i f of
        None \<Rightarrow> Some (None, f)
      | Some (r, q) \<Rightarrow>
          (case qs_cancel i q h of
             None \<Rightarrow> None
           | Some (None, q) \<Rightarrow> Some (None, f\<lparr>f_queues := om_set r q (f_queues f)\<rparr>)
           | Some (Some j, q) \<Rightarrow>
               Some (Some j, trim (f\<lparr>f_queues := om_set r q (f_queues f), f_by_order := om_erase j (f_by_order f)\<rparr>))))"

definition front_update :: "nat \<Rightarrow> efp \<Rightarrow> front \<Rightarrow> order_store \<Rightarrow> (nat option \<times> front \<times> order_store) option" where
  "front_update i amount f st =
     (if amount < 1 then Some (None, f, st)
      else case get_queue_id i f of
             None \<Rightarrow> Some (None, f, st)
           | Some (r, q) \<Rightarrow>
               (case qs_update i amount q st of
                  None \<Rightarrow> None
                | Some (None, q, st) \<Rightarrow> Some (None, f\<lparr>f_queues := om_set r q (f_queues f)\<rparr>, st)
                | Some (Some j, q, st) \<Rightarrow>
                    Some (Some j, f\<lparr>f_queues := om_set r q (f_queues f), f_by_order := om_emplace j r (f_by_order f)\<rparr>, st)))"

text \<open>Only the top is looked at: the second round finds the same queue.\<close>

definition test_match :: "efp \<Rightarrow> front \<Rightarrow> bool" where
  "test_match limit f =
     (case f_top f of None \<Rightarrow> False | Some (r, q) \<Rightarrow> wq_compare limit (wq_high q) \<and> qs_has_value q)"

text \<open>Matching with the queues from the top, until one stays there.\<close>

partial_function (option) front_match_loop ::
  "int \<Rightarrow> int \<Rightarrow> bool \<Rightarrow> efp \<Rightarrow> efp option \<Rightarrow> front \<Rightarrow> match_state \<Rightarrow> (front \<times> match_state) option" where
  [code]: "front_match_loop cur lay_cur buy limit prev f s =
     (case f_top f of
        None \<Rightarrow> Some (f, s)
      | Some (r, q) \<Rightarrow>
          (if prev = Some r \<or> \<not> wq_compare limit (wq_high q) then Some (f, s)
           else case qs_match cur lay_cur (\<not> f_invert f) buy q s of
                  None \<Rightarrow> None
                | Some (q, s) \<Rightarrow>
                    front_match_loop cur lay_cur buy limit (Some r) (trim (f\<lparr>f_queues := om_set r q (f_queues f)\<rparr>)) s))"

definition front_match ::
  "efp \<Rightarrow> efp \<Rightarrow> efp \<Rightarrow> int \<Rightarrow> int \<Rightarrow> bool \<Rightarrow> front \<Rightarrow> order_heap \<Rightarrow> (matches \<times> efp \<times> front \<times> order_heap) option" where
  "front_match w limit amount cur lay_cur buy f h =
     map_option (\<lambda>(f, s).
         ((ms_matches s)\<lparr>m_unmatched := ms_left s\<rparr>, ms_wallet s,
          f\<lparr>f_by_order := foldl (\<lambda>m i. om_erase i m) (f_by_order f) (m_expired (ms_matches s))\<rparr>, ms_heap s))
       (front_match_loop cur lay_cur buy limit None f \<lparr>ms_wallet = w, ms_heap = h, ms_matches = matches0, ms_left = amount\<rparr>)"

section \<open>The ruler\<close>

text \<open>The remainder of C++ has the sign of the dividend.\<close>

definition c_rem :: "int \<Rightarrow> int \<Rightarrow> int" where
  "c_rem a b = sgn a * (\<bar>a\<bar> mod \<bar>b\<bar>)"

record ruler_def =
  r_min :: efp
  r_max :: efp
  r_increment :: efp

definition ruler0 :: ruler_def where
  "ruler0 = \<lparr>r_min = 0, r_max = 0, r_increment = rate_multiples\<rparr>"

definition ruler_update :: "efp \<Rightarrow> efp \<Rightarrow> efp \<Rightarrow> ruler_def" where
  "ruler_update mn mx inc =
     (let mn = mn - c_rem mn inc; mx = mx - c_rem mx inc;
          mn = (if mn < inc then inc else mn);
          mx = (if mx < mn then mn else mx)
      in \<lparr>r_min = mn, r_max = mx, r_increment = inc\<rparr>)"

definition snap :: "ruler_def \<Rightarrow> efp \<Rightarrow> efp" where
  "snap d v =
     (let v = v - c_rem v (r_increment d);
          v = (if v < r_min d then r_min d else v)
      in if v > r_max d then r_max d else v)"

partial_function (option) rates_from :: "efp \<Rightarrow> efp \<Rightarrow> efp \<Rightarrow> efp list \<Rightarrow> efp list option" where
  [code]: "rates_from mx inc r ans = (if r \<le> mx then rates_from mx inc (r + inc) (ans @ [r]) else Some ans)"

definition generate_rates :: "ruler_def \<Rightarrow> efp list option" where
  "generate_rates d = rates_from (r_max d) (r_increment d) (r_min d) []"

section \<open>Markets\<close>

record market =
  mk_weak_cur :: int
  mk_strong_cur :: int
  mk_ruler :: ruler_def
  mk_weak :: front
  mk_strong :: front
  mk_rates :: "efp list"

definition market0 :: "int \<Rightarrow> int \<Rightarrow> market" where
  "market0 wc sc =
     \<lparr>mk_weak_cur = wc, mk_strong_cur = sc, mk_ruler = ruler0, mk_weak = front0 wc False, mk_strong = front0 sc True, mk_rates = []\<rparr>"

definition market_key :: "int \<Rightarrow> int \<Rightarrow> int \<times> int" where
  "market_key i j = (if i < j then i else j, if i < j then j else i)"

definition other_cur :: "market \<Rightarrow> int \<Rightarrow> int" where
  "other_cur m cur = (if cur = mk_weak_cur m then mk_strong_cur m else mk_weak_cur m)"

definition market_set_ruler :: "efp \<Rightarrow> efp \<Rightarrow> efp \<Rightarrow> market \<Rightarrow> market option" where
  "market_set_ruler mn mx inc m =
     (let d = ruler_update mn mx inc
      in map_option (\<lambda>rs. m\<lparr>mk_ruler := d, mk_weak := (mk_weak m)\<lparr>f_valid := Some (set rs)\<rparr>,
                            mk_strong := (mk_strong m)\<lparr>f_valid := Some (set rs)\<rparr>, mk_rates := sort (remdups rs)\<rparr>)
           (generate_rates d))"

record trade_result =
  t_error :: bool
  t_matches :: matches
  t_order :: "nat option"
  t_order_rate :: efp
  t_paid_cur :: int
  t_recv_cur :: int
  t_weak_cur :: int
  t_strong_cur :: int

text \<open>
  Trading one currency of the market for the other: first with the orders of the other front, then, with what is
  left, by a new order in the own front; with low priority only the latter, and nothing at all if there is a match. The
  two functions are alike: \<open>wk\<close> is true when the weak currency is paid.
\<close>

definition own_front :: "bool \<Rightarrow> market \<Rightarrow> front" where
  "own_front wk m = (if wk then mk_weak m else mk_strong m)"

definition set_front :: "bool \<Rightarrow> front \<Rightarrow> market \<Rightarrow> market" where
  "set_front wk f m = (if wk then m\<lparr>mk_weak := f\<rparr> else m\<lparr>mk_strong := f\<rparr>)"

definition own_cur :: "bool \<Rightarrow> market \<Rightarrow> int" where
  "own_cur wk m = (if wk then mk_weak_cur m else mk_strong_cur m)"

definition trade_result0 :: "bool \<Rightarrow> market \<Rightarrow> matches \<Rightarrow> trade_result" where
  "trade_result0 wk m ms =
     \<lparr>t_error = False, t_matches = ms, t_order = None, t_order_rate = 0, t_paid_cur = own_cur wk m, t_recv_cur = own_cur (\<not> wk) m,
      t_weak_cur = mk_weak_cur m, t_strong_cur = mk_strong_cur m\<rparr>"

definition queue_unmatched ::
  "bool \<Rightarrow> efp \<Rightarrow> efp \<Rightarrow> bool \<Rightarrow> bool \<Rightarrow> matches \<Rightarrow> market \<Rightarrow> order_store \<Rightarrow> (trade_result \<times> efp \<times> market \<times> order_store) option" where
  "queue_unmatched wk w limit buy low ms m st =
     (let r = trade_result0 wk m ms; un = m_unmatched ms
      in if (if wk then un = 0 else un \<le> 0) then Some (r, w, m, st)
         else case could_match_value w limit un wk buy of
                None \<Rightarrow> None
              | Some False \<Rightarrow> Some (r, w, m, st)
              | Some True \<Rightarrow>
                  (let un = (if buy then (if wk then dbl_mul un limit else dbl_div un limit) else un);
                       un = (if w < un then w else un)
                   in case front_new_order low limit un wk buy (own_front wk m) st of
                        None \<Rightarrow> None
                      | Some (None, f, st) \<Rightarrow> Some (r\<lparr>t_error := True\<rparr>, w, set_front wk f m, st)
                      | Some (Some i, f, st) \<Rightarrow>
                          Some (r\<lparr>t_order := Some i, t_order_rate := limit\<rparr>, snd (cex_withdraw un w), set_front wk f m, st)))"

definition trade_on ::
  "bool \<Rightarrow> efp \<Rightarrow> efp \<Rightarrow> efp \<Rightarrow> bool \<Rightarrow> bool \<Rightarrow> market \<Rightarrow> order_store \<Rightarrow> (trade_result \<times> efp \<times> market \<times> order_store) option" where
  "trade_on wk w limit amount buy low m st =
     (if low
      then (if test_match limit (own_front (\<not> wk) m) then Some (trade_result0 wk m matches0, w, m, st)
            else queue_unmatched wk w limit buy low (matches0\<lparr>m_unmatched := amount\<rparr>) m st)
      else case front_match w limit amount (own_cur wk m) (own_cur (\<not> wk) m) buy (own_front (\<not> wk) m) (o_heap st) of
             None \<Rightarrow> None
           | Some (ms, w, f, h) \<Rightarrow> queue_unmatched wk w limit buy low ms (set_front (\<not> wk) f m) (st\<lparr>o_heap := h\<rparr>))"

definition trade_weak ::
  "efp \<Rightarrow> efp \<Rightarrow> efp \<Rightarrow> bool \<Rightarrow> bool \<Rightarrow> market \<Rightarrow> order_store \<Rightarrow> (trade_result \<times> efp \<times> market \<times> order_store) option" where
  "trade_weak = trade_on True"

definition trade_strong ::
  "efp \<Rightarrow> efp \<Rightarrow> efp \<Rightarrow> bool \<Rightarrow> bool \<Rightarrow> market \<Rightarrow> order_store \<Rightarrow> (trade_result \<times> efp \<times> market \<times> order_store) option" where
  "trade_strong = trade_on False"

definition market_trade ::
  "efp \<Rightarrow> int \<Rightarrow> efp \<Rightarrow> efp \<Rightarrow> bool \<Rightarrow> bool \<Rightarrow> market \<Rightarrow> order_store \<Rightarrow> (trade_result \<times> efp \<times> market \<times> order_store) option" where
  "market_trade w cur limit amount buy low m st =
     (if cur = mk_strong_cur m
      then (if buy then trade_weak w limit amount buy low m st else trade_strong w limit amount buy low m st)
      else (if buy then trade_strong w limit amount buy low m st else trade_weak w limit amount buy low m st))"

definition market_update :: "nat \<Rightarrow> efp \<Rightarrow> market \<Rightarrow> order_store \<Rightarrow> (nat option \<times> market \<times> order_store) option" where
  "market_update i amount m st =
     (let wk = has_order i (mk_weak m)
      in map_option (\<lambda>(r, f, st). (r, set_front wk f m, st)) (front_update i amount (own_front wk m) st))"

definition market_cancel :: "nat \<Rightarrow> market \<Rightarrow> order_heap \<Rightarrow> (nat option \<times> market) option" where
  "market_cancel i m h =
     (let wk = has_order i (mk_weak m)
      in map_option (\<lambda>(r, f). (r, set_front wk f m)) (front_cancel i (own_front wk m) h))"

end
