(* ===== verification/Exchange.thy ===== *)
theory Exchange
  imports Exchange_Market "HOL-Library.Product_Lexorder"
begin

text \<open>
  The exchange: the accounts of \<open>src/tex/cex/account.{h,cpp}\<close> and the engine of \<open>engine.{h,cpp}\<close> with the requests of its
  users. The hash of a password is a parameter; the history of trades, which is only printed, and the texts for the user are
  not modelled. \<open>None\<close> is a program that does not go on, as for the queues.
\<close>

section \<open>Accounts\<close>

record account =
  a_wallets :: "(int, efp) omap"
  a_orders :: "nat set"
  a_password :: nat
  a_discount :: rat

definition account0 :: "nat \<Rightarrow> account" where
  "account0 pwd = \<lparr>a_wallets = om_empty, a_orders = {}, a_password = pwd, a_discount = 0\<rparr>"

definition account_new_wallet :: "int \<Rightarrow> account \<Rightarrow> bool \<times> account" where
  "account_new_wallet cid a =
     (case om_find (a_wallets a) cid of Some _ \<Rightarrow> (False, a) | None \<Rightarrow> (True, a\<lparr>a_wallets := om_set cid 0 (a_wallets a)\<rparr>))"

definition account_delete_wallet :: "int \<Rightarrow> account \<Rightarrow> bool \<times> account" where
  "account_delete_wallet cid a =
     (case om_find (a_wallets a) cid of
        None \<Rightarrow> (False, a)
      | Some w \<Rightarrow> if w > 0 then (False, a) else (True, a\<lparr>a_wallets := om_erase cid (a_wallets a)\<rparr>))"

definition account_delete_all_wallets :: "account \<Rightarrow> bool \<times> account" where
  "account_delete_all_wallets a =
     (let ws = filter (\<lambda>(c, w). w > 0) (a_wallets a) in (ws = [], a\<lparr>a_wallets := ws\<rparr>))"

definition account_deposit :: "int \<Rightarrow> efp \<Rightarrow> account \<Rightarrow> account" where
  "account_deposit cid amount a =
     (let a = snd (account_new_wallet cid a); w = (case om_find (a_wallets a) cid of Some w \<Rightarrow> w | None \<Rightarrow> 0)
      in a\<lparr>a_wallets := om_set cid (cex_deposit amount w) (a_wallets a)\<rparr>)"

definition account_withdraw :: "int \<Rightarrow> efp \<Rightarrow> account \<Rightarrow> efp \<times> account" where
  "account_withdraw cid amount a =
     (case om_find (a_wallets a) cid of
        None \<Rightarrow> (0, a)
      | Some w \<Rightarrow> let (r, w) = cex_withdraw amount w in (r, a\<lparr>a_wallets := om_set cid w (a_wallets a)\<rparr>))"

definition set_commission_discount :: "rat \<Rightarrow> account \<Rightarrow> account" where
  "set_commission_discount d a = (if d > 1 \<or> d < 0 then a else a\<lparr>a_discount := d\<rparr>)"

definition untrack_order :: "nat \<Rightarrow> account \<Rightarrow> account" where
  "untrack_order i a = a\<lparr>a_orders := a_orders a - {i}\<rparr>"

definition track_order :: "nat \<Rightarrow> account \<Rightarrow> account" where
  "track_order i a = a\<lparr>a_orders := insert i (a_orders a)\<rparr>"

section \<open>The engine\<close>

record exchange =
  e_accounts :: "(nat, account) omap"
  e_orders :: "nat set"
  e_markets :: "(int \<times> int, market) omap"
  e_store :: order_store
  e_next_account :: nat
  e_auto_match_free :: bool

definition system_account :: nat where "system_account = 1"

definition at_account :: "nat \<Rightarrow> (account \<Rightarrow> account) \<Rightarrow> exchange \<Rightarrow> exchange" where
  "at_account acid g e =
     (case om_find (e_accounts e) acid of None \<Rightarrow> e | Some a \<Rightarrow> e\<lparr>e_accounts := om_set acid (g a) (e_accounts e)\<rparr>)"

definition at_heap :: "(order_heap \<Rightarrow> order_heap) \<Rightarrow> exchange \<Rightarrow> exchange" where
  "at_heap g e = e\<lparr>e_store := (e_store e)\<lparr>o_heap := g (o_heap (e_store e))\<rparr>\<rparr>"

definition find_market :: "int \<Rightarrow> int \<Rightarrow> exchange \<Rightarrow> market option" where
  "find_market i j e = om_find (e_markets e) (market_key i j)"

definition set_market :: "int \<Rightarrow> int \<Rightarrow> market \<Rightarrow> exchange \<Rightarrow> exchange" where
  "set_market i j m e = e\<lparr>e_markets := om_set (market_key i j) m (e_markets e)\<rparr>"

definition new_account :: "(string \<Rightarrow> nat) \<Rightarrow> string \<Rightarrow> exchange \<Rightarrow> nat \<times> exchange" where
  "new_account hash pwd e =
     (if length pwd < 8 then (0, e)
      else let i = e_next_account e;
               a = snd (account_new_wallet cur_usd (snd (account_new_wallet cur_gbp (snd (account_new_wallet cur_eur (account0 (hash pwd)))))))
           in (i, e\<lparr>e_accounts := om_emplace i a (e_accounts e), e_next_account := Suc i\<rparr>))"

text \<open>The markets with their rulers.\<close>

definition sample_markets :: "(int \<times> int \<times> efp \<times> efp) list" where
  "sample_markets =
     [(cur_eur, cur_gbp, encode_dbl 1, encode_dbl 2), (cur_usd, cur_eur, encode_dbl (fl (7 / 10)), encode_dbl (3 / 2)),
      (cur_aud, cur_eur, encode_dbl 1, encode_dbl 2), (cur_usd, cur_gbp, encode_dbl 1, encode_dbl 2),
      (cur_aud, cur_gbp, encode_dbl (3 / 2), encode_dbl (5 / 2)), (cur_aud, cur_usd, encode_dbl 1, encode_dbl 2)]"

definition create_market :: "int \<Rightarrow> int \<Rightarrow> exchange \<Rightarrow> exchange" where
  "create_market wc sc e = e\<lparr>e_markets := om_emplace (market_key wc sc) (market0 wc sc) (e_markets e)\<rparr>"

definition set_ruler :: "int \<Rightarrow> int \<Rightarrow> efp \<Rightarrow> efp \<Rightarrow> efp \<Rightarrow> exchange \<Rightarrow> exchange option" where
  "set_ruler i j mn mx inc e =
     (case find_market i j e of
        None \<Rightarrow> Some e
      | Some m \<Rightarrow> map_option (\<lambda>m. set_market i j m e) (market_set_ruler mn mx inc m))"

definition engine0 :: exchange where
  "engine0 = \<lparr>e_accounts = om_empty, e_orders = {}, e_markets = om_empty, e_store = \<lparr>o_heap = om_empty, o_next = 1\<rparr>,
     e_next_account = 1, e_auto_match_free = True\<rparr>"

definition engine_start :: "(string \<Rightarrow> nat) \<Rightarrow> exchange option" where
  "engine_start hash =
     (let e = snd (new_account hash ''11111111'' engine0);
          e = foldl (\<lambda>e (wc, sc, _). create_market wc sc e) e sample_markets
      in foldl (\<lambda>r (wc, sc, mn, mx). Option.bind r (set_ruler wc sc mn mx rate_multiples)) (Some e) sample_markets)"

text \<open>Access to an account; that of the system is closed.\<close>

definition auth :: "(string \<Rightarrow> nat) \<Rightarrow> nat \<Rightarrow> string \<Rightarrow> exchange \<Rightarrow> bool" where
  "auth hash acid pwd e \<longleftrightarrow>
     acid \<noteq> system_account \<and> (case om_find (e_accounts e) acid of None \<Rightarrow> False | Some a \<Rightarrow> hash pwd = a_password a)"

section \<open>Accounting\<close>

definition cex_pay0 :: "nat \<Rightarrow> int \<Rightarrow> efp \<Rightarrow> efp \<Rightarrow> exchange \<Rightarrow> exchange" where
  "cex_pay0 acid cur net commission e =
     at_account acid (account_deposit cur net) (at_account system_account (account_deposit cur commission) e)"

definition commission_rate :: "rat \<Rightarrow> rat" where
  "commission_rate discount = fl (fl (1 / 200) * fl (1 - discount))"

definition cex_pay :: "nat \<Rightarrow> int \<Rightarrow> efp \<Rightarrow> exchange \<Rightarrow> exchange option" where
  "cex_pay acid cur amount e =
     (case om_find (e_accounts e) acid of
        None \<Rightarrow> None
      | Some a \<Rightarrow>
          (let am = decode_dbl amount; commission = fl (am * commission_rate (a_discount a))
           in map_option (\<lambda>(net, comm). cex_pay0 acid cur net comm e) (encode_pair (fl (am - commission)) commission amount)))"

text \<open>Paying the two sides of the matches; there is no commission on a trade of an account with itself.\<close>

fun process_items :: "nat \<Rightarrow> matchitem list \<Rightarrow> exchange \<Rightarrow> exchange option" where
  "process_items acid [] e = Some e"
| "process_items acid (i # ms) e =
     (case om_find (o_heap (e_store e)) (mi_order i) of
        None \<Rightarrow> None
      | Some ord \<Rightarrow>
          (if mi_order i \<notin> e_orders e \<or> om_find (e_accounts e) (o_account ord) = None then None
           else if acid = o_account ord \<and> e_auto_match_free e
           then process_items acid ms
                  (cex_pay0 acid (mi_received_cur (mi_back i)) (mi_received (mi_back i)) 0
                    (cex_pay0 (o_account ord) (mi_received_cur (mi_lay i)) (mi_received (mi_lay i)) 0 e))
           else case cex_pay (o_account ord) (mi_received_cur (mi_lay i)) (mi_received (mi_lay i)) e of
                  None \<Rightarrow> None
                | Some e \<Rightarrow>
                    (case cex_pay acid (mi_received_cur (mi_back i)) (mi_received (mi_back i)) e of
                       None \<Rightarrow> None
                     | Some e \<Rightarrow> process_items acid ms e)))"

text \<open>The loop over the orders that expired: what is left of them goes back, and they are deleted.\<close>

fun refund_expired :: "nat list \<Rightarrow> exchange \<Rightarrow> exchange option" where
  "refund_expired [] e = Some e"
| "refund_expired (i # xs) e =
     (case om_find (o_heap (e_store e)) i of
        None \<Rightarrow> None
      | Some ord \<Rightarrow>
          (if om_find (e_accounts e) (o_account ord) = None then None
           else refund_expired xs
                  (at_heap (om_erase i)
                    ((at_account (o_account ord) (untrack_order i \<circ> account_deposit (o_paid_cur ord) (o_value ord)) e)
                      \<lparr>e_orders := e_orders e - {i}\<rparr>))))"

text \<open>The new order, if there is one, the matches and the expired orders of a trade.\<close>

definition register_order :: "nat \<Rightarrow> trade_result \<Rightarrow> exchange \<Rightarrow> exchange" where
  "register_order acid r e =
     (case t_order r of
        None \<Rightarrow> e
      | Some i \<Rightarrow>
          at_account acid (track_order i)
            ((at_heap (\<lambda>h. case om_find h i of
                None \<Rightarrow> h
              | Some ord \<Rightarrow> om_set i (set_data acid (t_recv_cur r) (t_paid_cur r) (t_order_rate r) (t_weak_cur r) (t_strong_cur r) ord) h) e)
              \<lparr>e_orders := insert i (e_orders e)\<rparr>))"

definition process_result :: "nat \<Rightarrow> trade_result \<Rightarrow> exchange \<Rightarrow> exchange option" where
  "process_result acid r e =
     Option.bind (process_items acid (m_items (t_matches r)) (register_order acid r e)) (refund_expired (m_expired (t_matches r)))"

section \<open>Requests\<close>

text \<open>The limits are the currencies that name the market.\<close>

definition sell :: "nat \<Rightarrow> int \<Rightarrow> int \<Rightarrow> int \<Rightarrow> efp \<Rightarrow> efp \<Rightarrow> bool \<Rightarrow> bool \<Rightarrow> exchange \<Rightarrow> exchange option" where
  "sell acid wc sc cid limit amount buy low e =
     (case (find_market wc sc e, om_find (e_accounts e) acid) of
        (Some m, Some a) \<Rightarrow>
          (let charge = (if buy then other_cur m cid else cid)
           in case om_find (a_wallets a) charge of
                None \<Rightarrow> Some e
              | Some w \<Rightarrow>
                  (case market_trade w cid limit amount buy low m (e_store e) of
                     None \<Rightarrow> None
                   | Some (r, w, m, st) \<Rightarrow>
                       (let e = at_account acid (\<lambda>a. a\<lparr>a_wallets := om_set charge w (a_wallets a)\<rparr>) (set_market wc sc m (e\<lparr>e_store := st\<rparr>))
                        in if t_error r then Some (at_account acid (account_deposit cid amount) e)
                           else process_result acid r e)))
      | _ \<Rightarrow> None)"

record tradeinput =
  ti_code :: string
  ti_amount :: string
  ti_cur :: string
  ti_rate :: string
  ti_rateunits :: string

text \<open>A text that is read as a negative \<open>double\<close>, or is not read at all.\<close>

definition negative_text :: "string \<Rightarrow> bool" where
  "negative_text s \<longleftrightarrow> (case read_double (istr s) of (None, _) \<Rightarrow> True | (Some d, _) \<Rightarrow> d < 0)"

fun split_on :: "char \<Rightarrow> string \<Rightarrow> string list" where
  "split_on c [] = [[]]"
| "split_on c (x # s) = (if x = c then [] # split_on c s else (case split_on c s of [] \<Rightarrow> [[x]] | w # ws \<Rightarrow> (x # w) # ws))"

definition trade_one :: "nat \<Rightarrow> bool \<Rightarrow> exchange \<Rightarrow> tradeinput \<Rightarrow> exchange option" where
  "trade_one acid low e i =
     (if ti_code i \<noteq> ''B'' \<and> ti_code i \<noteq> ''S'' \<or> negative_text (ti_amount i) then Some e
      else let amount = efp_encode (ti_amount i); curid = strcur (ti_cur i); rate = efp_encode (ti_rate i)
           in if amount = 0 \<or> curid = 0 \<or> rate = 0 then Some e
              else case split_on CHR ''/'' (ti_rateunits i) of
                     [w, s] \<Rightarrow>
                       (if strcur w = 0 \<or> strcur s = 0 \<or> find_market (strcur w) (strcur s) e = None then Some e
                        else sell acid (strcur w) (strcur s) curid rate amount (ti_code i = ''B'') low e)
                   | _ \<Rightarrow> Some e)"

fun trade_each :: "nat \<Rightarrow> bool \<Rightarrow> tradeinput list \<Rightarrow> exchange \<Rightarrow> exchange option" where
  "trade_each acid low [] e = Some e"
| "trade_each acid low (i # xs) e = (case trade_one acid low e i of None \<Rightarrow> None | Some e \<Rightarrow> trade_each acid low xs e)"

definition trade :: "(string \<Rightarrow> nat) \<Rightarrow> nat \<Rightarrow> string \<Rightarrow> bool \<Rightarrow> tradeinput list \<Rightarrow> exchange \<Rightarrow> exchange option" where
  "trade hash acid pwd low xs e = (if \<not> auth hash acid pwd e then Some e else trade_each acid low xs e)"

text \<open>Taking an order out of its market: whether it was there.\<close>

definition cancel_in :: "nat \<Rightarrow> nat \<Rightarrow> exchange \<Rightarrow> (bool \<times> exchange) option" where
  "cancel_in acid i e =
     (case om_find (o_heap (e_store e)) i of
        None \<Rightarrow> None
      | Some ord \<Rightarrow>
          (case find_market (o_weak_cur ord) (o_strong_cur ord) e of
             None \<Rightarrow> None
           | Some m \<Rightarrow>
               (case market_cancel i m (o_heap (e_store e)) of
                  None \<Rightarrow> None
                | Some (None, m) \<Rightarrow> Some (False, set_market (o_weak_cur ord) (o_strong_cur ord) m e)
                | Some (Some j, m) \<Rightarrow>
                    Some (True,
                      at_heap (om_erase i)
                        ((at_account acid (account_deposit (o_paid_cur ord) (o_value ord) \<circ> untrack_order i)
                           (set_market (o_weak_cur ord) (o_strong_cur ord) m e))\<lparr>e_orders := e_orders e - {i}\<rparr>)))))"

definition belongs :: "nat \<Rightarrow> nat \<Rightarrow> exchange \<Rightarrow> bool" where
  "belongs acid i e \<longleftrightarrow> i \<in> e_orders e \<and> (case om_find (o_heap (e_store e)) i of None \<Rightarrow> False | Some ord \<Rightarrow> o_account ord = acid)"

definition cancel_order :: "(string \<Rightarrow> nat) \<Rightarrow> nat \<Rightarrow> string \<Rightarrow> nat \<Rightarrow> exchange \<Rightarrow> exchange option" where
  "cancel_order hash acid pwd i e =
     (if \<not> auth hash acid pwd e \<or> \<not> belongs acid i e then Some e else map_option snd (cancel_in acid i e))"

definition check_withdrawn :: "efp \<Rightarrow> bool" where
  "check_withdrawn withdrawn \<longleftrightarrow> withdrawn \<noteq> 0"

definition update_in :: "nat \<Rightarrow> nat \<Rightarrow> efp \<Rightarrow> exchange \<Rightarrow> exchange option" where
  "update_in acid i amount e =
     (case om_find (o_heap (e_store e)) i of
        None \<Rightarrow> None
      | Some ord \<Rightarrow>
          (let budget = budget_for_update amount ord;
               (withdrawn, e') =
                 (if budget > 0
                  then (case om_find (e_accounts e) acid of
                          None \<Rightarrow> (0, e)
                        | Some a \<Rightarrow> let (r, a) = account_withdraw (o_paid_cur ord) budget a
                                    in (r, e\<lparr>e_accounts := om_set acid a (e_accounts e)\<rparr>))
                  else (1, at_account acid (account_deposit (o_paid_cur ord) (wrap64 (- budget))) e))
           in if \<not> check_withdrawn withdrawn then Some e'
              else case find_market (o_weak_cur ord) (o_strong_cur ord) e' of
                     None \<Rightarrow> None
                   | Some m \<Rightarrow>
                       (case market_update i amount m (e_store e') of
                          None \<Rightarrow> None
                        | Some (None, m, st) \<Rightarrow> Some (set_market (o_weak_cur ord) (o_strong_cur ord) m (e'\<lparr>e_store := st\<rparr>))
                        | Some (Some j, m, st) \<Rightarrow>
                            Some (at_account acid (track_order j)
                              ((at_heap (\<lambda>h. case om_find h j of
                                  None \<Rightarrow> h
                                | Some new \<Rightarrow> om_set j (set_data (o_account ord) (o_recv_cur ord) (o_paid_cur ord) (o_rate ord)
                                                (o_weak_cur ord) (o_strong_cur ord) new) h)
                                 (set_market (o_weak_cur ord) (o_strong_cur ord) m (e'\<lparr>e_store := st\<rparr>)))
                                \<lparr>e_orders := insert j (e_orders e')\<rparr>)))))"

text \<open>The request for one order of the user.\<close>

definition update_order :: "(string \<Rightarrow> nat) \<Rightarrow> nat \<Rightarrow> string \<Rightarrow> nat \<Rightarrow> string \<Rightarrow> exchange \<Rightarrow> exchange option" where
  "update_order hash acid pwd i amount e =
     (let am = efp_encode amount
      in if am < 1 then cancel_order hash acid pwd i e
         else if \<not> auth hash acid pwd e \<or> \<not> belongs acid i e then Some e
         else update_in acid i am e)"

text \<open>
  The request for several orders. It is not asked whose they are. With another rate the order is cancelled and its
  object, deleted by then, is read again for the side of the new one (\<open>junk\<close>).
\<close>

record updateinput =
  ui_order :: string
  ui_amount :: string
  ui_rate :: string

definition update_one :: "bool \<Rightarrow> nat \<Rightarrow> exchange \<Rightarrow> updateinput \<Rightarrow> exchange option" where
  "update_one junk acid e u =
     (let i = (case read_unsigned 64 (istr (ui_order u)) of (Some i, _) \<Rightarrow> i | (None, _) \<Rightarrow> 0);
          amount = efp_encode (ui_amount u); rate = efp_encode (ui_rate u);
          bad_rate = (case read_double (istr (ui_rate u)) of (None, _) \<Rightarrow> True | (Some d, _) \<Rightarrow> d = -1)
      in if i = 0 \<or> negative_text (ui_amount u) \<or> bad_rate \<or> i \<notin> e_orders e then Some e
         else case om_find (o_heap (e_store e)) i of
                None \<Rightarrow> None
              | Some ord \<Rightarrow>
                  (if amount < 1 then map_option snd (cancel_in acid i e)
                   else if rate \<noteq> o_rate ord
                   then (case cancel_in acid i e of
                           None \<Rightarrow> None
                         | Some (_, e) \<Rightarrow>
                             sell acid (o_weak_cur ord) (o_strong_cur ord) (if o_buy ord then o_recv_cur ord else o_paid_cur ord)
                               rate amount junk False e)
                   else update_in acid i amount e))"

fun update_each :: "bool \<Rightarrow> nat \<Rightarrow> updateinput list \<Rightarrow> exchange \<Rightarrow> exchange option" where
  "update_each junk acid [] e = Some e"
| "update_each junk acid (u # us) e = (case update_one junk acid e u of None \<Rightarrow> None | Some e \<Rightarrow> update_each junk acid us e)"

definition update :: "(string \<Rightarrow> nat) \<Rightarrow> bool \<Rightarrow> nat \<Rightarrow> string \<Rightarrow> updateinput list \<Rightarrow> exchange \<Rightarrow> exchange option" where
  "update hash junk acid pwd us e = (if \<not> auth hash acid pwd e then Some e else update_each junk acid us e)"

text \<open>Cancelling all orders of an account, in any order of its table; one that cannot be aborts the program.\<close>

fun cancel_each :: "nat \<Rightarrow> nat list \<Rightarrow> exchange \<Rightarrow> exchange option" where
  "cancel_each acid [] e = Some e"
| "cancel_each acid (i # xs) e =
     (case cancel_in acid i e of Some (True, e) \<Rightarrow> cancel_each acid xs e | _ \<Rightarrow> None)"

definition cancel_all_orders :: "(string \<Rightarrow> nat) \<Rightarrow> (nat set \<Rightarrow> nat list) \<Rightarrow> nat \<Rightarrow> string \<Rightarrow> exchange \<Rightarrow> exchange option" where
  "cancel_all_orders hash list acid pwd e =
     (if \<not> auth hash acid pwd e then Some e
      else case om_find (e_accounts e) acid of None \<Rightarrow> None | Some a \<Rightarrow> cancel_each acid (list (a_orders a)) e)"

definition request_deposit :: "(string \<Rightarrow> nat) \<Rightarrow> nat \<Rightarrow> string \<Rightarrow> int \<Rightarrow> string \<Rightarrow> exchange \<Rightarrow> exchange" where
  "request_deposit hash acid pwd cid amount e =
     (if \<not> auth hash acid pwd e \<or> \<not> is_valid_cur cid \<or> negative_text amount \<or> efp_encode amount = 0 then e
      else at_account acid (account_deposit cid (efp_encode amount)) e)"

definition request_withdraw :: "(string \<Rightarrow> nat) \<Rightarrow> nat \<Rightarrow> string \<Rightarrow> int \<Rightarrow> string \<Rightarrow> exchange \<Rightarrow> exchange" where
  "request_withdraw hash acid pwd cid amount e =
     (if \<not> auth hash acid pwd e \<or> \<not> is_valid_cur cid \<or> negative_text amount \<or> efp_encode amount = 0 then e
      else at_account acid (\<lambda>a. snd (account_withdraw cid (efp_encode amount) a)) e)"

definition at_own_account :: "(string \<Rightarrow> nat) \<Rightarrow> nat \<Rightarrow> string \<Rightarrow> (account \<Rightarrow> account) \<Rightarrow> exchange \<Rightarrow> exchange" where
  "at_own_account hash acid pwd g e = (if \<not> auth hash acid pwd e then e else at_account acid g e)"

definition new_wallet :: "(string \<Rightarrow> nat) \<Rightarrow> nat \<Rightarrow> string \<Rightarrow> int \<Rightarrow> exchange \<Rightarrow> exchange" where
  "new_wallet hash acid pwd cid = at_own_account hash acid pwd (\<lambda>a. if is_valid_cur cid then snd (account_new_wallet cid a) else a)"

definition delete_wallet :: "(string \<Rightarrow> nat) \<Rightarrow> nat \<Rightarrow> string \<Rightarrow> int \<Rightarrow> exchange \<Rightarrow> exchange" where
  "delete_wallet hash acid pwd cid = at_own_account hash acid pwd (\<lambda>a. if is_valid_cur cid then snd (account_delete_wallet cid a) else a)"

definition delete_all_wallets :: "(string \<Rightarrow> nat) \<Rightarrow> nat \<Rightarrow> string \<Rightarrow> exchange \<Rightarrow> exchange" where
  "delete_all_wallets hash acid pwd = at_own_account hash acid pwd (snd \<circ> account_delete_all_wallets)"

section \<open>The money in the exchange\<close>

text \<open>
  The sums the engine compares with each other in its own test: the wallets of all accounts with the orders in the
  tables of the engine, of the accounts, and of the queues. \<open>total_money\<close> is the third one.
\<close>

definition wallet_money :: "int \<Rightarrow> exchange \<Rightarrow> efp" where
  "wallet_money cur e = om_sum (\<lambda>a. case om_find (a_wallets a) cur of Some w \<Rightarrow> w | None \<Rightarrow> 0) (e_accounts e)"

definition front_money :: "front \<Rightarrow> efp" where
  "front_money f = om_sum qs_value (f_queues f)"

definition total_money :: "int \<Rightarrow> exchange \<Rightarrow> efp" where
  "total_money cur e =
     wrap64 (wallet_money cur e +
       om_sum (\<lambda>m. (if f_cur (mk_weak m) = cur then front_money (mk_weak m) else 0) +
                   (if f_cur (mk_strong m) = cur then front_money (mk_strong m) else 0)) (e_markets e))"

end
