(* ===== verification/Exchange_Matching.thy ===== *)
theory Exchange_Matching
  imports Exchange
begin

text \<open>
  What matching does to the money: the amounts that leave a wallet and the orders of a front are those on the
  two sides of the matches. Sums are taken modulo \<open>2 ^ 64\<close>, as words.
\<close>

section \<open>Sums\<close>

abbreviation (input) wd :: "int \<Rightarrow> u64" where "wd x \<equiv> of_int x"

definition paid_sum :: "matchitem list \<Rightarrow> u64" where
  "paid_sum ms = (\<Sum>i \<leftarrow> ms. wd (mi_cost (mi_back i)))"

definition got_sum :: "matchitem list \<Rightarrow> u64" where
  "got_sum ms = (\<Sum>i \<leftarrow> ms. wd (mi_received (mi_back i)))"

definition value_at :: "order_heap \<Rightarrow> nat \<Rightarrow> u64" where
  "value_at h i = (case om_find h i of Some ord \<Rightarrow> wd (o_value ord) | None \<Rightarrow> 0)"

lemma sums_simps [simp]:
  "paid_sum [] = 0" "paid_sum (i # ms) = wd (mi_cost (mi_back i)) + paid_sum ms" "paid_sum (xs @ ys) = paid_sum xs + paid_sum ys"
  "got_sum [] = 0" "got_sum (i # ms) = wd (mi_received (mi_back i)) + got_sum ms" "got_sum (xs @ ys) = got_sum xs + got_sum ys"
  by (simp_all add: paid_sum_def got_sum_def)

text \<open>The two sides of a match mirror each other, in the two currencies.\<close>

definition fair :: "int \<Rightarrow> int \<Rightarrow> matchitem \<Rightarrow> bool" where
  "fair cur lay_cur i \<longleftrightarrow>
     mi_cost_cur (mi_back i) = cur \<and> mi_received_cur (mi_back i) = lay_cur
     \<and> mi_cost_cur (mi_lay i) = lay_cur \<and> mi_received_cur (mi_lay i) = cur
     \<and> mi_cost (mi_lay i) = mi_received (mi_back i) \<and> mi_received (mi_lay i) = mi_cost (mi_back i)"

lemma match_item_fair:
  "fair cur lay_cur (match_item ord rate cost received cur lay_cur weak buy)"
  "mi_order (match_item ord rate cost received cur lay_cur weak buy) = o_id ord"
  "mi_cost (mi_back (match_item ord rate cost received cur lay_cur weak buy)) = cost"
  "mi_received (mi_back (match_item ord rate cost received cur lay_cur weak buy)) = received"
  "mi_rate (match_item ord rate cost received cur lay_cur weak buy) = rate"
  by (simp_all add: match_item_def fair_def Let_def)

lemma withdraw_word: "wd (snd (cex_withdraw a w)) = wd w - wd (fst (cex_withdraw a w))"
  by (simp add: cex_withdraw_def Let_def)

section \<open>One order\<close>

definition order_matched ::
  "efp \<Rightarrow> cex_order \<Rightarrow> matchitem list \<Rightarrow> efp \<Rightarrow> efp \<Rightarrow> int \<Rightarrow> int \<Rightarrow> bool \<Rightarrow> bool \<Rightarrow>
   ((bool \<times> efp) \<times> efp \<times> cex_order \<times> matchitem list) \<Rightarrow> bool" where
  "order_matched w ord ms rate amount cur lay_cur weak buy r \<longleftrightarrow>
     (case r of ((b, left), w', ord', ms') \<Rightarrow>
        \<exists>its v. ms' = ms @ its \<and> (\<forall>i \<in> set its. fair cur lay_cur i \<and> mi_order i = o_id ord \<and> mi_rate i = rate)
          \<and> wd w = wd w' + paid_sum its \<and> ord' = ord\<lparr>o_value := v\<rparr> \<and> wd (o_value ord) = wd v + got_sum its)"

lemma order_match_effect:
  assumes "order_match w ord ms rate amount cur lay_cur weak buy = Some r"
  shows "order_matched w ord ms rate amount cur lay_cur weak buy r"
proof (rule order_match.raw_induct [where P = order_matched, OF _ assms])
  fix f w and ord :: cex_order and ms rate amount cur lay_cur weak buy r
  assume IH: "\<And>w (ord :: cex_order) ms rate amount cur lay_cur weak buy r. f w ord ms rate amount cur lay_cur weak buy = Some r \<Longrightarrow>
      order_matched w ord ms rate amount cur lay_cur weak buy r"
  define tm where "tm = to_match rate amount weak buy"
  define received where "received = (if tm > o_value ord then o_value ord else tm)"
  define cost where "cost = (if tm > o_value ord \<or> buy then (if weak then dbl_div received rate else dbl_mul received rate) else amount)"
  assume "(let tm = to_match rate amount weak buy
      in if tm = 0 then Some ((False, amount), w, ord, ms)
         else let more = (tm > o_value ord);
                  received = (if more then o_value ord else tm);
                  cost = (if more \<or> buy then (if weak then dbl_div received rate else dbl_mul received rate) else amount)
              in if w < cost then f w ord ms rate (all_available rate w weak buy) cur lay_cur weak buy
                 else if cost = 0 then Some ((False, amount), w, ord, ms)
                 else Some ((True, wrap64 (amount - (if buy then received else cost))),
                            snd (cex_withdraw cost w),
                            ord\<lparr>o_value := (if more then 0 else wrap64 (o_value ord - received))\<rparr>,
                            ms @ [match_item ord rate cost received cur lay_cur weak buy])) = Some r"
  then consider "f w ord ms rate (all_available rate w weak buy) cur lay_cur weak buy = Some r"
    | "r = ((False, amount), w, ord, ms)"
    | "\<not> w < cost" "r = ((True, wrap64 (amount - (if buy then received else cost))), snd (cex_withdraw cost w),
        ord\<lparr>o_value := (if tm > o_value ord then 0 else wrap64 (o_value ord - received))\<rparr>,
        ms @ [match_item ord rate cost received cur lay_cur weak buy])"
    unfolding Let_def tm_def [symmetric] received_def [symmetric] cost_def [symmetric]
    by (metis (no_types, lifting) option.inject)
  then show "order_matched w ord ms rate amount cur lay_cur weak buy r"
  proof cases
    case 1
    then show ?thesis using IH by (fastforce simp: order_matched_def)
  next
    case 2
    then show ?thesis by (auto simp: order_matched_def intro!: exI [of _ "[]"] exI [of _ "o_value ord"])
  next
    case 3
    have c: "fst (cex_withdraw cost w) = cost" using 3(1) by (simp add: cex_withdraw_def Let_def)
    have v: "wd (o_value ord) = wd (if tm > o_value ord then 0 else wrap64 (o_value ord - received)) + wd received"
      by (simp add: received_def)
    let ?i = "match_item ord rate cost received cur lay_cur weak buy"
    show ?thesis
      unfolding order_matched_def 3(2) prod.case
      by (intro exI [of _ "[?i]"] exI [of _ "if tm > o_value ord then 0 else wrap64 (o_value ord - received)"])
        (simp add: match_item_fair withdraw_word c v)
  qed
qed

section \<open>A queue\<close>

text \<open>Objects on the heap know their numbers; matching changes nothing but the values of some orders.\<close>

definition heap_ok :: "order_heap \<Rightarrow> bool" where
  "heap_ok h \<longleftrightarrow> om_ok h \<and> (\<forall>i ord. om_find h i = Some ord \<longrightarrow> o_id ord = i)"

definition revalued :: "nat set \<Rightarrow> order_heap \<Rightarrow> order_heap \<Rightarrow> bool" where
  "revalued D h h' \<longleftrightarrow>
     (\<forall>i. rel_option (\<lambda>x y. \<exists>v. y = x\<lparr>o_value := v\<rparr>) (om_find h i) (om_find h' i) \<and> (i \<notin> D \<longrightarrow> om_find h' i = om_find h i))"

lemma revalued_refl: "revalued D h h"
proof -
  have "\<exists>v. x = x\<lparr>o_value := v\<rparr>" for x :: cex_order by (rule exI [of _ "o_value x"]) simp
  then show ?thesis by (simp add: revalued_def option.rel_refl)
qed

lemma revalued_trans:
  assumes "revalued D h h'" "revalued D' h' h''"
  shows "revalued (D \<union> D') h h''"
proof -
  have "rel_option (\<lambda>x y. \<exists>v. y = x\<lparr>o_value := v\<rparr>) (om_find h i) (om_find h'' i)" for i
  proof -
    have "rel_option (\<lambda>x y. \<exists>v. y = x\<lparr>o_value := v\<rparr>) (om_find h i) (om_find h' i)"
      "rel_option (\<lambda>x y. \<exists>v. y = x\<lparr>o_value := v\<rparr>) (om_find h' i) (om_find h'' i)"
      using assms by (simp_all add: revalued_def)
    then show ?thesis by (cases "om_find h i"; cases "om_find h' i"; cases "om_find h'' i") auto
  qed
  then show ?thesis using assms by (simp add: revalued_def)
qed

lemma revalued_set:
  assumes "om_ok h" "om_find h i = Some ord" "i \<in> D"
  shows "revalued D h (om_set i (ord\<lparr>o_value := v\<rparr>) h)"
  using assms revalued_refl [of D h] by (auto simp: revalued_def om_find_set)

lemma heap_ok_set: "heap_ok h \<Longrightarrow> om_find h i = Some ord \<Longrightarrow> heap_ok (om_set i (ord\<lparr>o_value := v\<rparr>) h)"
  by (auto simp: heap_ok_def om_ok_set om_find_set)

text \<open>A leg of matching: what it adds to the matches and to the expired orders.\<close>

definition leg :: "int \<Rightarrow> int \<Rightarrow> nat set \<Rightarrow> match_state \<Rightarrow> match_state \<Rightarrow> matchitem list \<Rightarrow> nat list \<Rightarrow> bool" where
  "leg cur lay_cur D s s' its ex \<longleftrightarrow>
     m_items (ms_matches s') = m_items (ms_matches s) @ its \<and> m_expired (ms_matches s') = m_expired (ms_matches s) @ ex
     \<and> wd (ms_wallet s) = wd (ms_wallet s') + paid_sum its
     \<and> (\<forall>i \<in> set its. fair cur lay_cur i \<and> mi_order i \<in> D) \<and> set ex \<subseteq> D
     \<and> revalued D (ms_heap s) (ms_heap s') \<and> heap_ok (ms_heap s')"

lemma leg_refl: "heap_ok (ms_heap s) \<Longrightarrow> leg cur lay_cur D s s [] []"
  by (simp add: leg_def revalued_refl)

lemma leg_trans:
  assumes "leg cur lay_cur D s s1 its ex" "leg cur lay_cur D' s1 s2 its' ex'"
  shows "leg cur lay_cur (D \<union> D') s s2 (its @ its') (ex @ ex')"
  using assms revalued_trans [of D "ms_heap s" "ms_heap s1" D' "ms_heap s2"]
  by (auto simp: leg_def algebra_simps)

lemma leg_mono: "leg cur lay_cur D s s' its ex \<Longrightarrow> D \<subseteq> D' \<Longrightarrow> leg cur lay_cur D' s s' its ex"
  by (auto simp: leg_def revalued_def)

text \<open>What expired earlier keeps its value.\<close>

lemma leg_value: "leg cur lay_cur D s s' its ex \<Longrightarrow> i \<notin> D \<Longrightarrow> value_at (ms_heap s') i = value_at (ms_heap s) i"
  by (simp add: leg_def revalued_def value_at_def)

lemma leg_values:
  "leg cur lay_cur D s s' its ex \<Longrightarrow> set xs \<inter> D = {} \<Longrightarrow> (\<Sum>i \<leftarrow> xs. value_at (ms_heap s') i) = (\<Sum>i \<leftarrow> xs. value_at (ms_heap s) i)"
  using leg_value by (intro arg_cong [where f = sum_list] map_cong) blast+

definition queue_leg :: "int \<Rightarrow> int \<Rightarrow> wqueue \<Rightarrow> match_state \<Rightarrow> wqueue \<Rightarrow> match_state \<Rightarrow> matchitem list \<Rightarrow> nat \<Rightarrow> bool" where
  "queue_leg cur lay_cur q s q' s' its n \<longleftrightarrow>
     leg cur lay_cur (set (wq_ids q)) s s' its (take n (wq_ids q))
     \<and> wq_ids q' = drop n (wq_ids q) \<and> wq_rate q' = wq_rate q \<and> wq_invert q' = wq_invert q \<and> (\<forall>i \<in> set its. mi_rate i = wq_rate q)
     \<and> wd (wq_value q) = wd (wq_value q') + got_sum its + (\<Sum>i \<leftarrow> take n (wq_ids q). value_at (ms_heap s') i)"

definition queue_matched :: "int \<Rightarrow> int \<Rightarrow> bool \<Rightarrow> bool \<Rightarrow> wqueue \<Rightarrow> match_state \<Rightarrow> wqueue \<times> match_state \<Rightarrow> bool" where
  "queue_matched cur lay_cur weak buy q s r \<longleftrightarrow>
     (heap_ok (ms_heap s) \<and> distinct (wq_ids q) \<longrightarrow> (\<exists>its n. queue_leg cur lay_cur q s (fst r) (snd r) its n))"

lemma queue_leg_none: "heap_ok (ms_heap s) \<Longrightarrow> queue_leg cur lay_cur q s q s [] 0"
  by (simp add: queue_leg_def leg_refl)

lemma matched_first_effect:
  assumes m: "order_matched (ms_wallet s) ord (m_items (ms_matches s)) rate amount cur lay_cur weak buy ((b, left), w, ord', items)"
    and o: "om_find (ms_heap s) i = Some ord" and h: "heap_ok (ms_heap s)"
    and r: "matched_first i ord b left w items ord' q s = (q1, s1)"
  obtains its where "leg cur lay_cur {i} s s1 its []" "\<forall>x \<in> set its. mi_rate x = rate"
    "wq_ids q1 = wq_ids q" "wq_rate q1 = wq_rate q" "wq_invert q1 = wq_invert q" "wd (wq_value q) = wd (wq_value q1) + got_sum its" "om_find (ms_heap s1) i = Some ord'"
proof -
  obtain its v where its: "items = m_items (ms_matches s) @ its"
      "\<forall>x \<in> set its. fair cur lay_cur x \<and> mi_order x = o_id ord \<and> mi_rate x = rate"
      "wd (ms_wallet s) = wd w + paid_sum its" "ord' = ord\<lparr>o_value := v\<rparr>" "wd (o_value ord) = wd v + got_sum its"
    using m by (auto simp: order_matched_def)
  have id: "o_id ord = i" and ok: "om_ok (ms_heap s)" using o h by (auto simp: heap_ok_def)
  have e: "q1 = q\<lparr>wq_value := wrap64 (wrap64 (wq_value q - o_value ord) + o_value ord')\<rparr>"
      "ms_heap s1 = om_set i ord' (ms_heap s)" "ms_wallet s1 = w" "m_items (ms_matches s1) = items"
      "m_expired (ms_matches s1) = m_expired (ms_matches s)"
    using r by (auto simp: matched_first_def)
  show ?thesis
  proof (rule that)
    show "leg cur lay_cur {i} s s1 its []"
      using its id ok o h by (simp add: leg_def e revalued_set heap_ok_set)
    show "om_find (ms_heap s1) i = Some ord'" using ok by (simp add: e om_find_set)
    show "wd (wq_value q) = wd (wq_value q1) + got_sum its" using its(4,5) by (simp add: e(1))
  qed (use its(2) e(1) in auto)
qed

lemma leg_expire: "leg cur lay_cur D s s1 its [] \<Longrightarrow> i \<in> D \<Longrightarrow> leg cur lay_cur D s (expire i s1) its [i]"
  by (simp add: leg_def expire_def)

text \<open>The first order matched, and kept or dropped.\<close>

lemma queue_leg_kept:
  assumes "leg cur lay_cur {i} s s1 its []" "\<forall>x \<in> set its. mi_rate x = wq_rate q" "wq_ids q = i # ids"
    "wq_ids q1 = wq_ids q" "wq_rate q1 = wq_rate q" "wq_invert q1 = wq_invert q" "wd (wq_value q) = wd (wq_value q1) + got_sum its"
    "queue_leg cur lay_cur q1 s1 q' s' its' n"
  shows "queue_leg cur lay_cur q s q' s' (its @ its') n"
  using assms leg_trans [of cur lay_cur "{i}" s s1 its "[]" "set (wq_ids q)" s' its' "take n (wq_ids q)"]
  by (auto simp: queue_leg_def insert_absorb algebra_simps)

lemma queue_leg_dropped:
  assumes l: "leg cur lay_cur {i} s s1 its []" and its: "\<forall>x \<in> set its. mi_rate x = wq_rate q"
    and ids: "wq_ids q = i # ids" "i \<notin> set ids"
    and q1: "wq_ids q1 = wq_ids q" "wq_rate q1 = wq_rate q" "wq_invert q1 = wq_invert q"
    and v: "wd (wq_value q) = wd (wq_value q1) + got_sum its" and o: "om_find (ms_heap s1) i = Some ord'"
    and q: "queue_leg cur lay_cur (drop_expired i ord' q1) (expire i s1) q' s' its' n"
  shows "queue_leg cur lay_cur q s q' s' (its @ its') (Suc n)"
proof -
  have d: "wq_ids (drop_expired i ord' q1) = ids" "wq_rate (drop_expired i ord' q1) = wq_rate q"
      "wq_invert (drop_expired i ord' q1) = wq_invert q" "wd (wq_value (drop_expired i ord' q1)) = wd (wq_value q1) - wd (o_value ord')"
    using ids q1 by (simp_all add: drop_expired_def)
  have l': "leg cur lay_cur (set ids) (expire i s1) s' its' (take n ids)" using q by (simp add: queue_leg_def d)
  have "value_at (ms_heap s') i = wd (o_value ord')"
    using leg_value [OF l' ids(2)] o by (simp add: expire_def value_at_def)
  moreover have "leg cur lay_cur (set (wq_ids q)) s s' (its @ its') (take (Suc n) (wq_ids q))"
    using leg_trans [OF leg_expire [OF l insertI1] l'] by (simp add: ids)
  ultimately show ?thesis
    using q its ids v by (auto simp: queue_leg_def d algebra_simps)
qed

lemma wq_match_effect:
  assumes "wq_match cur lay_cur weak buy q s = Some r"
  shows "queue_matched cur lay_cur weak buy q s r"
proof (rule wq_match.raw_induct [where P = queue_matched, OF _ assms])
  fix f cur lay_cur weak buy q s r
  assume IH: "\<And>cur lay_cur weak buy q s r. f cur lay_cur weak buy q s = Some r \<Longrightarrow> queue_matched cur lay_cur weak buy q s r"
  assume st: "(case wq_ids q of
        [] \<Rightarrow> Some (q, s)
      | i # _ \<Rightarrow>
          (case could_match_value (ms_wallet s) (wq_rate q) (ms_left s) weak buy of
             None \<Rightarrow> None
           | Some go \<Rightarrow>
               (if \<not> go then Some (q, s)
                else case om_find (ms_heap s) i of
                       None \<Rightarrow> None
                     | Some ord \<Rightarrow>
                         (case order_match (ms_wallet s) ord (m_items (ms_matches s)) (wq_rate q) (ms_left s) cur lay_cur weak buy of
                            None \<Rightarrow> None
                          | Some ((b, left), w, ord', items) \<Rightarrow>
                              (let (q, s) = matched_first i ord b left w items ord' q s
                               in if could_match_amount (wq_rate q) (o_value ord') weak buy
                                  then f cur lay_cur weak buy q s
                                  else f cur lay_cur weak buy (drop_expired i ord' q) (expire i s)))))) = Some r"
  show "queue_matched cur lay_cur weak buy q s r"
  proof (cases "r = (q, s)")
    case True
    then show ?thesis by (auto simp: queue_matched_def intro: queue_leg_none)
  next
    case False
    then obtain i ids ord b left w items ord' q1 s1 where ids: "wq_ids q = i # ids" and o: "om_find (ms_heap s) i = Some ord"
      and om: "order_match (ms_wallet s) ord (m_items (ms_matches s)) (wq_rate q) (ms_left s) cur lay_cur weak buy
          = Some ((b, left), w, ord', items)"
      and mf: "matched_first i ord b left w items ord' q s = (q1, s1)"
      and go: "f cur lay_cur weak buy q1 s1 = Some r \<or> f cur lay_cur weak buy (drop_expired i ord' q1) (expire i s1) = Some r"
      using st by (auto simp: Let_def split: list.splits option.splits prod.splits if_splits)
    show ?thesis
      unfolding queue_matched_def
    proof (intro impI, elim conjE)
      assume h: "heap_ok (ms_heap s)" and dist: "distinct (wq_ids q)"
      obtain its where l: "leg cur lay_cur {i} s s1 its []" and e: "\<forall>x \<in> set its. mi_rate x = wq_rate q"
          "wq_ids q1 = wq_ids q" "wq_rate q1 = wq_rate q" "wq_invert q1 = wq_invert q" "wd (wq_value q) = wd (wq_value q1) + got_sum its"
        and o': "om_find (ms_heap s1) i = Some ord'"
        by (rule matched_first_effect [OF order_match_effect [OF om] o h mf]) blast
      have h1: "heap_ok (ms_heap s1)" using l by (simp add: leg_def)
      from go show "\<exists>its n. queue_leg cur lay_cur q s (fst r) (snd r) its n"
      proof
        assume "f cur lay_cur weak buy q1 s1 = Some r"
        then have "queue_matched cur lay_cur weak buy q1 s1 r" by (rule IH)
        then obtain its' n where "queue_leg cur lay_cur q1 s1 (fst r) (snd r) its' n"
          using h1 dist e(2) by (auto simp: queue_matched_def)
        then show ?thesis using queue_leg_kept [OF l e(1) ids e(2-5)] by blast
      next
        assume "f cur lay_cur weak buy (drop_expired i ord' q1) (expire i s1) = Some r"
        then have "queue_matched cur lay_cur weak buy (drop_expired i ord' q1) (expire i s1) r" by (rule IH)
        then obtain its' n where "queue_leg cur lay_cur (drop_expired i ord' q1) (expire i s1) (fst r) (snd r) its' n"
          using h1 dist e(2) ids by (auto simp: queue_matched_def drop_expired_def expire_def)
        then show ?thesis using queue_leg_dropped [OF l e(1) ids _ e(2-5) o'] dist ids(1) by fastforce
      qed
    qed
  qed
qed

end
