(* ===== verification/Exchange_Fronts.thy ===== *)
theory Exchange_Fronts
  imports Exchange_Matching "HOL-Library.Multiset"
begin

text \<open>
  Matching with the queues of a front, and trading: the orders of a front stay where their data says, and what leaves it is
  what the matches and the expired orders hold.
\<close>

section \<open>The two queues of a rate\<close>

definition q_ids :: "wqueues \<Rightarrow> nat list" where "q_ids q = wq_ids (wq_high q) @ wq_ids (wq_low q)"

abbreviation (input) expired_value :: "order_heap \<Rightarrow> nat list \<Rightarrow> u64" where
  "expired_value h ex \<equiv> (\<Sum>i \<leftarrow> ex. value_at h i)"

definition same_rates :: "wqueues \<Rightarrow> wqueues \<Rightarrow> bool" where
  "same_rates q q' \<longleftrightarrow> wq_rate (wq_high q') = wq_rate (wq_high q) \<and> wq_rate (wq_low q') = wq_rate (wq_low q)
     \<and> wq_invert (wq_high q') = wq_invert (wq_high q) \<and> wq_invert (wq_low q') = wq_invert (wq_low q)"

definition qs_leg :: "int \<Rightarrow> int \<Rightarrow> wqueues \<Rightarrow> match_state \<Rightarrow> wqueues \<Rightarrow> match_state \<Rightarrow> matchitem list \<Rightarrow> nat list \<Rightarrow> bool" where
  "qs_leg cur lay_cur q s q' s' its ex \<longleftrightarrow>
     leg cur lay_cur (set (q_ids q)) s s' its ex \<and> mset (q_ids q') + mset ex = mset (q_ids q) \<and> same_rates q q'
     \<and> (\<forall>i \<in> set its. mi_rate i = wq_rate (wq_high q) \<or> mi_rate i = wq_rate (wq_low q))
     \<and> wd (qs_value q) = wd (qs_value q') + got_sum its + expired_value (ms_heap s') ex"

lemma mset_take_drop: "mset (drop n xs) + mset (take n xs) = mset xs"
  by (metis append_take_drop_id mset_append add.commute)

lemma qs_match_effect:
  assumes m: "qs_match cur lay_cur weak buy q s = Some (q', s')" and h: "heap_ok (ms_heap s)" and d: "distinct (q_ids q)"
  obtains its ex where "qs_leg cur lay_cur q s q' s' its ex"
proof -
  obtain hq s1 where hm: "wq_match cur lay_cur weak buy (wq_high q) s = Some (hq, s1)"
    using m by (auto simp: qs_match_def split: option.splits)
  obtain its n where l: "queue_leg cur lay_cur (wq_high q) s hq s1 its n"
    using wq_match_effect [OF hm] h d by (auto simp: queue_matched_def q_ids_def)
  show thesis
  proof (cases "ms_left s1 = 0")
    case True
    then have "q' = q\<lparr>wq_high := hq\<rparr>" "s' = s1" using m hm by (auto simp: qs_match_def)
    then have "qs_leg cur lay_cur q s q' s' its (take n (wq_ids (wq_high q)))"
      using l mset_take_drop [of n "wq_ids (wq_high q)"]
      by (auto simp: qs_leg_def queue_leg_def q_ids_def qs_value_def same_rates_def intro: leg_mono)
    then show ?thesis by (rule that)
  next
    case False
    then obtain lq where lm: "wq_match cur lay_cur weak buy (wq_low q) s1 = Some (lq, s')" and q': "q' = q\<lparr>wq_high := hq, wq_low := lq\<rparr>"
      using m hm by (auto simp: qs_match_def)
    have "heap_ok (ms_heap s1)" using l by (simp add: queue_leg_def leg_def)
    then obtain its' n' where l': "queue_leg cur lay_cur (wq_low q) s1 lq s' its' n'"
      using wq_match_effect [OF lm] d by (auto simp: queue_matched_def q_ids_def)
    let ?ex = "take n (wq_ids (wq_high q))" and ?ex' = "take n' (wq_ids (wq_low q))"
    have "leg cur lay_cur (set (q_ids q)) s s' (its @ its') (?ex @ ?ex')"
      using l l' leg_trans unfolding queue_leg_def q_ids_def set_append by blast
    moreover have "mset (q_ids q') + mset (?ex @ ?ex') = mset (q_ids q)"
      using l l' mset_take_drop [of n "wq_ids (wq_high q)"] mset_take_drop [of n' "wq_ids (wq_low q)"]
      by (simp add: q' q_ids_def queue_leg_def ac_simps)
    moreover have "expired_value (ms_heap s') ?ex = expired_value (ms_heap s1) ?ex"
      by (rule leg_values [of cur lay_cur "set (wq_ids (wq_low q))" s1 s' its' ?ex']; use l' d set_take_subset in \<open>fastforce simp: queue_leg_def q_ids_def\<close>)
    ultimately have "qs_leg cur lay_cur q s q' s' (its @ its') (?ex @ ?ex')"
      using l l' by (auto simp: qs_leg_def queue_leg_def q' qs_value_def same_rates_def algebra_simps)
    then show ?thesis by (rule that)
  qed
qed

section \<open>Places\<close>

text \<open>The data of an order tells where it waits: the market, the currency it pays with, and the rate.\<close>

definition placed :: "order_heap \<Rightarrow> int \<Rightarrow> int \<Rightarrow> int \<Rightarrow> efp \<Rightarrow> nat \<Rightarrow> bool" where
  "placed h wc sc cur r i \<longleftrightarrow>
     (\<exists>ord. om_find h i = Some ord \<and> o_weak_cur ord = wc \<and> o_strong_cur ord = sc \<and> o_paid_cur ord = cur \<and> o_rate ord = r)"

definition queues_ok :: "order_heap \<Rightarrow> int \<Rightarrow> int \<Rightarrow> int \<Rightarrow> efp \<Rightarrow> wqueues \<Rightarrow> bool" where
  "queues_ok h wc sc cur r q \<longleftrightarrow>
     distinct (q_ids q) \<and> wq_rate (wq_high q) = r \<and> wq_rate (wq_low q) = r \<and> (\<forall>i \<in> set (q_ids q). placed h wc sc cur r i)"

definition f_ids :: "front \<Rightarrow> nat set" where "f_ids f = (\<Union>(r, q) \<in> set (f_queues f). set (q_ids q))"

definition front_ok :: "order_heap \<Rightarrow> int \<Rightarrow> int \<Rightarrow> front \<Rightarrow> bool" where
  "front_ok h wc sc f \<longleftrightarrow> om_ok (f_queues f) \<and> (\<forall>(r, q) \<in> set (f_queues f). queues_ok h wc sc (f_cur f) r q \<and> wq_invert (wq_high q) = f_invert f)"

lemma revalued_placed: "revalued D h h' \<Longrightarrow> placed h' wc sc cur r i \<longleftrightarrow> placed h wc sc cur r i"
proof -
  assume "revalued D h h'"
  then have "rel_option (\<lambda>x y. \<exists>v. y = x\<lparr>o_value := v\<rparr>) (om_find h i) (om_find h' i)" by (simp add: revalued_def)
  then show ?thesis by (cases "om_find h i"; cases "om_find h' i") (auto simp: placed_def)
qed

lemma placed_once: "placed h wc sc cur r i \<Longrightarrow> placed h wc' sc' cur' r' i \<Longrightarrow> wc = wc' \<and> sc = sc' \<and> cur = cur' \<and> r = r'"
  by (auto simp: placed_def)

lemma om_find_in: "om_find m k = Some v \<Longrightarrow> (k, v) \<in> set m"
  by (simp add: om_find_def map_of_SomeD)

lemma om_find_mem: "om_ok m \<Longrightarrow> (k, v) \<in> set m \<longleftrightarrow> om_find m k = Some v"
  by (simp add: om_find_def om_ok_distinct)

lemma om_set_mem: "om_ok m \<Longrightarrow> (k, v) \<in> set (om_set k' v' m) \<longleftrightarrow> (if k = k' then v = v' else (k, v) \<in> set m)"
  by (auto simp: om_find_mem om_ok_set om_find_set)

lemma front_okD:
  "front_ok h wc sc f \<Longrightarrow> (r, q) \<in> set (f_queues f) \<Longrightarrow> queues_ok h wc sc (f_cur f) r q"
  "front_ok h wc sc f \<Longrightarrow> (r, q) \<in> set (f_queues f) \<Longrightarrow> wq_invert (wq_high q) = f_invert f"
  by (auto simp: front_ok_def)

lemma front_ok_placed:
  "front_ok h wc sc f \<Longrightarrow> (r, q) \<in> set (f_queues f) \<Longrightarrow> i \<in> set (q_ids q) \<Longrightarrow> placed h wc sc (f_cur f) r i"
  by (auto simp: queues_ok_def dest!: front_okD(1))

text \<open>An order is in one queue of a front.\<close>

lemma front_ok_unique:
  assumes "front_ok h wc sc f" "(r, q) \<in> set (f_queues f)" "(r', q') \<in> set (f_queues f)" "i \<in> set (q_ids q)" "i \<in> set (q_ids q')"
  shows "r' = r" "q' = q"
proof -
  show "r' = r" using placed_once front_ok_placed [OF assms(1)] assms(2-5) by blast
  then show "q' = q" using assms by (auto simp: front_ok_def om_find_mem)
qed

section \<open>A front\<close>

lemma f_top_mem: "f_top f = Some (r, q) \<Longrightarrow> (r, q) \<in> set (f_queues f)"
  by (auto simp: f_top_def split: if_splits) (metis hd_in_set, metis last_in_set)

lemma om_sum_rev: "om_sum g (rev m) = om_sum g m"
  by (simp add: om_sum_def rev_map [symmetric])

lemma om_sum_dropWhile: "(\<And>k v. P (k, v) \<Longrightarrow> g v = 0) \<Longrightarrow> om_sum g (dropWhile P m) = om_sum g m"
  by (induction m) auto

lemma om_ok_sublist: "om_ok m \<Longrightarrow> om_ok (dropWhile P m)" "om_ok m \<Longrightarrow> om_ok (rev (dropWhile P (rev m)))"
proof -
  show "om_ok (dropWhile P m)" if "om_ok m"
    using that by (induction m) (auto simp: om_ok_def)
  have "m = rev (dropWhile P (rev m)) @ rev (takeWhile P (rev m))"
    by (metis rev_append rev_rev_ident takeWhile_dropWhile_id)
  then show "om_ok (rev (dropWhile P (rev m)))" if "om_ok m"
    using that unfolding om_ok_def by (metis map_append sorted_wrt_append)
qed

lemma trim_facts:
  "f_cur (trim f) = f_cur f" "f_invert (trim f) = f_invert f" "f_valid (trim f) = f_valid f" "f_by_order (trim f) = f_by_order f"
  "front_money (trim f) = front_money f" "set (f_queues (trim f)) \<subseteq> set (f_queues f)" "om_ok (f_queues f) \<Longrightarrow> om_ok (f_queues (trim f))"
proof -
  show "front_money (trim f) = front_money f"
    by (auto simp: trim_def Let_def front_money_def om_sum_rev qs_has_value_def qs_value_def wrap64_def intro!: om_sum_dropWhile trans [OF om_sum_dropWhile])
  show "set (f_queues (trim f)) \<subseteq> set (f_queues f)"
    by (auto simp: trim_def Let_def dest: set_dropWhileD)
  show "om_ok (f_queues (trim f))" if "om_ok (f_queues f)"
    using that by (simp add: trim_def Let_def om_ok_sublist)
qed (simp_all add: trim_def Let_def)

lemma front_ok_mono:
  "front_ok h wc sc f \<Longrightarrow> set (f_queues f') \<subseteq> set (f_queues f) \<Longrightarrow> om_ok (f_queues f') \<Longrightarrow> f_cur f' = f_cur f \<Longrightarrow>
    f_invert f' = f_invert f \<Longrightarrow> front_ok h wc sc f'"
  by (auto simp: front_ok_def)

lemma front_ok_revalued: "revalued D h h' \<Longrightarrow> front_ok h' wc sc f = front_ok h wc sc f"
  by (simp add: front_ok_def queues_ok_def revalued_placed)

lemma front_ok_set:
  assumes "front_ok h wc sc f" "queues_ok h wc sc (f_cur f) r q" "wq_invert (wq_high q) = f_invert f"
  shows "front_ok h wc sc (f\<lparr>f_queues := om_set r q (f_queues f)\<rparr>)"
  using assms by (auto simp: front_ok_def om_ok_set om_set_mem split: if_splits)

lemma front_money_set:
  assumes "om_ok (f_queues f)"
  shows "front_money (f\<lparr>f_queues := om_set r q (f_queues f)\<rparr>)
    = front_money f + qs_value q - (case om_find (f_queues f) r of Some q \<Rightarrow> qs_value q | None \<Rightarrow> 0)"
  using assms by (simp add: front_money_def om_sum_set)

definition front_leg ::
  "int \<Rightarrow> int \<Rightarrow> int \<Rightarrow> int \<Rightarrow> efp \<Rightarrow> front \<Rightarrow> match_state \<Rightarrow> front \<Rightarrow> match_state \<Rightarrow> matchitem list \<Rightarrow> nat list \<Rightarrow> bool" where
  "front_leg wc sc cur lay_cur limit f s f' s' its ex \<longleftrightarrow>
     leg cur lay_cur (f_ids f) s s' its ex \<and> distinct ex \<and> set ex \<inter> f_ids f' = {} \<and> f_ids f' \<subseteq> f_ids f
     \<and> front_ok (ms_heap s') wc sc f' \<and> f_cur f' = f_cur f \<and> f_invert f' = f_invert f \<and> f_valid f' = f_valid f
     \<and> (\<forall>i \<in> set its. if f_invert f then mi_rate i \<le> limit else mi_rate i \<ge> limit)
     \<and> wd (front_money f) = wd (front_money f') + got_sum its + expired_value (ms_heap s') ex"

lemma front_leg_none: "heap_ok (ms_heap s) \<Longrightarrow> front_ok (ms_heap s) wc sc f \<Longrightarrow> front_leg wc sc cur lay_cur limit f s f s [] []"
  by (simp add: front_leg_def leg_refl)

text \<open>The top queue matched and the front trimmed.\<close>

lemma front_leg_step:
  assumes ok: "front_ok (ms_heap s) wc sc f" and top: "(r, q) \<in> set (f_queues f)"
    and cmp: "wq_compare limit (wq_high q)" and l: "qs_leg cur lay_cur q s q' s1 its ex"
  shows "front_leg wc sc cur lay_cur limit f s (trim (f\<lparr>f_queues := om_set r q' (f_queues f)\<rparr>)) s1 its ex"
proof -
  let ?f = "f\<lparr>f_queues := om_set r q' (f_queues f)\<rparr>"
  note leg = l [unfolded qs_leg_def]
  have q: "queues_ok (ms_heap s) wc sc (f_cur f) r q" and iv: "wq_invert (wq_high q) = f_invert f"
    using front_okD [OF ok top] .
  have om: "om_ok (f_queues f)" and fr: "om_find (f_queues f) r = Some q" using ok top by (auto simp: front_ok_def om_find_mem)
  have ids: "set (q_ids q) = set (q_ids q') \<union> set ex" and dist: "distinct (q_ids q' @ ex)"
    using leg q by (metis mset_append set_append set_mset_mset, metis mset_append mset_eq_imp_distinct_iff queues_ok_def)
  have r: "revalued (set (q_ids q)) (ms_heap s) (ms_heap s1)" using leg by (simp add: leg_def)
  have ok1: "front_ok (ms_heap s1) wc sc f" using ok front_ok_revalued [OF r] by simp
  have q1: "queues_ok (ms_heap s1) wc sc (f_cur f) r q'"
    using q leg dist ids by (auto simp: queues_ok_def same_rates_def revalued_placed [OF r])
  have f1: "front_ok (ms_heap s1) wc sc ?f"
    using front_ok_set [OF ok1 q1] leg iv by (simp add: same_rates_def)
  have sub: "f_ids ?f \<subseteq> f_ids f" "set ex \<inter> f_ids ?f = {}"
  proof -
    show "f_ids ?f \<subseteq> f_ids f" using top ids by (fastforce simp: f_ids_def om_set_mem om split: if_splits)
    have "i \<notin> f_ids ?f" if i: "i \<in> set ex" for i
    proof
      assume "i \<in> f_ids ?f"
      then obtain r2 q2 where m: "(r2, q2) \<in> set (om_set r q' (f_queues f))" and i2: "i \<in> set (q_ids q2)" by (auto simp: f_ids_def)
      show False
      proof (cases "r2 = r")
        case True
        then show False using m i2 i dist by (auto simp: om_set_mem om)
      next
        case False
        then have "(r2, q2) \<in> set (f_queues f)" using m by (simp add: om_set_mem om)
        then show False using front_ok_unique [OF ok top _ _ i2] i ids False by blast
      qed
    qed
    then show "set ex \<inter> f_ids ?f = {}" by blast
  qed
  have tr: "f_ids (trim ?f) \<subseteq> f_ids ?f" using trim_facts(6) [of ?f] by (auto simp: f_ids_def)
  have "front_ok (ms_heap s1) wc sc (trim ?f)"
    by (rule front_ok_mono [OF f1]) (use f1 trim_facts(6) [of ?f] in \<open>simp_all add: trim_facts front_ok_def\<close>)
  moreover have "leg cur lay_cur (f_ids f) s s1 its ex"
  proof (rule leg_mono [of cur lay_cur "set (q_ids q)"])
    show "set (q_ids q) \<subseteq> f_ids f" using top by (auto simp: f_ids_def)
  qed (use leg in blast)
  moreover have "\<forall>i \<in> set its. if f_invert f then mi_rate i \<le> limit else mi_rate i \<ge> limit"
    using leg q cmp iv by (auto simp: queues_ok_def wq_compare_def)
  moreover have "wd (front_money f) = wd (front_money (trim ?f)) + got_sum its + expired_value (ms_heap s1) ex"
    using leg by (simp add: trim_facts front_money_set om fr)
  ultimately show ?thesis
    using sub tr dist by (auto simp: front_leg_def trim_facts)
qed

lemma front_leg_trans:
  assumes a: "front_leg wc sc cur lay_cur limit f s f1 s1 its ex" and b: "front_leg wc sc cur lay_cur limit f1 s1 f2 s2 its' ex'"
  shows "front_leg wc sc cur lay_cur limit f s f2 s2 (its @ its') (ex @ ex')"
proof -
  note a = a [unfolded front_leg_def] and b = b [unfolded front_leg_def]
  have "leg cur lay_cur (f_ids f) s s2 (its @ its') (ex @ ex')"
    using leg_trans a b by (metis sup.absorb1)
  moreover have "set ex' \<subseteq> f_ids f1" using b by (simp add: leg_def)
  moreover have "expired_value (ms_heap s2) ex = expired_value (ms_heap s1) ex"
    using a b leg_values [of cur lay_cur "f_ids f1" s1 s2 its' ex' ex] by blast
  ultimately show ?thesis using a b unfolding front_leg_def by (auto simp: algebra_simps)
qed

definition front_matched ::
  "int \<Rightarrow> int \<Rightarrow> bool \<Rightarrow> efp \<Rightarrow> efp option \<Rightarrow> front \<Rightarrow> match_state \<Rightarrow> front \<times> match_state \<Rightarrow> bool" where
  "front_matched cur lay_cur buy limit prev f s r \<longleftrightarrow>
     (\<forall>wc sc. heap_ok (ms_heap s) \<and> front_ok (ms_heap s) wc sc f \<longrightarrow> (\<exists>its ex. front_leg wc sc cur lay_cur limit f s (fst r) (snd r) its ex))"

lemma front_match_loop_effect:
  assumes "front_match_loop cur lay_cur buy limit prev f s = Some r"
  shows "front_matched cur lay_cur buy limit prev f s r"
proof (rule front_match_loop.raw_induct [where P = front_matched, OF _ assms])
  fix g cur lay_cur buy limit prev f s r
  assume IH: "\<And>cur lay_cur buy limit prev f s r. g cur lay_cur buy limit prev f s = Some r \<Longrightarrow> front_matched cur lay_cur buy limit prev f s r"
  assume st: "(case f_top f of
        None \<Rightarrow> Some (f, s)
      | Some (r, q) \<Rightarrow>
          (if prev = Some r \<or> \<not> wq_compare limit (wq_high q) then Some (f, s)
           else case qs_match cur lay_cur (\<not> f_invert f) buy q s of
                  None \<Rightarrow> None
                | Some (q, s) \<Rightarrow>
                    g cur lay_cur buy limit (Some r) (trim (f\<lparr>f_queues := om_set r q (f_queues f)\<rparr>)) s)) = Some r"
  show "front_matched cur lay_cur buy limit prev f s r"
    unfolding front_matched_def
  proof (intro allI impI, elim conjE)
    fix wc sc
    assume h: "heap_ok (ms_heap s)" and ok: "front_ok (ms_heap s) wc sc f"
    show "\<exists>its ex. front_leg wc sc cur lay_cur limit f s (fst r) (snd r) its ex"
    proof (cases "r = (f, s)")
      case True
      then show ?thesis using front_leg_none [OF h ok] by (metis fst_conv snd_conv)
    next
      case False
      then obtain r0 q q' s1 where top: "f_top f = Some (r0, q)" and cmp: "wq_compare limit (wq_high q)"
        and m: "qs_match cur lay_cur (\<not> f_invert f) buy q s = Some (q', s1)"
        and go: "g cur lay_cur buy limit (Some r0) (trim (f\<lparr>f_queues := om_set r0 q' (f_queues f)\<rparr>)) s1 = Some r"
        using st by (auto split: option.splits prod.splits if_splits)
      have mem: "(r0, q) \<in> set (f_queues f)" by (rule f_top_mem [OF top])
      have "distinct (q_ids q)" using front_okD(1) [OF ok mem] by (simp add: queues_ok_def)
      then obtain its ex where "qs_leg cur lay_cur q s q' s1 its ex" by (rule qs_match_effect [OF m h])
      then have l: "front_leg wc sc cur lay_cur limit f s (trim (f\<lparr>f_queues := om_set r0 q' (f_queues f)\<rparr>)) s1 its ex"
        by (rule front_leg_step [OF ok mem cmp])
      have "heap_ok (ms_heap s1)" "front_ok (ms_heap s1) wc sc (trim (f\<lparr>f_queues := om_set r0 q' (f_queues f)\<rparr>))"
        using l by (simp_all add: front_leg_def leg_def)
      then obtain its' ex' where
        "front_leg wc sc cur lay_cur limit (trim (f\<lparr>f_queues := om_set r0 q' (f_queues f)\<rparr>)) s1 (fst r) (snd r) its' ex'"
        using IH [OF go, unfolded front_matched_def] by blast
      then show ?thesis using front_leg_trans [OF l] by blast
    qed
  qed
qed

lemma front_parts [simp]:
  "f_ids (f\<lparr>f_by_order := b\<rparr>) = f_ids f" "front_money (f\<lparr>f_by_order := b\<rparr>) = front_money f"
  "front_ok h wc sc (f\<lparr>f_by_order := b\<rparr>) = front_ok h wc sc f"
  by (simp_all add: f_ids_def front_money_def front_ok_def)

lemma front_match_effect:
  assumes m: "front_match w limit amount cur lay_cur buy f h = Some (ms, w', f', h')" and h: "heap_ok h" and ok: "front_ok h wc sc f"
  obtains s' where "front_leg wc sc cur lay_cur limit f \<lparr>ms_wallet = w, ms_heap = h, ms_matches = matches0, ms_left = amount\<rparr>
      f' s' (m_items ms) (m_expired ms)" "w' = ms_wallet s'" "h' = ms_heap s'"
proof -
  let ?s = "\<lparr>ms_wallet = w, ms_heap = h, ms_matches = matches0, ms_left = amount\<rparr>"
  obtain g s' b where lp: "front_match_loop cur lay_cur buy limit None f ?s = Some (g, s')"
    and e: "ms = (ms_matches s')\<lparr>m_unmatched := ms_left s'\<rparr>" "w' = ms_wallet s'" "h' = ms_heap s'" "f' = g\<lparr>f_by_order := b\<rparr>"
    using m by (auto simp: front_match_def)
  obtain its ex where l: "front_leg wc sc cur lay_cur limit f ?s g s' its ex"
    using front_match_loop_effect [OF lp, unfolded front_matched_def, rule_format, of wc sc] h ok by auto
  have "front_leg wc sc cur lay_cur limit f ?s f' s' its ex"
    using l by (simp add: e(4) front_leg_def)
  moreover have "m_items ms = its" "m_expired ms = ex" using l by (simp_all add: e front_leg_def leg_def matches0_def)
  ultimately show ?thesis using that e by blast
qed

end
