(* ===== verification/Exchange_Trades.thy ===== *)
theory Exchange_Trades
  imports Exchange_Fronts
begin

text \<open>
  Trading in a market: new orders in a front, and what a trade does to a wallet, the fronts and the orders.
\<close>

section \<open>New orders\<close>

definition store_ok :: "order_store \<Rightarrow> bool" where
  "store_ok st \<longleftrightarrow> heap_ok (o_heap st) \<and> (\<forall>i. om_find (o_heap st) i \<noteq> None \<longrightarrow> i < o_next st)"

definition blank_order :: "nat \<Rightarrow> efp \<Rightarrow> bool \<Rightarrow> bool \<Rightarrow> cex_order" where
  "blank_order i v weak buy =
     \<lparr>o_id = i, o_value = v, o_buy = buy, o_weak = weak, o_account = 0, o_recv_cur = 0, o_paid_cur = 0, o_rate = 0, o_weak_cur = 0, o_strong_cur = 0\<rparr>"

definition with_new :: "efp \<Rightarrow> bool \<Rightarrow> bool \<Rightarrow> order_store \<Rightarrow> order_store" where
  "with_new v weak buy st = \<lparr>o_heap = om_set (o_next st) (blank_order (o_next st) v weak buy) (o_heap st), o_next = Suc (o_next st)\<rparr>"

lemma new_cex_order_eq: "new_cex_order v weak buy st = (o_next st, with_new v weak buy st)"
  by (simp add: new_cex_order_def with_new_def blank_order_def Let_def)

lemma qs_new_order_cases:
  assumes "qs_new_order low amount weak buy q st = (r, q', st')"
  obtains "r = None" "q' = q" "st' = st" "amount < 1"
  | "r = Some (o_next st)" "st' = with_new amount weak buy st" "1 \<le> amount" "mset (q_ids q') = add_mset (o_next st) (mset (q_ids q))"
    "same_rates q q'" "wd (qs_value q') = wd (qs_value q) + wd amount"
  using assms
  by (auto simp: qs_new_order_def wq_new_order_def new_cex_order_eq q_ids_def same_rates_def qs_value_def algebra_simps
      split: if_splits)

lemma queues_ok_new:
  assumes q: "queues_ok h wc sc cur r q" and fresh: "om_find h i = None"
    and ids: "mset (q_ids q') = add_mset i (mset (q_ids q))" and rates: "same_rates q q'"
    and h': "\<forall>j. j \<noteq> i \<longrightarrow> om_find h' j = om_find h j" "placed h' wc sc cur r i"
  shows "queues_ok h' wc sc cur r q'"
proof -
  have i: "i \<notin> set (q_ids q)" using q fresh by (auto simp: queues_ok_def placed_def)
  have s: "set (q_ids q') = insert i (set (q_ids q))" using ids by (metis set_mset_add_mset_insert set_mset_mset)
  have "distinct (q_ids q')" using ids i q by (metis distinct.simps(2) mset.simps(2) mset_eq_imp_distinct_iff queues_ok_def)
  moreover have "placed h' wc sc cur r j" if "j \<in> set (q_ids q)" for j
    using that q i h'(1) by (cases "j = i") (auto simp: queues_ok_def placed_def)
  ultimately show ?thesis using q rates h'(2) s by (auto simp: queues_ok_def same_rates_def)
qed

lemma front_ok_heap:
  assumes "front_ok h wc sc f" "\<forall>j \<in> f_ids f. om_find h' j = om_find h j"
  shows "front_ok h' wc sc f"
  using assms by (fastforce simp: front_ok_def queues_ok_def placed_def f_ids_def)

lemma front_ids_placed: "front_ok h wc sc f \<Longrightarrow> i \<in> f_ids f \<Longrightarrow> \<exists>r. placed h wc sc (f_cur f) r i"
  by (auto simp: f_ids_def dest: front_ok_placed)

lemma f_ids_mem: "i \<in> f_ids f \<longleftrightarrow> (\<exists>r q. om_find (f_queues f) r = Some q \<and> i \<in> set (q_ids q))" if "om_ok (f_queues f)"
  using that by (auto simp: f_ids_def om_find_mem) (metis om_find_in)

lemma f_ids_set:
  assumes "om_ok (f_queues f)"
  shows "i \<in> f_ids (f\<lparr>f_queues := om_set r q (f_queues f)\<rparr>)
    \<longleftrightarrow> i \<in> set (q_ids q) \<or> (\<exists>r' q'. r' \<noteq> r \<and> om_find (f_queues f) r' = Some q' \<and> i \<in> set (q_ids q'))"
  using assms by (auto simp: f_ids_mem om_ok_set om_find_set split: if_splits)

text \<open>The front with a queue for the rate.\<close>

lemma get_queue_rate_ok:
  assumes g: "get_queue_rate r f = Some (Some q, f')" and ok: "front_ok h wc sc f"
  shows "front_ok h wc sc f' \<and> om_find (f_queues f') r = Some q \<and> f_ids f' = f_ids f \<and> front_money f' = front_money f
    \<and> f_cur f' = f_cur f \<and> f_invert f' = f_invert f \<and> f_valid f' = f_valid f"
proof (cases "om_find (f_queues f) r")
  case None
  then have e: "q = wqueues0 r (f_invert f)" "f' = f\<lparr>f_queues := om_set r q (f_queues f)\<rparr>"
    using g by (auto simp: get_queue_rate_def Let_def split: option.splits if_splits)
  have om: "om_ok (f_queues f)" using ok by (simp add: front_ok_def)
  have q: "q_ids q = []" "qs_value q = 0" "queues_ok h wc sc (f_cur f) r q" "wq_invert (wq_high q) = f_invert f"
    by (simp_all add: e(1) q_ids_def qs_value_def queues_ok_def wqueues0_def wqueue0_def wrap64_def)
  have "f_ids f' = f_ids f"
    using None q(1) by (auto simp: e(2) f_ids_set om f_ids_mem) (metis option.distinct(1))+
  then show ?thesis
    using front_ok_set [OF ok q(3,4)] by (simp add: e(2) om_find_set om front_money_set None q)
next
  case (Some q')
  then show ?thesis using g ok by (auto simp: get_queue_rate_def split: option.splits)
qed

lemma front_new_order_cases:
  assumes n: "front_new_order low r amount weak buy f st = Some (x, f', st')" and ok: "front_ok (o_heap st) wc sc f" and st: "store_ok st"
  obtains "x = None" "st' = st"
  | "x = Some (o_next st)" "st' = with_new amount weak buy st" "1 \<le> amount" "f_ids f' = insert (o_next st) (f_ids f)"
    "wd (front_money f') = wd (front_money f) + wd amount" "f_cur f' = f_cur f" "f_invert f' = f_invert f"
    "\<And>h'. \<forall>j. j \<noteq> o_next st \<longrightarrow> om_find h' j = om_find (o_heap st) j \<Longrightarrow> placed h' wc sc (f_cur f) r (o_next st) \<Longrightarrow> front_ok h' wc sc f'"
proof (cases x)
  case None
  then show ?thesis using n that(1)
    by (auto simp: front_new_order_def elim!: qs_new_order_cases split: option.splits prod.splits)
next
  case (Some i)
  then obtain q g q' where g: "get_queue_rate r f = Some (Some q, g)" and qn: "qs_new_order low amount weak buy q st = (Some i, q', st')"
    and f': "f' = g\<lparr>f_queues := om_set r q' (f_queues g), f_by_order := om_emplace i r (f_by_order g)\<rparr>"
    using n by (auto simp: front_new_order_def split: option.splits prod.splits)
  note G = get_queue_rate_ok [OF g ok]
  from qn have e: "i = o_next st" "st' = with_new amount weak buy st" "1 \<le> amount" "mset (q_ids q') = add_mset i (mset (q_ids q))"
    "same_rates q q'" "wd (qs_value q') = wd (qs_value q) + wd amount"
    by (auto elim: qs_new_order_cases)
  have mem: "(r, q) \<in> set (f_queues g)" and om: "om_ok (f_queues g)" using G om_find_in by (force, simp add: front_ok_def)
  have fresh: "om_find (o_heap st) i = None" using st e(1) by (auto simp: store_ok_def)
  have ins: "set (q_ids q') = insert i (set (q_ids q))" using e(4) by (metis set_mset_add_mset_insert set_mset_mset)
  show ?thesis
  proof (rule that(2))
    show "f_ids f' = insert (o_next st) (f_ids f)"
    proof -
      have "j \<in> f_ids f' \<longleftrightarrow> j = i \<or> j \<in> f_ids g" for j
      proof -
        have "j \<in> f_ids f' \<longleftrightarrow> j \<in> f_ids (g\<lparr>f_queues := om_set r q' (f_queues g)\<rparr>)" by (simp add: f' f_ids_def)
        also have "\<dots> \<longleftrightarrow> j \<in> set (q_ids q') \<or> (\<exists>r' q2. r' \<noteq> r \<and> om_find (f_queues g) r' = Some q2 \<and> j \<in> set (q_ids q2))"
          by (rule f_ids_set [OF om])
        also have "\<dots> \<longleftrightarrow> j = i \<or> j \<in> f_ids g" using G unfolding ins f_ids_mem [OF om] by (metis insert_iff option.inject)
        finally show ?thesis .
      qed
      then have "f_ids f' = insert i (f_ids g)" by blast
      then show ?thesis using G e(1) by simp
    qed
    show "wd (front_money f') = wd (front_money f) + wd amount"
      using G e(6) by (simp add: f' front_money_set om)
    fix h'
    assume h': "\<forall>j. j \<noteq> o_next st \<longrightarrow> om_find h' j = om_find (o_heap st) j" "placed h' wc sc (f_cur f) r (o_next st)"
    have q: "queues_ok (o_heap st) wc sc (f_cur g) r q" "wq_invert (wq_high q) = f_invert g" using front_okD G mem by blast+
    have "i \<notin> f_ids g" using front_ids_placed [of "o_heap st" wc sc g i] G fresh by (auto simp: placed_def)
    then have ok': "front_ok h' wc sc g" using front_ok_heap G h'(1) e(1) by metis
    have "queues_ok h' wc sc (f_cur g) r q'"
      using queues_ok_new [OF q(1) fresh e(4,5)] h' e(1) G by simp
    then show "front_ok h' wc sc f'"
      using front_ok_set [OF ok'] q(2) e(5) by (simp add: f' same_rates_def)
  qed (use e Some G in \<open>simp_all add: f'\<close>)
qed

section \<open>A market\<close>

definition market_ok :: "order_heap \<Rightarrow> market \<Rightarrow> bool" where
  "market_ok h m \<longleftrightarrow> mk_weak_cur m \<noteq> mk_strong_cur m
     \<and> (\<forall>wk. f_cur (own_front wk m) = own_cur wk m \<and> f_invert (own_front wk m) = (\<not> wk)
          \<and> front_ok h (mk_weak_cur m) (mk_strong_cur m) (own_front wk m))"

definition m_ids :: "market \<Rightarrow> nat set" where "m_ids m = f_ids (mk_weak m) \<union> f_ids (mk_strong m)"

lemma m_ids_front: "m_ids m = f_ids (own_front wk m) \<union> f_ids (own_front (\<not> wk) m)"
  by (cases wk) (auto simp: m_ids_def own_front_def)

lemma set_front_simps [simp]:
  "own_front wk (set_front wk' f m) = (if wk = wk' then f else own_front wk m)"
  "own_cur wk (set_front wk' f m) = own_cur wk m"
  "mk_weak_cur (set_front wk f m) = mk_weak_cur m" "mk_strong_cur (set_front wk f m) = mk_strong_cur m"
  by (auto simp: own_front_def own_cur_def set_front_def)

text \<open>The heap after the data of a new order is set.\<close>

definition registered :: "nat \<Rightarrow> trade_result \<Rightarrow> order_heap \<Rightarrow> order_heap" where
  "registered acid r h =
     (case t_order r of
        None \<Rightarrow> h
      | Some i \<Rightarrow>
          (case om_find h i of
             None \<Rightarrow> h
           | Some ord \<Rightarrow> om_set i (set_data acid (t_recv_cur r) (t_paid_cur r) (t_order_rate r) (t_weak_cur r) (t_strong_cur r) ord) h))"

lemma registered_none: "t_order r = None \<Longrightarrow> registered acid r h = h"
  by (simp add: registered_def)

text \<open>Queueing what is left.\<close>

definition new_order_in :: "bool \<Rightarrow> efp \<Rightarrow> efp \<Rightarrow> bool \<Rightarrow> market \<Rightarrow> order_store \<Rightarrow> matches \<Rightarrow> trade_result \<Rightarrow> efp \<Rightarrow> market \<Rightarrow> order_store \<Rightarrow> bool" where
  "new_order_in wk w limit buy m st ms r w' m' st' \<longleftrightarrow>
     (\<exists>un f. r = (trade_result0 wk m ms)\<lparr>t_order := Some (o_next st), t_order_rate := limit\<rparr> \<and> m' = set_front wk f m \<and> st' = with_new un wk buy st
        \<and> wd w = wd w' + wd un \<and> wd (front_money f) = wd (front_money (own_front wk m)) + wd un
        \<and> f_ids f = insert (o_next st) (f_ids (own_front wk m)) \<and> f_cur f = own_cur wk m \<and> f_invert f = (\<not> wk)
        \<and> (\<forall>h'. (\<forall>j. j \<noteq> o_next st \<longrightarrow> om_find h' j = om_find (o_heap st) j) \<and> placed h' (mk_weak_cur m) (mk_strong_cur m) (own_cur wk m) limit (o_next st)
             \<longrightarrow> front_ok h' (mk_weak_cur m) (mk_strong_cur m) f))"

lemma queue_unmatched_cases:
  assumes q: "queue_unmatched wk w limit buy low ms m st = Some (r, w', m', st')" and e: "\<not> t_error r"
    and m: "market_ok (o_heap st) m" and st: "store_ok st"
  shows "r = trade_result0 wk m ms \<and> w' = w \<and> m' = m \<and> st' = st \<or> new_order_in wk w limit buy m st ms r w' m' st'"
proof (cases "r = trade_result0 wk m ms \<and> w' = w \<and> m' = m \<and> st' = st")
  case False
  define un0 where "un0 = (if buy then (if wk then dbl_mul (m_unmatched ms) limit else dbl_div (m_unmatched ms) limit) else m_unmatched ms)"
  define un where "un = (if w < un0 then w else un0)"
  have nz: "\<not> (if wk then m_unmatched ms = 0 else m_unmatched ms \<le> 0)"
    using q False by (auto simp: queue_unmatched_def Let_def)
  moreover have c: "could_match_value w limit (m_unmatched ms) wk buy = Some True"
    using q False nz by (cases "could_match_value w limit (m_unmatched ms) wk buy")
      (auto simp: queue_unmatched_def Let_def split: bool.splits)
  ultimately obtain x f st2 where fn: "front_new_order low limit un wk buy (own_front wk m) st = Some (x, f, st2)"
    using q unfolding queue_unmatched_def Let_def un0_def [symmetric] un_def [symmetric]
    by (cases "front_new_order low limit un wk buy (own_front wk m) st") (simp, metis prod_cases3)
  obtain i where "x = Some i"
    using q nz c fn e unfolding queue_unmatched_def Let_def un0_def [symmetric] un_def [symmetric]
    by (cases x) auto
  then obtain i f where n: "front_new_order low limit un wk buy (own_front wk m) st = Some (Some i, f, st')"
    and r: "r = (trade_result0 wk m ms)\<lparr>t_order := Some i, t_order_rate := limit\<rparr>" "w' = snd (cex_withdraw un w)" "m' = set_front wk f m"
    using q nz c fn that unfolding queue_unmatched_def Let_def un0_def [symmetric] un_def [symmetric] by simp
  have ok: "front_ok (o_heap st) (mk_weak_cur m) (mk_strong_cur m) (own_front wk m)"
    and c: "f_cur (own_front wk m) = own_cur wk m" "f_invert (own_front wk m) = (\<not> wk)"
    using m by (simp_all add: market_ok_def)
  have w: "wd w = wd w' + wd un" by (simp add: r(2) withdraw_word cex_withdraw_def Let_def un_def)
  from n ok st have "new_order_in wk w limit buy m st ms r w' m' st'"
  proof (cases rule: front_new_order_cases)
    case 2
    then show ?thesis
      unfolding new_order_in_def using r c w by (intro exI [of _ un] exI [of _ f]) simp
  qed simp
  then show ?thesis ..
qed simp

text \<open>Matching in a trade.\<close>

definition matching_leg :: "bool \<Rightarrow> efp \<Rightarrow> market \<Rightarrow> order_store \<Rightarrow> efp \<Rightarrow> matches \<Rightarrow> market \<Rightarrow> order_store \<Rightarrow> efp \<Rightarrow> bool" where
  "matching_leg wk limit m st w ms m1 st1 w1 \<longleftrightarrow>
     (\<forall>i \<in> set (m_items ms). fair (own_cur wk m) (own_cur (\<not> wk) m) i \<and> mi_order i \<in> f_ids (own_front (\<not> wk) m)
        \<and> (if wk then mi_rate i \<le> limit else mi_rate i \<ge> limit))
     \<and> distinct (m_expired ms) \<and> set (m_expired ms) \<subseteq> f_ids (own_front (\<not> wk) m) \<and> set (m_expired ms) \<inter> m_ids m1 = {} \<and> m_ids m1 \<subseteq> m_ids m
     \<and> mk_weak_cur m1 = mk_weak_cur m \<and> mk_strong_cur m1 = mk_strong_cur m \<and> own_front wk m1 = own_front wk m
     \<and> wd w = wd w1 + paid_sum (m_items ms)
     \<and> wd (front_money (own_front (\<not> wk) m))
         = wd (front_money (own_front (\<not> wk) m1)) + got_sum (m_items ms) + expired_value (o_heap st1) (m_expired ms)
     \<and> market_ok (o_heap st1) m1 \<and> store_ok st1 \<and> o_next st1 = o_next st \<and> revalued (f_ids (own_front (\<not> wk) m)) (o_heap st) (o_heap st1)"

lemma matching_leg_none:
  "market_ok (o_heap st) m \<Longrightarrow> store_ok st \<Longrightarrow> matching_leg wk limit m st w (matches0\<lparr>m_unmatched := u\<rparr>) m st w"
  by (simp add: matching_leg_def matches0_def revalued_refl)

lemma own_fronts_disjoint:
  assumes "market_ok h m"
  shows "f_ids (own_front wk m) \<inter> f_ids (own_front (\<not> wk) m) = {}"
proof -
  have "own_cur wk m \<noteq> own_cur (\<not> wk) m" using assms by (cases wk) (auto simp: market_ok_def own_cur_def)
  then have False if "i \<in> f_ids (own_front wk m)" "i \<in> f_ids (own_front (\<not> wk) m)" for i
    using that assms front_ids_placed placed_once unfolding market_ok_def by metis
  then show ?thesis by blast
qed

lemma front_ids_found: "market_ok h m \<Longrightarrow> i \<in> f_ids (own_front wk m) \<Longrightarrow> om_find h i \<noteq> None"
  using front_ids_placed [of h "mk_weak_cur m" "mk_strong_cur m" "own_front wk m" i] by (auto simp: market_ok_def placed_def)

lemma m_ids_found: "market_ok h m \<Longrightarrow> i \<in> m_ids m \<Longrightarrow> om_find h i \<noteq> None"
  using front_ids_found [of h m i True] front_ids_found [of h m i False] m_ids_front [of m True] by auto

lemma revalued_find: "revalued D h h' \<Longrightarrow> om_find h' i = None \<longleftrightarrow> om_find h i = None"
proof -
  assume "revalued D h h'"
  then have "rel_option (\<lambda>x y. \<exists>v. y = x\<lparr>o_value := v\<rparr>) (om_find h i) (om_find h' i)" by (simp add: revalued_def)
  then show ?thesis by (cases "om_find h i"; cases "om_find h' i") auto
qed

lemma front_match_matching_leg:
  assumes fm: "front_match w limit amount (own_cur wk m) (own_cur (\<not> wk) m) buy (own_front (\<not> wk) m) (o_heap st) = Some (ms, w1, f1, h1)"
    and m: "market_ok (o_heap st) m" and st: "store_ok st"
  shows "matching_leg wk limit m st w ms (set_front (\<not> wk) f1 m) (st\<lparr>o_heap := h1\<rparr>) w1"
proof -
  let ?f = "own_front (\<not> wk) m" and ?wc = "mk_weak_cur m" and ?sc = "mk_strong_cur m"
  have ok: "front_ok (o_heap st) ?wc ?sc ?f" "f_invert ?f = wk" "f_cur ?f = own_cur (\<not> wk) m"
    and own: "front_ok (o_heap st) ?wc ?sc (own_front wk m)" using m by (simp_all add: market_ok_def)
  have h: "heap_ok (o_heap st)" using st by (simp add: store_ok_def)
  obtain s' where l: "front_leg ?wc ?sc (own_cur wk m) (own_cur (\<not> wk) m) limit ?f
      \<lparr>ms_wallet = w, ms_heap = o_heap st, ms_matches = matches0, ms_left = amount\<rparr> f1 s' (m_items ms) (m_expired ms)"
    and e: "w1 = ms_wallet s'" "h1 = ms_heap s'"
    by (rule front_match_effect [OF fm h ok(1)])
  note leg = l [unfolded front_leg_def leg_def]
  have r: "revalued (f_ids ?f) (o_heap st) h1" using leg by (simp add: e)
  have ids: "m_ids (set_front (\<not> wk) f1 m) = f_ids (own_front wk m) \<union> f_ids f1"
    by (simp add: m_ids_front [of _ wk])
  have "market_ok h1 (set_front (\<not> wk) f1 m)"
    using m leg front_ok_revalued [OF r] unfolding market_ok_def by (auto simp: e)
  moreover have "store_ok (st\<lparr>o_heap := h1\<rparr>)"
    using st leg revalued_find [OF r] by (auto simp: store_ok_def e)
  moreover have "set (m_expired ms) \<inter> m_ids (set_front (\<not> wk) f1 m) = {}"
    using leg own_fronts_disjoint [OF m, of wk] by (auto simp: ids)
  moreover have "m_ids (set_front (\<not> wk) f1 m) \<subseteq> m_ids m"
    using leg by (auto simp: ids m_ids_front [of m wk])
  ultimately show ?thesis
    using leg r ok by (auto simp: matching_leg_def e)
qed

section \<open>A trade\<close>

definition trade_leg :: "bool \<Rightarrow> efp \<Rightarrow> market \<Rightarrow> order_store \<Rightarrow> efp \<Rightarrow> trade_result \<Rightarrow> market \<Rightarrow> order_store \<Rightarrow> efp \<Rightarrow> bool" where
  "trade_leg wk limit m st w r m' st' w' \<longleftrightarrow>
     (let its = m_items (t_matches r); ex = m_expired (t_matches r); D = f_ids (own_front (\<not> wk) m) in
      (\<forall>i \<in> set its. fair (own_cur wk m) (own_cur (\<not> wk) m) i \<and> mi_order i \<in> D \<and> (if wk then mi_rate i \<le> limit else mi_rate i \<ge> limit))
      \<and> distinct ex \<and> set ex \<subseteq> D \<and> set ex \<inter> m_ids m' = {} \<and> m_ids m' \<subseteq> m_ids m \<union> set_option (t_order r)
      \<and> (t_order r = None \<or> t_order r = Some (o_next st)) \<and> o_next st' = (if t_order r = None then o_next st else Suc (o_next st))
      \<and> mk_weak_cur m' = mk_weak_cur m \<and> mk_strong_cur m' = mk_strong_cur m \<and> t_paid_cur r = own_cur wk m
      \<and> t_weak_cur r = mk_weak_cur m \<and> t_strong_cur r = mk_strong_cur m
      \<and> wd w + wd (front_money (own_front wk m)) = wd w' + wd (front_money (own_front wk m')) + paid_sum its
      \<and> wd (front_money (own_front (\<not> wk) m)) = wd (front_money (own_front (\<not> wk) m')) + got_sum its + expired_value (o_heap st') ex
      \<and> store_ok st' \<and> (\<forall>acid. market_ok (registered acid r (o_heap st')) m')
      \<and> (\<exists>h1. revalued D (o_heap st) h1 \<and> (\<forall>i. t_order r \<noteq> Some i \<longrightarrow> om_find (o_heap st') i = om_find h1 i)
            \<and> (\<forall>i. t_order r = Some i \<longrightarrow> om_find (o_heap st') i \<noteq> None)))"

lemma trade_result0_simps [simp]:
  "t_matches (trade_result0 wk m ms) = ms" "t_order (trade_result0 wk m ms) = None" "t_error (trade_result0 wk m ms) = False"
  "t_paid_cur (trade_result0 wk m ms) = own_cur wk m" "t_recv_cur (trade_result0 wk m ms) = own_cur (\<not> wk) m"
  "t_weak_cur (trade_result0 wk m ms) = mk_weak_cur m" "t_strong_cur (trade_result0 wk m ms) = mk_strong_cur m"
  by (simp_all add: trade_result0_def)

lemma own_cur_eq: "mk_weak_cur m1 = mk_weak_cur m \<Longrightarrow> mk_strong_cur m1 = mk_strong_cur m \<Longrightarrow> own_cur wk m1 = own_cur wk m"
  by (simp add: own_cur_def)

lemma trade_leg_done:
  assumes "matching_leg wk limit m st w ms m1 st1 w1"
  shows "trade_leg wk limit m st w (trade_result0 wk m1 ms) m1 st1 w1"
proof -
  note M = assms [unfolded matching_leg_def]
  have c: "mk_weak_cur m1 = mk_weak_cur m" "mk_strong_cur m1 = mk_strong_cur m" "own_front wk m1 = own_front wk m" "o_next st1 = o_next st"
    "wd w = wd w1 + paid_sum (m_items ms)" using M by blast+
  have h: "\<exists>h1. revalued (f_ids (own_front (\<not> wk) m)) (o_heap st) h1 \<and> (\<forall>i. om_find (o_heap st1) i = om_find h1 i)"
    by (rule exI [of _ "o_heap st1"]) (use M in simp)
  show ?thesis
    unfolding trade_leg_def Let_def
    by (intro conjI) (use M in \<open>simp_all add: registered_none own_cur_eq [of m1 m] c h\<close>)
qed

lemma store_ok_fresh: "store_ok st \<Longrightarrow> om_find (o_heap st) (o_next st) = None"
  by (auto simp: store_ok_def)

lemma store_ok_om: "store_ok st \<Longrightarrow> om_ok (o_heap st)"
  by (simp add: store_ok_def heap_ok_def)

lemma with_new_find:
  "store_ok st \<Longrightarrow> om_find (o_heap (with_new v weak buy st)) i = (if i = o_next st then Some (blank_order i v weak buy) else om_find (o_heap st) i)"
  by (simp add: with_new_def store_ok_om om_find_set)

lemma store_ok_new: "store_ok st \<Longrightarrow> store_ok (with_new v weak buy st)"
  by (auto simp: store_ok_def heap_ok_def with_new_def om_ok_set om_find_set blank_order_def less_Suc_eq)

lemma registered_new:
  assumes st: "store_ok st" and r: "t_order r = Some (o_next st)"
  shows "om_find (registered acid r (o_heap (with_new v weak buy st))) i =
    (if i = o_next st
     then Some (set_data acid (t_recv_cur r) (t_paid_cur r) (t_order_rate r) (t_weak_cur r) (t_strong_cur r) (blank_order i v weak buy))
     else om_find (o_heap st) i)"
  using with_new_find [OF st] store_ok_om [OF store_ok_new [OF st]] by (simp add: registered_def r om_find_set)

lemma market_ok_new:
  assumes m: "market_ok (o_heap st) m" and st: "store_ok st" and n: "new_order_in wk w limit buy m st ms r w' m' st'"
  shows "market_ok (registered acid r (o_heap st')) m'"
proof -
  obtain un f where r: "r = (trade_result0 wk m ms)\<lparr>t_order := Some (o_next st), t_order_rate := limit\<rparr>"
    and m': "m' = set_front wk f m" and st': "st' = with_new un wk buy st" and f: "f_cur f = own_cur wk m" "f_invert f = (\<not> wk)"
    and fk: "\<forall>h'. (\<forall>j. j \<noteq> o_next st \<longrightarrow> om_find h' j = om_find (o_heap st) j) \<and> placed h' (mk_weak_cur m) (mk_strong_cur m) (own_cur wk m) limit (o_next st)
             \<longrightarrow> front_ok h' (mk_weak_cur m) (mk_strong_cur m) f"
    using n unfolding new_order_in_def by blast
  let ?h = "registered acid r (o_heap st')"
  have h: "om_find ?h i = (if i = o_next st
     then Some (set_data acid (t_recv_cur r) (t_paid_cur r) (t_order_rate r) (t_weak_cur r) (t_strong_cur r) (blank_order i un wk buy))
     else om_find (o_heap st) i)" for i
    unfolding st' by (rule registered_new [OF st]) (simp add: r)
  have rf: "t_paid_cur r = own_cur wk m" "t_order_rate r = limit" "t_weak_cur r = mk_weak_cur m" "t_strong_cur r = mk_strong_cur m"
    by (simp_all add: r)
  have "placed ?h (mk_weak_cur m) (mk_strong_cur m) (own_cur wk m) limit (o_next st)"
    by (simp add: h placed_def set_data_def rf)
  then have "front_ok ?h (mk_weak_cur m) (mk_strong_cur m) f"
    using fk [rule_format, of ?h] by (simp add: h)
  moreover have "front_ok ?h (mk_weak_cur m) (mk_strong_cur m) (own_front (\<not> wk) m)"
  proof (rule front_ok_heap)
    show ok: "front_ok (o_heap st) (mk_weak_cur m) (mk_strong_cur m) (own_front (\<not> wk) m)" using m by (simp add: market_ok_def)
    have "i \<noteq> o_next st" if "i \<in> f_ids (own_front (\<not> wk) m)" for i
      using front_ids_found [OF m that] store_ok_fresh [OF st] by auto
    then show "\<forall>j \<in> f_ids (own_front (\<not> wk) m). om_find ?h j = om_find (o_heap st) j" by (auto simp: h)
  qed
  ultimately show ?thesis
    using m f unfolding market_ok_def m' by (cases wk) (auto simp: all_bool_eq)
qed

lemma trade_leg_new:
  assumes l: "matching_leg wk limit m st w ms m1 st1 w1" and n: "new_order_in wk w1 limit buy m1 st1 ms r w' m' st'"
    and m: "market_ok (o_heap st) m" and st: "store_ok st"
  shows "trade_leg wk limit m st w r m' st' w'"
proof -
  note M = l [unfolded matching_leg_def]
  have c: "mk_weak_cur m1 = mk_weak_cur m" "mk_strong_cur m1 = mk_strong_cur m" "own_front wk m1 = own_front wk m" "o_next st1 = o_next st"
    "wd w = wd w1 + paid_sum (m_items ms)" and m1: "market_ok (o_heap st1) m1" and st1: "store_ok st1" using M by blast+
  obtain un f where r: "r = (trade_result0 wk m1 ms)\<lparr>t_order := Some (o_next st1), t_order_rate := limit\<rparr>"
    and m': "m' = set_front wk f m1" and st': "st' = with_new un wk buy st1" and w: "wd w1 = wd w' + wd un"
    and f: "wd (front_money f) = wd (front_money (own_front wk m1)) + wd un" "f_ids f = insert (o_next st1) (f_ids (own_front wk m1))"
    using n unfolding new_order_in_def by blast
  note h = with_new_find [OF st1]
  have ids: "m_ids m' = insert (o_next st) (m_ids m1)"
    using m_ids_front [of m' wk] m_ids_front [of m1 wk] by (simp add: m' f c)
  have D: "i \<in> f_ids (own_front (\<not> wk) m) \<Longrightarrow> i \<noteq> o_next st" for i
    using front_ids_found [OF m, of i "\<not> wk"] store_ok_fresh [OF st] by auto
  have ex: "expired_value (o_heap st') (m_expired ms) = expired_value (o_heap st1) (m_expired ms)"
    using M D by (intro arg_cong [where f = sum_list] map_cong) (auto simp: st' value_at_def h c)
  have hp: "\<exists>h1. revalued (f_ids (own_front (\<not> wk) m)) (o_heap st) h1 \<and> (\<forall>i. t_order r \<noteq> Some i \<longrightarrow> om_find (o_heap st') i = om_find h1 i)
            \<and> (\<forall>i. t_order r = Some i \<longrightarrow> om_find (o_heap st') i \<noteq> None)"
    by (rule exI [of _ "o_heap st1"]) (use M in \<open>auto simp: st' h r c\<close>)
  have ok: "market_ok (registered acid r (o_heap st')) m'" for acid by (rule market_ok_new [OF m1 st1 n])
  have rf: "t_matches r = ms" "t_order r = Some (o_next st)" "t_paid_cur r = own_cur wk m" "t_weak_cur r = mk_weak_cur m" "t_strong_cur r = mk_strong_cur m"
    by (simp_all add: r c own_cur_eq [OF c(1,2)])
  have st'_ok: "store_ok st'" "o_next st' = Suc (o_next st)" using store_ok_new [OF st1] by (simp_all add: st' c with_new_def)
  have disj: "set (m_expired ms) \<inter> m_ids m' = {}" and sub: "m_ids m' \<subseteq> insert (o_next st) (m_ids m)" using M D by (auto simp: ids)
  show ?thesis
    unfolding trade_leg_def Let_def rf
    by (intro conjI) (use M hp ok ex st'_ok disj sub w f in \<open>simp_all add: rf m' c algebra_simps\<close>)
qed

lemma trade_on_effect:
  assumes t: "trade_on wk w limit amount buy low m st = Some (r, w', m', st')" and e: "\<not> t_error r"
    and m: "market_ok (o_heap st) m" and st: "store_ok st"
  shows "trade_leg wk limit m st w r m' st' w'"
proof -
  consider (none) "r = trade_result0 wk m matches0" "w' = w" "m' = m" "st' = st"
    | (queue) ms m1 st1 w1 where "matching_leg wk limit m st w ms m1 st1 w1" "queue_unmatched wk w1 limit buy low ms m1 st1 = Some (r, w', m', st')"
  proof (cases low)
    case True
    show thesis
    proof (cases "test_match limit (own_front (\<not> wk) m)")
      case t1: True
      show thesis by (rule none) (use t True t1 in \<open>auto simp: trade_on_def\<close>)
    next
      case f1: False
      show thesis by (rule queue [OF matching_leg_none [OF m st]]) (use t True f1 in \<open>simp add: trade_on_def\<close>)
    qed
  next
    case False
    then obtain ms w1 f1 h1
      where fm: "front_match w limit amount (own_cur wk m) (own_cur (\<not> wk) m) buy (own_front (\<not> wk) m) (o_heap st) = Some (ms, w1, f1, h1)"
        and q: "queue_unmatched wk w1 limit buy low ms (set_front (\<not> wk) f1 m) (st\<lparr>o_heap := h1\<rparr>) = Some (r, w', m', st')"
      using t by (auto simp: trade_on_def split: option.splits)
    show thesis by (rule queue [OF front_match_matching_leg [OF fm m st] q])
  qed
  then show ?thesis
  proof cases
    case none
    then show ?thesis
      using trade_leg_done [OF matching_leg_none [OF m st, where u = 0 and wk = wk and limit = limit and w = w]] by (simp add: matches0_def)
  next
    case (queue ms m1 st1 w1)
    have "market_ok (o_heap st1) m1" "store_ok st1" using queue(1) by (simp_all add: matching_leg_def)
    then show ?thesis
      using queue_unmatched_cases [OF queue(2) e] trade_leg_done [OF queue(1)] trade_leg_new [OF queue(1) _ m st] by blast
  qed
qed

lemma market_trade_on: "market_trade w cur limit amount buy low m st = trade_on (if cur = mk_strong_cur m then buy else \<not> buy) w limit amount buy low m st"
  by (simp add: market_trade_def trade_weak_def trade_strong_def)

end
