(* ===== verification/Exchange_Accounting.thy ===== *)
theory Exchange_Accounting
  imports Exchange_Trades Exchange
begin

text \<open>
  The money of the exchange: what the requests do to the sum of the wallets and the queues of a currency. Sums are
  words: as in the code, they wrap around.
\<close>

section \<open>Payments\<close>

definition accounts_ok :: "exchange \<Rightarrow> bool" where
  "accounts_ok e \<longleftrightarrow> om_ok (e_accounts e) \<and> om_find (e_accounts e) system_account \<noteq> None
     \<and> (\<forall>i a. om_find (e_accounts e) i = Some a \<longrightarrow> om_ok (a_wallets a))"

definition a_money :: "int \<Rightarrow> account \<Rightarrow> efp" where
  "a_money cur a = (case om_find (a_wallets a) cur of Some w \<Rightarrow> w | None \<Rightarrow> 0)"

lemma wallet_money_sum: "wallet_money cur e = om_sum (a_money cur) (e_accounts e)"
  by (simp add: wallet_money_def a_money_def [abs_def])

text \<open>The same exchange, with what is added to the wallets in each currency.\<close>

definition payment :: "exchange \<Rightarrow> (int \<Rightarrow> u64) \<Rightarrow> exchange \<Rightarrow> bool" where
  "payment e d e' \<longleftrightarrow>
     e' = e\<lparr>e_accounts := e_accounts e'\<rparr> \<and> accounts_ok e' \<and> (\<forall>i. om_find (e_accounts e') i = None \<longleftrightarrow> om_find (e_accounts e) i = None)
     \<and> (\<forall>cur. wd (wallet_money cur e') = wd (wallet_money cur e) + d cur)"

definition coins :: "int \<Rightarrow> u64 \<Rightarrow> int \<Rightarrow> u64" where "coins cur v c = (if c = cur then v else 0)"

lemma coins_zero [simp]: "coins cur 0 = (\<lambda>_. 0)"
  by (auto simp: coins_def)

lemma payment_refl: "accounts_ok e \<Longrightarrow> payment e (\<lambda>_. 0) e"
  by (simp add: payment_def)

lemma payment_trans: "payment e d e1 \<Longrightarrow> payment e1 d' e2 \<Longrightarrow> payment e (\<lambda>c. d c + d' c) e2"
  unfolding payment_def by (metis (no_types, lifting) add.assoc exchange.surjective exchange.update_convs(1))

lemma payment_parts:
  assumes "payment e d e'"
  shows "e_orders e' = e_orders e" "e_markets e' = e_markets e" "e_store e' = e_store e" "e_auto_match_free e' = e_auto_match_free e"
    "e_next_account e' = e_next_account e"
    "accounts_ok e'" "om_find (e_accounts e') i = None \<longleftrightarrow> om_find (e_accounts e) i = None"
    "wd (wallet_money cur e') = wd (wallet_money cur e) + d cur"
  using assms unfolding payment_def by (metis exchange.select_convs exchange.surjective exchange.update_convs(1))+

text \<open>Changing the wallets of an account.\<close>

lemma payment_account:
  assumes ok: "accounts_ok e" and a: "om_find (e_accounts e) acid = Some a" and w: "om_ok (a_wallets (g a))"
    and d: "\<And>cur. wd (a_money cur (g a)) = wd (a_money cur a) + d cur"
  shows "payment e d (at_account acid g e)"
proof -
  let ?e = "e\<lparr>e_accounts := om_set acid (g a) (e_accounts e)\<rparr>"
  have om: "om_ok (e_accounts e)" using ok by (simp add: accounts_ok_def)
  have "wd (wallet_money cur ?e) = wd (wallet_money cur e) + d cur" for cur
    by (simp add: wallet_money_sum om_sum_set om a d)
  moreover have "accounts_ok ?e" using ok w by (auto simp: accounts_ok_def om_ok_set om_find_set)
  ultimately show ?thesis using a by (simp add: payment_def at_account_def om_find_set om)
qed

lemma deposit_money:
  assumes "om_ok (a_wallets a)"
  shows "om_ok (a_wallets (account_deposit c x a))"
    "wd (a_money cur (account_deposit c x a)) = wd (a_money cur a) + coins c (wd x) cur"
    "a_orders (account_deposit c x a) = a_orders a"
  using assms
  by (auto simp: account_deposit_def account_new_wallet_def Let_def om_ok_set om_find_set a_money_def coins_def cex_deposit_def
      split: option.splits)

lemma payment_deposit:
  assumes "accounts_ok e" "om_find (e_accounts e) acid \<noteq> None"
  shows "payment e (coins c (wd x)) (at_account acid (account_deposit c x) e)"
proof -
  obtain a where a: "om_find (e_accounts e) acid = Some a" using assms by blast
  then have "om_ok (a_wallets a)" using assms by (auto simp: accounts_ok_def)
  then show ?thesis using deposit_money by (intro payment_account [OF assms(1) a]) auto
qed

lemma payment_pay0:
  assumes "accounts_ok e" "om_find (e_accounts e) acid \<noteq> None"
  shows "payment e (coins c (wd net + wd comm)) (cex_pay0 acid c net comm e)"
proof -
  have 1: "payment e (coins c (wd comm)) (at_account system_account (account_deposit c comm) e)"
    using assms by (intro payment_deposit) (auto simp: accounts_ok_def)
  have "payment (at_account system_account (account_deposit c comm) e) (coins c (wd net)) (cex_pay0 acid c net comm e)"
    unfolding cex_pay0_def using assms(2) payment_parts(6,7) [OF 1] by (intro payment_deposit) auto
  then have "payment e (\<lambda>x. coins c (wd comm) x + coins c (wd net) x) (cex_pay0 acid c net comm e)" by (rule payment_trans [OF 1])
  moreover have "(\<lambda>x. coins c (wd comm) x + coins c (wd net) x) = coins c (wd net + wd comm)" by (auto simp: coins_def)
  ultimately show ?thesis by simp
qed

lemma payment_pay:
  assumes "cex_pay acid c amount e = Some e'" "accounts_ok e"
  shows "payment e (coins c (wd amount)) e'"
proof -
  obtain a net comm am where a: "om_find (e_accounts e) acid = Some a" and p: "encode_pair (fl (am - fl (am * commission_rate (a_discount a))))
      (fl (am * commission_rate (a_discount a))) amount = Some (net, comm)"
    and e': "e' = cex_pay0 acid c net comm e"
    using assms(1) by (auto simp: cex_pay_def Let_def split: option.splits)
  have "wd net + wd comm = wd amount" using encode_pair_sum [OF p] by (metis of_int_add wrap64_word)
  then show ?thesis using payment_pay0 [OF assms(2), of acid c net comm] a by (simp add: e')
qed

text \<open>What the matches pay out.\<close>

definition payout :: "matchitem list \<Rightarrow> int \<Rightarrow> u64" where
  "payout ms c = (\<Sum>i \<leftarrow> ms. coins (mi_received_cur (mi_lay i)) (wd (mi_received (mi_lay i))) c
     + coins (mi_received_cur (mi_back i)) (wd (mi_received (mi_back i))) c)"

lemma payout_simps [simp]:
  "payout [] c = 0"
  "payout (i # ms) c = coins (mi_received_cur (mi_lay i)) (wd (mi_received (mi_lay i))) c
     + coins (mi_received_cur (mi_back i)) (wd (mi_received (mi_back i))) c + payout ms c"
  by (simp_all add: payout_def)

lemma payout_fair: "\<forall>i \<in> set ms. fair cur lay_cur i \<Longrightarrow> payout ms c = coins cur (paid_sum ms) c + coins lay_cur (got_sum ms) c"
  by (induction ms) (auto simp: fair_def coins_def)

lemma process_items_payment:
  "process_items acid ms e = Some e' \<Longrightarrow> accounts_ok e \<Longrightarrow> om_find (e_accounts e) acid \<noteq> None \<Longrightarrow> payment e (payout ms) e'"
proof (induction acid ms e rule: process_items.induct)
  case (1 acid e)
  then show ?case by (simp add: payment_refl payout_def)
next
  case (2 acid i ms e)
  let ?lc = "mi_received_cur (mi_lay i)" and ?l = "mi_received (mi_lay i)"
    and ?bc = "mi_received_cur (mi_back i)" and ?b = "mi_received (mi_back i)"
  obtain ord where ord: "om_find (o_heap (e_store e)) (mi_order i) = Some ord" "om_find (e_accounts e) (o_account ord) \<noteq> None"
    "mi_order i \<in> e_orders e"
    using "2.prems"(1) by (auto split: option.splits if_splits)
  have step: "\<exists>e1 e2. payment e (coins ?lc (wd ?l)) e1 \<and> payment e1 (coins ?bc (wd ?b)) e2 \<and> payment e2 (payout ms) e'"
  proof (cases "acid = o_account ord \<and> e_auto_match_free e")
    case True
    let ?e1 = "cex_pay0 (o_account ord) ?lc ?l 0 e"
    have p1: "payment e (coins ?lc (wd ?l)) ?e1"
      using payment_pay0 [OF "2.prems"(2) ord(2), of ?lc ?l 0] by simp
    have p2: "payment ?e1 (coins ?bc (wd ?b)) (cex_pay0 acid ?bc ?b 0 ?e1)"
      using payment_pay0 [OF payment_parts(6) [OF p1], of acid ?bc ?b 0] payment_parts(7) [OF p1, of acid] "2.prems"(3) by simp
    have go: "process_items acid ms (cex_pay0 acid ?bc ?b 0 ?e1) = Some e'" using "2.prems"(1) ord True by simp
    have "payment (cex_pay0 acid ?bc ?b 0 ?e1) (payout ms) e'"
      using "2.IH"(1) [OF ord(1) _ True go] ord(2,3) payment_parts(6) [OF p2] payment_parts(7) [OF p2, of acid]
        payment_parts(7) [OF p1, of acid] "2.prems"(3) by simp
    then show ?thesis using p1 p2 by blast
  next
    case False
    obtain e1 where e1: "cex_pay (o_account ord) ?lc ?l e = Some e1" using "2.prems"(1) ord False by (auto split: option.splits)
    obtain e2 where e2: "cex_pay acid ?bc ?b e1 = Some e2" and go: "process_items acid ms e2 = Some e'"
      using "2.prems"(1) ord False e1 by (auto split: option.splits)
    have p1: "payment e (coins ?lc (wd ?l)) e1" by (rule payment_pay [OF e1 "2.prems"(2)])
    have p2: "payment e1 (coins ?bc (wd ?b)) e2" by (rule payment_pay [OF e2 payment_parts(6) [OF p1]])
    have "payment e2 (payout ms) e'"
      using "2.IH"(2) [OF ord(1) _ False e1 e2 go] ord(2,3) payment_parts(6) [OF p2] payment_parts(7) [OF p2, of acid]
        payment_parts(7) [OF p1, of acid] "2.prems"(3) by simp
    then show ?thesis using p1 p2 by blast
  qed
  then obtain e1 e2 where p: "payment e (coins ?lc (wd ?l)) e1" "payment e1 (coins ?bc (wd ?b)) e2" "payment e2 (payout ms) e'" by blast
  have "payout (i # ms) = (\<lambda>c. coins ?lc (wd ?l) c + (coins ?bc (wd ?b) c + payout ms c))" by (auto simp: algebra_simps)
  then show ?case using payment_trans [OF p(1) payment_trans [OF p(2,3)]] by simp
qed

section \<open>Expired orders\<close>

text \<open>What is left of the expired orders goes back and they are gone; nothing else changes.\<close>

definition refunded :: "nat list \<Rightarrow> int \<Rightarrow> exchange \<Rightarrow> exchange \<Rightarrow> bool" where
  "refunded ex c e e' \<longleftrightarrow>
     accounts_ok e' \<and> (\<forall>i. om_find (e_accounts e') i = None \<longleftrightarrow> om_find (e_accounts e) i = None) \<and> e_markets e' = e_markets e
     \<and> e_orders e' = e_orders e - set ex \<and> o_next (e_store e') = o_next (e_store e) \<and> e_auto_match_free e' = e_auto_match_free e
     \<and> om_ok (o_heap (e_store e'))
     \<and> (\<forall>i. om_find (o_heap (e_store e')) i = (if i \<in> set ex then None else om_find (o_heap (e_store e)) i))
     \<and> (\<forall>cur. wd (wallet_money cur e') = wd (wallet_money cur e) + coins c (expired_value (o_heap (e_store e)) ex) cur)"

lemma untrack_money:
  "a_wallets (untrack_order i a) = a_wallets a" "a_money cur (untrack_order i a) = a_money cur a"
  "a_wallets (track_order i a) = a_wallets a" "a_money cur (track_order i a) = a_money cur a"
  by (simp_all add: untrack_order_def track_order_def a_money_def)

lemma payment_refund:
  assumes "accounts_ok e" "om_find (e_accounts e) acid \<noteq> None"
  shows "payment e (coins c (wd x)) (at_account acid (untrack_order i \<circ> account_deposit c x) e)"
    and "payment e (coins c (wd x)) (at_account acid (account_deposit c x \<circ> untrack_order i) e)"
proof -
  obtain a where a: "om_find (e_accounts e) acid = Some a" using assms by blast
  then have w: "om_ok (a_wallets a)" using assms by (auto simp: accounts_ok_def)
  show "payment e (coins c (wd x)) (at_account acid (untrack_order i \<circ> account_deposit c x) e)"
    by (rule payment_account [OF assms(1) a]) (simp_all add: untrack_money deposit_money w)
  show "payment e (coins c (wd x)) (at_account acid (account_deposit c x \<circ> untrack_order i) e)"
    by (rule payment_account [OF assms(1) a]) (simp_all add: untrack_money deposit_money w)
qed

lemma at_heap_parts [simp]:
  "e_accounts (at_heap g e) = e_accounts e" "e_markets (at_heap g e) = e_markets e" "e_orders (at_heap g e) = e_orders e"
  "o_heap (e_store (at_heap g e)) = g (o_heap (e_store e))" "o_next (e_store (at_heap g e)) = o_next (e_store e)"
  "e_auto_match_free (at_heap g e) = e_auto_match_free e" "wallet_money cur (at_heap g e) = wallet_money cur e"
  "e_next_account (at_heap g e) = e_next_account e"
  by (simp_all add: at_heap_def wallet_money_def)

lemma wallet_money_update [simp]:
  "wallet_money cur (e\<lparr>e_orders := os\<rparr>) = wallet_money cur e" "wallet_money cur (e\<lparr>e_markets := ms\<rparr>) = wallet_money cur e"
  "wallet_money cur (e\<lparr>e_store := st\<rparr>) = wallet_money cur e"
  by (simp_all add: wallet_money_def)

lemma accounts_ok_update [simp]:
  "accounts_ok (e\<lparr>e_orders := os\<rparr>) = accounts_ok e" "accounts_ok (e\<lparr>e_markets := ms\<rparr>) = accounts_ok e"
  "accounts_ok (e\<lparr>e_store := st\<rparr>) = accounts_ok e" "accounts_ok (at_heap g e) = accounts_ok e"
  by (simp_all add: accounts_ok_def)

lemma refund_expired_effect:
  "refund_expired ex e = Some e' \<Longrightarrow> accounts_ok e \<Longrightarrow> om_ok (o_heap (e_store e)) \<Longrightarrow> distinct ex \<Longrightarrow>
   \<forall>i \<in> set ex. \<forall>ord. om_find (o_heap (e_store e)) i = Some ord \<longrightarrow> o_paid_cur ord = c \<Longrightarrow> refunded ex c e e'"
proof (induction ex e rule: refund_expired.induct)
  case (1 e)
  then show ?case by (simp add: refunded_def)
next
  case (2 i xs e)
  obtain ord where ord: "om_find (o_heap (e_store e)) i = Some ord" "om_find (e_accounts e) (o_account ord) \<noteq> None"
    using "2.prems"(1) by (auto split: option.splits if_splits)
  let ?p = "at_account (o_account ord) (untrack_order i \<circ> account_deposit (o_paid_cur ord) (o_value ord)) e"
  let ?e = "at_heap (om_erase i) (?p\<lparr>e_orders := e_orders e - {i}\<rparr>)"
  have c: "o_paid_cur ord = c" using "2.prems"(5) ord(1) by simp
  have p: "payment e (coins c (wd (o_value ord))) ?p" using payment_refund(1) [OF "2.prems"(2) ord(2)] c by simp
  note P = payment_parts [OF p]
  have go: "refund_expired xs ?e = Some e'" using "2.prems"(1) ord by (auto split: if_splits)
  have heap: "om_find (o_heap (e_store ?e)) j = (if j = i then None else om_find (o_heap (e_store e)) j)" for j
    by (simp add: P om_find_erase)
  have "refunded xs c ?e e'"
    by (rule "2.IH" [OF ord(1) _ go]) (use ord "2.prems" P heap in \<open>auto simp: om_ok_erase split: if_splits\<close>)
  moreover have "expired_value (o_heap (e_store ?e)) xs = expired_value (o_heap (e_store e)) xs"
    using "2.prems"(4) by (intro arg_cong [where f = sum_list] map_cong) (auto simp: value_at_def P om_find_erase)
  moreover have "value_at (o_heap (e_store e)) i = wd (o_value ord)" by (simp add: value_at_def ord(1))
  ultimately show ?case
    by (auto simp: refunded_def P om_find_erase coins_def algebra_simps)
qed

section \<open>Markets\<close>

definition market_money :: "int \<Rightarrow> market \<Rightarrow> efp" where
  "market_money cur m =
     (if f_cur (mk_weak m) = cur then front_money (mk_weak m) else 0) + (if f_cur (mk_strong m) = cur then front_money (mk_strong m) else 0)"

lemma total_money_word: "wd (total_money cur e) = wd (wallet_money cur e) + wd (om_sum (market_money cur) (e_markets e))"
  by (simp add: total_money_def market_money_def [abs_def])

lemma total_money_eq:
  "wd (total_money cur e) = wd (total_money cur e') \<Longrightarrow> total_money cur e = total_money cur e'"
  using wrap64_eq_iff by (simp add: total_money_def)

lemma market_money_fronts:
  assumes "market_ok h m"
  shows "wd (market_money cur m) = coins (own_cur wk m) (wd (front_money (own_front wk m))) cur
    + coins (own_cur (\<not> wk) m) (wd (front_money (own_front (\<not> wk) m))) cur"
proof -
  have "f_cur (mk_weak m) = mk_weak_cur m" "f_cur (mk_strong m) = mk_strong_cur m" "mk_weak_cur m \<noteq> mk_strong_cur m"
    using assms by (auto simp: market_ok_def own_front_def own_cur_def split: if_splits)
  then show ?thesis by (cases wk) (auto simp: market_money_def own_front_def own_cur_def coins_def)
qed

text \<open>The state of an exchange whose tables agree.\<close>

definition exchange_ok :: "exchange \<Rightarrow> bool" where
  "exchange_ok e \<longleftrightarrow>
     accounts_ok e \<and> om_ok (e_markets e) \<and> store_ok (e_store e)
     \<and> (\<forall>k m. om_find (e_markets e) k = Some m \<longrightarrow>
          k = market_key (mk_weak_cur m) (mk_strong_cur m) \<and> market_ok (o_heap (e_store e)) m \<and> m_ids m \<subseteq> e_orders e)
     \<and> (\<forall>i \<in> e_orders e. \<exists>ord. om_find (o_heap (e_store e)) i = Some ord \<and> om_find (e_accounts e) (o_account ord) \<noteq> None)"

lemma exchange_okD:
  assumes "exchange_ok e" "om_find (e_markets e) k = Some m"
  shows "k = market_key (mk_weak_cur m) (mk_strong_cur m)" "market_ok (o_heap (e_store e)) m" "m_ids m \<subseteq> e_orders e"
  using assms unfolding exchange_ok_def by blast+

lemma m_ids_placed:
  assumes "market_ok h m" "i \<in> m_ids m"
  shows "\<exists>c r. placed h (mk_weak_cur m) (mk_strong_cur m) c r i"
  using assms front_ids_placed [of h "mk_weak_cur m" "mk_strong_cur m"] m_ids_front [of m True]
  by (fastforce simp: market_ok_def)

text \<open>The orders of two markets are different.\<close>

lemma markets_disjoint:
  assumes "exchange_ok e" "om_find (e_markets e) k = Some m" "om_find (e_markets e) k' = Some m'" "k \<noteq> k'"
  shows "m_ids m \<inter> m_ids m' = {}"
proof -
  let ?h = "o_heap (e_store e)"
  have ok: "market_ok ?h m" "market_ok ?h m'" "k = market_key (mk_weak_cur m) (mk_strong_cur m)" "k' = market_key (mk_weak_cur m') (mk_strong_cur m')"
    using exchange_okD [OF assms(1)] assms(2,3) by blast+
  have False if "i \<in> m_ids m" "i \<in> m_ids m'" for i
    using m_ids_placed [OF ok(1) that(1)] m_ids_placed [OF ok(2) that(2)] placed_once ok(3,4) assms(4) by metis
  then show ?thesis by blast
qed

lemma market_ok_heap:
  assumes "market_ok h m" "\<forall>i \<in> m_ids m. om_find h' i = om_find h i"
  shows "market_ok h' m"
proof -
  have "front_ok h' (mk_weak_cur m) (mk_strong_cur m) (own_front wk m)" for wk
    by (rule front_ok_heap [of h]) (use assms m_ids_front [of m wk] in \<open>auto simp: market_ok_def\<close>)
  then show ?thesis using assms(1) by (simp add: market_ok_def)
qed

text \<open>One market, the orders and the wallets change; the other markets do not.\<close>

lemma exchange_ok_step:
  assumes ok: "exchange_ok e" and m: "om_find (e_markets e) k = Some m"
    and acc: "accounts_ok e'" "\<And>i. om_find (e_accounts e) i \<noteq> None \<Longrightarrow> om_find (e_accounts e') i \<noteq> None"
    and mk: "e_markets e' = om_set k m' (e_markets e)" "mk_weak_cur m' = mk_weak_cur m" "mk_strong_cur m' = mk_strong_cur m"
    and m': "market_ok (o_heap (e_store e')) m'" "m_ids m' \<subseteq> e_orders e'"
    and st: "store_ok (e_store e')"
    and others: "\<And>i. i \<in> e_orders e \<Longrightarrow> i \<notin> m_ids m \<Longrightarrow> i \<in> e_orders e' \<and> om_find (o_heap (e_store e')) i = om_find (o_heap (e_store e)) i"
    and ords: "\<And>i. i \<in> e_orders e' \<Longrightarrow> \<exists>ord. om_find (o_heap (e_store e')) i = Some ord \<and> om_find (e_accounts e) (o_account ord) \<noteq> None"
  shows "exchange_ok e'"
proof -
  have om: "om_ok (e_markets e)" using ok by (simp add: exchange_ok_def)
  have "k2 = market_key (mk_weak_cur m2) (mk_strong_cur m2) \<and> market_ok (o_heap (e_store e')) m2 \<and> m_ids m2 \<subseteq> e_orders e'"
    if f: "om_find (e_markets e') k2 = Some m2" for k2 m2
  proof (cases "k2 = k")
    case True
    then show ?thesis using f m' mk exchange_okD(1) [OF ok m] om by (simp add: om_find_set)
  next
    case False
    then have f2: "om_find (e_markets e) k2 = Some m2" using f om by (simp add: mk om_find_set)
    then have ids: "m_ids m2 \<inter> m_ids m = {}" "m_ids m2 \<subseteq> e_orders e"
      using markets_disjoint [OF ok f2 m False] exchange_okD(3) [OF ok f2] by blast+
    then have "\<forall>i \<in> m_ids m2. i \<in> e_orders e' \<and> om_find (o_heap (e_store e')) i = om_find (o_heap (e_store e)) i"
      using others by blast
    then show ?thesis using exchange_okD(1,2) [OF ok f2] market_ok_heap [of "o_heap (e_store e)" m2] by blast
  qed
  then show ?thesis
    using acc st ords om_ok_set [OF om] unfolding exchange_ok_def mk(1) [symmetric] by (metis mk(1))
qed

text \<open>The other markets count the same before and after.\<close>

lemma total_money_step:
  assumes "om_ok (e_markets e)" "om_find (e_markets e) k = Some m" "e_markets e' = om_set k m' (e_markets e)"
    and "wd (wallet_money cur e') + wd (market_money cur m') = wd (wallet_money cur e) + wd (market_money cur m)"
  shows "total_money cur e' = total_money cur e"
  by (rule total_money_eq) (use assms in \<open>simp add: total_money_word om_sum_set algebra_simps\<close>)

section \<open>A trade\<close>

text \<open>The result of a trade is processed.\<close>

lemma process_result_effect:
  assumes p: "process_result acid r e = Some e'" and acc: "accounts_ok e" "om_find (e_accounts e) acid \<noteq> None" and st: "store_ok (e_store e)"
    and f: "\<forall>i \<in> set (m_items (t_matches r)). fair cur lay_cur i"
    and ex: "distinct (m_expired (t_matches r))" "\<forall>i \<in> set (m_expired (t_matches r)). t_order r \<noteq> Some i"
      "\<forall>i \<in> set (m_expired (t_matches r)). \<forall>ord. om_find (o_heap (e_store e)) i = Some ord \<longrightarrow> o_paid_cur ord = lay_cur"
  shows "accounts_ok e' \<and> (\<forall>i. om_find (e_accounts e') i = None \<longleftrightarrow> om_find (e_accounts e) i = None) \<and> e_markets e' = e_markets e
     \<and> e_orders e' = (e_orders e \<union> set_option (t_order r)) - set (m_expired (t_matches r))
     \<and> o_next (e_store e') = o_next (e_store e) \<and> om_ok (o_heap (e_store e'))
     \<and> (\<forall>i. om_find (o_heap (e_store e')) i =
          (if i \<in> set (m_expired (t_matches r)) then None else om_find (registered acid r (o_heap (e_store e))) i))
     \<and> (\<forall>c. wd (wallet_money c e') = wd (wallet_money c e) + coins cur (paid_sum (m_items (t_matches r))) c
          + coins lay_cur (got_sum (m_items (t_matches r)) + expired_value (o_heap (e_store e)) (m_expired (t_matches r))) c)"
proof -
  let ?h = "registered acid r (o_heap (e_store e))" and ?e1 = "register_order acid r e" and ?ex = "m_expired (t_matches r)"
  have om: "om_ok (o_heap (e_store e))" using st by (rule store_ok_om)
  have h: "om_ok ?h" using om by (auto simp: registered_def om_ok_set split: option.splits)
  have hv: "i \<in> set ?ex \<Longrightarrow> om_find ?h i = om_find (o_heap (e_store e)) i" for i
    using ex(2) om by (auto simp: registered_def om_find_set split: option.splits)
  have e1: "o_heap (e_store ?e1) = ?h \<and> e_orders ?e1 = e_orders e \<union> set_option (t_order r) \<and> e_markets ?e1 = e_markets e
      \<and> o_next (e_store ?e1) = o_next (e_store e) \<and> accounts_ok ?e1 \<and> (\<forall>i. om_find (e_accounts ?e1) i = None \<longleftrightarrow> om_find (e_accounts e) i = None)
      \<and> (\<forall>c. wd (wallet_money c ?e1) = wd (wallet_money c e))"
  proof (cases "t_order r")
    case None
    then show ?thesis using acc by (simp add: register_order_def registered_def)
  next
    case (Some i)
    let ?e = "(at_heap (\<lambda>h. case om_find h i of
                None \<Rightarrow> h
              | Some ord \<Rightarrow> om_set i (set_data acid (t_recv_cur r) (t_paid_cur r) (t_order_rate r) (t_weak_cur r) (t_strong_cur r) ord) h) e)
              \<lparr>e_orders := insert i (e_orders e)\<rparr>"
    have a: "accounts_ok ?e" using acc(1) by simp
    obtain ac where ac: "om_find (e_accounts ?e) acid = Some ac" using acc(2) by auto
    have "om_ok (a_wallets ac)" using acc(1) ac by (auto simp: accounts_ok_def)
    then have "payment ?e (\<lambda>_. 0) (at_account acid (track_order i) ?e)"
      by (intro payment_account [OF a ac]) (simp_all add: untrack_money)
    note P = payment_parts [OF this]
    show ?thesis
      unfolding register_order_def Some option.case P
      by (simp add: P registered_def Some)
  qed
  obtain e2 where e2: "process_items acid (m_items (t_matches r)) ?e1 = Some e2" and go: "refund_expired ?ex e2 = Some e'"
    using p by (auto simp: process_result_def bind_eq_Some_conv)
  have pay: "payment ?e1 (payout (m_items (t_matches r))) e2"
    by (rule process_items_payment [OF e2]) (use e1 acc in auto)
  note P = payment_parts [OF pay]
  have "refunded ?ex lay_cur e2 e'"
    by (rule refund_expired_effect [OF go]) (use P e1 h ex hv in auto)
  moreover have "expired_value (o_heap (e_store e2)) ?ex = expired_value (o_heap (e_store e)) ?ex"
    using hv e1 by (intro arg_cong [where f = sum_list] map_cong) (auto simp: value_at_def P)
  ultimately show ?thesis
    using e1 payout_fair [OF f] by (auto simp: refunded_def P coins_def)
qed

text \<open>An order that is not refused: the rate is on the ruler and something can be queued.\<close>

definition accepted :: "nat \<Rightarrow> int \<Rightarrow> int \<Rightarrow> int \<Rightarrow> efp \<Rightarrow> efp \<Rightarrow> bool \<Rightarrow> bool \<Rightarrow> exchange \<Rightarrow> bool" where
  "accepted acid wc sc cid limit amount buy low e \<longleftrightarrow>
     (case (find_market wc sc e, om_find (e_accounts e) acid) of
        (Some m, Some a) \<Rightarrow>
          (cid = mk_weak_cur m \<or> cid = mk_strong_cur m)
          \<and> (case om_find (a_wallets a) (if buy then other_cur m cid else cid) of
               None \<Rightarrow> True
             | Some w \<Rightarrow> (case market_trade w cid limit amount buy low m (e_store e) of None \<Rightarrow> False | Some (r, _) \<Rightarrow> \<not> t_error r))
      | _ \<Rightarrow> False)"

text \<open>The wallet after a trade, the market and the store, before the result is processed.\<close>

lemma traded_account:
  fixes e :: exchange
  defines "e1 \<equiv> \<lambda>acid charge w' ms st. at_account acid (\<lambda>a. a\<lparr>a_wallets := om_set charge w' (a_wallets a)\<rparr>) (e\<lparr>e_store := st, e_markets := ms\<rparr>)"
  assumes ok: "exchange_ok e" and a: "om_find (e_accounts e) acid = Some a" "om_find (a_wallets a) charge = Some w"
  shows "accounts_ok (e1 acid charge w' ms st)" "e_store (e1 acid charge w' ms st) = st" "e_markets (e1 acid charge w' ms st) = ms"
    "e_orders (e1 acid charge w' ms st) = e_orders e"
    "om_find (e_accounts (e1 acid charge w' ms st)) i = None \<longleftrightarrow> om_find (e_accounts e) i = None"
    "wd (wallet_money c (e1 acid charge w' ms st)) = wd (wallet_money c e) + coins charge (wd w' - wd w) c"
proof -
  have acc: "accounts_ok e" "om_ok (a_wallets a)" using ok a(1) by (auto simp: exchange_ok_def accounts_ok_def)
  have "payment (e\<lparr>e_store := st, e_markets := ms\<rparr>) (coins charge (wd w' - wd w)) (e1 acid charge w' ms st)"
    unfolding e1_def by (rule payment_account) (use acc a in \<open>auto simp: om_ok_set om_find_set a_money_def coins_def\<close>)
  note P = payment_parts [OF this]
  show "accounts_ok (e1 acid charge w' ms st)" "e_store (e1 acid charge w' ms st) = st" "e_markets (e1 acid charge w' ms st) = ms"
    "e_orders (e1 acid charge w' ms st) = e_orders e"
    "om_find (e_accounts (e1 acid charge w' ms st)) i = None \<longleftrightarrow> om_find (e_accounts e) i = None"
    "wd (wallet_money c (e1 acid charge w' ms st)) = wd (wallet_money c e) + coins charge (wd w' - wd w) c"
    by (simp_all add: P)
qed

text \<open>The orders after a trade: those of the market may have other values, and there may be a new one.\<close>

lemma registered_find:
  "om_ok h \<Longrightarrow> om_find (registered acid r h) i =
     (if t_order r = Some i
      then map_option (set_data acid (t_recv_cur r) (t_paid_cur r) (t_order_rate r) (t_weak_cur r) (t_strong_cur r)) (om_find h i)
      else om_find h i)"
  by (auto simp: registered_def om_find_set split: option.splits)

lemma traded_orders:
  assumes l: "trade_leg wk limit m st w r m' st' w'" and m: "market_ok (o_heap st) m" and st: "store_ok st"
  shows "i \<in> set (m_expired (t_matches r)) \<Longrightarrow> i \<in> m_ids m \<and> t_order r \<noteq> Some i"
    and "i \<in> set (m_expired (t_matches r)) \<Longrightarrow> om_find (o_heap st') i = Some ord \<Longrightarrow> o_paid_cur ord = own_cur (\<not> wk) m"
    and "t_order r = Some i \<Longrightarrow> \<exists>ord. om_find (registered acid r (o_heap st')) i = Some ord \<and> o_account ord = acid"
    and "om_find (o_heap st) i = Some ord \<Longrightarrow> \<exists>ord'. om_find (registered acid r (o_heap st')) i = Some ord' \<and> o_account ord' = o_account ord"
    and "om_find (o_heap st) i = Some ord \<Longrightarrow> i \<notin> m_ids m \<Longrightarrow> om_find (registered acid r (o_heap st')) i = Some ord"
    and "om_find (registered acid r (o_heap st')) i = Some ord \<Longrightarrow> o_id ord = i \<and> i < o_next st'"
proof -
  note T = l [unfolded trade_leg_def Let_def]
  let ?D = "f_ids (own_front (\<not> wk) m)"
  obtain h1 where h1: "revalued ?D (o_heap st) h1" "\<And>i. t_order r \<noteq> Some i \<Longrightarrow> om_find (o_heap st') i = om_find h1 i"
      "\<And>i. t_order r = Some i \<Longrightarrow> om_find (o_heap st') i \<noteq> None"
    using T by blast
  have om: "om_ok (o_heap st')" and st': "store_ok st'" using T store_ok_om by blast+
  note R = registered_find [OF om, of acid r]
  have new: "t_order r = Some i \<Longrightarrow> om_find (o_heap st) i = None" for i
    using T store_ok_fresh [OF st] by (metis option.inject option.distinct(1))
  have D: "?D \<subseteq> m_ids m" using m_ids_front [of m wk] by blast
  have exD: "set (m_expired (t_matches r)) \<subseteq> ?D" using T by blast
  have ex: "i \<in> ?D \<and> t_order r \<noteq> Some i" if "i \<in> set (m_expired (t_matches r))" for i
    using subsetD [OF exD that] front_ids_found [OF m, of i "\<not> wk"] new [of i] by auto
  show "i \<in> m_ids m \<and> t_order r \<noteq> Some i" if "i \<in> set (m_expired (t_matches r))" using ex [OF that] D by blast
  show "o_paid_cur ord = own_cur (\<not> wk) m" if "i \<in> set (m_expired (t_matches r))" "om_find (o_heap st') i = Some ord"
  proof -
    have "\<exists>rt. placed (o_heap st) (mk_weak_cur m) (mk_strong_cur m) (own_cur (\<not> wk) m) rt i"
      using front_ids_placed ex [OF that(1)] m by (metis market_ok_def)
    then have "\<exists>rt. placed h1 (mk_weak_cur m) (mk_strong_cur m) (own_cur (\<not> wk) m) rt i" using revalued_placed [OF h1(1)] by blast
    then show ?thesis using that(2) h1(2) ex [OF that(1)] by (auto simp: placed_def)
  qed
  show "\<exists>ord. om_find (registered acid r (o_heap st')) i = Some ord \<and> o_account ord = acid" if "t_order r = Some i"
    using h1(3) [OF that] that by (auto simp: R set_data_def)
  have old: "rel_option (\<lambda>x y. \<exists>v. y = x\<lparr>o_value := v\<rparr>) (om_find (o_heap st) i) (om_find h1 i)" using h1(1) by (simp add: revalued_def)
  show "\<exists>ord'. om_find (registered acid r (o_heap st')) i = Some ord' \<and> o_account ord' = o_account ord" if "om_find (o_heap st) i = Some ord"
    using old that new [of i] h1(2) [of i] by (auto simp: R option_rel_Some1)
  show "om_find (registered acid r (o_heap st')) i = Some ord" if "om_find (o_heap st) i = Some ord" "i \<notin> m_ids m"
    using that new [of i] h1(1) h1(2) [of i] D by (auto simp: R revalued_def)
  show "o_id ord = i \<and> i < o_next st'" if "om_find (registered acid r (o_heap st')) i = Some ord"
    using that st' by (auto simp: R store_ok_def heap_ok_def set_data_def split: if_splits)
qed

text \<open>The exchange after the result is processed: \<open>m'\<close> and \<open>st'\<close> are the market and the orders after the trade.\<close>

definition settled ::
  "nat \<Rightarrow> bool \<Rightarrow> int \<times> int \<Rightarrow> market \<Rightarrow> efp \<Rightarrow> trade_result \<Rightarrow> market \<Rightarrow> order_store \<Rightarrow> efp \<Rightarrow> exchange \<Rightarrow> exchange \<Rightarrow> bool" where
  "settled acid wk k m w r m' st' w' e e' \<longleftrightarrow>
     accounts_ok e' \<and> (\<forall>i. om_find (e_accounts e') i = None \<longleftrightarrow> om_find (e_accounts e) i = None)
     \<and> e_markets e' = om_set k m' (e_markets e) \<and> e_orders e' = (e_orders e \<union> set_option (t_order r)) - set (m_expired (t_matches r))
     \<and> o_next (e_store e') = o_next st' \<and> om_ok (o_heap (e_store e'))
     \<and> (\<forall>i. om_find (o_heap (e_store e')) i =
          (if i \<in> set (m_expired (t_matches r)) then None else om_find (registered acid r (o_heap st')) i))
     \<and> (\<forall>c. wd (wallet_money c e') = wd (wallet_money c e) + coins (own_cur wk m) (wd w' - wd w + paid_sum (m_items (t_matches r))) c
          + coins (own_cur (\<not> wk) m) (got_sum (m_items (t_matches r)) + expired_value (o_heap st') (m_expired (t_matches r))) c)"

lemma settled_trade:
  assumes ok: "exchange_ok e" and m: "om_find (e_markets e) k = Some m"
    and a: "om_find (e_accounts e) acid = Some a" "om_find (a_wallets a) (own_cur wk m) = Some w"
    and tl: "trade_leg wk limit m (e_store e) w r m' st' w'"
    and pr: "process_result acid r (at_account acid (\<lambda>a. a\<lparr>a_wallets := om_set (own_cur wk m) w' (a_wallets a)\<rparr>)
        (e\<lparr>e_store := st', e_markets := om_set k m' (e_markets e)\<rparr>)) = Some e'" (is "process_result acid r ?e1 = _")
  shows "settled acid wk k m w r m' st' w' e e'"
proof -
  note E1 = traded_account [OF ok a, where w' = w' and ms = "om_set k m' (e_markets e)" and st = st']
  have st: "store_ok (e_store e)" using ok by (simp add: exchange_ok_def)
  have fr: "\<forall>i \<in> set (m_items (t_matches r)). fair (own_cur wk m) (own_cur (\<not> wk) m) i" and dx: "distinct (m_expired (t_matches r))"
    and st': "store_ok st'"
    using tl unfolding trade_leg_def Let_def by blast+
  show ?thesis
    using process_result_effect [OF pr E1(1) _ _ fr dx, unfolded E1(2-6)] a st' traded_orders(1,2) [OF tl exchange_okD(2) [OF ok m] st]
    by (auto simp: settled_def coins_def)
qed

lemma settled_money:
  assumes ok: "exchange_ok e" and m: "om_find (e_markets e) k = Some m"
    and tl: "trade_leg wk limit m (e_store e) w r m' st' w'" and s: "settled acid wk k m w r m' st' w' e e'"
  shows "total_money cur e' = total_money cur e"
proof (rule total_money_step [OF _ m])
  note T = tl [unfolded trade_leg_def Let_def]
  let ?its = "m_items (t_matches r)" and ?ex = "m_expired (t_matches r)"
  show "om_ok (e_markets e)" using ok by (simp add: exchange_ok_def)
  show "e_markets e' = om_set k m' (e_markets e)" using s by (simp add: settled_def)
  have m': "market_ok (registered acid r (o_heap st')) m'" "mk_weak_cur m' = mk_weak_cur m" "mk_strong_cur m' = mk_strong_cur m"
    using T by blast+
  have "wd (front_money (own_front wk m)) = wd w' - wd w + wd (front_money (own_front wk m')) + paid_sum ?its"
    "wd (front_money (own_front (\<not> wk) m)) = wd (front_money (own_front (\<not> wk) m')) + got_sum ?its + expired_value (o_heap st') ?ex"
    using T by (simp_all add: algebra_simps)
  then show "wd (wallet_money cur e') + wd (market_money cur m') = wd (wallet_money cur e) + wd (market_money cur m)"
    using s unfolding market_money_fronts [OF m'(1), of cur wk] market_money_fronts [OF exchange_okD(2) [OF ok m], of cur wk]
      own_cur_eq [OF m'(2,3)]
    by (simp add: settled_def coins_def algebra_simps)
qed

lemma settled_ok:
  assumes ok: "exchange_ok e" and m: "om_find (e_markets e) k = Some m" and a: "om_find (e_accounts e) acid \<noteq> None"
    and tl: "trade_leg wk limit m (e_store e) w r m' st' w'" and s: "settled acid wk k m w r m' st' w' e e'"
  shows "exchange_ok e'"
proof -
  note T = tl [unfolded trade_leg_def Let_def] and M = exchange_okD [OF ok m]
  have st: "store_ok (e_store e)" using ok by (simp add: exchange_ok_def)
  note O = traded_orders [OF tl M(2) st]
  have m': "market_ok (registered acid r (o_heap st')) m'" "mk_weak_cur m' = mk_weak_cur m" "mk_strong_cur m' = mk_strong_cur m"
      "set (m_expired (t_matches r)) \<inter> m_ids m' = {}" "m_ids m' \<subseteq> m_ids m \<union> set_option (t_order r)"
    using T by blast+
  have acc: "accounts_ok e'" and R: "e_markets e' = om_set k m' (e_markets e)" "om_ok (o_heap (e_store e'))"
    "e_orders e' = (e_orders e \<union> set_option (t_order r)) - set (m_expired (t_matches r))" "o_next (e_store e') = o_next st'"
    "\<And>i. om_find (o_heap (e_store e')) i =
      (if i \<in> set (m_expired (t_matches r)) then None else om_find (registered acid r (o_heap st')) i)"
    using s by (simp_all add: settled_def)
  show ?thesis
  proof (rule exchange_ok_step [OF ok m acc _ R(1) m'(2,3)])
    show "market_ok (o_heap (e_store e')) m'" by (rule market_ok_heap [OF m'(1)]) (use m'(4) in \<open>auto simp: R(5)\<close>)
    show "m_ids m' \<subseteq> e_orders e'" using m'(4,5) M(3) by (auto simp: R(3))
    show "store_ok (e_store e')" using R(2) O(6) by (auto simp: store_ok_def heap_ok_def R(4,5))
    fix i
    show "om_find (e_accounts e) i \<noteq> None \<Longrightarrow> om_find (e_accounts e') i \<noteq> None" using s by (simp add: settled_def)
    show "i \<in> e_orders e' \<and> om_find (o_heap (e_store e')) i = om_find (o_heap (e_store e)) i" if i: "i \<in> e_orders e" "i \<notin> m_ids m"
    proof -
      obtain ord where "om_find (o_heap (e_store e)) i = Some ord" using ok i(1) by (auto simp: exchange_ok_def)
      then show ?thesis using i O(1) [of i] O(5) [of i ord] by (auto simp: R(3,5))
    qed
    show "\<exists>ord. om_find (o_heap (e_store e')) i = Some ord \<and> om_find (e_accounts e) (o_account ord) \<noteq> None" if i: "i \<in> e_orders e'"
    proof (cases "t_order r = Some i")
      case True
      then obtain ord where "om_find (registered acid r (o_heap st')) i = Some ord" "o_account ord = acid" using O(3) [where acid = acid] by blast
      then show ?thesis using i a by (simp add: R(3,5))
    next
      case False
      then obtain ord where "om_find (o_heap (e_store e)) i = Some ord" "om_find (e_accounts e) (o_account ord) \<noteq> None"
        using ok i by (auto simp: exchange_ok_def R(3))
      then show ?thesis using O(4) [of i ord] i by (fastforce simp: R(3,5))
    qed
  qed
qed

lemma sell_effect:
  assumes ok: "exchange_ok e" and acc: "accepted acid wc sc cid limit amount buy low e"
    and s: "sell acid wc sc cid limit amount buy low e = Some e'"
  shows "exchange_ok e' \<and> (\<forall>cur. total_money cur e' = total_money cur e)"
proof -
  obtain m a where m: "find_market wc sc e = Some m" and a: "om_find (e_accounts e) acid = Some a"
    and cid: "cid = mk_weak_cur m \<or> cid = mk_strong_cur m"
    using acc by (auto simp: accepted_def split: option.splits)
  define charge wk where "charge = (if buy then other_cur m cid else cid)" and "wk = (if cid = mk_strong_cur m then buy else \<not> buy)"
  have fm: "om_find (e_markets e) (market_key wc sc) = Some m" using m by (simp add: find_market_def)
  note M = exchange_okD(2) [OF ok fm]
  have charge: "charge = own_cur wk m"
    using cid M by (auto simp: charge_def wk_def other_cur_def own_cur_def market_ok_def)
  show ?thesis
  proof (cases "om_find (a_wallets a) charge")
    case None
    then have "e' = e" using s m a by (simp add: sell_def charge_def [symmetric])
    then show ?thesis using ok by simp
  next
    case w: (Some w)
    obtain r w' m' st' where t: "market_trade w cid limit amount buy low m (e_store e) = Some (r, w', m', st')" and ne: "\<not> t_error r"
      using acc m a w by (auto simp: accepted_def charge_def split: option.splits)
    have tl: "trade_leg wk limit m (e_store e) w r m' st' w'"
      by (rule trade_on_effect [OF _ ne M]) (use t ok in \<open>simp_all add: market_trade_on wk_def exchange_ok_def\<close>)
    have "settled acid wk (market_key wc sc) m w r m' st' w' e e'"
      by (rule settled_trade [OF ok fm a _ tl])
        (use s m a w t ne charge in \<open>simp_all add: sell_def charge_def [symmetric] set_market_def\<close>)
    then show ?thesis using settled_money [OF ok fm tl] settled_ok [OF ok fm _ tl] a by blast
  qed
qed

end
