(* ===== verification/Exchange_Rates.thy ===== *)
theory Exchange_Rates
  imports Exchange_Market
begin

text \<open>
  The rates of a market: the ruler's loop ends, its rates are the multiples of the increment between its ends, and any
  rate is snapped to one of them.
\<close>

lemma rates_from_eq:
  assumes "0 < inc"
  shows "rates_from mx inc r ans = Some (ans @ map (\<lambda>k. r + int k * inc) [0..<nat ((mx - r) div inc + 1)])"
proof (induction "nat (mx - r + 1)" arbitrary: r ans rule: less_induct)
  case less
  show ?case
  proof (cases "r \<le> mx")
    case False
    then have "(mx - r) div inc < 0" using assms by (simp add: pos_imp_zdiv_neg_iff)
    then show ?thesis using False by (simp add: rates_from.simps [of mx inc r])
  next
    case True
    have d: "(mx - r) div inc = (mx - (r + inc)) div inc + 1"
      using div_add_self2 [of inc "mx - (r + inc)"] assms by simp
    have p: "0 \<le> (mx - r) div inc" using True assms by (simp add: pos_imp_zdiv_nonneg_iff)
    have "rates_from mx inc r ans = rates_from mx inc (r + inc) (ans @ [r])" using True by (simp add: rates_from.simps [of mx inc r])
    also have "\<dots> = Some ((ans @ [r]) @ map (\<lambda>k. r + inc + int k * inc) [0..<nat ((mx - (r + inc)) div inc + 1)])"
      using True assms by (intro less) simp
    finally have go: "rates_from mx inc r ans = Some ((ans @ [r]) @ map (\<lambda>k. r + inc + int k * inc) [0..<nat ((mx - (r + inc)) div inc + 1)])" .
    have "nat ((mx - r) div inc + 1) = Suc (nat ((mx - (r + inc)) div inc + 1))" using d p by linarith
    then have "map (\<lambda>k. r + int k * inc) [0..<nat ((mx - r) div inc + 1)]
        = r # map (\<lambda>k. r + inc + int k * inc) [0..<nat ((mx - (r + inc)) div inc + 1)]"
      by (simp add: upt_conv_Cons map_Suc_upt [symmetric] algebra_simps del: upt_Suc)
    then show ?thesis by (simp add: go)
  qed
qed

lemma rates_from_set:
  assumes "0 < inc"
  shows "set (map (\<lambda>k. r + int k * inc) [0..<nat ((mx - r) div inc + 1)]) = {v. r \<le> v \<and> v \<le> mx \<and> inc dvd v - r}"
proof -
  have "(\<exists>k. v = r + int k * inc \<and> k < nat ((mx - r) div inc + 1)) \<longleftrightarrow> r \<le> v \<and> v \<le> mx \<and> inc dvd v - r" for v
  proof
    assume "\<exists>k. v = r + int k * inc \<and> k < nat ((mx - r) div inc + 1)"
    then obtain k where k: "v = r + int k * inc" "k < nat ((mx - r) div inc + 1)" by blast
    then have k2: "int k \<le> (mx - r) div inc" by linarith
    have "int k * inc \<le> (mx - r) div inc * inc" using k2 assms by (simp add: mult_right_mono)
    also have "\<dots> \<le> mx - r" using div_mult_mod_eq [of "mx - r" inc] pos_mod_sign [OF assms, of "mx - r"] by linarith
    finally show "r \<le> v \<and> v \<le> mx \<and> inc dvd v - r" using k(1) assms by simp
  next
    assume v: "r \<le> v \<and> v \<le> mx \<and> inc dvd v - r"
    then obtain k where k: "v - r = inc * k" by blast
    have "0 \<le> k" using v k assms by (metis diff_ge_0_iff_ge zero_le_mult_iff not_le)
    moreover have "k \<le> (mx - r) div inc"
      using v k assms by (metis diff_right_mono nonzero_mult_div_cancel_left zdiv_mono1 less_imp_neq)
    ultimately show "\<exists>k. v = r + int k * inc \<and> k < nat ((mx - r) div inc + 1)"
      using k by (intro exI [of _ "nat k"]) (simp add: algebra_simps)
  qed
  moreover have "v \<in> set (map (\<lambda>k. r + int k * inc) [0..<n]) \<longleftrightarrow> (\<exists>k. v = r + int k * inc \<and> k < n)" for v n by auto
  ultimately show ?thesis by blast
qed

lemma c_rem_dvd: "0 < b \<Longrightarrow> b dvd a - c_rem a b"
proof -
  assume "0 < b"
  then have "a - c_rem a b = sgn a * (\<bar>a\<bar> - \<bar>a\<bar> mod b)" by (simp add: c_rem_def right_diff_distrib sgn_mult_abs)
  then show ?thesis by (simp add: minus_mod_eq_mult_div)
qed

lemma generate_rates_eq:
  assumes "0 < r_increment d"
  shows "generate_rates d = Some (map (\<lambda>k. r_min d + int k * r_increment d) [0..<nat ((r_max d - r_min d) div r_increment d + 1)])"
  by (simp add: generate_rates_def rates_from_eq [OF assms])

lemma ruler_update_ends:
  assumes "0 < inc"
  shows "inc dvd r_min (ruler_update mn mx inc)" "inc dvd r_max (ruler_update mn mx inc)" "inc \<le> r_min (ruler_update mn mx inc)"
    "r_min (ruler_update mn mx inc) \<le> r_max (ruler_update mn mx inc)" "r_increment (ruler_update mn mx inc) = inc"
  using c_rem_dvd [OF assms, of mn] c_rem_dvd [OF assms, of mx] by (auto simp: ruler_update_def Let_def)



end
