(* ===== verification/Exchange_Ledger.thy ===== *)
theory Exchange_Ledger
  imports Exchange_Accounting Exchange_Rates
begin

text \<open>
  Orders that are cancelled, and the requests of the users together: a ledger of what was deposited and withdrawn agrees
  with the money in the exchange.
\<close>

section \<open>Cancelling\<close>

lemma wq_cancel_cases:
  assumes "wq_cancel i q h = Some (x, q')"
  obtains "x = None" "q' = q" | "x = Some i" "i \<in> set (wq_ids q)" "wq_ids q' = remove1 i (wq_ids q)" "wq_rate q' = wq_rate q"
    "wq_invert q' = wq_invert q" "wd (wq_value q') = wd (wq_value q) - value_at h i"
  using assms by (auto simp: wq_cancel_def value_at_def split: if_splits option.splits)

lemma qs_cancel_cases:
  assumes c: "qs_cancel i q h = Some (x, q')" and d: "distinct (q_ids q)"
  obtains "x = None" "q_ids q' = q_ids q" "same_rates q q'" "qs_value q' = qs_value q"
  | "x = Some i" "i \<in> set (q_ids q)" "set (q_ids q') = set (q_ids q) - {i}" "distinct (q_ids q')" "same_rates q q'"
    "wd (qs_value q') = wd (qs_value q) - value_at h i"
proof (cases "i \<in> wq_hash_low q")
  case True
  then obtain l where l: "wq_cancel i (wq_low q) h = Some (x, l)"
    and q': "q' = q\<lparr>wq_low := l, wq_hash_low := (if x \<noteq> None then wq_hash_low q - {i} else wq_hash_low q)\<rparr>"
    using c by (auto simp: qs_cancel_def)
  from l show ?thesis
  proof (cases rule: wq_cancel_cases)
    case 1
    then show ?thesis by (intro that(1)) (simp_all add: q' q_ids_def same_rates_def qs_value_def)
  next
    case 2
    then show ?thesis using d
      by (intro that(2)) (auto simp: q' q_ids_def same_rates_def qs_value_def set_remove1_eq distinct_remove1 algebra_simps)
  qed
next
  case False
  then obtain hq where hq: "wq_cancel i (wq_high q) h = Some (x, hq)" and q': "q' = q\<lparr>wq_high := hq\<rparr>"
    using c by (auto simp: qs_cancel_def)
  from hq show ?thesis
  proof (cases rule: wq_cancel_cases)
    case 1
    then show ?thesis by (intro that(1)) (simp_all add: q' q_ids_def same_rates_def qs_value_def)
  next
    case 2
    then show ?thesis using d
      by (intro that(2)) (auto simp: q' q_ids_def same_rates_def qs_value_def set_remove1_eq distinct_remove1 algebra_simps)
  qed
qed

lemma queues_ok_sub:
  "queues_ok h wc sc cur r q \<Longrightarrow> set (q_ids q') \<subseteq> set (q_ids q) \<Longrightarrow> distinct (q_ids q') \<Longrightarrow> same_rates q q' \<Longrightarrow> queues_ok h wc sc cur r q'"
  by (auto simp: queues_ok_def same_rates_def)

lemma trim_ok: "front_ok h wc sc f \<Longrightarrow> front_ok h wc sc (trim f)"
  by (rule front_ok_mono) (simp_all add: trim_facts front_ok_def)

text \<open>An order taken out of a front.\<close>

lemma front_cancel_cases:
  assumes c: "front_cancel i f h = Some (x, f')" and ok: "front_ok h wc sc f"
  obtains "x = None" "front_ok h wc sc f'" "f_ids f' = f_ids f" "front_money f' = front_money f" "f_cur f' = f_cur f" "f_invert f' = f_invert f"
  | "x = Some i" "i \<in> f_ids f" "front_ok h wc sc f'" "f_ids f' \<subseteq> f_ids f - {i}" "wd (front_money f') = wd (front_money f) - value_at h i"
    "f_cur f' = f_cur f" "f_invert f' = f_invert f"
proof (cases "get_queue_id i f")
  case None
  then show ?thesis using c ok that(1) by (simp add: front_cancel_def)
next
  case (Some rq)
  obtain r q where rq: "rq = (r, q)" by (cases rq)
  have fr: "om_find (f_queues f) r = Some q" using Some rq by (auto simp: get_queue_id_def split: option.splits)
  have om: "om_ok (f_queues f)" using ok by (simp add: front_ok_def)
  have q: "queues_ok h wc sc (f_cur f) r q" "wq_invert (wq_high q) = f_invert f" using front_okD [OF ok om_find_in [OF fr]] .
  have d: "distinct (q_ids q)" using q by (simp add: queues_ok_def)
  obtain y q' where y: "qs_cancel i q h = Some (y, q')"
    using c Some rq by (auto simp: front_cancel_def split: option.splits)
  let ?f = "f\<lparr>f_queues := om_set r q' (f_queues f)\<rparr>"
  have okf: "front_ok h wc sc ?f" if "set (q_ids q') \<subseteq> set (q_ids q)" "distinct (q_ids q')" "same_rates q q'"
    using front_ok_set [OF ok queues_ok_sub [OF q(1) that]] that(3) q(2) by (simp add: same_rates_def)
  from y d show ?thesis
  proof (cases rule: qs_cancel_cases)
    case 1
    have "f' = ?f" "x = None" using c Some rq y 1 by (auto simp: front_cancel_def)
    moreover have "j \<in> f_ids ?f \<longleftrightarrow> j \<in> f_ids f" for j
      using 1(2) fr unfolding f_ids_set [OF om] f_ids_mem [OF om] by (metis option.inject)
    then have "f_ids ?f = f_ids f" by blast
    ultimately show ?thesis using 1 d fr by (intro that(1)) (simp_all add: okf front_money_set om)
  next
    case 2
    have f': "f' = trim (?f\<lparr>f_by_order := om_erase i (f_by_order f)\<rparr>)" and x: "x = Some i"
      using c Some rq y 2 by (auto simp: front_cancel_def)
    have ok1: "front_ok h wc sc (?f\<lparr>f_by_order := om_erase i (f_by_order f)\<rparr>)" using 2 by (simp only: front_parts) (simp add: okf)
    have i: "i \<in> f_ids f" using fr 2(2) by (auto simp: f_ids_mem [OF om])
    have "j \<noteq> i \<and> j \<in> f_ids f" if j: "j \<in> f_ids ?f" for j
    proof -
      consider "j \<in> set (q_ids q')" | r2 q2 where "r2 \<noteq> r" "om_find (f_queues f) r2 = Some q2" "j \<in> set (q_ids q2)"
        using j unfolding f_ids_set [OF om] by blast
      then show ?thesis
      proof cases
        case 1
        then show ?thesis using 2(3) fr by (auto simp: f_ids_mem [OF om])
      next
        case 2
        then show ?thesis
          using front_ok_unique(1) [OF ok om_find_in [OF fr] om_find_in [OF 2(2)] \<open>i \<in> set (q_ids q)\<close>] by (auto simp: f_ids_mem [OF om])
      qed
    qed
    moreover have "f_ids f' \<subseteq> f_ids ?f" unfolding f' f_ids_def using trim_facts(6) by fastforce
    ultimately have ids: "f_ids f' \<subseteq> f_ids f - {i}" by blast
    show ?thesis
    proof (rule that(2) [OF x i _ ids])
      show "front_ok h wc sc f'" unfolding f' by (rule trim_ok [OF ok1])
      show "wd (front_money f') = wd (front_money f) - value_at h i"
        using 2(6) fr unfolding f' trim_facts front_parts by (simp add: front_money_set om)
    qed (simp_all add: f' trim_facts)
  qed
qed

lemma market_ok_set_front:
  assumes "market_ok h m" "front_ok h (mk_weak_cur m) (mk_strong_cur m) f" "f_cur f = own_cur wk m" "f_invert f = (\<not> wk)"
  shows "market_ok h (set_front wk f m)"
  using assms by (cases wk) (auto simp: market_ok_def all_bool_eq)

lemma market_money_set_front:
  assumes "market_ok h m" "market_ok h (set_front wk f m)"
  shows "wd (market_money c (set_front wk f m)) + coins (own_cur wk m) (wd (front_money (own_front wk m))) c
    = wd (market_money c m) + coins (own_cur wk m) (wd (front_money f)) c"
  unfolding market_money_fronts [OF assms(1), of c wk] market_money_fronts [OF assms(2), of c wk] by (simp add: algebra_simps)

lemma market_cancel_cases:
  assumes c: "market_cancel i m h = Some (x, m')" and ok: "market_ok h m"
  obtains "x = None" "market_ok h m'" "m_ids m' = m_ids m" "\<And>c. wd (market_money c m') = wd (market_money c m)"
    "mk_weak_cur m' = mk_weak_cur m" "mk_strong_cur m' = mk_strong_cur m"
  | ord where "x = Some i" "om_find h i = Some ord" "i \<in> m_ids m" "market_ok h m'" "m_ids m' \<subseteq> m_ids m - {i}"
    "\<And>c. wd (market_money c m') = wd (market_money c m) - coins (o_paid_cur ord) (wd (o_value ord)) c"
    "mk_weak_cur m' = mk_weak_cur m" "mk_strong_cur m' = mk_strong_cur m"
proof -
  define wk where "wk = has_order i (mk_weak m)"
  obtain f where f: "front_cancel i (own_front wk m) h = Some (x, f)" and m': "m' = set_front wk f m"
    using c by (auto simp: market_cancel_def wk_def Let_def)
  have fo: "front_ok h (mk_weak_cur m) (mk_strong_cur m) (own_front wk m)" and fc: "f_cur (own_front wk m) = own_cur wk m" "f_invert (own_front wk m) = (\<not> wk)"
    using ok by (simp_all add: market_ok_def)
  have ids: "m_ids m' = f_ids f \<union> f_ids (own_front (\<not> wk) m)" "m_ids m = f_ids (own_front wk m) \<union> f_ids (own_front (\<not> wk) m)"
    using m_ids_front [of m' wk] m_ids_front [of m wk] by (simp_all add: m')
  from f fo show thesis
  proof (cases rule: front_cancel_cases)
    case 1
    have ok': "market_ok h m'" unfolding m' by (rule market_ok_set_front [OF ok]) (use 1 fc in simp_all)
    show thesis
      by (rule that(1)) (use 1 ok' ids market_money_set_front [OF ok ok' [unfolded m']] in \<open>simp_all add: m' [symmetric]\<close>, simp_all add: m')
  next
    case 2
    have ok': "market_ok h m'" unfolding m' by (rule market_ok_set_front [OF ok]) (use 2 fc in simp_all)
    obtain ord where ord: "om_find h i = Some ord" "o_paid_cur ord = own_cur wk m"
      using front_ids_placed [OF fo 2(2)] fc by (auto simp: placed_def)
    have v: "value_at h i = wd (o_value ord)" by (simp add: value_at_def ord)
    have mon: "wd (market_money c m') = wd (market_money c m) - coins (o_paid_cur ord) (wd (o_value ord)) c" for c
      using market_money_set_front [OF ok ok' [unfolded m'], of c] 2(5) unfolding m' [symmetric] v ord(2)
      by (simp add: coins_def algebra_simps split: if_splits)
    have "i \<notin> f_ids (own_front (\<not> wk) m)" using own_fronts_disjoint [OF ok, of wk] 2(2) by blast
    then have "m_ids m' \<subseteq> m_ids m - {i}" "i \<in> m_ids m" using 2(2,4) ids by blast+
    then show thesis by (intro that(2) [OF 2(1) ord(1) _ ok' _ mon]) (simp_all add: m')
  qed
qed

lemma cancel_in_effect:
  assumes ok: "exchange_ok e" and a: "om_find (e_accounts e) acid \<noteq> None" and c: "cancel_in acid i e = Some (b, e')"
  shows "exchange_ok e' \<and> (\<forall>cur. total_money cur e' = total_money cur e)
    \<and> (\<forall>j. om_find (e_accounts e') j = None \<longleftrightarrow> om_find (e_accounts e) j = None)"
proof -
  obtain ord m where ord: "om_find (o_heap (e_store e)) i = Some ord" and fm: "find_market (o_weak_cur ord) (o_strong_cur ord) e = Some m"
    using c by (auto simp: cancel_in_def split: option.splits)
  define k where "k = market_key (o_weak_cur ord) (o_strong_cur ord)"
  have m: "om_find (e_markets e) k = Some m" using fm by (simp add: find_market_def k_def)
  note M = exchange_okD [OF ok m]
  have st: "store_ok (e_store e)" and om: "om_ok (e_markets e)" and acc: "accounts_ok e" using ok by (simp_all add: exchange_ok_def)
  obtain x m' where mc: "market_cancel i m (o_heap (e_store e)) = Some (x, m')"
    using c ord fm by (auto simp: cancel_in_def split: option.splits)
  have old: "\<exists>ord. om_find (o_heap (e_store e)) j = Some ord \<and> om_find (e_accounts e) (o_account ord) \<noteq> None" if "j \<in> e_orders e" for j
    using ok that by (auto simp: exchange_ok_def)
  from mc M(2) show ?thesis
  proof (cases rule: market_cancel_cases)
    case 1
    have e': "e' = e\<lparr>e_markets := om_set k m' (e_markets e)\<rparr>" using c ord fm mc 1 by (simp add: cancel_in_def set_market_def k_def)
    have "total_money cur e' = total_money cur e" for cur
      by (rule total_money_step [OF om m, where m' = m']) (simp_all add: e' 1)
    moreover have "exchange_ok e'"
      by (rule exchange_ok_step [OF ok m, where m' = m']) (use 1 M acc st old in \<open>simp_all add: e'\<close>)
    ultimately show ?thesis by (simp add: e')
  next
    case (2 ord2)
    then have o2: "ord2 = ord" using ord by simp
    let ?e0 = "e\<lparr>e_markets := om_set k m' (e_markets e)\<rparr>"
    let ?p = "at_account acid (account_deposit (o_paid_cur ord) (o_value ord) \<circ> untrack_order i) ?e0"
    have e': "e' = at_heap (om_erase i) (?p\<lparr>e_orders := e_orders e - {i}\<rparr>)"
      using c ord fm mc 2 by (simp add: cancel_in_def set_market_def k_def)
    have pay: "payment ?e0 (coins (o_paid_cur ord) (wd (o_value ord))) ?p"
      by (rule payment_refund(2)) (use acc a in simp_all)
    note P = payment_parts [OF pay]
    have h: "om_find (o_heap (e_store e')) j = (if j = i then None else om_find (o_heap (e_store e)) j)" for j
      by (simp add: e' P om_find_erase)
    have "total_money cur e' = total_money cur e" for cur
      by (rule total_money_step [OF om m, where m' = m']) (simp_all add: e' P 2 o2)
    moreover have "exchange_ok e'"
    proof (rule exchange_ok_step [OF ok m, where m' = m'])
      show "market_ok (o_heap (e_store e')) m'" by (rule market_ok_heap [OF 2(4)]) (use 2(5) in \<open>auto simp: h\<close>)
      show "store_ok (e_store e')" using st by (auto simp: store_ok_def heap_ok_def e' P om_find_erase om_ok_erase)
      show "m_ids m' \<subseteq> e_orders e'" using 2(5) M(3) by (auto simp: e')
      fix j
      show "j \<in> e_orders e' \<and> om_find (o_heap (e_store e')) j = om_find (o_heap (e_store e)) j" if "j \<in> e_orders e" "j \<notin> m_ids m"
        unfolding h using that 2(3) by (auto simp: e')
      show "\<exists>ord. om_find (o_heap (e_store e')) j = Some ord \<and> om_find (e_accounts e) (o_account ord) \<noteq> None" if "j \<in> e_orders e'"
        unfolding h using old [of j] that by (auto simp: e')
    qed (use 2 P in \<open>simp_all add: e'\<close>)
    ultimately show ?thesis by (simp add: e' P)
  qed
qed

section \<open>The other requests\<close>

text \<open>What leaves the tables of orders and markets alone.\<close>

lemma payment_exchange:
  assumes ok: "exchange_ok e" and p: "payment e d e'"
  shows "exchange_ok e'" "wd (total_money cur e') = wd (total_money cur e) + d cur"
proof -
  note P = payment_parts [OF p]
  show "exchange_ok e'" using ok unfolding exchange_ok_def P by (simp add: P)
  show "wd (total_money cur e') = wd (total_money cur e) + d cur" by (simp add: total_money_word P)
qed

definition granted :: "(string \<Rightarrow> nat) \<Rightarrow> nat \<Rightarrow> string \<Rightarrow> int \<Rightarrow> string \<Rightarrow> exchange \<Rightarrow> bool" where
  "granted hash acid pwd cid amount e \<longleftrightarrow> auth hash acid pwd e \<and> is_valid_cur cid \<and> \<not> negative_text amount \<and> efp_encode amount \<noteq> 0"

lemma auth_account: "auth hash acid pwd e \<Longrightarrow> \<exists>a. om_find (e_accounts e) acid = Some a"
  by (auto simp: auth_def split: option.splits)

lemma request_deposit_payment:
  assumes "exchange_ok e"
  shows "payment e (if granted hash acid pwd cid amount e then coins cid (wd (efp_encode amount)) else (\<lambda>_. 0))
    (request_deposit hash acid pwd cid amount e)"
proof (cases "granted hash acid pwd cid amount e")
  case True
  then show ?thesis
    using assms auth_account [of hash acid pwd e] payment_deposit [of e acid cid "efp_encode amount"]
    by (auto simp: granted_def request_deposit_def exchange_ok_def)
next
  case False
  then have "request_deposit hash acid pwd cid amount e = e" by (auto simp: granted_def request_deposit_def)
  then show ?thesis using assms False by (simp add: payment_refl exchange_ok_def)
qed

text \<open>What a withdrawal takes: at most what there is.\<close>

definition taken :: "(string \<Rightarrow> nat) \<Rightarrow> nat \<Rightarrow> string \<Rightarrow> int \<Rightarrow> string \<Rightarrow> exchange \<Rightarrow> efp" where
  "taken hash acid pwd cid amount e =
     (if \<not> granted hash acid pwd cid amount e then 0
      else case om_find (e_accounts e) acid of
             None \<Rightarrow> 0
           | Some a \<Rightarrow> (case om_find (a_wallets a) cid of None \<Rightarrow> 0 | Some w \<Rightarrow> min (efp_encode amount) w))"

lemma request_withdraw_payment:
  assumes "exchange_ok e"
  shows "payment e (coins cid (- wd (taken hash acid pwd cid amount e))) (request_withdraw hash acid pwd cid amount e)"
proof (cases "granted hash acid pwd cid amount e")
  case True
  let ?am = "efp_encode amount"
  obtain a where a: "om_find (e_accounts e) acid = Some a" using True auth_account [of hash acid pwd e] by (auto simp: granted_def)
  have acc: "accounts_ok e" and w: "om_ok (a_wallets a)" using assms a by (auto simp: exchange_ok_def accounts_ok_def)
  have "payment e (coins cid (- wd (taken hash acid pwd cid amount e))) (at_account acid (\<lambda>a. snd (account_withdraw cid ?am a)) e)"
  proof (rule payment_account [OF acc a])
    show "om_ok (a_wallets (snd (account_withdraw cid ?am a)))"
      using w by (auto simp: account_withdraw_def om_ok_set split: option.splits prod.splits)
    show "wd (a_money cur (snd (account_withdraw cid ?am a))) = wd (a_money cur a) + coins cid (- wd (taken hash acid pwd cid amount e)) cur" for cur
      using w True a
      by (auto simp: account_withdraw_def taken_def a_money_def om_find_set coins_def cex_withdraw_def Let_def min_def split: option.splits)
  qed
  then show ?thesis using True by (simp add: granted_def request_withdraw_def)
next
  case False
  then have "request_withdraw hash acid pwd cid amount e = e" by (auto simp: granted_def request_withdraw_def)
  then show ?thesis using assms False by (simp add: payment_refl exchange_ok_def taken_def)
qed

lemma new_wallet_money:
  assumes "om_ok (a_wallets a)"
  shows "om_ok (a_wallets (snd (account_new_wallet cid a)))" "a_money cur (snd (account_new_wallet cid a)) = a_money cur a"
  using assms by (auto simp: account_new_wallet_def om_ok_set om_find_set a_money_def split: option.splits)

lemma new_wallet_payment:
  assumes "exchange_ok e"
  shows "payment e (\<lambda>_. 0) (new_wallet hash acid pwd cid e)"
proof (cases "auth hash acid pwd e")
  case True
  then obtain a where a: "om_find (e_accounts e) acid = Some a" using auth_account by blast
  then have acc: "accounts_ok e" and w: "om_ok (a_wallets a)" using assms by (auto simp: exchange_ok_def accounts_ok_def)
  show ?thesis
    unfolding new_wallet_def at_own_account_def using True
    by (simp, intro payment_account [OF acc a]) (simp_all add: new_wallet_money w)
next
  case False
  then show ?thesis using assms by (simp add: new_wallet_def at_own_account_def payment_refl exchange_ok_def)
qed

lemma exchange_ok_accounts:
  assumes ok: "exchange_ok e" and acc: "accounts_ok e'" "\<And>i. om_find (e_accounts e) i \<noteq> None \<Longrightarrow> om_find (e_accounts e') i \<noteq> None"
    and same: "e_markets e' = e_markets e" "e_store e' = e_store e" "e_orders e' = e_orders e"
  shows "exchange_ok e'"
  using ok acc unfolding exchange_ok_def same by (metis (no_types, lifting))

text \<open>A new account has nothing in its wallets.\<close>

lemma new_account_effect:
  assumes ok: "exchange_ok e"
  shows "exchange_ok (snd (new_account hash pwd e)) \<and> total_money cur (snd (new_account hash pwd e)) = total_money cur e"
proof (cases "length pwd < 8 \<or> om_find (e_accounts e) (e_next_account e) \<noteq> None")
  case True
  then have "e_accounts (snd (new_account hash pwd e)) = e_accounts e" "e_markets (snd (new_account hash pwd e)) = e_markets e"
    "e_store (snd (new_account hash pwd e)) = e_store e" "e_orders (snd (new_account hash pwd e)) = e_orders e"
    by (auto simp: new_account_def om_emplace_def Let_def)
  then show ?thesis using ok by (simp add: exchange_ok_def accounts_ok_def total_money_def wallet_money_def)
next
  case False
  define a where "a = snd (account_new_wallet cur_usd (snd (account_new_wallet cur_gbp (snd (account_new_wallet cur_eur (account0 (hash pwd)))))))"
  have e': "snd (new_account hash pwd e) = e\<lparr>e_accounts := om_set (e_next_account e) a (e_accounts e), e_next_account := Suc (e_next_account e)\<rparr>"
    using False by (simp add: new_account_def om_emplace_def a_def Let_def)
  have w0: "om_ok (a_wallets (account0 (hash pwd)))" "a_money cur (account0 (hash pwd)) = 0"
    by (simp_all add: account0_def om_empty_def a_money_def om_find_def)
  then have w: "om_ok (a_wallets a)" "a_money cur a = 0"
    unfolding a_def by (simp_all add: new_wallet_money)
  have om: "om_ok (e_accounts e)" using ok by (simp add: exchange_ok_def accounts_ok_def)
  have "exchange_ok (snd (new_account hash pwd e))"
    by (rule exchange_ok_accounts [OF ok])
      (use ok w False in \<open>auto simp: e' exchange_ok_def accounts_ok_def om_ok_set om_find_set\<close>)
  moreover have "total_money cur (snd (new_account hash pwd e)) = total_money cur e"
    using False w by (simp add: e' total_money_def wallet_money_sum om_sum_set om)
  ultimately show ?thesis by simp
qed

section \<open>Markets and rulers\<close>

lemma market0_facts: "wc \<noteq> sc \<Longrightarrow> market_ok h (market0 wc sc)" "m_ids (market0 wc sc) = {}" "market_money cur (market0 wc sc) = 0"
  by (auto simp: market_ok_def market0_def own_front_def own_cur_def front0_def front_ok_def om_empty_def m_ids_def f_ids_def
      market_money_def front_money_def)

lemma create_market_effect:
  assumes ok: "exchange_ok e" and ne: "wc \<noteq> sc"
  shows "exchange_ok (create_market wc sc e) \<and> total_money cur (create_market wc sc e) = total_money cur e"
proof (cases "om_find (e_markets e) (market_key wc sc)")
  case (Some m)
  then have "create_market wc sc e = e" by (simp add: create_market_def om_emplace_def)
  then show ?thesis using ok by simp
next
  case None
  then have e': "create_market wc sc e = e\<lparr>e_markets := om_set (market_key wc sc) (market0 wc sc) (e_markets e)\<rparr>"
    by (simp add: create_market_def om_emplace_def)
  have om: "om_ok (e_markets e)" using ok by (simp add: exchange_ok_def)
  have "total_money cur (create_market wc sc e) = total_money cur e"
    by (rule total_money_eq) (simp add: e' total_money_word om_sum_set om None market0_facts)
  moreover have "k = market_key (mk_weak_cur m) (mk_strong_cur m) \<and> market_ok (o_heap (e_store e)) m \<and> m_ids m \<subseteq> e_orders e"
    if "om_find (om_set (market_key wc sc) (market0 wc sc) (e_markets e)) k = Some m" for k m
  proof (cases "k = market_key wc sc")
    case True
    then have "m = market0 wc sc" using that om by (simp add: om_find_set)
    then show ?thesis using True ne market0_facts by (simp add: market0_def)
  next
    case False
    then show ?thesis using that om exchange_okD [OF ok] by (simp add: om_find_set)
  qed
  then have "exchange_ok (create_market wc sc e)"
    using ok om_ok_set [OF om] unfolding exchange_ok_def e' by simp
  ultimately show ?thesis by simp
qed

lemma set_ruler_effect:
  assumes ok: "exchange_ok e" and r: "set_ruler i j mn mx inc e = Some e'"
  shows "exchange_ok e' \<and> total_money cur e' = total_money cur e"
proof (cases "find_market i j e")
  case None
  then show ?thesis using r ok by (simp add: set_ruler_def)
next
  case (Some m)
  have om: "om_ok (e_markets e)" and m: "om_find (e_markets e) (market_key i j) = Some m"
    using ok Some by (simp_all add: exchange_ok_def find_market_def)
  obtain m' where m': "market_set_ruler mn mx inc m = Some m'" and e': "e' = e\<lparr>e_markets := om_set (market_key i j) m' (e_markets e)\<rparr>"
    using r Some by (auto simp: set_ruler_def set_market_def)
  obtain d v rs where e: "m' = m\<lparr>mk_ruler := d, mk_weak := (mk_weak m)\<lparr>f_valid := v\<rparr>, mk_strong := (mk_strong m)\<lparr>f_valid := v\<rparr>, mk_rates := rs\<rparr>"
    using m' by (auto simp: market_set_ruler_def Let_def)
  have f: "m_ids m' = m_ids m" "market_money c m' = market_money c m" "market_ok h m' = market_ok h m"
    "mk_weak_cur m' = mk_weak_cur m" "mk_strong_cur m' = mk_strong_cur m" for c h
    by (auto simp: e m_ids_def f_ids_def market_money_def front_money_def market_ok_def own_front_def own_cur_def front_ok_def)
  have "total_money cur e' = total_money cur e"
    by (rule total_money_step [OF om m, where m' = m']) (simp_all add: e' f)
  moreover have "exchange_ok e'"
  proof (rule exchange_ok_step [OF ok m, where m' = m'])
    show "\<And>j. j \<in> e_orders e' \<Longrightarrow> \<exists>ord. om_find (o_heap (e_store e')) j = Some ord \<and> om_find (e_accounts e) (o_account ord) \<noteq> None"
      using ok by (auto simp: exchange_ok_def e')
  qed (use ok exchange_okD [OF ok m] f in \<open>simp_all add: exchange_ok_def e'\<close>)
  ultimately show ?thesis by simp
qed

section \<open>The ledger\<close>

lemma cancel_order_effect:
  assumes "exchange_ok e" "cancel_order hash acid pwd i e = Some e'"
  shows "exchange_ok e' \<and> total_money cur e' = total_money cur e"
proof (cases "\<not> auth hash acid pwd e \<or> \<not> belongs acid i e")
  case True
  then show ?thesis using assms by (simp add: cancel_order_def)
next
  case False
  then obtain b where "cancel_in acid i e = Some (b, e')" using assms(2) by (auto simp: cancel_order_def)
  then show ?thesis using cancel_in_effect [OF assms(1)] auth_account [of hash acid pwd e] False by blast
qed

text \<open>A request made of steps that conserve the money conserves it.\<close>

locale conserving =
  fixes good :: "'s \<Rightarrow> bool" and money :: "int \<Rightarrow> 's \<Rightarrow> efp" and step :: "'a \<Rightarrow> 's \<Rightarrow> 's option"
  assumes conserves: "good s \<Longrightarrow> step x s = Some s' \<Longrightarrow> good s' \<and> money c s' = money c s"
begin

lemma bind_steps_None: "foldl (\<lambda>r x. Option.bind r (step x)) None xs = None"
  by (induction xs) simp_all

lemma steps_conserve: "foldl (\<lambda>r x. Option.bind r (step x)) (Some s) xs = Some s' \<Longrightarrow> good s \<Longrightarrow> good s' \<and> money c s' = money c s"
proof (induction xs arbitrary: s)
  case (Cons x xs)
  obtain s1 where "step x s = Some s1" using Cons.prems(1) bind_steps_None by (cases "step x s") auto
  then show ?case using Cons conserves [of s x s1] by simp
qed simp

end

definition cancel_step :: "nat \<Rightarrow> nat \<Rightarrow> exchange \<Rightarrow> exchange option" where
  "cancel_step acid i e = (case cancel_in acid i e of Some (True, e) \<Rightarrow> Some e | _ \<Rightarrow> None)"

interpretation cancelling: conserving "\<lambda>e. exchange_ok e \<and> om_find (e_accounts e) acid \<noteq> None" total_money "cancel_step acid" for acid
proof unfold_locales
  fix s i s' c
  assume ok: "exchange_ok s \<and> om_find (e_accounts s) acid \<noteq> None" and "cancel_step acid i s = Some s'"
  then have "cancel_in acid i s = Some (True, s')" by (auto simp: cancel_step_def split: option.splits prod.splits bool.splits)
  then show "(exchange_ok s' \<and> om_find (e_accounts s') acid \<noteq> None) \<and> total_money c s' = total_money c s"
    using cancel_in_effect [of s acid i True s'] ok by simp
qed

lemma cancel_each_steps: "cancel_each acid xs e = foldl (\<lambda>r i. Option.bind r (cancel_step acid i)) (Some e) xs"
proof (induction xs arbitrary: e)
  case (Cons i xs)
  show ?case
  proof (cases "cancel_step acid i e")
    case None
    then have "cancel_each acid (i # xs) e = None" by (auto simp: cancel_step_def split: option.splits prod.splits bool.splits)
    then show ?thesis using None cancelling.bind_steps_None [of acid xs] by simp
  next
    case (Some e1)
    then have "cancel_in acid i e = Some (True, e1)" by (auto simp: cancel_step_def split: option.splits prod.splits bool.splits)
    then show ?thesis using Some Cons by simp
  qed
qed simp

lemma cancel_each_effect:
  "cancel_each acid xs e = Some e' \<Longrightarrow> exchange_ok e \<Longrightarrow> om_find (e_accounts e) acid \<noteq> None \<Longrightarrow>
   exchange_ok e' \<and> total_money cur e' = total_money cur e"
  using cancelling.steps_conserve [of acid e xs e'] by (simp add: cancel_each_steps)

inductive cex_run :: "(string \<Rightarrow> nat) \<Rightarrow> exchange \<Rightarrow> (int \<Rightarrow> u64) \<Rightarrow> bool" for hash where
  run_start: "cex_run hash (snd (new_account hash ''11111111'' engine0)) (\<lambda>_. 0)"
| run_market: "cex_run hash e l \<Longrightarrow> wc \<noteq> sc \<Longrightarrow> cex_run hash (create_market wc sc e) l"
| run_ruler: "cex_run hash e l \<Longrightarrow> set_ruler i j mn mx inc e = Some e' \<Longrightarrow> cex_run hash e' l"
| run_account: "cex_run hash e l \<Longrightarrow> cex_run hash (snd (new_account hash pwd e)) l"
| run_wallet: "cex_run hash e l \<Longrightarrow> cex_run hash (new_wallet hash acid pwd cid e) l"
| run_deposit: "cex_run hash e l \<Longrightarrow>
    cex_run hash (request_deposit hash acid pwd cid amount e)
      (\<lambda>c. l c + (if granted hash acid pwd cid amount e then coins cid (wd (efp_encode amount)) c else 0))"
| run_withdraw: "cex_run hash e l \<Longrightarrow>
    cex_run hash (request_withdraw hash acid pwd cid amount e) (\<lambda>c. l c - coins cid (wd (taken hash acid pwd cid amount e)) c)"
| run_order: "cex_run hash e l \<Longrightarrow> accepted acid wc sc cid limit amount buy low e \<Longrightarrow>
    sell acid wc sc cid limit amount buy low e = Some e' \<Longrightarrow> cex_run hash e' l"
| run_cancel: "cex_run hash e l \<Longrightarrow> cancel_order hash acid pwd i e = Some e' \<Longrightarrow> cex_run hash e' l"
| run_cancel_all: "cex_run hash e l \<Longrightarrow> cancel_all_orders hash list acid pwd e = Some e' \<Longrightarrow> cex_run hash e' l"

lemma start_effect: "exchange_ok (snd (new_account hash ''11111111'' engine0)) \<and> total_money cur (snd (new_account hash ''11111111'' engine0)) = 0"
  by (simp add: new_account_def engine0_def Let_def account0_def om_empty_def account_new_wallet_def om_emplace_def om_find_def cur_eur_def
      cur_gbp_def cur_usd_def exchange_ok_def accounts_ok_def system_account_def om_ok_def store_ok_def heap_ok_def total_money_def
      wallet_money_def wrap64_def)

text \<open>
  C10. In every exchange that is reached with accepted orders, cancellations, deposits, withdrawals and new accounts, wallets, markets and
  rulers, the tables agree, and the money of a currency in wallets and queues is what was deposited less what was withdrawn.
\<close>

theorem exchange_ledger:
  "cex_run hash e l \<Longrightarrow> exchange_ok e \<and> (\<forall>cur. wd (total_money cur e) = l cur)"
proof (induction rule: cex_run.induct)
  case run_start
  then show ?case using start_effect by simp
next
  case (run_deposit e l acid pwd cid amount)
  then show ?case
    using payment_exchange [OF _ request_deposit_payment [where hash = hash and acid = acid and pwd = pwd and cid = cid and amount = amount]] by simp
next
  case (run_withdraw e l acid pwd cid amount)
  then show ?case
    using payment_exchange [OF _ request_withdraw_payment [where hash = hash and acid = acid and pwd = pwd and cid = cid and amount = amount]] by (simp add: coins_def)
next
  case (run_wallet e l acid pwd cid)
  then show ?case using payment_exchange [OF _ new_wallet_payment [where hash = hash and acid = acid and pwd = pwd and cid = cid]] by simp
next
  case (run_cancel_all e l list acid pwd e')
  then show ?case
    using auth_account [of hash acid pwd e] cancel_each_effect [of acid _ e e']
    by (auto simp: cancel_all_orders_def split: if_splits option.splits)
next
  case (run_market e l wc sc)
  then show ?case using create_market_effect [of e wc sc] by simp
next
  case (run_ruler e l i j mn mx inc e')
  then show ?case using set_ruler_effect [of e i j mn mx inc e'] by simp
next
  case (run_account e l pwd)
  then show ?case using new_account_effect [of e hash pwd] by simp
next
  case (run_order e l acid wc sc cid limit amount buy low e')
  then show ?case using sell_effect [of e acid wc sc cid limit amount buy low e'] by simp
next
  case (run_cancel e l acid pwd i e')
  then show ?case using cancel_order_effect [of e hash acid pwd i e'] by simp
qed

text \<open>The engine starts, with nothing in it.\<close>

lemma set_ruler_total: "0 < inc \<Longrightarrow> set_ruler i j mn mx inc e \<noteq> None"
  using generate_rates_eq [of "ruler_update mn mx inc"] ruler_update_ends(5) [of inc mn mx]
  by (auto simp: set_ruler_def market_set_ruler_def Let_def split: option.splits)

lemma run_markets:
  "cex_run hash e l \<Longrightarrow> \<forall>(wc, sc, x) \<in> set ms. wc \<noteq> sc \<Longrightarrow> cex_run hash (foldl (\<lambda>e (wc, sc, _). create_market wc sc e) e ms) l"
  by (induction ms arbitrary: e) (auto intro: run_market)

lemma run_rulers:
  "cex_run hash e l \<Longrightarrow>
   \<exists>e'. foldl (\<lambda>r (wc, sc, mn, mx). Option.bind r (set_ruler wc sc mn mx rate_multiples)) (Some e) ms = Some e' \<and> cex_run hash e' l"
proof (induction ms arbitrary: e)
  case (Cons m ms)
  obtain wc sc mn mx where m: "m = (wc, sc, mn, mx)" by (cases m)
  obtain e1 where e1: "set_ruler wc sc mn mx rate_multiples e = Some e1"
    using set_ruler_total [of rate_multiples wc sc mn mx e] by (auto simp: rate_multiples_def)
  then show ?case using Cons.IH [OF run_ruler [OF Cons.prems e1]] by (simp add: m)
qed simp

theorem engine_starts: "\<exists>e. engine_start hash = Some e \<and> cex_run hash e (\<lambda>_. 0)"
proof -
  have "\<forall>(wc, sc, x) \<in> set sample_markets. wc \<noteq> sc"
    by (simp add: sample_markets_def cur_eur_def cur_usd_def cur_gbp_def cur_aud_def)
  then show ?thesis
    unfolding engine_start_def Let_def using run_rulers run_markets [OF run_start] by blast
qed

end
