(* ===== verification/Exchange_Cases.thy ===== *)
theory Exchange_Cases
  imports Exchange_Ledger
begin

text \<open>
  Runs of the exchange on concrete requests, and what some requests do that the accounting does not survive.
\<close>

section \<open>Exact numbers\<close>

text \<open>Dyadic fractions with 53 bits are not rounded.\<close>

lemma fl_exact:
  assumes "x = of_int n / 2 ^ k" "0 \<le> n" "n < 2 ^ 53"
  shows "fl x = x"
proof (cases "n = 0")
  case False
  have x: "0 < x" using False assms by simp
  let ?e = "ulp_exp x"
  have "?e \<le> - int k"
  proof (rule ccontr)
    assume "\<not> ?e \<le> - int k"
    then have "- int k + 1 \<le> ?e" by simp
    then obtain d where d: "?e = (- int k + 1) + int d" by (metis zle_iff_zadd)
    have "pow2 ?e = pow2 (- int k) * pow2 1 * 2 ^ d" unfolding d pow2_add pow2_nat by simp
    then have "2 ^ 53 / 2 ^ k \<le> 2 ^ 52 * pow2 ?e" by (simp add: pow2_def field_simps)
    also have "\<dots> \<le> x" by (rule ulp_exp_bound [OF x])
    finally have "2 ^ 53 \<le> (of_int n :: rat)" by (simp add: assms(1) field_simps)
    then show False using assms(3) by (metis not_le of_int_le_iff of_int_numeral of_int_power)
  qed
  then obtain d where d: "- int k = ?e + int d" by (metis zle_iff_zadd)
  have "x = of_int n * pow2 (- int k)" by (simp add: assms(1) pow2_def field_simps)
  also have "pow2 (- int k) = pow2 ?e * 2 ^ d" unfolding d pow2_add pow2_nat by simp
  finally have x2: "x = of_int (n * 2 ^ d) * pow2 ?e" by (simp add: ac_simps)
  have q: "x / pow2 ?e = of_int (n * 2 ^ d)" using pow2_pos [of ?e] by (subst (1) x2) (metis less_irrefl nonzero_mult_div_cancel_right)
  have "round_even (of_int (n * 2 ^ d)) = n * 2 ^ d" by (simp only: round_even_def floor_of_int Let_def) simp
  then have "fl x = of_int (n * 2 ^ d) * pow2 ?e"
    using x unfolding fl_def Let_def abs_of_pos [OF x] q by simp
  then show ?thesis using x2 by simp
qed (simp add: fl_def assms)

lemma sample_doubles: "fl 5 = 5" "fl (3 / 2) = 3 / 2" "fl (15 / 2) = 15 / 2" "fl 750000 = 750000" "fl 500000 = 500000"
  by (rule fl_exact [of _ 5 0] fl_exact [of _ 3 1] fl_exact [of _ 15 1] fl_exact [of _ 750000 0] fl_exact [of _ 500000 0]; simp)+

lemma sample_products: "dbl_mul 500000 150000 = 750000" "dbl_div 750000 150000 = 500000"
  by (simp_all add: dbl_mul_def dbl_div_def encode_dbl_def efp_one_def decode_dbl_eq sample_doubles)

section \<open>A small exchange\<close>

text \<open>Alice (account 2) has ten euros or dollars, bob (account 3) nothing; euros are sold for pounds at 1 or 1.5.\<close>

definition sample_opened :: "(string \<Rightarrow> nat) \<Rightarrow> exchange" where
  "sample_opened hash =
     the (set_ruler cur_eur cur_gbp 100000 150000 50000
       (create_market cur_eur cur_gbp
         (snd (new_account hash ''bob12345'' (snd (new_account hash ''alice123'' (snd (new_account hash ''11111111'' engine0))))))))"

definition sample :: "(string \<Rightarrow> nat) \<Rightarrow> int \<Rightarrow> exchange" where
  "sample hash cur = request_deposit hash 2 ''alice123'' cur ''10.00000'' (sample_opened hash)"

lemma sample_rates: "generate_rates (ruler_update 100000 150000 50000) = Some [100000, 150000]"
  by (simp add: generate_rates_eq ruler_update_def Let_def c_rem_def upt_conv_Cons)

lemmas sample_simps = engine0_def account0_def om_empty_def account_new_wallet_def om_emplace_def om_find_def cur_eur_def cur_gbp_def
  cur_usd_def Let_def

lemma efp_not_negative: "0 \<le> v \<Longrightarrow> \<not> negative_text (efp_decode v)"
  using read_double_efp [of v] fl_nonneg [of "of_int v / 100000"] by (auto simp: negative_text_def)

lemmas efp_decode_simps = efp_decode_def show_int_def show_nat.simps digit_char_def efp_precision_def char_of_def bit_0

lemma sample_text: "efp_encode ''10.00000'' = 1000000" "\<not> negative_text ''10.00000''"
proof -
  have d: "efp_decode 1000000 = ''10.00000''"
    by (simp add: efp_decode_simps)
  show "efp_encode ''10.00000'' = 1000000" using efp_text_roundtrip [of 1000000] by (simp add: d)
  show "\<not> negative_text ''10.00000''" using efp_not_negative [of 1000000] by (simp add: d)
qed

definition sample_account :: "nat \<Rightarrow> efp \<Rightarrow> efp \<Rightarrow> nat set \<Rightarrow> account" where
  "sample_account pwd euros dollars ords = \<lparr>a_wallets = [(1, euros), (2, dollars), (3, 0)], a_orders = ords, a_password = pwd, a_discount = 0\<rparr>"

definition sample_market :: "(efp, wqueues) omap \<Rightarrow> (nat, efp) omap \<Rightarrow> market" where
  "sample_market qs ids =
     \<lparr>mk_weak_cur = 1, mk_strong_cur = 3, mk_ruler = ruler_update 100000 150000 50000,
      mk_weak = \<lparr>f_cur = 1, f_invert = False, f_queues = qs, f_by_order = ids, f_valid = Some {100000, 150000}\<rparr>,
      mk_strong = \<lparr>f_cur = 3, f_invert = True, f_queues = [], f_by_order = [], f_valid = Some {100000, 150000}\<rparr>,
      mk_rates = [100000, 150000]\<rparr>"

definition sample_exchange ::
  "(string \<Rightarrow> nat) \<Rightarrow> efp \<Rightarrow> efp \<Rightarrow> nat set \<Rightarrow> (efp, wqueues) omap \<Rightarrow> (nat, efp) omap \<Rightarrow> order_heap \<Rightarrow> exchange" where
  "sample_exchange hash euros dollars ords qs ids h =
     \<lparr>e_accounts = [(1, sample_account (hash ''11111111'') 0 0 {}), (2, sample_account (hash ''alice123'') euros dollars ords),
        (3, sample_account (hash ''bob12345'') 0 0 {})],
      e_orders = ords, e_markets = [((1, 3), sample_market qs ids)],
      e_store = \<lparr>o_heap = h, o_next = Suc (length h)\<rparr>, e_next_account = 4, e_auto_match_free = True\<rparr>"

lemma sample_opened_eq: "sample_opened hash = sample_exchange hash 0 0 {} [] [] []"
  by (simp add: sample_opened_def new_account_def sample_simps create_market_def set_ruler_def find_market_def set_market_def
    market_set_ruler_def sample_rates market_key_def market0_def front0_def sample_exchange_def sample_account_def sample_market_def)

lemmas deposit_simps = sample_def sample_opened_eq request_deposit_def auth_def system_account_def sample_exchange_def sample_account_def
  is_valid_cur_def currencies_def sample_simps sample_text at_account_def account_deposit_def cex_deposit_def wrap64_def

lemma sample_eq: "sample hash cur_eur = sample_exchange hash 1000000 0 {} [] [] []" "sample hash cur_usd = sample_exchange hash 0 1000000 {} [] [] []"
  by (simp_all add: deposit_simps)

section \<open>An order waits\<close>

lemma front_match_empty:
  "f_queues f = [] \<Longrightarrow> front_match w limit amount cur lay_cur buy f h = Some (matches0\<lparr>m_unmatched := amount\<rparr>, w, f, h)"
  by (simp add: front_match_def front_match_loop.simps [of _ _ _ _ _ f] f_top_def matches0_def)

definition sample_order :: cex_order where
  "sample_order = \<lparr>o_id = 1, o_value = 500000, o_buy = False, o_weak = True, o_account = 2, o_recv_cur = 3, o_paid_cur = 1,
     o_rate = 150000, o_weak_cur = 1, o_strong_cur = 3\<rparr>"

definition sample_queues :: "(efp, wqueues) omap" where
  "sample_queues = [(150000, \<lparr>wq_high = \<lparr>wq_rate = 150000, wq_invert = False, wq_ids = [1], wq_value = 500000\<rparr>,
     wq_low = wqueue0 150000 False, wq_hash_low = {}\<rparr>)]"

definition sample_waiting :: "(string \<Rightarrow> nat) \<Rightarrow> efp \<Rightarrow> efp \<Rightarrow> exchange" where
  "sample_waiting hash euros dollars = sample_exchange hash euros dollars {1} sample_queues [(1, 150000)] [(1, sample_order)]"

lemma sample_could_match: "could_match_value 1000000 150000 500000 True False = Some True"
  by (simp add: could_match_value.simps [of 1000000] to_match_def sample_products)

lemmas sell_simps = sell_def find_market_def market_key_def market_trade_def trade_weak_def trade_on_def front_match_empty queue_unmatched_def
  trade_result0_def own_front_def set_front_def own_cur_def matches0_def front_new_order_def get_queue_rate_def qs_new_order_def
  wq_new_order_def new_cex_order_def wqueues0_def wqueue0_def cex_withdraw_def wrap64_def at_account_def set_market_def process_result_def
  register_order_def at_heap_def set_data_def track_order_def om_find_def Let_def

lemma sample_sells:
  "sell 2 1 3 1 150000 500000 False False (sample hash cur_eur) = Some (sample_waiting hash 500000 0)"
  "sell 2 1 3 2 150000 500000 False False (sample hash cur_usd) = Some (sample_waiting hash 0 500000)"
  by (simp_all add: sample_eq sample_exchange_def sample_account_def sample_market_def sell_simps sample_could_match sample_waiting_def
      om_emplace_def sample_order_def sample_queues_def)

lemma sample_run:
  assumes "cur = cur_eur \<or> cur = cur_usd"
  shows "cex_run hash (sample hash cur) (coins cur 1000000)"
proof -
  let ?e = "create_market cur_eur cur_gbp (snd (new_account hash ''bob12345'' (snd (new_account hash ''alice123'' (snd (new_account hash ''11111111'' engine0))))))"
  have "cex_run hash ?e (\<lambda>_. 0)"
    by (intro run_market run_account run_start) (simp add: cur_eur_def cur_gbp_def)
  moreover obtain e1 where "set_ruler cur_eur cur_gbp 100000 150000 50000 ?e = Some e1"
    using set_ruler_total [of 50000 cur_eur cur_gbp 100000 150000 ?e] by auto
  ultimately have "cex_run hash (sample_opened hash) (\<lambda>_. 0)" by (auto simp: sample_opened_def intro: run_ruler)
  then have "cex_run hash (sample hash cur) (\<lambda>c. 0 + (if granted hash 2 ''alice123'' cur ''10.00000'' (sample_opened hash)
      then coins cur (wd (efp_encode ''10.00000'')) c else 0))"
    unfolding sample_def by (rule run_deposit)
  moreover have "granted hash 2 ''alice123'' cur ''10.00000'' (sample_opened hash)"
    using assms by (auto simp: granted_def deposit_simps)
  ultimately show ?thesis by (simp add: sample_text)
qed

lemma waiting_run: "cex_run hash (sample_waiting hash 500000 0) (coins cur_eur 1000000)"
proof (rule run_order [OF sample_run [OF disjI1 [OF refl]] _ sample_sells(1)])
  show "accepted 2 1 3 1 150000 500000 False False (sample hash cur_eur)"
    by (simp add: accepted_def sample_eq sample_exchange_def sample_account_def sample_market_def sell_simps sample_could_match om_emplace_def)
qed

text \<open>The ledger of a run with an order that waits.\<close>

theorem exchange_ledger_witness:
  "cex_run length (sample_waiting length 500000 0) (coins cur_eur 1000000)
   \<and> exchange_ok (sample_waiting length 500000 0) \<and> (\<forall>cur. wd (total_money cur (sample_waiting length 500000 0)) = coins cur_eur 1000000 cur)"
  using waiting_run [of length] exchange_ledger [OF waiting_run [of length]] by blast

section \<open>Matches\<close>

text \<open>
  C13. All matches of a trade are with orders of the other front and at a rate that is not worse than the limit; what one side pays the other
  receives, in the two currencies of the market.
\<close>

theorem trade_within_limit:
  assumes "trade_on wk w limit amount buy low m st = Some (r, w', m', st')" "\<not> t_error r" "market_ok (o_heap st) m" "store_ok st"
  shows "\<forall>i \<in> set (m_items (t_matches r)). (if wk then mi_rate i \<le> limit else mi_rate i \<ge> limit)
    \<and> mi_order i \<in> f_ids (own_front (\<not> wk) m) \<and> fair (own_cur wk m) (own_cur (\<not> wk) m) i"
  using trade_on_effect [OF assms] unfolding trade_leg_def Let_def by blast

text \<open>Bob buys three of the five euros for two pounds.\<close>

lemma matched_products: "dbl_div 300000 150000 = 200000" "dbl_mul 200000 150000 = 300000"
proof -
  have f: "fl 3 = 3" "fl 2 = 2" "fl 200000 = 200000" "fl 300000 = 300000"
    by (rule fl_exact [of _ 3 0] fl_exact [of _ 2 0] fl_exact [of _ 200000 0] fl_exact [of _ 300000 0]; simp)+
  show "dbl_div 300000 150000 = 200000" "dbl_mul 200000 150000 = 300000"
    by (simp_all add: dbl_mul_def dbl_div_def encode_dbl_def efp_one_def decode_dbl_eq sample_doubles f)
qed

lemma matched_queue:
  "wq_match 3 1 True True \<lparr>wq_rate = 150000, wq_invert = False, wq_ids = [1], wq_value = 500000\<rparr>
     \<lparr>ms_wallet = 1000000, ms_heap = [(1, sample_order)], ms_matches = matches0, ms_left = 300000\<rparr>
   = Some (\<lparr>wq_rate = 150000, wq_invert = False, wq_ids = [1], wq_value = 200000\<rparr>,
       \<lparr>ms_wallet = 800000, ms_heap = [(1, sample_order\<lparr>o_value := 200000\<rparr>)],
        ms_matches = matches0\<lparr>m_items := [match_item sample_order 150000 200000 300000 3 1 True True], m_updated := [1]\<rparr>, ms_left = 0\<rparr>)"
  apply (subst wq_match.simps, simp add: could_match_value.simps [of 1000000] order_match.simps [of 1000000] to_match_def matched_products Let_def sample_order_def om_find_def
    matched_first_def matches0_def could_match_amount_def cex_withdraw_def wrap64_def match_item_def)
  apply (subst wq_match.simps, simp add: could_match_value.simps [of 800000] to_match_def)
  done

definition sample_store :: order_store where "sample_store = \<lparr>o_heap = [(1, sample_order)], o_next = 2\<rparr>"

lemma matched_trade:
  obtains r m' st' where "trade_on False 1000000 150000 300000 True False (sample_market sample_queues [(1, 150000)]) sample_store = Some (r, 800000, m', st')"
    "\<not> t_error r" "m_items (t_matches r) = [match_item sample_order 150000 200000 300000 3 1 True True]"
proof -
  have m0: "m_expired matches0 = []" by (simp add: matches0_def)
  let ?f = "own_front True (sample_market sample_queues [(1, 150000)])"
  have "\<exists>f' h'. front_match 1000000 150000 300000 3 1 True ?f [(1, sample_order)]
    = Some (matches0\<lparr>m_items := [match_item sample_order 150000 200000 300000 3 1 True True], m_updated := [1], m_unmatched := 0\<rparr>, 800000, f', h')"
    by (simp add: front_match_def front_match_loop.simps [of _ _ _ _ None] front_match_loop.simps [of _ _ _ _ "Some _"] own_front_def
        sample_market_def f_top_def sample_queues_def wq_compare_def qs_match_def matched_queue [unfolded One_nat_def] trim_def qs_has_value_def
        wqueue0_def m0 Let_def)
  then show thesis
    using that by (auto simp: trade_on_def queue_unmatched_def trade_result0_def sample_store_def own_cur_def sample_market_def matches0_def Let_def)
qed

theorem trade_within_limit_witness:
  "\<exists>r w' m' st'. trade_on False 1000000 150000 300000 True False (sample_market sample_queues [(1, 150000)]) sample_store = Some (r, w', m', st')
     \<and> m_items (t_matches r) \<noteq> []
     \<and> (\<forall>i \<in> set (m_items (t_matches r)). mi_rate i \<ge> 150000
         \<and> mi_order i \<in> f_ids (own_front True (sample_market sample_queues [(1, 150000)])) \<and> fair 3 1 i)"
proof -
  obtain r m' st' where t: "trade_on False 1000000 150000 300000 True False (sample_market sample_queues [(1, 150000)]) sample_store = Some (r, 800000, m', st')"
    "\<not> t_error r" "m_items (t_matches r) = [match_item sample_order 150000 200000 300000 3 1 True True]" by (rule matched_trade)
  have q: "front_ok [(1, sample_order)] 1 3 (own_front wk (sample_market sample_queues [(1, 150000)]))" for wk
    by (simp add: front_ok_def own_front_def sample_market_def sample_queues_def queues_ok_def q_ids_def wqueue0_def placed_def sample_order_def
        om_find_def om_ok_def)
  have m: "market_ok (o_heap sample_store) (sample_market sample_queues [(1, 150000)])"
    using q [of True] q [of False]
    by (simp add: market_ok_def all_bool_eq own_cur_def sample_store_def own_front_def sample_market_def)
  have st: "store_ok sample_store"
    by (simp add: store_ok_def heap_ok_def sample_store_def om_ok_def om_find_def sample_order_def)
  have "own_cur wk (sample_market sample_queues [(1, 150000)]) = (if wk then 1 else 3)" for wk by (simp add: own_cur_def sample_market_def)
  then show ?thesis using trade_within_limit [OF t(1,2) m st] t by (intro exI conjI) auto
qed

section \<open>Whose order\<close>

definition update0 :: "string \<Rightarrow> updateinput" where
  "update0 amount = \<lparr>ui_order = ''1'', ui_amount = amount, ui_rate = ''1.50000''\<rparr>"

lemma update_text:
  "\<exists>r. read_unsigned 64 (istr ''1'') = (Some 1, r)" "efp_encode ''0.00000'' = 0" "\<not> negative_text ''0.00000''"
  "efp_encode ''1.50000'' = 150000" "\<exists>r. read_double (istr ''1.50000'') = (Some (3 / 2), r)"
proof -
  have "replicate 4 CHR ''0'' = ''0000''" by (simp add: eval_nat_numeral)
  then have d: "efp_decode 0 = ''0.00000''" "efp_decode 150000 = ''1.50000''" by (simp_all add: efp_decode_simps)
  show "efp_encode ''0.00000'' = 0" "efp_encode ''1.50000'' = 150000"
    using efp_text_roundtrip [of 0] efp_text_roundtrip [of 150000] by (simp_all add: d)
  show "\<not> negative_text ''0.00000''" using efp_not_negative [of 0] by (simp add: d)
  show "\<exists>r. read_double (istr ''1.50000'') = (Some (3 / 2), r)" using read_double_efp [of 150000] by (simp add: d sample_doubles)
  show "\<exists>r. read_unsigned 64 (istr ''1'') = (Some 1, r)"
    by (simp add: read_unsigned_def read_digits_def sentry_def isspace_def isdigit_def parse_nat_def be_val_def digit_val_def)
qed

lemmas waiting_simps = sample_waiting_def sample_exchange_def sample_account_def sample_market_def sample_order_def sample_queues_def

lemmas cancel_simps = cancel_in_def om_find_def find_market_def market_key_def market_cancel_def has_order_def own_front_def front_cancel_def
  get_queue_id_def qs_cancel_def wq_cancel_def om_erase_def set_front_def trim_def qs_has_value_def wqueue0_def set_market_def
  account_deposit_def untrack_order_def account_new_wallet_def cex_deposit_def wrap64_def at_heap_def at_account_def Let_def

lemma sample_stolen:
  obtains e' where "update_one junk 3 (sample_waiting hash 500000 0) (update0 ''0.00000'') = Some e'"
    "om_find (e_accounts e') 3 = Some (sample_account (hash ''bob12345'') 500000 0 {})"
proof -
  obtain r r' where r: "read_double (istr ''1.50000'') = (Some (3 / 2), r)" "read_unsigned 64 (istr ''1'') = (Some 1, r')"
    using update_text(1,5) by blast
  show thesis
    by (rule that, simp add: update_one_def update_text(2-4) r update0_def waiting_simps cancel_simps) (simp add: sample_account_def om_find_def)
qed

text \<open>
  C38. The request for several orders does not ask whose they are: in an exchange that is run as intended bob, who has nothing, cancels the order
  of another account and has its five euros.
\<close>

theorem stolen_order:
  "\<exists>e e'. cex_run hash e (coins cur_eur 1000000) \<and> \<not> belongs 3 1 e \<and> update_one junk 3 e (update0 ''0.00000'') = Some e'
     \<and> om_find (e_accounts e) 3 = Some (sample_account (hash ''bob12345'') 0 0 {})
     \<and> om_find (e_accounts e') 3 = Some (sample_account (hash ''bob12345'') 500000 0 {})"
proof -
  obtain e' where "update_one junk 3 (sample_waiting hash 500000 0) (update0 ''0.00000'') = Some e'"
    "om_find (e_accounts e') 3 = Some (sample_account (hash ''bob12345'') 500000 0 {})" by (rule sample_stolen)
  moreover have "\<not> belongs 3 1 (sample_waiting hash 500000 0)" by (simp add: belongs_def waiting_simps om_find_def)
  moreover have "om_find (e_accounts (sample_waiting hash 500000 0)) 3 = Some (sample_account (hash ''bob12345'') 0 0 {})"
    by (simp add: waiting_simps om_find_def)
  ultimately show ?thesis using waiting_run by blast
qed

section \<open>Money made\<close>

text \<open>An order that cannot be queued is paid back without having been charged.\<close>

lemma refused_products: "dbl_mul 500000 125000 = 625000" "dbl_div 625000 125000 = 500000"
proof -
  have f: "fl (5 / 4) = 5 / 4" "fl (25 / 4) = 25 / 4" "fl 625000 = 625000"
    by (rule fl_exact [of _ 5 2] fl_exact [of _ 25 2] fl_exact [of _ 625000 0]; simp)+
  show "dbl_mul 500000 125000 = 625000" "dbl_div 625000 125000 = 500000"
    by (simp_all add: dbl_mul_def dbl_div_def encode_dbl_def efp_one_def decode_dbl_eq sample_doubles f)
qed

lemma refused_could_match: "could_match_value 1000000 125000 500000 True False = Some True"
  by (simp add: could_match_value.simps [of 1000000] to_match_def refused_products)

lemma refused_sells: "sell 2 1 3 1 125000 500000 False False (sample hash cur_eur) = Some (sample_exchange hash 1500000 0 {} [] [] [])"
  by (simp add: sample_eq sample_exchange_def sample_account_def sample_market_def sell_simps refused_could_match account_deposit_def
      account_new_wallet_def cex_deposit_def)

lemma sample_money:
  "total_money cur_eur (sample_exchange hash euros dollars ords [] ids h) = wrap64 euros"
  by (simp add: total_money_def wallet_money_def sample_exchange_def sample_account_def sample_market_def front_money_def cur_eur_def om_find_def)

lemma refused_order_pays:
  "\<exists>e e'. cex_run hash e (coins cur_eur 1000000) \<and> sell 2 cur_eur cur_gbp cur_eur 125000 500000 False False e = Some e'
     \<and> total_money cur_eur e' = 1500000"
proof (intro exI conjI)
  show "cex_run hash (sample hash cur_eur) (coins cur_eur 1000000)" by (rule sample_run) simp
  show "sell 2 cur_eur cur_gbp cur_eur 125000 500000 False False (sample hash cur_eur) = Some (sample_exchange hash 1500000 0 {} [] [] [])"
    using refused_sells by (simp add: cur_eur_def cur_gbp_def)
qed (simp add: sample_money wrap64_def)

text \<open>An order grows beyond the wallet.\<close>

lemma grown_text: "efp_encode ''30.00000'' = 3000000"
proof -
  have "efp_decode 3000000 = ''30.00000''" by (simp add: efp_decode_simps)
  then show ?thesis using efp_text_roundtrip [of 3000000] by simp
qed

lemma sample_grown:
  obtains e' where "update_order hash 2 ''alice123'' 1 ''30.00000'' (sample_waiting hash 500000 0) = Some e'" "total_money cur_eur e' = 3000000"
  by (rule that, simp add: update_order_def grown_text waiting_simps auth_def system_account_def belongs_def update_in_def om_find_def
      budget_for_update_def account_withdraw_def cex_withdraw_def check_withdrawn_def find_market_def market_key_def market_update_def
      has_order_def own_front_def front_update_def get_queue_id_def qs_update_def wq_update_def new_cex_order_def set_front_def
      om_emplace_def set_market_def at_heap_def at_account_def wrap64_def Let_def wqueue0_def)
    (simp add: total_money_def wallet_money_def front_money_def cur_eur_def om_find_def qs_value_def wrap64_def track_order_def)

lemma grown_order:
  "\<exists>e e'. cex_run hash e (coins cur_eur 1000000) \<and> update_order hash 2 ''alice123'' 1 ''30.00000'' e = Some e' \<and> total_money cur_eur e' = 3000000"
  using waiting_run [of hash] sample_grown [of hash] by metis

text \<open>Dollars are paid where euros are sold.\<close>

lemma sample_swapped:
  obtains e' where "cancel_order hash 2 ''alice123'' 1 (sample_waiting hash 0 500000) = Some e'"
    "om_find (e_accounts e') 2 = Some (sample_account (hash ''alice123'') 500000 500000 {})"
  by (rule that, simp add: cancel_order_def auth_def system_account_def belongs_def waiting_simps cancel_simps)
    (simp add: sample_account_def om_find_def)

lemma swapped_money:
  "\<exists>e e1 e2. cex_run hash e (coins cur_usd 1000000)
     \<and> sell 2 cur_eur cur_gbp cur_usd 150000 500000 False False e = Some e1 \<and> cancel_order hash 2 ''alice123'' 1 e1 = Some e2
     \<and> om_find (e_accounts e2) 2 = Some (sample_account (hash ''alice123'') 500000 500000 {})"
proof -
  obtain e2 where "cancel_order hash 2 ''alice123'' 1 (sample_waiting hash 0 500000) = Some e2"
    "om_find (e_accounts e2) 2 = Some (sample_account (hash ''alice123'') 500000 500000 {})" by (rule sample_swapped)
  then show ?thesis
    using sample_run [OF disjI2 [OF refl], of hash] sample_sells(2) [of hash] by (auto simp: cur_eur_def cur_gbp_def cur_usd_def)
qed


section \<open>A match that does not end\<close>

text \<open>The smallest amount costs nothing at a rate above one.\<close>

lemma tiny_cost: "dbl_div 1 150000 = 0"
proof -
  define x where "x = fl (1 / 100000)"
  have x: "0 \<le> x" "x \<le> 1 / 99999" using fl_upper [of "1 / 100000"] fl_nonneg [of "1 / 100000"] by (simp_all add: x_def)
  define y where "y = fl (x * 2 / 3)"
  have y: "0 \<le> y" "y \<le> 1 / 149990" using fl_upper [of "x * 2 / 3"] fl_nonneg [of "x * 2 / 3"] x by (simp_all add: y_def)
  define z where "z = fl (y * 100000)"
  have z: "0 \<le> z" "z < 1" using fl_upper [of "y * 100000"] fl_nonneg [of "y * 100000"] y by (simp_all add: z_def)
  then have "\<lfloor>z\<rfloor> = 0" by linarith
  then show ?thesis by (simp add: dbl_div_def encode_dbl_def efp_one_def decode_dbl_eq sample_doubles x_def [symmetric] y_def [symmetric] z_def)
qed

definition endless :: "int \<Rightarrow> int \<Rightarrow> bool \<Rightarrow> bool \<Rightarrow> wqueue \<Rightarrow> match_state \<Rightarrow> bool" where
  "endless cur lay_cur weak buy q s \<longleftrightarrow>
     weak \<and> buy \<and> wq_rate q = 150000 \<and> ms_left s = 1 \<and> 1 \<le> ms_wallet s \<and> om_ok (ms_heap s)
     \<and> (\<exists>i ids ord. wq_ids q = i # ids \<and> om_find (ms_heap s) i = Some ord \<and> 1 \<le> o_value ord)"

lemma endless_step:
  assumes "wq_ids q = i # ids" "om_find (ms_heap s) i = Some ord" "1 \<le> o_value ord" "wq_rate q = 150000" "ms_left s = 1" "1 \<le> ms_wallet s"
  shows "could_match_value (ms_wallet s) (wq_rate q) (ms_left s) True True = Some True"
    and "order_match (ms_wallet s) ord (m_items (ms_matches s)) (wq_rate q) (ms_left s) cur lay_cur True True
      = Some ((False, 1), ms_wallet s, ord, m_items (ms_matches s))"
  using assms by (simp_all add: could_match_value.simps [of "ms_wallet s"] order_match.simps [of "ms_wallet s"] to_match_def tiny_cost Let_def)

lemma wq_match_endless:
  assumes "wq_ids q = i # ids" "om_find (ms_heap s) i = Some ord" "1 \<le> o_value ord" "wq_rate q = 150000" "ms_left s = 1" "1 \<le> ms_wallet s"
    "om_ok (ms_heap s)"
  shows "wq_match cur lay_cur True True q s = None"
proof (rule ccontr)
  assume "wq_match cur lay_cur True True q s \<noteq> None"
  then obtain r where r: "wq_match cur lay_cur True True q s = Some r" by blast
  have "\<not> endless cur lay_cur True True q s"
  proof (rule wq_match.raw_induct [where P = "\<lambda>cur lay_cur weak buy q s r. \<not> endless cur lay_cur weak buy q s", OF _ r])
    fix f cur lay_cur weak buy q s and r :: "wqueue \<times> match_state"
    assume IH: "\<And>cur lay_cur weak buy q s (r :: wqueue \<times> match_state). f cur lay_cur weak buy q s = Some r \<Longrightarrow> \<not> endless cur lay_cur weak buy q s"
    assume st: "(case wq_ids q of
        [] \<Rightarrow> Some (q, s)
      | i # _ \<Rightarrow>
          (case could_match_value (ms_wallet s) (wq_rate q) (ms_left s) weak buy of
             None \<Rightarrow> None
           | Some go \<Rightarrow>
               (if \<not> go then Some (q, s)
                else case om_find (ms_heap s) i of
                       None \<Rightarrow> None
                     | Some ord \<Rightarrow>
                         (case order_match (ms_wallet s) ord (m_items (ms_matches s)) (wq_rate q) (ms_left s) cur lay_cur weak buy of
                            None \<Rightarrow> None
                          | Some ((b, left), w, ord', items) \<Rightarrow>
                              (let (q, s) = matched_first i ord b left w items ord' q s
                               in if could_match_amount (wq_rate q) (o_value ord') weak buy
                                  then f cur lay_cur weak buy q s
                                  else f cur lay_cur weak buy (drop_expired i ord' q) (expire i s)))))) = Some r"
    show "\<not> endless cur lay_cur weak buy q s"
    proof
      assume e: "endless cur lay_cur weak buy q s"
      then obtain i ids ord where E: "weak" "buy" "wq_rate q = 150000" "ms_left s = 1" "1 \<le> ms_wallet s" "om_ok (ms_heap s)"
        "wq_ids q = i # ids" "om_find (ms_heap s) i = Some ord" "1 \<le> o_value ord"
        by (auto simp: endless_def)
      obtain q1 s1 where m: "matched_first i ord False 1 (ms_wallet s) (m_items (ms_matches s)) ord q s = (q1, s1)" by fastforce
      have "f cur lay_cur True True q1 s1 = Some r"
        using st E endless_step(1) [OF E(7-9) E(3-5)] endless_step(2) [OF E(7-9) E(3-5), where cur = cur and lay_cur = lay_cur] m by (auto simp: could_match_amount_def matched_first_def split: if_splits)
      moreover have "endless cur lay_cur True True q1 s1"
        using E m by (auto simp: endless_def matched_first_def om_ok_set om_find_set)
      ultimately show False using IH by blast
    qed
  qed
  then show False using assms by (simp add: endless_def)
qed

text \<open>
  The purchase of the smallest amount, at a rate where it costs nothing, does not end: in an exchange that is run as intended the request
  of bob keeps the engine for ever.
\<close>

theorem endless_purchase:
  "\<exists>e. cex_run hash e (\<lambda>c. coins cur_eur 1000000 c + coins cur_gbp 1000000 c) \<and> auth hash 3 ''bob12345'' e
     \<and> sell 3 cur_eur cur_gbp cur_eur 150000 1 True False e = None"
proof -
  let ?e = "request_deposit hash 3 ''bob12345'' cur_gbp ''10.00000'' (sample_waiting hash 500000 0)"
  have g: "granted hash 3 ''bob12345'' cur_gbp ''10.00000'' (sample_waiting hash 500000 0)"
    by (simp add: granted_def waiting_simps auth_def system_account_def is_valid_cur_def currencies_def sample_simps sample_text)
  have "cex_run hash ?e (\<lambda>c. coins cur_eur 1000000 c + (if granted hash 3 ''bob12345'' cur_gbp ''10.00000'' (sample_waiting hash 500000 0)
      then coins cur_gbp (wd (efp_encode ''10.00000'')) c else 0))"
    by (rule run_deposit [OF waiting_run])
  then have run: "cex_run hash ?e (\<lambda>c. coins cur_eur 1000000 c + coins cur_gbp 1000000 c)" using g by (simp add: sample_text)
  have e: "?e = (sample_waiting hash 500000 0)\<lparr>e_accounts := [(1, sample_account (hash ''11111111'') 0 0 {}),
      (2, sample_account (hash ''alice123'') 500000 0 {1}),
      (3, \<lparr>a_wallets = [(1, 0), (2, 0), (3, 1000000)], a_orders = {}, a_password = hash ''bob12345'', a_discount = 0\<rparr>)]\<rparr>"
    by (simp add: waiting_simps deposit_simps)
  let ?q = "wq_high (snd (hd sample_queues))"
  have none: "wq_match 3 1 True True ?q \<lparr>ms_wallet = 1000000, ms_heap = [(1, sample_order)], ms_matches = matches0, ms_left = 1\<rparr> = None"
    by (rule wq_match_endless [where i = 1 and ids = "[]" and ord = sample_order])
      (simp_all add: sample_queues_def sample_order_def om_find_def om_ok_def)
  have "sell 3 cur_eur cur_gbp cur_eur 150000 1 True False ?e = None"
    unfolding e using none
    by (simp add: sell_def sample_waiting_def sample_exchange_def sample_market_def find_market_def market_key_def other_cur_def om_find_def
        market_trade_def trade_strong_def trade_on_def own_front_def own_cur_def front_match_def front_match_loop.simps [of _ _ _ _ None]
        f_top_def sample_queues_def wq_compare_def qs_match_def cur_eur_def cur_gbp_def sample_account_def Let_def)
  moreover have "auth hash 3 ''bob12345'' ?e" by (simp add: e auth_def system_account_def om_find_def)
  ultimately show ?thesis using run by blast
qed

end
