(* ===== verification/Spec2Isabelle.thy ===== *)
theory Spec2Isabelle
  imports Datagram Cash_Consensus Identity Reachable Wallet_File Connection_Runs Neighbours Pairing Wallet_Remote Exchange_Cases
begin

text \<open>
  \<^bold>\<open>Verification of the node, the wallet and the exchange.\<close>

  \<^bold>\<open>The program.\<close> A network of nodes agrees, in cycles of a minute, on a chain of blocks and on the data bases of two
  applications: one admits nodes to the network (\<open>auth_app\<close>), one keeps accounts of cash (\<open>cash::app\<close>). In a cycle each node publishes a
  signed summary of its mempool (\<open>local_deltas\<close>), merges those of the others into a block (\<open>diff\<close>), votes for the
  hash of the next block, and imports the block that won; a node that lost the agreed head walks back through saved blocks and asks
  its peers for missing ones. Peers are reached over datagrams in a stream; threads of a pool handle them while a thread of the server
  owns the connections. The wallet keeps private keys, asks a node for balances and makes signed transactions. The exchange is
  another program of the repository: accounts, orders and markets of currencies.

  \<^bold>\<open>Theories and sources\<close> (paths are under \<open>src/\<close>).
  \<^item> Foundations. \<open>Prelude\<close>: bytes, words, the signed wrap-around of 64 bits, positional numbers. \<open>Ordered_Map\<close> and
    \<open>Unordered_Map\<close>: \<open>std::map\<close> and \<open>std::unordered_map\<close>, the latter with the placement in its buckets as a parameter; their contracts are
    locales, interpreted on these models. \<open>Doubles\<close>, \<open>Double_Text\<close>: rounding to 53 bits, and the texts of \<open>double\<close>s.
    \<open>Streams\<close>: words, numbers and hashes in text streams.
  \<^item> \<open>gov/crypto\<close>. \<open>Base58\<close>; \<open>Block_Hash\<close> with \<open>Sha256\<close> and \<open>Ripemd160\<close> (the buffering class is a locale the two hash functions
    interpret, the rounds are those of the code line by line); \<open>Hash_Value\<close>; \<open>Ec_Keys\<close> over a library for the curve that is a parameter.
  \<^item> \<open>gov/socket\<close>. \<open>Datagram\<close>: the wire format and the receive loops. \<open>Connections\<close>, \<open>Connection_Runs\<close>: the life of the clients as a
    step relation between the server, the workers and other threads, with the addresses of objects as numbers.
  \<^item> \<open>gov/cash\<close>. \<open>Cash_Tx\<close>: transactions and what is signed. \<open>Cash_App\<close>, \<open>Cash_Ledger\<close>, \<open>Cash_Consensus\<close>: accounts, processing,
    merging of deltas, import and rewards.
  \<^item> \<open>gov/engine\<close>. \<open>Protocol\<close>, \<open>Mergers\<close>, \<open>Auth_App\<close>, \<open>Delta_Text\<close>, \<open>Diff\<close>, \<open>First_Block\<close>, \<open>Votes\<close>, \<open>Chain\<close>, \<open>Evidence\<close> (with
    \<open>gov/relay\<close>), \<open>Sync\<close>, \<open>Engine\<close>, and \<open>Reachable\<close>, which puts the threads of the node together as a transition system.
    The record \<open>daemon\<close> of \<open>Chain\<close> holds the data members of the node, each handler is a definition over it.
  \<^item> \<open>gov/id\<close>, \<open>gov/auth\<close>: \<open>Identity\<close>, the dialogue that identifies a peer. \<open>gov/peer\<close>: \<open>Neighbours\<close>, the choice of connections.
  \<^item> \<open>wallet\<close>. \<open>Wallet\<close>: keys, payments, signatures; \<open>Wallet_Node\<close>: the wallet against the handlers of the node; \<open>Wallet_File\<close>: what it
    writes and reads; \<open>Pairing\<close>: the devices that may use it; \<open>Wallet_Api\<close>: its commands (\<open>wallet_local_api.cpp\<close>), the daemon that
    serves them (\<open>daemon.cpp\<close>) and the client (\<open>rpc_api.cpp\<close>), with the properties in \<open>Wallet_Remote\<close>.
  \<^item> \<open>api\<close>. \<open>Api_Generator\<close> is the generator \<open>main.cpp\<close>, which writes the remote interfaces from the tables in \<open>data\<close>; \<open>Api_Tables\<close> is about
    what it reads and when it ends, \<open>Api_Services\<close> about the numbers of services it declares.
  \<^item> \<open>tex/cex\<close>. \<open>Exchange_Amounts\<close> (\<open>efp.cpp\<close>, \<open>currencies.cpp\<close>, \<open>wallet.cpp\<close>), \<open>Exchange_Queue\<close> (\<open>order.cpp\<close>, \<open>waiting_queue.cpp\<close>),
    \<open>Exchange_Market\<close> (\<open>front.cpp\<close>, \<open>market.cpp\<close>), \<open>Exchange\<close> (\<open>account.cpp\<close>, \<open>engine.cpp\<close>) are the model. \<open>Exchange_Matching\<close>,
    \<open>Exchange_Fronts\<close>, \<open>Exchange_Trades\<close>, \<open>Exchange_Accounting\<close> and \<open>Exchange_Ledger\<close> follow the money from one match to all requests;
    \<open>Exchange_Rates\<close> is about the ruler, \<open>Exchange_Cases\<close> has concrete runs.

  \<^bold>\<open>What is shown.\<close> For each component the maps stay maps and each operation does, on every branch, what its lemmas say. Beyond that:
  \<^item> consensus: the result of a vote is the plurality and does not depend on the order of arrival; only the voted block is
    imported; saved blocks replay to the state they led to; in all interleavings of the threads the state of the node is
    well formed and a proposed block that wins is imported;
  \<^item> money: transactions, rewards and the exchange neither make nor lose any, transactions need the keys of the
    accounts, trades keep the limits of the user, a payment of the wallet arrives;
  \<^item> remote use: the wallet's commands do over a connection what they do on the spot, and only for paired devices; the generator ends
    and the services it numbers are apart;
  \<^item> data: hashes are the standard ones however a message is cut; texts of transactions, blocks, keys and deltas are read back
    as written; datagrams are put together whatever the pieces;
  \<^item> resources: no thread uses a deleted client, dropped clients are freed, neighbours are bounded; loops end;
  \<^item> errors: what ends or blocks the process, lets others impersonate a node, or makes money in the exchange. Further lemmas
    named in their theories show the smaller ones.

  \<^bold>\<open>Errors, loops and bounds.\<close> A result \<open>None\<close> is a program that does not go on: a failed assertion, an uncaught exception, the
  use of a deleted object or a loop that does not end; results the code returns are in the value below it. Loops that may not
  end are \<open>partial_function (option)\<close>, so that not ending is \<open>None\<close> and no fuel is needed; the liveness and termination properties show
  that they return, some error properties that they do not. Integers have the width of the code: words, or \<open>wrap64\<close> where a signed type is computed with. Sums of money in the exchange are
  compared as words, since they wrap around in the code as well.

  \<^bold>\<open>Parameters.\<close> The placement in hash tables, the results of \<open>std::sort\<close> among equal keys, random draws and the clock, the curve library, the
  locking programs of others, the contents of uninitialised memory, the hash of passwords. Hypotheses about them state documented
  behaviour, and each property with hypotheses is applied at a concrete input by its witness.

  \<^bold>\<open>Not modelled.\<close> Console commands, dumps, statistics and configuration files (text for the operator); system calls of sockets and files
  (the bytes are the state, failures are results); the greeting of an admitted operator; thread start-up and the end of the program. In
  the connections the purge of the attic and the scan of the table are one step each. In the exchange: an engine with a directory
  and its files, reports to the user, the history of trades, the liquidity of the demonstration, and the locks: a
  request is one step. Whether the client of the wallet reaches its daemon is a parameter, and so is the error it prints otherwise. The
  command lines, the front ends of the exchange (a web gateway, a robot, a simulation), the application for loans, which is not
  registered, the thread pool and the symmetric encryption, which are or only call third-party code, and the tests.
\<close>

end
